(* ===== verification/Prelude.thy ===== *)
theory Prelude
  imports Main "HOL-Library.Word" "HOL-Library.Monad_Syntax"
begin

unbundle bit_operations_syntax

text \<open>
  Shared vocabulary of the development: the fixed-width integer types of the C++ sources, byte
  buffers with explicit bounds (a read or a write outside a buffer is the value \<open>None\<close>, which stands
  for the undefined behaviour of the C++ access), little-endian loads and stores, and the generic
  lemmas on words, lists and options that the component theories use.
\<close>

section \<open>Machine types\<close>

type_synonym u8 = "8 word"
type_synonym u16 = "16 word"
type_synonym u32 = "32 word"
type_synonym u64 = "64 word"

text \<open>A buffer is the list of its bytes; a pointer into it is an offset.\<close>

type_synonym buffer = "u8 list"
type_synonym ptr = nat

named_theorems buffer_simps \<open>evaluation and length facts for buffer accesses\<close>
named_theorems uleb_simps \<open>facts about the LEB128 codecs\<close>

section \<open>Buffers\<close>

text \<open>\<open>*p\<close> as an rvalue and \<open>*p = b\<close> as a statement.\<close>

definition load8 :: "buffer \<Rightarrow> ptr \<Rightarrow> u8 option" where
  "load8 buf p = (if p < length buf then Some (buf ! p) else None)"

definition store8 :: "buffer \<Rightarrow> ptr \<Rightarrow> u8 \<Rightarrow> buffer option" where
  "store8 buf p b = (if p < length buf then Some (buf[p := b]) else None)"

text \<open>\<open>memcpy (buf + p, bs, |bs|)\<close>.\<close>

definition memcpy :: "buffer \<Rightarrow> ptr \<Rightarrow> u8 list \<Rightarrow> buffer option" where
  "memcpy buf p bs =
     (if p + length bs \<le> length buf then Some (take p buf @ bs @ drop (p + length bs) buf) else None)"

text \<open>Little-endian loads and stores of 16 and 32 bits (the byte order of every ART target).\<close>

definition le16 :: "u8 \<Rightarrow> u8 \<Rightarrow> u16" where
  "le16 a b = ucast a OR push_bit 8 (ucast b)"

definition le32 :: "u8 \<Rightarrow> u8 \<Rightarrow> u8 \<Rightarrow> u8 \<Rightarrow> u32" where
  "le32 a b c d = ucast a OR push_bit 8 (ucast b) OR push_bit 16 (ucast c) OR push_bit 24 (ucast d)"

definition load16 :: "buffer \<Rightarrow> ptr \<Rightarrow> u16 option" where
  "load16 buf p = (if p + 2 \<le> length buf then Some (le16 (buf ! p) (buf ! (p + 1))) else None)"

definition load32 :: "buffer \<Rightarrow> ptr \<Rightarrow> u32 option" where
  "load32 buf p =
     (if p + 4 \<le> length buf
      then Some (le32 (buf ! p) (buf ! (p + 1)) (buf ! (p + 2)) (buf ! (p + 3))) else None)"

definition bytes32 :: "u32 \<Rightarrow> u8 list" where
  "bytes32 v = [ucast v, ucast (drop_bit 8 v), ucast (drop_bit 16 v), ucast (drop_bit 24 v)]"

definition store32 :: "buffer \<Rightarrow> ptr \<Rightarrow> u32 \<Rightarrow> buffer option" where
  "store32 buf p v = memcpy buf p (bytes32 v)"

lemma unat_u8_less: "unat (x :: u8) < 256"
  using unsigned_less [of x] by simp

lemma unat_u16_less: "unat (x :: u16) < 65536"
  using unsigned_less [of x] by simp

lemma unat_u32_less: "unat (x :: u32) < 4294967296"
  using unsigned_less [of x] by simp

lemma unat_word_of_nat_u16: "n < 65536 \<Longrightarrow> unat (word_of_nat n :: u16) = n"
  by (simp add: unat_of_nat)

lemma unat_word_of_nat_u32: "n < 4294967296 \<Longrightarrow> unat (word_of_nat n :: u32) = n"
  by (simp add: unat_of_nat)

lemma unat_ucast_up:
  assumes "LENGTH('a) \<le> LENGTH('b)"
  shows "unat (ucast (x :: 'a::len word) :: 'b::len word) = unat x"
proof -
  have "unat x < 2 ^ LENGTH('b)"
    by (rule less_le_trans [OF unsigned_less]) (use assms in \<open>simp add: power_increasing\<close>)
  then show ?thesis by (simp add: unsigned_ucast_eq take_bit_nat_eq_self)
qed

lemma unat_ucast_16_32 [simp]: "unat (ucast (x :: u16) :: u32) = unat x"
  by (rule unat_ucast_up) simp

lemma unat_ucast_8_32 [simp]: "unat (ucast (x :: u8) :: u32) = unat x"
  by (rule unat_ucast_up) simp

lemma unat_ucast_8_16 [simp]: "unat (ucast (x :: u8) :: u16) = unat x"
  by (rule unat_ucast_up) simp

lemma length_bytes32 [simp]: "length (bytes32 v) = 4"
  by (simp add: bytes32_def)

lemma le32_bytes32:
  "le32 (ucast v) (ucast (drop_bit 8 v)) (ucast (drop_bit 16 v)) (ucast (drop_bit 24 v)) = (v :: u32)"
proof (rule bit_word_eqI)
  fix n
  assume "n < LENGTH(32)"
  then consider "n < 8" | "8 \<le> n" "n < 16" | "16 \<le> n" "n < 24" | "24 \<le> n" "n < 32"
    by force
  then show "bit (le32 (ucast v) (ucast (drop_bit 8 v)) (ucast (drop_bit 16 v))
      (ucast (drop_bit 24 v))) n = bit v n"
    by cases (auto simp: le32_def bit_simps less_diff_conv2)
qed

lemma memcpy_length: "memcpy buf p bs = Some buf' \<Longrightarrow> length buf' = length buf"
  by (auto simp: memcpy_def split: if_splits)

lemma memcpy_Some [buffer_simps]:
  "p + length bs \<le> length buf \<Longrightarrow>
     memcpy buf p bs = Some (take p buf @ bs @ drop (p + length bs) buf)"
  by (simp add: memcpy_def)

lemma memcpy_eq_None_iff: "memcpy buf p bs = None \<longleftrightarrow> length buf < p + length bs"
  by (auto simp: memcpy_def)

lemma memcpy_nth:
  assumes "memcpy buf p bs = Some buf'" and "i < length buf"
  shows "buf' ! i = (if p \<le> i \<and> i < p + length bs then bs ! (i - p) else buf ! i)"
  using assms by (auto simp: memcpy_def nth_append split: if_splits)

lemma memcpy_take_drop:
  "memcpy buf p bs = Some buf' \<Longrightarrow> take (length bs) (drop p buf') = bs"
  by (auto simp: memcpy_def split: if_splits)

lemma memcpy_frame:
  assumes "memcpy buf p bs = Some buf'" and "q + n \<le> p \<or> p + length bs \<le> q"
  shows "take n (drop q buf') = take n (drop q buf)"
proof (rule nth_equalityI)
  show "length (take n (drop q buf')) = length (take n (drop q buf))"
    using memcpy_length [OF assms(1)] by simp
next
  fix i
  assume "i < length (take n (drop q buf'))"
  moreover from assms(1) have "length buf' = length buf" by (rule memcpy_length)
  ultimately have i: "i < n" "q + i < length buf" "q + i < length buf'" by auto
  have "buf' ! (q + i) = buf ! (q + i)"
    using memcpy_nth [OF assms(1) i(2)] assms(2) i(1) by auto
  with i show "take n (drop q buf') ! i = take n (drop q buf) ! i" by simp
qed

lemma load32_memcpy_same:
  assumes "store32 buf p v = Some buf'"
  shows "load32 buf' p = Some v"
proof -
  from assms have m: "memcpy buf p (bytes32 v) = Some buf'" by (simp add: store32_def)
  then have len: "length buf' = length buf" and fits: "p + 4 \<le> length buf"
    by (auto dest: memcpy_length simp: memcpy_def split: if_splits)
  have "buf' ! (p + k) = bytes32 v ! k" if "k < 4" for k
    using memcpy_nth [OF m, of "p + k"] fits that by simp
  from this [of 0] this [of 1] this [of 2] this [of 3] show ?thesis
    using fits len by (simp add: load32_def bytes32_def le32_bytes32)
qed

lemma load32_take_drop:
  assumes "take 4 (drop p buf') = take 4 (drop p buf)" and "length buf' = length buf"
  shows "load32 buf' p = load32 buf p"
proof (cases "p + 4 \<le> length buf")
  case True
  have "buf' ! (p + k) = buf ! (p + k)" if "k < 4" for k
  proof -
    have "take 4 (drop p buf') ! k = take 4 (drop p buf) ! k" using assms(1) by simp
    with that True assms(2) show ?thesis by simp
  qed
  from this [of 0] this [of 1] this [of 2] this [of 3] True assms(2) show ?thesis
    by (simp add: load32_def)
next
  case False
  with assms(2) show ?thesis by (simp add: load32_def)
qed

lemma load32_memcpy_other:
  assumes "memcpy buf p bs = Some buf'" and "q + 4 \<le> p \<or> p + length bs \<le> q"
  shows "load32 buf' q = load32 buf q"
  using load32_take_drop [OF memcpy_frame [OF assms] memcpy_length [OF assms(1)]] .

section \<open>Bytes at an offset\<close>

text \<open>\<open>bytes_at buf p bs\<close>: the bytes of \<open>buf\<close> from offset \<open>p\<close> on begin with \<open>bs\<close>.\<close>

definition bytes_at :: "buffer \<Rightarrow> ptr \<Rightarrow> u8 list \<Rightarrow> bool" where
  "bytes_at buf p bs \<longleftrightarrow> take (length bs) (drop p buf) = bs"

lemma bytes_at_Nil [simp]: "bytes_at buf p []"
  by (simp add: bytes_at_def)

lemma bytes_at_Cons [simp]:
  "bytes_at buf p (b # bs) \<longleftrightarrow> load8 buf p = Some b \<and> bytes_at buf (Suc p) bs"
proof (cases "p < length buf")
  case True
  then have "drop p buf = buf ! p # drop (Suc p) buf" by (simp add: Cons_nth_drop_Suc)
  with True show ?thesis by (auto simp: bytes_at_def load8_def)
next
  case False
  then show ?thesis by (simp add: bytes_at_def load8_def)
qed

lemma bytes_at_append [simp]:
  "bytes_at buf p (bs @ cs) \<longleftrightarrow> bytes_at buf p bs \<and> bytes_at buf (p + length bs) cs"
  by (induction bs arbitrary: p) auto

lemma bytes_at_memcpy: "memcpy buf p bs = Some buf' \<Longrightarrow> bytes_at buf' p bs"
  by (simp add: bytes_at_def memcpy_take_drop)

lemma bytes_at_memcpy_other:
  "memcpy buf p bs = Some buf' \<Longrightarrow> q + length cs \<le> p \<or> p + length bs \<le> q \<Longrightarrow>
     bytes_at buf' q cs = bytes_at buf q cs"
  by (simp add: bytes_at_def memcpy_frame)

lemma bytes_at_self [simp]: "bytes_at (pre @ bs @ post) (length pre) bs"
  by (simp add: bytes_at_def)

lemma memcpy_Nil [simp]: "memcpy buf p [] = (if p \<le> length buf then Some buf else None)"
  by (simp add: memcpy_def)

lemma memcpy_Cons:
  "memcpy buf p (b # bs) = (case store8 buf p b of None \<Rightarrow> None | Some buf' \<Rightarrow> memcpy buf' (Suc p) bs)"
proof (cases "Suc p + length bs \<le> length buf")
  case True
  then have "take p buf @ b # bs @ drop (Suc (p + length bs)) buf
      = take (Suc p) (buf[p := b]) @ bs @ drop (Suc (p + length bs)) (buf[p := b])"
    by (simp add: take_Suc_conv_app_nth)
  with True show ?thesis by (simp add: memcpy_def store8_def)
next
  case False
  then show ?thesis by (simp add: memcpy_def store8_def)
qed

lemma memcpy_bytes_at: "bytes_at buf p bs \<Longrightarrow> p \<le> length buf \<Longrightarrow> memcpy buf p bs = Some buf"
  by (induction bs arbitrary: p) (auto simp: memcpy_Cons store8_def load8_def split: if_splits)

lemma memcpy_overwrite:
  assumes "memcpy buf p bs = Some buf'" and "length bs \<le> length cs"
  shows "memcpy buf' p cs = memcpy buf p cs"
proof -
  from assms have "buf' = take p buf @ bs @ drop (p + length bs) buf" "p + length bs \<le> length buf"
    by (auto simp: memcpy_def split: if_splits)
  moreover from this assms(2) have "drop (p + length cs) buf' = drop (p + length cs) buf"
    by (simp add: add.commute)
  ultimately show ?thesis by (simp add: memcpy_def)
qed

lemma memcpy_append:
  "memcpy buf p (bs @ cs) =
     (case memcpy buf p bs of None \<Rightarrow> None | Some buf' \<Rightarrow> memcpy buf' (p + length bs) cs)"
proof (induction bs arbitrary: buf p)
  case Nil
  then show ?case by (simp add: memcpy_def)
next
  case (Cons b bs)
  then show ?case by (simp add: memcpy_Cons split: option.split)
qed

section \<open>Words\<close>

lemma word_drop_bit_less: "v \<noteq> 0 \<Longrightarrow> 0 < n \<Longrightarrow> unat (drop_bit n (v :: 'a::len word)) < unat v"
proof -
  assume "v \<noteq> 0" and "0 < n"
  then have "unat v div 2 ^ n < unat v"
    by (intro div_less_dividend one_less_power) (simp_all add: unat_gt_0)
  moreover have "unat (drop_bit n v) = unat v div 2 ^ n"
    by (simp only: unat_drop_bit_eq) (simp add: drop_bit_eq_div)
  ultimately show ?thesis by simp
qed

lemma drop_bit_zero_mono:
  fixes v :: "'a::len word"
  assumes "drop_bit k v = 0" and "k \<le> m"
  shows "drop_bit m v = 0"
proof -
  have "drop_bit m v = drop_bit (m - k) (drop_bit k v)" using assms(2) by simp
  with assms(1) show ?thesis by simp
qed

lemma word_low7: "w AND 0x7f = take_bit 7 (w :: 'a::len word)"
  by (simp add: take_bit_eq_mask mask_eq_decr_exp)


section \<open>Codecs\<close>

text \<open>Reading \<open>n\<close> items in a row with a given reader, as every section of a DEX file is read.\<close>

fun decode_n :: "(buffer \<Rightarrow> ptr \<Rightarrow> ('a \<times> ptr) option) \<Rightarrow> nat \<Rightarrow> buffer \<Rightarrow> ptr \<Rightarrow> ('a list \<times> ptr) option"
where
  "decode_n dec 0 buf p = Some ([], p)"
| "decode_n dec (Suc n) buf p =
     (case dec buf p of None \<Rightarrow> None
      | Some (x, q) \<Rightarrow>
          (case decode_n dec n buf q of None \<Rightarrow> None | Some (xs, r) \<Rightarrow> Some (x # xs, r)))"

text \<open>
  The contract between a writer and a reader of one kind of item: the reader, started where the
  item's bytes begin, returns the item and the offset just past it; every successful read makes
  progress and stays inside the buffer.
\<close>

locale codec =
  fixes enc :: "'a \<Rightarrow> u8 list"
    and dec :: "buffer \<Rightarrow> ptr \<Rightarrow> ('a \<times> ptr) option"
  assumes dec_enc: "bytes_at buf p (enc x) \<Longrightarrow> dec buf p = Some (x, p + length (enc x))"
    and dec_progress: "dec buf p = Some (x, q) \<Longrightarrow> p < q \<and> q \<le> length buf"
begin

lemma enc_nonempty: "enc x \<noteq> []"
proof
  assume "enc x = []"
  then have "dec [] 0 = Some (x, 0)" using dec_enc [of "[]" 0 x] by simp
  then show False using dec_progress by fastforce
qed

text \<open>No item's bytes are a prefix of another's, so a sequence of items parses in one way only.\<close>

lemma enc_prefix_free:
  assumes "enc x @ r = enc y @ s"
  shows "x = y \<and> r = s"
proof -
  have "dec (enc x @ r) 0 = Some (x, length (enc x))"
    using dec_enc [of "enc x @ r" 0 x] by (simp add: bytes_at_def)
  moreover have "dec (enc x @ r) 0 = Some (y, length (enc y))"
    using dec_enc [of "enc y @ s" 0 y] assms by (simp add: bytes_at_def)
  ultimately show ?thesis using assms by simp
qed

lemma enc_inj: "inj enc"
  using enc_prefix_free [where r = "[]" and s = "[]"] by (auto intro: injI)

lemma decode_n_concat:
  assumes "bytes_at buf p (concat (map enc xs))"
  shows "decode_n dec (length xs) buf p = Some (xs, p + length (concat (map enc xs)))"
  using assms by (induction xs arbitrary: p) (auto simp: dec_enc add.assoc)

lemma decode_n_progress:
  assumes "decode_n dec n buf p = Some (xs, q)" and "p \<le> length buf"
  shows "length xs = n \<and> p + n \<le> q \<and> q \<le> length buf"
  using assms
proof (induction n arbitrary: p xs)
  case 0
  then show ?case by simp
next
  case (Suc n)
  then obtain x p1 ys where x: "dec buf p = Some (x, p1)" and ys: "decode_n dec n buf p1 = Some (ys, q)"
    and xs: "xs = x # ys"
    by (auto split: option.splits)
  from dec_progress [OF x] have "p < p1" "p1 \<le> length buf" by auto
  with Suc.IH [OF ys] xs show ?case by auto
qed

end

text \<open>Two codecs in sequence form a codec for pairs.\<close>

definition dec_pair ::
  "(buffer \<Rightarrow> ptr \<Rightarrow> ('a \<times> ptr) option) \<Rightarrow> (buffer \<Rightarrow> ptr \<Rightarrow> ('b \<times> ptr) option)
   \<Rightarrow> buffer \<Rightarrow> ptr \<Rightarrow> (('a \<times> 'b) \<times> ptr) option" where
  "dec_pair decA decB buf p =
     (case decA buf p of None \<Rightarrow> None
      | Some (a, q) \<Rightarrow> (case decB buf q of None \<Rightarrow> None | Some (b, r) \<Rightarrow> Some ((a, b), r)))"

definition enc_pair :: "('a \<Rightarrow> u8 list) \<Rightarrow> ('b \<Rightarrow> u8 list) \<Rightarrow> 'a \<times> 'b \<Rightarrow> u8 list" where
  "enc_pair encA encB ab = encA (fst ab) @ encB (snd ab)"

locale codec_seq = A: codec encA decA + B: codec encB decB
  for encA :: "'a \<Rightarrow> u8 list" and decA and encB :: "'b \<Rightarrow> u8 list" and decB

sublocale codec_seq \<subseteq> AB: codec "enc_pair encA encB" "dec_pair decA decB"
proof unfold_locales
  fix buf p and x :: "'a \<times> 'b"
  assume "bytes_at buf p (enc_pair encA encB x)"
  then show "dec_pair decA decB buf p = Some (x, p + length (enc_pair encA encB x))"
    by (cases x) (auto simp: enc_pair_def dec_pair_def add.assoc dest!: A.dec_enc B.dec_enc)
next
  fix buf p q and x :: "'a \<times> 'b"
  assume "dec_pair decA decB buf p = Some (x, q)"
  then show "p < q \<and> q \<le> length buf"
    by (auto simp: dec_pair_def split: option.splits dest!: A.dec_progress B.dec_progress)
qed

end
