(* ===== verification/Instruction.thy ===== *)
theory Instruction
  imports Prelude
begin

text \<open>
  Dalvik instructions as the runtime decodes them: \<open>art/runtime/dex_instruction_list.h\<close> (the opcode
  table), \<open>dex_instruction.h\<close> and \<open>dex_instruction-inl.h\<close> (operand accessors, sizes, in-place edits)
  and \<open>dex_instruction.cc\<close> (variable-length payloads, branch targets). The \<open>this\<close> pointer of an
  \<open>Instruction\<close> is the list of the method's 16-bit code units together with the index of its first
  unit. A fetch outside the list, and the branches of the source that abort the process, are \<open>None\<close>.
  Operands of a signed C++ type are words of that type's width, to be read with \<open>sint\<close> or \<open>scast\<close>.
\<close>

section \<open>Formats, flags and the opcode table\<close>

datatype Format =
    k10x | k12x | k11n | k11x | k10t | k20t | k22x | k21t | k21s | k21h | k21c | k23x | k22b | k22t
  | k22s | k22c | k32x | k30t | k31t | k31i | k31c | k35c | k3rc | k51l

text \<open>The enumerators in declaration order: C++ compares formats by position.\<close>

definition all_formats :: "Format list" where
  "all_formats = [k10x, k12x, k11n, k11x, k10t, k20t, k22x, k21t, k21s, k21h, k21c, k23x, k22b, k22t,
     k22s, k22c, k32x, k30t, k31t, k31i, k31c, k35c, k3rc, k51l]"

definition format_pos :: "Format \<Rightarrow> nat" where
  "format_pos f = length (takeWhile (\<lambda>g. g \<noteq> f) all_formats)"

text \<open>\<open>Instruction::Flags\<close>.\<close>

abbreviation (input) kBranch :: u32 where "kBranch \<equiv> 0x000001"
abbreviation (input) kContinue :: u32 where "kContinue \<equiv> 0x000002"
abbreviation (input) kSwitch :: u32 where "kSwitch \<equiv> 0x000004"
abbreviation (input) kThrow :: u32 where "kThrow \<equiv> 0x000008"
abbreviation (input) kReturn :: u32 where "kReturn \<equiv> 0x000010"
abbreviation (input) kInvoke :: u32 where "kInvoke \<equiv> 0x000020"
abbreviation (input) kUnconditional :: u32 where "kUnconditional \<equiv> 0x000040"
abbreviation (input) kAdd :: u32 where "kAdd \<equiv> 0x000080"
abbreviation (input) kSubtract :: u32 where "kSubtract \<equiv> 0x000100"
abbreviation (input) kMultiply :: u32 where "kMultiply \<equiv> 0x000200"
abbreviation (input) kDivide :: u32 where "kDivide \<equiv> 0x000400"
abbreviation (input) kRemainder :: u32 where "kRemainder \<equiv> 0x000800"
abbreviation (input) kAnd :: u32 where "kAnd \<equiv> 0x001000"
abbreviation (input) kOr :: u32 where "kOr \<equiv> 0x002000"
abbreviation (input) kXor :: u32 where "kXor \<equiv> 0x004000"
abbreviation (input) kShl :: u32 where "kShl \<equiv> 0x008000"
abbreviation (input) kShr :: u32 where "kShr \<equiv> 0x010000"
abbreviation (input) kUshr :: u32 where "kUshr \<equiv> 0x020000"
abbreviation (input) kCast :: u32 where "kCast \<equiv> 0x040000"
abbreviation (input) kStore :: u32 where "kStore \<equiv> 0x080000"
abbreviation (input) kLoad :: u32 where "kLoad \<equiv> 0x100000"
abbreviation (input) kClobber :: u32 where "kClobber \<equiv> 0x200000"
abbreviation (input) kRegCFieldOrConstant :: u32 where "kRegCFieldOrConstant \<equiv> 0x400000"
abbreviation (input) kRegBFieldOrConstant :: u32 where "kRegBFieldOrConstant \<equiv> 0x800000"
text \<open>\<open>Instruction::VerifyFlag\<close>.\<close>

abbreviation (input) kVerifyNone :: u32 where "kVerifyNone \<equiv> 0x000000"
abbreviation (input) kVerifyRegA :: u32 where "kVerifyRegA \<equiv> 0x000001"
abbreviation (input) kVerifyRegAWide :: u32 where "kVerifyRegAWide \<equiv> 0x000002"
abbreviation (input) kVerifyRegB :: u32 where "kVerifyRegB \<equiv> 0x000004"
abbreviation (input) kVerifyRegBField :: u32 where "kVerifyRegBField \<equiv> 0x000008"
abbreviation (input) kVerifyRegBMethod :: u32 where "kVerifyRegBMethod \<equiv> 0x000010"
abbreviation (input) kVerifyRegBNewInstance :: u32 where "kVerifyRegBNewInstance \<equiv> 0x000020"
abbreviation (input) kVerifyRegBString :: u32 where "kVerifyRegBString \<equiv> 0x000040"
abbreviation (input) kVerifyRegBType :: u32 where "kVerifyRegBType \<equiv> 0x000080"
abbreviation (input) kVerifyRegBWide :: u32 where "kVerifyRegBWide \<equiv> 0x000100"
abbreviation (input) kVerifyRegC :: u32 where "kVerifyRegC \<equiv> 0x000200"
abbreviation (input) kVerifyRegCField :: u32 where "kVerifyRegCField \<equiv> 0x000400"
abbreviation (input) kVerifyRegCNewArray :: u32 where "kVerifyRegCNewArray \<equiv> 0x000800"
abbreviation (input) kVerifyRegCType :: u32 where "kVerifyRegCType \<equiv> 0x001000"
abbreviation (input) kVerifyRegCWide :: u32 where "kVerifyRegCWide \<equiv> 0x002000"
abbreviation (input) kVerifyArrayData :: u32 where "kVerifyArrayData \<equiv> 0x004000"
abbreviation (input) kVerifyBranchTarget :: u32 where "kVerifyBranchTarget \<equiv> 0x008000"
abbreviation (input) kVerifySwitchTargets :: u32 where "kVerifySwitchTargets \<equiv> 0x010000"
abbreviation (input) kVerifyVarArg :: u32 where "kVerifyVarArg \<equiv> 0x020000"
abbreviation (input) kVerifyVarArgNonZero :: u32 where "kVerifyVarArgNonZero \<equiv> 0x040000"
abbreviation (input) kVerifyVarArgRange :: u32 where "kVerifyVarArgRange \<equiv> 0x080000"
abbreviation (input) kVerifyVarArgRangeNonZero :: u32 where "kVerifyVarArgRangeNonZero \<equiv> 0x100000"
abbreviation (input) kVerifyRuntimeOnly :: u32 where "kVerifyRuntimeOnly \<equiv> 0x200000"
abbreviation (input) kVerifyError :: u32 where "kVerifyError \<equiv> 0x400000"
text \<open>\<open>Instruction::Code\<close>.\<close>

abbreviation NOP :: u8 where "NOP \<equiv> 0x00"
abbreviation MOVE :: u8 where "MOVE \<equiv> 0x01"
abbreviation MOVE_FROM16 :: u8 where "MOVE_FROM16 \<equiv> 0x02"
abbreviation MOVE_16 :: u8 where "MOVE_16 \<equiv> 0x03"
abbreviation MOVE_WIDE :: u8 where "MOVE_WIDE \<equiv> 0x04"
abbreviation MOVE_WIDE_FROM16 :: u8 where "MOVE_WIDE_FROM16 \<equiv> 0x05"
abbreviation MOVE_WIDE_16 :: u8 where "MOVE_WIDE_16 \<equiv> 0x06"
abbreviation MOVE_OBJECT :: u8 where "MOVE_OBJECT \<equiv> 0x07"
abbreviation MOVE_OBJECT_FROM16 :: u8 where "MOVE_OBJECT_FROM16 \<equiv> 0x08"
abbreviation MOVE_OBJECT_16 :: u8 where "MOVE_OBJECT_16 \<equiv> 0x09"
abbreviation MOVE_RESULT :: u8 where "MOVE_RESULT \<equiv> 0x0a"
abbreviation MOVE_RESULT_WIDE :: u8 where "MOVE_RESULT_WIDE \<equiv> 0x0b"
abbreviation MOVE_RESULT_OBJECT :: u8 where "MOVE_RESULT_OBJECT \<equiv> 0x0c"
abbreviation MOVE_EXCEPTION :: u8 where "MOVE_EXCEPTION \<equiv> 0x0d"
abbreviation RETURN_VOID :: u8 where "RETURN_VOID \<equiv> 0x0e"
abbreviation RETURN :: u8 where "RETURN \<equiv> 0x0f"
abbreviation RETURN_WIDE :: u8 where "RETURN_WIDE \<equiv> 0x10"
abbreviation RETURN_OBJECT :: u8 where "RETURN_OBJECT \<equiv> 0x11"
abbreviation CONST_4 :: u8 where "CONST_4 \<equiv> 0x12"
abbreviation CONST_16 :: u8 where "CONST_16 \<equiv> 0x13"
abbreviation OP_CONST :: u8 where "OP_CONST \<equiv> 0x14"
abbreviation CONST_HIGH16 :: u8 where "CONST_HIGH16 \<equiv> 0x15"
abbreviation CONST_WIDE_16 :: u8 where "CONST_WIDE_16 \<equiv> 0x16"
abbreviation CONST_WIDE_32 :: u8 where "CONST_WIDE_32 \<equiv> 0x17"
abbreviation CONST_WIDE :: u8 where "CONST_WIDE \<equiv> 0x18"
abbreviation CONST_WIDE_HIGH16 :: u8 where "CONST_WIDE_HIGH16 \<equiv> 0x19"
abbreviation CONST_STRING :: u8 where "CONST_STRING \<equiv> 0x1a"
abbreviation CONST_STRING_JUMBO :: u8 where "CONST_STRING_JUMBO \<equiv> 0x1b"
abbreviation CONST_CLASS :: u8 where "CONST_CLASS \<equiv> 0x1c"
abbreviation MONITOR_ENTER :: u8 where "MONITOR_ENTER \<equiv> 0x1d"
abbreviation MONITOR_EXIT :: u8 where "MONITOR_EXIT \<equiv> 0x1e"
abbreviation CHECK_CAST :: u8 where "CHECK_CAST \<equiv> 0x1f"
abbreviation INSTANCE_OF :: u8 where "INSTANCE_OF \<equiv> 0x20"
abbreviation ARRAY_LENGTH :: u8 where "ARRAY_LENGTH \<equiv> 0x21"
abbreviation NEW_INSTANCE :: u8 where "NEW_INSTANCE \<equiv> 0x22"
abbreviation NEW_ARRAY :: u8 where "NEW_ARRAY \<equiv> 0x23"
abbreviation FILLED_NEW_ARRAY :: u8 where "FILLED_NEW_ARRAY \<equiv> 0x24"
abbreviation FILLED_NEW_ARRAY_RANGE :: u8 where "FILLED_NEW_ARRAY_RANGE \<equiv> 0x25"
abbreviation FILL_ARRAY_DATA :: u8 where "FILL_ARRAY_DATA \<equiv> 0x26"
abbreviation THROW :: u8 where "THROW \<equiv> 0x27"
abbreviation GOTO :: u8 where "GOTO \<equiv> 0x28"
abbreviation GOTO_16 :: u8 where "GOTO_16 \<equiv> 0x29"
abbreviation GOTO_32 :: u8 where "GOTO_32 \<equiv> 0x2a"
abbreviation PACKED_SWITCH :: u8 where "PACKED_SWITCH \<equiv> 0x2b"
abbreviation SPARSE_SWITCH :: u8 where "SPARSE_SWITCH \<equiv> 0x2c"
abbreviation CMPL_FLOAT :: u8 where "CMPL_FLOAT \<equiv> 0x2d"
abbreviation CMPG_FLOAT :: u8 where "CMPG_FLOAT \<equiv> 0x2e"
abbreviation CMPL_DOUBLE :: u8 where "CMPL_DOUBLE \<equiv> 0x2f"
abbreviation CMPG_DOUBLE :: u8 where "CMPG_DOUBLE \<equiv> 0x30"
abbreviation CMP_LONG :: u8 where "CMP_LONG \<equiv> 0x31"
abbreviation IF_EQ :: u8 where "IF_EQ \<equiv> 0x32"
abbreviation IF_NE :: u8 where "IF_NE \<equiv> 0x33"
abbreviation IF_LT :: u8 where "IF_LT \<equiv> 0x34"
abbreviation IF_GE :: u8 where "IF_GE \<equiv> 0x35"
abbreviation IF_GT :: u8 where "IF_GT \<equiv> 0x36"
abbreviation IF_LE :: u8 where "IF_LE \<equiv> 0x37"
abbreviation IF_EQZ :: u8 where "IF_EQZ \<equiv> 0x38"
abbreviation IF_NEZ :: u8 where "IF_NEZ \<equiv> 0x39"
abbreviation IF_LTZ :: u8 where "IF_LTZ \<equiv> 0x3a"
abbreviation IF_GEZ :: u8 where "IF_GEZ \<equiv> 0x3b"
abbreviation IF_GTZ :: u8 where "IF_GTZ \<equiv> 0x3c"
abbreviation IF_LEZ :: u8 where "IF_LEZ \<equiv> 0x3d"
abbreviation AGET :: u8 where "AGET \<equiv> 0x44"
abbreviation AGET_WIDE :: u8 where "AGET_WIDE \<equiv> 0x45"
abbreviation AGET_OBJECT :: u8 where "AGET_OBJECT \<equiv> 0x46"
abbreviation AGET_BOOLEAN :: u8 where "AGET_BOOLEAN \<equiv> 0x47"
abbreviation AGET_BYTE :: u8 where "AGET_BYTE \<equiv> 0x48"
abbreviation AGET_CHAR :: u8 where "AGET_CHAR \<equiv> 0x49"
abbreviation AGET_SHORT :: u8 where "AGET_SHORT \<equiv> 0x4a"
abbreviation APUT :: u8 where "APUT \<equiv> 0x4b"
abbreviation APUT_WIDE :: u8 where "APUT_WIDE \<equiv> 0x4c"
abbreviation APUT_OBJECT :: u8 where "APUT_OBJECT \<equiv> 0x4d"
abbreviation APUT_BOOLEAN :: u8 where "APUT_BOOLEAN \<equiv> 0x4e"
abbreviation APUT_BYTE :: u8 where "APUT_BYTE \<equiv> 0x4f"
abbreviation APUT_CHAR :: u8 where "APUT_CHAR \<equiv> 0x50"
abbreviation APUT_SHORT :: u8 where "APUT_SHORT \<equiv> 0x51"
abbreviation IGET :: u8 where "IGET \<equiv> 0x52"
abbreviation IGET_WIDE :: u8 where "IGET_WIDE \<equiv> 0x53"
abbreviation IGET_OBJECT :: u8 where "IGET_OBJECT \<equiv> 0x54"
abbreviation IGET_BOOLEAN :: u8 where "IGET_BOOLEAN \<equiv> 0x55"
abbreviation IGET_BYTE :: u8 where "IGET_BYTE \<equiv> 0x56"
abbreviation IGET_CHAR :: u8 where "IGET_CHAR \<equiv> 0x57"
abbreviation IGET_SHORT :: u8 where "IGET_SHORT \<equiv> 0x58"
abbreviation IPUT :: u8 where "IPUT \<equiv> 0x59"
abbreviation IPUT_WIDE :: u8 where "IPUT_WIDE \<equiv> 0x5a"
abbreviation IPUT_OBJECT :: u8 where "IPUT_OBJECT \<equiv> 0x5b"
abbreviation IPUT_BOOLEAN :: u8 where "IPUT_BOOLEAN \<equiv> 0x5c"
abbreviation IPUT_BYTE :: u8 where "IPUT_BYTE \<equiv> 0x5d"
abbreviation IPUT_CHAR :: u8 where "IPUT_CHAR \<equiv> 0x5e"
abbreviation IPUT_SHORT :: u8 where "IPUT_SHORT \<equiv> 0x5f"
abbreviation SGET :: u8 where "SGET \<equiv> 0x60"
abbreviation SGET_WIDE :: u8 where "SGET_WIDE \<equiv> 0x61"
abbreviation SGET_OBJECT :: u8 where "SGET_OBJECT \<equiv> 0x62"
abbreviation SGET_BOOLEAN :: u8 where "SGET_BOOLEAN \<equiv> 0x63"
abbreviation SGET_BYTE :: u8 where "SGET_BYTE \<equiv> 0x64"
abbreviation SGET_CHAR :: u8 where "SGET_CHAR \<equiv> 0x65"
abbreviation SGET_SHORT :: u8 where "SGET_SHORT \<equiv> 0x66"
abbreviation SPUT :: u8 where "SPUT \<equiv> 0x67"
abbreviation SPUT_WIDE :: u8 where "SPUT_WIDE \<equiv> 0x68"
abbreviation SPUT_OBJECT :: u8 where "SPUT_OBJECT \<equiv> 0x69"
abbreviation SPUT_BOOLEAN :: u8 where "SPUT_BOOLEAN \<equiv> 0x6a"
abbreviation SPUT_BYTE :: u8 where "SPUT_BYTE \<equiv> 0x6b"
abbreviation SPUT_CHAR :: u8 where "SPUT_CHAR \<equiv> 0x6c"
abbreviation SPUT_SHORT :: u8 where "SPUT_SHORT \<equiv> 0x6d"
abbreviation INVOKE_VIRTUAL :: u8 where "INVOKE_VIRTUAL \<equiv> 0x6e"
abbreviation INVOKE_SUPER :: u8 where "INVOKE_SUPER \<equiv> 0x6f"
abbreviation INVOKE_DIRECT :: u8 where "INVOKE_DIRECT \<equiv> 0x70"
abbreviation INVOKE_STATIC :: u8 where "INVOKE_STATIC \<equiv> 0x71"
abbreviation INVOKE_INTERFACE :: u8 where "INVOKE_INTERFACE \<equiv> 0x72"
abbreviation RETURN_VOID_NO_BARRIER :: u8 where "RETURN_VOID_NO_BARRIER \<equiv> 0x73"
abbreviation INVOKE_VIRTUAL_RANGE :: u8 where "INVOKE_VIRTUAL_RANGE \<equiv> 0x74"
abbreviation INVOKE_SUPER_RANGE :: u8 where "INVOKE_SUPER_RANGE \<equiv> 0x75"
abbreviation INVOKE_DIRECT_RANGE :: u8 where "INVOKE_DIRECT_RANGE \<equiv> 0x76"
abbreviation INVOKE_STATIC_RANGE :: u8 where "INVOKE_STATIC_RANGE \<equiv> 0x77"
abbreviation INVOKE_INTERFACE_RANGE :: u8 where "INVOKE_INTERFACE_RANGE \<equiv> 0x78"
abbreviation NEG_INT :: u8 where "NEG_INT \<equiv> 0x7b"
abbreviation NOT_INT :: u8 where "NOT_INT \<equiv> 0x7c"
abbreviation NEG_LONG :: u8 where "NEG_LONG \<equiv> 0x7d"
abbreviation NOT_LONG :: u8 where "NOT_LONG \<equiv> 0x7e"
abbreviation NEG_FLOAT :: u8 where "NEG_FLOAT \<equiv> 0x7f"
abbreviation NEG_DOUBLE :: u8 where "NEG_DOUBLE \<equiv> 0x80"
abbreviation INT_TO_LONG :: u8 where "INT_TO_LONG \<equiv> 0x81"
abbreviation INT_TO_FLOAT :: u8 where "INT_TO_FLOAT \<equiv> 0x82"
abbreviation INT_TO_DOUBLE :: u8 where "INT_TO_DOUBLE \<equiv> 0x83"
abbreviation LONG_TO_INT :: u8 where "LONG_TO_INT \<equiv> 0x84"
abbreviation LONG_TO_FLOAT :: u8 where "LONG_TO_FLOAT \<equiv> 0x85"
abbreviation LONG_TO_DOUBLE :: u8 where "LONG_TO_DOUBLE \<equiv> 0x86"
abbreviation FLOAT_TO_INT :: u8 where "FLOAT_TO_INT \<equiv> 0x87"
abbreviation FLOAT_TO_LONG :: u8 where "FLOAT_TO_LONG \<equiv> 0x88"
abbreviation FLOAT_TO_DOUBLE :: u8 where "FLOAT_TO_DOUBLE \<equiv> 0x89"
abbreviation DOUBLE_TO_INT :: u8 where "DOUBLE_TO_INT \<equiv> 0x8a"
abbreviation DOUBLE_TO_LONG :: u8 where "DOUBLE_TO_LONG \<equiv> 0x8b"
abbreviation DOUBLE_TO_FLOAT :: u8 where "DOUBLE_TO_FLOAT \<equiv> 0x8c"
abbreviation INT_TO_BYTE :: u8 where "INT_TO_BYTE \<equiv> 0x8d"
abbreviation INT_TO_CHAR :: u8 where "INT_TO_CHAR \<equiv> 0x8e"
abbreviation INT_TO_SHORT :: u8 where "INT_TO_SHORT \<equiv> 0x8f"
abbreviation ADD_INT :: u8 where "ADD_INT \<equiv> 0x90"
abbreviation SUB_INT :: u8 where "SUB_INT \<equiv> 0x91"
abbreviation MUL_INT :: u8 where "MUL_INT \<equiv> 0x92"
abbreviation DIV_INT :: u8 where "DIV_INT \<equiv> 0x93"
abbreviation REM_INT :: u8 where "REM_INT \<equiv> 0x94"
abbreviation AND_INT :: u8 where "AND_INT \<equiv> 0x95"
abbreviation OR_INT :: u8 where "OR_INT \<equiv> 0x96"
abbreviation XOR_INT :: u8 where "XOR_INT \<equiv> 0x97"
abbreviation SHL_INT :: u8 where "SHL_INT \<equiv> 0x98"
abbreviation SHR_INT :: u8 where "SHR_INT \<equiv> 0x99"
abbreviation USHR_INT :: u8 where "USHR_INT \<equiv> 0x9a"
abbreviation ADD_LONG :: u8 where "ADD_LONG \<equiv> 0x9b"
abbreviation SUB_LONG :: u8 where "SUB_LONG \<equiv> 0x9c"
abbreviation MUL_LONG :: u8 where "MUL_LONG \<equiv> 0x9d"
abbreviation DIV_LONG :: u8 where "DIV_LONG \<equiv> 0x9e"
abbreviation REM_LONG :: u8 where "REM_LONG \<equiv> 0x9f"
abbreviation AND_LONG :: u8 where "AND_LONG \<equiv> 0xa0"
abbreviation OR_LONG :: u8 where "OR_LONG \<equiv> 0xa1"
abbreviation XOR_LONG :: u8 where "XOR_LONG \<equiv> 0xa2"
abbreviation SHL_LONG :: u8 where "SHL_LONG \<equiv> 0xa3"
abbreviation SHR_LONG :: u8 where "SHR_LONG \<equiv> 0xa4"
abbreviation USHR_LONG :: u8 where "USHR_LONG \<equiv> 0xa5"
abbreviation ADD_FLOAT :: u8 where "ADD_FLOAT \<equiv> 0xa6"
abbreviation SUB_FLOAT :: u8 where "SUB_FLOAT \<equiv> 0xa7"
abbreviation MUL_FLOAT :: u8 where "MUL_FLOAT \<equiv> 0xa8"
abbreviation DIV_FLOAT :: u8 where "DIV_FLOAT \<equiv> 0xa9"
abbreviation REM_FLOAT :: u8 where "REM_FLOAT \<equiv> 0xaa"
abbreviation ADD_DOUBLE :: u8 where "ADD_DOUBLE \<equiv> 0xab"
abbreviation SUB_DOUBLE :: u8 where "SUB_DOUBLE \<equiv> 0xac"
abbreviation MUL_DOUBLE :: u8 where "MUL_DOUBLE \<equiv> 0xad"
abbreviation DIV_DOUBLE :: u8 where "DIV_DOUBLE \<equiv> 0xae"
abbreviation REM_DOUBLE :: u8 where "REM_DOUBLE \<equiv> 0xaf"
abbreviation ADD_INT_2ADDR :: u8 where "ADD_INT_2ADDR \<equiv> 0xb0"
abbreviation SUB_INT_2ADDR :: u8 where "SUB_INT_2ADDR \<equiv> 0xb1"
abbreviation MUL_INT_2ADDR :: u8 where "MUL_INT_2ADDR \<equiv> 0xb2"
abbreviation DIV_INT_2ADDR :: u8 where "DIV_INT_2ADDR \<equiv> 0xb3"
abbreviation REM_INT_2ADDR :: u8 where "REM_INT_2ADDR \<equiv> 0xb4"
abbreviation AND_INT_2ADDR :: u8 where "AND_INT_2ADDR \<equiv> 0xb5"
abbreviation OR_INT_2ADDR :: u8 where "OR_INT_2ADDR \<equiv> 0xb6"
abbreviation XOR_INT_2ADDR :: u8 where "XOR_INT_2ADDR \<equiv> 0xb7"
abbreviation SHL_INT_2ADDR :: u8 where "SHL_INT_2ADDR \<equiv> 0xb8"
abbreviation SHR_INT_2ADDR :: u8 where "SHR_INT_2ADDR \<equiv> 0xb9"
abbreviation USHR_INT_2ADDR :: u8 where "USHR_INT_2ADDR \<equiv> 0xba"
abbreviation ADD_LONG_2ADDR :: u8 where "ADD_LONG_2ADDR \<equiv> 0xbb"
abbreviation SUB_LONG_2ADDR :: u8 where "SUB_LONG_2ADDR \<equiv> 0xbc"
abbreviation MUL_LONG_2ADDR :: u8 where "MUL_LONG_2ADDR \<equiv> 0xbd"
abbreviation DIV_LONG_2ADDR :: u8 where "DIV_LONG_2ADDR \<equiv> 0xbe"
abbreviation REM_LONG_2ADDR :: u8 where "REM_LONG_2ADDR \<equiv> 0xbf"
abbreviation AND_LONG_2ADDR :: u8 where "AND_LONG_2ADDR \<equiv> 0xc0"
abbreviation OR_LONG_2ADDR :: u8 where "OR_LONG_2ADDR \<equiv> 0xc1"
abbreviation XOR_LONG_2ADDR :: u8 where "XOR_LONG_2ADDR \<equiv> 0xc2"
abbreviation SHL_LONG_2ADDR :: u8 where "SHL_LONG_2ADDR \<equiv> 0xc3"
abbreviation SHR_LONG_2ADDR :: u8 where "SHR_LONG_2ADDR \<equiv> 0xc4"
abbreviation USHR_LONG_2ADDR :: u8 where "USHR_LONG_2ADDR \<equiv> 0xc5"
abbreviation ADD_FLOAT_2ADDR :: u8 where "ADD_FLOAT_2ADDR \<equiv> 0xc6"
abbreviation SUB_FLOAT_2ADDR :: u8 where "SUB_FLOAT_2ADDR \<equiv> 0xc7"
abbreviation MUL_FLOAT_2ADDR :: u8 where "MUL_FLOAT_2ADDR \<equiv> 0xc8"
abbreviation DIV_FLOAT_2ADDR :: u8 where "DIV_FLOAT_2ADDR \<equiv> 0xc9"
abbreviation REM_FLOAT_2ADDR :: u8 where "REM_FLOAT_2ADDR \<equiv> 0xca"
abbreviation ADD_DOUBLE_2ADDR :: u8 where "ADD_DOUBLE_2ADDR \<equiv> 0xcb"
abbreviation SUB_DOUBLE_2ADDR :: u8 where "SUB_DOUBLE_2ADDR \<equiv> 0xcc"
abbreviation MUL_DOUBLE_2ADDR :: u8 where "MUL_DOUBLE_2ADDR \<equiv> 0xcd"
abbreviation DIV_DOUBLE_2ADDR :: u8 where "DIV_DOUBLE_2ADDR \<equiv> 0xce"
abbreviation REM_DOUBLE_2ADDR :: u8 where "REM_DOUBLE_2ADDR \<equiv> 0xcf"
abbreviation ADD_INT_LIT16 :: u8 where "ADD_INT_LIT16 \<equiv> 0xd0"
abbreviation RSUB_INT :: u8 where "RSUB_INT \<equiv> 0xd1"
abbreviation MUL_INT_LIT16 :: u8 where "MUL_INT_LIT16 \<equiv> 0xd2"
abbreviation DIV_INT_LIT16 :: u8 where "DIV_INT_LIT16 \<equiv> 0xd3"
abbreviation REM_INT_LIT16 :: u8 where "REM_INT_LIT16 \<equiv> 0xd4"
abbreviation AND_INT_LIT16 :: u8 where "AND_INT_LIT16 \<equiv> 0xd5"
abbreviation OR_INT_LIT16 :: u8 where "OR_INT_LIT16 \<equiv> 0xd6"
abbreviation XOR_INT_LIT16 :: u8 where "XOR_INT_LIT16 \<equiv> 0xd7"
abbreviation ADD_INT_LIT8 :: u8 where "ADD_INT_LIT8 \<equiv> 0xd8"
abbreviation RSUB_INT_LIT8 :: u8 where "RSUB_INT_LIT8 \<equiv> 0xd9"
abbreviation MUL_INT_LIT8 :: u8 where "MUL_INT_LIT8 \<equiv> 0xda"
abbreviation DIV_INT_LIT8 :: u8 where "DIV_INT_LIT8 \<equiv> 0xdb"
abbreviation REM_INT_LIT8 :: u8 where "REM_INT_LIT8 \<equiv> 0xdc"
abbreviation AND_INT_LIT8 :: u8 where "AND_INT_LIT8 \<equiv> 0xdd"
abbreviation OR_INT_LIT8 :: u8 where "OR_INT_LIT8 \<equiv> 0xde"
abbreviation XOR_INT_LIT8 :: u8 where "XOR_INT_LIT8 \<equiv> 0xdf"
abbreviation SHL_INT_LIT8 :: u8 where "SHL_INT_LIT8 \<equiv> 0xe0"
abbreviation SHR_INT_LIT8 :: u8 where "SHR_INT_LIT8 \<equiv> 0xe1"
abbreviation USHR_INT_LIT8 :: u8 where "USHR_INT_LIT8 \<equiv> 0xe2"
abbreviation IGET_QUICK :: u8 where "IGET_QUICK \<equiv> 0xe3"
abbreviation IGET_WIDE_QUICK :: u8 where "IGET_WIDE_QUICK \<equiv> 0xe4"
abbreviation IGET_OBJECT_QUICK :: u8 where "IGET_OBJECT_QUICK \<equiv> 0xe5"
abbreviation IPUT_QUICK :: u8 where "IPUT_QUICK \<equiv> 0xe6"
abbreviation IPUT_WIDE_QUICK :: u8 where "IPUT_WIDE_QUICK \<equiv> 0xe7"
abbreviation IPUT_OBJECT_QUICK :: u8 where "IPUT_OBJECT_QUICK \<equiv> 0xe8"
abbreviation INVOKE_VIRTUAL_QUICK :: u8 where "INVOKE_VIRTUAL_QUICK \<equiv> 0xe9"
abbreviation INVOKE_VIRTUAL_RANGE_QUICK :: u8 where "INVOKE_VIRTUAL_RANGE_QUICK \<equiv> 0xea"
abbreviation IPUT_BOOLEAN_QUICK :: u8 where "IPUT_BOOLEAN_QUICK \<equiv> 0xeb"
abbreviation IPUT_BYTE_QUICK :: u8 where "IPUT_BYTE_QUICK \<equiv> 0xec"
abbreviation IPUT_CHAR_QUICK :: u8 where "IPUT_CHAR_QUICK \<equiv> 0xed"
abbreviation IPUT_SHORT_QUICK :: u8 where "IPUT_SHORT_QUICK \<equiv> 0xee"
abbreviation IGET_BOOLEAN_QUICK :: u8 where "IGET_BOOLEAN_QUICK \<equiv> 0xef"
abbreviation IGET_BYTE_QUICK :: u8 where "IGET_BYTE_QUICK \<equiv> 0xf0"
abbreviation IGET_CHAR_QUICK :: u8 where "IGET_CHAR_QUICK \<equiv> 0xf1"
abbreviation IGET_SHORT_QUICK :: u8 where "IGET_SHORT_QUICK \<equiv> 0xf2"
abbreviation RSUB_INT_LIT16 :: u8 where "RSUB_INT_LIT16 \<equiv> RSUB_INT"


text \<open>A row of \<open>DEX_INSTRUCTION_LIST\<close>: opcode, name, format, flags, verifier flags. (The columns for
  "has a result register" and the index type are not used by the runtime functions modelled here.)\<close>

type_synonym insn_row = "u8 \<times> string \<times> Format \<times> u32 \<times> u32"


definition insn_table_lo :: "insn_row list" where
  "insn_table_lo = [
    (0x00, ''nop'', k10x, kContinue, kVerifyNone),
    (0x01, ''move'', k12x, kContinue, kVerifyRegA OR kVerifyRegB),
    (0x02, ''move/from16'', k22x, kContinue, kVerifyRegA OR kVerifyRegB),
    (0x03, ''move/16'', k32x, kContinue, kVerifyRegA OR kVerifyRegB),
    (0x04, ''move-wide'', k12x, kContinue, kVerifyRegAWide OR kVerifyRegBWide),
    (0x05, ''move-wide/from16'', k22x, kContinue, kVerifyRegAWide OR kVerifyRegBWide),
    (0x06, ''move-wide/16'', k32x, kContinue, kVerifyRegAWide OR kVerifyRegBWide),
    (0x07, ''move-object'', k12x, kContinue, kVerifyRegA OR kVerifyRegB),
    (0x08, ''move-object/from16'', k22x, kContinue, kVerifyRegA OR kVerifyRegB),
    (0x09, ''move-object/16'', k32x, kContinue, kVerifyRegA OR kVerifyRegB),
    (0x0a, ''move-result'', k11x, kContinue, kVerifyRegA),
    (0x0b, ''move-result-wide'', k11x, kContinue, kVerifyRegAWide),
    (0x0c, ''move-result-object'', k11x, kContinue, kVerifyRegA),
    (0x0d, ''move-exception'', k11x, kContinue, kVerifyRegA),
    (0x0e, ''return-void'', k10x, kReturn, kVerifyNone),
    (0x0f, ''return'', k11x, kReturn, kVerifyRegA),
    (0x10, ''return-wide'', k11x, kReturn, kVerifyRegAWide),
    (0x11, ''return-object'', k11x, kReturn, kVerifyRegA),
    (0x12, ''const/4'', k11n, kContinue OR kRegBFieldOrConstant, kVerifyRegA),
    (0x13, ''const/16'', k21s, kContinue OR kRegBFieldOrConstant, kVerifyRegA),
    (0x14, ''const'', k31i, kContinue OR kRegBFieldOrConstant, kVerifyRegA),
    (0x15, ''const/high16'', k21h, kContinue OR kRegBFieldOrConstant, kVerifyRegA),
    (0x16, ''const-wide/16'', k21s, kContinue OR kRegBFieldOrConstant, kVerifyRegAWide),
    (0x17, ''const-wide/32'', k31i, kContinue OR kRegBFieldOrConstant, kVerifyRegAWide),
    (0x18, ''const-wide'', k51l, kContinue OR kRegBFieldOrConstant, kVerifyRegAWide),
    (0x19, ''const-wide/high16'', k21h, kContinue OR kRegBFieldOrConstant, kVerifyRegAWide),
    (0x1a, ''const-string'', k21c, kContinue OR kThrow, kVerifyRegA OR kVerifyRegBString),
    (0x1b, ''const-string/jumbo'', k31c, kContinue OR kThrow, kVerifyRegA OR kVerifyRegBString),
    (0x1c, ''const-class'', k21c, kContinue OR kThrow, kVerifyRegA OR kVerifyRegBType),
    (0x1d, ''monitor-enter'', k11x, kContinue OR kThrow OR kClobber, kVerifyRegA),
    (0x1e, ''monitor-exit'', k11x, kContinue OR kThrow OR kClobber, kVerifyRegA),
    (0x1f, ''check-cast'', k21c, kContinue OR kThrow, kVerifyRegA OR kVerifyRegBType),
    (0x20, ''instance-of'', k22c, kContinue OR kThrow, kVerifyRegA OR kVerifyRegB OR kVerifyRegCType),
    (0x21, ''array-length'', k12x, kContinue OR kThrow, kVerifyRegA OR kVerifyRegB),
    (0x22, ''new-instance'', k21c, kContinue OR kThrow OR kClobber, kVerifyRegA OR kVerifyRegBNewInstance),
    (0x23, ''new-array'', k22c, kContinue OR kThrow OR kClobber, kVerifyRegA OR kVerifyRegB OR kVerifyRegCNewArray),
    (0x24, ''filled-new-array'', k35c, kContinue OR kThrow OR kClobber, kVerifyRegBType OR kVerifyVarArg),
    (0x25, ''filled-new-array/range'', k3rc, kContinue OR kThrow OR kClobber, kVerifyRegBType OR kVerifyVarArgRange),
    (0x26, ''fill-array-data'', k31t, kContinue OR kThrow OR kClobber, kVerifyRegA OR kVerifyArrayData),
    (0x27, ''throw'', k11x, kThrow, kVerifyRegA),
    (0x28, ''goto'', k10t, kBranch OR kUnconditional, kVerifyBranchTarget),
    (0x29, ''goto/16'', k20t, kBranch OR kUnconditional, kVerifyBranchTarget),
    (0x2a, ''goto/32'', k30t, kBranch OR kUnconditional, kVerifyBranchTarget),
    (0x2b, ''packed-switch'', k31t, kContinue OR kSwitch, kVerifyRegA OR kVerifySwitchTargets),
    (0x2c, ''sparse-switch'', k31t, kContinue OR kSwitch, kVerifyRegA OR kVerifySwitchTargets),
    (0x2d, ''cmpl-float'', k23x, kContinue, kVerifyRegA OR kVerifyRegB OR kVerifyRegC),
    (0x2e, ''cmpg-float'', k23x, kContinue, kVerifyRegA OR kVerifyRegB OR kVerifyRegC),
    (0x2f, ''cmpl-double'', k23x, kContinue, kVerifyRegA OR kVerifyRegBWide OR kVerifyRegCWide),
    (0x30, ''cmpg-double'', k23x, kContinue, kVerifyRegA OR kVerifyRegBWide OR kVerifyRegCWide),
    (0x31, ''cmp-long'', k23x, kContinue, kVerifyRegA OR kVerifyRegBWide OR kVerifyRegCWide),
    (0x32, ''if-eq'', k22t, kContinue OR kBranch, kVerifyRegA OR kVerifyRegB OR kVerifyBranchTarget),
    (0x33, ''if-ne'', k22t, kContinue OR kBranch, kVerifyRegA OR kVerifyRegB OR kVerifyBranchTarget),
    (0x34, ''if-lt'', k22t, kContinue OR kBranch, kVerifyRegA OR kVerifyRegB OR kVerifyBranchTarget),
    (0x35, ''if-ge'', k22t, kContinue OR kBranch, kVerifyRegA OR kVerifyRegB OR kVerifyBranchTarget),
    (0x36, ''if-gt'', k22t, kContinue OR kBranch, kVerifyRegA OR kVerifyRegB OR kVerifyBranchTarget),
    (0x37, ''if-le'', k22t, kContinue OR kBranch, kVerifyRegA OR kVerifyRegB OR kVerifyBranchTarget),
    (0x38, ''if-eqz'', k21t, kContinue OR kBranch, kVerifyRegA OR kVerifyBranchTarget),
    (0x39, ''if-nez'', k21t, kContinue OR kBranch, kVerifyRegA OR kVerifyBranchTarget),
    (0x3a, ''if-ltz'', k21t, kContinue OR kBranch, kVerifyRegA OR kVerifyBranchTarget),
    (0x3b, ''if-gez'', k21t, kContinue OR kBranch, kVerifyRegA OR kVerifyBranchTarget),
    (0x3c, ''if-gtz'', k21t, kContinue OR kBranch, kVerifyRegA OR kVerifyBranchTarget),
    (0x3d, ''if-lez'', k21t, kContinue OR kBranch, kVerifyRegA OR kVerifyBranchTarget),
    (0x3e, ''unused-3e'', k10x, 0, kVerifyError),
    (0x3f, ''unused-3f'', k10x, 0, kVerifyError),
    (0x40, ''unused-40'', k10x, 0, kVerifyError),
    (0x41, ''unused-41'', k10x, 0, kVerifyError),
    (0x42, ''unused-42'', k10x, 0, kVerifyError),
    (0x43, ''unused-43'', k10x, 0, kVerifyError),
    (0x44, ''aget'', k23x, kContinue OR kThrow OR kLoad, kVerifyRegA OR kVerifyRegB OR kVerifyRegC),
    (0x45, ''aget-wide'', k23x, kContinue OR kThrow OR kLoad, kVerifyRegAWide OR kVerifyRegB OR kVerifyRegC),
    (0x46, ''aget-object'', k23x, kContinue OR kThrow OR kLoad, kVerifyRegA OR kVerifyRegB OR kVerifyRegC),
    (0x47, ''aget-boolean'', k23x, kContinue OR kThrow OR kLoad, kVerifyRegA OR kVerifyRegB OR kVerifyRegC),
    (0x48, ''aget-byte'', k23x, kContinue OR kThrow OR kLoad, kVerifyRegA OR kVerifyRegB OR kVerifyRegC),
    (0x49, ''aget-char'', k23x, kContinue OR kThrow OR kLoad, kVerifyRegA OR kVerifyRegB OR kVerifyRegC),
    (0x4a, ''aget-short'', k23x, kContinue OR kThrow OR kLoad, kVerifyRegA OR kVerifyRegB OR kVerifyRegC),
    (0x4b, ''aput'', k23x, kContinue OR kThrow OR kStore, kVerifyRegA OR kVerifyRegB OR kVerifyRegC),
    (0x4c, ''aput-wide'', k23x, kContinue OR kThrow OR kStore, kVerifyRegAWide OR kVerifyRegB OR kVerifyRegC),
    (0x4d, ''aput-object'', k23x, kContinue OR kThrow OR kStore, kVerifyRegA OR kVerifyRegB OR kVerifyRegC),
    (0x4e, ''aput-boolean'', k23x, kContinue OR kThrow OR kStore, kVerifyRegA OR kVerifyRegB OR kVerifyRegC),
    (0x4f, ''aput-byte'', k23x, kContinue OR kThrow OR kStore, kVerifyRegA OR kVerifyRegB OR kVerifyRegC),
    (0x50, ''aput-char'', k23x, kContinue OR kThrow OR kStore, kVerifyRegA OR kVerifyRegB OR kVerifyRegC),
    (0x51, ''aput-short'', k23x, kContinue OR kThrow OR kStore, kVerifyRegA OR kVerifyRegB OR kVerifyRegC),
    (0x52, ''iget'', k22c, kContinue OR kThrow OR kLoad OR kRegCFieldOrConstant, kVerifyRegA OR kVerifyRegB OR kVerifyRegCField),
    (0x53, ''iget-wide'', k22c, kContinue OR kThrow OR kLoad OR kRegCFieldOrConstant, kVerifyRegAWide OR kVerifyRegB OR kVerifyRegCField),
    (0x54, ''iget-object'', k22c, kContinue OR kThrow OR kLoad OR kRegCFieldOrConstant, kVerifyRegA OR kVerifyRegB OR kVerifyRegCField),
    (0x55, ''iget-boolean'', k22c, kContinue OR kThrow OR kLoad OR kRegCFieldOrConstant, kVerifyRegA OR kVerifyRegB OR kVerifyRegCField),
    (0x56, ''iget-byte'', k22c, kContinue OR kThrow OR kLoad OR kRegCFieldOrConstant, kVerifyRegA OR kVerifyRegB OR kVerifyRegCField),
    (0x57, ''iget-char'', k22c, kContinue OR kThrow OR kLoad OR kRegCFieldOrConstant, kVerifyRegA OR kVerifyRegB OR kVerifyRegCField),
    (0x58, ''iget-short'', k22c, kContinue OR kThrow OR kLoad OR kRegCFieldOrConstant, kVerifyRegA OR kVerifyRegB OR kVerifyRegCField),
    (0x59, ''iput'', k22c, kContinue OR kThrow OR kStore OR kRegCFieldOrConstant, kVerifyRegA OR kVerifyRegB OR kVerifyRegCField),
    (0x5a, ''iput-wide'', k22c, kContinue OR kThrow OR kStore OR kRegCFieldOrConstant, kVerifyRegAWide OR kVerifyRegB OR kVerifyRegCField),
    (0x5b, ''iput-object'', k22c, kContinue OR kThrow OR kStore OR kRegCFieldOrConstant, kVerifyRegA OR kVerifyRegB OR kVerifyRegCField),
    (0x5c, ''iput-boolean'', k22c, kContinue OR kThrow OR kStore OR kRegCFieldOrConstant, kVerifyRegA OR kVerifyRegB OR kVerifyRegCField),
    (0x5d, ''iput-byte'', k22c, kContinue OR kThrow OR kStore OR kRegCFieldOrConstant, kVerifyRegA OR kVerifyRegB OR kVerifyRegCField),
    (0x5e, ''iput-char'', k22c, kContinue OR kThrow OR kStore OR kRegCFieldOrConstant, kVerifyRegA OR kVerifyRegB OR kVerifyRegCField),
    (0x5f, ''iput-short'', k22c, kContinue OR kThrow OR kStore OR kRegCFieldOrConstant, kVerifyRegA OR kVerifyRegB OR kVerifyRegCField),
    (0x60, ''sget'', k21c, kContinue OR kThrow OR kLoad OR kRegBFieldOrConstant, kVerifyRegA OR kVerifyRegBField),
    (0x61, ''sget-wide'', k21c, kContinue OR kThrow OR kLoad OR kRegBFieldOrConstant, kVerifyRegAWide OR kVerifyRegBField),
    (0x62, ''sget-object'', k21c, kContinue OR kThrow OR kLoad OR kRegBFieldOrConstant, kVerifyRegA OR kVerifyRegBField),
    (0x63, ''sget-boolean'', k21c, kContinue OR kThrow OR kLoad OR kRegBFieldOrConstant, kVerifyRegA OR kVerifyRegBField),
    (0x64, ''sget-byte'', k21c, kContinue OR kThrow OR kLoad OR kRegBFieldOrConstant, kVerifyRegA OR kVerifyRegBField),
    (0x65, ''sget-char'', k21c, kContinue OR kThrow OR kLoad OR kRegBFieldOrConstant, kVerifyRegA OR kVerifyRegBField),
    (0x66, ''sget-short'', k21c, kContinue OR kThrow OR kLoad OR kRegBFieldOrConstant, kVerifyRegA OR kVerifyRegBField),
    (0x67, ''sput'', k21c, kContinue OR kThrow OR kStore OR kRegBFieldOrConstant, kVerifyRegA OR kVerifyRegBField),
    (0x68, ''sput-wide'', k21c, kContinue OR kThrow OR kStore OR kRegBFieldOrConstant, kVerifyRegAWide OR kVerifyRegBField),
    (0x69, ''sput-object'', k21c, kContinue OR kThrow OR kStore OR kRegBFieldOrConstant, kVerifyRegA OR kVerifyRegBField),
    (0x6a, ''sput-boolean'', k21c, kContinue OR kThrow OR kStore OR kRegBFieldOrConstant, kVerifyRegA OR kVerifyRegBField),
    (0x6b, ''sput-byte'', k21c, kContinue OR kThrow OR kStore OR kRegBFieldOrConstant, kVerifyRegA OR kVerifyRegBField),
    (0x6c, ''sput-char'', k21c, kContinue OR kThrow OR kStore OR kRegBFieldOrConstant, kVerifyRegA OR kVerifyRegBField),
    (0x6d, ''sput-short'', k21c, kContinue OR kThrow OR kStore OR kRegBFieldOrConstant, kVerifyRegA OR kVerifyRegBField),
    (0x6e, ''invoke-virtual'', k35c, kContinue OR kThrow OR kInvoke, kVerifyRegBMethod OR kVerifyVarArgNonZero),
    (0x6f, ''invoke-super'', k35c, kContinue OR kThrow OR kInvoke, kVerifyRegBMethod OR kVerifyVarArgNonZero),
    (0x70, ''invoke-direct'', k35c, kContinue OR kThrow OR kInvoke, kVerifyRegBMethod OR kVerifyVarArgNonZero),
    (0x71, ''invoke-static'', k35c, kContinue OR kThrow OR kInvoke, kVerifyRegBMethod OR kVerifyVarArg),
    (0x72, ''invoke-interface'', k35c, kContinue OR kThrow OR kInvoke, kVerifyRegBMethod OR kVerifyVarArgNonZero),
    (0x73, ''return-void-no-barrier'', k10x, kReturn, kVerifyNone),
    (0x74, ''invoke-virtual/range'', k3rc, kContinue OR kThrow OR kInvoke, kVerifyRegBMethod OR kVerifyVarArgRangeNonZero),
    (0x75, ''invoke-super/range'', k3rc, kContinue OR kThrow OR kInvoke, kVerifyRegBMethod OR kVerifyVarArgRangeNonZero),
    (0x76, ''invoke-direct/range'', k3rc, kContinue OR kThrow OR kInvoke, kVerifyRegBMethod OR kVerifyVarArgRangeNonZero),
    (0x77, ''invoke-static/range'', k3rc, kContinue OR kThrow OR kInvoke, kVerifyRegBMethod OR kVerifyVarArgRange),
    (0x78, ''invoke-interface/range'', k3rc, kContinue OR kThrow OR kInvoke, kVerifyRegBMethod OR kVerifyVarArgRangeNonZero),
    (0x79, ''unused-79'', k10x, 0, kVerifyError),
    (0x7a, ''unused-7a'', k10x, 0, kVerifyError),
    (0x7b, ''neg-int'', k12x, kContinue, kVerifyRegA OR kVerifyRegB),
    (0x7c, ''not-int'', k12x, kContinue, kVerifyRegA OR kVerifyRegB),
    (0x7d, ''neg-long'', k12x, kContinue, kVerifyRegAWide OR kVerifyRegBWide),
    (0x7e, ''not-long'', k12x, kContinue, kVerifyRegAWide OR kVerifyRegBWide),
    (0x7f, ''neg-float'', k12x, kContinue, kVerifyRegA OR kVerifyRegB)]"

definition insn_table_hi :: "insn_row list" where
  "insn_table_hi = [
    (0x80, ''neg-double'', k12x, kContinue, kVerifyRegAWide OR kVerifyRegBWide),
    (0x81, ''int-to-long'', k12x, kContinue OR kCast, kVerifyRegAWide OR kVerifyRegB),
    (0x82, ''int-to-float'', k12x, kContinue OR kCast, kVerifyRegA OR kVerifyRegB),
    (0x83, ''int-to-double'', k12x, kContinue OR kCast, kVerifyRegAWide OR kVerifyRegB),
    (0x84, ''long-to-int'', k12x, kContinue OR kCast, kVerifyRegA OR kVerifyRegBWide),
    (0x85, ''long-to-float'', k12x, kContinue OR kCast, kVerifyRegA OR kVerifyRegBWide),
    (0x86, ''long-to-double'', k12x, kContinue OR kCast, kVerifyRegAWide OR kVerifyRegBWide),
    (0x87, ''float-to-int'', k12x, kContinue OR kCast, kVerifyRegA OR kVerifyRegB),
    (0x88, ''float-to-long'', k12x, kContinue OR kCast, kVerifyRegAWide OR kVerifyRegB),
    (0x89, ''float-to-double'', k12x, kContinue OR kCast, kVerifyRegAWide OR kVerifyRegB),
    (0x8a, ''double-to-int'', k12x, kContinue OR kCast, kVerifyRegA OR kVerifyRegBWide),
    (0x8b, ''double-to-long'', k12x, kContinue OR kCast, kVerifyRegAWide OR kVerifyRegBWide),
    (0x8c, ''double-to-float'', k12x, kContinue OR kCast, kVerifyRegA OR kVerifyRegBWide),
    (0x8d, ''int-to-byte'', k12x, kContinue OR kCast, kVerifyRegA OR kVerifyRegB),
    (0x8e, ''int-to-char'', k12x, kContinue OR kCast, kVerifyRegA OR kVerifyRegB),
    (0x8f, ''int-to-short'', k12x, kContinue OR kCast, kVerifyRegA OR kVerifyRegB),
    (0x90, ''add-int'', k23x, kContinue OR kAdd, kVerifyRegA OR kVerifyRegB OR kVerifyRegC),
    (0x91, ''sub-int'', k23x, kContinue OR kSubtract, kVerifyRegA OR kVerifyRegB OR kVerifyRegC),
    (0x92, ''mul-int'', k23x, kContinue OR kMultiply, kVerifyRegA OR kVerifyRegB OR kVerifyRegC),
    (0x93, ''div-int'', k23x, kContinue OR kThrow OR kDivide, kVerifyRegA OR kVerifyRegB OR kVerifyRegC),
    (0x94, ''rem-int'', k23x, kContinue OR kThrow OR kRemainder, kVerifyRegA OR kVerifyRegB OR kVerifyRegC),
    (0x95, ''and-int'', k23x, kContinue OR kAnd, kVerifyRegA OR kVerifyRegB OR kVerifyRegC),
    (0x96, ''or-int'', k23x, kContinue OR kOr, kVerifyRegA OR kVerifyRegB OR kVerifyRegC),
    (0x97, ''xor-int'', k23x, kContinue OR kXor, kVerifyRegA OR kVerifyRegB OR kVerifyRegC),
    (0x98, ''shl-int'', k23x, kContinue OR kShl, kVerifyRegA OR kVerifyRegB OR kVerifyRegC),
    (0x99, ''shr-int'', k23x, kContinue OR kShr, kVerifyRegA OR kVerifyRegB OR kVerifyRegC),
    (0x9a, ''ushr-int'', k23x, kContinue OR kUshr, kVerifyRegA OR kVerifyRegB OR kVerifyRegC),
    (0x9b, ''add-long'', k23x, kContinue OR kAdd, kVerifyRegAWide OR kVerifyRegBWide OR kVerifyRegCWide),
    (0x9c, ''sub-long'', k23x, kContinue OR kSubtract, kVerifyRegAWide OR kVerifyRegBWide OR kVerifyRegCWide),
    (0x9d, ''mul-long'', k23x, kContinue OR kMultiply, kVerifyRegAWide OR kVerifyRegBWide OR kVerifyRegCWide),
    (0x9e, ''div-long'', k23x, kContinue OR kThrow OR kDivide, kVerifyRegAWide OR kVerifyRegBWide OR kVerifyRegCWide),
    (0x9f, ''rem-long'', k23x, kContinue OR kThrow OR kRemainder, kVerifyRegAWide OR kVerifyRegBWide OR kVerifyRegCWide),
    (0xa0, ''and-long'', k23x, kContinue OR kAnd, kVerifyRegAWide OR kVerifyRegBWide OR kVerifyRegCWide),
    (0xa1, ''or-long'', k23x, kContinue OR kOr, kVerifyRegAWide OR kVerifyRegBWide OR kVerifyRegCWide),
    (0xa2, ''xor-long'', k23x, kContinue OR kXor, kVerifyRegAWide OR kVerifyRegBWide OR kVerifyRegCWide),
    (0xa3, ''shl-long'', k23x, kContinue OR kShl, kVerifyRegAWide OR kVerifyRegBWide OR kVerifyRegC),
    (0xa4, ''shr-long'', k23x, kContinue OR kShr, kVerifyRegAWide OR kVerifyRegBWide OR kVerifyRegC),
    (0xa5, ''ushr-long'', k23x, kContinue OR kUshr, kVerifyRegAWide OR kVerifyRegBWide OR kVerifyRegC),
    (0xa6, ''add-float'', k23x, kContinue OR kAdd, kVerifyRegA OR kVerifyRegB OR kVerifyRegC),
    (0xa7, ''sub-float'', k23x, kContinue OR kSubtract, kVerifyRegA OR kVerifyRegB OR kVerifyRegC),
    (0xa8, ''mul-float'', k23x, kContinue OR kMultiply, kVerifyRegA OR kVerifyRegB OR kVerifyRegC),
    (0xa9, ''div-float'', k23x, kContinue OR kDivide, kVerifyRegA OR kVerifyRegB OR kVerifyRegC),
    (0xaa, ''rem-float'', k23x, kContinue OR kRemainder, kVerifyRegA OR kVerifyRegB OR kVerifyRegC),
    (0xab, ''add-double'', k23x, kContinue OR kAdd, kVerifyRegAWide OR kVerifyRegBWide OR kVerifyRegCWide),
    (0xac, ''sub-double'', k23x, kContinue OR kSubtract, kVerifyRegAWide OR kVerifyRegBWide OR kVerifyRegCWide),
    (0xad, ''mul-double'', k23x, kContinue OR kMultiply, kVerifyRegAWide OR kVerifyRegBWide OR kVerifyRegCWide),
    (0xae, ''div-double'', k23x, kContinue OR kDivide, kVerifyRegAWide OR kVerifyRegBWide OR kVerifyRegCWide),
    (0xaf, ''rem-double'', k23x, kContinue OR kRemainder, kVerifyRegAWide OR kVerifyRegBWide OR kVerifyRegCWide),
    (0xb0, ''add-int/2addr'', k12x, kContinue OR kAdd, kVerifyRegA OR kVerifyRegB),
    (0xb1, ''sub-int/2addr'', k12x, kContinue OR kSubtract, kVerifyRegA OR kVerifyRegB),
    (0xb2, ''mul-int/2addr'', k12x, kContinue OR kMultiply, kVerifyRegA OR kVerifyRegB),
    (0xb3, ''div-int/2addr'', k12x, kContinue OR kThrow OR kDivide, kVerifyRegA OR kVerifyRegB),
    (0xb4, ''rem-int/2addr'', k12x, kContinue OR kThrow OR kRemainder, kVerifyRegA OR kVerifyRegB),
    (0xb5, ''and-int/2addr'', k12x, kContinue OR kAnd, kVerifyRegA OR kVerifyRegB),
    (0xb6, ''or-int/2addr'', k12x, kContinue OR kOr, kVerifyRegA OR kVerifyRegB),
    (0xb7, ''xor-int/2addr'', k12x, kContinue OR kXor, kVerifyRegA OR kVerifyRegB),
    (0xb8, ''shl-int/2addr'', k12x, kContinue OR kShl, kVerifyRegA OR kVerifyRegB),
    (0xb9, ''shr-int/2addr'', k12x, kContinue OR kShr, kVerifyRegA OR kVerifyRegB),
    (0xba, ''ushr-int/2addr'', k12x, kContinue OR kUshr, kVerifyRegA OR kVerifyRegB),
    (0xbb, ''add-long/2addr'', k12x, kContinue OR kAdd, kVerifyRegAWide OR kVerifyRegBWide),
    (0xbc, ''sub-long/2addr'', k12x, kContinue OR kSubtract, kVerifyRegAWide OR kVerifyRegBWide),
    (0xbd, ''mul-long/2addr'', k12x, kContinue OR kMultiply, kVerifyRegAWide OR kVerifyRegBWide),
    (0xbe, ''div-long/2addr'', k12x, kContinue OR kThrow OR kDivide, kVerifyRegAWide OR kVerifyRegBWide),
    (0xbf, ''rem-long/2addr'', k12x, kContinue OR kThrow OR kRemainder, kVerifyRegAWide OR kVerifyRegBWide),
    (0xc0, ''and-long/2addr'', k12x, kContinue OR kAnd, kVerifyRegAWide OR kVerifyRegBWide),
    (0xc1, ''or-long/2addr'', k12x, kContinue OR kOr, kVerifyRegAWide OR kVerifyRegBWide),
    (0xc2, ''xor-long/2addr'', k12x, kContinue OR kXor, kVerifyRegAWide OR kVerifyRegBWide),
    (0xc3, ''shl-long/2addr'', k12x, kContinue OR kShl, kVerifyRegAWide OR kVerifyRegB),
    (0xc4, ''shr-long/2addr'', k12x, kContinue OR kShr, kVerifyRegAWide OR kVerifyRegB),
    (0xc5, ''ushr-long/2addr'', k12x, kContinue OR kUshr, kVerifyRegAWide OR kVerifyRegB),
    (0xc6, ''add-float/2addr'', k12x, kContinue OR kAdd, kVerifyRegA OR kVerifyRegB),
    (0xc7, ''sub-float/2addr'', k12x, kContinue OR kSubtract, kVerifyRegA OR kVerifyRegB),
    (0xc8, ''mul-float/2addr'', k12x, kContinue OR kMultiply, kVerifyRegA OR kVerifyRegB),
    (0xc9, ''div-float/2addr'', k12x, kContinue OR kDivide, kVerifyRegA OR kVerifyRegB),
    (0xca, ''rem-float/2addr'', k12x, kContinue OR kRemainder, kVerifyRegA OR kVerifyRegB),
    (0xcb, ''add-double/2addr'', k12x, kContinue OR kAdd, kVerifyRegAWide OR kVerifyRegBWide),
    (0xcc, ''sub-double/2addr'', k12x, kContinue OR kSubtract, kVerifyRegAWide OR kVerifyRegBWide),
    (0xcd, ''mul-double/2addr'', k12x, kContinue OR kMultiply, kVerifyRegAWide OR kVerifyRegBWide),
    (0xce, ''div-double/2addr'', k12x, kContinue OR kDivide, kVerifyRegAWide OR kVerifyRegBWide),
    (0xcf, ''rem-double/2addr'', k12x, kContinue OR kRemainder, kVerifyRegAWide OR kVerifyRegBWide),
    (0xd0, ''add-int/lit16'', k22s, kContinue OR kAdd OR kRegCFieldOrConstant, kVerifyRegA OR kVerifyRegB),
    (0xd1, ''rsub-int'', k22s, kContinue OR kSubtract OR kRegCFieldOrConstant, kVerifyRegA OR kVerifyRegB),
    (0xd2, ''mul-int/lit16'', k22s, kContinue OR kMultiply OR kRegCFieldOrConstant, kVerifyRegA OR kVerifyRegB),
    (0xd3, ''div-int/lit16'', k22s, kContinue OR kThrow OR kDivide OR kRegCFieldOrConstant, kVerifyRegA OR kVerifyRegB),
    (0xd4, ''rem-int/lit16'', k22s, kContinue OR kThrow OR kRemainder OR kRegCFieldOrConstant, kVerifyRegA OR kVerifyRegB),
    (0xd5, ''and-int/lit16'', k22s, kContinue OR kAnd OR kRegCFieldOrConstant, kVerifyRegA OR kVerifyRegB),
    (0xd6, ''or-int/lit16'', k22s, kContinue OR kOr OR kRegCFieldOrConstant, kVerifyRegA OR kVerifyRegB),
    (0xd7, ''xor-int/lit16'', k22s, kContinue OR kXor OR kRegCFieldOrConstant, kVerifyRegA OR kVerifyRegB),
    (0xd8, ''add-int/lit8'', k22b, kContinue OR kAdd OR kRegCFieldOrConstant, kVerifyRegA OR kVerifyRegB),
    (0xd9, ''rsub-int/lit8'', k22b, kContinue OR kSubtract OR kRegCFieldOrConstant, kVerifyRegA OR kVerifyRegB),
    (0xda, ''mul-int/lit8'', k22b, kContinue OR kMultiply OR kRegCFieldOrConstant, kVerifyRegA OR kVerifyRegB),
    (0xdb, ''div-int/lit8'', k22b, kContinue OR kThrow OR kDivide OR kRegCFieldOrConstant, kVerifyRegA OR kVerifyRegB),
    (0xdc, ''rem-int/lit8'', k22b, kContinue OR kThrow OR kRemainder OR kRegCFieldOrConstant, kVerifyRegA OR kVerifyRegB),
    (0xdd, ''and-int/lit8'', k22b, kContinue OR kAnd OR kRegCFieldOrConstant, kVerifyRegA OR kVerifyRegB),
    (0xde, ''or-int/lit8'', k22b, kContinue OR kOr OR kRegCFieldOrConstant, kVerifyRegA OR kVerifyRegB),
    (0xdf, ''xor-int/lit8'', k22b, kContinue OR kXor OR kRegCFieldOrConstant, kVerifyRegA OR kVerifyRegB),
    (0xe0, ''shl-int/lit8'', k22b, kContinue OR kShl OR kRegCFieldOrConstant, kVerifyRegA OR kVerifyRegB),
    (0xe1, ''shr-int/lit8'', k22b, kContinue OR kShr OR kRegCFieldOrConstant, kVerifyRegA OR kVerifyRegB),
    (0xe2, ''ushr-int/lit8'', k22b, kContinue OR kUshr OR kRegCFieldOrConstant, kVerifyRegA OR kVerifyRegB),
    (0xe3, ''iget-quick'', k22c, kContinue OR kThrow OR kLoad OR kRegCFieldOrConstant, kVerifyRegA OR kVerifyRegB OR kVerifyRuntimeOnly),
    (0xe4, ''iget-wide-quick'', k22c, kContinue OR kThrow OR kLoad OR kRegCFieldOrConstant, kVerifyRegAWide OR kVerifyRegB OR kVerifyRuntimeOnly),
    (0xe5, ''iget-object-quick'', k22c, kContinue OR kThrow OR kLoad OR kRegCFieldOrConstant, kVerifyRegA OR kVerifyRegB OR kVerifyRuntimeOnly),
    (0xe6, ''iput-quick'', k22c, kContinue OR kThrow OR kStore OR kRegCFieldOrConstant, kVerifyRegA OR kVerifyRegB OR kVerifyRuntimeOnly),
    (0xe7, ''iput-wide-quick'', k22c, kContinue OR kThrow OR kStore OR kRegCFieldOrConstant, kVerifyRegAWide OR kVerifyRegB OR kVerifyRuntimeOnly),
    (0xe8, ''iput-object-quick'', k22c, kContinue OR kThrow OR kStore OR kRegCFieldOrConstant, kVerifyRegA OR kVerifyRegB OR kVerifyRuntimeOnly),
    (0xe9, ''invoke-virtual-quick'', k35c, kContinue OR kThrow OR kInvoke, kVerifyVarArgNonZero OR kVerifyRuntimeOnly),
    (0xea, ''invoke-virtual/range-quick'', k3rc, kContinue OR kThrow OR kInvoke, kVerifyVarArgRangeNonZero OR kVerifyRuntimeOnly),
    (0xeb, ''iput-boolean-quick'', k22c, kContinue OR kThrow OR kStore OR kRegCFieldOrConstant, kVerifyRegA OR kVerifyRegB OR kVerifyRuntimeOnly),
    (0xec, ''iput-byte-quick'', k22c, kContinue OR kThrow OR kStore OR kRegCFieldOrConstant, kVerifyRegA OR kVerifyRegB OR kVerifyRuntimeOnly),
    (0xed, ''iput-char-quick'', k22c, kContinue OR kThrow OR kStore OR kRegCFieldOrConstant, kVerifyRegA OR kVerifyRegB OR kVerifyRuntimeOnly),
    (0xee, ''iput-short-quick'', k22c, kContinue OR kThrow OR kStore OR kRegCFieldOrConstant, kVerifyRegA OR kVerifyRegB OR kVerifyRuntimeOnly),
    (0xef, ''iget-boolean-quick'', k22c, kContinue OR kThrow OR kLoad OR kRegCFieldOrConstant, kVerifyRegA OR kVerifyRegB OR kVerifyRuntimeOnly),
    (0xf0, ''iget-byte-quick'', k22c, kContinue OR kThrow OR kLoad OR kRegCFieldOrConstant, kVerifyRegA OR kVerifyRegB OR kVerifyRuntimeOnly),
    (0xf1, ''iget-char-quick'', k22c, kContinue OR kThrow OR kLoad OR kRegCFieldOrConstant, kVerifyRegA OR kVerifyRegB OR kVerifyRuntimeOnly),
    (0xf2, ''iget-short-quick'', k22c, kContinue OR kThrow OR kLoad OR kRegCFieldOrConstant, kVerifyRegA OR kVerifyRegB OR kVerifyRuntimeOnly),
    (0xf3, ''unused-f3'', k10x, 0, kVerifyError),
    (0xf4, ''unused-f4'', k10x, 0, kVerifyError),
    (0xf5, ''unused-f5'', k10x, 0, kVerifyError),
    (0xf6, ''unused-f6'', k10x, 0, kVerifyError),
    (0xf7, ''unused-f7'', k10x, 0, kVerifyError),
    (0xf8, ''unused-f8'', k10x, 0, kVerifyError),
    (0xf9, ''unused-f9'', k10x, 0, kVerifyError),
    (0xfa, ''unused-fa'', k10x, 0, kVerifyError),
    (0xfb, ''unused-fb'', k10x, 0, kVerifyError),
    (0xfc, ''unused-fc'', k10x, 0, kVerifyError),
    (0xfd, ''unused-fd'', k10x, 0, kVerifyError),
    (0xfe, ''unused-fe'', k10x, 0, kVerifyError),
    (0xff, ''unused-ff'', k10x, 0, kVerifyError)]"

definition insn_table :: "insn_row list" where
  "insn_table = insn_table_lo @ insn_table_hi"

definition kInstructionNames :: "u8 \<Rightarrow> string" where
  "kInstructionNames op = fst (snd (insn_table ! unat op))"

definition kInstructionFormats :: "u8 \<Rightarrow> Format" where
  "kInstructionFormats op = fst (snd (snd (insn_table ! unat op)))"

definition kInstructionFlags :: "u8 \<Rightarrow> u32" where
  "kInstructionFlags op = fst (snd (snd (snd (insn_table ! unat op))))"

definition kInstructionVerifyFlags :: "u8 \<Rightarrow> u32" where
  "kInstructionVerifyFlags op = snd (snd (snd (snd (insn_table ! unat op))))"

text \<open>The macro \<open>INSTRUCTION_SIZE\<close> compares format positions.\<close>

definition kInstructionSizeInCodeUnits :: "u8 \<Rightarrow> int" where
  "kInstructionSizeInCodeUnits op =
     (let format = format_pos (kInstructionFormats op)
      in if op = NOP then -1
         else if format_pos k10x \<le> format \<and> format \<le> format_pos k10t then 1
         else if format_pos k20t \<le> format \<and> format \<le> format_pos k22c then 2
         else if format_pos k32x \<le> format \<and> format \<le> format_pos k3rc then 3
         else if format = format_pos k51l then 5 else -1)"

section \<open>Fetching\<close>

type_synonym insns = "u16 list"

definition Fetch16 :: "insns \<Rightarrow> nat \<Rightarrow> nat \<Rightarrow> u16 option" where
  "Fetch16 insns i offset = (if i + offset < length insns then Some (insns ! (i + offset)) else None)"

definition Fetch32 :: "insns \<Rightarrow> nat \<Rightarrow> nat \<Rightarrow> u32 option" where
  "Fetch32 insns i offset = do {
     lo \<leftarrow> Fetch16 insns i offset;
     hi \<leftarrow> Fetch16 insns i (offset + 1);
     Some (ucast lo OR push_bit 16 (ucast hi))
   }"

definition InstA :: "u16 \<Rightarrow> u8" where
  "InstA inst_data = ucast (drop_bit 8 inst_data AND 0x0f)"

definition InstB :: "u16 \<Rightarrow> u8" where
  "InstB inst_data = ucast (drop_bit 12 inst_data)"

definition InstAA :: "u16 \<Rightarrow> u8" where
  "InstAA inst_data = ucast (drop_bit 8 inst_data)"

definition Opcode_of :: "u16 \<Rightarrow> u8" where
  "Opcode_of inst_data = ucast (inst_data AND 0xFF)"

definition Opcode :: "insns \<Rightarrow> nat \<Rightarrow> u8 option" where
  "Opcode insns i = map_option Opcode_of (Fetch16 insns i 0)"

definition FormatOf :: "u8 \<Rightarrow> Format" where
  "FormatOf opcode = kInstructionFormats opcode"

definition FlagsOf :: "u8 \<Rightarrow> u32" where
  "FlagsOf opcode = kInstructionFlags opcode"

definition VerifyFlagsOf :: "u8 \<Rightarrow> u32" where
  "VerifyFlagsOf opcode = kInstructionVerifyFlags opcode"


section \<open>Operand accessors\<close>

definition VRegA_10t :: "u16 \<Rightarrow> u8" where
  "VRegA_10t inst_data = InstAA inst_data"

definition VRegA_10x :: "u16 \<Rightarrow> u8" where
  "VRegA_10x inst_data = InstAA inst_data"

definition VRegA_11n :: "u16 \<Rightarrow> u8" where
  "VRegA_11n inst_data = InstA inst_data"

definition VRegA_11x :: "u16 \<Rightarrow> u8" where
  "VRegA_11x inst_data = InstAA inst_data"

definition VRegA_12x :: "u16 \<Rightarrow> u8" where
  "VRegA_12x inst_data = InstA inst_data"

definition VRegA_20t :: "insns \<Rightarrow> nat \<Rightarrow> u16 option" where
  "VRegA_20t insns i = Fetch16 insns i 1"

definition VRegA_21c :: "u16 \<Rightarrow> u8" where
  "VRegA_21c inst_data = InstAA inst_data"

definition VRegA_21h :: "u16 \<Rightarrow> u8" where
  "VRegA_21h inst_data = InstAA inst_data"

definition VRegA_21s :: "u16 \<Rightarrow> u8" where
  "VRegA_21s inst_data = InstAA inst_data"

definition VRegA_21t :: "u16 \<Rightarrow> u8" where
  "VRegA_21t inst_data = InstAA inst_data"

definition VRegA_22b :: "u16 \<Rightarrow> u8" where
  "VRegA_22b inst_data = InstAA inst_data"

definition VRegA_22c :: "u16 \<Rightarrow> u8" where
  "VRegA_22c inst_data = InstA inst_data"

definition VRegA_22s :: "u16 \<Rightarrow> u8" where
  "VRegA_22s inst_data = InstA inst_data"

definition VRegA_22t :: "u16 \<Rightarrow> u8" where
  "VRegA_22t inst_data = InstA inst_data"

definition VRegA_22x :: "u16 \<Rightarrow> u8" where
  "VRegA_22x inst_data = InstAA inst_data"

definition VRegA_23x :: "u16 \<Rightarrow> u8" where
  "VRegA_23x inst_data = InstAA inst_data"

definition VRegA_30t :: "insns \<Rightarrow> nat \<Rightarrow> u32 option" where
  "VRegA_30t insns i = Fetch32 insns i 1"

definition VRegA_31c :: "u16 \<Rightarrow> u8" where
  "VRegA_31c inst_data = InstAA inst_data"

definition VRegA_31i :: "u16 \<Rightarrow> u8" where
  "VRegA_31i inst_data = InstAA inst_data"

definition VRegA_31t :: "u16 \<Rightarrow> u8" where
  "VRegA_31t inst_data = InstAA inst_data"

definition VRegA_32x :: "insns \<Rightarrow> nat \<Rightarrow> u16 option" where
  "VRegA_32x insns i = Fetch16 insns i 1"

definition VRegA_35c :: "u16 \<Rightarrow> u8" where
  "VRegA_35c inst_data = InstB inst_data"

definition VRegA_3rc :: "u16 \<Rightarrow> u8" where
  "VRegA_3rc inst_data = InstAA inst_data"

definition VRegA_51l :: "u16 \<Rightarrow> u8" where
  "VRegA_51l inst_data = InstAA inst_data"

definition VRegB_11n :: "u16 \<Rightarrow> u8" where
  "VRegB_11n inst_data = ucast (signed_drop_bit 28 (push_bit 28 (ucast (InstB inst_data) :: u32)))"

definition VRegB_12x :: "u16 \<Rightarrow> u8" where
  "VRegB_12x inst_data = InstB inst_data"

definition VRegB_21c :: "insns \<Rightarrow> nat \<Rightarrow> u16 option" where
  "VRegB_21c insns i = Fetch16 insns i 1"

definition VRegB_21h :: "insns \<Rightarrow> nat \<Rightarrow> u16 option" where
  "VRegB_21h insns i = Fetch16 insns i 1"

definition VRegB_21s :: "insns \<Rightarrow> nat \<Rightarrow> u16 option" where
  "VRegB_21s insns i = Fetch16 insns i 1"

definition VRegB_21t :: "insns \<Rightarrow> nat \<Rightarrow> u16 option" where
  "VRegB_21t insns i = Fetch16 insns i 1"

definition VRegB_22b :: "insns \<Rightarrow> nat \<Rightarrow> u8 option" where
  "VRegB_22b insns i = map_option (\<lambda>u. ucast (u AND 0xff)) (Fetch16 insns i 1)"

definition VRegB_22c :: "u16 \<Rightarrow> u8" where
  "VRegB_22c inst_data = InstB inst_data"

definition VRegB_22s :: "u16 \<Rightarrow> u8" where
  "VRegB_22s inst_data = InstB inst_data"

definition VRegB_22t :: "u16 \<Rightarrow> u8" where
  "VRegB_22t inst_data = InstB inst_data"

definition VRegB_22x :: "insns \<Rightarrow> nat \<Rightarrow> u16 option" where
  "VRegB_22x insns i = Fetch16 insns i 1"

definition VRegB_23x :: "insns \<Rightarrow> nat \<Rightarrow> u8 option" where
  "VRegB_23x insns i = map_option (\<lambda>u. ucast (u AND 0xff)) (Fetch16 insns i 1)"

definition VRegB_31c :: "insns \<Rightarrow> nat \<Rightarrow> u32 option" where
  "VRegB_31c insns i = Fetch32 insns i 1"

definition VRegB_31i :: "insns \<Rightarrow> nat \<Rightarrow> u32 option" where
  "VRegB_31i insns i = Fetch32 insns i 1"

definition VRegB_31t :: "insns \<Rightarrow> nat \<Rightarrow> u32 option" where
  "VRegB_31t insns i = Fetch32 insns i 1"

definition VRegB_32x :: "insns \<Rightarrow> nat \<Rightarrow> u16 option" where
  "VRegB_32x insns i = Fetch16 insns i 2"

definition VRegB_35c :: "insns \<Rightarrow> nat \<Rightarrow> u16 option" where
  "VRegB_35c insns i = Fetch16 insns i 1"

definition VRegB_3rc :: "insns \<Rightarrow> nat \<Rightarrow> u16 option" where
  "VRegB_3rc insns i = Fetch16 insns i 1"

definition VRegB_51l :: "insns \<Rightarrow> nat \<Rightarrow> u64 option" where
  "VRegB_51l insns i = do {
     lo \<leftarrow> Fetch32 insns i 1;
     hi \<leftarrow> Fetch32 insns i 3;
     Some (ucast lo OR push_bit 32 (ucast hi))
   }"

definition VRegC_22b :: "insns \<Rightarrow> nat \<Rightarrow> u8 option" where
  "VRegC_22b insns i = map_option (\<lambda>u. ucast (drop_bit 8 u)) (Fetch16 insns i 1)"

definition VRegC_22c :: "insns \<Rightarrow> nat \<Rightarrow> u16 option" where
  "VRegC_22c insns i = Fetch16 insns i 1"

definition VRegC_22s :: "insns \<Rightarrow> nat \<Rightarrow> u16 option" where
  "VRegC_22s insns i = Fetch16 insns i 1"

definition VRegC_22t :: "insns \<Rightarrow> nat \<Rightarrow> u16 option" where
  "VRegC_22t insns i = Fetch16 insns i 1"

definition VRegC_23x :: "insns \<Rightarrow> nat \<Rightarrow> u8 option" where
  "VRegC_23x insns i = map_option (\<lambda>u. ucast (drop_bit 8 u)) (Fetch16 insns i 1)"

definition VRegC_35c :: "insns \<Rightarrow> nat \<Rightarrow> u8 option" where
  "VRegC_35c insns i = map_option (\<lambda>u. ucast (u AND 0x0f)) (Fetch16 insns i 2)"

definition VRegC_3rc :: "insns \<Rightarrow> nat \<Rightarrow> u16 option" where
  "VRegC_3rc insns i = Fetch16 insns i 2"


text \<open>\<open>HasVRegA\<close>, \<open>HasVRegB\<close>, \<open>HasVRegC\<close>: the formats with that operand (the switch is on
  \<open>FormatOf(Opcode())\<close>).\<close>

definition HasVRegA :: "Format \<Rightarrow> bool" where
  "HasVRegA format \<longleftrightarrow> format \<in> {k10t, k10x, k11n, k11x, k12x, k20t, k21c, k21h, k21s, k21t, k22b, k22c, k22s, k22t, k22x, k23x, k30t, k31c, k31i, k31t, k32x, k35c, k3rc, k51l}"

definition HasVRegB :: "Format \<Rightarrow> bool" where
  "HasVRegB format \<longleftrightarrow> format \<in> {k11n, k12x, k21c, k21h, k21s, k21t, k22b, k22c, k22s, k22t, k22x, k23x, k31c, k31i, k31t, k32x, k35c, k3rc, k51l}"

definition HasVRegC :: "Format \<Rightarrow> bool" where
  "HasVRegC format \<longleftrightarrow> format \<in> {k22b, k22c, k22s, k22t, k23x, k35c, k3rc}"

text \<open>The format-independent accessors; the \<open>default\<close> branch of the source aborts.\<close>

definition VRegA :: "insns \<Rightarrow> nat \<Rightarrow> u32 option" where
  "VRegA insns i = do {
     inst_data \<leftarrow> Fetch16 insns i 0;
     (case FormatOf (Opcode_of inst_data) of
        k10t \<Rightarrow> Some (scast (VRegA_10t inst_data))
      | k10x \<Rightarrow> Some (ucast (VRegA_10x inst_data))
      | k11n \<Rightarrow> Some (ucast (VRegA_11n inst_data))
      | k11x \<Rightarrow> Some (ucast (VRegA_11x inst_data))
      | k12x \<Rightarrow> Some (ucast (VRegA_12x inst_data))
      | k20t \<Rightarrow> map_option scast (VRegA_20t insns i)
      | k21c \<Rightarrow> Some (ucast (VRegA_21c inst_data))
      | k21h \<Rightarrow> Some (ucast (VRegA_21h inst_data))
      | k21s \<Rightarrow> Some (ucast (VRegA_21s inst_data))
      | k21t \<Rightarrow> Some (ucast (VRegA_21t inst_data))
      | k22b \<Rightarrow> Some (ucast (VRegA_22b inst_data))
      | k22c \<Rightarrow> Some (ucast (VRegA_22c inst_data))
      | k22s \<Rightarrow> Some (ucast (VRegA_22s inst_data))
      | k22t \<Rightarrow> Some (ucast (VRegA_22t inst_data))
      | k22x \<Rightarrow> Some (ucast (VRegA_22x inst_data))
      | k23x \<Rightarrow> Some (ucast (VRegA_23x inst_data))
      | k30t \<Rightarrow> VRegA_30t insns i
      | k31c \<Rightarrow> Some (ucast (VRegA_31c inst_data))
      | k31i \<Rightarrow> Some (ucast (VRegA_31i inst_data))
      | k31t \<Rightarrow> Some (ucast (VRegA_31t inst_data))
      | k32x \<Rightarrow> map_option ucast (VRegA_32x insns i)
      | k35c \<Rightarrow> Some (ucast (VRegA_35c inst_data))
      | k3rc \<Rightarrow> Some (ucast (VRegA_3rc inst_data))
      | k51l \<Rightarrow> Some (ucast (VRegA_51l inst_data)))
   }"

definition VRegB :: "insns \<Rightarrow> nat \<Rightarrow> u32 option" where
  "VRegB insns i = do {
     inst_data \<leftarrow> Fetch16 insns i 0;
     (case FormatOf (Opcode_of inst_data) of
        k11n \<Rightarrow> Some (scast (VRegB_11n inst_data))
      | k12x \<Rightarrow> Some (ucast (VRegB_12x inst_data))
      | k21c \<Rightarrow> map_option ucast (VRegB_21c insns i)
      | k21h \<Rightarrow> map_option ucast (VRegB_21h insns i)
      | k21s \<Rightarrow> map_option scast (VRegB_21s insns i)
      | k21t \<Rightarrow> map_option scast (VRegB_21t insns i)
      | k22b \<Rightarrow> map_option ucast (VRegB_22b insns i)
      | k22c \<Rightarrow> Some (ucast (VRegB_22c inst_data))
      | k22s \<Rightarrow> Some (ucast (VRegB_22s inst_data))
      | k22t \<Rightarrow> Some (ucast (VRegB_22t inst_data))
      | k22x \<Rightarrow> map_option ucast (VRegB_22x insns i)
      | k23x \<Rightarrow> map_option ucast (VRegB_23x insns i)
      | k31c \<Rightarrow> VRegB_31c insns i
      | k31i \<Rightarrow> VRegB_31i insns i
      | k31t \<Rightarrow> VRegB_31t insns i
      | k32x \<Rightarrow> map_option ucast (VRegB_32x insns i)
      | k35c \<Rightarrow> map_option ucast (VRegB_35c insns i)
      | k3rc \<Rightarrow> map_option ucast (VRegB_3rc insns i)
      | k51l \<Rightarrow> map_option ucast (VRegB_51l insns i)
      | _ \<Rightarrow> None)
   }"

definition VRegC :: "insns \<Rightarrow> nat \<Rightarrow> u32 option" where
  "VRegC insns i = do {
     inst_data \<leftarrow> Fetch16 insns i 0;
     (case FormatOf (Opcode_of inst_data) of
        k22b \<Rightarrow> map_option scast (VRegC_22b insns i)
      | k22c \<Rightarrow> map_option ucast (VRegC_22c insns i)
      | k22s \<Rightarrow> map_option scast (VRegC_22s insns i)
      | k22t \<Rightarrow> map_option scast (VRegC_22t insns i)
      | k23x \<Rightarrow> map_option ucast (VRegC_23x insns i)
      | k35c \<Rightarrow> map_option ucast (VRegC_35c insns i)
      | k3rc \<Rightarrow> map_option ucast (VRegC_3rc insns i)
      | _ \<Rightarrow> None)
   }"


section \<open>Variable argument lists\<close>

definition HasVarArgs :: "insns \<Rightarrow> nat \<Rightarrow> bool option" where
  "HasVarArgs insns i = map_option (\<lambda>op. FormatOf op = k35c) (Opcode insns i)"

definition HasWideVRegB :: "insns \<Rightarrow> nat \<Rightarrow> bool option" where
  "HasWideVRegB insns i = map_option (\<lambda>op. FormatOf op = k51l) (Opcode insns i)"

definition WideVRegB :: "insns \<Rightarrow> nat \<Rightarrow> u64 option" where
  "WideVRegB insns i = VRegB_51l insns i"

text \<open>\<open>kMaxVarArgRegs\<close> is 5, the length of the caller's array \<open>arg\<close>. The switch on the count falls
  through from case 5 to case 1; a count above 5 takes the default branch. (In a debug build it fails
  a \<open>DCHECK\<close>, as a wrong format does in every accessor above; release builds compile these checks
  away, and the model is of the release build.)\<close>

abbreviation (input) kMaxVarArgRegs :: nat where "kMaxVarArgRegs \<equiv> 5"

definition GetVarArgs :: "insns \<Rightarrow> nat \<Rightarrow> u16 \<Rightarrow> u32 list \<Rightarrow> u32 list option" where
  "GetVarArgs insns i inst_data arg = do {
     regList \<leftarrow> Fetch16 insns i 2;
     let count = InstB inst_data;
     let case1 = (\<lambda>arg :: u32 list. arg[0 := ucast (regList AND 0x0f)]);
     let case2 = (\<lambda>arg. case1 (arg[1 := ucast (drop_bit 4 regList AND 0x0f)]));
     let case3 = (\<lambda>arg. case2 (arg[2 := ucast (drop_bit 8 regList AND 0x0f)]));
     let case4 = (\<lambda>arg. case3 (arg[3 := ucast (drop_bit 12 regList AND 0x0f)]));
     let case5 = (\<lambda>arg. case4 (arg[4 := ucast (InstA inst_data)]));
     Some (if count = 5 then case5 arg
           else if count = 4 then case4 arg
           else if count = 3 then case3 arg
           else if count = 2 then case2 arg
           else if count = 1 then case1 arg
           else arg)
   }"

section \<open>Sizes and the instruction stream\<close>

abbreviation (input) kPackedSwitchSignature :: u16 where "kPackedSwitchSignature \<equiv> 0x0100"
abbreviation (input) kSparseSwitchSignature :: u16 where "kSparseSwitchSignature \<equiv> 0x0200"
abbreviation (input) kArrayDataSignature :: u16 where "kArrayDataSignature \<equiv> 0x0300"

text \<open>\<open>insns[1] * 2\<close> is computed in \<open>int\<close> and cannot overflow; \<open>element_size * length\<close> is computed in
  \<open>uint32_t\<close> and wraps around.\<close>

definition SizeInCodeUnitsComplexOpcode :: "insns \<Rightarrow> nat \<Rightarrow> nat option" where
  "SizeInCodeUnitsComplexOpcode insns i = do {
     ident \<leftarrow> Fetch16 insns i 0;
     (if ident = kPackedSwitchSignature then do {
        n \<leftarrow> Fetch16 insns i 1;
        Some (4 + unat n * 2) }
      else if ident = kSparseSwitchSignature then do {
        n \<leftarrow> Fetch16 insns i 1;
        Some (2 + unat n * 4) }
      else if ident = kArrayDataSignature then do {
        element_size \<leftarrow> Fetch16 insns i 1;
        lo \<leftarrow> Fetch16 insns i 2;
        hi \<leftarrow> Fetch16 insns i 3;
        let length = ((ucast lo OR push_bit 16 (ucast hi)) :: u32);
        Some (unat (4 + (ucast element_size * length + 1) div (2 :: u32))) }
      else if ident AND 0xFF = 0 then Some 1
      else None)
   }"

definition SizeInCodeUnits :: "insns \<Rightarrow> nat \<Rightarrow> nat option" where
  "SizeInCodeUnits insns i = do {
     op \<leftarrow> Opcode insns i;
     let result = kInstructionSizeInCodeUnits op;
     (if result < 0 then SizeInCodeUnitsComplexOpcode insns i else Some (nat result))
   }"

text \<open>\<open>RelativeAt\<close> is pointer arithmetic: an offset before the first code unit is \<open>None\<close>. \<open>Next\<close>
  converts the \<open>size_t\<close> size to \<open>int32_t\<close>.\<close>

definition RelativeAt :: "nat \<Rightarrow> u32 \<Rightarrow> nat option" where
  "RelativeAt i offset = (if 0 \<le> int i + sint offset then Some (nat (int i + sint offset)) else None)"

definition Next :: "insns \<Rightarrow> nat \<Rightarrow> nat option" where
  "Next insns i = do { n \<leftarrow> SizeInCodeUnits insns i; RelativeAt i (word_of_nat n) }"

definition Next_1xx :: "nat \<Rightarrow> nat option" where
  "Next_1xx i = RelativeAt i 1"

definition Next_2xx :: "nat \<Rightarrow> nat option" where
  "Next_2xx i = RelativeAt i 2"

definition Next_3xx :: "nat \<Rightarrow> nat option" where
  "Next_3xx i = RelativeAt i 3"

definition Next_51l :: "nat \<Rightarrow> nat option" where
  "Next_51l i = RelativeAt i 5"

definition GetDexPc :: "nat \<Rightarrow> u32" where
  "GetDexPc i = word_of_nat i"

section \<open>Branch targets and instruction classes\<close>

definition GetTargetOffset :: "insns \<Rightarrow> nat \<Rightarrow> u32 option" where
  "GetTargetOffset insns i = do {
     inst_data \<leftarrow> Fetch16 insns i 0;
     (case FormatOf (Opcode_of inst_data) of
        k22t \<Rightarrow> map_option scast (VRegC_22t insns i)
      | k21t \<Rightarrow> map_option scast (VRegB_21t insns i)
      | k10t \<Rightarrow> Some (scast (VRegA_10t inst_data))
      | k20t \<Rightarrow> map_option scast (VRegA_20t insns i)
      | k30t \<Rightarrow> VRegA_30t insns i
      | _ \<Rightarrow> None)
   }"

definition CanFlowThrough :: "u8 \<Rightarrow> bool" where
  "CanFlowThrough opcode \<longleftrightarrow> FlagsOf opcode AND kContinue \<noteq> 0"

definition IsBranch :: "u8 \<Rightarrow> bool" where
  "IsBranch opcode \<longleftrightarrow> kInstructionFlags opcode AND kBranch \<noteq> 0"

definition IsUnconditional :: "u8 \<Rightarrow> bool" where
  "IsUnconditional opcode \<longleftrightarrow> kInstructionFlags opcode AND kUnconditional \<noteq> 0"

definition IsSwitch :: "u8 \<Rightarrow> bool" where
  "IsSwitch opcode \<longleftrightarrow> kInstructionFlags opcode AND kSwitch \<noteq> 0"

definition IsThrow :: "u8 \<Rightarrow> bool" where
  "IsThrow opcode \<longleftrightarrow> kInstructionFlags opcode AND kThrow \<noteq> 0"

definition IsReturn :: "u8 \<Rightarrow> bool" where
  "IsReturn opcode \<longleftrightarrow> kInstructionFlags opcode AND kReturn \<noteq> 0"

definition IsInvoke :: "u8 \<Rightarrow> bool" where
  "IsInvoke opcode \<longleftrightarrow> kInstructionFlags opcode AND kInvoke \<noteq> 0"

definition IsBasicBlockEnd :: "u8 \<Rightarrow> bool" where
  "IsBasicBlockEnd opcode \<longleftrightarrow> IsBranch opcode \<or> IsReturn opcode \<or> opcode = THROW"

definition GetVerifyTypeArgumentA :: "u8 \<Rightarrow> u32" where
  "GetVerifyTypeArgumentA opcode =
     kInstructionVerifyFlags opcode AND (kVerifyRegA OR kVerifyRegAWide)"

definition GetVerifyTypeArgumentB :: "u8 \<Rightarrow> u32" where
  "GetVerifyTypeArgumentB opcode =
     kInstructionVerifyFlags opcode AND (kVerifyRegB OR kVerifyRegBField OR kVerifyRegBMethod OR
       kVerifyRegBNewInstance OR kVerifyRegBString OR kVerifyRegBType OR kVerifyRegBWide)"

definition GetVerifyTypeArgumentC :: "u8 \<Rightarrow> u32" where
  "GetVerifyTypeArgumentC opcode =
     kInstructionVerifyFlags opcode AND (kVerifyRegC OR kVerifyRegCField OR kVerifyRegCNewArray OR
       kVerifyRegCType OR kVerifyRegCWide)"

definition GetVerifyExtraFlags :: "u8 \<Rightarrow> u32" where
  "GetVerifyExtraFlags opcode =
     kInstructionVerifyFlags opcode AND (kVerifyArrayData OR kVerifyBranchTarget OR
       kVerifySwitchTargets OR kVerifyVarArg OR kVerifyVarArgNonZero OR kVerifyVarArgRange OR
       kVerifyVarArgRangeNonZero OR kVerifyError)"

definition GetVerifyIsRuntimeOnly :: "u8 \<Rightarrow> bool" where
  "GetVerifyIsRuntimeOnly opcode \<longleftrightarrow> kInstructionVerifyFlags opcode AND kVerifyRuntimeOnly \<noteq> 0"

section \<open>In-place edits\<close>

text \<open>The setters used when code is quickened; \<open>val << 8\<close> is computed in \<open>int\<close> and truncated.\<close>

definition SetOpcode :: "insns \<Rightarrow> nat \<Rightarrow> u8 \<Rightarrow> insns option" where
  "SetOpcode insns i opcode = do {
     w \<leftarrow> Fetch16 insns i 0;
     Some (insns[i := (w AND 0xff00) OR ucast opcode])
   }"

definition SetVRegA_10x :: "insns \<Rightarrow> nat \<Rightarrow> u8 \<Rightarrow> insns option" where
  "SetVRegA_10x insns i val = do {
     w \<leftarrow> Fetch16 insns i 0;
     Some (insns[i := push_bit 8 (ucast val) OR (w AND 0x00ff)])
   }"

definition SetVRegB_3rc :: "insns \<Rightarrow> nat \<Rightarrow> u16 \<Rightarrow> insns option" where
  "SetVRegB_3rc insns i val = (if i + 1 < length insns then Some (insns[i + 1 := val]) else None)"

definition SetVRegB_35c :: "insns \<Rightarrow> nat \<Rightarrow> u16 \<Rightarrow> insns option" where
  "SetVRegB_35c insns i val = (if i + 1 < length insns then Some (insns[i + 1 := val]) else None)"

definition SetVRegC_22c :: "insns \<Rightarrow> nat \<Rightarrow> u16 \<Rightarrow> insns option" where
  "SetVRegC_22c insns i val = (if i + 1 < length insns then Some (insns[i + 1 := val]) else None)"


section \<open>Facts about the opcode table\<close>

lemma insn_table_indexed: "map fst insn_table = map word_of_nat [0..<256]"
  by code_simp

lemma length_insn_table [simp]: "length insn_table = 256"
  using arg_cong [OF insn_table_indexed, of length] by simp

lemma insn_table_fst: "fst (insn_table ! unat (op :: u8)) = op"
proof -
  have lt: "unat op < 256" using unat_u8_less [of op] by simp
  have "fst (insn_table ! unat op) = map fst insn_table ! unat op"
    using lt by simp
  also have "\<dots> = word_of_nat (unat op)"
    unfolding insn_table_indexed using lt by simp
  finally show ?thesis by simp
qed

text \<open>A property of every row is a property of every opcode with its format and flags.\<close>

lemma insn_table_all:
  assumes "list_all (\<lambda>(op, name, format, flags, vflags). P op format flags vflags) insn_table"
  shows "P op (FormatOf op) (FlagsOf op) (VerifyFlagsOf op)"
proof -
  have "unat op < length insn_table" using unat_u8_less [of op] by simp
  with assms have "(\<lambda>(op, name, format, flags, vflags). P op format flags vflags) (insn_table ! unat op)"
    by (simp add: list_all_length)
  then show ?thesis
    using insn_table_fst [of op]
    by (auto simp: FormatOf_def FlagsOf_def VerifyFlagsOf_def kInstructionFormats_def
        kInstructionFlags_def kInstructionVerifyFlags_def split: prod.splits)
qed

text \<open>The size the macro assigns to a format.\<close>

fun format_size :: "Format \<Rightarrow> nat" where
  "format_size k10x = 1" | "format_size k12x = 1" | "format_size k11n = 1" | "format_size k11x = 1"
| "format_size k10t = 1"
| "format_size k20t = 2" | "format_size k22x = 2" | "format_size k21t = 2" | "format_size k21s = 2"
| "format_size k21h = 2" | "format_size k21c = 2" | "format_size k23x = 2" | "format_size k22b = 2"
| "format_size k22t = 2" | "format_size k22s = 2" | "format_size k22c = 2"
| "format_size k32x = 3" | "format_size k30t = 3" | "format_size k31t = 3" | "format_size k31i = 3"
| "format_size k31c = 3" | "format_size k35c = 3" | "format_size k3rc = 3"
| "format_size k51l = 5"

lemma format_size_pos [simp]: "0 < format_size f" "format_size f \<noteq> 0"
  by (cases f; simp)+

lemma kInstructionSizeInCodeUnits_format:
  "op \<noteq> NOP \<Longrightarrow> kInstructionSizeInCodeUnits op = int (format_size (FormatOf op))"
  by (cases "FormatOf op")
    (simp_all add: kInstructionSizeInCodeUnits_def FormatOf_def format_pos_def all_formats_def)

lemma kInstructionSizeInCodeUnits_NOP: "kInstructionSizeInCodeUnits NOP = -1"
  by (simp add: kInstructionSizeInCodeUnits_def)

lemma FormatOf_NOP [simp]: "FormatOf NOP = k10x"
  by code_simp

lemma SizeInCodeUnits_format:
  assumes "Opcode insns i = Some op" and "op \<noteq> NOP"
  shows "SizeInCodeUnits insns i = Some (format_size (FormatOf op))"
  using assms by (simp add: SizeInCodeUnits_def kInstructionSizeInCodeUnits_format)


section \<open>Sizes\<close>

lemma Fetch16_Some_iff: "(\<exists>w. Fetch16 insns i k = Some w) \<longleftrightarrow> i + k < length insns"
  by (simp add: Fetch16_def)

lemma Fetch16_inside [simp]: "i + k < length insns \<Longrightarrow> Fetch16 insns i k = Some (insns ! (i + k))"
  by (simp add: Fetch16_def)

lemma Opcode_inside: "i < length insns \<Longrightarrow> Opcode insns i = Some (Opcode_of (insns ! i))"
  by (simp add: Opcode_def)

lemma Opcode_of_zero_iff: "Opcode_of w = NOP \<longleftrightarrow> w AND 0xFF = 0"
proof -
  have "ucast (w AND 0xFF) = (0 :: u8) \<longleftrightarrow> w AND 0xFF = (0 :: u16)"
  proof
    assume a: "ucast (w AND 0xFF) = (0 :: u8)"
    show "w AND 0xFF = (0 :: u16)"
    proof (rule bit_word_eqI)
      fix n assume "n < LENGTH(16)"
      have "bit (ucast (w AND 0xFF) :: u8) n = False" using a by simp
      moreover have "bit (0xFF :: u16) n \<longleftrightarrow> n < 8"
        using bit_mask_iff [of 8 n, where ?'a = u16] by (auto simp: mask_eq_exp_minus_1)
      ultimately show "bit (w AND 0xFF) n = bit (0 :: u16) n"
        by (auto simp: bit_simps)
    qed
  qed simp
  then show ?thesis by (simp add: Opcode_of_def)
qed

lemma SizeInCodeUnits_pos:
  assumes "SizeInCodeUnits insns i = Some n"
  shows "0 < n"
proof -
  from assms obtain op where op: "Opcode insns i = Some op"
    by (auto simp: SizeInCodeUnits_def bind_eq_Some_conv)
  show ?thesis
  proof (cases "op = NOP")
    case False
    with assms SizeInCodeUnits_format [OF op] show ?thesis by auto
  next
    case True
    have pos: "0 < unat (4 + x div (2 :: u32))" for x :: u32
    proof -
      have "unat (x div 2) \<le> 2147483647"
        using unat_u32_less [of x] by (simp add: unat_div_distrib)
      then have "unat (4 + x div 2) = 4 + unat (x div 2)"
        by (subst unat_add_lem [THEN iffD1]) auto
      then show ?thesis by simp
    qed
    from assms op True have "SizeInCodeUnitsComplexOpcode insns i = Some n"
      by (simp add: SizeInCodeUnits_def kInstructionSizeInCodeUnits_NOP)
    then show ?thesis
      by (auto simp: SizeInCodeUnitsComplexOpcode_def bind_eq_Some_conv pos split: if_splits)
  qed
qed


lemma Opcode_of_eq: "Fetch16 insns i 0 = Some w \<Longrightarrow> Opcode insns i = Some (Opcode_of w)"
  by (simp add: Opcode_def)

lemma format_size_le_SizeInCodeUnits:
  assumes "SizeInCodeUnits insns i = Some n" and "Opcode insns i = Some op"
  shows "format_size (FormatOf op) \<le> n"
proof (cases "op = NOP")
  case True
  with SizeInCodeUnits_pos [OF assms(1)] show ?thesis by simp
next
  case False
  with assms SizeInCodeUnits_format show ?thesis by simp
qed

lemma RelativeAt_forward:
  assumes "n < 2147483648"
  shows "RelativeAt i (word_of_nat n) = Some (i + n)"
proof -
  have "sint (word_of_nat n :: u32) = int n"
    using assms by (simp add: signed_of_nat signed_take_bit_int_eq_self)
  then show ?thesis by (simp add: RelativeAt_def nat_add_distrib)
qed

lemmas operand_accessor_defs =
  Fetch32_def VRegA_20t_def VRegA_30t_def VRegA_32x_def VRegB_21c_def VRegB_21h_def VRegB_21s_def
  VRegB_21t_def VRegB_22b_def VRegB_22x_def VRegB_23x_def VRegB_31c_def VRegB_31i_def VRegB_31t_def
  VRegB_32x_def VRegB_35c_def VRegB_3rc_def VRegB_51l_def VRegC_22b_def VRegC_22c_def VRegC_22s_def
  VRegC_22t_def VRegC_23x_def VRegC_35c_def VRegC_3rc_def

text \<open>
  Claim C32. Decoding stays inside the instruction: when the size reported by \<open>SizeInCodeUnits\<close> fits in
  the code array, the size is at least one, \<open>Next\<close> steps over exactly those code units (for a size
  representable in \<open>int32_t\<close>), and every operand accessor that the format has (\<open>HasVRegA\<close>,
  \<open>HasVRegB\<close>, \<open>HasVRegC\<close>, the wide literal, the argument list) succeeds without leaving the array,
  while the accessors the format does not have abort.
\<close>

theorem operands_within_instruction:
  assumes "SizeInCodeUnits insns i = Some n" and "i + n \<le> length insns"
    and "Opcode insns i = Some op"
  shows "0 < n
    \<and> (n < 2147483648 \<longrightarrow> Next insns i = Some (i + n))
    \<and> VRegA insns i \<noteq> None
    \<and> ((VRegB insns i \<noteq> None) \<longleftrightarrow> HasVRegB (FormatOf op))
    \<and> ((VRegC insns i \<noteq> None) \<longleftrightarrow> HasVRegC (FormatOf op))
    \<and> (FormatOf op = k51l \<longrightarrow> WideVRegB insns i \<noteq> None)
    \<and> (FormatOf op = k35c \<longrightarrow> GetVarArgs insns i (insns ! i) arg \<noteq> None)"
proof (intro conjI impI)
  show pos: "0 < n" by (rule SizeInCodeUnits_pos [OF assms(1)])
  with assms(2) have i: "i < length insns" by simp
  with assms(3) have op: "op = Opcode_of (insns ! i)" by (simp add: Opcode_inside)
  have sz: "i + format_size (FormatOf op) \<le> length insns"
    using format_size_le_SizeInCodeUnits [OF assms(1,3)] assms(2) by simp
  show "Next insns i = Some (i + n)" if "n < 2147483648"
    using assms(1) RelativeAt_forward [OF that] by (simp add: Next_def)
  show "VRegA insns i \<noteq> None"
    using i sz by (cases "FormatOf op") (simp_all add: VRegA_def operand_accessor_defs flip: op)
  show "(VRegB insns i \<noteq> None) \<longleftrightarrow> HasVRegB (FormatOf op)"
    using i sz
    by (cases "FormatOf op") (simp_all add: VRegB_def HasVRegB_def operand_accessor_defs flip: op)
  show "(VRegC insns i \<noteq> None) \<longleftrightarrow> HasVRegC (FormatOf op)"
    using i sz
    by (cases "FormatOf op") (simp_all add: VRegC_def HasVRegC_def operand_accessor_defs flip: op)
  show "WideVRegB insns i \<noteq> None" if "FormatOf op = k51l"
    using that sz by (simp add: WideVRegB_def operand_accessor_defs)
  show "GetVarArgs insns i (insns ! i) arg \<noteq> None" if "FormatOf op = k35c"
    using that sz by (simp add: GetVarArgs_def Let_def)
qed

theorem operands_within_instruction_witness:
  "0 < (3 :: nat) \<and> VRegA [0x6f, 7, 0x21, 0x0e] 0 \<noteq> None \<and> Next [0x6f, 7, 0x21, 0x0e] 0 = Some 3"
proof -
  have "SizeInCodeUnits [0x6f, 7, 0x21, 0x0e] 0 = Some 3" "Opcode [0x6f, 7, 0x21, 0x0e] 0 = Some 0x6f"
    by code_simp+
  from operands_within_instruction [OF this(1) _ this(2)] show ?thesis by simp
qed


section \<open>In-place edits\<close>

lemma SetOpcode_word:
  fixes w :: u16 and op :: u8
  shows "Opcode_of ((w AND 0xff00) OR ucast op) = op"
    and "InstA ((w AND 0xff00) OR ucast op) = InstA w"
    and "InstB ((w AND 0xff00) OR ucast op) = InstB w"
    and "InstAA ((w AND 0xff00) OR ucast op) = InstAA w"
proof -
  have m1: "bit (0xff00 :: u16) n \<longleftrightarrow> 8 \<le> n \<and> n < 16" for n
  proof -
    have eq: "(0xff00 :: u16) = push_bit 8 (mask 8)" by code_simp
    show ?thesis unfolding eq by (auto simp: bit_simps)
  qed
  have m2: "bit (0xff :: u16) n \<longleftrightarrow> n < 8" for n
    using bit_mask_iff [of 8 n, where ?'a = u16] by (auto simp: mask_eq_exp_minus_1)
  have m3: "bit (0x0f :: u16) n \<longleftrightarrow> n < 4" for n
    using bit_mask_iff [of 4 n, where ?'a = u16] by (auto simp: mask_eq_exp_minus_1)
  show "Opcode_of ((w AND 0xff00) OR ucast op) = op"
    by (rule bit_word_eqI) (auto simp: Opcode_of_def bit_simps m1 m2 simp del: bit_numeral_word_iff)
  show "InstA ((w AND 0xff00) OR ucast op) = InstA w"
    by (rule bit_word_eqI) (auto simp: InstA_def bit_simps m1 m2 m3 dest: bit_imp_le_length simp del: bit_numeral_word_iff)
  show "InstB ((w AND 0xff00) OR ucast op) = InstB w"
    by (rule bit_word_eqI) (auto simp: InstB_def bit_simps m1 m2 m3 dest: bit_imp_le_length simp del: bit_numeral_word_iff)
  show "InstAA ((w AND 0xff00) OR ucast op) = InstAA w"
    by (rule bit_word_eqI) (auto simp: InstAA_def bit_simps m1 m2 m3 dest: bit_imp_le_length simp del: bit_numeral_word_iff)
qed

lemmas operand_word_defs =
  VRegA_10t_def VRegA_10x_def VRegA_11n_def VRegA_11x_def VRegA_12x_def VRegA_21c_def VRegA_21h_def
  VRegA_21s_def VRegA_21t_def VRegA_22b_def VRegA_22c_def VRegA_22s_def VRegA_22t_def VRegA_22x_def
  VRegA_23x_def VRegA_31c_def VRegA_31i_def VRegA_31t_def VRegA_35c_def VRegA_3rc_def VRegA_51l_def
  VRegB_11n_def VRegB_12x_def VRegB_22c_def VRegB_22s_def VRegB_22t_def

lemma SetOpcode_Some_iff:
  "SetOpcode insns i op = Some insns' \<longleftrightarrow>
     i < length insns \<and> insns' = insns[i := (insns ! i AND 0xff00) OR ucast op]"
  by (auto simp: SetOpcode_def Fetch16_def)

lemma Fetch16_list_update_other [simp]:
  "Fetch16 (insns[j := w]) i k = (if i + k = j \<and> j < length insns then Some w else Fetch16 insns i k)"
  by (auto simp: Fetch16_def)

text \<open>
  Quickening keeps the operands: replacing the opcode of an instruction in place
  (\<open>SetOpcode\<close>) by one of the same format installs the new opcode, changes no other code unit, and
  leaves the size and every decoded operand (vA, vB, vC, the wide literal, the argument list) as they
  were.
\<close>

lemma set_opcode_keeps_operands:
  assumes "SetOpcode insns i op' = Some insns'" and "Opcode insns i = Some op"
    and "FormatOf op' = FormatOf op" and "op \<noteq> NOP" and "op' \<noteq> NOP"
  shows "Opcode insns' i = Some op' \<and> length insns' = length insns
    \<and> (\<forall>j. j \<noteq> i \<longrightarrow> insns' ! j = insns ! j)
    \<and> SizeInCodeUnits insns' i = SizeInCodeUnits insns i
    \<and> VRegA insns' i = VRegA insns i \<and> VRegB insns' i = VRegB insns i
    \<and> VRegC insns' i = VRegC insns i \<and> WideVRegB insns' i = WideVRegB insns i
    \<and> GetVarArgs insns' i (insns' ! i) arg = GetVarArgs insns i (insns ! i) arg"
proof -
  let ?w = "insns ! i" and ?w' = "(insns ! i AND 0xff00) OR ucast op'"
  from assms(1) have i: "i < length insns" and insns': "insns' = insns[i := ?w']"
    by (simp_all add: SetOpcode_Some_iff)
  from assms(2) i have op: "Opcode_of ?w = op" by (simp add: Opcode_inside)
  have op': "Opcode insns' i = Some op'"
    using i by (simp add: insns' Opcode_inside SetOpcode_word)
  have size: "SizeInCodeUnits insns' i = SizeInCodeUnits insns i"
    using SizeInCodeUnits_format [OF op' assms(5)] SizeInCodeUnits_format [OF assms(2,4)] assms(3)
    by simp
  have "VRegA insns' i = VRegA insns i" "VRegB insns' i = VRegB insns i"
    "VRegC insns' i = VRegC insns i"
    using i assms(3)
    by (cases "FormatOf op"; simp add: VRegA_def VRegB_def VRegC_def insns' op SetOpcode_word
        operand_word_defs operand_accessor_defs)+
  moreover have "WideVRegB insns' i = WideVRegB insns i"
    using i by (simp add: WideVRegB_def operand_accessor_defs insns')
  moreover have "GetVarArgs insns' i (insns' ! i) arg = GetVarArgs insns i ?w arg"
    using i by (simp add: GetVarArgs_def insns' SetOpcode_word)
  ultimately show ?thesis using op' size by (simp add: insns')
qed

lemma sample_quickened:
  "Opcode [0x10e3, 5] 0 = Some IGET_QUICK \<and> VRegC [0x10e3, 5] 0 = VRegC [0x1052, 5] 0"
proof -
  have "SetOpcode [0x1052, 5] 0 IGET_QUICK = Some [0x10e3, 5]" "Opcode [0x1052, 5] 0 = Some IGET"
    "FormatOf IGET_QUICK = FormatOf IGET"
    by code_simp+
  from set_opcode_keeps_operands [OF this] show ?thesis by simp
qed


section \<open>Argument lists, payloads, branches\<close>

text \<open>The 35c layout of the Dalvik format table: the argument count in the top four bits of the first
  unit, the fifth register below it, the others in the third unit from the low bits up.\<close>

definition arg_nibble :: "nat list \<Rightarrow> nat \<Rightarrow> nat" where
  "arg_nibble args k = (if k < length args then args ! k else 0)"

definition encode_35c :: "u8 \<Rightarrow> u16 \<Rightarrow> nat list \<Rightarrow> insns" where
  "encode_35c op idx args =
     [word_of_nat (unat op + 256 * arg_nibble args 4 + 4096 * length args), idx,
      word_of_nat (arg_nibble args 0 + 16 * arg_nibble args 1 + 256 * arg_nibble args 2
        + 4096 * arg_nibble args 3)]"

lemma unat_and_mask_drop:
  fixes w :: u16
  shows "unat (drop_bit k w AND 0x0f) = (unat w div 2 ^ k) mod 16"
    and "unat (w AND 0x0f) = unat w mod 16"
proof -
  have m: "(0x0f :: u16) = mask 4" by (simp add: mask_eq_exp_minus_1)
  have "unat (w AND mask 4) = unat w mod 16" for w :: u16
    by (simp add: take_bit_eq_mask [symmetric] unsigned_take_bit_eq take_bit_eq_mod unat_mod_distrib)
  note and_mask = this
  have "unat (drop_bit k w) = unat w div 2 ^ k"
    by (simp only: unat_drop_bit_eq) (simp only: drop_bit_eq_div)
  then show "unat (drop_bit k w AND 0x0f) = (unat w div 2 ^ k) mod 16"
    using and_mask [of "drop_bit k w"] by (simp only: m)
  show "unat (w AND 0x0f) = unat w mod 16"
    using and_mask [of w] by (simp only: m)
qed

lemma nibbles_sum:
  fixes a b c d :: nat
  assumes "a < 16" "b < 16" "c < 16" "d < 16"
  shows "a + 16 * b + 256 * c + 4096 * d < 65536"
    and "(a + 16 * b + 256 * c + 4096 * d) mod 16 = a"
    and "((a + 16 * b + 256 * c + 4096 * d) div 16) mod 16 = b"
    and "((a + 16 * b + 256 * c + 4096 * d) div 256) mod 16 = c"
    and "((a + 16 * b + 256 * c + 4096 * d) div 4096) mod 16 = d"
proof -
  let ?n = "a + 16 * b + 256 * c + 4096 * d"
  have n: "?n = a + 16 * (b + 16 * (c + 16 * d))" by simp
  have div16: "(x + 16 * y) div 16 = y" "(x + 16 * y) mod 16 = x" if "x < 16" for x y :: nat
    using that by simp_all
  have d1: "?n div 16 = b + 16 * (c + 16 * d)"
    unfolding n using assms(1) by (rule div16)
  have "?n div 256 = ?n div 16 div 16" by (simp flip: div_mult2_eq)
  with d1 div16 [OF assms(2)] have d2: "?n div 256 = c + 16 * d" by simp
  have "?n div 4096 = ?n div 256 div 16" by (simp flip: div_mult2_eq)
  with d2 div16 [OF assms(3)] have d3: "?n div 4096 = d" by simp
  show "?n < 65536" using assms by simp
  show "?n mod 16 = a" unfolding n using assms(1) by (rule div16)
  show "?n div 16 mod 16 = b" unfolding d1 using assms(2) by (rule div16)
  show "?n div 256 mod 16 = c" unfolding d2 using assms(3) by (rule div16)
  show "?n div 4096 mod 16 = d" unfolding d3 using assms(4) by simp
qed

lemma arg_nibble_less: "list_all (\<lambda>x. x < 16) args \<Longrightarrow> arg_nibble args k < 16"
  by (simp add: arg_nibble_def list_all_length)

lemma ucast_eq_word_of_nat: "unat x = n \<Longrightarrow> ucast (x :: 'a::len word) = (word_of_nat n :: 'b::len word)"
  by auto

lemma nibbles_word:
  fixes w :: u16
  assumes w: "w = word_of_nat (a + 16 * b + 256 * c + 4096 * d)"
    and lt: "a < 16" "b < 16" "c < 16" "d < 16"
  shows "ucast (w AND 0x0f) = (word_of_nat a :: 'a::len word)"
    and "ucast (drop_bit 4 w AND 0x0f) = (word_of_nat b :: 'a word)"
    and "ucast (drop_bit 8 w AND 0x0f) = (word_of_nat c :: 'a word)"
    and "ucast (drop_bit 12 w AND 0x0f) = (word_of_nat d :: 'a word)"
    and "ucast (drop_bit 12 w) = (word_of_nat d :: 'a word)"
    and "ucast (w AND 0xff) = (word_of_nat (a + 16 * b) :: 'a word)"
proof -
  let ?n = "a + 16 * b + 256 * c + 4096 * d"
  note n = nibbles_sum [OF lt]
  have u: "unat w = ?n" unfolding w using n(1) by (rule unat_word_of_nat_u16)
  note and_mask = unat_and_mask_drop [where w = w, unfolded u]
  show "ucast (w AND 0x0f) = (word_of_nat a :: 'a word)"
    by (rule ucast_eq_word_of_nat) (simp only: and_mask n)
  show "ucast (drop_bit 4 w AND 0x0f) = (word_of_nat b :: 'a word)"
    by (rule ucast_eq_word_of_nat, simp only: and_mask) (use n in simp)
  show "ucast (drop_bit 8 w AND 0x0f) = (word_of_nat c :: 'a word)"
    by (rule ucast_eq_word_of_nat, simp only: and_mask) (use n in simp)
  show d: "ucast (drop_bit 12 w AND 0x0f) = (word_of_nat d :: 'a word)"
    by (rule ucast_eq_word_of_nat, simp only: and_mask) (use n in simp)
  have "drop_bit 12 w AND 0x0f = drop_bit 12 w"
  proof (rule bit_word_eqI)
    fix k assume "k < LENGTH(16)"
    have "bit (0x0f :: u16) k \<longleftrightarrow> k < 4"
      using bit_mask_iff [of 4 k, where ?'a = u16] by (auto simp: mask_eq_exp_minus_1)
    then show "bit (drop_bit 12 w AND 0x0f) k = bit (drop_bit 12 w) k"
      by (auto simp: bit_simps dest: bit_imp_le_length simp del: bit_numeral_word_iff)
  qed
  with d show "ucast (drop_bit 12 w) = (word_of_nat d :: 'a word)" by simp
  have "w AND 0xff = take_bit 8 w" by (simp add: take_bit_eq_mask mask_eq_exp_minus_1)
  then have "unat (w AND 0xff) = take_bit 8 (unat w)" by (simp only: unsigned_take_bit_eq)
  also have "\<dots> = ?n mod 256" by (simp add: take_bit_eq_mod u)
  also have "?n mod 256 = a + 16 * b"
  proof -
    have n: "?n = (a + 16 * b) + 256 * (c + 16 * d)" by simp
    show ?thesis unfolding n mod_mult_self2 using lt by (intro mod_less) simp
  qed
  finally show "ucast (w AND 0xff) = (word_of_nat (a + 16 * b) :: 'a word)"
    by (rule ucast_eq_word_of_nat)
qed

lemma length_5_cases: "length xs = 5 \<Longrightarrow> \<exists>a b c d e. xs = [a, b, c, d, e]"
  by (auto simp: length_Suc_conv numeral_eq_Suc)

lemma list_le_5_cases:
  assumes "length xs \<le> 5"
  shows "xs = [] \<or> (\<exists>a. xs = [a]) \<or> (\<exists>a b. xs = [a, b]) \<or> (\<exists>a b c. xs = [a, b, c])
     \<or> (\<exists>a b c d. xs = [a, b, c, d]) \<or> (\<exists>a b c d e. xs = [a, b, c, d, e])"
proof -
  from assms have "length xs = 0 \<or> length xs = 1 \<or> length xs = 2 \<or> length xs = 3
      \<or> length xs = 4 \<or> length xs = 5"
    by linarith
  then show ?thesis by (auto simp: length_Suc_conv numeral_eq_Suc)
qed

text \<open>
  Claim C35. The argument registers of an invoke round-trip: for an instruction laid out as the 35c
  format prescribes, anywhere in the code, \<open>GetVarArgs\<close> returns exactly the listed registers in
  order and leaves the rest of the caller's array alone, the count is read from vA, the method index
  from vB, and vC is the first argument.
\<close>

theorem get_var_args_roundtrip:
  assumes "length args \<le> 5" and "list_all (\<lambda>x. x < 16) args" and "length arg = kMaxVarArgRegs"
    and "insns = pre @ encode_35c op idx args @ post" and "i = length pre"
  shows "GetVarArgs insns i (insns ! i) arg = Some (map word_of_nat args @ drop (length args) arg)
    \<and> Opcode insns i = Some op \<and> VRegA_35c (insns ! i) = word_of_nat (length args)
    \<and> VRegB_35c insns i = Some idx
    \<and> VRegC_35c insns i = Some (word_of_nat (arg_nibble args 0))"
proof -
  let ?w = "insns ! i"
  obtain r where F: "Fetch16 insns i 2 = Some r" "Fetch16 insns i 1 = Some idx" and i: "i < length insns"
    and w: "?w = word_of_nat (unat op + 256 * arg_nibble args 4 + 4096 * length args)"
    and r: "r = word_of_nat (arg_nibble args 0 + 16 * arg_nibble args 1 + 256 * arg_nibble args 2
        + 4096 * arg_nibble args 3)"
    using assms(4,5) by (simp add: encode_35c_def nth_append)
  note nib = arg_nibble_less [OF assms(2)]
  note rn = nibbles_word [OF r nib nib nib nib]
  have op2: "unat op mod 16 < 16" "unat op div 16 < 16" "length args < 16"
    using unat_u8_less [of op] assms(1) by simp_all
  have w': "?w = word_of_nat (unat op mod 16 + 16 * (unat op div 16) + 256 * arg_nibble args 4
      + 4096 * length args)"
    using w by (simp only: mod_mult_div_eq)
  note wn = nibbles_word [OF w' op2(1,2) nib op2(3)]
  have iA: "ucast (InstA ?w) = (word_of_nat (arg_nibble args 4) :: u32)"
    unfolding InstA_def wn using nib [of 4] by (auto intro!: ucast_eq_word_of_nat simp: unat_of_nat)
  have iB: "InstB ?w = word_of_nat (length args)" unfolding InstB_def wn by (rule refl)
  have iO: "Opcode_of ?w = op" unfolding Opcode_of_def wn by simp
  from i have vr: "Opcode insns i = Some op" "VRegB_35c insns i = Some idx"
    "VRegC_35c insns i = Some (word_of_nat (arg_nibble args 0))"
    by (simp_all add: Opcode_inside iO VRegB_35c_def VRegC_35c_def rn F F(2) [simplified])
  obtain r0 r1 r2 r3 r4 where arg: "arg = [r0, r1, r2, r3, r4]"
    using length_5_cases [OF assms(3)] by blast
  have "GetVarArgs insns i ?w arg = Some (map word_of_nat args @ drop (length args) arg)"
    using list_le_5_cases [OF assms(1)]
    by (elim disjE exE) (simp_all add: GetVarArgs_def Let_def F iA iB rn arg arg_nibble_def)
  with vr show ?thesis by (simp add: VRegA_35c_def iB)
qed

theorem get_var_args_roundtrip_witness:
  "GetVarArgs [0, 0x306e, 7, 0x0210] 1 0x306e [9, 9, 9, 9, 9] = Some [0, 1, 2, 9, 9]"
proof -
  have "[0, 0x306e, 7, 0x0210] = [0] @ encode_35c 0x6e 7 [0, 1, 2] @ []" by code_simp
  from get_var_args_roundtrip [OF _ _ _ this, of "[9, 9, 9, 9, 9]" 1] show ?thesis by simp
qed


text \<open>The size of an array-data payload in code units, as the format defines it: four units of header
  and the data bytes, padded to a whole unit.\<close>

definition array_payload_units :: "nat \<Rightarrow> nat \<Rightarrow> nat" where
  "array_payload_units element_size count = 4 + (element_size * count + 1) div 2"

lemma array_payload_size_eq:
  assumes "Fetch16 insns i 0 = Some kArrayDataSignature" "Fetch16 insns i 1 = Some es"
    "Fetch32 insns i 2 = Some count"
  shows "SizeInCodeUnits insns i = Some (unat (4 + (ucast es * count + 1) div (2 :: u32)))"
proof -
  from assms(3) obtain lo hi where "Fetch16 insns i 2 = Some lo" "Fetch16 insns i 3 = Some hi"
    "count = ucast lo OR push_bit 16 (ucast hi)"
    by (auto simp: Fetch32_def bind_eq_Some_conv)
  moreover have "Opcode_of kArrayDataSignature = NOP" by code_simp
  ultimately show ?thesis
    using assms(1,2)
    by (simp add: SizeInCodeUnits_def SizeInCodeUnitsComplexOpcode_def Opcode_def
        kInstructionSizeInCodeUnits_NOP)
qed

text \<open>
  Claim C33. \<open>SizeInCodeUnits\<close> of an array-data payload is the size the format defines exactly as
  long as \<open>element_size * length + 1\<close> does not exceed the range of \<open>uint32_t\<close>; beyond it the product
  wraps around and the reported size is that of the wrapped product.
\<close>

theorem array_payload_size:
  assumes "Fetch16 insns i 0 = Some kArrayDataSignature" "Fetch16 insns i 1 = Some es"
    "Fetch32 insns i 2 = Some count"
  shows "(SizeInCodeUnits insns i = Some (array_payload_units (unat es) (unat count)))
    \<longleftrightarrow> unat es * unat count + 1 < 2 ^ 32"
proof -
  let ?x = "ucast es * count + 1 :: u32" and ?m = "unat es * unat count + 1"
  have x: "unat ?x = ?m mod 2 ^ 32"
    by (simp add: unat_word_ariths mod_Suc_eq)
  have "unat (4 + ?x div 2) = 4 + unat ?x div 2"
  proof -
    have "unat (?x div 2) \<le> 2147483647"
      using unat_u32_less [of ?x] by (simp add: unat_div_distrib)
    then have "unat (4 + ?x div 2) = 4 + unat (?x div 2)"
      by (subst unat_add_lem [THEN iffD1]) auto
    then show ?thesis by (simp add: unat_div_distrib)
  qed
  then have size: "SizeInCodeUnits insns i = Some (4 + (?m mod 2 ^ 32) div 2)"
    using array_payload_size_eq [OF assms] by (simp only: x)
  show ?thesis
  proof
    assume "?m < 2 ^ 32"
    then show "SizeInCodeUnits insns i = Some (array_payload_units (unat es) (unat count))"
      unfolding size by (simp add: array_payload_units_def)
  next
    assume "SizeInCodeUnits insns i = Some (array_payload_units (unat es) (unat count))"
    then have "?m div 2 = (?m mod 2 ^ 32) div 2"
      unfolding size by (simp add: array_payload_units_def)
    also have "\<dots> < 2147483648" by (simp add: div_less_iff_less_mult)
    finally show "?m < 2 ^ 32" by (simp add: div_less_iff_less_mult)
  qed
qed

theorem array_payload_size_witness:
  "SizeInCodeUnits [0x0300, 4, 0, 0x4000] 0 = Some 4 \<and> array_payload_units 4 (2 ^ 30) \<noteq> 4
   \<and> SizeInCodeUnits [0x0300, 4, 2, 0, 1, 2, 3, 4] 0 = Some 8"
proof -
  have "Fetch16 [0x0300, 4, 0, 0x4000] 0 0 = Some 0x0300" "Fetch16 [0x0300, 4, 0, 0x4000] 0 1 = Some 4"
    "Fetch32 [0x0300, 4, 0, 0x4000] 0 2 = Some 0x40000000"
    "SizeInCodeUnits [0x0300, 4, 0, 0x4000] 0 = Some 4"
    by code_simp+
  with array_payload_size [OF this(1-3)]
  have wrapped: "SizeInCodeUnits [0x0300, 4, 0, 0x4000] 0 = Some 4 \<and> array_payload_units 4 (2 ^ 30) \<noteq> 4"
    by auto
  have "Fetch16 [0x0300, 4, 2, 0, 1, 2, 3, 4] 0 0 = Some 0x0300"
    "Fetch16 [0x0300, 4, 2, 0, 1, 2, 3, 4] 0 1 = Some 4"
    "Fetch32 [0x0300, 4, 2, 0, 1, 2, 3, 4] 0 2 = Some 2"
    by code_simp+
  from array_payload_size [OF this] wrapped show ?thesis by (simp add: array_payload_units_def)
qed

definition row_consistent :: "u8 \<Rightarrow> Format \<Rightarrow> u32 \<Rightarrow> u32 \<Rightarrow> bool" where
  "row_consistent op format flags vflags \<longleftrightarrow>
     (flags AND kBranch \<noteq> 0 \<longrightarrow> format \<in> {k10t, k20t, k30t, k21t, k22t})
   \<and> ((flags AND kUnconditional \<noteq> 0) \<longleftrightarrow> flags AND kBranch \<noteq> 0 \<and> flags AND kContinue = 0)
   \<and> (flags AND kReturn \<noteq> 0 \<longrightarrow> flags AND kContinue = 0 \<and> flags AND kBranch = 0)
   \<and> (flags AND kSwitch \<noteq> 0 \<longrightarrow> format = k31t \<and> flags AND kContinue \<noteq> 0)
   \<and> (flags AND kInvoke \<noteq> 0 \<longrightarrow> format \<in> {k35c, k3rc})
   \<and> (vflags AND 0x1FC \<noteq> 0 \<longrightarrow> HasVRegB format)
   \<and> (vflags AND 0x3E00 \<noteq> 0 \<longrightarrow> HasVRegC format)
   \<and> (vflags AND kVerifyVarArg \<noteq> 0 \<or> vflags AND kVerifyVarArgNonZero \<noteq> 0 \<longrightarrow> format = k35c)
   \<and> (vflags AND kVerifyVarArgRange \<noteq> 0 \<or> vflags AND kVerifyVarArgRangeNonZero \<noteq> 0 \<longrightarrow> format = k3rc)
   \<and> (vflags AND kVerifyBranchTarget \<noteq> 0 \<longleftrightarrow> flags AND kBranch \<noteq> 0)
   \<and> (vflags AND kVerifySwitchTargets \<noteq> 0 \<longleftrightarrow> flags AND kSwitch \<noteq> 0)"

lemma insn_table_consistent:
  "list_all (\<lambda>(op, name, format, flags, vflags). row_consistent op format flags vflags) insn_table"
  unfolding insn_table_def insn_table_lo_def insn_table_hi_def
  by (simp add: row_consistent_def HasVRegB_def HasVRegC_def)

lemmas opcode_consistent = insn_table_all [OF insn_table_consistent]

text \<open>
  The opcode table agrees with the decoder: every opcode flagged as a branch has a format
  with a target operand and has its target verified, an opcode is unconditional exactly when it is a
  branch that does not continue, no return continues or branches, every switch has the payload offset
  of format 31t and has its targets verified, every invoke has an argument list (35c or the range
  3rc), and verifier flags for vB, vC and the argument lists occur only where the format has them.
\<close>

theorem opcode_table_consistent:
  "(IsBranch op \<longrightarrow> FormatOf op \<in> {k10t, k20t, k30t, k21t, k22t})
   \<and> (IsUnconditional op \<longleftrightarrow> IsBranch op \<and> \<not> CanFlowThrough op)
   \<and> (IsReturn op \<longrightarrow> \<not> CanFlowThrough op \<and> \<not> IsBranch op)
   \<and> (IsSwitch op \<longrightarrow> FormatOf op = k31t \<and> CanFlowThrough op)
   \<and> (IsInvoke op \<longrightarrow> FormatOf op \<in> {k35c, k3rc})
   \<and> (GetVerifyTypeArgumentB op \<noteq> 0 \<longrightarrow> HasVRegB (FormatOf op))
   \<and> (GetVerifyTypeArgumentC op \<noteq> 0 \<longrightarrow> HasVRegC (FormatOf op))
   \<and> (GetVerifyExtraFlags op AND kVerifyBranchTarget \<noteq> 0 \<longleftrightarrow> IsBranch op)
   \<and> (GetVerifyExtraFlags op AND kVerifySwitchTargets \<noteq> 0 \<longleftrightarrow> IsSwitch op)"
  using opcode_consistent [of op]
  by (simp add: row_consistent_def IsBranch_def IsUnconditional_def IsReturn_def IsSwitch_def
      IsInvoke_def CanFlowThrough_def GetVerifyTypeArgumentB_def GetVerifyTypeArgumentC_def
      GetVerifyExtraFlags_def FlagsOf_def VerifyFlagsOf_def and.assoc)

theorem opcode_table_consistent_witness:
  "IsUnconditional GOTO_16 \<and> \<not> CanFlowThrough GOTO_16 \<and> FormatOf INVOKE_STATIC_RANGE \<in> {k35c, k3rc}"
proof -
  have "IsUnconditional GOTO_16" "IsInvoke INVOKE_STATIC_RANGE" by code_simp+
  with opcode_table_consistent [of GOTO_16] opcode_table_consistent [of INVOKE_STATIC_RANGE]
  show ?thesis by blast
qed

end
