(* ===== verification/Leb128.thy ===== *)
theory Leb128
  imports Prelude
begin

text \<open>
  LEB128 variable-length integers: \<open>art/runtime/leb128.h\<close> (decoders, encoders, sizes, in-place update)
  and \<open>art/runtime/gerat/util/leb128.cc\<close> (the unpacker's own copy of the unsigned encoder).
  The encoders exist twice in the source, once over a raw pointer and once over a vector; both loops
  are modelled and shown to write the same bytes. Signed values are kept as their two's complement
  bit pattern.
\<close>

section \<open>Encoders\<close>

text \<open>\<open>EncodeUnsignedLeb128(std::vector<uint8_t>*, uint32_t)\<close>: the loop pushes bytes on \<open>dest\<close>.\<close>

function EncodeUnsignedLeb128_vec_loop :: "u8 list \<Rightarrow> u8 \<Rightarrow> u32 \<Rightarrow> u8 list" where
  "EncodeUnsignedLeb128_vec_loop dest out value =
     (if value \<noteq> 0
      then EncodeUnsignedLeb128_vec_loop (dest @ [out OR 0x80]) (ucast (value AND 0x7f)) (drop_bit 7 value)
      else dest @ [out])"
  by pat_completeness auto
termination
  by (relation "measure (\<lambda>(dest, out, value). unat value)") (auto intro: word_drop_bit_less)

declare EncodeUnsignedLeb128_vec_loop.simps [simp del]

definition EncodeUnsignedLeb128_vec :: "u8 list \<Rightarrow> u32 \<Rightarrow> u8 list" where
  "EncodeUnsignedLeb128_vec dest value =
     EncodeUnsignedLeb128_vec_loop dest (ucast (value AND 0x7f)) (drop_bit 7 value)"

text \<open>\<open>EncodeUnsignedLeb128(uint8_t* dest, uint32_t)\<close>: the bytes go to a buffer, the result is the
  pointer past the last byte. A store outside the buffer is \<open>None\<close>.\<close>

function EncodeUnsignedLeb128_loop :: "buffer \<Rightarrow> ptr \<Rightarrow> u8 \<Rightarrow> u32 \<Rightarrow> (buffer \<times> ptr) option" where
  "EncodeUnsignedLeb128_loop buf dest out value =
     (if value \<noteq> 0
      then (case store8 buf dest (out OR 0x80) of
              None \<Rightarrow> None
            | Some buf' \<Rightarrow>
                EncodeUnsignedLeb128_loop buf' (dest + 1) (ucast (value AND 0x7f)) (drop_bit 7 value))
      else (case store8 buf dest out of None \<Rightarrow> None | Some buf' \<Rightarrow> Some (buf', dest + 1)))"
  by pat_completeness auto
termination
  by (relation "measure (\<lambda>(buf, dest, out, value). unat value)") (auto intro: word_drop_bit_less)

declare EncodeUnsignedLeb128_loop.simps [simp del]

definition EncodeUnsignedLeb128 :: "buffer \<Rightarrow> ptr \<Rightarrow> u32 \<Rightarrow> (buffer \<times> ptr) option" where
  "EncodeUnsignedLeb128 buf dest value =
     EncodeUnsignedLeb128_loop buf dest (ucast (value AND 0x7f)) (drop_bit 7 value)"

text \<open>The unpacker's copy, \<open>gerat::EncodeUnsignedLeb128\<close>, has the same body.\<close>

definition gerat_EncodeUnsignedLeb128 :: "buffer \<Rightarrow> ptr \<Rightarrow> u32 \<Rightarrow> (buffer \<times> ptr) option" where
  "gerat_EncodeUnsignedLeb128 buf dest value =
     EncodeUnsignedLeb128_loop buf dest (ucast (value AND 0x7f)) (drop_bit 7 value)"

text \<open>\<open>EncodeSignedLeb128\<close>: \<open>value >>= 7\<close> is an arithmetic shift, the loop runs on \<open>extra_bits\<close>.\<close>

function EncodeSignedLeb128_vec_loop :: "u8 list \<Rightarrow> u8 \<Rightarrow> u32 \<Rightarrow> u32 \<Rightarrow> u8 list" where
  "EncodeSignedLeb128_vec_loop dest out value extra_bits =
     (if extra_bits \<noteq> 0
      then let value' = signed_drop_bit 7 value
           in EncodeSignedLeb128_vec_loop (dest @ [out OR 0x80]) (ucast (value' AND 0x7f)) value'
                (drop_bit 7 extra_bits)
      else dest @ [out])"
  by pat_completeness auto
termination
  by (relation "measure (\<lambda>(dest, out, value, extra_bits). unat extra_bits)")
     (auto intro: word_drop_bit_less)

declare EncodeSignedLeb128_vec_loop.simps [simp del]

definition EncodeSignedLeb128_vec :: "u8 list \<Rightarrow> u32 \<Rightarrow> u8 list" where
  "EncodeSignedLeb128_vec dest value =
     EncodeSignedLeb128_vec_loop dest (ucast (value AND 0x7f)) value
       (drop_bit 6 (value XOR signed_drop_bit 31 value))"

function EncodeSignedLeb128_loop :: "buffer \<Rightarrow> ptr \<Rightarrow> u8 \<Rightarrow> u32 \<Rightarrow> u32 \<Rightarrow> (buffer \<times> ptr) option" where
  "EncodeSignedLeb128_loop buf dest out value extra_bits =
     (if extra_bits \<noteq> 0
      then (case store8 buf dest (out OR 0x80) of
              None \<Rightarrow> None
            | Some buf' \<Rightarrow>
                let value' = signed_drop_bit 7 value
                in EncodeSignedLeb128_loop buf' (dest + 1) (ucast (value' AND 0x7f)) value'
                     (drop_bit 7 extra_bits))
      else (case store8 buf dest out of None \<Rightarrow> None | Some buf' \<Rightarrow> Some (buf', dest + 1)))"
  by pat_completeness auto
termination
  by (relation "measure (\<lambda>(buf, dest, out, value, extra_bits). unat extra_bits)")
     (auto intro: word_drop_bit_less)

declare EncodeSignedLeb128_loop.simps [simp del]

definition EncodeSignedLeb128 :: "buffer \<Rightarrow> ptr \<Rightarrow> u32 \<Rightarrow> (buffer \<times> ptr) option" where
  "EncodeSignedLeb128 buf dest value =
     EncodeSignedLeb128_loop buf dest (ucast (value AND 0x7f)) value
       (drop_bit 6 (value XOR signed_drop_bit 31 value))"

section \<open>Decoders\<close>

text \<open>The byte at the pointer, zero-extended to \<open>int\<close>.\<close>

definition load_int :: "buffer \<Rightarrow> ptr \<Rightarrow> u32 option" where
  "load_int buf p = map_option ucast (load8 buf p)"

definition DecodeUnsignedLeb128 :: "buffer \<Rightarrow> ptr \<Rightarrow> (u32 \<times> ptr) option" where
  "DecodeUnsignedLeb128 buf p = do {
     result \<leftarrow> load_int buf p;
     if result > 0x7f then do {
       cur \<leftarrow> load_int buf (p + 1);
       let result = (result AND 0x7f) OR push_bit 7 (cur AND 0x7f);
       if cur > 0x7f then do {
         cur \<leftarrow> load_int buf (p + 2);
         let result = result OR push_bit 14 (cur AND 0x7f);
         if cur > 0x7f then do {
           cur \<leftarrow> load_int buf (p + 3);
           let result = result OR push_bit 21 (cur AND 0x7f);
           if cur > 0x7f then do {
             cur \<leftarrow> load_int buf (p + 4);
             Some (result OR push_bit 28 cur, p + 5)
           } else Some (result, p + 4)
         } else Some (result, p + 3)
       } else Some (result, p + 2)
     } else Some (result, p + 1)
   }"

definition DecodeUnsignedLeb128P1 :: "buffer \<Rightarrow> ptr \<Rightarrow> (u32 \<times> ptr) option" where
  "DecodeUnsignedLeb128P1 buf p =
     map_option (\<lambda>(v, q). (v - 1, q)) (DecodeUnsignedLeb128 buf p)"

definition DecodeSignedLeb128 :: "buffer \<Rightarrow> ptr \<Rightarrow> (u32 \<times> ptr) option" where
  "DecodeSignedLeb128 buf p = do {
     result \<leftarrow> load_int buf p;
     if result \<le> 0x7f then Some (signed_drop_bit 25 (push_bit 25 result), p + 1)
     else do {
       cur \<leftarrow> load_int buf (p + 1);
       let result = (result AND 0x7f) OR push_bit 7 (cur AND 0x7f);
       if cur \<le> 0x7f then Some (signed_drop_bit 18 (push_bit 18 result), p + 2)
       else do {
         cur \<leftarrow> load_int buf (p + 2);
         let result = result OR push_bit 14 (cur AND 0x7f);
         if cur \<le> 0x7f then Some (signed_drop_bit 11 (push_bit 11 result), p + 3)
         else do {
           cur \<leftarrow> load_int buf (p + 3);
           let result = result OR push_bit 21 (cur AND 0x7f);
           if cur \<le> 0x7f then Some (signed_drop_bit 4 (push_bit 4 result), p + 4)
           else do {
             cur \<leftarrow> load_int buf (p + 4);
             Some (result OR push_bit 28 cur, p + 5)
           }
         }
       }
     }
   }"

section \<open>Sizes and in-place update\<close>

text \<open>\<open>CLZ\<close> on a non-zero 32-bit value (\<open>__builtin_clz\<close>).\<close>

definition CLZ :: "u32 \<Rightarrow> nat" where
  "CLZ x = length (takeWhile (\<lambda>i. \<not> bit x i) (rev [0..<32]))"

definition UnsignedLeb128Size :: "u32 \<Rightarrow> u32" where
  "UnsignedLeb128Size data =
     (let x = 6 + 32 - of_nat (CLZ (data OR 1)) :: u32 in drop_bit 8 (x * 37))"

definition SignedLeb128Size :: "u32 \<Rightarrow> u32" where
  "SignedLeb128Size data =
     (let data' = data XOR signed_drop_bit 31 data;
          x = 1 + 6 + 32 - of_nat (CLZ (data' OR 1)) :: u32
      in drop_bit 8 (x * 37))"

text \<open>\<open>UpdateUnsignedLeb128\<close> overwrites an encoded value in place; the padding loop runs while
  \<open>end < old_end\<close> and sets the continuation bit of the byte before \<open>end\<close>.\<close>

function UpdateUnsignedLeb128_pad :: "buffer \<Rightarrow> ptr \<Rightarrow> ptr \<Rightarrow> buffer option" where
  "UpdateUnsignedLeb128_pad buf endp old_end =
     (if endp < old_end
      then do {
        b \<leftarrow> load8 buf (endp - 1);
        buf1 \<leftarrow> store8 buf (endp - 1) (b OR 0x80);
        buf2 \<leftarrow> store8 buf1 endp 0;
        UpdateUnsignedLeb128_pad buf2 (endp + 1) old_end
      }
      else Some buf)"
  by pat_completeness auto
termination
  by (relation "measure (\<lambda>(buf, endp, old_end). old_end - endp)") auto

declare UpdateUnsignedLeb128_pad.simps [simp del]

definition UpdateUnsignedLeb128 :: "buffer \<Rightarrow> ptr \<Rightarrow> u32 \<Rightarrow> buffer option" where
  "UpdateUnsignedLeb128 buf dest value = do {
     (old_value, old_end) \<leftarrow> DecodeUnsignedLeb128 buf dest;
     (buf', endp) \<leftarrow> EncodeUnsignedLeb128 buf dest value;
     UpdateUnsignedLeb128_pad buf' endp old_end
   }"

section \<open>The byte sequence of a value\<close>

text \<open>The reference encoding: seven bits per byte, least significant group first, the top bit of a
  byte set when more bytes follow.\<close>

function uleb :: "u32 \<Rightarrow> u8 list" where
  "uleb v =
     (if drop_bit 7 v \<noteq> 0 then (ucast (v AND 0x7f) OR 0x80) # uleb (drop_bit 7 v)
      else [ucast (v AND 0x7f)])"
  by pat_completeness auto
termination
  by (relation "measure unat") (auto intro!: word_drop_bit_less)

declare uleb.simps [simp del]

lemma uleb_not_Nil [simp]: "uleb v \<noteq> []"
  by (subst uleb.simps) simp

lemma EncodeUnsignedLeb128_vec_eq [uleb_simps]: "EncodeUnsignedLeb128_vec dest v = dest @ uleb v"
  unfolding EncodeUnsignedLeb128_vec_def
proof (induction v arbitrary: dest rule: uleb.induct)
  case (1 v)
  show ?case
    using "1.IH"
    by (simp add: EncodeUnsignedLeb128_vec_loop.simps [of _ _ "drop_bit 7 v"] uleb.simps [of v])
qed

lemma EncodeUnsignedLeb128_eq [uleb_simps]:
  "EncodeUnsignedLeb128 buf p v =
     map_option (\<lambda>buf'. (buf', p + length (uleb v))) (memcpy buf p (uleb v))"
  unfolding EncodeUnsignedLeb128_def
proof (induction v arbitrary: buf p rule: uleb.induct)
  case (1 v)
  have store_le: "store8 b q x = Some b' \<Longrightarrow> Suc q \<le> length b'" for b b' :: buffer and q x
    by (auto simp: store8_def split: if_splits)
  show ?case
    using "1.IH"
    by (simp add: EncodeUnsignedLeb128_loop.simps [of _ _ _ "drop_bit 7 v"] uleb.simps [of v]
        memcpy_Cons store_le split: option.split)
qed

lemma word_cont_byte:
  fixes w :: u32
  shows "ucast (ucast (take_bit 7 w) OR 0x80 :: u8) = take_bit 7 w OR (0x80 :: u32)"
    and "ucast (ucast (take_bit 7 w) :: u8) = take_bit 7 w"
    and "take_bit 7 (take_bit 7 w OR 0x80) = take_bit 7 w"
    and "take_bit 7 w OR 0x80 > 0x7f"
    and "take_bit 7 w \<le> 0x7f"
proof -
  have e: "bit (0x80 :: u8) n \<longleftrightarrow> n = 7" "bit (0x80 :: u32) n \<longleftrightarrow> n = 7" for n
    using bit_exp_iff [of 7 n, where 'a = u8] bit_exp_iff [of 7 n, where 'a = u32] by auto
  show low: "ucast (ucast (take_bit 7 w) :: u8) = take_bit 7 w"
    by (rule bit_word_eqI) (auto simp: bit_simps)
  show "ucast (ucast (take_bit 7 w) OR 0x80 :: u8) = take_bit 7 w OR (0x80 :: u32)"
    by (simp add: unsigned_or_eq low)
  show "take_bit 7 (take_bit 7 w OR 0x80) = take_bit 7 w"
    by (rule bit_word_eqI) (auto simp: bit_simps e)
  have "(0x80 :: u32) \<le> take_bit 7 w OR 0x80" by (rule le_word_or1)
  then show "take_bit 7 w OR 0x80 > 0x7f" by (rule less_le_trans [rotated]) simp
  show "take_bit 7 w \<le> 0x7f"
    using word_and_le1 [of w "0x7f"] by (simp add: word_low7)
qed


lemma uleb_group_join:
  fixes v :: u32
  shows "drop_bit 7 v = 0 \<Longrightarrow> take_bit 7 v = v"
    and "drop_bit 14 v = 0 \<Longrightarrow> take_bit 7 v OR push_bit 7 (take_bit 7 (drop_bit 7 v)) = v"
    and "drop_bit 21 v = 0 \<Longrightarrow> take_bit 7 v OR push_bit 7 (take_bit 7 (drop_bit 7 v))
        OR push_bit 14 (take_bit 7 (drop_bit 14 v)) = v"
    and "drop_bit 28 v = 0 \<Longrightarrow> take_bit 7 v OR push_bit 7 (take_bit 7 (drop_bit 7 v))
        OR push_bit 14 (take_bit 7 (drop_bit 14 v)) OR push_bit 21 (take_bit 7 (drop_bit 21 v)) = v"
    and "take_bit 7 v OR push_bit 7 (take_bit 7 (drop_bit 7 v))
        OR push_bit 14 (take_bit 7 (drop_bit 14 v)) OR push_bit 21 (take_bit 7 (drop_bit 21 v))
        OR push_bit 28 (take_bit 7 (drop_bit 28 v)) = v"
proof -
  have hi: "n < k" if "drop_bit k v = 0" "bit v n" for k n
  proof (rule ccontr)
    assume "\<not> n < k"
    then have "bit (drop_bit k v) (n - k) = bit v n" by (simp add: bit_simps)
    with that show False by simp
  qed
  note bits = bit_simps less_diff_conv2
  show "drop_bit 7 v = 0 \<Longrightarrow> take_bit 7 v = v"
    by (rule bit_word_eqI) (auto simp: bits dest: hi)
  show "drop_bit 14 v = 0 \<Longrightarrow> take_bit 7 v OR push_bit 7 (take_bit 7 (drop_bit 7 v)) = v"
    by (rule bit_word_eqI) (auto simp: bits dest: hi)
  show "drop_bit 21 v = 0 \<Longrightarrow> take_bit 7 v OR push_bit 7 (take_bit 7 (drop_bit 7 v))
        OR push_bit 14 (take_bit 7 (drop_bit 14 v)) = v"
    by (rule bit_word_eqI) (auto simp: bits dest: hi)
  show "drop_bit 28 v = 0 \<Longrightarrow> take_bit 7 v OR push_bit 7 (take_bit 7 (drop_bit 7 v))
        OR push_bit 14 (take_bit 7 (drop_bit 14 v)) OR push_bit 21 (take_bit 7 (drop_bit 21 v)) = v"
    by (rule bit_word_eqI) (auto simp: bits dest: hi)
  show "take_bit 7 v OR push_bit 7 (take_bit 7 (drop_bit 7 v))
        OR push_bit 14 (take_bit 7 (drop_bit 14 v)) OR push_bit 21 (take_bit 7 (drop_bit 21 v))
        OR push_bit 28 (take_bit 7 (drop_bit 28 v)) = v" (is "?l = v")
  proof (rule bit_word_eqI)
    fix n
    assume "n < LENGTH(32)"
    then show "bit ?l n = bit v n" by (cases "n < 7"; cases "n < 14"; cases "n < 21"; cases "n < 28") (auto simp: bits)
  qed
qed


text \<open>Unrolling the reference encoding: at most five groups.\<close>

lemma uleb_cases:
  fixes v :: u32
  obtains (one) "drop_bit 7 v = 0" "uleb v = [ucast (take_bit 7 v)]"
  | (two) "drop_bit 7 v \<noteq> 0" "drop_bit 14 v = 0"
      "uleb v = [ucast (take_bit 7 v) OR 0x80, ucast (take_bit 7 (drop_bit 7 v))]"
  | (three) "drop_bit 14 v \<noteq> 0" "drop_bit 21 v = 0"
      "uleb v = [ucast (take_bit 7 v) OR 0x80, ucast (take_bit 7 (drop_bit 7 v)) OR 0x80,
         ucast (take_bit 7 (drop_bit 14 v))]"
  | (four) "drop_bit 21 v \<noteq> 0" "drop_bit 28 v = 0"
      "uleb v = [ucast (take_bit 7 v) OR 0x80, ucast (take_bit 7 (drop_bit 7 v)) OR 0x80,
         ucast (take_bit 7 (drop_bit 14 v)) OR 0x80, ucast (take_bit 7 (drop_bit 21 v))]"
  | (five) "drop_bit 28 v \<noteq> 0"
      "uleb v = [ucast (take_bit 7 v) OR 0x80, ucast (take_bit 7 (drop_bit 7 v)) OR 0x80,
         ucast (take_bit 7 (drop_bit 14 v)) OR 0x80, ucast (take_bit 7 (drop_bit 21 v)) OR 0x80,
         ucast (take_bit 7 (drop_bit 28 v))]"
proof -
  have z: "drop_bit (m + k) v = 0" if "drop_bit k v = 0" for k m
    using that by (metis drop_bit_drop_bit drop_bit_of_0)
  have "drop_bit 35 v = 0"
    by (rule bit_word_eqI) (simp add: bit_simps)
  then show thesis
    using that z [of 7 7] z [of 14 7] z [of 21 7]
    by (cases "drop_bit 7 v = 0"; cases "drop_bit 14 v = 0"; cases "drop_bit 21 v = 0";
        cases "drop_bit 28 v = 0")
       (simp_all add: uleb.simps [of v] uleb.simps [of "drop_bit 7 v"] uleb.simps [of "drop_bit 14 v"]
         uleb.simps [of "drop_bit 21 v"] uleb.simps [of "drop_bit 28 v"] word_low7)
qed

lemma length_uleb_bounds: "1 \<le> length (uleb v)" "length (uleb v) \<le> 5"
  by (cases v rule: uleb_cases; simp)+

lemma ptr_offsets:
  fixes p :: nat
  shows "p + 3 = Suc (Suc (Suc p))" and "p + 4 = Suc (Suc (Suc (Suc p)))"
    and "p + 5 = Suc (Suc (Suc (Suc (Suc p))))"
  by simp_all

text \<open>Decoding the reference encoding gives the value back and stops right after it.\<close>

lemma DecodeUnsignedLeb128_uleb [uleb_simps]:
  assumes "bytes_at buf p (uleb v)"
  shows "DecodeUnsignedLeb128 buf p = Some (v, p + length (uleb v))"
proof -
  note dec = DecodeUnsignedLeb128_def load_int_def word_cont_byte word_low7
    linorder_not_less [THEN iffD2] ptr_offsets
  show ?thesis
    using assms
  proof (cases v rule: uleb_cases)
    case one
    with assms have "DecodeUnsignedLeb128 buf p = Some (take_bit 7 v, Suc p)" by (simp add: dec)
    with one show ?thesis by (simp add: uleb_group_join(1))
  qed (simp_all add: dec uleb_group_join(2-5) or.assoc)
qed


section \<open>Signed values\<close>

text \<open>\<open>sext v\<close> has a bit set where \<open>v\<close> differs from its sign: what \<open>extra_bits\<close> counts.\<close>

definition sext :: "u32 \<Rightarrow> u32" where
  "sext v = v XOR signed_drop_bit 31 v"

lemma bit_sdrop:
  "bit (signed_drop_bit k (v :: u32)) n \<longleftrightarrow> n < 32 \<and> (if k + n < 32 then bit v (k + n) else bit v 31)"
proof (cases "n < 32")
  case True
  have "(32 - k \<le> n) = (\<not> k + n < 32)" by auto
  with True show ?thesis by (simp add: bit_signed_drop_bit_iff)
next
  case False
  then show ?thesis by (auto dest: bit_imp_le_length)
qed

lemma bit_sext: "bit (sext v) n \<longleftrightarrow> n < 32 \<and> bit v n \<noteq> bit v 31"
  by (auto simp: sext_def bit_xor_iff bit_sdrop dest: bit_imp_le_length)

lemmas sbits = bit_sdrop bit_sext bit_drop_bit_eq bit_push_bit_iff bit_take_bit_iff bit_or_iff

lemma sext_shift: "drop_bit 6 (sext (signed_drop_bit 7 v)) = drop_bit 7 (drop_bit 6 (sext v))"
  by (rule bit_word_eqI) (simp add: sbits add.commute)

lemma drop_sext_zero: "drop_bit k (sext v) = 0 \<Longrightarrow> k \<le> n \<Longrightarrow> n < 32 \<Longrightarrow> bit v n = bit v 31"
proof -
  assume "drop_bit k (sext v) = 0" and "k \<le> n" and "n < 32"
  then have "\<not> bit (drop_bit k (sext v)) (n - k)" by simp
  with \<open>k \<le> n\<close> \<open>n < 32\<close> show ?thesis by (simp add: bit_simps bit_sext)
qed

function sleb :: "u32 \<Rightarrow> u8 list" where
  "sleb v =
     (if drop_bit 6 (sext v) \<noteq> 0 then (ucast (v AND 0x7f) OR 0x80) # sleb (signed_drop_bit 7 v)
      else [ucast (v AND 0x7f)])"
  by pat_completeness auto
termination
  by (relation "measure (\<lambda>v. unat (drop_bit 6 (sext v)))")
     (auto simp: sext_shift intro: word_drop_bit_less simp del: drop_bit_drop_bit)

declare sleb.simps [simp del]

lemma EncodeSignedLeb128_vec_eq [uleb_simps]: "EncodeSignedLeb128_vec dest v = dest @ sleb v"
  unfolding EncodeSignedLeb128_vec_def sext_def [symmetric]
proof (induction v arbitrary: dest rule: sleb.induct)
  case (1 v)
  show ?case
    using "1.IH" [unfolded sext_shift]
    by (simp add: EncodeSignedLeb128_vec_loop.simps [of _ _ v] sleb.simps [of v] Let_def
        del: drop_bit_drop_bit)
qed

lemma EncodeSignedLeb128_eq [uleb_simps]:
  "EncodeSignedLeb128 buf p v =
     map_option (\<lambda>buf'. (buf', p + length (sleb v))) (memcpy buf p (sleb v))"
  unfolding EncodeSignedLeb128_def sext_def [symmetric]
proof (induction v arbitrary: buf p rule: sleb.induct)
  case (1 v)
  have store_le: "store8 b q x = Some b' \<Longrightarrow> Suc q \<le> length b'" for b b' :: buffer and q x
    by (auto simp: store8_def split: if_splits)
  show ?case
    using "1.IH" [unfolded sext_shift]
    by (simp add: EncodeSignedLeb128_loop.simps [of _ _ _ v] sleb.simps [of v] Let_def
        memcpy_Cons store_le split: option.split del: drop_bit_drop_bit)
qed

lemma sdrop_sdrop: "signed_drop_bit 7 (signed_drop_bit k v) = signed_drop_bit (k + 7) (v :: u32)"
  by (rule bit_word_eqI) (auto simp: sbits add_ac)

lemma sext_sdrop: "drop_bit 6 (sext (signed_drop_bit k v)) = drop_bit (k + 6) (sext v)"
  by (rule bit_word_eqI) (auto simp: sbits add_ac)

lemma sleb_cases:
  fixes v :: u32
  obtains (one) "drop_bit 6 (sext v) = 0" "sleb v = [ucast (take_bit 7 v)]"
  | (two) "drop_bit 13 (sext v) = 0"
      "sleb v = [ucast (take_bit 7 v) OR 0x80, ucast (take_bit 7 (signed_drop_bit 7 v))]"
  | (three) "drop_bit 20 (sext v) = 0"
      "sleb v = [ucast (take_bit 7 v) OR 0x80, ucast (take_bit 7 (signed_drop_bit 7 v)) OR 0x80,
         ucast (take_bit 7 (signed_drop_bit 14 v))]"
  | (four) "drop_bit 27 (sext v) = 0"
      "sleb v = [ucast (take_bit 7 v) OR 0x80, ucast (take_bit 7 (signed_drop_bit 7 v)) OR 0x80,
         ucast (take_bit 7 (signed_drop_bit 14 v)) OR 0x80, ucast (take_bit 7 (signed_drop_bit 21 v))]"
  | (five) "drop_bit 27 (sext v) \<noteq> 0"
      "sleb v = [ucast (take_bit 7 v) OR 0x80, ucast (take_bit 7 (signed_drop_bit 7 v)) OR 0x80,
         ucast (take_bit 7 (signed_drop_bit 14 v)) OR 0x80,
         ucast (take_bit 7 (signed_drop_bit 21 v)) OR 0x80,
         ucast (take_bit 7 (signed_drop_bit 28 v))]"
proof -
  have "drop_bit 34 (sext v) = 0"
    by (rule bit_word_eqI) (simp add: bit_simps)
  moreover have "sleb v = (if drop_bit 6 (sext v) = 0 then [ucast (take_bit 7 v)]
      else (ucast (take_bit 7 v) OR 0x80) # sleb (signed_drop_bit 7 v))"
    by (subst sleb.simps) (simp add: word_low7)
  moreover have "sleb (signed_drop_bit k v) =
      (if drop_bit (k + 6) (sext v) = 0 then [ucast (take_bit 7 (signed_drop_bit k v))]
       else (ucast (take_bit 7 (signed_drop_bit k v)) OR 0x80) # sleb (signed_drop_bit (k + 7) v))" for k
    by (subst sleb.simps) (simp add: word_low7 sext_sdrop add.commute)
  note this [of 7] this [of 14] this [of 21] this [of 28]
  ultimately show thesis
    using that
    by (cases "drop_bit 6 (sext v) = 0"; cases "drop_bit 13 (sext v) = 0";
        cases "drop_bit 20 (sext v) = 0"; cases "drop_bit 27 (sext v) = 0") simp_all
qed


text \<open>Joining the groups and sign-extending from the last one gives the value back.\<close>

lemma sleb_group_join:
  fixes v :: u32
  shows "drop_bit 6 (sext v) = 0 \<Longrightarrow> signed_drop_bit 25 (push_bit 25 (take_bit 7 v)) = v"
    and "drop_bit 13 (sext v) = 0 \<Longrightarrow> signed_drop_bit 18 (push_bit 18 (take_bit 7 v
        OR push_bit 7 (take_bit 7 (signed_drop_bit 7 v)))) = v"
    and "drop_bit 20 (sext v) = 0 \<Longrightarrow> signed_drop_bit 11 (push_bit 11 (take_bit 7 v
        OR push_bit 7 (take_bit 7 (signed_drop_bit 7 v))
        OR push_bit 14 (take_bit 7 (signed_drop_bit 14 v)))) = v"
    and "drop_bit 27 (sext v) = 0 \<Longrightarrow> signed_drop_bit 4 (push_bit 4 (take_bit 7 v
        OR push_bit 7 (take_bit 7 (signed_drop_bit 7 v))
        OR push_bit 14 (take_bit 7 (signed_drop_bit 14 v))
        OR push_bit 21 (take_bit 7 (signed_drop_bit 21 v)))) = v"
    and "take_bit 7 v OR push_bit 7 (take_bit 7 (signed_drop_bit 7 v))
        OR push_bit 14 (take_bit 7 (signed_drop_bit 14 v))
        OR push_bit 21 (take_bit 7 (signed_drop_bit 21 v))
        OR push_bit 28 (take_bit 7 (signed_drop_bit 28 v)) = v"
proof -
  show "drop_bit 6 (sext v) = 0 \<Longrightarrow> signed_drop_bit 25 (push_bit 25 (take_bit 7 v)) = v"
    (is "_ \<Longrightarrow> ?l = v")
  proof (rule bit_word_eqI)
    fix n
    assume "drop_bit 6 (sext v) = 0" and "n < LENGTH(32)"
    with drop_sext_zero [of 6 v n] drop_sext_zero [of 6 v 6] show "bit ?l n = bit v n"
      by (cases "n < 7") (auto simp: sbits)
  qed
  show "drop_bit 13 (sext v) = 0 \<Longrightarrow> signed_drop_bit 18 (push_bit 18 (take_bit 7 v
        OR push_bit 7 (take_bit 7 (signed_drop_bit 7 v)))) = v" (is "_ \<Longrightarrow> ?l = v")
  proof (rule bit_word_eqI)
    fix n
    assume "drop_bit 13 (sext v) = 0" and "n < LENGTH(32)"
    with drop_sext_zero [of 13 v n] drop_sext_zero [of 13 v 13] show "bit ?l n = bit v n"
      by (cases "n < 7"; cases "n < 14") (auto simp: sbits)
  qed
  show "drop_bit 20 (sext v) = 0 \<Longrightarrow> signed_drop_bit 11 (push_bit 11 (take_bit 7 v
        OR push_bit 7 (take_bit 7 (signed_drop_bit 7 v))
        OR push_bit 14 (take_bit 7 (signed_drop_bit 14 v)))) = v" (is "_ \<Longrightarrow> ?l = v")
  proof (rule bit_word_eqI)
    fix n
    assume "drop_bit 20 (sext v) = 0" and "n < LENGTH(32)"
    with drop_sext_zero [of 20 v n] drop_sext_zero [of 20 v 20] show "bit ?l n = bit v n"
      by (cases "n < 7"; cases "n < 14"; cases "n < 21") (auto simp: sbits)
  qed
  show "drop_bit 27 (sext v) = 0 \<Longrightarrow> signed_drop_bit 4 (push_bit 4 (take_bit 7 v
        OR push_bit 7 (take_bit 7 (signed_drop_bit 7 v))
        OR push_bit 14 (take_bit 7 (signed_drop_bit 14 v))
        OR push_bit 21 (take_bit 7 (signed_drop_bit 21 v)))) = v" (is "_ \<Longrightarrow> ?l = v")
  proof (rule bit_word_eqI)
    fix n
    assume "drop_bit 27 (sext v) = 0" and "n < LENGTH(32)"
    with drop_sext_zero [of 27 v n] drop_sext_zero [of 27 v 27] show "bit ?l n = bit v n"
      by (cases "n < 7"; cases "n < 14"; cases "n < 21"; cases "n < 28") (auto simp: sbits)
  qed
  show "take_bit 7 v OR push_bit 7 (take_bit 7 (signed_drop_bit 7 v))
        OR push_bit 14 (take_bit 7 (signed_drop_bit 14 v))
        OR push_bit 21 (take_bit 7 (signed_drop_bit 21 v))
        OR push_bit 28 (take_bit 7 (signed_drop_bit 28 v)) = v" (is "?l = v")
  proof (rule bit_word_eqI)
    fix n
    assume "n < LENGTH(32)"
    then show "bit ?l n = bit v n"
      by (cases "n < 7"; cases "n < 14"; cases "n < 21"; cases "n < 28") (auto simp: sbits)
  qed
qed

lemma DecodeSignedLeb128_sleb [uleb_simps]:
  assumes "bytes_at buf p (sleb v)"
  shows "DecodeSignedLeb128 buf p = Some (v, p + length (sleb v))"
proof -
  note dec = DecodeSignedLeb128_def load_int_def word_cont_byte word_low7
    linorder_not_le [THEN iffD2] ptr_offsets
  show ?thesis
    using assms
    by (cases v rule: sleb_cases) (simp_all add: dec sleb_group_join [simplified] or.assoc)
qed


section \<open>Size functions\<close>

text \<open>The position of the highest set bit decides both the number of groups and the size formula.\<close>

lemma CLZ_highest:
  assumes "bit x k" and "\<forall>j. k < j \<longrightarrow> \<not> bit x j"
  shows "CLZ x = 31 - k"
proof -
  from assms(1) have k: "k < 32" by (auto dest: bit_imp_le_length)
  then have "[0..<32] = [0..<k] @ k # [Suc k..<32]"
    by (metis less_imp_le_nat upt_add_eq_append upt_conv_Cons le0 add_diff_inverse_nat not_less)
  then have split: "rev [0..<32] = rev [Suc k..<32] @ k # rev [0..<k]" by simp
  have "takeWhile (\<lambda>i. \<not> bit x i) (rev [0..<32]) = rev [Suc k..<32]"
    unfolding split using assms by (subst takeWhile_append2) auto
  then show ?thesis using k by (simp add: CLZ_def)
qed

lemma highest_bit:
  fixes x :: u32
  assumes "x \<noteq> 0"
  obtains k where "k < 32" "bit x k" "\<forall>j. k < j \<longrightarrow> \<not> bit x j"
proof -
  let ?S = "{n. bit x n}"
  have fin: "finite ?S" by (rule finite_subset [of _ "{..<32}"]) (auto dest: bit_imp_le_length)
  have ne: "?S \<noteq> {}" using assms by (auto simp: bit_eq_iff)
  have "bit x (Max ?S)" using Max_in [OF fin ne] by simp
  moreover have "\<forall>j. Max ?S < j \<longrightarrow> \<not> bit x j" using Max_ge [OF fin] by (auto simp: not_le [symmetric])
  moreover have "Max ?S < 32" using calculation(1) by (auto dest: bit_imp_le_length)
  ultimately show thesis by (rule that [rotated])
qed

lemma drop_bit_zero_iff_highest:
  fixes x :: u32
  assumes "bit x k" and "\<forall>j. k < j \<longrightarrow> \<not> bit x j"
  shows "drop_bit m x = 0 \<longleftrightarrow> k < m"
proof
  assume "drop_bit m x = 0"
  then have "\<not> bit (drop_bit m x) (k - m)" by simp
  with assms(1) show "k < m" by (cases "k < m") (simp_all add: bit_simps)
next
  assume "k < m"
  with assms(2) show "drop_bit m x = 0" by (intro bit_word_eqI) (simp add: bit_simps)
qed

lemma size_formula:
  assumes "k < 32"
  shows "drop_bit 8 ((6 + 32 - of_nat (31 - k) :: u32) * 37) = of_nat (k div 7 + 1)"
proof -
  have "list_all (\<lambda>k. drop_bit 8 ((6 + 32 - of_nat (31 - k) :: u32) * 37) = of_nat (k div 7 + 1)) [0..<32]"
    by code_simp
  with assms show ?thesis by (simp only: list_all_iff) simp
qed


lemma length_uleb_highest:
  assumes "bit (v OR 1) k" and "\<forall>j. k < j \<longrightarrow> \<not> bit (v OR 1) j"
  shows "length (uleb v) = k div 7 + 1"
proof -
  have k: "k < 32" using assms(1) by (auto dest: bit_imp_le_length)
  have eq: "drop_bit m (v OR 1) = drop_bit m v" if "0 < m" for m
    using that by (intro bit_word_eqI) (auto simp: bit_simps bit_1_iff)
  have drop: "drop_bit m v = 0 \<longleftrightarrow> k < m" if "0 < m" for m
    using drop_bit_zero_iff_highest [OF assms, of m] that by (simp add: eq)
  show ?thesis
    using k drop [of 7] drop [of 14] drop [of 21] drop [of 28]
    by (cases v rule: uleb_cases) auto
qed

lemma or_one_nonzero: "x OR 1 \<noteq> (0 :: u32)"
proof
  assume "x OR 1 = 0"
  then have "\<not> bit (x OR 1) 0" by simp
  then show False by (simp add: bit_or_iff)
qed

lemma UnsignedLeb128Size_eq: "UnsignedLeb128Size v = of_nat (length (uleb v))"
proof -
  have "v OR 1 \<noteq> 0" by (rule or_one_nonzero)
  then obtain k where k: "k < 32" "bit (v OR 1) k" "\<forall>j. k < j \<longrightarrow> \<not> bit (v OR 1) j"
    by (rule highest_bit)
  then show ?thesis
    using size_formula [OF k(1)] length_uleb_highest [OF k(2,3)] CLZ_highest [OF k(2,3)]
    by (simp add: UnsignedLeb128Size_def)
qed

lemma length_sleb_highest:
  assumes "bit (sext v OR 1) k" and "\<forall>j. k < j \<longrightarrow> \<not> bit (sext v OR 1) j"
  shows "length (sleb v) = (k + 1) div 7 + 1"
proof -
  have "k \<noteq> 31" using assms(1) by (auto simp: bit_or_iff bit_sext bit_1_iff)
  moreover have "k < 32" using assms(1) by (auto dest: bit_imp_le_length)
  ultimately have k: "k < 31" by simp
  have eq: "drop_bit m (sext v OR 1) = drop_bit m (sext v)" if "0 < m" for m
    using that by (intro bit_word_eqI) (auto simp: bit_simps bit_1_iff)
  have drop: "drop_bit m (sext v) = 0 \<longleftrightarrow> k < m" if "0 < m" for m
    using drop_bit_zero_iff_highest [OF assms, of m] that by (simp add: eq)
  have one: "sleb v = (if drop_bit 6 (sext v) = 0 then [ucast (take_bit 7 v)]
      else (ucast (take_bit 7 v) OR 0x80) # sleb (signed_drop_bit 7 v))"
    by (subst sleb.simps) (simp add: word_low7)
  have next_: "length (sleb (signed_drop_bit m v)) =
      (if drop_bit (m + 6) (sext v) = 0 then 1 else 1 + length (sleb (signed_drop_bit (m + 7) v)))" for m
    by (subst sleb.simps) (simp add: sext_sdrop add.commute)
  have "drop_bit 34 (sext v) = 0" using drop [of 34] k by simp
  then show ?thesis
    using k drop [of 6] drop [of 13] drop [of 20] drop [of 27]
      next_ [of 7] next_ [of 14] next_ [of 21] next_ [of 28] one
    by (auto split: if_splits)
qed


lemma ssize_formula:
  assumes "k < 31"
  shows "drop_bit 8 ((1 + 6 + 32 - of_nat (31 - k) :: u32) * 37) = of_nat ((k + 1) div 7 + 1)"
proof -
  have "list_all (\<lambda>k. drop_bit 8 ((1 + 6 + 32 - of_nat (31 - k) :: u32) * 37)
      = of_nat ((k + 1) div 7 + 1)) [0..<31]"
    by code_simp
  with assms show ?thesis by (simp only: list_all_iff) simp
qed

lemma SignedLeb128Size_eq: "SignedLeb128Size v = of_nat (length (sleb v))"
proof -
  have "sext v OR 1 \<noteq> 0" by (rule or_one_nonzero)
  then obtain k where k: "k < 32" "bit (sext v OR 1) k" "\<forall>j. k < j \<longrightarrow> \<not> bit (sext v OR 1) j"
    by (rule highest_bit)
  then have "k \<noteq> 31" by (auto simp: bit_or_iff bit_sext bit_1_iff)
  with k(1) have "k < 31" by simp
  then show ?thesis
    using ssize_formula [of k] length_sleb_highest [OF k(2,3)] CLZ_highest [OF k(2,3)]
    by (simp add: SignedLeb128Size_def sext_def)
qed

section \<open>Decoding arbitrary input\<close>

lemma load_int_Some: "load_int buf p = Some x \<Longrightarrow> p < length buf"
  by (auto simp: load_int_def load8_def split: if_splits)

text \<open>A successful decode consumes one to five bytes, all of them inside the buffer, and a decode
  fails only when the buffer ends inside the value.\<close>

lemma DecodeUnsignedLeb128_consumes:
  assumes "DecodeUnsignedLeb128 buf p = Some (v, q)"
  shows "p < q" "q \<le> p + 5" "q \<le> length buf"
  using assms
  by (auto simp: DecodeUnsignedLeb128_def Let_def bind_eq_Some_conv split: if_splits
      dest!: load_int_Some)

lemma DecodeUnsignedLeb128_total:
  assumes "p + 5 \<le> length buf"
  shows "\<exists>v q. DecodeUnsignedLeb128 buf p = Some (v, q)"
proof -
  have "\<exists>x. load_int buf (p + k) = Some x" if "k < 5" for k
    using assms that by (simp add: load_int_def load8_def)
  from this [of 0] this [of 1] this [of 2] this [of 3] this [of 4] show ?thesis
    by (auto simp: DecodeUnsignedLeb128_def Let_def)
qed

text \<open>A value that was decoded from fewer than five bytes has no bits beyond its groups.\<close>

lemma DecodeUnsignedLeb128_groups:
  assumes "DecodeUnsignedLeb128 buf p = Some (v, q)"
  shows "q = p + 5 \<or> drop_bit (7 * (q - p)) v = 0"
proof -
  have low: "drop_bit 7 x = 0" if "load_int buf i = Some x" "\<not> x > 0x7f" for x i
  proof -
    have "unat x < 2 ^ 7" using that(2) by (simp add: word_less_nat_alt)
    then have "unat (drop_bit 7 x) = 0"
      by (simp only: unat_drop_bit_eq) (simp add: drop_bit_eq_div)
    then show ?thesis by (simp only: unat_eq_zero)
  qed
  have tb: "7 \<le> n \<Longrightarrow> drop_bit n (take_bit 7 x) = 0"
      "k + 7 \<le> n \<Longrightarrow> drop_bit n (push_bit k (take_bit 7 x)) = 0" for k n and x :: u32
    by (auto intro!: bit_word_eqI simp: bit_simps)
  from assms show ?thesis
    by (auto simp: DecodeUnsignedLeb128_def Let_def bind_eq_Some_conv word_low7 tb split: if_splits
        dest: low)
qed


section \<open>Updating in place\<close>

text \<open>\<open>upad v m\<close>: the value in exactly \<open>m\<close> groups, padded with empty groups.\<close>

definition upad :: "u32 \<Rightarrow> nat \<Rightarrow> u8 list" where
  "upad v m = map (\<lambda>i. ucast (take_bit 7 (drop_bit (7 * i) v)) OR 0x80) [0..<m - 1]
     @ [ucast (take_bit 7 (drop_bit (7 * (m - 1)) v))]"

lemma length_upad [simp]: "0 < m \<Longrightarrow> length (upad v m) = m"
  by (simp add: upad_def)

lemma uleb_eq_upad: "uleb v = upad v (length (uleb v))" "drop_bit (7 * length (uleb v)) v = 0"
proof -
  have "drop_bit 35 v = 0" by (rule bit_word_eqI) (simp add: bit_simps)
  then show "uleb v = upad v (length (uleb v))" "drop_bit (7 * length (uleb v)) v = 0"
    by (cases v rule: uleb_cases; simp add: upad_def upt_rec)+
qed

lemma DecodeUnsignedLeb128_upad:
  assumes "bytes_at buf p (upad v m)" and "0 < m" and "m \<le> 5" and "drop_bit (7 * m) v = 0"
  shows "DecodeUnsignedLeb128 buf p = Some (v, p + m)"
proof -
  note dec = DecodeUnsignedLeb128_def load_int_def word_cont_byte word_low7 upad_def
    linorder_not_less [THEN iffD2] ptr_offsets
  from assms(2,3) consider "m = 1" | "m = 2" | "m = 3" | "m = 4" | "m = 5" by linarith
  then show ?thesis
  proof cases
    case 1
    with assms have "DecodeUnsignedLeb128 buf p = Some (take_bit 7 v, Suc p)" by (simp add: dec)
    with 1 assms show ?thesis by (simp add: uleb_group_join(1))
  qed (use assms in \<open>simp_all add: dec upt_rec uleb_group_join(2-5) or.assoc\<close>)
qed

lemma upad_snoc:
  assumes "drop_bit (7 * m) v = 0" and "0 < m"
  shows "upad v (Suc m) = butlast (upad v m) @ [last (upad v m) OR 0x80, 0]"
proof -
  from assms(2) have "[0..<m] = [0..<m - 1] @ [m - 1]"
    by (metis Suc_pred' upt_Suc_append le0 zero_order(3))
  with assms show ?thesis by (simp add: upad_def)
qed

lemma pad_step:
  assumes "bytes_at buf p (upad v m)" and "drop_bit (7 * m) v = 0" and "0 < m" and "p + m < length buf"
  shows "\<exists>buf1. load8 buf (p + m - 1) = Some (last (upad v m))
    \<and> store8 buf (p + m - 1) (last (upad v m) OR 0x80) = Some buf1
    \<and> store8 buf1 (p + m) 0 = memcpy buf p (upad v (Suc m))"
proof -
  let ?a = "butlast (upad v m)" and ?l = "last (upad v m)"
  have up: "upad v m = ?a @ [?l]"
    using assms(3) by (metis append_butlast_last_id length_upad list.size(3) neq0_conv)
  have la: "length ?a = m - 1" using assms(3) by simp
  from assms(1) up have a: "bytes_at buf p ?a" and l: "load8 buf (p + length ?a) = Some ?l"
    by (metis bytes_at_append, metis bytes_at_Cons bytes_at_append)
  have m1: "p + length ?a = p + m - 1" using la assms(3) by simp
  have "memcpy buf p ?a = Some buf"
    using a assms(4) by (intro memcpy_bytes_at) simp_all
  then have "memcpy buf p (upad v (Suc m)) = memcpy buf (p + m - 1) [?l OR 0x80, 0]"
    unfolding upad_snoc [OF assms(2,3)] memcpy_append m1 by simp
  moreover have "memcpy buf (p + m - 1) [?l OR 0x80, 0]
      = store8 (buf[p + m - 1 := ?l OR 0x80]) (p + m) 0"
  proof -
    have "Suc (p + m - 1) = p + m" using assms(3) by simp
    then show ?thesis using assms(4) by (simp add: memcpy_Cons store8_def del: length_upad)
  qed
  moreover have "store8 buf (p + m - 1) (?l OR 0x80) = Some (buf[p + m - 1 := ?l OR 0x80])"
    using assms(3,4) by (simp add: store8_def)
  ultimately show ?thesis
    using l unfolding m1 by metis
qed


lemma UpdateUnsignedLeb128_pad_eq:
  assumes "bytes_at buf p (upad v m)" and "drop_bit (7 * m) v = 0" and "0 < m" and "m \<le> n"
    and "p + n \<le> length buf"
  shows "UpdateUnsignedLeb128_pad buf (p + m) (p + n) = memcpy buf p (upad v n)"
  using assms
proof (induction "n - m" arbitrary: m buf)
  case 0
  then show ?case by (simp add: UpdateUnsignedLeb128_pad.simps memcpy_bytes_at)
next
  case (Suc k)
  from Suc.hyps(2) Suc.prems have m: "m < n" "p + m < length buf" "k = n - Suc m" by auto
  from pad_step [OF Suc.prems(1-3) m(2)] obtain buf1 where
    b1: "load8 buf (p + m - 1) = Some (last (upad v m))"
        "store8 buf (p + m - 1) (last (upad v m) OR 0x80) = Some buf1"
    and b2: "store8 buf1 (p + m) 0 = memcpy buf p (upad v (Suc m))" by blast
  obtain buf2 where buf2: "memcpy buf p (upad v (Suc m)) = Some buf2"
    using m by (simp add: memcpy_Some)
  have z: "drop_bit (7 * Suc m) v = 0"
    using Suc.prems(2) by (rule drop_bit_zero_mono) simp
  have "UpdateUnsignedLeb128_pad buf (p + m) (p + n) = UpdateUnsignedLeb128_pad buf2 (p + Suc m) (p + n)"
    using m b1 b2 buf2 by (simp add: UpdateUnsignedLeb128_pad.simps [of buf])
  also have "\<dots> = memcpy buf2 p (upad v n)"
    using Suc.hyps(1) [OF m(3) bytes_at_memcpy [OF buf2] z] m Suc.prems(5) memcpy_length [OF buf2]
    by simp
  also have "\<dots> = memcpy buf p (upad v n)"
    using m by (intro memcpy_overwrite [OF buf2]) simp
  finally show ?case .
qed

lemma length_uleb_le: "drop_bit (7 * k) v = 0 \<Longrightarrow> 0 < k \<Longrightarrow> length (uleb v) \<le> k"
proof (induction v arbitrary: k rule: uleb.induct)
  case (1 v)
  show ?case
  proof (cases "drop_bit 7 v = 0")
    case True
    with "1.prems"(2) show ?thesis by (simp add: uleb.simps [of v])
  next
    case False
    with "1.prems" obtain j where j: "k = Suc j" "0 < j" by (cases k; cases "k = 1") auto
    with "1.prems"(1) have "drop_bit (7 * j) (drop_bit 7 v) = 0" by (simp add: add.commute)
    from "1.IH" [OF False this j(2)] False j(1) show ?thesis by (simp add: uleb.simps [of v])
  qed
qed

lemma drop_bit_le_zero:
  fixes x y :: u32
  assumes "x \<le> y" and "drop_bit m y = 0"
  shows "drop_bit m x = 0"
proof -
  have eq: "unat (drop_bit m z) = unat z div 2 ^ m" for z :: u32
    by (simp only: unat_drop_bit_eq) (simp add: drop_bit_eq_div)
  have "unat x div 2 ^ m \<le> unat y div 2 ^ m"
    using assms(1) by (simp add: div_le_mono word_le_nat_alt)
  with assms(2) have "unat (drop_bit m x) = 0" using eq [of x] eq [of y] by simp
  then show ?thesis by (simp only: unat_eq_zero)
qed

lemma UpdateUnsignedLeb128_eq:
  assumes "DecodeUnsignedLeb128 buf p = Some (old, q)" and "value \<le> old"
  shows "UpdateUnsignedLeb128 buf p value = memcpy buf p (upad value (q - p))"
    and "drop_bit (7 * (q - p)) value = 0"
proof -
  note c = DecodeUnsignedLeb128_consumes [OF assms(1)]
  let ?m = "length (uleb value)"
  have "drop_bit 35 old = 0" by (rule bit_word_eqI) (simp add: bit_simps)
  with DecodeUnsignedLeb128_groups [OF assms(1)] c have "drop_bit (7 * (q - p)) old = 0" by auto
  with assms(2) show z: "drop_bit (7 * (q - p)) value = 0" by (rule drop_bit_le_zero)
  from length_uleb_le [OF z] c have le: "?m \<le> q - p" by simp
  obtain buf' where enc: "memcpy buf p (uleb value) = Some buf'"
    using le c by (simp add: memcpy_Some)
  have "UpdateUnsignedLeb128_pad buf' (p + ?m) (p + (q - p)) = memcpy buf' p (upad value (q - p))"
    using bytes_at_memcpy [OF enc] uleb_eq_upad [of "value"] length_uleb_bounds(1) [of "value"] le c
      memcpy_length [OF enc]
    by (intro UpdateUnsignedLeb128_pad_eq) auto
  moreover have "memcpy buf' p (upad value (q - p)) = memcpy buf p (upad value (q - p))"
    using le c by (intro memcpy_overwrite [OF enc]) simp
  ultimately show "UpdateUnsignedLeb128 buf p value = memcpy buf p (upad value (q - p))"
    using assms(1) enc c by (simp add: UpdateUnsignedLeb128_def EncodeUnsignedLeb128_eq)
qed


lemma DecodeSignedLeb128_consumes:
  assumes "DecodeSignedLeb128 buf p = Some (v, q)"
  shows "p < q" "q \<le> p + 5" "q \<le> length buf"
  using assms
  by (auto simp: DecodeSignedLeb128_def Let_def bind_eq_Some_conv split: if_splits
      dest!: load_int_Some)

section \<open>Both formats are codecs\<close>

interpretation unsigned_leb: codec uleb DecodeUnsignedLeb128
  by unfold_locales
     (auto simp: DecodeUnsignedLeb128_uleb dest: DecodeUnsignedLeb128_consumes)

interpretation signed_leb: codec sleb DecodeSignedLeb128
  by unfold_locales
     (auto simp: DecodeSignedLeb128_sleb dest: DecodeSignedLeb128_consumes)

section \<open>Properties\<close>

lemma memcpy_outside:
  assumes "memcpy buf p bs = Some buf'"
  shows "length buf' = length buf \<and> (\<forall>i. i < p \<or> p + length bs \<le> i \<longrightarrow> load8 buf' i = load8 buf i)"
  using memcpy_nth [OF assms] memcpy_length [OF assms] by (auto simp: load8_def)

text \<open>
  Encoding an unsigned value at a pointer and decoding there gives the value back, the
  decoder stops where the encoder stopped, the number of bytes is what \<open>UnsignedLeb128Size\<close> predicts
  (one to five), and no byte outside that range changes.
\<close>

lemma unsigned_leb128_roundtrip:
  assumes "EncodeUnsignedLeb128 buf p v = Some (buf', q)"
  shows "DecodeUnsignedLeb128 buf' p = Some (v, q)
    \<and> q = p + unat (UnsignedLeb128Size v) \<and> p < q \<and> q \<le> p + 5
    \<and> length buf' = length buf \<and> (\<forall>i. i < p \<or> q \<le> i \<longrightarrow> load8 buf' i = load8 buf i)"
proof -
  from assms have m: "memcpy buf p (uleb v) = Some buf'" and q: "q = p + length (uleb v)"
    by (auto simp: EncodeUnsignedLeb128_eq)
  have "length (uleb v) < 2 ^ 32" using length_uleb_bounds(2) [of v] by simp
  then have "unat (UnsignedLeb128Size v) = length (uleb v)"
    by (simp add: UnsignedLeb128Size_eq unat_of_nat)
  with q show ?thesis
    using memcpy_outside [OF m] unsigned_leb.dec_enc [OF bytes_at_memcpy [OF m]] length_uleb_bounds [of v]
    by simp
qed

text \<open>
  The same for signed values: encode, then decode, gives the value back, the decoder stops
  where the encoder stopped, and \<open>SignedLeb128Size\<close> predicts the number of bytes.
\<close>

lemma signed_leb128_roundtrip:
  assumes "EncodeSignedLeb128 buf p v = Some (buf', q)"
  shows "DecodeSignedLeb128 buf' p = Some (v, q)
    \<and> q = p + unat (SignedLeb128Size v) \<and> p < q \<and> q \<le> p + 5
    \<and> length buf' = length buf \<and> (\<forall>i. i < p \<or> q \<le> i \<longrightarrow> load8 buf' i = load8 buf i)"
proof -
  from assms have m: "memcpy buf p (sleb v) = Some buf'" and q: "q = p + length (sleb v)"
    by (auto simp: EncodeSignedLeb128_eq)
  note dec = signed_leb.dec_enc [OF bytes_at_memcpy [OF m]]
  note c = DecodeSignedLeb128_consumes [OF dec]
  then have "length (sleb v) < 2 ^ 32" by simp
  then have "unat (SignedLeb128Size v) = length (sleb v)"
    by (simp add: SignedLeb128Size_eq unat_of_nat)
  with q c show ?thesis using memcpy_outside [OF m] dec by simp
qed

text \<open>
  Claim C36. Both integer formats are read back as written: encoding a value at a pointer and decoding there gives the
  value, the decoder stops where the encoder stopped, the number of bytes is what \<open>UnsignedLeb128Size\<close> or
  \<open>SignedLeb128Size\<close> predicts (one to five), and no byte outside that range changes. The unpacker's own encoder
  writes what the runtime's writes.
\<close>

theorem leb128_roundtrip:
  "(EncodeUnsignedLeb128 buf p v = Some (buf', q) \<longrightarrow> DecodeUnsignedLeb128 buf' p = Some (v, q)
      \<and> q = p + unat (UnsignedLeb128Size v) \<and> p < q \<and> q \<le> p + 5
      \<and> length buf' = length buf \<and> (\<forall>i. i < p \<or> q \<le> i \<longrightarrow> load8 buf' i = load8 buf i))
   \<and> (EncodeSignedLeb128 buf p v = Some (buf', q) \<longrightarrow> DecodeSignedLeb128 buf' p = Some (v, q)
      \<and> q = p + unat (SignedLeb128Size v) \<and> p < q \<and> q \<le> p + 5
      \<and> length buf' = length buf \<and> (\<forall>i. i < p \<or> q \<le> i \<longrightarrow> load8 buf' i = load8 buf i))
   \<and> gerat_EncodeUnsignedLeb128 buf p v = EncodeUnsignedLeb128 buf p v"
  by (rule conjI, rule impI, erule unsigned_leb128_roundtrip, rule conjI, rule impI, erule signed_leb128_roundtrip)
    (simp add: gerat_EncodeUnsignedLeb128_def EncodeUnsignedLeb128_def [symmetric])

theorem leb128_roundtrip_witness:
  "DecodeUnsignedLeb128 [7, 0xe5, 0x8e, 0x26, 9] 1 = Some (624485, 4)
   \<and> DecodeSignedLeb128 [0xc0, 0xbb, 0x78] 0 = Some (- 123456, 3)"
proof -
  have "EncodeUnsignedLeb128 [7, 0, 0, 0, 9] 1 624485 = Some ([7, 0xe5, 0x8e, 0x26, 9], 4)"
    "EncodeSignedLeb128 [0, 0, 0] 0 (- 123456) = Some ([0xc0, 0xbb, 0x78], 3)"
    by code_simp+
  with leb128_roundtrip [of "[7, 0, 0, 0, 9]" 1 624485] leb128_roundtrip [of "[0, 0, 0]" 0 "- 123456"] show ?thesis by blast
qed

text \<open>
  \<open>UpdateUnsignedLeb128\<close> replaces an encoded value by one that is not larger: it never
  leaves the bytes of the old encoding, the new value decodes there and ends exactly where the old
  one ended, and all other bytes keep their values.
\<close>

theorem update_unsigned_leb128_in_place:
  assumes "DecodeUnsignedLeb128 buf p = Some (old, q)" and "value \<le> old"
  shows "\<exists>buf'. UpdateUnsignedLeb128 buf p value = Some buf'
    \<and> DecodeUnsignedLeb128 buf' p = Some (value, q)
    \<and> length buf' = length buf \<and> (\<forall>i. i < p \<or> q \<le> i \<longrightarrow> load8 buf' i = load8 buf i)"
proof -
  note c = DecodeUnsignedLeb128_consumes [OF assms(1)]
  then obtain buf' where m: "memcpy buf p (upad value (q - p)) = Some buf'"
    by (simp add: memcpy_Some)
  have "DecodeUnsignedLeb128 buf' p = Some (value, p + (q - p))"
    using DecodeUnsignedLeb128_upad [OF bytes_at_memcpy [OF m]] UpdateUnsignedLeb128_eq(2) [OF assms] c
    by simp
  moreover have "UpdateUnsignedLeb128 buf p value = Some buf'"
    using UpdateUnsignedLeb128_eq(1) [OF assms] m by simp
  ultimately show ?thesis using memcpy_outside [OF m] c by simp
qed

theorem update_unsigned_leb128_in_place_witness:
  "\<exists>buf'. UpdateUnsignedLeb128 [0xe5, 0x8e, 0x26, 9] 0 5 = Some buf'
     \<and> DecodeUnsignedLeb128 buf' 0 = Some (5, 3)"
proof -
  have "DecodeUnsignedLeb128 [0xe5, 0x8e, 0x26, 9] 0 = Some (624485, 3)" by code_simp
  from update_unsigned_leb128_in_place [OF this, of 5] show ?thesis by auto
qed

text \<open>
  The three unsigned encoders agree: the unpacker's copy is the runtime's pointer encoder,
  and the pointer encoder writes exactly the bytes that the vector encoder pushes, failing only when
  they do not fit behind the pointer.
\<close>

lemma unsigned_leb128_encoders_agree:
  "gerat_EncodeUnsignedLeb128 buf p v = EncodeUnsignedLeb128 buf p v
   \<and> EncodeUnsignedLeb128 buf p v =
       (let bytes = EncodeUnsignedLeb128_vec [] v
        in if p + length bytes \<le> length buf
           then Some (take p buf @ bytes @ drop (p + length bytes) buf, p + length bytes)
           else None)
   \<and> EncodeUnsignedLeb128_vec dest v = dest @ EncodeUnsignedLeb128_vec [] v"
  by (simp add: gerat_EncodeUnsignedLeb128_def EncodeUnsignedLeb128_def [symmetric]
      EncodeUnsignedLeb128_eq EncodeUnsignedLeb128_vec_eq memcpy_def Let_def)

end
