(* ===== verification/Utf.thy ===== *)
theory Utf
  imports Prelude
begin

text \<open>
  Modified UTF-8: \<open>art/runtime/utf-inl.h\<close> and \<open>art/runtime/utf.cc\<close>. A \<open>const char*\<close> is the list of the
  bytes from the pointer to the end of its buffer, so advancing the pointer is taking the tail, and
  reading past the end is \<open>None\<close>. A string is terminated by the byte 0. A \<open>uint16_t*\<close> with its
  \<open>char_count\<close> is the list of the characters.
\<close>

section \<open>The code\<close>

type_synonym cstr = "u8 list"

definition GetTrailingUtf16Char :: "u32 \<Rightarrow> u16" where
  "GetTrailingUtf16Char maybe_pair = ucast (drop_bit 16 maybe_pair)"

definition GetLeadingUtf16Char :: "u32 \<Rightarrow> u16" where
  "GetLeadingUtf16Char maybe_pair = ucast (maybe_pair AND 0x0000FFFF)"

text \<open>\<open>*(*utf8_data_in)++\<close>.\<close>

fun next_byte :: "cstr \<Rightarrow> (u8 \<times> cstr) option" where
  "next_byte [] = None"
| "next_byte (b # s) = Some (b, s)"

definition GetUtf16FromUtf8 :: "cstr \<Rightarrow> (u32 \<times> cstr) option" where
  "GetUtf16FromUtf8 s = do {
     (one, s) \<leftarrow> next_byte s;
     (if one AND 0x80 = 0 then Some (ucast one, s)
      else do {
        (two, s) \<leftarrow> next_byte s;
        (if one AND 0x20 = 0
         then Some (push_bit 6 (ucast (one AND 0x1f)) OR ucast (two AND 0x3f), s)
         else do {
           (three, s) \<leftarrow> next_byte s;
           (if one AND 0x10 = 0
            then Some (push_bit 12 (ucast (one AND 0x0f)) OR push_bit 6 (ucast (two AND 0x3f))
                       OR ucast (three AND 0x3f), s)
            else do {
              (four, s) \<leftarrow> next_byte s;
              let code_point = ((push_bit 18 (ucast (one AND 0x0f)) OR push_bit 12 (ucast (two AND 0x3f))
                OR push_bit 6 (ucast (three AND 0x3f)) OR ucast (four AND 0x3f)) :: u32);
              let surrogate_pair = 0 OR ((drop_bit 10 code_point + 0xd7c0) AND 0xffff);
              let surrogate_pair = surrogate_pair OR push_bit 16 ((code_point AND 0x03ff) + 0xdc00);
              Some (surrogate_pair, s)
            })
         })
      })
   }"

lemma GetUtf16FromUtf8_shorter: "GetUtf16FromUtf8 s = Some (c, s') \<Longrightarrow> length s' < length s"
  by (auto simp: GetUtf16FromUtf8_def Let_def bind_eq_Some_conv split: if_splits
      elim!: next_byte.elims)

text \<open>The do-while loop: \<open>*utf8_1\<close> and \<open>*utf8_2\<close> are read before they are decoded.\<close>

function CompareModifiedUtf8ToModifiedUtf8AsUtf16CodePointValues :: "cstr \<Rightarrow> cstr \<Rightarrow> int option" where
  "CompareModifiedUtf8ToModifiedUtf8AsUtf16CodePointValues utf8_1 utf8_2 = do {
     (b1, _) \<leftarrow> next_byte utf8_1;
     (b2, _) \<leftarrow> next_byte utf8_2;
     (if b1 = 0 then Some (if b2 = 0 then 0 else -1)
      else if b2 = 0 then Some 1
      else (case (GetUtf16FromUtf8 utf8_1, GetUtf16FromUtf8 utf8_2) of
         (Some (c1, utf8_1'), Some (c2, utf8_2')) \<Rightarrow>
           if c1 = c2
           then CompareModifiedUtf8ToModifiedUtf8AsUtf16CodePointValues utf8_1' utf8_2'
           else (let leading_surrogate_diff =
                       uint (GetLeadingUtf16Char c1) - uint (GetLeadingUtf16Char c2)
                 in if leading_surrogate_diff \<noteq> 0 then Some leading_surrogate_diff
                    else Some (uint (GetTrailingUtf16Char c1) - uint (GetTrailingUtf16Char c2)))
       | _ \<Rightarrow> None))
   }"
  by pat_completeness auto
termination
  by (relation "measure (\<lambda>(s, t). length s)") (auto dest: GetUtf16FromUtf8_shorter GetUtf16FromUtf8_shorter [OF sym])

text \<open>\<open>utf8++\<close> without a read only moves the pointer: the next read fails if it left the buffer.\<close>

function CountModifiedUtf8Chars :: "cstr \<Rightarrow> nat option" where
  "CountModifiedUtf8Chars s = do {
     (ic, s') \<leftarrow> next_byte s;
     (if ic = 0 then Some 0
      else if ic AND 0x80 = 0 then map_option Suc (CountModifiedUtf8Chars s')
      else if ic AND 0x20 = 0 then map_option Suc (CountModifiedUtf8Chars (drop 1 s'))
      else if ic AND 0x10 = 0 then map_option Suc (CountModifiedUtf8Chars (drop 2 s'))
      else map_option (\<lambda>n. n + 2) (CountModifiedUtf8Chars (drop 3 s')))
   }"
  by pat_completeness auto
termination
  by (relation "measure length") (auto elim!: next_byte.elims)

function ConvertModifiedUtf8ToUtf16 :: "cstr \<Rightarrow> u16 list option" where
  "ConvertModifiedUtf8ToUtf16 s = do {
     (b, _) \<leftarrow> next_byte s;
     (if b = 0 then Some []
      else (case GetUtf16FromUtf8 s of
         None \<Rightarrow> None
       | Some (ch, s') \<Rightarrow>
           map_option (\<lambda>out. GetLeadingUtf16Char ch #
               (if GetTrailingUtf16Char ch \<noteq> 0 then GetTrailingUtf16Char ch # out else out))
             (ConvertModifiedUtf8ToUtf16 s')))
   }"
  by pat_completeness auto
termination
  by (relation "measure length") (auto dest: GetUtf16FromUtf8_shorter)

declare CompareModifiedUtf8ToModifiedUtf8AsUtf16CodePointValues.simps [simp del]
declare CountModifiedUtf8Chars.simps [simp del]
declare ConvertModifiedUtf8ToUtf16.simps [simp del]

definition leading_surrogate :: "u16 \<Rightarrow> bool" where
  "leading_surrogate ch \<longleftrightarrow> 0xd800 \<le> ch \<and> ch \<le> 0xdbff"

definition trailing_surrogate :: "u16 \<Rightarrow> bool" where
  "trailing_surrogate ch \<longleftrightarrow> 0xdc00 \<le> ch \<and> ch \<le> 0xdfff"

text \<open>\<open>(ch << 10) + ch2 - 0x035fdc00\<close>.\<close>

definition surrogate_code_point :: "u16 \<Rightarrow> u16 \<Rightarrow> u32" where
  "surrogate_code_point ch ch2 = push_bit 10 (ucast ch) + ucast ch2 - 0x035fdc00"

fun ConvertUtf16ToModifiedUtf8 :: "u16 list \<Rightarrow> u8 list" where
  "ConvertUtf16ToModifiedUtf8 [] = []"
| "ConvertUtf16ToModifiedUtf8 (ch # rest) =
     (if 0 < ch \<and> ch \<le> 0x7f then ucast ch # ConvertUtf16ToModifiedUtf8 rest
      else case rest of
        ch2 # rest2 \<Rightarrow>
          if leading_surrogate ch \<and> trailing_surrogate ch2
          then (let code_point = surrogate_code_point ch ch2
                in [ucast (drop_bit 18 code_point OR 0xf0),
                    ucast ((drop_bit 12 code_point AND 0x3f) OR 0x80),
                    ucast ((drop_bit 6 code_point AND 0x3f) OR 0x80),
                    ucast ((code_point AND 0x3f) OR 0x80)] @ ConvertUtf16ToModifiedUtf8 rest2)
          else if ch > 0x07ff
          then [ucast (drop_bit 12 ch OR 0xe0), ucast ((drop_bit 6 ch AND 0x3f) OR 0x80),
                ucast ((ch AND 0x3f) OR 0x80)] @ ConvertUtf16ToModifiedUtf8 rest
          else [ucast (drop_bit 6 ch OR 0xc0), ucast ((ch AND 0x3f) OR 0x80)]
               @ ConvertUtf16ToModifiedUtf8 rest
      | [] \<Rightarrow>
          if ch > 0x07ff
          then [ucast (drop_bit 12 ch OR 0xe0), ucast ((drop_bit 6 ch AND 0x3f) OR 0x80),
                ucast ((ch AND 0x3f) OR 0x80)]
          else [ucast (drop_bit 6 ch OR 0xc0), ucast ((ch AND 0x3f) OR 0x80)])"

fun CountUtf8Bytes :: "u16 list \<Rightarrow> nat" where
  "CountUtf8Bytes [] = 0"
| "CountUtf8Bytes (ch # rest) =
     (if 0 < ch \<and> ch \<le> 0x7f then Suc (CountUtf8Bytes rest)
      else if leading_surrogate ch
      then (case rest of
          ch2 # rest2 \<Rightarrow> if trailing_surrogate ch2 then 4 + CountUtf8Bytes rest2
                         else 3 + CountUtf8Bytes rest
        | [] \<Rightarrow> 3)
      else if ch > 0x7ff then 3 + CountUtf8Bytes rest
      else 2 + CountUtf8Bytes rest)"

text \<open>\<open>hash * 31 + *chars++\<close> in 32 bits.\<close>

definition ComputeUtf16Hash :: "u16 list \<Rightarrow> u32" where
  "ComputeUtf16Hash chars = foldl (\<lambda>hash c. hash * 31 + ucast c) 0 chars"

text \<open>\<open>*chars\<close> is a \<open>char\<close>, promoted to \<open>int\<close> before the addition to a \<open>size_t\<close>: with sign where \<open>char\<close>
  is signed (x86), without where it is unsigned (ARM). The sum is truncated to \<open>int32_t\<close> and
  converted back to \<open>size_t\<close>.\<close>

fun ComputeModifiedUtf8Hash_loop :: "bool \<Rightarrow> u64 \<Rightarrow> cstr \<Rightarrow> u64 option" where
  "ComputeModifiedUtf8Hash_loop char_signed hash [] = None"
| "ComputeModifiedUtf8Hash_loop char_signed hash (b # s) =
     (if b = 0 then Some hash
      else ComputeModifiedUtf8Hash_loop char_signed
             (hash * 31 + (if char_signed then scast b else ucast b)) s)"

definition ComputeModifiedUtf8Hash :: "bool \<Rightarrow> cstr \<Rightarrow> u64 option" where
  "ComputeModifiedUtf8Hash char_signed chars =
     map_option (\<lambda>hash. scast (ucast hash :: u32)) (ComputeModifiedUtf8Hash_loop char_signed 0 chars)"

function CompareModifiedUtf8ToUtf16AsCodePointValues :: "cstr \<Rightarrow> u16 list \<Rightarrow> int option" where
  "CompareModifiedUtf8ToUtf16AsCodePointValues utf8 utf16 = do {
     (b, _) \<leftarrow> next_byte utf8;
     (if b = 0 then Some (if utf16 = [] then 0 else -1)
      else (case utf16 of
          [] \<Rightarrow> Some 1
        | rhs # utf16' \<Rightarrow>
            (case GetUtf16FromUtf8 utf8 of
               None \<Rightarrow> None
             | Some (pair, utf8') \<Rightarrow>
                 (let lhs = GetLeadingUtf16Char pair
                  in if lhs \<noteq> rhs then Some (if lhs > rhs then 1 else -1)
                     else (let lhs2 = GetTrailingUtf16Char pair
                           in if lhs2 \<noteq> 0
                              then (case utf16' of
                                  [] \<Rightarrow> Some 1
                                | rhs2 # utf16'' \<Rightarrow>
                                    if lhs2 \<noteq> rhs2 then Some (if lhs2 > rhs2 then 1 else -1)
                                    else CompareModifiedUtf8ToUtf16AsCodePointValues utf8' utf16'')
                              else CompareModifiedUtf8ToUtf16AsCodePointValues utf8' utf16')))))
   }"
  by pat_completeness auto
termination
  by (relation "measure (\<lambda>(s, t). length s)") (auto dest: GetUtf16FromUtf8_shorter GetUtf16FromUtf8_shorter [OF sym])

declare CompareModifiedUtf8ToUtf16AsCodePointValues.simps [simp del]

section \<open>Encoding and decoding one character\<close>

text \<open>The one-, two- or three-byte form of a character, and the four-byte form of a surrogate pair.\<close>

definition char_bytes :: "u16 \<Rightarrow> u8 list" where
  "char_bytes ch =
     (if 0 < ch \<and> ch \<le> 0x7f then [ucast ch]
      else if ch > 0x07ff
      then [ucast (drop_bit 12 ch OR 0xe0), ucast ((drop_bit 6 ch AND 0x3f) OR 0x80),
            ucast ((ch AND 0x3f) OR 0x80)]
      else [ucast (drop_bit 6 ch OR 0xc0), ucast ((ch AND 0x3f) OR 0x80)])"

definition pair_bytes :: "u16 \<Rightarrow> u16 \<Rightarrow> u8 list" where
  "pair_bytes ch ch2 =
     (let code_point = surrogate_code_point ch ch2
      in [ucast (drop_bit 18 code_point OR 0xf0), ucast ((drop_bit 12 code_point AND 0x3f) OR 0x80),
          ucast ((drop_bit 6 code_point AND 0x3f) OR 0x80), ucast ((code_point AND 0x3f) OR 0x80)])"

definition maybe_pair :: "u16 \<Rightarrow> u16 \<Rightarrow> u32" where
  "maybe_pair ch ch2 = ucast ch OR push_bit 16 (ucast ch2)"

lemma bit_u8_masks:
  "bit (0x80 :: u8) n \<longleftrightarrow> n = 7" "bit (0x20 :: u8) n \<longleftrightarrow> n = 5" "bit (0x10 :: u8) n \<longleftrightarrow> n = 4"
  "bit (0x1f :: u8) n \<longleftrightarrow> n < 5" "bit (0x0f :: u8) n \<longleftrightarrow> n < 4" "bit (0x3f :: u8) n \<longleftrightarrow> n < 6"
  "bit (0xe0 :: u8) n \<longleftrightarrow> 5 \<le> n \<and> n < 8" "bit (0xc0 :: u8) n \<longleftrightarrow> 6 \<le> n \<and> n < 8"
  "bit (0xf0 :: u8) n \<longleftrightarrow> 4 \<le> n \<and> n < 8"
proof -
  have e: "(0x80 :: u8) = push_bit 7 (mask 1)" "(0x20 :: u8) = push_bit 5 (mask 1)"
    "(0x10 :: u8) = push_bit 4 (mask 1)" "(0x1f :: u8) = mask 5" "(0x0f :: u8) = mask 4"
    "(0x3f :: u8) = mask 6" "(0xe0 :: u8) = push_bit 5 (mask 3)" "(0xc0 :: u8) = push_bit 6 (mask 2)"
    "(0xf0 :: u8) = push_bit 4 (mask 4)"
    by code_simp+
  show "bit (0x80 :: u8) n \<longleftrightarrow> n = 7" unfolding e by (simp only: bit_push_bit_iff bit_mask_iff) auto
  show "bit (0x20 :: u8) n \<longleftrightarrow> n = 5" unfolding e by (simp only: bit_push_bit_iff bit_mask_iff) auto
  show "bit (0x10 :: u8) n \<longleftrightarrow> n = 4" unfolding e by (simp only: bit_push_bit_iff bit_mask_iff) auto
  show "bit (0x1f :: u8) n \<longleftrightarrow> n < 5" unfolding e by (simp only: bit_push_bit_iff bit_mask_iff) auto
  show "bit (0x0f :: u8) n \<longleftrightarrow> n < 4" unfolding e by (simp only: bit_push_bit_iff bit_mask_iff) auto
  show "bit (0x3f :: u8) n \<longleftrightarrow> n < 6" unfolding e by (simp only: bit_push_bit_iff bit_mask_iff) auto
  show "bit (0xe0 :: u8) n \<longleftrightarrow> 5 \<le> n \<and> n < 8" unfolding e by (simp only: bit_push_bit_iff bit_mask_iff) auto
  show "bit (0xc0 :: u8) n \<longleftrightarrow> 6 \<le> n \<and> n < 8" unfolding e by (simp only: bit_push_bit_iff bit_mask_iff) auto
  show "bit (0xf0 :: u8) n \<longleftrightarrow> 4 \<le> n \<and> n < 8" unfolding e by (simp only: bit_push_bit_iff bit_mask_iff) auto
qed

lemma u8_and_flag:
  fixes x :: u8
  shows "x AND 0x80 = 0 \<longleftrightarrow> \<not> bit x 7" "x AND 0x20 = 0 \<longleftrightarrow> \<not> bit x 5" "x AND 0x10 = 0 \<longleftrightarrow> \<not> bit x 4"
  using and_exp_eq_0_iff_not_bit [of x 7] and_exp_eq_0_iff_not_bit [of x 5]
    and_exp_eq_0_iff_not_bit [of x 4]
  by simp_all

text \<open>The byte forms the encoders write, as bytes with a constant prefix.\<close>

lemma utf8_prefix_bytes:
  "ucast (drop_bit 12 (ch :: u16) OR 0xe0) = ucast (drop_bit 12 ch) OR (0xe0 :: u8)"
  "ucast (drop_bit 6 ch OR 0xc0) = ucast (drop_bit 6 ch) OR (0xc0 :: u8)"
  "ucast ((drop_bit 6 ch AND 0x3f) OR 0x80) = (ucast (drop_bit 6 ch) AND 0x3f) OR (0x80 :: u8)"
  "ucast ((ch AND 0x3f) OR 0x80) = (ucast ch AND 0x3f) OR (0x80 :: u8)"
  "ucast (drop_bit 18 (cp :: u32) OR 0xf0) = ucast (drop_bit 18 cp) OR (0xf0 :: u8)"
  "ucast ((drop_bit 12 cp AND 0x3f) OR 0x80) = (ucast (drop_bit 12 cp) AND 0x3f) OR (0x80 :: u8)"
  "ucast ((drop_bit 6 cp AND 0x3f) OR 0x80) = (ucast (drop_bit 6 cp) AND 0x3f) OR (0x80 :: u8)"
  "ucast ((cp AND 0x3f) OR 0x80) = (ucast cp AND 0x3f) OR (0x80 :: u8)"
  by (simp_all add: unsigned_or_eq unsigned_and_eq)

lemma bit_beyond:
  "8 \<le> n \<Longrightarrow> \<not> bit (x :: u8) n" "16 \<le> n \<Longrightarrow> \<not> bit (y :: u16) n" "32 \<le> n \<Longrightarrow> \<not> bit (z :: u32) n"
  by (auto dest: bit_imp_le_length)

lemma unat_less_bits:
  assumes "unat (w :: 'a::len word) < 2 ^ k" and "k \<le> n"
  shows "\<not> bit w n"
proof
  assume "bit w n"
  then have "bit (unat w) n" by (simp add: bit_unsigned_iff)
  then have "unat w div 2 ^ n \<noteq> 0" by (metis bit_iff_odd even_zero)
  then have "2 ^ n \<le> unat w" by (simp add: div_eq_0_iff)
  moreover have "(2 :: nat) ^ k \<le> 2 ^ n" using assms(2) by (simp add: power_increasing)
  ultimately show False using assms(1) by simp
qed

lemma GetUtf16FromUtf8_two:
  assumes "ch \<le> 0x07ff"
  shows "push_bit 6 (ucast ((ucast (drop_bit 6 ch) OR 0xc0) AND (0x1f :: u8)))
    OR ucast (((ucast ch AND 0x3f) OR 0x80) AND (0x3f :: u8)) = (ucast (ch :: u16) :: u32)"
proof (rule bit_word_eqI)
  fix n assume "n < LENGTH(32)"
  have "unat ch < 2 ^ 11" using assms by (simp add: word_le_nat_alt)
  then have hi: "11 \<le> n \<Longrightarrow> \<not> bit ch n" by (rule unat_less_bits)
  consider "n < 6" | "6 \<le> n" "n < 11" | "11 \<le> n" by linarith
  then show "bit (push_bit 6 (ucast ((ucast (drop_bit 6 ch) OR 0xc0) AND (0x1f :: u8)))
    OR ucast (((ucast ch AND 0x3f) OR 0x80) AND (0x3f :: u8)) :: u32) n = bit (ucast ch :: u32) n"
    by cases (auto simp: bit_simps bit_u8_masks hi simp del: bit_numeral_word_iff)
qed

lemma GetUtf16FromUtf8_three:
  "push_bit 12 (ucast ((ucast (drop_bit 12 ch) OR 0xe0) AND (0x0f :: u8)))
   OR push_bit 6 (ucast (((ucast (drop_bit 6 ch) AND 0x3f) OR 0x80) AND (0x3f :: u8)))
   OR ucast (((ucast ch AND 0x3f) OR 0x80) AND (0x3f :: u8)) = (ucast (ch :: u16) :: u32)"
  (is "?l = ?r")
proof (rule bit_word_eqI)
  fix n assume "n < LENGTH(32)"
  consider "n < 6" | "6 \<le> n" "n < 12" | "12 \<le> n" "n < 16" | "16 \<le> n" by linarith
  then show "bit ?l n = bit ?r n"
    by cases (auto simp: bit_simps bit_u8_masks bit_beyond simp del: bit_numeral_word_iff)
qed

lemma GetUtf16FromUtf8_char:
  "GetUtf16FromUtf8 (char_bytes ch @ s) = Some (ucast ch, s)"
proof -
  consider "0 < ch \<and> ch \<le> 0x7f" | "\<not> (0 < ch \<and> ch \<le> 0x7f)" "ch > 0x07ff"
    | "\<not> (0 < ch \<and> ch \<le> 0x7f)" "\<not> ch > 0x07ff" by blast
  then show ?thesis
  proof cases
    case 1
    then have "unat ch < 2 ^ 7" by (simp add: word_le_nat_alt)
    note hi = unat_less_bits [OF this]
    have "\<not> bit (ucast ch :: u8) 7" using hi [of 7] by (simp add: bit_simps)
    then have "ucast ch AND (0x80 :: u8) = 0" by (simp only: u8_and_flag not_False_eq_True)
    moreover have "ucast (ucast ch :: u8) = (ucast ch :: u32)"
    proof (rule bit_word_eqI)
      fix n assume "n < LENGTH(32)"
      then show "bit (ucast (ucast ch :: u8) :: u32) n = bit (ucast ch :: u32) n"
        using hi [of n] by (cases "n < 8") (auto simp: bit_simps)
    qed
    ultimately show ?thesis
      using 1 by (simp add: char_bytes_def GetUtf16FromUtf8_def)
  next
    case 2
    have "bit (ucast (drop_bit 12 ch) OR (0xe0 :: u8)) 7" "bit (ucast (drop_bit 12 ch) OR (0xe0 :: u8)) 5"
      "\<not> bit (ucast (drop_bit 12 ch) OR (0xe0 :: u8)) 4"
      by (simp_all add: bit_simps bit_u8_masks bit_beyond del: bit_numeral_word_iff)
    moreover from 2 have "char_bytes ch = [ucast (drop_bit 12 ch OR 0xe0),
        ucast ((drop_bit 6 ch AND 0x3f) OR 0x80), ucast ((ch AND 0x3f) OR 0x80)]"
      by (simp only: char_bytes_def if_False if_True)
    ultimately show ?thesis
      by (simp add: GetUtf16FromUtf8_def u8_and_flag utf8_prefix_bytes GetUtf16FromUtf8_three)
  next
    case 3
    then have "unat ch < 2 ^ 11" by (simp add: word_less_nat_alt)
    then have hi: "\<not> bit ch 11" by (rule unat_less_bits) simp
    have "bit (ucast (drop_bit 6 ch) OR (0xc0 :: u8)) 7" "\<not> bit (ucast (drop_bit 6 ch) OR (0xc0 :: u8)) 5"
      using hi by (simp_all add: bit_simps bit_u8_masks del: bit_numeral_word_iff)
    moreover from 3 have "char_bytes ch = [ucast (drop_bit 6 ch OR 0xc0), ucast ((ch AND 0x3f) OR 0x80)]"
      by (simp only: char_bytes_def if_False)
    moreover from 3 have "ch \<le> 0x07ff" by simp
    ultimately show ?thesis
      by (simp add: GetUtf16FromUtf8_def u8_and_flag utf8_prefix_bytes GetUtf16FromUtf8_two)
  qed
qed

lemma surrogate_code_point_parts:
  assumes "leading_surrogate ch" and "trailing_surrogate ch2"
  shows "drop_bit 10 (surrogate_code_point ch ch2) + 0xd7c0 = ucast ch"
    and "(surrogate_code_point ch ch2 AND 0x03ff) + 0xdc00 = ucast ch2"
    and "unat (surrogate_code_point ch ch2) < 2 ^ 21"
proof -
  define u v where "u = (ucast ch - 0xd7c0 :: u32)" and "v = (ucast ch2 - 0xdc00 :: u32)"
  have ch: "0xd800 \<le> unat ch" "unat ch \<le> 0xdbff" and ch2: "0xdc00 \<le> unat ch2" "unat ch2 \<le> 0xdfff"
    using assms by (simp_all add: leading_surrogate_def trailing_surrogate_def word_le_nat_alt)
  have cp: "surrogate_code_point ch ch2 = u * 1024 + v"
    by (simp add: surrogate_code_point_def u_def v_def push_bit_eq_mult algebra_simps)
  have u: "unat u = unat ch - 0xd7c0"
    unfolding u_def using ch by (subst unat_sub) (simp_all add: word_le_nat_alt)
  have v: "unat v = unat ch2 - 0xdc00"
    unfolding v_def using ch2 by (subst unat_sub) (simp_all add: word_le_nat_alt)
  have ub: "unat u < 1088" "unat v < 1024" using u v ch ch2 by simp_all
  have n: "unat (surrogate_code_point ch ch2) = unat u * 1024 + unat v"
    unfolding cp using ub by (simp add: unat_word_ariths)
  have "unat (drop_bit 10 (surrogate_code_point ch ch2)) = unat u"
    by (simp only: unat_drop_bit_eq, simp only: drop_bit_eq_div n) (use ub in simp)
  then have d: "drop_bit 10 (surrogate_code_point ch ch2) = u" by (simp only: word_unat_eq_iff)
  then show "drop_bit 10 (surrogate_code_point ch ch2) + 0xd7c0 = ucast ch"
    by (simp add: u_def)
  have "surrogate_code_point ch ch2 AND 0x03ff = take_bit 10 (surrogate_code_point ch ch2)"
    by (simp add: take_bit_eq_mask mask_eq_exp_minus_1)
  then have "unat (surrogate_code_point ch ch2 AND 0x03ff) = take_bit 10 (unat (surrogate_code_point ch ch2))"
    by (simp only: unsigned_take_bit_eq)
  also have "\<dots> = unat v" using ub by (simp add: n take_bit_eq_mod)
  finally have "surrogate_code_point ch ch2 AND 0x03ff = v" by (simp only: word_unat_eq_iff)
  then show "(surrogate_code_point ch ch2 AND 0x03ff) + 0xdc00 = ucast ch2"
    by (simp add: v_def)
  show "unat (surrogate_code_point ch ch2) < 2 ^ 21" using n ub by simp
qed

lemma GetUtf16FromUtf8_four:
  fixes cp :: u32
  assumes "unat cp < 2 ^ 21"
  shows "push_bit 18 (ucast ((ucast (drop_bit 18 cp) OR 0xf0) AND (0x0f :: u8)))
   OR push_bit 12 (ucast (((ucast (drop_bit 12 cp) AND 0x3f) OR 0x80) AND (0x3f :: u8)))
   OR push_bit 6 (ucast (((ucast (drop_bit 6 cp) AND 0x3f) OR 0x80) AND (0x3f :: u8)))
   OR ucast (((ucast cp AND 0x3f) OR 0x80) AND (0x3f :: u8)) = cp"
  (is "?l = ?r")
proof (rule bit_word_eqI)
  fix n assume "n < LENGTH(32)"
  note hi = unat_less_bits [OF assms]
  consider "n < 6" | "6 \<le> n" "n < 12" | "12 \<le> n" "n < 18" | "18 \<le> n" "n < 21" | "n = 21" | "22 \<le> n"
    by linarith
  then show "bit ?l n = bit ?r n"
    by cases (auto simp: bit_simps bit_u8_masks bit_beyond hi simp del: bit_numeral_word_iff)
qed

lemma GetUtf16FromUtf8_pair:
  assumes "leading_surrogate ch" and "trailing_surrogate ch2"
  shows "GetUtf16FromUtf8 (pair_bytes ch ch2 @ s) = Some (maybe_pair ch ch2, s)"
proof -
  let ?cp = "surrogate_code_point ch ch2"
  note parts = surrogate_code_point_parts [OF assms]
  have "bit (ucast (drop_bit 18 ?cp) OR (0xf0 :: u8)) k" if "k \<in> {4, 5, 7}" for k
    using that by (auto simp: bit_simps bit_u8_masks simp del: bit_numeral_word_iff)
  note flags = this [of 4] this [of 5] this [of 7]
  have "ucast ch AND 0xffff = (ucast ch :: u32)"
  proof (rule bit_word_eqI)
    fix n assume "n < LENGTH(32)"
    have "bit (0xffff :: u32) n \<longleftrightarrow> n < 16"
      using bit_mask_iff [of 16 n, where ?'a = u32] by (auto simp: mask_eq_exp_minus_1)
    then show "bit (ucast ch AND 0xffff :: u32) n = bit (ucast ch :: u32) n"
      by (auto simp: bit_simps bit_beyond simp del: bit_numeral_word_iff dest: bit_imp_le_length)
  qed
  with flags show ?thesis
    by (simp add: pair_bytes_def GetUtf16FromUtf8_def u8_and_flag utf8_prefix_bytes Let_def
        GetUtf16FromUtf8_four [OF parts(3)] parts maybe_pair_def del: drop_bit_or)
qed

section \<open>Strings as sequences of tokens\<close>

text \<open>A UTF-16 string is a sequence of tokens: a properly paired surrogate pair, or a single character
  (with 0 for the missing second half).\<close>

fun tokens :: "u16 list \<Rightarrow> (u16 \<times> u16) list" where
  "tokens [] = []"
| "tokens [c] = [(c, 0)]"
| "tokens (c # d # r) =
     (if leading_surrogate c \<and> trailing_surrogate d then (c, d) # tokens r
      else (c, 0) # tokens (d # r))"

definition token_ok :: "u16 \<times> u16 \<Rightarrow> bool" where
  "token_ok = (\<lambda>(c, d). d = 0 \<or> (leading_surrogate c \<and> trailing_surrogate d))"

definition token_bytes :: "u16 \<times> u16 \<Rightarrow> u8 list" where
  "token_bytes = (\<lambda>(c, d). if d = 0 then char_bytes c else pair_bytes c d)"

definition token_chars :: "u16 \<times> u16 \<Rightarrow> u16 list" where
  "token_chars = (\<lambda>(c, d). if d = 0 then [c] else [c, d])"

lemma trailing_surrogate_nonzero: "trailing_surrogate d \<Longrightarrow> d \<noteq> 0"
  by (auto simp: trailing_surrogate_def)

lemma leading_surrogate_large: "leading_surrogate c \<Longrightarrow> \<not> (0 < c \<and> c \<le> 0x7f)" "leading_surrogate c \<Longrightarrow> 0x7ff < c"
  by (auto simp: leading_surrogate_def word_less_nat_alt word_le_nat_alt)

lemma tokens_ok: "list_all token_ok (tokens cs)"
  by (induction cs rule: tokens.induct) (auto simp: token_ok_def)

lemma token_chars_tokens: "concat (map token_chars (tokens cs)) = cs"
  by (induction cs rule: tokens.induct) (auto simp: token_chars_def trailing_surrogate_nonzero)

lemma ConvertUtf16ToModifiedUtf8_Cons:
  "ConvertUtf16ToModifiedUtf8 (ch # rest) =
     (case rest of
        [] \<Rightarrow> char_bytes ch
      | ch2 # rest2 \<Rightarrow>
          if leading_surrogate ch \<and> trailing_surrogate ch2
          then pair_bytes ch ch2 @ ConvertUtf16ToModifiedUtf8 rest2
          else char_bytes ch @ ConvertUtf16ToModifiedUtf8 rest)"
proof (cases rest)
  case Nil
  then show ?thesis by (simp add: char_bytes_def)
next
  case (Cons ch2 rest2)
  have "ConvertUtf16ToModifiedUtf8 (ch # ch2 # rest2) =
    (if leading_surrogate ch \<and> trailing_surrogate ch2
     then pair_bytes ch ch2 @ ConvertUtf16ToModifiedUtf8 rest2
     else char_bytes ch @ ConvertUtf16ToModifiedUtf8 (ch2 # rest2))"
    using leading_surrogate_large [of ch]
    by (subst ConvertUtf16ToModifiedUtf8.simps(2))
      (auto simp: char_bytes_def pair_bytes_def Let_def simp del: ConvertUtf16ToModifiedUtf8.simps(2))
  then show ?thesis by (simp add: Cons del: ConvertUtf16ToModifiedUtf8.simps(2))
qed

lemma ConvertUtf16ToModifiedUtf8_tokens:
  "ConvertUtf16ToModifiedUtf8 cs = concat (map token_bytes (tokens cs))"
  by (induction cs rule: tokens.induct)
    (simp_all add: ConvertUtf16ToModifiedUtf8_Cons token_bytes_def trailing_surrogate_nonzero
      del: ConvertUtf16ToModifiedUtf8.simps(2))

lemma CountUtf8Bytes_tokens: "CountUtf8Bytes cs = length (concat (map token_bytes (tokens cs)))"
  by (induction cs rule: tokens.induct)
    (auto simp: token_bytes_def char_bytes_def pair_bytes_def Let_def trailing_surrogate_nonzero
      dest: leading_surrogate_large)

lemma maybe_pair_parts [simp]:
  "GetLeadingUtf16Char (maybe_pair c d) = c" "GetTrailingUtf16Char (maybe_pair c d) = d"
proof -
  have m: "bit (0xffff :: u32) n \<longleftrightarrow> n < 16" for n
    using bit_mask_iff [of 16 n, where ?'a = u32] by (auto simp: mask_eq_exp_minus_1)
  show "GetLeadingUtf16Char (maybe_pair c d) = c"
    by (rule bit_word_eqI)
      (auto simp: GetLeadingUtf16Char_def maybe_pair_def bit_simps m simp del: bit_numeral_word_iff)
  show "GetTrailingUtf16Char (maybe_pair c d) = d"
    by (rule bit_word_eqI)
      (auto simp: GetTrailingUtf16Char_def maybe_pair_def bit_simps bit_beyond)
qed

lemma maybe_pair_inject: "maybe_pair c d = maybe_pair c' d' \<longleftrightarrow> c = c' \<and> d = d'"
  using maybe_pair_parts by metis

lemma GetUtf16FromUtf8_token:
  "token_ok t \<Longrightarrow> GetUtf16FromUtf8 (token_bytes t @ s) = Some (maybe_pair (fst t) (snd t), s)"
  by (auto simp: token_ok_def token_bytes_def GetUtf16FromUtf8_char GetUtf16FromUtf8_pair
      maybe_pair_def trailing_surrogate_nonzero)

lemma u8_nonzeroI: "bit (b :: u8) k \<Longrightarrow> b \<noteq> 0"
  by auto

lemma char_bytes_shape:
  obtains b where "char_bytes ch = [b]" "b \<noteq> 0" "b AND 0x80 = 0"
  | b b2 where "char_bytes ch = [b, b2]" "b \<noteq> 0" "b2 \<noteq> 0" "b AND 0x80 \<noteq> 0" "b AND 0x20 = 0"
  | b b2 b3 where "char_bytes ch = [b, b2, b3]" "b \<noteq> 0" "b2 \<noteq> 0" "b3 \<noteq> 0"
      "b AND 0x80 \<noteq> 0" "b AND 0x20 \<noteq> 0" "b AND 0x10 = 0"
proof -
  have cont: "bit ((x AND 0x3f) OR (0x80 :: u8)) 7" for x
    by (simp add: bit_simps bit_u8_masks del: bit_numeral_word_iff)
  consider "0 < ch \<and> ch \<le> 0x7f" | "\<not> (0 < ch \<and> ch \<le> 0x7f)" "ch > 0x07ff"
    | "\<not> (0 < ch \<and> ch \<le> 0x7f)" "\<not> ch > 0x07ff" by blast
  then show ?thesis
  proof cases
    case 1
    then have lt: "unat ch < 2 ^ 7" "unat ch \<noteq> 0" by (auto simp: word_le_nat_alt word_less_nat_alt)
    then have "unat (ucast ch :: u8) = unat ch" by (simp add: unsigned_ucast_eq take_bit_nat_eq_self)
    with lt have "ucast ch \<noteq> (0 :: u8)" by auto
    moreover have "ucast ch AND (0x80 :: u8) = 0"
      using unat_less_bits [OF lt(1), of 7] by (simp add: u8_and_flag(1) bit_simps)
    ultimately show ?thesis using 1 that(1) by (simp add: char_bytes_def)
  next
    case 2
    have f: "bit (ucast (drop_bit 12 ch) OR (0xe0 :: u8)) 7" "bit (ucast (drop_bit 12 ch) OR (0xe0 :: u8)) 5"
      "\<not> bit (ucast (drop_bit 12 ch) OR (0xe0 :: u8)) 4"
      by (simp_all add: bit_simps bit_u8_masks bit_beyond del: bit_numeral_word_iff)
    moreover from 2 have "char_bytes ch = [ucast (drop_bit 12 ch) OR 0xe0,
        (ucast (drop_bit 6 ch) AND 0x3f) OR 0x80, (ucast ch AND 0x3f) OR 0x80]"
      by (simp only: char_bytes_def if_False if_True utf8_prefix_bytes)
    ultimately show ?thesis
      using that(3) cont [THEN u8_nonzeroI] u8_nonzeroI [OF f(1)] by (simp add: u8_and_flag)
  next
    case 3
    then have "unat ch < 2 ^ 11" by (simp add: word_less_nat_alt)
    then have "\<not> bit ch 11" by (rule unat_less_bits) simp
    then have f: "bit (ucast (drop_bit 6 ch) OR (0xc0 :: u8)) 7" "\<not> bit (ucast (drop_bit 6 ch) OR (0xc0 :: u8)) 5"
      by (simp_all add: bit_simps bit_u8_masks del: bit_numeral_word_iff)
    moreover from 3 have "char_bytes ch = [ucast (drop_bit 6 ch) OR 0xc0, (ucast ch AND 0x3f) OR 0x80]"
      by (simp only: char_bytes_def if_False utf8_prefix_bytes)
    ultimately show ?thesis
      using that(2) cont [THEN u8_nonzeroI] u8_nonzeroI [OF f(1)] by (simp add: u8_and_flag)
  qed
qed

lemma pair_bytes_shape:
  obtains b b2 b3 b4 where "pair_bytes c d = [b, b2, b3, b4]" "b \<noteq> 0" "b2 \<noteq> 0" "b3 \<noteq> 0" "b4 \<noteq> 0"
    "b AND 0x80 \<noteq> 0" "b AND 0x20 \<noteq> 0" "b AND 0x10 \<noteq> 0"
proof -
  have cont: "bit ((x AND 0x3f) OR (0x80 :: u8)) 7" and first: "k \<in> {4, 5, 7} \<Longrightarrow> bit (x OR (0xf0 :: u8)) k"
    for x k
    by (auto simp: bit_simps bit_u8_masks simp del: bit_numeral_word_iff)
  show ?thesis
    using that cont [THEN u8_nonzeroI] u8_nonzeroI [OF first [of 7]] first [of 4] first [of 5] first [of 7]
    by (simp add: pair_bytes_def Let_def utf8_prefix_bytes u8_and_flag)
qed

lemma token_bytes_next:
  obtains b bs where "token_bytes t = b # bs" "b \<noteq> 0" "0 \<notin> set bs"
proof (cases "snd t = 0")
  case True
  then have "token_bytes t = char_bytes (fst t)" by (simp add: token_bytes_def case_prod_beta)
  then show ?thesis using that by (cases rule: char_bytes_shape [of "fst t"]) auto
next
  case False
  then have "token_bytes t = pair_bytes (fst t) (snd t)" by (simp add: token_bytes_def case_prod_beta)
  then show ?thesis using that by (cases rule: pair_bytes_shape [of "fst t" "snd t"]) auto
qed

lemma CountModifiedUtf8Chars_token:
  "CountModifiedUtf8Chars (token_bytes t @ s) =
     map_option (\<lambda>n. length (token_chars t) + n) (CountModifiedUtf8Chars s)"
proof (cases "snd t = 0")
  case True
  then have t: "token_bytes t = char_bytes (fst t)" "length (token_chars t) = 1"
    by (simp_all add: token_bytes_def token_chars_def case_prod_beta)
  show ?thesis
    unfolding t
    by (rule char_bytes_shape [of "fst t"];
        subst CountModifiedUtf8Chars.simps; cases "CountModifiedUtf8Chars s"; simp)
next
  case False
  then have t: "token_bytes t = pair_bytes (fst t) (snd t)" "length (token_chars t) = 2"
    by (simp_all add: token_bytes_def token_chars_def case_prod_beta)
  show ?thesis
    unfolding t
    by (rule pair_bytes_shape [of "fst t" "snd t"]; subst CountModifiedUtf8Chars.simps;
        cases "CountModifiedUtf8Chars s"; simp)
qed


section \<open>Round trip and comparison\<close>

text \<open>The reference order: UTF-16 strings compared character by character.\<close>

fun lex_cmp :: "'a::linorder list \<Rightarrow> 'a list \<Rightarrow> int" where
  "lex_cmp [] [] = 0"
| "lex_cmp [] (y # ys) = -1"
| "lex_cmp (x # xs) [] = 1"
| "lex_cmp (x # xs) (y # ys) = (if x < y then -1 else if y < x then 1 else lex_cmp xs ys)"

abbreviation token_string :: "(u16 \<times> u16) list \<Rightarrow> u8 list" where
  "token_string ts \<equiv> concat (map token_bytes ts)"

lemma next_byte_token_string:
  "next_byte (token_string ts @ 0 # s) =
     (case ts of [] \<Rightarrow> Some (0, s)
      | t # ts' \<Rightarrow> Some (hd (token_bytes t), tl (token_bytes t) @ token_string ts' @ 0 # s))"
proof (cases ts)
  case (Cons t ts')
  show ?thesis by (rule token_bytes_next [of t]) (simp add: Cons)
qed simp

lemma token_chars_eq: "token_chars t = (if snd t = 0 then [fst t] else [fst t, snd t])"
  by (simp add: token_chars_def case_prod_beta)

lemma hd_token_bytes_nonzero [simp]: "hd (token_bytes t) \<noteq> 0" "0 \<noteq> hd (token_bytes t)"
  by (rule token_bytes_next [of t]; simp)+

lemma token_string_nonzero: "0 \<notin> set (token_string ts)"
proof -
  have "0 \<notin> set (token_bytes t)" for t
    by (rule token_bytes_next [of t]) auto
  then show ?thesis by auto
qed

lemma ConvertModifiedUtf8ToUtf16_tokens:
  "list_all token_ok ts \<Longrightarrow>
     ConvertModifiedUtf8ToUtf16 (token_string ts @ 0 # s) = Some (concat (map token_chars ts))"
proof (induction ts)
  case Nil
  then show ?case by (subst ConvertModifiedUtf8ToUtf16.simps) simp
next
  case (Cons t ts)
  then show ?case
    using next_byte_token_string [of "t # ts" s] GetUtf16FromUtf8_token [of t "token_string ts @ 0 # s"]
    by (subst ConvertModifiedUtf8ToUtf16.simps) (simp add: token_chars_eq [of t])
qed

lemma CountModifiedUtf8Chars_tokens:
  "CountModifiedUtf8Chars (token_string ts @ 0 # s) = Some (length (concat (map token_chars ts)))"
proof (induction ts)
  case Nil
  then show ?case by (subst CountModifiedUtf8Chars.simps) simp
next
  case (Cons t ts)
  then show ?case using CountModifiedUtf8Chars_token [of t "token_string ts @ 0 # s"] by simp
qed

lemma CompareModifiedUtf8ToUtf16_tokens:
  "list_all token_ok ts \<Longrightarrow>
     CompareModifiedUtf8ToUtf16AsCodePointValues (token_string ts @ 0 # s) b =
       Some (lex_cmp (concat (map token_chars ts)) b)"
proof (induction ts arbitrary: b)
  case Nil
  then show ?case
    by (subst CompareModifiedUtf8ToUtf16AsCodePointValues.simps) (cases b; simp)
next
  case (Cons t ts)
  note step = next_byte_token_string [of "t # ts" s]
    GetUtf16FromUtf8_token [of t "token_string ts @ 0 # s"]
  show ?case
    by (subst CompareModifiedUtf8ToUtf16AsCodePointValues.simps)
      (use Cons step in \<open>auto simp: Let_def token_chars_eq [of t] split: list.splits\<close>)
qed

text \<open>
  Claim C37. UTF-16 text survives the trip through modified UTF-8: for every sequence of characters,
  unpaired surrogates and NULs included, \<open>ConvertUtf16ToModifiedUtf8\<close> writes exactly
  \<open>CountUtf8Bytes\<close> bytes, none of them 0, and after the terminator is appended
  \<open>CountModifiedUtf8Chars\<close> counts the characters and \<open>ConvertModifiedUtf8ToUtf16\<close> returns them.
\<close>

theorem utf16_modified_utf8_roundtrip:
  "length (ConvertUtf16ToModifiedUtf8 cs) = CountUtf8Bytes cs
   \<and> 0 \<notin> set (ConvertUtf16ToModifiedUtf8 cs)
   \<and> CountModifiedUtf8Chars (ConvertUtf16ToModifiedUtf8 cs @ 0 # s) = Some (length cs)
   \<and> ConvertModifiedUtf8ToUtf16 (ConvertUtf16ToModifiedUtf8 cs @ 0 # s) = Some cs"
  using ConvertModifiedUtf8ToUtf16_tokens [OF tokens_ok, of cs s]
    CountModifiedUtf8Chars_tokens [of "tokens cs" s] token_string_nonzero [of "tokens cs"]
  by (simp add: ConvertUtf16ToModifiedUtf8_tokens CountUtf8Bytes_tokens token_chars_tokens)

text \<open>
  Claim C38. \<open>CompareModifiedUtf8ToUtf16AsCodePointValues\<close> on the encoding of a string and a UTF-16
  string is the character-by-character lexicographic comparison of the two strings.
\<close>

theorem compare_utf8_to_utf16_lexicographic:
  "CompareModifiedUtf8ToUtf16AsCodePointValues (ConvertUtf16ToModifiedUtf8 a @ 0 # s) b
     = Some (lex_cmp a b)"
  using CompareModifiedUtf8ToUtf16_tokens [OF tokens_ok, of a s b]
  by (simp add: ConvertUtf16ToModifiedUtf8_tokens token_chars_tokens)


text \<open>Tokens ordered by their first, then their second half.\<close>

definition token_key :: "u16 \<times> u16 \<Rightarrow> int" where
  "token_key t = uint (fst t) * 65536 + uint (snd t)"

lemma uint_u16_bounds: "0 \<le> uint (x :: u16)" "uint (x :: u16) < 65536"
  using uint_lt2p [of x] by simp_all

lemma radix_less:
  fixes a b c d :: int
  assumes "0 \<le> c" "c < 65536" "0 \<le> d" "d < 65536"
  shows "a * 65536 + c < b * 65536 + d \<longleftrightarrow> a < b \<or> (a = b \<and> c < d)"
  using assms by (cases a b rule: linorder_cases) linarith+

lemma token_key_less:
  "token_key t < token_key u \<longleftrightarrow> fst t < fst u \<or> (fst t = fst u \<and> snd t < snd u)"
  unfolding token_key_def radix_less [OF uint_u16_bounds uint_u16_bounds]
  by (simp add: word_less_def word_uint_eq_iff)

lemma token_diff_sign:
  assumes "t \<noteq> u"
  shows "sgn (if uint (fst t) - uint (fst u) \<noteq> 0 then uint (fst t) - uint (fst u)
      else uint (snd t) - uint (snd u)) = (if token_key t < token_key u then -1 else 1)"
  using assms by (cases t; cases u) (auto simp: token_key_less word_less_def word_uint_eq_iff sgn_if)

lemma token_key_inject: "token_key t = token_key u \<longleftrightarrow> t = u"
  using token_key_less [of t u] token_key_less [of u t]
  by (cases t; cases u) (auto dest: antisym_conv3)

lemma CompareModifiedUtf8ToModifiedUtf8_tokens:
  "list_all token_ok ts \<Longrightarrow> list_all token_ok us \<Longrightarrow>
     \<exists>r. CompareModifiedUtf8ToModifiedUtf8AsUtf16CodePointValues
           (token_string ts @ 0 # s) (token_string us @ 0 # s') = Some r
       \<and> sgn r = lex_cmp (map token_key ts) (map token_key us)"
proof (induction ts arbitrary: us)
  case Nil
  show ?case
    using next_byte_token_string [of us s']
    by (subst CompareModifiedUtf8ToModifiedUtf8AsUtf16CodePointValues.simps) (cases us; simp)
next
  case (Cons t ts)
  show ?case
  proof (cases us)
    case Nil
    then show ?thesis
      using next_byte_token_string [of "t # ts" s]
      by (subst CompareModifiedUtf8ToModifiedUtf8AsUtf16CodePointValues.simps) simp
  next
    case us: (Cons u us')
    note step = next_byte_token_string [of "t # ts" s] next_byte_token_string [of "u # us'" s']
      GetUtf16FromUtf8_token [of t "token_string ts @ 0 # s"]
      GetUtf16FromUtf8_token [of u "token_string us' @ 0 # s'"]
    show ?thesis
    proof (cases "t = u")
      case True
      then show ?thesis
        using Cons step us
        by (subst CompareModifiedUtf8ToModifiedUtf8AsUtf16CodePointValues.simps) simp
    next
      case False
      then have "maybe_pair (fst t) (snd t) \<noteq> maybe_pair (fst u) (snd u)"
        by (simp add: maybe_pair_inject prod_eq_iff)
      then show ?thesis
        using Cons.prems step us token_diff_sign [OF False] token_key_inject [of t u] False
        by (subst CompareModifiedUtf8ToModifiedUtf8AsUtf16CodePointValues.simps)
          (simp add: Let_def split: if_splits)
    qed
  qed
qed

lemma lex_cmp_eq_0_iff: "lex_cmp xs ys = 0 \<longleftrightarrow> xs = ys"
  by (induction xs ys rule: lex_cmp.induct) auto

lemma tokens_inject: "tokens a = tokens b \<longleftrightarrow> a = b"
  using token_chars_tokens [of a] token_chars_tokens [of b] by metis

text \<open>No leading surrogate without its trailing half.\<close>

definition token_paired :: "u16 \<times> u16 \<Rightarrow> bool" where
  "token_paired t \<longleftrightarrow> snd t \<noteq> 0 \<or> \<not> leading_surrogate (fst t)"

definition well_paired :: "u16 list \<Rightarrow> bool" where
  "well_paired cs \<longleftrightarrow> list_all token_paired (tokens cs)"

lemma token_key_chars:
  assumes "token_ok t" "token_ok u" "token_paired t" "token_paired u" "t \<noteq> u"
  shows "(if token_key t < token_key u then -1 else 1 :: int)
    = lex_cmp (token_chars t @ xs) (token_chars u @ ys)"
  using assms
  by (cases t; cases u)
    (auto simp: token_key_less token_chars_eq token_ok_def token_paired_def not_less_iff_gr_or_eq)

lemma lex_cmp_append: "lex_cmp (xs @ ys) (xs @ zs) = lex_cmp ys zs"
  by (induction xs) auto

lemma lex_cmp_token_keys:
  "list_all token_ok ts \<Longrightarrow> list_all token_ok us \<Longrightarrow> list_all token_paired ts \<Longrightarrow>
   list_all token_paired us \<Longrightarrow>
     lex_cmp (map token_key ts) (map token_key us) =
       lex_cmp (concat (map token_chars ts)) (concat (map token_chars us))"
proof (induction ts us rule: list_induct2')
  case (4 t ts u us)
  show ?case
  proof (cases "t = u")
    case True
    with 4 show ?thesis by (simp add: lex_cmp_append token_key_inject)
  next
    case False
    with 4 token_key_chars [of t u "concat (map token_chars ts)" "concat (map token_chars us)"]
    show ?thesis by (simp add: token_key_inject not_less_iff_gr_or_eq split: if_splits)
  qed
qed (auto simp: token_chars_eq)

text \<open>
  Claim C39. \<open>CompareModifiedUtf8ToModifiedUtf8AsUtf16CodePointValues\<close>, the order of the string ids of
  a DEX file, is a total comparison of the encoded strings: it returns 0 exactly for equal strings,
  and for strings without an unpaired leading surrogate its sign is that of the
  character-by-character lexicographic comparison.
\<close>

theorem compare_modified_utf8_order:
  "\<exists>r. CompareModifiedUtf8ToModifiedUtf8AsUtf16CodePointValues
         (ConvertUtf16ToModifiedUtf8 a @ 0 # s) (ConvertUtf16ToModifiedUtf8 b @ 0 # s') = Some r
     \<and> (r = 0 \<longleftrightarrow> a = b)
     \<and> sgn r = lex_cmp (map token_key (tokens a)) (map token_key (tokens b))
     \<and> (well_paired a \<and> well_paired b \<longrightarrow> sgn r = lex_cmp a b)"
proof -
  obtain r where r: "CompareModifiedUtf8ToModifiedUtf8AsUtf16CodePointValues
         (ConvertUtf16ToModifiedUtf8 a @ 0 # s) (ConvertUtf16ToModifiedUtf8 b @ 0 # s') = Some r"
    and sgn: "sgn r = lex_cmp (map token_key (tokens a)) (map token_key (tokens b))"
    using CompareModifiedUtf8ToModifiedUtf8_tokens [OF tokens_ok tokens_ok, of a s b s']
    by (auto simp: ConvertUtf16ToModifiedUtf8_tokens)
  have "r = 0 \<longleftrightarrow> sgn r = 0" by (simp add: sgn_0_0)
  also have "\<dots> \<longleftrightarrow> a = b"
    unfolding sgn lex_cmp_eq_0_iff
    by (subst inj_map_eq_map) (auto simp: inj_def token_key_inject tokens_inject)
  finally have zero: "r = 0 \<longleftrightarrow> a = b" .
  have "sgn r = lex_cmp a b" if "well_paired a \<and> well_paired b"
    using that lex_cmp_token_keys [OF tokens_ok tokens_ok, of a b]
    by (simp add: sgn well_paired_def token_chars_tokens)
  with r sgn zero show ?thesis by blast
qed

theorem compare_modified_utf8_order_witness:
  "\<exists>r. CompareModifiedUtf8ToModifiedUtf8AsUtf16CodePointValues
         (ConvertUtf16ToModifiedUtf8 [0x4c, 0xd801, 0xdc37] @ [0])
         (ConvertUtf16ToModifiedUtf8 [0x4c, 0xff21] @ [0]) = Some r \<and> sgn r = -1"
proof -
  have "well_paired [0x4c, 0xd801, 0xdc37]" "well_paired [0x4c, 0xff21]"
    "lex_cmp [0x4c, 0xd801, 0xdc37 :: u16] [0x4c, 0xff21] = -1"
    by code_simp+
  with compare_modified_utf8_order [of "[0x4c, 0xd801, 0xdc37]" "[]" "[0x4c, 0xff21]" "[]"]
  show ?thesis by metis
qed

text \<open>
  With an unpaired leading surrogate the two comparison functions disagree: comparing the
  encodings of \<open>D800 DC00\<close> and \<open>D800 FFFF\<close>, the modified-UTF-8 comparison puts the first string after
  the second, the comparison with UTF-16 puts it before, as the lexicographic order does.
\<close>

theorem comparisons_disagree_on_unpaired:
  "CompareModifiedUtf8ToModifiedUtf8AsUtf16CodePointValues
     (ConvertUtf16ToModifiedUtf8 [0xd800, 0xdc00] @ [0])
     (ConvertUtf16ToModifiedUtf8 [0xd800, 0xffff] @ [0]) = Some 0xdc00
   \<and> CompareModifiedUtf8ToUtf16AsCodePointValues
     (ConvertUtf16ToModifiedUtf8 [0xd800, 0xdc00] @ [0]) [0xd800, 0xffff] = Some (-1)"
proof -
  have m: "CompareModifiedUtf8ToModifiedUtf8AsUtf16CodePointValues
     [0xf0, 0x90, 0x80, 0x80, 0] [0xed, 0xa0, 0x80, 0xef, 0xbf, 0xbf, 0] = Some 0xdc00"
    by code_simp
  have c: "ConvertUtf16ToModifiedUtf8 [0xd800, 0xdc00] = [0xf0, 0x90, 0x80, 0x80]"
    "ConvertUtf16ToModifiedUtf8 [0xd800, 0xffff] = [0xed, 0xa0, 0x80, 0xef, 0xbf, 0xbf]"
    by code_simp+
  have "CompareModifiedUtf8ToUtf16AsCodePointValues [0xf0, 0x90, 0x80, 0x80, 0] [0xd800, 0xffff] = Some (-1)"
    by code_simp
  with m show ?thesis by (simp only: c append.simps conj_absorb simp_thms)
qed

lemma hash_poly_snoc:
  fixes f :: "nat \<Rightarrow> int"
  shows "(\<Sum>i<n. f i * 31 ^ (n - i)) = 31 * (\<Sum>i<n. f i * 31 ^ (n - 1 - i))"
proof -
  have "f i * 31 ^ (n - i) = 31 * (f i * 31 ^ (n - 1 - i))" if "i < n" for i
  proof -
    from that have "n - i = Suc (n - 1 - i)" by simp
    then show ?thesis by simp
  qed
  then have "(\<Sum>i<n. f i * 31 ^ (n - i)) = (\<Sum>i<n. 31 * (f i * 31 ^ (n - 1 - i)))"
    by (intro sum.cong) simp_all
  then show ?thesis by (simp only: sum_distrib_left)
qed

text \<open>
  The 32-bit hash of a UTF-16 string is the polynomial \<open>s[0]*31^(n-1) + ... + s[n-1]\<close> of
  \<open>java.lang.String.hashCode\<close>, modulo \<open>2^32\<close>.
\<close>

theorem compute_utf16_hash_polynomial:
  "uint (ComputeUtf16Hash cs) = (\<Sum>i<length cs. uint (cs ! i) * 31 ^ (length cs - 1 - i)) mod 2 ^ 32"
proof (induction cs rule: rev_induct)
  case Nil
  then show ?case by (simp add: ComputeUtf16Hash_def)
next
  case (snoc c cs)
  let ?n = "length cs" and ?s = "\<Sum>i<length cs. uint (cs ! i) * 31 ^ (length cs - 1 - i)"
  have "uint (ComputeUtf16Hash (cs @ [c])) = (uint (ComputeUtf16Hash cs) * 31 + uint c) mod 2 ^ 32"
    by (simp add: ComputeUtf16Hash_def uint_word_ariths unsigned_ucast_eq take_bit_eq_mod mod_simps)
  also have "\<dots> = (?s * 31 + uint c) mod 2 ^ 32"
    unfolding snoc.IH by (rule mod_add_cong) (simp_all only: mod_mult_left_eq)
  also have "?s * 31 + uint c = (\<Sum>i<Suc ?n. uint ((cs @ [c]) ! i) * 31 ^ (?n - i))"
  proof -
    have "(\<Sum>i<?n. uint ((cs @ [c]) ! i) * 31 ^ (?n - i)) = (\<Sum>i<?n. uint (cs ! i) * 31 ^ (?n - i))"
      by (rule sum.cong) (simp_all add: nth_append)
    then show ?thesis by (simp add: hash_poly_snoc [of "\<lambda>i. uint (cs ! i)"])
  qed
  finally show ?case by simp
qed

end
