(* ===== verification/DexFile.thy ===== *)
theory DexFile
  imports Leb128 Utf
begin

text \<open>
  The DEX file as the runtime reads it: \<open>art/runtime/dex_file.h\<close>, \<open>dex_file-inl.h\<close> and \<open>dex_file.cc\<close>.
  A \<open>DexFile\<close> object holds the bytes of the file and the offsets of its id tables, which the
  constructor reads from the header once. Pointers into the file are offsets; a pointer to a table
  entry is the index of the entry, so that \<open>GetIndexForStringId\<close> and its siblings are identities.
  Multi-byte fields are little-endian. A read outside the file is \<open>None\<close>; a lookup that returns
  \<open>nullptr\<close> is \<open>Some None\<close>. The file starts at a 4-aligned address (\<open>OpenMemory\<close> checks it), so
  aligning a pointer aligns its offset.
\<close>

section \<open>The object and its header\<close>

record DexFile =
  begin_of :: buffer
  string_ids :: nat
  type_ids :: nat
  field_ids :: nat
  method_ids :: nat
  proto_ids :: nat
  class_defs :: nat

definition Size :: "DexFile \<Rightarrow> nat" where
  "Size d = length (begin_of d)"

text \<open>Offsets of the fields of \<open>DexFile::Header\<close>.\<close>

abbreviation (input) file_size_off :: nat where "file_size_off \<equiv> 32"
abbreviation (input) header_size_off :: nat where "header_size_off \<equiv> 36"
abbreviation (input) string_ids_size_off :: nat where "string_ids_size_off \<equiv> 56"
abbreviation (input) string_ids_off_off :: nat where "string_ids_off_off \<equiv> 60"
abbreviation (input) type_ids_size_off :: nat where "type_ids_size_off \<equiv> 64"
abbreviation (input) type_ids_off_off :: nat where "type_ids_off_off \<equiv> 68"
abbreviation (input) proto_ids_size_off :: nat where "proto_ids_size_off \<equiv> 72"
abbreviation (input) proto_ids_off_off :: nat where "proto_ids_off_off \<equiv> 76"
abbreviation (input) field_ids_size_off :: nat where "field_ids_size_off \<equiv> 80"
abbreviation (input) field_ids_off_off :: nat where "field_ids_off_off \<equiv> 84"
abbreviation (input) method_ids_size_off :: nat where "method_ids_size_off \<equiv> 88"
abbreviation (input) method_ids_off_off :: nat where "method_ids_off_off \<equiv> 92"
abbreviation (input) class_defs_size_off :: nat where "class_defs_size_off \<equiv> 96"
abbreviation (input) class_defs_off_off :: nat where "class_defs_off_off \<equiv> 100"
abbreviation (input) data_off_off :: nat where "data_off_off \<equiv> 108"

definition header_field :: "DexFile \<Rightarrow> nat \<Rightarrow> u32 option" where
  "header_field d off = load32 (begin_of d) off"

text \<open>The constructor; \<open>CHECK_GT(size_, 0U)\<close> is implied by the header reads.\<close>

definition make_DexFile :: "buffer \<Rightarrow> DexFile option" where
  "make_DexFile base = do {
     s \<leftarrow> load32 base string_ids_off_off;
     t \<leftarrow> load32 base type_ids_off_off;
     f \<leftarrow> load32 base field_ids_off_off;
     m \<leftarrow> load32 base method_ids_off_off;
     p \<leftarrow> load32 base proto_ids_off_off;
     c \<leftarrow> load32 base class_defs_off_off;
     Some \<lparr>begin_of = base, string_ids = unat s, type_ids = unat t, field_ids = unat f,
           method_ids = unat m, proto_ids = unat p, class_defs = unat c\<rparr>
   }"

text \<open>\<open>memcmp(magic, kDexMagic, 4) == 0\<close> and the version after it.\<close>

definition kDexMagic :: "u8 list" where
  "kDexMagic = [0x64, 0x65, 0x78, 0x0a]"

definition kDexMagicVersion :: "u8 list" where
  "kDexMagicVersion = [0x30, 0x33, 0x35, 0x00]"

definition IsMagicValid :: "buffer \<Rightarrow> bool" where
  "IsMagicValid magic \<longleftrightarrow> bytes_at magic 0 kDexMagic"

definition IsVersionValid :: "buffer \<Rightarrow> bool" where
  "IsVersionValid magic \<longleftrightarrow> bytes_at magic (length kDexMagic) kDexMagicVersion"

definition CheckMagicAndVersion :: "DexFile \<Rightarrow> bool" where
  "CheckMagicAndVersion d \<longleftrightarrow>
     (if \<not> IsMagicValid (begin_of d) then False
      else if \<not> IsVersionValid (begin_of d) then False
      else True)"

text \<open>\<open>OpenMemory\<close>: construct, then \<open>Init\<close>, which checks the magic; \<open>nullptr\<close> if that fails.\<close>

definition OpenMemory :: "buffer \<Rightarrow> DexFile option option" where
  "OpenMemory base = do {
     d \<leftarrow> make_DexFile base;
     Some (if CheckMagicAndVersion d then Some d else None)
   }"

section \<open>Id tables\<close>

record StringId = string_data_off :: u32
record TypeId = descriptor_idx :: u32
record FieldId = f_class_idx :: u16  f_type_idx :: u16  f_name_idx :: u32
record MethodId = m_class_idx :: u16  m_proto_idx :: u16  m_name_idx :: u32
record ProtoId = shorty_idx :: u32  return_type_idx :: u16  parameters_off :: u32

record ClassDef =
  class_idx :: u16
  access_flags :: u32
  superclass_idx :: u16
  interfaces_off :: u32
  source_file_idx :: u32
  annotations_off :: u32
  class_data_off :: u32
  static_values_off :: u32

definition NumStringIds :: "DexFile \<Rightarrow> nat option" where
  "NumStringIds d = map_option unat (header_field d string_ids_size_off)"

definition NumTypeIds :: "DexFile \<Rightarrow> nat option" where
  "NumTypeIds d = map_option unat (header_field d type_ids_size_off)"

definition NumFieldIds :: "DexFile \<Rightarrow> nat option" where
  "NumFieldIds d = map_option unat (header_field d field_ids_size_off)"

definition NumMethodIds :: "DexFile \<Rightarrow> nat option" where
  "NumMethodIds d = map_option unat (header_field d method_ids_size_off)"

definition NumProtoIds :: "DexFile \<Rightarrow> nat option" where
  "NumProtoIds d = map_option unat (header_field d proto_ids_size_off)"

definition NumClassDefs :: "DexFile \<Rightarrow> nat option" where
  "NumClassDefs d = map_option unat (header_field d class_defs_size_off)"

definition GetStringId :: "DexFile \<Rightarrow> nat \<Rightarrow> StringId option" where
  "GetStringId d idx = do {
     off \<leftarrow> load32 (begin_of d) (string_ids d + 4 * idx);
     Some \<lparr>string_data_off = off\<rparr>
   }"

definition GetTypeId :: "DexFile \<Rightarrow> nat \<Rightarrow> TypeId option" where
  "GetTypeId d idx = do {
     i \<leftarrow> load32 (begin_of d) (type_ids d + 4 * idx);
     Some \<lparr>descriptor_idx = i\<rparr>
   }"

definition GetFieldId :: "DexFile \<Rightarrow> nat \<Rightarrow> FieldId option" where
  "GetFieldId d idx = do {
     let p = field_ids d + 8 * idx;
     c \<leftarrow> load16 (begin_of d) p;
     t \<leftarrow> load16 (begin_of d) (p + 2);
     n \<leftarrow> load32 (begin_of d) (p + 4);
     Some \<lparr>f_class_idx = c, f_type_idx = t, f_name_idx = n\<rparr>
   }"

definition GetMethodId :: "DexFile \<Rightarrow> nat \<Rightarrow> MethodId option" where
  "GetMethodId d idx = do {
     let p = method_ids d + 8 * idx;
     c \<leftarrow> load16 (begin_of d) p;
     t \<leftarrow> load16 (begin_of d) (p + 2);
     n \<leftarrow> load32 (begin_of d) (p + 4);
     Some \<lparr>m_class_idx = c, m_proto_idx = t, m_name_idx = n\<rparr>
   }"

definition GetProtoId :: "DexFile \<Rightarrow> nat \<Rightarrow> ProtoId option" where
  "GetProtoId d idx = do {
     let p = proto_ids d + 12 * idx;
     s \<leftarrow> load32 (begin_of d) p;
     r \<leftarrow> load16 (begin_of d) (p + 4);
     q \<leftarrow> load32 (begin_of d) (p + 8);
     Some \<lparr>shorty_idx = s, return_type_idx = r, parameters_off = q\<rparr>
   }"

text \<open>\<open>GetClassDef\<close> takes a \<open>uint16_t\<close> index. The offset of the entry is used by the DEX builder.\<close>

definition class_def_offset :: "DexFile \<Rightarrow> u16 \<Rightarrow> nat" where
  "class_def_offset d idx = class_defs d + 32 * unat idx"

definition GetClassDef :: "DexFile \<Rightarrow> u16 \<Rightarrow> ClassDef option" where
  "GetClassDef d idx = do {
     let p = class_def_offset d idx;
     c \<leftarrow> load16 (begin_of d) p;
     a \<leftarrow> load32 (begin_of d) (p + 4);
     s \<leftarrow> load16 (begin_of d) (p + 8);
     i \<leftarrow> load32 (begin_of d) (p + 12);
     f \<leftarrow> load32 (begin_of d) (p + 16);
     n \<leftarrow> load32 (begin_of d) (p + 20);
     k \<leftarrow> load32 (begin_of d) (p + 24);
     v \<leftarrow> load32 (begin_of d) (p + 28);
     Some \<lparr>class_idx = c, access_flags = a, superclass_idx = s, interfaces_off = i,
           source_file_idx = f, annotations_off = n, class_data_off = k, static_values_off = v\<rparr>
   }"

section \<open>Strings, types, class data\<close>

text \<open>The string data is the UTF-16 length in LEB128 and the terminated bytes; the pointer to them is
  the rest of the file from there.\<close>

definition GetStringLength :: "DexFile \<Rightarrow> StringId \<Rightarrow> u32 option" where
  "GetStringLength d string_id =
     map_option fst (DecodeUnsignedLeb128 (begin_of d) (unat (string_data_off string_id)))"

definition GetStringDataAndUtf16Length :: "DexFile \<Rightarrow> StringId \<Rightarrow> (cstr \<times> u32) option" where
  "GetStringDataAndUtf16Length d string_id = do {
     (utf16_length, p) \<leftarrow> DecodeUnsignedLeb128 (begin_of d) (unat (string_data_off string_id));
     Some (drop p (begin_of d), utf16_length)
   }"

definition GetStringData :: "DexFile \<Rightarrow> StringId \<Rightarrow> cstr option" where
  "GetStringData d string_id = map_option fst (GetStringDataAndUtf16Length d string_id)"

abbreviation (input) kDexNoIndex :: u32 where "kDexNoIndex \<equiv> 0xFFFFFFFF"
abbreviation (input) kDexNoIndex16 :: u16 where "kDexNoIndex16 \<equiv> 0xFFFF"

text \<open>\<open>Some None\<close> is the null pointer returned for \<open>kDexNoIndex\<close>.\<close>

definition StringDataAndUtf16LengthByIdx :: "DexFile \<Rightarrow> u32 \<Rightarrow> (cstr option \<times> u32) option" where
  "StringDataAndUtf16LengthByIdx d idx =
     (if idx = kDexNoIndex then Some (None, 0)
      else do {
        string_id \<leftarrow> GetStringId d (unat idx);
        (str, n) \<leftarrow> GetStringDataAndUtf16Length d string_id;
        Some (Some str, n)
      })"

definition StringDataByIdx :: "DexFile \<Rightarrow> u32 \<Rightarrow> cstr option option" where
  "StringDataByIdx d idx = map_option fst (StringDataAndUtf16LengthByIdx d idx)"

definition StringByTypeIdx :: "DexFile \<Rightarrow> u32 \<Rightarrow> cstr option option" where
  "StringByTypeIdx d idx = do {
     type_id \<leftarrow> GetTypeId d (unat idx);
     StringDataByIdx d (descriptor_idx type_id)
   }"

definition GetClassDescriptor :: "DexFile \<Rightarrow> ClassDef \<Rightarrow> cstr option option" where
  "GetClassDescriptor d class_def = StringByTypeIdx d (ucast (class_idx class_def))"

definition GetMethodName :: "DexFile \<Rightarrow> MethodId \<Rightarrow> cstr option option" where
  "GetMethodName d method_id = StringDataByIdx d (m_name_idx method_id)"

definition GetClassData :: "ClassDef \<Rightarrow> ptr option" where
  "GetClassData class_def =
     (if class_data_off class_def = 0 then None else Some (unat (class_data_off class_def)))"

definition GetCodeItem :: "u32 \<Rightarrow> ptr option" where
  "GetCodeItem code_off = (if code_off = 0 then None else Some (unat code_off))"

definition GetInterfacesList :: "ClassDef \<Rightarrow> ptr option" where
  "GetInterfacesList class_def =
     (if interfaces_off class_def = 0 then None else Some (unat (interfaces_off class_def)))"

definition GetEncodedStaticFieldValuesArray :: "ClassDef \<Rightarrow> ptr option" where
  "GetEncodedStaticFieldValuesArray class_def =
     (if static_values_off class_def = 0 then None else Some (unat (static_values_off class_def)))"

text \<open>\<open>TypeList\<close>: a 32-bit size and that many 16-bit type indices.\<close>

definition GetProtoParameters :: "ProtoId \<Rightarrow> ptr option" where
  "GetProtoParameters proto_id =
     (if parameters_off proto_id = 0 then None else Some (unat (parameters_off proto_id)))"

definition TypeList_Size :: "DexFile \<Rightarrow> ptr \<Rightarrow> u32 option" where
  "TypeList_Size d list = load32 (begin_of d) list"

definition GetTypeItem :: "DexFile \<Rightarrow> ptr \<Rightarrow> nat \<Rightarrow> u16 option" where
  "GetTypeItem d list idx = load16 (begin_of d) (list + 4 + 2 * idx)"

section \<open>Binary searches\<close>

text \<open>The loop \<open>while (hi >= lo)\<close> shared by the \<open>Find\<close> functions: \<open>compare mid\<close> is the three-way
  comparison of the wanted key with entry \<open>mid\<close>. \<open>hi + lo\<close> is an \<open>int32_t\<close> sum; its overflow is
  undefined.\<close>

function id_search :: "(nat \<Rightarrow> int option) \<Rightarrow> int \<Rightarrow> int \<Rightarrow> nat option option" where
  "id_search compare lo hi =
     (if hi < lo then Some None
      else if hi + lo > 0x7fffffff then None
      else let mid = (hi + lo) div 2
           in case compare (nat mid) of
                None \<Rightarrow> None
              | Some c \<Rightarrow>
                  if c > 0 then id_search compare (mid + 1) hi
                  else if c < 0 then id_search compare lo (mid - 1)
                  else Some (Some (nat mid)))"
  by pat_completeness auto
termination
  by (relation "measure (\<lambda>(_, lo, hi). nat (hi - lo + 1))") auto

declare id_search.simps [simp del]

text \<open>\<open>int32_t hi = NumXIds() - 1\<close>.\<close>

definition last_index :: "nat \<Rightarrow> int" where
  "last_index n = sint (word_of_nat n - 1 :: u32)"

definition FindStringId :: "DexFile \<Rightarrow> cstr \<Rightarrow> nat option option" where
  "FindStringId d str = do {
     n \<leftarrow> NumStringIds d;
     id_search (\<lambda>mid. do {
       str_id \<leftarrow> GetStringId d mid;
       s \<leftarrow> GetStringData d str_id;
       CompareModifiedUtf8ToModifiedUtf8AsUtf16CodePointValues str s }) 0 (last_index n)
   }"

text \<open>The overload for UTF-16 strings: the comparison is of the table entry with the string.\<close>

definition FindStringId_utf16 :: "DexFile \<Rightarrow> u16 list \<Rightarrow> nat option option" where
  "FindStringId_utf16 d str = do {
     n \<leftarrow> NumStringIds d;
     id_search (\<lambda>mid. do {
       str_id \<leftarrow> GetStringId d mid;
       s \<leftarrow> GetStringData d str_id;
       CompareModifiedUtf8ToUtf16AsCodePointValues s str }) 0 (last_index n)
   }"

definition FindTypeId :: "DexFile \<Rightarrow> u32 \<Rightarrow> nat option option" where
  "FindTypeId d string_idx = do {
     n \<leftarrow> NumTypeIds d;
     id_search (\<lambda>mid. do {
       type_id \<leftarrow> GetTypeId d mid;
       Some (if string_idx > descriptor_idx type_id then 1
             else if string_idx < descriptor_idx type_id then -1
             else 0) }) 0 (last_index n)
   }"

definition FindFieldId :: "DexFile \<Rightarrow> u16 \<Rightarrow> u32 \<Rightarrow> u16 \<Rightarrow> nat option option" where
  "FindFieldId d klass name typ = do {
     n \<leftarrow> NumFieldIds d;
     id_search (\<lambda>mid. do {
       field \<leftarrow> GetFieldId d mid;
       Some (if klass > f_class_idx field then 1
             else if klass < f_class_idx field then -1
             else if name > f_name_idx field then 1
             else if name < f_name_idx field then -1
             else if typ > f_type_idx field then 1
             else if typ < f_type_idx field then -1
             else 0) }) 0 (last_index n)
   }"

definition FindMethodId :: "DexFile \<Rightarrow> u16 \<Rightarrow> u32 \<Rightarrow> u16 \<Rightarrow> nat option option" where
  "FindMethodId d klass name proto = do {
     n \<leftarrow> NumMethodIds d;
     id_search (\<lambda>mid. do {
       method \<leftarrow> GetMethodId d mid;
       Some (if klass > m_class_idx method then 1
             else if klass < m_class_idx method then -1
             else if name > m_name_idx method then 1
             else if name < m_name_idx method then -1
             else if proto > m_proto_idx method then 1
             else if proto < m_proto_idx method then -1
             else 0) }) 0 (last_index n)
   }"

text \<open>\<open>DexFileParameterIterator\<close>: the type list (if any), its size and the position.\<close>

record DexFileParameterIterator =
  type_list :: "ptr option"
  pi_size :: u32
  pi_pos :: nat

definition make_DexFileParameterIterator :: "DexFile \<Rightarrow> ProtoId \<Rightarrow> DexFileParameterIterator option" where
  "make_DexFileParameterIterator d proto_id =
     (case GetProtoParameters proto_id of
        None \<Rightarrow> Some \<lparr>type_list = None, pi_size = 0, pi_pos = 0\<rparr>
      | Some l \<Rightarrow> do {
          n \<leftarrow> TypeList_Size d l;
          Some \<lparr>type_list = Some l, pi_size = n, pi_pos = 0\<rparr> })"

definition pi_HasNext :: "DexFileParameterIterator \<Rightarrow> bool" where
  "pi_HasNext it \<longleftrightarrow> pi_pos it < unat (pi_size it)"

definition pi_Next :: "DexFileParameterIterator \<Rightarrow> DexFileParameterIterator" where
  "pi_Next it = it\<lparr>pi_pos := Suc (pi_pos it)\<rparr>"

definition pi_GetTypeIdx :: "DexFile \<Rightarrow> DexFileParameterIterator \<Rightarrow> u16 option" where
  "pi_GetTypeIdx d it = do { l \<leftarrow> type_list it; GetTypeItem d l (pi_pos it) }"

text \<open>The inner loop of \<open>FindProtoId\<close> with the decision after it: compare the remaining signature
  (from index \<open>i\<close>) with the remaining parameters.\<close>

fun compare_parameters :: "DexFile \<Rightarrow> u16 list \<Rightarrow> DexFileParameterIterator \<Rightarrow> int option" where
  "compare_parameters d [] it = Some (if pi_HasNext it then -1 else 0)"
| "compare_parameters d (sig # sigs) it =
     (if pi_HasNext it
      then do {
        t \<leftarrow> pi_GetTypeIdx d it;
        let compare = uint sig - uint t;
        (if compare = 0 then compare_parameters d sigs (pi_Next it) else Some compare) }
      else Some 1)"

definition FindProtoId :: "DexFile \<Rightarrow> u16 \<Rightarrow> u16 list \<Rightarrow> nat option option" where
  "FindProtoId d ret signature_type_idxs = do {
     n \<leftarrow> NumProtoIds d;
     id_search (\<lambda>mid. do {
       proto \<leftarrow> GetProtoId d mid;
       let compare = uint ret - uint (return_type_idx proto);
       (if compare = 0 then do {
          it \<leftarrow> make_DexFileParameterIterator d proto;
          compare_parameters d signature_type_idxs it }
        else Some compare) }) 0 (last_index n)
   }"

text \<open>\<open>FindClassDef\<close> by type index is a linear search; \<open>GetClassDef\<close> truncates the index.\<close>

fun FindClassDef_loop :: "DexFile \<Rightarrow> u16 \<Rightarrow> nat \<Rightarrow> nat \<Rightarrow> nat option option" where
  "FindClassDef_loop d type_idx i 0 = Some None"
| "FindClassDef_loop d type_idx i (Suc k) = do {
     class_def \<leftarrow> GetClassDef d (word_of_nat i);
     (if class_idx class_def = type_idx then Some (Some i) else FindClassDef_loop d type_idx (Suc i) k)
   }"

definition FindClassDef :: "DexFile \<Rightarrow> u16 \<Rightarrow> nat option option" where
  "FindClassDef d type_idx = do {
     num_class_defs \<leftarrow> NumClassDefs d;
     FindClassDef_loop d type_idx 0 num_class_defs
   }"

section \<open>Searching a sorted table\<close>

text \<open>The right answer of a lookup: the index of the entry that compares equal, if there is one.\<close>

definition finds :: "('k \<Rightarrow> 'e \<Rightarrow> int) \<Rightarrow> 'k \<Rightarrow> 'e list \<Rightarrow> nat option \<Rightarrow> bool" where
  "finds cmp k es r \<longleftrightarrow> (\<forall>i. r = Some i \<longleftrightarrow> i < length es \<and> cmp k (es ! i) = 0)"

text \<open>
  What a \<open>Find\<close> function needs of its comparison: against a table that is strictly ascending in
  \<open>lt\<close>, a key that is not above an entry is below every later one.
\<close>

lemma last_index_small:
  assumes "n \<le> 2 ^ 30"
  shows "last_index n = int n - 1"
proof -
  have "last_index n = sint (word_of_int (int n - 1) :: u32)"
    by (simp add: last_index_def)
  also have "\<dots> = int n - 1"
    using assms by (simp add: signed_of_int signed_take_bit_int_eq_self del: of_int_diff)
  finally show ?thesis .
qed

locale id_order =
  fixes cmp :: "'k \<Rightarrow> 'e \<Rightarrow> int" and lt :: "'e \<Rightarrow> 'e \<Rightarrow> bool"
  assumes cmp_later: "lt e e' \<Longrightarrow> cmp k e \<le> 0 \<Longrightarrow> cmp k e' < 0"
begin

lemma cmp_earlier: "lt e e' \<Longrightarrow> 0 \<le> cmp k e' \<Longrightarrow> 0 < cmp k e"
  using cmp_later [of e e' k] by linarith

lemma search_range:
  assumes "sorted_wrt lt es" and "length es \<le> 2 ^ 30"
    and "\<And>i. i < length es \<Longrightarrow> \<exists>c. compare i = Some c \<and> sgn c = sgn (cmp k (es ! i))"
    and "0 \<le> lo" and "hi < int (length es)"
    and "\<And>i. i < length es \<Longrightarrow> cmp k (es ! i) = 0 \<Longrightarrow> lo \<le> int i \<and> int i \<le> hi"
  shows "\<exists>r. id_search compare lo hi = Some r \<and> finds cmp k es r"
  using assms(4-)
proof (induction "nat (hi - lo + 1)" arbitrary: lo hi rule: less_induct)
  case less
  show ?case
  proof (cases "hi < lo")
    case True
    then have "finds cmp k es None" using less.prems by (force simp: finds_def)
    with True show ?thesis by (simp add: id_search.simps)
  next
    case False
    define mid where "mid = (hi + lo) div 2"
    have mid: "lo \<le> mid" "mid \<le> hi" "0 \<le> mid" "nat mid < length es"
      using False less.prems(1,2) by (auto simp: mid_def)
    have ovf: "\<not> hi + lo > 0x7fffffff" using less.prems False assms(2) by simp
    obtain c where c: "compare (nat mid) = Some c" "sgn c = sgn (cmp k (es ! nat mid))"
      using assms(3) [OF mid(4)] by blast
    have step: "id_search compare lo hi =
        (if c > 0 then id_search compare (mid + 1) hi
         else if c < 0 then id_search compare lo (mid - 1) else Some (Some (nat mid)))"
      using False ovf c(1) by (subst id_search.simps) (simp add: Let_def mid_def)
    have ordered: "lt (es ! i) (es ! j)" if "i < j" "j < length es" for i j
      using assms(1) that by (simp add: sorted_wrt_iff_nth_less)
    consider "c > 0" | "c < 0" | "c = 0" by linarith
    then show ?thesis
    proof cases
      case 1
      then have pos: "cmp k (es ! nat mid) > 0" using c(2) by (simp add: sgn_if split: if_splits)
      have "mid + 1 \<le> int i \<and> int i \<le> hi" if "i < length es" "cmp k (es ! i) = 0" for i
      proof -
        have "\<not> i < nat mid" using cmp_later [OF ordered [of i "nat mid"], of k] pos that(2) mid(4) by auto
        moreover have "i \<noteq> nat mid" using pos that by auto
        ultimately show ?thesis using less.prems(3) [OF that] mid by linarith
      qed
      then show ?thesis
        using less.hyps [of hi "mid + 1"] less.prems mid 1 by (simp add: step)
    next
      case 2
      then have neg: "cmp k (es ! nat mid) < 0" using c(2) by (simp add: sgn_if split: if_splits)
      have "lo \<le> int i \<and> int i \<le> mid - 1" if "i < length es" "cmp k (es ! i) = 0" for i
      proof -
        have "\<not> nat mid < i" using cmp_earlier [OF ordered [of "nat mid" i], of k] neg that by auto
        moreover have "i \<noteq> nat mid" using neg that by auto
        ultimately show ?thesis using less.prems(3) [OF that] mid by linarith
      qed
      then show ?thesis
        using less.hyps [of "mid - 1" lo] less.prems mid 2 by (simp add: step)
    next
      case 3
      then have zero: "cmp k (es ! nat mid) = 0" using c(2) by (simp add: sgn_0_0)
      have uniq: "i = nat mid" if "i < length es" "cmp k (es ! i) = 0" for i
        using that zero mid(4) cmp_later [OF ordered [of i "nat mid"], of k]
          cmp_later [OF ordered [of "nat mid" i], of k]
        by (cases i "nat mid" rule: linorder_cases) auto
      have "Some (nat mid) = Some i \<longleftrightarrow> i < length es \<and> cmp k (es ! i) = 0" for i
        using uniq [of i] zero mid(4) by blast
      then have "finds cmp k es (Some (nat mid))" by (simp add: finds_def)
      with 3 show ?thesis by (simp add: step)
    qed
  qed
qed

lemma search_table:
  assumes "sorted_wrt lt es" and "length es \<le> 2 ^ 30"
    and "\<And>i. i < length es \<Longrightarrow> \<exists>c. compare i = Some c \<and> sgn c = sgn (cmp k (es ! i))"
  shows "\<exists>r. id_search compare 0 (last_index (length es)) = Some r \<and> finds cmp k es r"
  using search_range [OF assms, of 0 "int (length es) - 1"] last_index_small [OF assms(2)]
  by auto

end

section \<open>The orders of the id tables\<close>

lemma lex_cmp_later: "lex_cmp e e' < 0 \<Longrightarrow> lex_cmp k e \<le> 0 \<Longrightarrow> lex_cmp k e' < 0"
proof (induction e e' arbitrary: k rule: lex_cmp.induct)
  case (2 y ys)
  then show ?case by (cases k) auto
next
  case (4 x xs y ys)
  then show ?case by (cases k) (auto split: if_splits)
qed auto

definition string_key :: "u16 list \<Rightarrow> int list" where
  "string_key s = map token_key (tokens s)"

definition type_key :: "TypeId \<Rightarrow> int list" where
  "type_key t = [uint (descriptor_idx t)]"

definition field_key :: "FieldId \<Rightarrow> int list" where
  "field_key f = [uint (f_class_idx f), uint (f_name_idx f), uint (f_type_idx f)]"

definition method_key :: "MethodId \<Rightarrow> int list" where
  "method_key m = [uint (m_class_idx m), uint (m_name_idx m), uint (m_proto_idx m)]"

definition proto_key :: "u16 \<times> u16 list \<Rightarrow> int list" where
  "proto_key p = uint (fst p) # map uint (snd p)"

definition by_key :: "('e \<Rightarrow> int list) \<Rightarrow> 'e \<Rightarrow> 'e \<Rightarrow> int" where
  "by_key key a b = lex_cmp (key a) (key b)"

interpretation string_table: id_order "by_key string_key" "\<lambda>a b. by_key string_key a b < 0"
  by unfold_locales (auto simp: by_key_def intro: lex_cmp_later)

interpretation type_table: id_order "by_key type_key" "\<lambda>a b. by_key type_key a b < 0"
  by unfold_locales (auto simp: by_key_def intro: lex_cmp_later)

interpretation field_table: id_order "by_key field_key" "\<lambda>a b. by_key field_key a b < 0"
  by unfold_locales (auto simp: by_key_def intro: lex_cmp_later)

interpretation method_table: id_order "by_key method_key" "\<lambda>a b. by_key method_key a b < 0"
  by unfold_locales (auto simp: by_key_def intro: lex_cmp_later)

interpretation proto_table: id_order "by_key proto_key" "\<lambda>a b. by_key proto_key a b < 0"
  by unfold_locales (auto simp: by_key_def intro: lex_cmp_later)

text \<open>A table is sorted as the DEX format requires, without duplicates.\<close>

abbreviation ascending :: "('e \<Rightarrow> int list) \<Rightarrow> 'e list \<Rightarrow> bool" where
  "ascending key es \<equiv> sorted_wrt (\<lambda>a b. by_key key a b < 0) es \<and> length es \<le> 2 ^ 30"

lemma by_key_inj: "inj key \<Longrightarrow> by_key key a b = 0 \<longleftrightarrow> a = b"
  by (auto simp: by_key_def lex_cmp_eq_0_iff dest: injD)

lemma inj_string_key: "inj string_key"
  by (rule injI) (metis inj_map_eq_map injI string_key_def token_key_inject tokens_inject)

lemma inj_type_key: "inj type_key"
  by (rule injI) (auto simp: type_key_def word_uint_eq_iff intro!: TypeId.equality)

lemma inj_field_key: "inj field_key"
  by (rule injI) (auto simp: field_key_def word_uint_eq_iff intro!: FieldId.equality)

lemma inj_method_key: "inj method_key"
  by (rule injI) (auto simp: method_key_def word_uint_eq_iff intro!: MethodId.equality)

lemma inj_proto_key: "inj proto_key"
proof -
  have "inj (uint :: u16 \<Rightarrow> int)" by (rule injI) (simp add: word_uint_eq_iff)
  from inj_map_eq_map [OF this] show ?thesis
    by (intro injI) (auto simp: proto_key_def prod_eq_iff word_uint_eq_iff)
qed

lemma finds_by_key:
  "inj key \<Longrightarrow> finds (by_key key) k es r \<longleftrightarrow> (\<forall>i. r = Some i \<longleftrightarrow> i < length es \<and> k = es ! i)"
  by (simp only: finds_def by_key_inj)

section \<open>Lookups find exactly what the tables hold\<close>

text \<open>The tables a file holds, read through the accessors.\<close>

definition string_entry :: "DexFile \<Rightarrow> nat \<Rightarrow> u16 list \<Rightarrow> bool" where
  "string_entry d i s =
     (case GetStringId d i of None \<Rightarrow> False
      | Some str_id \<Rightarrow>
          (case GetStringData d str_id of None \<Rightarrow> False
           | Some str \<Rightarrow> take (Suc (CountUtf8Bytes s)) str = ConvertUtf16ToModifiedUtf8 s @ [0]))"

definition has_strings :: "DexFile \<Rightarrow> u16 list list \<Rightarrow> bool" where
  "has_strings d ss \<longleftrightarrow> NumStringIds d = Some (length ss)
     \<and> list_all (\<lambda>(i, s). string_entry d i s) (enumerate 0 ss)"

definition has_types :: "DexFile \<Rightarrow> TypeId list \<Rightarrow> bool" where
  "has_types d ts \<longleftrightarrow> NumTypeIds d = Some (length ts) \<and> map (GetTypeId d) [0..<length ts] = map Some ts"

definition has_fields :: "DexFile \<Rightarrow> FieldId list \<Rightarrow> bool" where
  "has_fields d fs \<longleftrightarrow> NumFieldIds d = Some (length fs) \<and> map (GetFieldId d) [0..<length fs] = map Some fs"

definition has_methods :: "DexFile \<Rightarrow> MethodId list \<Rightarrow> bool" where
  "has_methods d ms \<longleftrightarrow>
     NumMethodIds d = Some (length ms) \<and> map (GetMethodId d) [0..<length ms] = map Some ms"

lemma table_nth:
  assumes "map f [0..<length es] = map Some es" "i < length es"
  shows "f i = Some (es ! i)"
  using assms by (metis add.left_neutral diff_zero length_upt nth_map nth_upt)

lemma has_strings_nth:
  assumes "has_strings d ss" "i < length ss"
  obtains str_id rest where "GetStringId d i = Some str_id"
    "GetStringData d str_id = Some (ConvertUtf16ToModifiedUtf8 (ss ! i) @ 0 # rest)"
proof -
  have "string_entry d i (ss ! i)"
    using assms by (auto simp: has_strings_def list_all_length nth_enumerate_eq split: prod.splits)
  then obtain str_id str where s: "GetStringId d i = Some str_id" "GetStringData d str_id = Some str"
    "take (Suc (CountUtf8Bytes (ss ! i))) str = ConvertUtf16ToModifiedUtf8 (ss ! i) @ [0]"
    by (auto simp: string_entry_def split: option.splits)
  from s(3) have "str = ConvertUtf16ToModifiedUtf8 (ss ! i) @ 0 # drop (Suc (CountUtf8Bytes (ss ! i))) str"
    by (metis append_Cons append_assoc append_take_drop_id self_append_conv2)
  with that s(1,2) show ?thesis by metis
qed

text \<open>A tiny DEX file: strings \<open>a\<close>, \<open>b\<close>, one type per string, a field, a method, two prototypes.\<close>

definition sample_dex :: buffer where
  "sample_dex = [
    0x64, 0x65, 0x78, 0xa, 0x30, 0x33, 0x35, 0, 0, 0, 0, 0, 0, 0, 0, 0, 0, 0, 0, 0, 0, 0, 0, 0,
    0, 0, 0, 0, 0, 0, 0, 0, 0xb6, 0, 0, 0, 0x70, 0, 0, 0, 0x78, 0x56, 0x34, 0x12, 0, 0, 0, 0,
    0, 0, 0, 0, 0, 0, 0, 0, 0x2, 0, 0, 0, 0x70, 0, 0, 0, 0x2, 0, 0, 0, 0x78, 0, 0, 0, 0x2, 0,
    0, 0, 0x90, 0, 0, 0, 0x1, 0, 0, 0, 0x80, 0, 0, 0, 0x1, 0, 0, 0, 0x88, 0, 0, 0, 0, 0, 0, 0,
    0, 0, 0, 0, 0xe, 0, 0, 0, 0xa8, 0, 0, 0, 0xb0, 0, 0, 0, 0xb3, 0, 0, 0, 0, 0, 0, 0, 0x1, 0,
    0, 0, 0, 0, 0x1, 0, 0x1, 0, 0, 0, 0, 0, 0x1, 0, 0x1, 0, 0, 0, 0, 0, 0, 0, 0, 0, 0, 0, 0, 0,
    0, 0, 0, 0, 0, 0, 0, 0, 0, 0, 0xa8, 0, 0, 0, 0x2, 0, 0, 0, 0, 0, 0x1, 0, 0x1, 0x61, 0, 0x1,
    0x62, 0]"

definition sample_dex_file :: DexFile where
  "sample_dex_file = \<lparr>begin_of = sample_dex, string_ids = 112, type_ids = 120, field_ids = 128,
     method_ids = 136, proto_ids = 144, class_defs = 0\<rparr>"

lemma sample_dex_file_opens: "OpenMemory sample_dex = Some (Some sample_dex_file)"
  by code_simp

text \<open>
  \<open>FindStringId\<close> is a correct lookup: in a file whose string ids are sorted as the DEX format
  requires, it terminates without leaving the file, returns the index of the string if the file has
  it, and \<open>nullptr\<close> exactly when it does not.
\<close>

lemma find_string_id_correct:
  assumes "has_strings d ss" and "ascending string_key ss"
  shows "\<exists>r. FindStringId d (ConvertUtf16ToModifiedUtf8 k @ 0 # s) = Some r
    \<and> (\<forall>i. r = Some i \<longleftrightarrow> i < length ss \<and> k = ss ! i)"
proof -
  let ?key = "ConvertUtf16ToModifiedUtf8 k @ 0 # s"
  let ?compare = "\<lambda>mid. do {
       str_id \<leftarrow> GetStringId d mid;
       s \<leftarrow> GetStringData d str_id;
       CompareModifiedUtf8ToModifiedUtf8AsUtf16CodePointValues ?key s }"
  have "\<exists>c. ?compare i = Some c \<and> sgn c = sgn (by_key string_key k (ss ! i))" if i: "i < length ss" for i
  proof -
    obtain str_id rest where "GetStringId d i = Some str_id"
      "GetStringData d str_id = Some (ConvertUtf16ToModifiedUtf8 (ss ! i) @ 0 # rest)"
      using has_strings_nth [OF assms(1) i] .
    moreover obtain r where "CompareModifiedUtf8ToModifiedUtf8AsUtf16CodePointValues ?key
          (ConvertUtf16ToModifiedUtf8 (ss ! i) @ 0 # rest) = Some r"
      "sgn r = lex_cmp (string_key k) (string_key (ss ! i))"
      using CompareModifiedUtf8ToModifiedUtf8_tokens [OF tokens_ok tokens_ok, of k s "ss ! i" rest]
      by (auto simp: string_key_def ConvertUtf16ToModifiedUtf8_tokens)
    moreover have "sgn (lex_cmp xs ys) = lex_cmp xs ys" for xs ys :: "int list"
      by (induction xs ys rule: lex_cmp.induct) auto
    ultimately show ?thesis by (simp add: by_key_def)
  qed
  from string_table.search_table [OF _ _ this] assms
  show ?thesis
    by (simp add: FindStringId_def has_strings_def finds_by_key [OF inj_string_key])
qed

lemma sample_string_found:
  "\<exists>r. FindStringId sample_dex_file (ConvertUtf16ToModifiedUtf8 [0x62] @ [0]) = Some r \<and> r = Some 1"
proof -
  have "has_strings sample_dex_file [[0x61], [0x62]]" by code_simp
  moreover have "ascending string_key [[0x61], [0x62]]" by (rule conjI, code_simp, simp)
  ultimately show ?thesis using find_string_id_correct [of sample_dex_file "[[0x61], [0x62]]" "[0x62]" "[]"] by force
qed

lemma three_way_sgn:
  "sgn (if x > (y :: int) then 1 else if x < y then -1 else r :: int) = (if x > y then 1 else if x < y then -1 else sgn r)"
  by simp

text \<open>
  \<open>FindTypeId\<close>, \<open>FindFieldId\<close> and \<open>FindMethodId\<close> are correct lookups in tables sorted as
  the DEX format requires (types by string index; fields and methods by class, then name, then type or
  prototype): each terminates inside the file and returns the index of the wanted id exactly when the
  table holds it.
\<close>

lemma find_ids_correct:
  assumes "has_types d ts" and "ascending type_key ts"
    and "has_fields d fs" and "ascending field_key fs"
    and "has_methods d ms" and "ascending method_key ms"
  shows "(\<exists>r. FindTypeId d (descriptor_idx t) = Some r
        \<and> (\<forall>i. r = Some i \<longleftrightarrow> i < length ts \<and> t = ts ! i))
    \<and> (\<exists>r. FindFieldId d (f_class_idx f) (f_name_idx f) (f_type_idx f) = Some r
        \<and> (\<forall>i. r = Some i \<longleftrightarrow> i < length fs \<and> f = fs ! i))
    \<and> (\<exists>r. FindMethodId d (m_class_idx m) (m_name_idx m) (m_proto_idx m) = Some r
        \<and> (\<forall>i. r = Some i \<longleftrightarrow> i < length ms \<and> m = ms ! i))"
proof (intro conjI)
  have "\<exists>c. do { type_id \<leftarrow> GetTypeId d i;
       Some (if descriptor_idx t > descriptor_idx type_id then 1
             else if descriptor_idx t < descriptor_idx type_id then -1 else 0) } = Some c
     \<and> sgn c = sgn (by_key type_key t (ts ! i))" if i: "i < length ts" for i
    using table_nth [OF conjunct2 [OF assms(1) [unfolded has_types_def]] i]
    by (auto simp: by_key_def type_key_def word_less_def)
  from type_table.search_table [OF _ _ this] assms(1,2)
  show "\<exists>r. FindTypeId d (descriptor_idx t) = Some r \<and> (\<forall>i. r = Some i \<longleftrightarrow> i < length ts \<and> t = ts ! i)"
    by (simp add: FindTypeId_def has_types_def finds_by_key [OF inj_type_key])
next
  have "\<exists>c. do { field \<leftarrow> GetFieldId d i;
       Some (if f_class_idx f > f_class_idx field then 1
             else if f_class_idx f < f_class_idx field then -1
             else if f_name_idx f > f_name_idx field then 1
             else if f_name_idx f < f_name_idx field then -1
             else if f_type_idx f > f_type_idx field then 1
             else if f_type_idx f < f_type_idx field then -1
             else 0) } = Some c
     \<and> sgn c = sgn (by_key field_key f (fs ! i))" if i: "i < length fs" for i
    using table_nth [OF conjunct2 [OF assms(3) [unfolded has_fields_def]] i]
    by (auto simp: by_key_def field_key_def word_less_def)
  from field_table.search_table [OF _ _ this] assms(3,4)
  show "\<exists>r. FindFieldId d (f_class_idx f) (f_name_idx f) (f_type_idx f) = Some r
        \<and> (\<forall>i. r = Some i \<longleftrightarrow> i < length fs \<and> f = fs ! i)"
    by (simp add: FindFieldId_def has_fields_def finds_by_key [OF inj_field_key])
next
  have "\<exists>c. do { method \<leftarrow> GetMethodId d i;
       Some (if m_class_idx m > m_class_idx method then 1
             else if m_class_idx m < m_class_idx method then -1
             else if m_name_idx m > m_name_idx method then 1
             else if m_name_idx m < m_name_idx method then -1
             else if m_proto_idx m > m_proto_idx method then 1
             else if m_proto_idx m < m_proto_idx method then -1
             else 0) } = Some c
     \<and> sgn c = sgn (by_key method_key m (ms ! i))" if i: "i < length ms" for i
    using table_nth [OF conjunct2 [OF assms(5) [unfolded has_methods_def]] i]
    by (auto simp: by_key_def method_key_def word_less_def)
  from method_table.search_table [OF _ _ this] assms(5,6)
  show "\<exists>r. FindMethodId d (m_class_idx m) (m_name_idx m) (m_proto_idx m) = Some r
        \<and> (\<forall>i. r = Some i \<longleftrightarrow> i < length ms \<and> m = ms ! i)"
    by (simp add: FindMethodId_def has_methods_def finds_by_key [OF inj_method_key])
qed

lemma sample_type_found:
  "\<exists>r. FindTypeId sample_dex_file 1 = Some r \<and> r = Some 1"
proof -
  have "has_types sample_dex_file [\<lparr>descriptor_idx = 0\<rparr>, \<lparr>descriptor_idx = 1\<rparr>]"
    "has_fields sample_dex_file [\<lparr>f_class_idx = 0, f_type_idx = 1, f_name_idx = 1\<rparr>]"
    "has_methods sample_dex_file [\<lparr>m_class_idx = 0, m_proto_idx = 1, m_name_idx = 1\<rparr>]"
    by code_simp+
  moreover have "ascending type_key [\<lparr>descriptor_idx = 0\<rparr>, \<lparr>descriptor_idx = 1\<rparr>]"
    "ascending field_key [\<lparr>f_class_idx = 0, f_type_idx = 1, f_name_idx = 1\<rparr>]"
    "ascending method_key [\<lparr>m_class_idx = 0, m_proto_idx = 1, m_name_idx = 1\<rparr>]"
    by (rule conjI, code_simp, simp)+
  ultimately show ?thesis using find_ids_correct [of sample_dex_file "[\<lparr>descriptor_idx = 0\<rparr>, \<lparr>descriptor_idx = 1\<rparr>]"
      "[\<lparr>f_class_idx = 0, f_type_idx = 1, f_name_idx = 1\<rparr>]"
      "[\<lparr>m_class_idx = 0, m_proto_idx = 1, m_name_idx = 1\<rparr>]" "\<lparr>descriptor_idx = 1\<rparr>"] by force
qed

text \<open>A search whose comparison points the same way everywhere ends with nothing.\<close>

lemma id_search_rightwards:
  assumes "\<And>i. lo \<le> int i \<Longrightarrow> int i \<le> hi \<Longrightarrow> \<exists>c. compare i = Some c \<and> c > 0" and "0 \<le> lo" and "hi < 2 ^ 30"
  shows "id_search compare lo hi = Some None"
  using assms(1,2)
proof (induction "nat (hi - lo + 1)" arbitrary: lo rule: less_induct)
  case less
  show ?case
  proof (cases "hi < lo")
    case False
    let ?mid = "(hi + lo) div 2"
    have mid: "lo \<le> ?mid" "?mid \<le> hi" "0 \<le> ?mid" using False less.prems(2) by auto
    then obtain c where "compare (nat ?mid) = Some c" "c > 0" using less.prems(1) [of "nat ?mid"] by auto
    moreover have "id_search compare (?mid + 1) hi = Some None"
      using mid less.prems(1) by (intro less.hyps) auto
    ultimately show ?thesis using False assms(3) less.prems(2) by (subst id_search.simps) (simp add: Let_def)
  qed (simp add: id_search.simps [of compare lo hi])
qed

lemma id_search_leftwards:
  assumes "\<And>i. lo \<le> int i \<Longrightarrow> int i \<le> hi \<Longrightarrow> \<exists>c. compare i = Some c \<and> c < 0" and "0 \<le> lo" and "hi < 2 ^ 30"
  shows "id_search compare lo hi = Some None"
  using assms(1,3)
proof (induction "nat (hi - lo + 1)" arbitrary: hi rule: less_induct)
  case less
  show ?case
  proof (cases "hi < lo")
    case False
    let ?mid = "(hi + lo) div 2"
    have mid: "lo \<le> ?mid" "?mid \<le> hi" "0 \<le> ?mid" using False assms(2) by auto
    then obtain c where "compare (nat ?mid) = Some c" "c < 0" using less.prems(1) [of "nat ?mid"] by auto
    moreover have "id_search compare lo (?mid - 1) = Some None"
      using mid less.prems by (intro less.hyps) auto
    ultimately show ?thesis using False assms(2) less.prems(2) by (subst id_search.simps) (simp add: Let_def)
  qed (simp add: id_search.simps [of compare lo hi])
qed

lemma lex_cmp_swap: "lex_cmp xs ys = - lex_cmp ys xs"
  by (induction xs ys rule: lex_cmp.induct) auto

lemma utf16_compare:
  assumes "has_strings d ss" and "i < length ss"
  shows "do { str_id \<leftarrow> GetStringId d i; s \<leftarrow> GetStringData d str_id; CompareModifiedUtf8ToUtf16AsCodePointValues s k }
    = Some (lex_cmp (ss ! i) k)"
proof -
  obtain str_id rest where "GetStringId d i = Some str_id"
    "GetStringData d str_id = Some (ConvertUtf16ToModifiedUtf8 (ss ! i) @ 0 # rest)"
    using has_strings_nth [OF assms] .
  then show ?thesis using CompareModifiedUtf8ToUtf16_tokens [OF tokens_ok, of "ss ! i" rest k]
    by (simp add: ConvertUtf16ToModifiedUtf8_tokens token_chars_tokens)
qed

text \<open>
  Claim C34. The overload of \<open>FindStringId\<close> for UTF-16 strings searches in the wrong direction. In a file whose
  strings, encoded as the runtime encodes UTF-16, are sorted by their units, as the format requires, it finds the string in the middle of the table
  (the first one it looks at) and no other: for every other string, in the table or not, it returns null.
\<close>

theorem find_string_id_utf16_misses:
  assumes "has_strings d ss" and "sorted_wrt (\<lambda>a b. lex_cmp a b < 0) ss" and "length ss \<le> 2 ^ 30"
  shows "FindStringId_utf16 d k
    = Some (if ss \<noteq> [] \<and> k = ss ! ((length ss - 1) div 2) then Some ((length ss - 1) div 2) else None)"
proof -
  let ?compare = "\<lambda>mid. do {
       str_id \<leftarrow> GetStringId d mid;
       s \<leftarrow> GetStringData d str_id;
       CompareModifiedUtf8ToUtf16AsCodePointValues s k }"
  note cmp = utf16_compare [OF assms(1), of _ k]
  have run: "FindStringId_utf16 d k = id_search ?compare 0 (int (length ss) - 1)"
    using assms(1,3) by (simp add: FindStringId_utf16_def has_strings_def last_index_small)
  let ?m = "(length ss - 1) div 2"
  show ?thesis
  proof (cases "ss = []")
    case True
    then show ?thesis by (simp add: run id_search.simps)
  next
    case False
    then have m: "?m < length ss" "(int (length ss) - 1) div 2 = int ?m" by (cases ss; simp)+
    have order: "lex_cmp (ss ! i) (ss ! j) < 0" if "i < j" "j < length ss" for i j
      using sorted_wrt_nth_less [OF assms(2) that] .
    have right: "id_search ?compare (int ?m + 1) (int (length ss) - 1) = Some None" if c: "lex_cmp (ss ! ?m) k > 0"
    proof (rule id_search_rightwards)
      fix i assume "int ?m + 1 \<le> int i" "int i \<le> int (length ss) - 1"
      then have i: "?m < i" "i < length ss" by simp_all
      from c have "lex_cmp k (ss ! ?m) \<le> 0" by (subst lex_cmp_swap) simp
      from lex_cmp_later [OF order [OF i] this] have "lex_cmp (ss ! i) k > 0" by (subst lex_cmp_swap) simp
      with cmp [OF i(2)] show "\<exists>c. ?compare i = Some c \<and> c > 0" by blast
    qed (use assms(3) in simp_all)
    have left: "id_search ?compare 0 (int ?m - 1) = Some None" if c: "lex_cmp (ss ! ?m) k < 0"
    proof (rule id_search_leftwards)
      fix i assume "int i \<le> int ?m - 1"
      then have i: "i < ?m" by simp
      from lex_cmp_later [OF c, of "ss ! i"] order [OF i m(1)] cmp [of i] i m(1)
      show "\<exists>c. ?compare i = Some c \<and> c < 0" by simp
    qed (use assms(3) m(1) in simp_all)
    have "id_search ?compare 0 (int (length ss) - 1)
        = (if lex_cmp (ss ! ?m) k > 0 then id_search ?compare (int ?m + 1) (int (length ss) - 1)
           else if lex_cmp (ss ! ?m) k < 0 then id_search ?compare 0 (int ?m - 1) else Some (Some ?m))"
      using False m assms(3) cmp [OF m(1)]
      by (subst id_search.simps) (simp add: Let_def Suc_le_eq not_less)
    with right left lex_cmp_eq_0_iff [of "ss ! ?m" k] False show ?thesis unfolding run by auto
  qed
qed

theorem find_string_id_utf16_misses_witness:
  "FindStringId sample_dex_file [0x62, 0] = Some (Some 1) \<and> FindStringId_utf16 sample_dex_file [0x62] = Some None
    \<and> FindStringId_utf16 sample_dex_file [0x61] = Some (Some 0)"
proof -
  have s: "has_strings sample_dex_file [[0x61], [0x62]]" "sorted_wrt (\<lambda>a b. lex_cmp a b < 0) [[0x61 :: u16], [0x62]]"
    "length [[0x61 :: u16], [0x62]] \<le> 2 ^ 30" by (code_simp, code_simp, simp)
  have "FindStringId sample_dex_file [0x62, 0] = Some (Some 1)" by code_simp
  with find_string_id_utf16_misses [OF s, of "[0x62]"] find_string_id_utf16_misses [OF s, of "[0x61]"] show ?thesis by simp
qed

definition proto_entry :: "DexFile \<Rightarrow> nat \<Rightarrow> u16 \<times> u16 list \<Rightarrow> bool" where
  "proto_entry d i p =
     (case GetProtoId d i of None \<Rightarrow> False
      | Some proto \<Rightarrow> return_type_idx proto = fst p
          \<and> (case GetProtoParameters proto of
               None \<Rightarrow> snd p = []
             | Some l \<Rightarrow> map_option unat (TypeList_Size d l) = Some (length (snd p))
                 \<and> map (GetTypeItem d l) [0..<length (snd p)] = map Some (snd p)))"

definition has_protos :: "DexFile \<Rightarrow> (u16 \<times> u16 list) list \<Rightarrow> bool" where
  "has_protos d ps \<longleftrightarrow> NumProtoIds d = Some (length ps)
     \<and> list_all (\<lambda>(i, p). proto_entry d i p) (enumerate 0 ps)"

lemma uint_diff_sgn:
  "sgn (uint (a :: u16) - uint b) = (if uint a < uint b then -1 else if uint b < uint a then 1 else 0)"
  by simp

lemma compare_parameters_lex:
  assumes "unat (pi_size it) = length params" and "pi_pos it \<le> length params"
    and "\<And>j. j < length params \<Longrightarrow> pi_GetTypeIdx d (it\<lparr>pi_pos := j\<rparr>) = Some (params ! j)"
  shows "\<exists>c. compare_parameters d sigs it = Some c
    \<and> sgn c = lex_cmp (map uint sigs) (map uint (drop (pi_pos it) params))"
  using assms
proof (induction sigs arbitrary: it)
  case Nil
  then show ?case
    by (cases "drop (pi_pos it) params") (auto simp: pi_HasNext_def)
next
  case (Cons sig sigs)
  show ?case
  proof (cases "pi_pos it < length params")
    case False
    with Cons.prems show ?thesis by (simp add: pi_HasNext_def)
  next
    case True
    have t: "pi_GetTypeIdx d it = Some (params ! pi_pos it)"
      using Cons.prems(3) [OF True] by simp
    have drop: "drop (pi_pos it) params = params ! pi_pos it # drop (Suc (pi_pos it)) params"
      using True by (simp add: Cons_nth_drop_Suc)
    have "\<exists>c. compare_parameters d sigs (pi_Next it) = Some c
        \<and> sgn c = lex_cmp (map uint sigs) (map uint (drop (pi_pos (pi_Next it)) params))"
      by (rule Cons.IH) (use Cons.prems True in \<open>simp_all add: pi_Next_def\<close>)
    with t drop True Cons.prems(1) show ?thesis
      by (auto simp: pi_HasNext_def pi_Next_def uint_diff_sgn)
  qed
qed

lemma proto_entry_compare:
  assumes "proto_entry d i p"
  shows "\<exists>c. do { proto \<leftarrow> GetProtoId d i;
       let compare = uint (fst k) - uint (return_type_idx proto);
       (if compare = 0 then do {
          it \<leftarrow> make_DexFileParameterIterator d proto;
          compare_parameters d (snd k) it }
        else Some compare) } = Some c \<and> sgn c = by_key proto_key k p"
proof -
  obtain proto where proto: "GetProtoId d i = Some proto" "return_type_idx proto = fst p"
    using assms by (auto simp: proto_entry_def split: option.splits)
  obtain it where it: "make_DexFileParameterIterator d proto = Some it" "pi_pos it = 0"
    "unat (pi_size it) = length (snd p)"
    "\<And>j. j < length (snd p) \<Longrightarrow> pi_GetTypeIdx d (it\<lparr>pi_pos := j\<rparr>) = Some (snd p ! j)"
    using assms proto table_nth [where es = "snd p"]
    by (auto simp: proto_entry_def make_DexFileParameterIterator_def pi_GetTypeIdx_def
        split: option.splits)
  obtain c where c: "compare_parameters d (snd k) it = Some c"
    "sgn c = lex_cmp (map uint (snd k)) (map uint (snd p))"
    using compare_parameters_lex [OF it(3) _ it(4), of "snd k"] it(2) by auto
  then show ?thesis
    using proto it(1)
    by (auto simp: by_key_def proto_key_def uint_diff_sgn)
qed

lemma sgn_lex_cmp [simp]: "sgn (lex_cmp xs ys) = lex_cmp xs ys"
  by (induction xs ys rule: lex_cmp.induct) auto

text \<open>
  Claim C27. \<open>FindProtoId\<close> is a correct lookup: with prototypes sorted by return type and then
  lexicographically by parameter types, it returns the index of the prototype with exactly the wanted
  return and parameter types if the file has one, and \<open>nullptr\<close> otherwise.
\<close>

theorem find_proto_id_correct:
  assumes "has_protos d ps" and "ascending proto_key ps"
  shows "\<exists>r. FindProtoId d ret sigs = Some r \<and> (\<forall>i. r = Some i \<longleftrightarrow> i < length ps \<and> (ret, sigs) = ps ! i)"
proof -
  have "\<exists>c. do { proto \<leftarrow> GetProtoId d i;
       let compare = uint ret - uint (return_type_idx proto);
       (if compare = 0 then do {
          it \<leftarrow> make_DexFileParameterIterator d proto;
          compare_parameters d sigs it }
        else Some compare) } = Some c \<and> sgn c = sgn (by_key proto_key (ret, sigs) (ps ! i))"
    if "i < length ps" for i
  proof -
    have "proto_entry d i (ps ! i)"
      using assms(1) that
      by (auto simp: has_protos_def list_all_length nth_enumerate_eq split: prod.splits)
    from proto_entry_compare [OF this, of "(ret, sigs)", unfolded fst_conv snd_conv]
    show ?thesis by (simp add: by_key_def)
  qed
  from proto_table.search_table [OF _ _ this] assms show ?thesis
    by (simp add: FindProtoId_def has_protos_def finds_by_key [OF inj_proto_key])
qed

theorem find_proto_id_correct_witness:
  "\<exists>r. FindProtoId sample_dex_file 0 [0, 1] = Some r \<and> r = Some 1"
proof -
  have "has_protos sample_dex_file [(0, []), (0, [0, 1])]" by code_simp
  moreover have "ascending proto_key [(0, []), (0, [0, 1])]" by (rule conjI, code_simp, simp)
  ultimately show ?thesis
    using find_proto_id_correct [of sample_dex_file "[(0, []), (0, [0, 1])]" 0 "[0, 1]"] by force
qed

end
