(* ===== verification/CodeItem.thy ===== *)
theory CodeItem
  imports DexFile
begin

text \<open>
  Code items: the layout of \<open>DexFile::CodeItem\<close> and \<open>TryItem\<close>, the search for the \<open>try\<close> block of an
  address (\<open>FindTryItem\<close>, \<open>FindCatchHandlerOffset\<close>), the \<open>CatchHandlerIterator\<close> and the readers of
  encoded values, all of \<open>art/runtime/dex_file.h\<close>, \<open>dex_file-inl.h\<close> and \<open>dex_file.cc\<close>. A code item is
  the offset of its first byte.
\<close>

section \<open>Code items and try blocks\<close>

definition code_registers_size :: "DexFile \<Rightarrow> ptr \<Rightarrow> u16 option" where
  "code_registers_size d code_item = load16 (begin_of d) code_item"

definition code_ins_size :: "DexFile \<Rightarrow> ptr \<Rightarrow> u16 option" where
  "code_ins_size d code_item = load16 (begin_of d) (code_item + 2)"

definition code_tries_size :: "DexFile \<Rightarrow> ptr \<Rightarrow> u16 option" where
  "code_tries_size d code_item = load16 (begin_of d) (code_item + 6)"

definition code_debug_info_off :: "DexFile \<Rightarrow> ptr \<Rightarrow> u32 option" where
  "code_debug_info_off d code_item = load32 (begin_of d) (code_item + 8)"

definition code_insns_size :: "DexFile \<Rightarrow> ptr \<Rightarrow> u32 option" where
  "code_insns_size d code_item = load32 (begin_of d) (code_item + 12)"

definition GetDebugInfoStream :: "DexFile \<Rightarrow> ptr \<Rightarrow> ptr option option" where
  "GetDebugInfoStream d code_item =
     map_option (\<lambda>off. if off = 0 then None else Some (unat off)) (code_debug_info_off d code_item)"

record TryItem =
  start_addr :: u32
  insn_count :: u16
  handler_off :: u16

text \<open>\<open>RoundUp(insns_end, 4) + offset\<close>: the try items follow the instructions, 4-aligned.\<close>

definition RoundUp :: "nat \<Rightarrow> nat \<Rightarrow> nat" where
  "RoundUp x n = ((x + n - 1) div n) * n"

definition GetTryItems :: "DexFile \<Rightarrow> ptr \<Rightarrow> nat \<Rightarrow> ptr option" where
  "GetTryItems d code_item offset = do {
     n \<leftarrow> code_insns_size d code_item;
     let insns_end = code_item + 16 + 2 * unat n;
     Some (RoundUp insns_end 4 + 8 * offset)
   }"

definition read_TryItem :: "DexFile \<Rightarrow> ptr \<Rightarrow> TryItem option" where
  "read_TryItem d p = do {
     s \<leftarrow> load32 (begin_of d) p;
     n \<leftarrow> load16 (begin_of d) (p + 4);
     h \<leftarrow> load16 (begin_of d) (p + 6);
     Some \<lparr>start_addr = s, insn_count = n, handler_off = h\<rparr>
   }"

definition GetCatchHandlerData :: "DexFile \<Rightarrow> ptr \<Rightarrow> nat \<Rightarrow> ptr option" where
  "GetCatchHandlerData d code_item offset = do {
     tries_size \<leftarrow> code_tries_size d code_item;
     handler_data \<leftarrow> GetTryItems d code_item (unat tries_size);
     Some (handler_data + offset)
   }"

function FindTryItem_loop :: "DexFile \<Rightarrow> ptr \<Rightarrow> u32 \<Rightarrow> int \<Rightarrow> int \<Rightarrow> int option" where
  "FindTryItem_loop d code_item address mn mx =
     (if mn \<le> mx
      then let mid = mn + (mx - mn) div 2
           in (case do { p \<leftarrow> GetTryItems d code_item (nat mid); read_TryItem d p } of
                 None \<Rightarrow> None
               | Some ti \<Rightarrow>
                   let start = start_addr ti; end_addr = start + ucast (insn_count ti)
                   in if address < start then FindTryItem_loop d code_item address mn (mid - 1)
                      else if address \<ge> end_addr then FindTryItem_loop d code_item address (mid + 1) mx
                      else Some mid)
      else Some (-1))"
  by pat_completeness auto
termination
  by (relation "measure (\<lambda>(_, _, _, mn, mx). nat (mx - mn + 1))") auto

declare FindTryItem_loop.simps [simp del]

definition FindTryItem :: "DexFile \<Rightarrow> ptr \<Rightarrow> u32 \<Rightarrow> int option" where
  "FindTryItem d code_item address = do {
     tries_size \<leftarrow> code_tries_size d code_item;
     FindTryItem_loop d code_item address 0 (int (unat tries_size) - 1)
   }"

definition FindCatchHandlerOffset :: "DexFile \<Rightarrow> ptr \<Rightarrow> u32 \<Rightarrow> int option" where
  "FindCatchHandlerOffset d code_item address = do {
     try_item \<leftarrow> FindTryItem d code_item address;
     (if try_item = -1 then Some (-1)
      else do {
        p \<leftarrow> GetTryItems d code_item (nat try_item);
        ti \<leftarrow> read_TryItem d p;
        Some (int (unat (handler_off ti)))
      })
   }"

section \<open>Catch handlers\<close>

text \<open>\<open>remaining_count_\<close> is an \<open>int32_t\<close>; \<open>current_data_\<close> is null for an empty iterator.\<close>

record CatchHandlerIterator =
  handler_type_idx :: u16
  handler_address :: u32
  current_data :: "ptr option"
  remaining_count :: u32
  catch_all :: bool

definition chi_HasNext :: "CatchHandlerIterator \<Rightarrow> bool" where
  "chi_HasNext it \<longleftrightarrow> remaining_count it \<noteq> -1 \<or> catch_all it"

definition chi_Next :: "buffer \<Rightarrow> CatchHandlerIterator \<Rightarrow> CatchHandlerIterator option" where
  "chi_Next buf it =
     (if sint (remaining_count it) > 0
      then do {
        p \<leftarrow> current_data it;
        (t, p) \<leftarrow> DecodeUnsignedLeb128 buf p;
        (a, p) \<leftarrow> DecodeUnsignedLeb128 buf p;
        Some (it\<lparr>handler_type_idx := ucast t, handler_address := a, current_data := Some p,
                 remaining_count := remaining_count it - 1\<rparr>) }
      else if catch_all it
      then do {
        p \<leftarrow> current_data it;
        (a, p) \<leftarrow> DecodeUnsignedLeb128 buf p;
        Some (it\<lparr>handler_type_idx := kDexNoIndex16, handler_address := a, current_data := Some p, catch_all := False\<rparr>) }
      else Some (it\<lparr>remaining_count := -1\<rparr>))"

text \<open>\<open>Init(const uint8_t*)\<close>. The type index is uninitialised before the first \<open>Next\<close>; the argument
  \<open>garbage\<close> stands for it.\<close>

definition chi_Init_data :: "buffer \<Rightarrow> ptr \<Rightarrow> CatchHandlerIterator \<Rightarrow> CatchHandlerIterator option" where
  "chi_Init_data buf handler_data it = do {
     (n, p) \<leftarrow> DecodeSignedLeb128 buf handler_data;
     chi_Next buf
       (if sint n \<le> 0
        then it\<lparr>current_data := Some p, catch_all := True, remaining_count := - n\<rparr>
        else it\<lparr>current_data := Some p, catch_all := False, remaining_count := n\<rparr>)
   }"

definition chi_Init :: "DexFile \<Rightarrow> ptr \<Rightarrow> int \<Rightarrow> CatchHandlerIterator \<Rightarrow> CatchHandlerIterator option" where
  "chi_Init d code_item offset it =
     (if offset \<ge> 0
      then do {
        p \<leftarrow> GetCatchHandlerData d code_item (nat offset);
        chi_Init_data (begin_of d) p it }
      else Some (it\<lparr>current_data := None, remaining_count := -1, catch_all := False\<rparr>))"

definition empty_handlers :: "u16 \<Rightarrow> CatchHandlerIterator" where
  "empty_handlers garbage =
     \<lparr>handler_type_idx = garbage, handler_address = -1, current_data = None, remaining_count = -1, catch_all = False\<rparr>"

text \<open>The constructor for an address: the common cases of no and of one try block are
  short-circuited.\<close>

definition make_CatchHandlerIterator ::
  "u16 \<Rightarrow> DexFile \<Rightarrow> ptr \<Rightarrow> u32 \<Rightarrow> CatchHandlerIterator option" where
  "make_CatchHandlerIterator garbage d code_item address = do {
     tries_size \<leftarrow> code_tries_size d code_item;
     offset \<leftarrow>
       (if tries_size = 0 then Some (-1)
        else if tries_size = 1 then do {
          p \<leftarrow> GetTryItems d code_item 0;
          tries \<leftarrow> read_TryItem d p;
          let start = start_addr tries;
          Some (if address \<ge> start
                then let end_addr = start + ucast (insn_count tries)
                     in if address < end_addr then int (unat (handler_off tries)) else -1
                else -1) }
        else FindCatchHandlerOffset d code_item address);
     chi_Init d code_item offset (empty_handlers garbage)
   }"

definition chi_EndDataPointer :: "CatchHandlerIterator \<Rightarrow> ptr option" where
  "chi_EndDataPointer it = (if chi_HasNext it then None else current_data it)"

lemma sint_minus_1: "sint (x :: u32) > 0 \<Longrightarrow> sint (x - 1) = sint x - 1"
proof -
  assume "sint x > 0"
  moreover have "sint x < 2 ^ 31" using sint_lt [of x] by simp
  ultimately have "sint (word_of_int (sint x - 1) :: u32) = sint x - 1"
    by (simp add: signed_of_int signed_take_bit_int_eq_self del: of_int_diff)
  then show ?thesis by simp
qed

lemma chi_Next_measure:
  assumes "chi_HasNext it" and "chi_Next buf it = Some it'"
  shows "(if chi_HasNext it' then 1 else 0) + nat (sint (remaining_count it')) + (if catch_all it' then 1 else 0)
    < 1 + nat (sint (remaining_count it)) + (if catch_all it then 1 else (0 :: nat))"
  using assms
  by (auto simp: chi_Next_def chi_HasNext_def bind_eq_Some_conv sint_minus_1 split: if_splits)

text \<open>The loop \<open>for (; iterator.HasNext(); iterator.Next())\<close>: the handlers it sees, and the iterator
  at its end.\<close>

function chi_walk :: "buffer \<Rightarrow> CatchHandlerIterator \<Rightarrow> ((u16 \<times> u32) list \<times> CatchHandlerIterator) option" where
  "chi_walk buf it =
     (if chi_HasNext it
      then (case chi_Next buf it of
              None \<Rightarrow> None
            | Some it' \<Rightarrow>
                map_option (\<lambda>(hs, e). ((handler_type_idx it, handler_address it) # hs, e)) (chi_walk buf it'))
      else Some ([], it))"
  by pat_completeness auto
termination
  by (relation "measure (\<lambda>(buf, it). (if chi_HasNext it then 1 else 0)
      + nat (sint (remaining_count it)) + (if catch_all it then 1 else 0))")
    (auto dest: chi_Next_measure)

declare chi_walk.simps [simp del]

text \<open>The format: the number of typed handlers, negated or zero when a catch-all follows; pairs of
  type index and address; the catch-all address.\<close>

definition handler_entries :: "(u16 \<times> u32) list \<Rightarrow> u32 option \<Rightarrow> u8 list" where
  "handler_entries typed catch_all_addr =
     concat (map (\<lambda>(t, a). uleb (ucast t) @ uleb a) typed)
     @ (case catch_all_addr of None \<Rightarrow> [] | Some a \<Rightarrow> uleb a)"

definition handler_bytes :: "(u16 \<times> u32) list \<Rightarrow> u32 option \<Rightarrow> u8 list" where
  "handler_bytes typed catch_all_addr =
     sleb (case catch_all_addr of None \<Rightarrow> word_of_nat (length typed) | Some _ \<Rightarrow> - word_of_nat (length typed))
     @ handler_entries typed catch_all_addr"

definition handler_list :: "(u16 \<times> u32) list \<Rightarrow> u32 option \<Rightarrow> (u16 \<times> u32) list" where
  "handler_list typed catch_all_addr =
     typed @ (case catch_all_addr of None \<Rightarrow> [] | Some a \<Rightarrow> [(kDexNoIndex16, a)])"

lemma ucast_ucast_u16 [simp]: "ucast (ucast (t :: u16) :: u32) = t"
  by (rule bit_word_eqI) (auto simp: bit_simps)

lemma chi_walk_step:
  "chi_HasNext it \<Longrightarrow> chi_Next buf it = Some it' \<Longrightarrow>
     chi_walk buf it = map_option (\<lambda>(hs, e). ((handler_type_idx it, handler_address it) # hs, e)) (chi_walk buf it')"
  by (simp add: chi_walk.simps [of buf it])

lemma sint_word_of_nat_small: "n < 2 ^ 31 \<Longrightarrow> sint (word_of_nat n :: u32) = int n"
  by (simp add: signed_of_nat signed_take_bit_int_eq_self)

lemma chi_walk_bytes:
  assumes "bytes_at buf p (handler_entries typed ca)"
    and "current_data it = Some p" and "remaining_count it = word_of_nat (length typed)"
    and "catch_all it = (ca \<noteq> None)" and "length typed < 2 ^ 31"
  shows "\<exists>e. chi_walk buf it = Some ((handler_type_idx it, handler_address it) # handler_list typed ca, e)
    \<and> chi_EndDataPointer e = Some (p + length (handler_entries typed ca))"
  using assms
proof (induction typed arbitrary: p it)
  case Nil
  show ?case
  proof (cases ca)
    case None
    let ?e = "it\<lparr>remaining_count := -1\<rparr>"
    have "chi_Next buf it = Some ?e" "chi_HasNext it" "\<not> chi_HasNext ?e"
      using Nil None by (simp_all add: chi_Next_def chi_HasNext_def)
    then show ?thesis
      using None Nil chi_walk.simps [of buf ?e]
      by (simp add: chi_walk_step handler_list_def handler_entries_def chi_EndDataPointer_def)
  next
    case (Some a)
    let ?it = "it\<lparr>handler_type_idx := kDexNoIndex16, handler_address := a,
        current_data := Some (p + length (uleb a)), catch_all := False\<rparr>"
    let ?e = "?it\<lparr>remaining_count := -1\<rparr>"
    have "DecodeUnsignedLeb128 buf p = Some (a, p + length (uleb a))"
      using Nil.prems(1) Some by (simp add: handler_entries_def unsigned_leb.dec_enc)
    then have "chi_Next buf it = Some ?it" "chi_HasNext it"
      "chi_Next buf ?it = Some ?e" "chi_HasNext ?it" "\<not> chi_HasNext ?e"
      using Nil Some by (simp_all add: chi_Next_def chi_HasNext_def)
    then show ?thesis
      using Some Nil chi_walk.simps [of buf ?e]
      by (simp add: chi_walk_step handler_list_def handler_entries_def chi_EndDataPointer_def)
  qed
next
  case (Cons ta typed)
  obtain t a where ta: "ta = (t, a)" by force
  let ?q = "p + length (uleb (ucast t)) + length (uleb a)"
  let ?it = "it\<lparr>handler_type_idx := t, handler_address := a, current_data := Some ?q,
      remaining_count := word_of_nat (length typed)\<rparr>"
  have r: "remaining_count it - 1 = word_of_nat (length typed)" "sint (remaining_count it) > 0"
    using Cons.prems sint_word_of_nat_small [of "Suc (length typed)"] by simp_all
  have "DecodeUnsignedLeb128 buf p = Some (ucast t, p + length (uleb (ucast t)))"
    "DecodeUnsignedLeb128 buf (p + length (uleb (ucast t))) = Some (a, ?q)"
    using Cons.prems(1) by (simp_all add: ta handler_entries_def unsigned_leb.dec_enc)
  then have nxt: "chi_Next buf it = Some ?it"
    using Cons.prems r by (simp add: chi_Next_def)
  have has: "chi_HasNext it" using r(2) by (auto simp: chi_HasNext_def)
  have "\<exists>e. chi_walk buf ?it = Some ((handler_type_idx ?it, handler_address ?it) # handler_list typed ca, e)
    \<and> chi_EndDataPointer e = Some (?q + length (handler_entries typed ca))"
    by (rule Cons.IH) (use Cons.prems in \<open>simp_all add: ta handler_entries_def add.assoc\<close>)
  then show ?case
    using chi_walk_step [OF has nxt] by (auto simp: ta handler_list_def handler_entries_def add.assoc)
qed

text \<open>
  Claim C28. The \<open>CatchHandlerIterator\<close> decodes a handler list: for every list of typed handlers and
  optional catch-all (not both empty) in the encoded form, the loop over the iterator terminates, sees
  the typed handlers in order, then the catch-all with the type index \<open>kDexNoIndex16\<close>, and ends at the
  byte after the list, where the next list starts.
\<close>

theorem catch_handlers_roundtrip:
  assumes "bytes_at buf p (handler_bytes typed ca)" and "length typed < 2 ^ 31"
    and "typed \<noteq> [] \<or> ca \<noteq> None"
  shows "\<exists>it e. chi_Init_data buf p it0 = Some it
    \<and> chi_walk buf it = Some (handler_list typed ca, e)
    \<and> chi_EndDataPointer e = Some (p + length (handler_bytes typed ca))"
proof -
  define n :: u32 where "n = (case ca of None \<Rightarrow> word_of_nat (length typed) | Some _ \<Rightarrow> - word_of_nat (length typed))"
  let ?q = "p + length (sleb n)"
  have dec: "DecodeSignedLeb128 buf p = Some (n, ?q)"
    and bytes: "bytes_at buf ?q (handler_entries typed ca)"
    using assms(1) by (simp_all add: handler_bytes_def n_def signed_leb.dec_enc)
  define it1 where "it1 = (if sint n \<le> 0
        then it0\<lparr>current_data := Some ?q, catch_all := True, remaining_count := - n\<rparr>
        else it0\<lparr>current_data := Some ?q, catch_all := False, remaining_count := n\<rparr>)"
  note len = sint_word_of_nat_small [OF assms(2)]
  have neg: "sint (- word_of_nat (length typed) :: u32) = - int (length typed)"
  proof -
    have "sint (word_of_int (- int (length typed)) :: u32) = - int (length typed)"
      using assms(2) by (simp add: signed_of_int signed_take_bit_int_eq_self del: of_int_minus)
    then show ?thesis by simp
  qed
  have it1: "current_data it1 = Some ?q" "remaining_count it1 = word_of_nat (length typed)"
    "catch_all it1 = (ca \<noteq> None)"
    using assms(3) len neg by (auto simp: it1_def n_def split: option.splits)
  have has: "chi_HasNext it1"
  proof -
    have "sint (remaining_count it1) \<noteq> sint (-1 :: u32)" using len by (simp add: it1(2))
    then show ?thesis by (auto simp: chi_HasNext_def)
  qed
  from chi_walk_bytes [OF bytes it1 assms(2)] obtain e where
    walk: "chi_walk buf it1 = Some ((handler_type_idx it1, handler_address it1) # handler_list typed ca, e)"
    and e: "chi_EndDataPointer e = Some (?q + length (handler_entries typed ca))"
    by blast
  from walk has obtain it where it: "chi_Next buf it1 = Some it"
    by (subst (asm) chi_walk.simps) (auto split: option.splits)
  with walk chi_walk_step [OF has it] have "chi_walk buf it = Some (handler_list typed ca, e)"
    by auto
  moreover have "chi_Init_data buf p it0 = Some it"
    using dec it by (simp add: chi_Init_data_def it1_def)
  moreover have "?q + length (handler_entries typed ca) = p + length (handler_bytes typed ca)"
    by (simp add: handler_bytes_def n_def)
  ultimately show ?thesis using e by auto
qed

theorem catch_handlers_roundtrip_witness:
  "\<exists>it e. chi_Init_data [0x7f, 7, 0x20, 0x30, 9] 0 (empty_handlers 0) = Some it
    \<and> chi_walk [0x7f, 7, 0x20, 0x30, 9] it = Some ([(7, 0x20), (0xffff, 0x30)], e)
    \<and> chi_EndDataPointer e = Some 4"
proof -
  have "bytes_at [0x7f, 7, 0x20, 0x30, 9] 0 (handler_bytes [(7, 0x20)] (Some 0x30))"
    "handler_list [(7, 0x20)] (Some 0x30) = [(7, 0x20), (0xffff, 0x30)]"
    "length (handler_bytes [(7, 0x20)] (Some 0x30)) = 4"
    by code_simp+
  with catch_handlers_roundtrip [of "[0x7f, 7, 0x20, 0x30, 9]" 0 "[(7, 0x20)]" "Some 0x30" "empty_handlers 0"]
  show ?thesis by simp
qed

section \<open>The try block of an address\<close>

definition try_end :: "TryItem \<Rightarrow> int" where
  "try_end ti = uint (start_addr ti) + uint (insn_count ti)"

text \<open>Where an address lies relative to a block.\<close>

definition try_cmp :: "int \<Rightarrow> TryItem \<Rightarrow> int" where
  "try_cmp a ti = (if a < uint (start_addr ti) then -1 else if a \<ge> try_end ti then 1 else 0)"

interpretation try_table: id_order try_cmp "\<lambda>a b. try_end a \<le> uint (start_addr b)"
proof unfold_locales
  fix e e' :: TryItem and k
  assume "try_end e \<le> uint (start_addr e')" "try_cmp k e \<le> 0"
  moreover have "uint (start_addr e) \<le> try_end e" by (simp add: try_end_def)
  ultimately show "try_cmp k e' < 0" by (auto simp: try_cmp_def split: if_splits)
qed

text \<open>The try items of a code item: as many as \<open>tries_size_\<close> says, without wrap-around, in
  order and disjoint.\<close>

definition has_tries :: "DexFile \<Rightarrow> ptr \<Rightarrow> TryItem list \<Rightarrow> bool" where
  "has_tries d code_item ts \<longleftrightarrow>
     map_option unat (code_tries_size d code_item) = Some (length ts)
   \<and> map (\<lambda>i. do { p \<leftarrow> GetTryItems d code_item i; read_TryItem d p }) [0..<length ts] = map Some ts
   \<and> list_all (\<lambda>ti. try_end ti < 2 ^ 32) ts
   \<and> sorted_wrt (\<lambda>a b. try_end a \<le> uint (start_addr b)) ts"

lemma FindTryItem_loop_search:
  assumes "0 \<le> mn" and "mx + mn \<le> 0x7fffffff" and "mx \<le> 0x3fffffff"
    and "\<And>i. int i \<le> mx \<Longrightarrow> do { p \<leftarrow> GetTryItems d code_item i; read_TryItem d p } = Some (f i)
      \<and> try_end (f i) < 2 ^ 32"
  shows "FindTryItem_loop d code_item a mn mx =
    map_option (\<lambda>r. case r of None \<Rightarrow> -1 | Some i \<Rightarrow> int i)
      (id_search (\<lambda>i. Some (try_cmp (uint a) (f i))) mn mx)"
  using assms
proof (induction d code_item a mn mx rule: FindTryItem_loop.induct)
  case (1 d code_item a mn mx)
  show ?case
  proof (cases "mn \<le> mx")
    case False
    then show ?thesis by (simp add: FindTryItem_loop.simps id_search.simps)
  next
    case True
    define mid where "mid = mn + (mx - mn) div 2"
    have mid2: "mid = (mx + mn) div 2" using True by (simp add: mid_def)
    have bounds: "0 \<le> mid" "mid \<le> mx" "mn \<le> mid" using True 1(3) by (auto simp: mid_def)
    have ti: "do { p \<leftarrow> GetTryItems d code_item (nat mid); read_TryItem d p } = Some (f (nat mid))"
      "try_end (f (nat mid)) < 2 ^ 32"
      using 1(6) [of "nat mid"] bounds by simp_all
    let ?start = "start_addr (f (nat mid))" and ?stop = "start_addr (f (nat mid)) + ucast (insn_count (f (nat mid)))"
    have "uint ?stop = try_end (f (nat mid))"
      using ti(2) by (simp add: uint_word_ariths try_end_def unsigned_ucast_eq take_bit_eq_mod mod_simps)
    then have cmp: "try_cmp (uint a) (f (nat mid)) = (if a < ?start then -1 else if a \<ge> ?stop then 1 else 0)"
      by (simp add: try_cmp_def word_less_def word_le_def)
    have loop: "FindTryItem_loop d code_item a mn mx =
        (if a < ?start then FindTryItem_loop d code_item a mn (mid - 1)
         else if a \<ge> ?stop then FindTryItem_loop d code_item a (mid + 1) mx else Some mid)"
      using True ti(1) by (subst FindTryItem_loop.simps) (simp add: Let_def mid_def)
    have search: "id_search (\<lambda>i. Some (try_cmp (uint a) (f i))) mn mx =
        (if a < ?start then id_search (\<lambda>i. Some (try_cmp (uint a) (f i))) mn (mid - 1)
         else if a \<ge> ?stop then id_search (\<lambda>i. Some (try_cmp (uint a) (f i))) (mid + 1) mx
         else Some (Some (nat mid)))"
      using True 1(4) cmp by (subst id_search.simps) (simp add: Let_def flip: mid2)
    show ?thesis
      unfolding loop search
      using 1(1) [OF True mid_def ti(1) refl refl] 1(2) [OF True mid_def ti(1) refl refl] 1(3-) bounds
      by auto
  qed
qed

lemma map_option_Some_iff: "map_option f x = Some y \<longleftrightarrow> (\<exists>z. x = Some z \<and> y = f z)"
  by auto

text \<open>
  \<open>FindTryItem\<close> finds the \<open>try\<close> block that guards an address: with the ordered, disjoint
  blocks the format requires it terminates inside the file and returns the index of the block that
  contains the address, or -1 exactly when no block does.
\<close>

lemma find_try_item_correct:
  assumes "has_tries d code_item ts"
  shows "\<exists>r. FindTryItem d code_item a = Some r
    \<and> (\<forall>i. r = int i \<longleftrightarrow> i < length ts \<and> uint (start_addr (ts ! i)) \<le> uint a \<and> uint a < try_end (ts ! i))
    \<and> (r < 0 \<longleftrightarrow> r = -1)"
proof -
  obtain n where n: "code_tries_size d code_item = Some n" "unat n = length ts"
    using assms by (auto simp: has_tries_def map_option_Some_iff)
  have "int (unat n) = int (length ts)" by (simp only: n(2))
  then have un: "uint n = int (length ts)" by simp
  have len: "length ts < 65536" using unat_u16_less [of n] n(2) by simp
  define f where "f i = ts ! i" for i
  have entry: "do { p \<leftarrow> GetTryItems d code_item i; read_TryItem d p } = Some (f i) \<and> try_end (f i) < 2 ^ 32"
    if "int i \<le> int (length ts) - 1" for i
  proof -
    from that have i: "i < length ts" by simp
    have "map (\<lambda>i. do { p \<leftarrow> GetTryItems d code_item i; read_TryItem d p }) [0..<length ts] = map Some ts"
      using assms by (simp add: has_tries_def)
    from table_nth [OF this i] show ?thesis
      using assms i by (simp add: has_tries_def f_def list_all_length)
  qed
  have "\<exists>r. id_search (\<lambda>i. Some (try_cmp (uint a) (f i))) 0 (last_index (length ts)) = Some r
      \<and> finds try_cmp (uint a) ts r"
    by (rule try_table.search_table) (use assms len in \<open>simp_all add: has_tries_def f_def\<close>)
  then obtain r where r: "id_search (\<lambda>i. Some (try_cmp (uint a) (f i))) 0 (int (length ts) - 1) = Some r"
    "finds try_cmp (uint a) ts r"
    using last_index_small [of "length ts"] len by auto
  have "FindTryItem d code_item a = Some (case r of None \<Rightarrow> -1 | Some i \<Rightarrow> int i)"
    using FindTryItem_loop_search [of 0 "int (length ts) - 1" d code_item f a, OF _ _ _ entry] len r(1) n un
    by (simp add: FindTryItem_def)
  moreover have "try_cmp (uint a) (ts ! i) = 0 \<longleftrightarrow> uint (start_addr (ts ! i)) \<le> uint a \<and> uint a < try_end (ts ! i)" for i
    by (auto simp: try_cmp_def)
  then have "(case r of None \<Rightarrow> -1 | Some j \<Rightarrow> int j) = int i \<longleftrightarrow>
      i < length ts \<and> uint (start_addr (ts ! i)) \<le> uint a \<and> uint a < try_end (ts ! i)" for i
    using r(2) by (cases r) (simp_all add: finds_def)
  moreover have "(case r of None \<Rightarrow> -1 | Some j \<Rightarrow> int j) < 0 \<longleftrightarrow> (case r of None \<Rightarrow> -1 | Some j \<Rightarrow> int j) = -1"
    by (cases r) simp_all
  ultimately show ?thesis by blast
qed

text \<open>A code item at offset 0 with two instruction units, two \<open>try\<close> blocks and no handlers.\<close>

definition sample_code_file :: DexFile where
  "sample_code_file = \<lparr>begin_of = [1, 0, 0, 0, 0, 0, 2, 0, 0, 0, 0, 0, 2, 0, 0, 0, 0, 0, 0, 0,
       0, 0, 0, 0, 1, 0, 9, 0, 1, 0, 0, 0, 1, 0, 9, 0],
     string_ids = 0, type_ids = 0, field_ids = 0, method_ids = 0, proto_ids = 0, class_defs = 0\<rparr>"

lemma sample_try_found:
  "\<exists>r. FindTryItem sample_code_file 0 1 = Some r \<and> r = int 1"
proof -
  have "has_tries sample_code_file 0
     [\<lparr>start_addr = 0, insn_count = 1, handler_off = 9\<rparr>, \<lparr>start_addr = 1, insn_count = 1, handler_off = 9\<rparr>]"
    by code_simp
  from find_try_item_correct [OF this, of 1] show ?thesis
    by (fastforce simp: try_end_def)
qed

section \<open>Encoded values\<close>

text \<open>One step of the four readers: shift the value down one byte and put the next byte on top.\<close>

definition push_top_byte :: "'a::len word \<Rightarrow> u8 \<Rightarrow> 'a word" where
  "push_top_byte val b = drop_bit 8 val OR push_bit (LENGTH('a) - 8) (ucast b)"

text \<open>\<open>zwidth + 1\<close> bytes from \<open>ptr\<close>.\<close>

fun read_bytes :: "buffer \<Rightarrow> ptr \<Rightarrow> nat \<Rightarrow> u8 list option" where
  "read_bytes buf p 0 = Some []"
| "read_bytes buf p (Suc n) = do { b \<leftarrow> load8 buf p; bs \<leftarrow> read_bytes buf (Suc p) n; Some (b # bs) }"

text \<open>The shift by \<open>(3 - zwidth) * 8\<close> is undefined for \<open>zwidth > 3\<close> (7 for the 64-bit readers).\<close>

definition ReadSignedInt :: "buffer \<Rightarrow> ptr \<Rightarrow> nat \<Rightarrow> u32 option" where
  "ReadSignedInt buf p zwidth = do {
     bs \<leftarrow> read_bytes buf p (zwidth + 1);
     let val = foldl push_top_byte 0 bs;
     (if zwidth \<le> 3 then Some (signed_drop_bit ((3 - zwidth) * 8) val) else None)
   }"

definition ReadUnsignedInt :: "buffer \<Rightarrow> ptr \<Rightarrow> nat \<Rightarrow> bool \<Rightarrow> u32 option" where
  "ReadUnsignedInt buf p zwidth fill_on_right = do {
     bs \<leftarrow> read_bytes buf p (zwidth + 1);
     let val = foldl push_top_byte 0 bs;
     (if \<not> fill_on_right
      then if zwidth \<le> 3 then Some (drop_bit ((3 - zwidth) * 8) val) else None
      else Some val)
   }"

definition ReadSignedLong :: "buffer \<Rightarrow> ptr \<Rightarrow> nat \<Rightarrow> u64 option" where
  "ReadSignedLong buf p zwidth = do {
     bs \<leftarrow> read_bytes buf p (zwidth + 1);
     let val = foldl push_top_byte 0 bs;
     (if zwidth \<le> 7 then Some (signed_drop_bit ((7 - zwidth) * 8) val) else None)
   }"

definition ReadUnsignedLong :: "buffer \<Rightarrow> ptr \<Rightarrow> nat \<Rightarrow> bool \<Rightarrow> u64 option" where
  "ReadUnsignedLong buf p zwidth fill_on_right = do {
     bs \<leftarrow> read_bytes buf p (zwidth + 1);
     let val = foldl push_top_byte 0 bs;
     (if \<not> fill_on_right
      then if zwidth \<le> 7 then Some (drop_bit ((7 - zwidth) * 8) val) else None
      else Some val)
   }"

text \<open>The little-endian value of a byte string.\<close>

fun le_value :: "u8 list \<Rightarrow> nat" where
  "le_value [] = 0"
| "le_value (b # bs) = unat b + 256 * le_value bs"

lemma le_value_snoc: "le_value (bs @ [b]) = le_value bs + 256 ^ length bs * unat b"
  by (induction bs) (auto simp: algebra_simps)

lemma le_value_less: "le_value bs < 256 ^ length bs"
proof (induction bs)
  case (Cons b bs)
  have "unat b + 256 * le_value bs < 256 + 256 * le_value bs" using unat_u8_less [of b] by simp
  also have "\<dots> = 256 * (le_value bs + 1)" by simp
  also have "\<dots> \<le> 256 * 256 ^ length bs" using Cons.IH by (intro mult_le_mono2) simp
  finally show ?case by simp
qed simp

lemma unat_push_bit_small:
  fixes w :: "'a::len word"
  assumes "unat w * 2 ^ n < 2 ^ LENGTH('a)"
  shows "unat (push_bit n w) = unat w * 2 ^ n"
proof -
  have "unat (push_bit n w) = take_bit LENGTH('a) (push_bit n (unat w))"
    by (simp only: unsigned_push_bit_eq)
  also have "\<dots> = unat w * 2 ^ n"
    using assms by (simp add: push_bit_eq_mult take_bit_nat_eq_self)
  finally show ?thesis .
qed

lemma push_top_byte_unat:
  fixes val :: "'a::len word"
  assumes "8 \<le> LENGTH('a)"
  shows "unat (push_top_byte val b) = unat val div 256 + unat b * 2 ^ (LENGTH('a) - 8)"
proof -
  let ?w = "LENGTH('a) - 8"
  let ?hi = "push_bit ?w (ucast b) :: 'a word"
  have pow: "(2 :: nat) ^ LENGTH('a) = 256 * 2 ^ ?w"
    using assms power_add [of "2 :: nat" 8 ?w] by simp
  have "\<not> bit (drop_bit 8 val) n \<or> \<not> bit ?hi n" for n
    using assms by (auto simp: bit_simps dest: bit_imp_le_length)
  then have "push_top_byte val b = drop_bit 8 val + ?hi"
    by (simp add: push_top_byte_def disjunctive_add)
  moreover have lo: "unat (drop_bit 8 val) = unat val div 256"
    by (simp only: unat_drop_bit_eq) (simp add: drop_bit_eq_div)
  moreover have hi: "unat ?hi = unat b * 2 ^ ?w"
  proof -
    have "unat (ucast b :: 'a word) = unat b" using assms by (intro unat_ucast_up) simp
    moreover have "unat b * 2 ^ ?w < 2 ^ LENGTH('a)"
      unfolding pow using unat_u8_less [of b] by simp
    ultimately show ?thesis
      by (simp add: unat_push_bit_small)
  qed
  moreover have "unat val div 256 + unat b * 2 ^ ?w < 2 ^ LENGTH('a)"
  proof -
    have "unat val < 2 ^ LENGTH('a)" by (rule unsigned_less)
    then have "unat val div 256 < 2 ^ ?w" using pow by (simp add: div_less_iff_less_mult)
    moreover have "unat b * 2 ^ ?w \<le> 255 * 2 ^ ?w" using unat_u8_less [of b] by simp
    ultimately show ?thesis unfolding pow by linarith
  qed
  ultimately show ?thesis by (simp add: unat_word_ariths)
qed


lemma foldl_push_top_byte:
  assumes "8 * length bs \<le> LENGTH('a::len)"
  shows "unat (foldl push_top_byte (0 :: 'a word) bs) = le_value bs * 2 ^ (LENGTH('a) - 8 * length bs)"
  using assms
proof (induction bs rule: rev_induct)
  case Nil
  then show ?case by simp
next
  case (snoc b bs)
  let ?n = "LENGTH('a) - 8 * length (bs @ [b])"
  have n: "LENGTH('a) - 8 * length bs = 8 + ?n" "LENGTH('a) - 8 = 8 * length bs + ?n" "8 \<le> LENGTH('a)"
    using snoc.prems by simp_all
  have "unat (foldl push_top_byte (0 :: 'a word) (bs @ [b]))
      = le_value bs * 2 ^ (8 + ?n) div 256 + unat b * 2 ^ (8 * length bs + ?n)"
    using snoc push_top_byte_unat [OF n(3), of "foldl push_top_byte 0 bs" b]
    by (simp only: foldl_append foldl.simps n) simp
  also have "le_value bs * 2 ^ (8 + ?n) div 256 = le_value bs * 2 ^ ?n"
    by (simp add: power_add)
  also have "2 ^ (8 * length bs + ?n) = 256 ^ length bs * (2 :: nat) ^ ?n"
    by (simp add: power_add power_mult)
  finally show ?case by (simp add: le_value_snoc algebra_simps)
qed

lemma read_bytes_length: "read_bytes buf p n = Some bs \<Longrightarrow> length bs = n"
  by (induction n arbitrary: p bs) (auto simp: bind_eq_Some_conv)

lemma foldl_push_top_byte_word:
  assumes "8 * length bs \<le> LENGTH('a::len)"
  shows "foldl push_top_byte (0 :: 'a word) bs = push_bit (LENGTH('a) - 8 * length bs) (word_of_nat (le_value bs))"
proof -
  let ?n = "LENGTH('a) - 8 * length bs"
  have pow: "(256 :: nat) ^ length bs * 2 ^ ?n = 2 ^ LENGTH('a)"
  proof -
    have "(256 :: nat) ^ length bs = 2 ^ (8 * length bs)" by (simp add: power_mult)
    then show ?thesis using assms by (simp flip: power_add)
  qed
  have "le_value bs * 2 ^ ?n < 256 ^ length bs * 2 ^ ?n" using le_value_less [of bs] by simp
  then have lt: "le_value bs * 2 ^ ?n < 2 ^ LENGTH('a)" by (simp only: pow)
  moreover have "le_value bs \<le> le_value bs * 2 ^ ?n" by simp
  ultimately have "le_value bs < 2 ^ LENGTH('a)" by (rule le_less_trans [rotated])
  then have "unat (word_of_nat (le_value bs) :: 'a word) = le_value bs"
    by (simp only: unat_of_nat) simp
  with lt have "unat (push_bit ?n (word_of_nat (le_value bs)) :: 'a word) = le_value bs * 2 ^ ?n"
    by (simp add: unat_push_bit_small)
  with foldl_push_top_byte [OF assms] show ?thesis by (simp add: word_unat_eq_iff)
qed

lemma drop_top_bytes_unat:
  assumes "8 * length bs \<le> LENGTH('a::len)"
  shows "unat (drop_bit (LENGTH('a) - 8 * length bs) (foldl push_top_byte (0 :: 'a word) bs)) = le_value bs"
  by (simp only: unat_drop_bit_eq foldl_push_top_byte [OF assms]) (simp add: drop_bit_eq_div)

lemma drop_top_bytes_sint:
  assumes "8 * length bs \<le> LENGTH('a::len)" and "bs \<noteq> []"
  shows "sint (signed_drop_bit (LENGTH('a) - 8 * length bs) (foldl push_top_byte (0 :: 'a word) bs))
    = signed_take_bit (8 * length bs - 1) (int (le_value bs))"
proof (rule bit_eqI)
  fix j
  let ?n = "LENGTH('a) - 8 * length bs" and ?k = "8 * length bs - 1"
  let ?v = "foldl push_top_byte (0 :: 'a word) bs"
  from assms have k: "?n + ?k = LENGTH('a) - 1" "1 \<le> 8 * length bs" by (auto simp: Suc_le_eq)
  have "bit (sint (signed_drop_bit ?n ?v)) j = bit (sint ?v) (?n + j)"
    by (simp only: sint_signed_drop_bit_eq bit_drop_bit_eq comp_def)
  also have "\<dots> = bit ?v (min (LENGTH('a) - 1) (?n + j))"
    by (auto simp: sint_uint bit_signed_take_bit_iff bit_uint_iff min_def)
  also have "min (LENGTH('a) - 1) (?n + j) = ?n + min ?k j" using k by (simp add: min_def)
  also have "bit ?v (?n + min ?k j) = bit (word_of_nat (le_value bs) :: 'a word) (min ?k j)"
    unfolding foldl_push_top_byte_word [OF assms(1)]
    using k assms by (auto simp: bit_simps min_def)
  also have "\<dots> = bit (int (le_value bs)) (min ?k j)"
    using k assms by (auto simp: bit_of_nat_iff min_def)
  finally show "bit (sint (signed_drop_bit ?n ?v)) j = bit (signed_take_bit ?k (int (le_value bs))) j"
    by (simp add: bit_signed_take_bit_iff)
qed

text \<open>
  The readers of encoded static values compute what the format defines: from the \<open>zwidth + 1\<close>
  little-endian bytes, the signed readers return the sign-extended value, the unsigned readers the
  zero-extended value, or the value shifted to the top of the word when filling on the right (floats
  and doubles).
\<close>

theorem encoded_value_readers:
  assumes "read_bytes buf p (zwidth + 1) = Some bs"
  shows "(zwidth \<le> 3 \<longrightarrow>
       map_option sint (ReadSignedInt buf p zwidth)
         = Some (signed_take_bit (8 * zwidth + 7) (int (le_value bs)))
     \<and> map_option unat (ReadUnsignedInt buf p zwidth False) = Some (le_value bs)
     \<and> map_option unat (ReadUnsignedInt buf p zwidth True) = Some (le_value bs * 2 ^ (8 * (3 - zwidth))))
   \<and> (zwidth \<le> 7 \<longrightarrow>
       map_option sint (ReadSignedLong buf p zwidth)
         = Some (signed_take_bit (8 * zwidth + 7) (int (le_value bs)))
     \<and> map_option unat (ReadUnsignedLong buf p zwidth False) = Some (le_value bs)
     \<and> map_option unat (ReadUnsignedLong buf p zwidth True) = Some (le_value bs * 2 ^ (8 * (7 - zwidth))))"
proof (intro conjI impI)
  have len: "length bs = zwidth + 1" using assms by (rule read_bytes_length)
  then have ne: "bs \<noteq> []" by auto
  {
    assume z: "zwidth \<le> 3"
    have n: "LENGTH(32) - 8 * length bs = (3 - zwidth) * 8" "8 * length bs \<le> LENGTH(32)"
      "8 * length bs - 1 = 8 * zwidth + 7"
      using z len by auto
    show "map_option sint (ReadSignedInt buf p zwidth)
         = Some (signed_take_bit (8 * zwidth + 7) (int (le_value bs)))"
      using drop_top_bytes_sint [OF n(2) ne, unfolded n(1,3)] assms z by (simp add: ReadSignedInt_def Let_def)
    show "map_option unat (ReadUnsignedInt buf p zwidth False) = Some (le_value bs)"
      using drop_top_bytes_unat [OF n(2), unfolded n(1,3)] assms z by (simp add: ReadUnsignedInt_def Let_def)
    show "map_option unat (ReadUnsignedInt buf p zwidth True) = Some (le_value bs * 2 ^ (8 * (3 - zwidth)))"
      using foldl_push_top_byte [OF n(2), unfolded n(1,3)] assms z
      by (simp add: ReadUnsignedInt_def Let_def mult.commute)
  }
  {
    assume z: "zwidth \<le> 7"
    have n: "LENGTH(64) - 8 * length bs = (7 - zwidth) * 8" "8 * length bs \<le> LENGTH(64)"
      "8 * length bs - 1 = 8 * zwidth + 7"
      using z len by auto
    show "map_option sint (ReadSignedLong buf p zwidth)
         = Some (signed_take_bit (8 * zwidth + 7) (int (le_value bs)))"
      using drop_top_bytes_sint [OF n(2) ne, unfolded n(1,3)] assms z by (simp add: ReadSignedLong_def Let_def)
    show "map_option unat (ReadUnsignedLong buf p zwidth False) = Some (le_value bs)"
      using drop_top_bytes_unat [OF n(2), unfolded n(1,3)] assms z by (simp add: ReadUnsignedLong_def Let_def)
    show "map_option unat (ReadUnsignedLong buf p zwidth True) = Some (le_value bs * 2 ^ (8 * (7 - zwidth)))"
      using foldl_push_top_byte [OF n(2), unfolded n(1,3)] assms z
      by (simp add: ReadUnsignedLong_def Let_def mult.commute)
  }
qed

theorem encoded_value_readers_witness:
  "map_option sint (ReadSignedInt [0x34, 0xff] 0 1) = Some (- 204)"
proof -
  have "read_bytes [0x34, 0xff] 0 (1 + 1) = Some [0x34, 0xff]" by code_simp
  from encoded_value_readers [OF this] have
    "map_option sint (ReadSignedInt [0x34, 0xff] 0 1) = Some (signed_take_bit 15 65332)"
    by simp
  moreover have "signed_take_bit 15 (65332 :: int) = - 204" by code_simp
  ultimately show ?thesis by simp
qed

end
