(* ===== verification/ClassData.thy ===== *)
theory ClassData
  imports DexFile
begin

text \<open>
  Class data: \<open>ClassDataItemIterator\<close> of \<open>art/runtime/dex_file.h\<close> and \<open>dex_file.cc\<close>, which decodes the
  fields and methods of a class from their LEB128 stream. The iterator's state is a record; \<open>Next\<close>
  and the reads return the new state, or \<open>None\<close> when the stream leaves the file. \<open>pos_\<close> is a
  \<open>size_t\<close>, the ends of the four arrays are \<open>uint32_t\<close> sums, which wrap around.
\<close>

section \<open>The iterator\<close>

record ClassDataHeader =
  static_fields_size :: u32
  instance_fields_size :: u32
  direct_methods_size :: u32
  virtual_methods_size :: u32

record ClassDataField =
  field_idx_delta :: u32
  field_access_flags :: u32

record ClassDataMethod =
  method_idx_delta :: u32
  method_access_flags :: u32
  code_off :: u32

record ClassDataItemIterator =
  header :: ClassDataHeader
  cur_field :: ClassDataField
  cur_method :: ClassDataMethod
  pos :: nat
  ptr_pos :: ptr
  last_idx :: u32

definition EndOfStaticFieldsPos :: "ClassDataItemIterator \<Rightarrow> u32" where
  "EndOfStaticFieldsPos it = static_fields_size (header it)"

definition EndOfInstanceFieldsPos :: "ClassDataItemIterator \<Rightarrow> u32" where
  "EndOfInstanceFieldsPos it = EndOfStaticFieldsPos it + instance_fields_size (header it)"

definition EndOfDirectMethodsPos :: "ClassDataItemIterator \<Rightarrow> u32" where
  "EndOfDirectMethodsPos it = EndOfInstanceFieldsPos it + direct_methods_size (header it)"

definition EndOfVirtualMethodsPos :: "ClassDataItemIterator \<Rightarrow> u32" where
  "EndOfVirtualMethodsPos it = EndOfDirectMethodsPos it + virtual_methods_size (header it)"

definition HasNextStaticField :: "ClassDataItemIterator \<Rightarrow> bool" where
  "HasNextStaticField it \<longleftrightarrow> pos it < unat (EndOfStaticFieldsPos it)"

definition HasNextInstanceField :: "ClassDataItemIterator \<Rightarrow> bool" where
  "HasNextInstanceField it \<longleftrightarrow>
     unat (EndOfStaticFieldsPos it) \<le> pos it \<and> pos it < unat (EndOfInstanceFieldsPos it)"

definition HasNextDirectMethod :: "ClassDataItemIterator \<Rightarrow> bool" where
  "HasNextDirectMethod it \<longleftrightarrow>
     unat (EndOfInstanceFieldsPos it) \<le> pos it \<and> pos it < unat (EndOfDirectMethodsPos it)"

definition HasNextVirtualMethod :: "ClassDataItemIterator \<Rightarrow> bool" where
  "HasNextVirtualMethod it \<longleftrightarrow>
     unat (EndOfDirectMethodsPos it) \<le> pos it \<and> pos it < unat (EndOfVirtualMethodsPos it)"

definition cdi_HasNext :: "ClassDataItemIterator \<Rightarrow> bool" where
  "cdi_HasNext it \<longleftrightarrow> pos it < unat (EndOfVirtualMethodsPos it)"

definition ReadClassDataHeader :: "buffer \<Rightarrow> ptr \<Rightarrow> (ClassDataHeader \<times> ptr) option" where
  "ReadClassDataHeader buf p = do {
     (s, p) \<leftarrow> DecodeUnsignedLeb128 buf p;
     (i, p) \<leftarrow> DecodeUnsignedLeb128 buf p;
     (d, p) \<leftarrow> DecodeUnsignedLeb128 buf p;
     (v, p) \<leftarrow> DecodeUnsignedLeb128 buf p;
     Some (\<lparr>static_fields_size = s, instance_fields_size = i, direct_methods_size = d,
            virtual_methods_size = v\<rparr>, p)
   }"

text \<open>The two reads only log a warning when a delta of 0 repeats an index.\<close>

definition ReadClassDataField :: "buffer \<Rightarrow> ClassDataItemIterator \<Rightarrow> ClassDataItemIterator option" where
  "ReadClassDataField buf it = do {
     (delta, p) \<leftarrow> DecodeUnsignedLeb128 buf (ptr_pos it);
     (flags, p) \<leftarrow> DecodeUnsignedLeb128 buf p;
     Some (it\<lparr>cur_field := \<lparr>field_idx_delta = delta, field_access_flags = flags\<rparr>, ptr_pos := p\<rparr>)
   }"

definition ReadClassDataMethod :: "buffer \<Rightarrow> ClassDataItemIterator \<Rightarrow> ClassDataItemIterator option" where
  "ReadClassDataMethod buf it = do {
     (delta, p) \<leftarrow> DecodeUnsignedLeb128 buf (ptr_pos it);
     (flags, p) \<leftarrow> DecodeUnsignedLeb128 buf p;
     (code, p) \<leftarrow> DecodeUnsignedLeb128 buf p;
     Some (it\<lparr>cur_method := \<lparr>method_idx_delta = delta, method_access_flags = flags, code_off = code\<rparr>,
              ptr_pos := p\<rparr>)
   }"

text \<open>The constructor: \<open>field_\<close> and \<open>method_\<close> start as zeros.\<close>

definition make_ClassDataItemIterator :: "buffer \<Rightarrow> ptr \<Rightarrow> ClassDataItemIterator option" where
  "make_ClassDataItemIterator buf raw_class_data_item = do {
     (h, p) \<leftarrow> ReadClassDataHeader buf raw_class_data_item;
     let it = \<lparr>header = h, cur_field = \<lparr>field_idx_delta = 0, field_access_flags = 0\<rparr>,
       cur_method = \<lparr>method_idx_delta = 0, method_access_flags = 0, code_off = 0\<rparr>,
       pos = 0, ptr_pos = p, last_idx = 0\<rparr>;
     (if EndOfInstanceFieldsPos it > 0 then ReadClassDataField buf it
      else if EndOfVirtualMethodsPos it > 0 then ReadClassDataMethod buf it
      else Some it)
   }"

definition GetMemberIndex :: "ClassDataItemIterator \<Rightarrow> u32" where
  "GetMemberIndex it =
     (if pos it < unat (EndOfInstanceFieldsPos it)
      then last_idx it + field_idx_delta (cur_field it)
      else last_idx it + method_idx_delta (cur_method it))"

definition GetRawMemberAccessFlags :: "ClassDataItemIterator \<Rightarrow> u32" where
  "GetRawMemberAccessFlags it =
     (if pos it < unat (EndOfInstanceFieldsPos it)
      then field_access_flags (cur_field it) else method_access_flags (cur_method it))"

definition cdi_Next :: "buffer \<Rightarrow> ClassDataItemIterator \<Rightarrow> ClassDataItemIterator option" where
  "cdi_Next buf it0 =
     (let it = it0\<lparr>pos := Suc (pos it0)\<rparr> in
      if pos it < unat (EndOfStaticFieldsPos it)
      then ReadClassDataField buf (it\<lparr>last_idx := GetMemberIndex it\<rparr>)
      else if pos it = unat (EndOfStaticFieldsPos it) \<and> instance_fields_size (header it) > 0
      then ReadClassDataField buf (it\<lparr>last_idx := 0\<rparr>)
      else if pos it < unat (EndOfInstanceFieldsPos it)
      then ReadClassDataField buf (it\<lparr>last_idx := GetMemberIndex it\<rparr>)
      else if pos it = unat (EndOfInstanceFieldsPos it) \<and> direct_methods_size (header it) > 0
      then ReadClassDataMethod buf (it\<lparr>last_idx := 0\<rparr>)
      else if pos it < unat (EndOfDirectMethodsPos it)
      then ReadClassDataMethod buf (it\<lparr>last_idx := GetMemberIndex it\<rparr>)
      else if pos it = unat (EndOfDirectMethodsPos it) \<and> virtual_methods_size (header it) > 0
      then ReadClassDataMethod buf (it\<lparr>last_idx := 0\<rparr>)
      else if pos it < unat (EndOfVirtualMethodsPos it)
      then ReadClassDataMethod buf (it\<lparr>last_idx := GetMemberIndex it\<rparr>)
      else Some it)"

abbreviation (input) kAccStatic :: u32 where "kAccStatic \<equiv> 0x0008"
abbreviation (input) kAccInterface :: u32 where "kAccInterface \<equiv> 0x0200"
abbreviation (input) kAccConstructor :: u32 where "kAccConstructor \<equiv> 0x00010000"
abbreviation (input) kAccNative :: u32 where "kAccNative \<equiv> 0x0100"
abbreviation (input) kAccFinal :: u32 where "kAccFinal \<equiv> 0x0010"

definition MemberIsNative :: "ClassDataItemIterator \<Rightarrow> bool" where
  "MemberIsNative it \<longleftrightarrow> GetRawMemberAccessFlags it AND kAccNative \<noteq> 0"

definition MemberIsFinal :: "ClassDataItemIterator \<Rightarrow> bool" where
  "MemberIsFinal it \<longleftrightarrow> GetRawMemberAccessFlags it AND kAccFinal \<noteq> 0"

datatype InvokeType = kStatic | kDirect | kVirtual | kSuper | kInterface

definition GetMethodInvokeType :: "ClassDef \<Rightarrow> ClassDataItemIterator \<Rightarrow> InvokeType" where
  "GetMethodInvokeType class_def it =
     (if HasNextDirectMethod it
      then if GetRawMemberAccessFlags it AND kAccStatic \<noteq> 0 then kStatic else kDirect
      else if access_flags class_def AND kAccInterface \<noteq> 0 then kInterface
      else if GetRawMemberAccessFlags it AND kAccConstructor \<noteq> 0 then kSuper
      else kVirtual)"

definition GetMethodCodeItem :: "ClassDataItemIterator \<Rightarrow> ptr option" where
  "GetMethodCodeItem it = GetCodeItem (code_off (cur_method it))"

definition GetMethodCodeItemOffset :: "ClassDataItemIterator \<Rightarrow> u32" where
  "GetMethodCodeItemOffset it = code_off (cur_method it)"

definition cdi_EndDataPointer :: "ClassDataItemIterator \<Rightarrow> ptr option" where
  "cdi_EndDataPointer it = (if cdi_HasNext it then None else Some (ptr_pos it))"

section \<open>Walking a class\<close>

text \<open>What a loop over the iterator sees at each member: the record it decoded and its index.\<close>

datatype cdi_member = FieldMember ClassDataField u32 | MethodMember ClassDataMethod u32

definition current_member :: "ClassDataItemIterator \<Rightarrow> cdi_member" where
  "current_member it =
     (if pos it < unat (EndOfInstanceFieldsPos it)
      then FieldMember (cur_field it) (GetMemberIndex it)
      else MethodMember (cur_method it) (GetMemberIndex it))"

lemma read_keeps:
  "ReadClassDataField buf it = Some it' \<Longrightarrow> header it' = header it \<and> pos it' = pos it"
  "ReadClassDataMethod buf it = Some it' \<Longrightarrow> header it' = header it \<and> pos it' = pos it"
  by (auto simp: ReadClassDataField_def ReadClassDataMethod_def bind_eq_Some_conv)

lemma cdi_Next_keeps: "cdi_Next buf it = Some it' \<Longrightarrow> header it' = header it \<and> pos it' = Suc (pos it)"
  by (auto simp: cdi_Next_def Let_def dest!: read_keeps split: if_splits)

lemma cdi_Next_measure:
  "cdi_HasNext it \<Longrightarrow> cdi_Next buf it = Some it' \<Longrightarrow>
     unat (EndOfVirtualMethodsPos it') - pos it' < unat (EndOfVirtualMethodsPos it) - pos it"
  by (drule cdi_Next_keeps)
    (simp add: cdi_HasNext_def EndOfVirtualMethodsPos_def EndOfDirectMethodsPos_def
      EndOfInstanceFieldsPos_def EndOfStaticFieldsPos_def)

text \<open>The loop \<open>while (it.HasNext()) { ... it.Next(); }\<close>, with the iterator at its end.\<close>

function cdi_walk :: "buffer \<Rightarrow> ClassDataItemIterator \<Rightarrow> (cdi_member list \<times> ClassDataItemIterator) option" where
  "cdi_walk buf it =
     (if cdi_HasNext it
      then (case cdi_Next buf it of
              None \<Rightarrow> None
            | Some it' \<Rightarrow> map_option (\<lambda>(ms, e). (current_member it # ms, e)) (cdi_walk buf it'))
      else Some ([], it))"
  by pat_completeness auto
termination
  by (relation "measure (\<lambda>(buf, it). unat (EndOfVirtualMethodsPos it) - pos it)")
    (auto dest: cdi_Next_measure)

declare cdi_walk.simps [simp del]

section \<open>The format of class data\<close>

definition field_bytes :: "ClassDataField \<Rightarrow> u8 list" where
  "field_bytes f = uleb (field_idx_delta f) @ uleb (field_access_flags f)"

definition method_bytes :: "ClassDataMethod \<Rightarrow> u8 list" where
  "method_bytes m = uleb (method_idx_delta m) @ uleb (method_access_flags m) @ uleb (code_off m)"

definition header_bytes :: "ClassDataHeader \<Rightarrow> u8 list" where
  "header_bytes h = uleb (static_fields_size h) @ uleb (instance_fields_size h)
     @ uleb (direct_methods_size h) @ uleb (virtual_methods_size h)"

datatype cdi_item = FieldItem ClassDataField | MethodItem ClassDataMethod

fun item_bytes :: "cdi_item \<Rightarrow> u8 list" where
  "item_bytes (FieldItem f) = field_bytes f"
| "item_bytes (MethodItem m) = method_bytes m"

fun item_delta :: "cdi_item \<Rightarrow> u32" where
  "item_delta (FieldItem f) = field_idx_delta f"
| "item_delta (MethodItem m) = method_idx_delta m"

fun item_member :: "cdi_item \<Rightarrow> u32 \<Rightarrow> cdi_member" where
  "item_member (FieldItem f) = FieldMember f"
| "item_member (MethodItem m) = MethodMember m"

text \<open>A header fits its lists: the counts are the lengths and their sum does not wrap.\<close>

definition counts_ok :: "ClassDataHeader \<Rightarrow> ClassDataField list \<Rightarrow> ClassDataMethod list \<Rightarrow> bool" where
  "counts_ok h fs ms \<longleftrightarrow>
     unat (static_fields_size h) + unat (instance_fields_size h) = length fs
   \<and> unat (direct_methods_size h) + unat (virtual_methods_size h) = length ms
   \<and> length fs + length ms < 2 ^ 32"

text \<open>The index before a member's delta is added: 0 at the start of each of the four arrays,
  otherwise the index of the previous member.\<close>

fun base_index :: "ClassDataHeader \<Rightarrow> cdi_item list \<Rightarrow> nat \<Rightarrow> u32" where
  "base_index h items 0 = 0"
| "base_index h items (Suc k) =
     (let s = unat (static_fields_size h); i = s + unat (instance_fields_size h);
          d = i + unat (direct_methods_size h)
      in if Suc k = s \<or> Suc k = i \<or> Suc k = d then 0
         else base_index h items k + item_delta (items ! k))"

definition class_members ::
  "ClassDataHeader \<Rightarrow> ClassDataField list \<Rightarrow> ClassDataMethod list \<Rightarrow> cdi_member list" where
  "class_members h fs ms =
     (let items = map FieldItem fs @ map MethodItem ms
      in map (\<lambda>k. item_member (items ! k) (base_index h items k + item_delta (items ! k)))
           [0..<length items])"

definition class_data_bytes ::
  "ClassDataHeader \<Rightarrow> ClassDataField list \<Rightarrow> ClassDataMethod list \<Rightarrow> u8 list" where
  "class_data_bytes h fs ms =
     header_bytes h @ concat (map item_bytes (map FieldItem fs @ map MethodItem ms))"

lemma ReadClassDataHeader_bytes:
  "bytes_at buf p (header_bytes h) \<Longrightarrow>
     ReadClassDataHeader buf p = Some (h, p + length (header_bytes h))"
  by (cases h)
    (auto simp: ReadClassDataHeader_def header_bytes_def add.assoc dest!: unsigned_leb.dec_enc)

text \<open>A member starts with two numbers, its delta and its flags: a codec of two codecs.\<close>

interpretation member_head: codec_seq uleb DecodeUnsignedLeb128 uleb DecodeUnsignedLeb128
  by unfold_locales

lemma ReadClassDataField_bytes:
  "bytes_at buf (ptr_pos it) (field_bytes f) \<Longrightarrow>
     ReadClassDataField buf it =
       Some (it\<lparr>cur_field := f, ptr_pos := ptr_pos it + length (field_bytes f)\<rparr>)"
  using member_head.AB.dec_enc [of buf "ptr_pos it" "(field_idx_delta f, field_access_flags f)"]
  by (auto simp: ReadClassDataField_def field_bytes_def enc_pair_def dec_pair_def split: option.splits)

lemma ReadClassDataMethod_bytes:
  "bytes_at buf (ptr_pos it) (method_bytes m) \<Longrightarrow>
     ReadClassDataMethod buf it =
       Some (it\<lparr>cur_method := m, ptr_pos := ptr_pos it + length (method_bytes m)\<rparr>)"
  by (cases m)
    (auto simp: ReadClassDataMethod_def method_bytes_def add.assoc dest!: unsigned_leb.dec_enc)

lemma bytes_at_concat_nth:
  assumes "bytes_at buf p (concat (map enc xs))" and "k < length xs"
  shows "bytes_at buf (p + length (concat (map enc (take k xs)))) (enc (xs ! k))"
proof -
  have "concat (map enc xs) = concat (map enc (take k xs)) @ enc (xs ! k) @ concat (map enc (drop (Suc k) xs))"
    using assms(2) by (metis append_Cons append_take_drop_id concat.simps(2) concat_append
        Cons_nth_drop_Suc list.simps(9) map_append)
  with assms(1) show ?thesis by simp
qed

text \<open>The iterator stands at member \<open>k\<close> of the items that start at \<open>p0\<close>.\<close>

definition cdi_at :: "ptr \<Rightarrow> ClassDataHeader \<Rightarrow> cdi_item list \<Rightarrow> nat \<Rightarrow> ClassDataItemIterator \<Rightarrow> bool" where
  "cdi_at p0 h items k it \<longleftrightarrow>
     header it = h \<and> pos it = k \<and> last_idx it = base_index h items k
   \<and> ptr_pos it = p0 + length (concat (map item_bytes (take (Suc k) items)))
   \<and> (case items ! k of FieldItem f \<Rightarrow> cur_field it = f | MethodItem m \<Rightarrow> cur_method it = m)"

lemma unat_plus_small: "unat (a :: u32) + unat b < 2 ^ 32 \<Longrightarrow> unat (a + b) = unat a + unat b"
  by (simp add: unat_word_ariths)

lemma ends:
  assumes "counts_ok h fs ms" and "header it = h"
  shows "unat (EndOfStaticFieldsPos it) = unat (static_fields_size h)"
    and "unat (EndOfInstanceFieldsPos it) = length fs"
    and "unat (EndOfDirectMethodsPos it) = length fs + unat (direct_methods_size h)"
    and "unat (EndOfVirtualMethodsPos it) = length fs + length ms"
proof -
  show s: "unat (EndOfStaticFieldsPos it) = unat (static_fields_size h)"
    using assms(2) by (simp add: EndOfStaticFieldsPos_def)
  show i: "unat (EndOfInstanceFieldsPos it) = length fs"
    unfolding EndOfInstanceFieldsPos_def
    using assms s by (subst unat_plus_small) (auto simp: counts_ok_def)
  show d: "unat (EndOfDirectMethodsPos it) = length fs + unat (direct_methods_size h)"
    unfolding EndOfDirectMethodsPos_def
    using assms i by (subst unat_plus_small) (auto simp: counts_ok_def)
  show "unat (EndOfVirtualMethodsPos it) = length fs + length ms"
    unfolding EndOfVirtualMethodsPos_def
    using assms d by (subst unat_plus_small) (auto simp: counts_ok_def)
qed

lemma items_nth:
  "k < length fs \<Longrightarrow> (map FieldItem fs @ map MethodItem ms) ! k = FieldItem (fs ! k)"
  "length fs \<le> k \<Longrightarrow> k < length fs + length ms \<Longrightarrow>
     (map FieldItem fs @ map MethodItem ms) ! k = MethodItem (ms ! (k - length fs))"
  by (simp_all add: nth_append)

lemma current_member_at:
  assumes "counts_ok h fs ms" and "items = map FieldItem fs @ map MethodItem ms"
    and "cdi_at p0 h items k it" and "k < length items"
  shows "current_member it = item_member (items ! k) (base_index h items k + item_delta (items ! k))"
    and "GetMemberIndex it = base_index h items k + item_delta (items ! k)"
    and "pos it < unat (EndOfInstanceFieldsPos it) \<longleftrightarrow> k < length fs"
    and "k < length fs \<Longrightarrow> cur_field it = fs ! k"
    and "length fs \<le> k \<Longrightarrow> cur_method it = ms ! (k - length fs)"
proof -
  have h: "header it = h" and k: "pos it = k" using assms(3) by (simp_all add: cdi_at_def)
  note e = ends [OF assms(1) h]
  show m: "pos it < unat (EndOfInstanceFieldsPos it) \<longleftrightarrow> k < length fs" using e k by simp
  show f: "k < length fs \<Longrightarrow> cur_field it = fs ! k"
    using assms(2,3) by (simp add: cdi_at_def items_nth)
  show g: "length fs \<le> k \<Longrightarrow> cur_method it = ms ! (k - length fs)"
    using assms(2,3,4) by (simp add: cdi_at_def items_nth)
  show "GetMemberIndex it = base_index h items k + item_delta (items ! k)"
    using m f g assms by (cases "k < length fs") (simp_all add: GetMemberIndex_def items_nth cdi_at_def)
  then show "current_member it = item_member (items ! k) (base_index h items k + item_delta (items ! k))"
    using m f g assms by (cases "k < length fs") (simp_all add: current_member_def items_nth)
qed

lemma take_Suc_bytes:
  "k < length items \<Longrightarrow> length (concat (map item_bytes (take (Suc k) items)))
     = length (concat (map item_bytes (take k items))) + length (item_bytes (items ! k))"
  by (simp add: take_Suc_conv_app_nth)

lemma cdi_Next_step:
  assumes "counts_ok h fs ms" and items: "items = map FieldItem fs @ map MethodItem ms"
    and "bytes_at buf p0 (concat (map item_bytes items))"
    and at: "cdi_at p0 h items k it" and k: "Suc k < length items"
  shows "\<exists>it'. cdi_Next buf it = Some it' \<and> cdi_at p0 h items (Suc k) it'"
proof -
  let ?it = "it\<lparr>pos := Suc k\<rparr>"
  have h: "header it = h" and p: "pos it = k"
    and ptr: "ptr_pos it = p0 + length (concat (map item_bytes (take (Suc k) items)))"
    using at by (simp_all add: cdi_at_def)
  note e = ends [OF assms(1), of ?it, simplified, OF h]
  note c = assms(1) [unfolded counts_ok_def]
  have len: "length items = length fs + length ms" by (simp add: items)
  have cur: "field_idx_delta (cur_field it) = item_delta (items ! k)" if "k < length fs"
    using current_member_at(4) [OF assms(1) items at] k that by (simp add: items items_nth)
  have curm: "method_idx_delta (cur_method it) = item_delta (items ! k)" if "length fs \<le> k"
    using current_member_at(5) [OF assms(1) items at] k that by (simp add: items items_nth)
  have last: "last_idx it = base_index h items k" using at by (simp add: cdi_at_def)
  have bytes: "bytes_at buf (ptr_pos it) (item_bytes (items ! Suc k))"
    using bytes_at_concat_nth [OF assms(3) k] by (simp add: ptr)
  show ?thesis
  proof (cases "Suc k < length fs")
    case True
    then have "bytes_at buf (ptr_pos (?it\<lparr>last_idx := l\<rparr>)) (field_bytes (fs ! Suc k))" for l
      using bytes by (simp add: items items_nth)
    note rd = this [THEN ReadClassDataField_bytes]
    have "cdi_Next buf it = ReadClassDataField buf (?it\<lparr>last_idx := base_index h items (Suc k)\<rparr>)"
      using True e h p c cur last
      by (auto simp: cdi_Next_def Let_def GetMemberIndex_def word_less_nat_alt)
    then show ?thesis
      using rd [of "base_index h items (Suc k)"] True k h ptr take_Suc_bytes [OF k]
      by (simp add: cdi_at_def items items_nth del: base_index.simps take_Suc)
  next
    case False
    then have "bytes_at buf (ptr_pos (?it\<lparr>last_idx := l\<rparr>)) (method_bytes (ms ! (Suc k - length fs)))" for l
      using bytes k by (simp add: items items_nth)
    note rd = this [THEN ReadClassDataMethod_bytes]
    have "cdi_Next buf it = ReadClassDataMethod buf (?it\<lparr>last_idx := base_index h items (Suc k)\<rparr>)"
      using False e h p c curm last k len
      by (auto simp: cdi_Next_def Let_def GetMemberIndex_def word_less_nat_alt)
    then show ?thesis
      using rd [of "base_index h items (Suc k)"] False k h ptr take_Suc_bytes [OF k]
      by (simp add: cdi_at_def items items_nth del: base_index.simps take_Suc)
  qed
qed

lemma cdi_Next_last:
  assumes "counts_ok h fs ms" and items: "items = map FieldItem fs @ map MethodItem ms"
    and at: "cdi_at p0 h items k it" and k: "Suc k = length items"
  shows "cdi_Next buf it = Some (it\<lparr>pos := Suc k\<rparr>)"
proof -
  have h: "header it = h" and p: "pos it = k" using at by (simp_all add: cdi_at_def)
  note e = ends [OF assms(1), of "it\<lparr>pos := Suc k\<rparr>", simplified, OF h]
  show ?thesis
    using e h p k assms(1)
    by (auto simp: cdi_Next_def Let_def items counts_ok_def word_less_nat_alt)
qed

lemma cdi_walk_from:
  assumes "counts_ok h fs ms" and items: "items = map FieldItem fs @ map MethodItem ms"
    and "bytes_at buf p0 (concat (map item_bytes items))"
    and "cdi_at p0 h items k it" and "k < length items"
  shows "\<exists>e. cdi_walk buf it = Some (map (\<lambda>j. item_member (items ! j)
        (base_index h items j + item_delta (items ! j))) [k..<length items], e)
    \<and> cdi_EndDataPointer e = Some (p0 + length (concat (map item_bytes items)))"
  using assms(4,5)
proof (induction "length items - k" arbitrary: k it)
  case 0
  then show ?case by simp
next
  case (Suc n)
  have h: "header it = h" and p: "pos it = k" using Suc.prems by (simp_all add: cdi_at_def)
  note e = ends [OF assms(1) h]
  have has: "cdi_HasNext it" using e p Suc.prems by (simp add: cdi_HasNext_def items)
  note cur = current_member_at(1) [OF assms(1,2) Suc.prems]
  have upt: "[k..<length items] = k # [Suc k..<length items]" using Suc.prems(2) by (rule upt_conv_Cons)
  show ?case
  proof (cases "Suc k < length items")
    case True
    obtain it' where nxt: "cdi_Next buf it = Some it'" "cdi_at p0 h items (Suc k) it'"
      using cdi_Next_step [OF assms(1-3) Suc.prems(1) True] by blast
    have "n = length items - Suc k" using Suc.hyps(2) by simp
    from Suc.hyps(1) [OF this nxt(2) True] obtain e' where
      "cdi_walk buf it' = Some (map (\<lambda>j. item_member (items ! j)
        (base_index h items j + item_delta (items ! j))) [Suc k..<length items], e')"
      "cdi_EndDataPointer e' = Some (p0 + length (concat (map item_bytes items)))"
      by blast
    with has nxt(1) cur show ?thesis by (subst cdi_walk.simps) (simp add: upt)
  next
    case False
    then have last: "Suc k = length items" using Suc.prems(2) by simp
    let ?e = "it\<lparr>pos := Suc k\<rparr>"
    note e' = ends [OF assms(1), of ?e, simplified, OF h]
    have "\<not> cdi_HasNext ?e" using e' last by (simp add: cdi_HasNext_def items)
    moreover have "ptr_pos it = p0 + length (concat (map item_bytes items))"
      using Suc.prems(1) last by (simp add: cdi_at_def)
    moreover have "[Suc k..<length items] = []" using last by simp
    ultimately show ?thesis
      using has cur cdi_Next_last [OF assms(1,2) Suc.prems(1) last]
      by (subst cdi_walk.simps)
        (simp add: upt cdi_walk.simps [of buf ?e] cdi_EndDataPointer_def del: upt_Suc)
  qed
qed

lemma make_ClassDataItemIterator_bytes:
  assumes "counts_ok h fs ms" and "items = map FieldItem fs @ map MethodItem ms"
    and "bytes_at buf p (class_data_bytes h fs ms)"
  shows "\<exists>it. make_ClassDataItemIterator buf p = Some it \<and> header it = h \<and> pos it = 0
    \<and> (if items = [] then ptr_pos it = p + length (header_bytes h)
       else cdi_at (p + length (header_bytes h)) h items 0 it)"
proof -
  let ?p = "p + length (header_bytes h)"
  have hd: "ReadClassDataHeader buf p = Some (h, ?p)"
    and bytes: "bytes_at buf ?p (concat (map item_bytes items))"
    using assms by (simp_all add: class_data_bytes_def ReadClassDataHeader_bytes)
  define it0 where "it0 = \<lparr>header = h, cur_field = \<lparr>field_idx_delta = 0, field_access_flags = 0\<rparr>,
       cur_method = \<lparr>method_idx_delta = 0, method_access_flags = 0, code_off = 0\<rparr>,
       pos = 0, ptr_pos = ?p, last_idx = 0\<rparr>"
  have h0: "header it0 = h" by (simp add: it0_def)
  note e = ends [OF assms(1) h0]
  have mk: "make_ClassDataItemIterator buf p =
      (if 0 < length fs then ReadClassDataField buf it0
       else if 0 < length fs + length ms then ReadClassDataMethod buf it0 else Some it0)"
    using e by (simp add: make_ClassDataItemIterator_def hd it0_def word_less_nat_alt Let_def)
  show ?thesis
  proof (cases fs)
    case (Cons f fs')
    then have "bytes_at buf (ptr_pos it0) (field_bytes f)"
      using bytes by (simp add: assms(2) it0_def)
    from ReadClassDataField_bytes [OF this] show ?thesis
      using Cons mk by (simp add: assms(2) cdi_at_def it0_def)
  next
    case Nil
    show ?thesis
    proof (cases ms)
      case Nil
      with \<open>fs = []\<close> mk show ?thesis by (simp add: assms(2) it0_def)
    next
      case (Cons m ms')
      then have "bytes_at buf (ptr_pos it0) (method_bytes m)"
        using bytes \<open>fs = []\<close> by (simp add: assms(2) it0_def)
      from ReadClassDataMethod_bytes [OF this] show ?thesis
        using Cons mk \<open>fs = []\<close> by (simp add: assms(2) cdi_at_def it0_def)
    qed
  qed
qed

lemma class_data_iteration:
  assumes "counts_ok h fs ms" and "bytes_at buf p (class_data_bytes h fs ms)"
  shows "\<exists>it e. make_ClassDataItemIterator buf p = Some it \<and> header it = h
    \<and> cdi_walk buf it = Some (class_members h fs ms, e)
    \<and> cdi_EndDataPointer e = Some (p + length (class_data_bytes h fs ms))"
proof -
  define items where "items = map FieldItem fs @ map MethodItem ms"
  let ?p = "p + length (header_bytes h)"
  obtain it where it: "make_ClassDataItemIterator buf p = Some it" "header it = h" "pos it = 0"
    "if items = [] then ptr_pos it = ?p else cdi_at ?p h items 0 it"
    using make_ClassDataItemIterator_bytes [OF assms(1) items_def assms(2)] by blast
  have len: "length (class_data_bytes h fs ms) = length (header_bytes h) + length (concat (map item_bytes items))"
    by (simp add: class_data_bytes_def items_def)
  have mem: "class_members h fs ms = map (\<lambda>j. item_member (items ! j)
        (base_index h items j + item_delta (items ! j))) [0..<length items]"
    by (simp add: class_members_def items_def Let_def)
  show ?thesis
  proof (cases "items = []")
    case True
    then have "\<not> cdi_HasNext it"
      using ends(4) [OF assms(1) it(2)] by (simp add: cdi_HasNext_def items_def)
    with True it len show ?thesis
      by (simp add: mem cdi_walk.simps [of buf it] cdi_EndDataPointer_def)
  next
    case False
    have "bytes_at buf ?p (concat (map item_bytes items))"
      using assms(2) by (simp add: class_data_bytes_def items_def)
    from cdi_walk_from [OF assms(1) items_def this, of 0 it] it False show ?thesis
      by (auto simp: mem len add.assoc)
  qed
qed

end
