(* ===== verification/DexBuilder.thy ===== *)
theory DexBuilder
  imports ClassData
begin

text \<open>
  The DEX builder: \<open>ArtMethod::DexBuilder\<close> of \<open>art/runtime/art_method.h\<close> and \<open>art_method.cc\<close>, and the
  class data it writes (\<open>art/runtime/gerat/util/Defs.h\<close>, \<open>Defs.cc\<close>). The rebuilt file is a buffer of its
  own, \<open>dex_file_m\<close>; the builder's pointers into it are offsets. The C++ code writes through them
  without a bounds check: a write past the end is \<open>None\<close>.
\<close>

section \<open>Class data in memory\<close>

record ClassDataMethodMem = ClassDataMethod +
  mem_method_idx :: u16

record ClassDataItemMem =
  mem_class_idx :: u16
  mem_static_fields_size :: u32
  mem_instance_fields_size :: u32
  mem_direct_methods_size :: u32
  mem_virtual_methods_size :: u32
  mem_fields :: "ClassDataField list"
  mem_methods :: "ClassDataMethodMem list"

fun encode_fields :: "ClassDataField list \<Rightarrow> buffer \<Rightarrow> ptr \<Rightarrow> (buffer \<times> ptr) option" where
  "encode_fields [] buf p = Some (buf, p)"
| "encode_fields (f # fs) buf p = do {
     (buf, p) \<leftarrow> gerat_EncodeUnsignedLeb128 buf p (field_idx_delta f);
     (buf, p) \<leftarrow> gerat_EncodeUnsignedLeb128 buf p (field_access_flags f);
     encode_fields fs buf p
   }"

fun encode_methods :: "ClassDataMethodMem list \<Rightarrow> buffer \<Rightarrow> ptr \<Rightarrow> (buffer \<times> ptr) option" where
  "encode_methods [] buf p = Some (buf, p)"
| "encode_methods (m # ms) buf p = do {
     (buf, p) \<leftarrow> gerat_EncodeUnsignedLeb128 buf p (method_idx_delta m);
     (buf, p) \<leftarrow> gerat_EncodeUnsignedLeb128 buf p (method_access_flags m);
     (buf, p) \<leftarrow> gerat_EncodeUnsignedLeb128 buf p (code_off m);
     encode_methods ms buf p
   }"

definition encode :: "ClassDataItemMem \<Rightarrow> buffer \<Rightarrow> ptr \<Rightarrow> (buffer \<times> ptr) option" where
  "encode item buf p = do {
     (buf, p) \<leftarrow> gerat_EncodeUnsignedLeb128 buf p (mem_static_fields_size item);
     (buf, p) \<leftarrow> gerat_EncodeUnsignedLeb128 buf p (mem_instance_fields_size item);
     (buf, p) \<leftarrow> gerat_EncodeUnsignedLeb128 buf p (mem_direct_methods_size item);
     (buf, p) \<leftarrow> gerat_EncodeUnsignedLeb128 buf p (mem_virtual_methods_size item);
     (buf, p) \<leftarrow> encode_fields (mem_fields item) buf p;
     encode_methods (mem_methods item) buf p
   }"

section \<open>The builder\<close>

record DexBuilder =
  code_item_offset_map :: "u32 \<Rightarrow> u32 option"
  class_data_offset_map :: "u16 \<Rightarrow> u32 option"
  code_item_seg :: buffer
  class_data_item_seg :: buffer
  cur_code_item_offset :: ptr
  cur_class_data_offset :: ptr
  class_data_addr :: ptr
  code_item_addr :: ptr
  class_data_items :: "ClassDataItemMem list"
  dex_begin :: ptr
  dex_size :: nat

text \<open>\<open>new DexBuilder()\<close> zeroes the object.\<close>

definition new_DexBuilder :: DexBuilder where
  "new_DexBuilder =
     \<lparr>code_item_offset_map = (\<lambda>_. None), class_data_offset_map = (\<lambda>_. None), code_item_seg = [],
      class_data_item_seg = [], cur_code_item_offset = 0, cur_class_data_offset = 0,
      class_data_addr = 0, code_item_addr = 0, class_data_items = [], dex_begin = 0, dex_size = 0\<rparr>"

text \<open>\<open>uint32_t seg_size = dex_file->Size()\<close>; a cursor is kept as its distance from its segment.\<close>

definition init_segments :: "DexFile \<Rightarrow> DexBuilder \<Rightarrow> DexBuilder" where
  "init_segments d b =
     (let seg_size = word_of_nat (Size d) :: u32
      in b\<lparr>class_data_item_seg := replicate (unat seg_size) 0, cur_class_data_offset := 0,
           code_item_seg := replicate (unat seg_size) 0, cur_code_item_offset := 0\<rparr>)"

definition get_dex_max_seg_size :: "DexFile \<Rightarrow> u32" where
  "get_dex_max_seg_size d = word_of_nat (Size d)"

text \<open>The body is empty: classes that resolve contribute nothing.\<close>

definition build_ClassDataItem :: "DexBuilder \<Rightarrow> DexBuilder" where
  "build_ClassDataItem b = b"

definition ptr_diff32 :: "ptr \<Rightarrow> ptr \<Rightarrow> u32" where
  "ptr_diff32 p q = word_of_int (int p - int q)"

definition repair_Header :: "DexFile \<Rightarrow> DexBuilder \<Rightarrow> buffer \<Rightarrow> buffer option" where
  "repair_Header d b m = do {
     string_ids_size \<leftarrow> header_field d string_ids_size_off;
     type_ids_size \<leftarrow> header_field d type_ids_size_off;
     proto_ids_size \<leftarrow> header_field d proto_ids_size_off;
     field_ids_size \<leftarrow> header_field d field_ids_size_off;
     method_ids_size \<leftarrow> header_field d method_ids_size_off;
     class_defs_size \<leftarrow> header_field d class_defs_size_off;
     data_off \<leftarrow> header_field d data_off_off;
     let StrIDAddr = (0x70 :: u32);
     let TypeIDAddr = StrIDAddr + string_ids_size * 4;
     let ProtoIDAddr = TypeIDAddr + type_ids_size * 4;
     let FieldIDAddr = ProtoIDAddr + proto_ids_size * 12;
     let MethodIDAddr = FieldIDAddr + field_ids_size * 8;
     let ClassDefAddr = MethodIDAddr + method_ids_size * 8;
     let DataAddr = ClassDefAddr + class_defs_size * 32;
     m \<leftarrow> (if DataAddr = data_off
          then do {
            m \<leftarrow> store32 m string_ids_off_off StrIDAddr;
            m \<leftarrow> store32 m type_ids_off_off TypeIDAddr;
            m \<leftarrow> store32 m proto_ids_off_off ProtoIDAddr;
            m \<leftarrow> store32 m field_ids_off_off FieldIDAddr;
            m \<leftarrow> store32 m method_ids_off_off MethodIDAddr;
            store32 m class_defs_off_off ClassDefAddr
          }
          else Some m);
     m \<leftarrow> store32 m header_size_off 0x70;
     store32 m file_size_off (word_of_nat (dex_size b))
   }"

text \<open>The loop of \<open>repair_ClassDefs\<close> from index \<open>i\<close> on; \<open>GetClassDef\<close> takes the index as a \<open>uint16_t\<close>, the
  entry's offset is a \<open>uint32_t\<close>, and \<open>class_data_off_\<close> is at byte 24 of the entry.\<close>

fun repair_ClassDefs_loop :: "DexFile \<Rightarrow> DexBuilder \<Rightarrow> buffer \<Rightarrow> nat \<Rightarrow> nat \<Rightarrow> buffer option" where
  "repair_ClassDefs_loop d b m i 0 = Some m"
| "repair_ClassDefs_loop d b m i (Suc n) = do {
     orig_class_def \<leftarrow> GetClassDef d (word_of_nat i);
     let class_def_rela_off = ((word_of_nat (class_def_offset d (word_of_nat i))) :: u32);
     m \<leftarrow> (case class_data_offset_map b (class_idx orig_class_def) of
            Some off \<Rightarrow>
              store32 m (unat class_def_rela_off + 24)
                (ptr_diff32 (class_data_addr b) (dex_begin b) + off)
          | None \<Rightarrow> Some m);
     repair_ClassDefs_loop d b m (Suc i) n
   }"

definition repair_ClassDefs :: "DexFile \<Rightarrow> DexBuilder \<Rightarrow> buffer \<Rightarrow> buffer option" where
  "repair_ClassDefs d b m = do {
     class_def_num \<leftarrow> NumClassDefs d;
     repair_ClassDefs_loop d b m 0 class_def_num
   }"

definition copy_DEX_data :: "DexFile \<Rightarrow> DexBuilder \<Rightarrow> buffer \<Rightarrow> (DexBuilder \<times> buffer \<times> ptr) option" where
  "copy_DEX_data d b m = do {
     let orig_dex_size = Size d;
     m \<leftarrow> memcpy m 0 (begin_of d);
     Some (b\<lparr>dex_begin := 0\<rparr>, m,
       if orig_dex_size mod 16 \<noteq> 0 then orig_dex_size + (16 - orig_dex_size mod 16)
       else orig_dex_size)
   }"

definition copy_code_items :: "DexBuilder \<Rightarrow> buffer \<Rightarrow> ptr \<Rightarrow> (DexBuilder \<times> buffer \<times> ptr) option" where
  "copy_code_items b m target =
     (if cur_code_item_offset b \<le> length (code_item_seg b)
      then do {
        m \<leftarrow> memcpy m target (take (cur_code_item_offset b) (code_item_seg b));
        Some (b\<lparr>code_item_addr := target\<rparr>, m, target + cur_code_item_offset b)
      }
      else None)"

text \<open>The inner loop of \<open>copy_class_data_items\<close>: point every method that has a copied code item at it.\<close>

definition repair_code_off :: "DexBuilder \<Rightarrow> ClassDataMethodMem \<Rightarrow> ClassDataMethodMem" where
  "repair_code_off b m =
     (case code_item_offset_map b (ucast (mem_method_idx m)) of
        None \<Rightarrow> m
      | Some off \<Rightarrow>
          (let seg_off = ptr_diff32 (code_item_addr b) (dex_begin b)
           in m\<lparr>code_off := seg_off + off\<rparr>))"

definition patch_item :: "DexBuilder \<Rightarrow> ClassDataItemMem \<Rightarrow> ClassDataItemMem" where
  "patch_item b item =
     (let item = item\<lparr>mem_methods := map (repair_code_off b) (mem_methods item)\<rparr>
      in if length (mem_methods item) = 0
         then item\<lparr>mem_direct_methods_size := 0, mem_virtual_methods_size := 0\<rparr>
         else item)"

fun copy_class_data_loop ::
  "DexBuilder \<Rightarrow> ClassDataItemMem list \<Rightarrow> buffer \<Rightarrow> ptr \<Rightarrow> (DexBuilder \<times> buffer \<times> ptr) option" where
  "copy_class_data_loop b [] m target = Some (b, m, target)"
| "copy_class_data_loop b (item # items) m target = do {
     let item = patch_item b item;
     (m, new_target) \<leftarrow> encode item m target;
     let b = b\<lparr>class_data_offset_map := (class_data_offset_map b)
                 (mem_class_idx item \<mapsto> ptr_diff32 target (class_data_addr b)),
               class_data_items := class_data_items b @ [item]\<rparr>;
     copy_class_data_loop b items m new_target
   }"

definition copy_class_data_items :: "DexBuilder \<Rightarrow> buffer \<Rightarrow> ptr \<Rightarrow> (DexBuilder \<times> buffer \<times> ptr) option" where
  "copy_class_data_items b m target =
     copy_class_data_loop (b\<lparr>class_data_addr := target, class_data_items := []\<rparr>) (class_data_items b) m target"

definition set_dex_size :: "nat \<Rightarrow> DexBuilder \<Rightarrow> DexBuilder" where
  "set_dex_size new_size b = b\<lparr>dex_size := new_size\<rparr>"

definition repair_Magic :: "buffer \<Rightarrow> buffer option" where
  "repair_Magic m = do {
     m \<leftarrow> store8 m 0 0x64;
     m \<leftarrow> store8 m 1 0x65;
     m \<leftarrow> store8 m 2 0x78;
     m \<leftarrow> store8 m 3 0x0a;
     m \<leftarrow> store8 m 4 0x30;
     m \<leftarrow> store8 m 5 0x33;
     m \<leftarrow> store8 m 6 0x35;
     store8 m 7 0x00
   }"

text \<open>\<open>ArtMethod::check_and_repair_DEX_magic\<close>: the disjunction stops at the first byte that differs.\<close>

fun magic_differs :: "buffer \<Rightarrow> ptr \<Rightarrow> u8 list \<Rightarrow> bool option" where
  "magic_differs m p [] = Some False"
| "magic_differs m p (b # bs) = do {
     x \<leftarrow> load8 m p;
     if x \<noteq> b then Some True else magic_differs m (Suc p) bs
   }"

definition check_and_repair_DEX_magic :: "buffer \<Rightarrow> buffer option" where
  "check_and_repair_DEX_magic m = do {
     differs \<leftarrow> magic_differs m 0 [0x64, 0x65, 0x78, 0x0a, 0x30, 0x33, 0x35, 0x00];
     if differs
     then do {
       m \<leftarrow> store8 m 0 0x64;
       m \<leftarrow> store8 m 1 0x65;
       m \<leftarrow> store8 m 2 0x78;
       m \<leftarrow> store8 m 3 0x0a;
       m \<leftarrow> store8 m 4 0x30;
       m \<leftarrow> store8 m 5 0x33;
       m \<leftarrow> store8 m 6 0x35;
       store8 m 7 0x00
     }
     else Some m
   }"

text \<open>The part of \<open>build_dex\<close> that assembles the file, from \<open>copy_DEX_data\<close> to \<open>repair_Magic\<close>: the builder,
  the buffer, and the size of the file in it.\<close>

definition assemble :: "DexFile \<Rightarrow> DexBuilder \<Rightarrow> buffer \<Rightarrow> (DexBuilder \<times> buffer \<times> nat) option" where
  "assemble d b m = do {
     (b, m, code_items_addr) \<leftarrow> copy_DEX_data d b m;
     (b, m, class_data_items_addr) \<leftarrow> copy_code_items b m code_items_addr;
     (b, m, end_addr) \<leftarrow> copy_class_data_items b m class_data_items_addr;
     let dex_size_real = end_addr;
     let b = set_dex_size dex_size_real b;
     m \<leftarrow> repair_Header d b m;
     m \<leftarrow> repair_ClassDefs d b m;
     m \<leftarrow> repair_Magic m;
     Some (b, m, dex_size_real)
   }"

section \<open>Writing at a moving pointer\<close>

definition write_at :: "buffer \<Rightarrow> ptr \<Rightarrow> u8 list \<Rightarrow> (buffer \<times> ptr) option" where
  "write_at buf p bs = map_option (\<lambda>buf'. (buf', p + length bs)) (memcpy buf p bs)"

lemma write_at_append:
  "write_at buf p (bs @ cs) = Option.bind (write_at buf p bs) (\<lambda>(buf', q). write_at buf' q cs)"
  by (simp add: write_at_def memcpy_append add.assoc split: option.split)

lemma write_at_Nil: "p \<le> length buf \<Longrightarrow> write_at buf p [] = Some (buf, p)"
  by (simp add: write_at_def)

lemma write_at_within: "write_at buf p bs = Some (buf', q) \<Longrightarrow> q \<le> length buf' \<and> q = p + length bs"
  by (auto simp: write_at_def memcpy_def split: if_splits)

lemma gerat_write_at: "gerat_EncodeUnsignedLeb128 buf p v = write_at buf p (uleb v)"
  by (simp add: gerat_EncodeUnsignedLeb128_def EncodeUnsignedLeb128_def [symmetric]
      EncodeUnsignedLeb128_eq write_at_def)

text \<open>A writer of one kind of item: called inside the buffer, it writes the item's bytes and returns
  the pointer past them. Written one after the other, the items' bytes are concatenated.\<close>

fun write_each :: "('a \<Rightarrow> buffer \<Rightarrow> ptr \<Rightarrow> (buffer \<times> ptr) option) \<Rightarrow> 'a list \<Rightarrow> buffer \<Rightarrow> ptr \<Rightarrow> (buffer \<times> ptr) option" where
  "write_each w [] buf p = Some (buf, p)"
| "write_each w (x # xs) buf p = do { (buf, p) \<leftarrow> w x buf p; write_each w xs buf p }"

locale writer =
  fixes w :: "'a \<Rightarrow> buffer \<Rightarrow> ptr \<Rightarrow> (buffer \<times> ptr) option"
    and bytes :: "'a \<Rightarrow> u8 list"
  assumes writes: "p \<le> length buf \<Longrightarrow> w x buf p = write_at buf p (bytes x)"
begin

lemma write_each_concat:
  "p \<le> length buf \<Longrightarrow> write_each w xs buf p = write_at buf p (concat (map bytes xs))"
proof (induction xs arbitrary: buf p)
  case Nil
  then show ?case by (simp add: write_at_Nil)
next
  case (Cons x xs)
  then show ?case
    by (auto simp: writes write_at_append dest: write_at_within intro!: Option.bind_cong)
qed

end

definition encode_field :: "ClassDataField \<Rightarrow> buffer \<Rightarrow> ptr \<Rightarrow> (buffer \<times> ptr) option" where
  "encode_field f buf p = do {
     (buf, p) \<leftarrow> gerat_EncodeUnsignedLeb128 buf p (field_idx_delta f);
     gerat_EncodeUnsignedLeb128 buf p (field_access_flags f)
   }"

definition encode_method :: "ClassDataMethodMem \<Rightarrow> buffer \<Rightarrow> ptr \<Rightarrow> (buffer \<times> ptr) option" where
  "encode_method m buf p = do {
     (buf, p) \<leftarrow> gerat_EncodeUnsignedLeb128 buf p (method_idx_delta m);
     (buf, p) \<leftarrow> gerat_EncodeUnsignedLeb128 buf p (method_access_flags m);
     gerat_EncodeUnsignedLeb128 buf p (code_off m)
   }"

lemma encode_fields_each: "encode_fields fs buf p = write_each encode_field fs buf p"
  by (induction fs arbitrary: buf p)
    (auto simp: encode_field_def bind_assoc intro!: Option.bind_cong)

lemma encode_methods_each: "encode_methods ms buf p = write_each encode_method ms buf p"
  by (induction ms arbitrary: buf p)
    (auto simp: encode_method_def split: Option.bind_splits)

interpretation field_writer: writer encode_field field_bytes
  by unfold_locales (simp add: encode_field_def gerat_write_at field_bytes_def write_at_append)

interpretation method_writer: writer encode_method "\<lambda>m. method_bytes (ClassDataMethod.truncate m)"
  by unfold_locales
    (simp add: encode_method_def gerat_write_at method_bytes_def write_at_append case_prod_beta
      ClassDataMethod.truncate_def)

section \<open>The class data of an item\<close>

definition mem_header :: "ClassDataItemMem \<Rightarrow> ClassDataHeader" where
  "mem_header item = \<lparr>static_fields_size = mem_static_fields_size item,
     instance_fields_size = mem_instance_fields_size item,
     direct_methods_size = mem_direct_methods_size item,
     virtual_methods_size = mem_virtual_methods_size item\<rparr>"

abbreviation plain_methods :: "ClassDataItemMem \<Rightarrow> ClassDataMethod list" where
  "plain_methods item \<equiv> map ClassDataMethod.truncate (mem_methods item)"

definition mem_bytes :: "ClassDataItemMem \<Rightarrow> u8 list" where
  "mem_bytes item = class_data_bytes (mem_header item) (mem_fields item) (plain_methods item)"

definition mem_members :: "ClassDataItemMem \<Rightarrow> cdi_member list" where
  "mem_members item = class_members (mem_header item) (mem_fields item) (plain_methods item)"

definition mem_ok :: "ClassDataItemMem \<Rightarrow> bool" where
  "mem_ok item \<longleftrightarrow> counts_ok (mem_header item) (mem_fields item) (plain_methods item)"

lemma encode_eq: "encode item buf p = write_at buf p (mem_bytes item)"
proof -
  have f: "encode_fields (mem_fields item) b q = write_at b q (concat (map field_bytes (mem_fields item)))"
    if "q \<le> length b" for b q
    using field_writer.write_each_concat [OF that] by (simp add: encode_fields_each)
  have m: "encode_methods (mem_methods item) b q
      = write_at b q (concat (map (\<lambda>m. method_bytes (ClassDataMethod.truncate m)) (mem_methods item)))"
    if "q \<le> length b" for b q
    using method_writer.write_each_concat [OF that] by (simp add: encode_methods_each)
  have "mem_bytes item = uleb (mem_static_fields_size item) @ uleb (mem_instance_fields_size item)
     @ uleb (mem_direct_methods_size item) @ uleb (mem_virtual_methods_size item)
     @ concat (map field_bytes (mem_fields item))
     @ concat (map (\<lambda>m. method_bytes (ClassDataMethod.truncate m)) (mem_methods item))"
    by (simp add: mem_bytes_def class_data_bytes_def header_bytes_def mem_header_def comp_def)
  then show ?thesis
    unfolding encode_def
    by (auto simp: gerat_write_at write_at_append f m dest: write_at_within intro!: Option.bind_cong)
qed

interpretation item_writer: writer encode mem_bytes
  by unfold_locales (simp add: encode_eq)

text \<open>
  Claim C17. What the builder encodes the runtime decodes: \<open>ClassDataItemMem::encode\<close> succeeds exactly
  when the buffer has room, changes only the bytes it covers, and a \<open>ClassDataItemIterator\<close> on them
  sees the header and every field and method of the item, with its index, and ends at the pointer
  \<open>encode\<close> returned.
\<close>

theorem encode_iterate_roundtrip:
  assumes "mem_ok item"
  shows "(case encode item buf p of
      None \<Rightarrow> length buf < p + length (mem_bytes item)
    | Some (buf', q) \<Rightarrow>
        length buf' = length buf \<and> take p buf' = take p buf \<and> drop q buf' = drop q buf
      \<and> (\<exists>it e. make_ClassDataItemIterator buf' p = Some it \<and> header it = mem_header item
           \<and> cdi_walk buf' it = Some (mem_members item, e) \<and> cdi_EndDataPointer e = Some q))"
proof (cases "memcpy buf p (mem_bytes item)")
  case None
  moreover from this have "length buf < p + length (mem_bytes item)" by (simp add: memcpy_eq_None_iff)
  ultimately show ?thesis by (simp add: encode_eq write_at_def)
next
  case (Some buf')
  have "take p buf' = take p buf" "drop (p + length (mem_bytes item)) buf' = drop (p + length (mem_bytes item)) buf"
    using Some by (auto simp: memcpy_def split: if_splits)
  moreover have "bytes_at buf' p (mem_bytes item)" using Some by (rule bytes_at_memcpy)
  ultimately show ?thesis
    using Some class_data_iteration [of "mem_header item" "mem_fields item" "plain_methods item" buf' p] assms
    by (auto simp: encode_eq write_at_def memcpy_length mem_ok_def mem_bytes_def mem_members_def)
qed

definition sample_item :: ClassDataItemMem where
  "sample_item = \<lparr>mem_class_idx = 0, mem_static_fields_size = 0, mem_instance_fields_size = 1,
     mem_direct_methods_size = 1, mem_virtual_methods_size = 0,
     mem_fields = [\<lparr>field_idx_delta = 2, field_access_flags = 1\<rparr>],
     mem_methods = [\<lparr>method_idx_delta = 3, method_access_flags = 0x10001, code_off = 0x200, mem_method_idx = 3\<rparr>]\<rparr>"

lemma sample_item_ok: "mem_ok sample_item"
  by (simp add: mem_ok_def sample_item_def counts_ok_def mem_header_def)

lemma sample_item_bytes:
  "mem_bytes sample_item = [0, 1, 1, 0, 2, 1, 3, 0x81, 0x80, 0x04, 0x80, 0x04]"
  by code_simp

theorem encode_iterate_roundtrip_witness:
  "\<exists>it e. make_ClassDataItemIterator (mem_bytes sample_item) 0 = Some it
     \<and> cdi_walk (mem_bytes sample_item) it =
         Some ([FieldMember \<lparr>field_idx_delta = 2, field_access_flags = 1\<rparr> 2,
                MethodMember \<lparr>method_idx_delta = 3, method_access_flags = 0x10001, code_off = 0x200\<rparr> 3], e)
     \<and> cdi_EndDataPointer e = Some 12"
proof -
  have "encode sample_item (replicate 12 0) 0 = Some (mem_bytes sample_item, 12)"
    by (simp add: encode_eq write_at_def sample_item_bytes memcpy_def)
  moreover have "mem_members sample_item = [FieldMember \<lparr>field_idx_delta = 2, field_access_flags = 1\<rparr> 2,
      MethodMember \<lparr>method_idx_delta = 3, method_access_flags = 0x10001, code_off = 0x200\<rparr> 3]"
    by code_simp
  ultimately show ?thesis
    using encode_iterate_roundtrip [OF sample_item_ok, of "replicate 12 0" 0] by auto
qed

section \<open>The magic number\<close>

abbreviation (input) dex_magic :: "u8 list" where
  "dex_magic \<equiv> [0x64, 0x65, 0x78, 0x0a, 0x30, 0x33, 0x35, 0x00]"

lemma repair_Magic_memcpy: "repair_Magic m = memcpy m 0 dex_magic"
proof (cases "8 \<le> length m")
  case True
  then have "store8 x k v = Some (x[k := v])" if "length x = length m" "k < 8" for x k v
    using that by (simp add: store8_def)
  then show ?thesis using True by (simp add: repair_Magic_def memcpy_Cons eval_nat_numeral)
next
  case False
  then have "memcpy m 0 dex_magic = None" by (simp add: memcpy_eq_None_iff)
  moreover have "repair_Magic m = None" using False by (auto simp: repair_Magic_def store8_def)
  ultimately show ?thesis by simp
qed

lemma magic_differs_bytes_at:
  "p + length bs \<le> length m \<Longrightarrow> magic_differs m p bs = Some (\<not> bytes_at m p bs)"
  by (induction bs arbitrary: p) (auto simp: load8_def)

text \<open>
  Dumping and rebuilding repair the magic number in the same way: on a buffer that can hold
  it, \<open>check_and_repair_DEX_magic\<close> and \<open>repair_Magic\<close> have the same effect, the result passes the
  loader's magic and version checks, and nothing after the first eight bytes changes.
\<close>

theorem magic_repaired:
  assumes "8 \<le> length m"
  shows "check_and_repair_DEX_magic m = repair_Magic m
    \<and> (\<exists>m'. repair_Magic m = Some m' \<and> IsMagicValid m' \<and> IsVersionValid m'
         \<and> length m' = length m \<and> drop 8 m' = drop 8 m)"
proof -
  obtain m' where m': "memcpy m 0 dex_magic = Some m'"
    using assms by (simp add: memcpy_def)
  have "check_and_repair_DEX_magic m = memcpy m 0 dex_magic"
  proof (cases "bytes_at m 0 dex_magic")
    case True
    then show ?thesis
      using assms memcpy_bytes_at [OF True]
      by (simp add: check_and_repair_DEX_magic_def magic_differs_bytes_at
          del: bytes_at_Cons magic_differs.simps)
  next
    case False
    then show ?thesis
      using assms repair_Magic_memcpy [of m]
      by (simp add: check_and_repair_DEX_magic_def magic_differs_bytes_at repair_Magic_def
          del: bytes_at_Cons magic_differs.simps)
  qed
  moreover have "IsMagicValid m'" "IsVersionValid m'"
    using bytes_at_memcpy [OF m'] by (simp_all add: IsMagicValid_def IsVersionValid_def kDexMagic_def
        kDexMagicVersion_def eval_nat_numeral)
  moreover have "length m' = length m" "drop 8 m' = drop 8 m"
    using m' by (auto simp: memcpy_def eval_nat_numeral split: if_splits)
  ultimately show ?thesis using m' by (simp add: repair_Magic_memcpy)
qed

theorem magic_repaired_witness:
  "check_and_repair_DEX_magic (replicate 9 0xff) = repair_Magic (replicate 9 0xff)
   \<and> repair_Magic (replicate 9 0xff) = Some (kDexMagic @ kDexMagicVersion @ [0xff])"
proof -
  have "repair_Magic (replicate 9 0xff) = Some (kDexMagic @ kDexMagicVersion @ [0xff])"
    by code_simp
  then show ?thesis using magic_repaired [of "replicate 9 0xff"] by simp
qed

section \<open>Frames\<close>

definition agree_outside :: "nat set \<Rightarrow> buffer \<Rightarrow> buffer \<Rightarrow> bool" where
  "agree_outside S m m' \<longleftrightarrow> length m' = length m \<and> (\<forall>i < length m. i \<notin> S \<longrightarrow> m' ! i = m ! i)"

lemma agree_refl [simp]: "agree_outside S m m"
  by (simp add: agree_outside_def)

lemma agree_trans: "agree_outside S m m' \<Longrightarrow> agree_outside T m' m'' \<Longrightarrow> S \<union> T \<subseteq> U \<Longrightarrow> agree_outside U m m''"
  unfolding agree_outside_def by (metis Un_iff subset_iff)


lemma agree_memcpy: "memcpy m p bs = Some m' \<Longrightarrow> agree_outside {p..<p + length bs} m m'"
  by (auto simp: agree_outside_def memcpy_length memcpy_nth)

lemma agree_store32: "store32 m p v = Some m' \<Longrightarrow> agree_outside {p..<p + 4} m m'"
  using agree_memcpy [of m p "bytes32 v" m'] by (simp add: store32_def)

lemma agree_slice:
  assumes "agree_outside S m m'" and "{p..<p + n} \<inter> S = {}"
  shows "take n (drop p m') = take n (drop p m)"
proof (rule nth_equalityI)
  show "length (take n (drop p m')) = length (take n (drop p m))"
    using assms(1) by (simp add: agree_outside_def)
next
  fix i
  assume "i < length (take n (drop p m'))"
  moreover from this assms(2) have "p + i \<notin> S" by (auto simp: disjoint_iff)
  ultimately show "take n (drop p m') ! i = take n (drop p m) ! i"
    using assms(1) by (auto simp: agree_outside_def)
qed

lemma agree_bytes_at:
  "agree_outside S m m' \<Longrightarrow> {p..<p + length bs} \<inter> S = {} \<Longrightarrow> bytes_at m' p bs = bytes_at m p bs"
  by (simp add: bytes_at_def agree_slice)

lemma agree_load32:
  "agree_outside S m m' \<Longrightarrow> {p..<p + 4} \<inter> S = {} \<Longrightarrow> load32 m' p = load32 m p"
  by (rule load32_take_drop) (auto simp: agree_slice agree_outside_def)

lemma load16_take_drop:
  assumes "take 2 (drop p m') = take 2 (drop p m)" and "length m' = length m"
  shows "load16 m' p = load16 m p"
proof (cases "p + 2 \<le> length m")
  case True
  have "m' ! (p + k) = m ! (p + k)" if "k < 2" for k
  proof -
    have "take 2 (drop p m') ! k = take 2 (drop p m) ! k" using assms(1) by simp
    with that True assms(2) show ?thesis by simp
  qed
  from this [of 0] this [of 1] True assms(2) show ?thesis by (simp add: load16_def)
next
  case False
  with assms(2) show ?thesis by (simp add: load16_def)
qed

lemma agree_load16:
  "agree_outside S m m' \<Longrightarrow> {p..<p + 2} \<inter> S = {} \<Longrightarrow> load16 m' p = load16 m p"
  by (rule load16_take_drop) (auto simp: agree_slice agree_outside_def)

lemma store32_fits: "p + 4 \<le> length m \<Longrightarrow> \<exists>m'. store32 m p v = Some m'"
  by (simp add: store32_def memcpy_def)

lemma loads_extend:
  assumes "bytes_at m 0 d"
  shows "load16 d p = Some u \<Longrightarrow> load16 m p = Some u" and "load32 d p = Some v \<Longrightarrow> load32 m p = Some v"
proof -
  have "m = d @ drop (length d) m" using assms by (metis append_take_drop_id bytes_at_def drop0)
  then obtain r where "m = d @ r" ..
  then show "load16 d p = Some u \<Longrightarrow> load16 m p = Some u" and "load32 d p = Some v \<Longrightarrow> load32 m p = Some v"
    by (auto simp: load16_def load32_def nth_append split: if_splits)
qed

section \<open>Assembling the file\<close>

text \<open>Where the class data of each item starts, and the map the loop leaves.\<close>

fun item_offsets :: "ptr \<Rightarrow> ClassDataItemMem list \<Rightarrow> ptr list" where
  "item_offsets t [] = []"
| "item_offsets t (item # items) = t # item_offsets (t + length (mem_bytes item)) items"

fun offset_map :: "ptr \<Rightarrow> ptr \<Rightarrow> ClassDataItemMem list \<Rightarrow> (u16 \<Rightarrow> u32 option) \<Rightarrow> u16 \<Rightarrow> u32 option" where
  "offset_map addr t [] mp = mp"
| "offset_map addr t (item # items) mp =
     offset_map addr (t + length (mem_bytes item)) items (mp(mem_class_idx item \<mapsto> ptr_diff32 t addr))"

lemma length_item_offsets [simp]: "length (item_offsets t items) = length items"
  by (induction items arbitrary: t) auto

lemma item_offsets_ge: "j < length items \<Longrightarrow> t \<le> item_offsets t items ! j"
proof (induction items arbitrary: t j)
  case (Cons item items)
  then show ?case by (cases j) (auto intro: le_trans [of t "t + length (mem_bytes item)"])
qed simp

lemma offset_map_other: "c \<notin> mem_class_idx ` set items \<Longrightarrow> offset_map addr t items mp c = mp c"
  by (induction items arbitrary: t mp) auto

lemma offset_map_nth:
  assumes "distinct (map mem_class_idx items)" and "j < length items"
  shows "offset_map addr t items mp (mem_class_idx (items ! j)) = Some (ptr_diff32 (item_offsets t items ! j) addr)"
  using assms
proof (induction items arbitrary: t mp j)
  case (Cons item items)
  then show ?case by (cases j) (simp_all add: offset_map_other)
qed simp

lemma item_bytes_at:
  assumes "bytes_at m t (concat (map mem_bytes items))" and "j < length items"
  shows "bytes_at m (item_offsets t items ! j) (mem_bytes (items ! j))"
  using assms
proof (induction items arbitrary: t j)
  case (Cons item items)
  then show ?case by (cases j) simp_all
qed simp

lemma patch_item_cong:
  "code_item_offset_map b' = code_item_offset_map b \<Longrightarrow> code_item_addr b' = code_item_addr b \<Longrightarrow>
     dex_begin b' = dex_begin b \<Longrightarrow> patch_item b' = patch_item b"
proof -
  assume "code_item_offset_map b' = code_item_offset_map b" "code_item_addr b' = code_item_addr b"
    "dex_begin b' = dex_begin b"
  then have "repair_code_off b' = repair_code_off b" by (intro ext) (simp add: repair_code_off_def split: option.split)
  then show ?thesis by (intro ext) (simp only: patch_item_def)
qed

lemma copy_class_data_loop_eq:
  assumes "t \<le> length m" and "map (patch_item b) items = patched"
  shows "copy_class_data_loop b items m t =
    map_option (\<lambda>(m', q).
        (b\<lparr>class_data_offset_map := offset_map (class_data_addr b) t patched (class_data_offset_map b),
           class_data_items := class_data_items b @ patched\<rparr>, m', q))
      (write_at m t (concat (map mem_bytes patched)))"
  using assms
proof (induction items arbitrary: b m t patched)
  case Nil
  then show ?case by (simp add: write_at_Nil)
next
  case (Cons item items)
  let ?i = "patch_item b item"
  show ?case
  proof (cases "write_at m t (mem_bytes ?i)")
    case None
    with Cons.prems show ?thesis by (auto simp: encode_eq write_at_append Let_def)
  next
    case (Some r)
    obtain m1 q where r: "r = (m1, q)" by (cases r)
    with Some have q: "q \<le> length m1" "q = t + length (mem_bytes ?i)" by (auto dest: write_at_within)
    let ?b = "b\<lparr>class_data_offset_map := (class_data_offset_map b)(mem_class_idx ?i \<mapsto> ptr_diff32 t (class_data_addr b)),
                class_data_items := class_data_items b @ [?i]\<rparr>"
    have "map (patch_item ?b) items = map (patch_item b) items"
      by (subst patch_item_cong [of ?b b]) simp_all
    from Cons.IH [OF q(1) this] Some r q(2) Cons.prems(2) show ?thesis
      by (auto simp: encode_eq write_at_append Let_def fun_upd_def option.map_comp comp_def case_prod_beta
          intro!: option.map_cong)
  qed
qed

text \<open>Both repairs are sequences of 32-bit stores that do not overlap.\<close>

fun store_all :: "buffer \<Rightarrow> (ptr \<times> u32) list \<Rightarrow> buffer option" where
  "store_all m [] = Some m"
| "store_all m ((p, v) # ps) = do { m \<leftarrow> store32 m p v; store_all m ps }"

fun spaced :: "(ptr \<times> u32) list \<Rightarrow> bool" where
  "spaced [] \<longleftrightarrow> True"
| "spaced ((p, v) # ps) \<longleftrightarrow> (\<forall>(q, w)\<in>set ps. p + 4 \<le> q \<or> q + 4 \<le> p) \<and> spaced ps"

definition stored :: "(ptr \<times> u32) list \<Rightarrow> nat set" where
  "stored ps = (\<Union>(p, v)\<in>set ps. {p..<p + 4})"

lemma stored_Cons [simp]: "stored ((p, v) # ps) = {p..<p + 4} \<union> stored ps"
  by (simp add: stored_def)

lemma stored_Nil [simp]: "stored [] = {}"
  by (simp add: stored_def)

lemma stored_mem: "(p, v) \<in> set ps \<Longrightarrow> stored ps \<subseteq> {l..<h} \<Longrightarrow> l \<le> p \<and> p + 4 \<le> h"
proof -
  assume "(p, v) \<in> set ps" and "stored ps \<subseteq> {l..<h}"
  then have "{p..<p + 4} \<subseteq> {l..<h}" by (force simp: stored_def)
  then show ?thesis by auto
qed

lemma store_all_spaced:
  assumes "spaced ps" and "\<forall>(p, v)\<in>set ps. p + 4 \<le> length m"
  shows "\<exists>m'. store_all m ps = Some m' \<and> agree_outside (stored ps) m m'
    \<and> (\<forall>(p, v)\<in>set ps. load32 m' p = Some v)"
  using assms
proof (induction ps arbitrary: m)
  case (Cons pv ps)
  obtain p v where pv: "pv = (p, v)" by (cases pv)
  obtain m1 where m1: "store32 m p v = Some m1" using Cons.prems(2) store32_fits [of p m v] by (auto simp: pv)
  note ag = agree_store32 [OF m1]
  from ag have "length m1 = length m" by (simp add: agree_outside_def)
  then obtain m2 where m2: "store_all m1 ps = Some m2" "agree_outside (stored ps) m1 m2"
    "\<forall>(p, v)\<in>set ps. load32 m2 p = Some v"
    using Cons.IH [of m1] Cons.prems by (auto simp: pv)
  have "{p..<p + 4} \<inter> stored ps = {}"
    using Cons.prems(1) by (fastforce simp: pv stored_def disjoint_iff)
  then have "load32 m2 p = Some v"
    using agree_load32 [OF m2(2)] load32_memcpy_same [OF m1] by simp
  with m1 m2 ag show ?case by (auto simp: pv intro: agree_trans)
qed simp

definition hdr :: "DexFile \<Rightarrow> nat \<Rightarrow> u32" where
  "hdr d off = (case header_field d off of None \<Rightarrow> 0 | Some v \<Rightarrow> v)"

lemma header_field_hdr: "112 \<le> Size d \<Longrightarrow> off \<le> 108 \<Longrightarrow> header_field d off = Some (hdr d off)"
  by (simp add: hdr_def header_field_def load32_def Size_def)

text \<open>The offsets a file has whose tables follow the header in the usual order without gaps.\<close>

definition table_offsets :: "DexFile \<Rightarrow> (nat \<times> u32) list" where
  "table_offsets d =
     (let s = 0x70; t = s + hdr d string_ids_size_off * 4; p = t + hdr d type_ids_size_off * 4;
          f = p + hdr d proto_ids_size_off * 12; m = f + hdr d field_ids_size_off * 8;
          c = m + hdr d method_ids_size_off * 8
      in [(string_ids_off_off, s), (type_ids_off_off, t), (proto_ids_off_off, p),
          (field_ids_off_off, f), (method_ids_off_off, m), (class_defs_off_off, c)])"

definition gapless :: "DexFile \<Rightarrow> bool" where
  "gapless d \<longleftrightarrow> snd (last (table_offsets d)) + hdr d class_defs_size_off * 32 = hdr d data_off_off"

definition header_stores :: "DexFile \<Rightarrow> nat \<Rightarrow> (nat \<times> u32) list" where
  "header_stores d n =
     (if gapless d then table_offsets d else [])
     @ [(header_size_off, 0x70), (file_size_off, word_of_nat n)]"

lemma repair_Header_stores:
  "112 \<le> Size d \<Longrightarrow> repair_Header d b m = store_all m (header_stores d (dex_size b))"
  by (simp add: repair_Header_def header_field_hdr header_stores_def gapless_def table_offsets_def Let_def)

lemma header_stores_spaced:
  "spaced (header_stores d n)" "\<forall>(p, v)\<in>set (header_stores d n). p + 4 \<le> 112"
  "stored (header_stores d n) \<subseteq> {32..<112}"
  by (auto simp: header_stores_def table_offsets_def Let_def)

fun class_def_stores :: "DexFile \<Rightarrow> DexBuilder \<Rightarrow> nat \<Rightarrow> nat \<Rightarrow> (ptr \<times> u32) list" where
  "class_def_stores d b i 0 = []"
| "class_def_stores d b i (Suc n) =
     (case GetClassDef d (word_of_nat i) of
        None \<Rightarrow> []
      | Some cd \<Rightarrow>
          (case class_data_offset_map b (class_idx cd) of
             None \<Rightarrow> []
           | Some off \<Rightarrow> [(class_defs d + 32 * i + 24, ptr_diff32 (class_data_addr b) (dex_begin b) + off)]))
     @ class_def_stores d b (Suc i) n"

lemma class_def_stores_iff:
  "(p, v) \<in> set (class_def_stores d b i n) \<longleftrightarrow>
     (\<exists>k. (i \<le> k \<and> k < i + n) \<and> (\<exists>cd off. GetClassDef d (word_of_nat k) = Some cd
        \<and> class_data_offset_map b (class_idx cd) = Some off \<and> p = class_defs d + 32 * k + 24
        \<and> v = ptr_diff32 (class_data_addr b) (dex_begin b) + off))"
proof (induction n arbitrary: i)
  case (Suc n)
  have range: "i \<le> k \<and> k < i + Suc n \<longleftrightarrow> k = i \<or> Suc i \<le> k \<and> k < Suc i + n" for k by auto
  have split: "(\<exists>k. (i \<le> k \<and> k < i + Suc n) \<and> Q k) \<longleftrightarrow> Q i \<or> (\<exists>k. (Suc i \<le> k \<and> k < Suc i + n) \<and> Q k)" for Q
    unfolding range by blast
  have "(p, v) \<in> set (class_def_stores d b i (Suc n)) \<longleftrightarrow>
      (\<exists>cd off. GetClassDef d (word_of_nat i) = Some cd \<and> class_data_offset_map b (class_idx cd) = Some off
        \<and> p = class_defs d + 32 * i + 24 \<and> v = ptr_diff32 (class_data_addr b) (dex_begin b) + off)
      \<or> (p, v) \<in> set (class_def_stores d b (Suc i) n)"
    by (cases "GetClassDef d (word_of_nat i)") (auto split: option.split)
  then show ?case unfolding split Suc.IH [of "Suc i"] .
qed simp

lemma class_def_stores_spaced: "spaced (class_def_stores d b i n)"
proof (induction n arbitrary: i)
  case (Suc n)
  then show ?case by (auto simp: class_def_stores_iff split: option.split)
qed simp

lemma repair_ClassDefs_stores:
  assumes "class_defs d + 32 * (i + n) \<le> Size d" and "i + n \<le> 65536" and "Size d < 2 ^ 32"
  shows "repair_ClassDefs_loop d b m i n = store_all m (class_def_stores d b i n)"
  using assms
proof (induction n arbitrary: m i)
  case (Suc n)
  have off: "class_def_offset d (word_of_nat i) = class_defs d + 32 * i"
    using Suc.prems(2) by (simp add: class_def_offset_def unat_word_of_nat_u16)
  have "class_defs d + 32 * i < 4294967296" using Suc.prems by simp
  then have rela: "unat (word_of_nat (class_defs d + 32 * i) :: u32) = class_defs d + 32 * i"
    by (rule unat_word_of_nat_u32)
  have "\<exists>cd. GetClassDef d (word_of_nat i) = Some cd"
    using Suc.prems(1) by (simp add: GetClassDef_def off Let_def load16_def load32_def Size_def)
  then obtain cd where cd: "GetClassDef d (word_of_nat i) = Some cd" ..
  have "repair_ClassDefs_loop d b m' (Suc i) n = store_all m' (class_def_stores d b (Suc i) n)" for m'
    using Suc.IH [of "Suc i"] Suc.prems by simp
  with cd show ?case by (simp add: off rela Let_def del: of_nat_add of_nat_mult split: option.split)
qed simp

definition code_start :: "DexFile \<Rightarrow> nat" where
  "code_start d = (if Size d mod 16 \<noteq> 0 then Size d + (16 - Size d mod 16) else Size d)"

definition code_bytes :: "DexBuilder \<Rightarrow> u8 list" where
  "code_bytes b = take (cur_code_item_offset b) (code_item_seg b)"

definition class_data_start :: "DexFile \<Rightarrow> DexBuilder \<Rightarrow> nat" where
  "class_data_start d b = code_start d + cur_code_item_offset b"

definition placed_items :: "DexFile \<Rightarrow> DexBuilder \<Rightarrow> ClassDataItemMem list" where
  "placed_items d b = map (patch_item (b\<lparr>dex_begin := 0, code_item_addr := code_start d\<rparr>)) (class_data_items b)"

definition rebuilt_size :: "DexFile \<Rightarrow> DexBuilder \<Rightarrow> nat" where
  "rebuilt_size d b = class_data_start d b + length (concat (map mem_bytes (placed_items d b)))"

definition placed :: "DexFile \<Rightarrow> DexBuilder \<Rightarrow> DexBuilder" where
  "placed d b = b\<lparr>dex_begin := 0, code_item_addr := code_start d, class_data_addr := class_data_start d b,
     class_data_offset_map := offset_map (class_data_start d b) (class_data_start d b) (placed_items d b)
       (class_data_offset_map b),
     class_data_items := placed_items d b, dex_size := rebuilt_size d b\<rparr>"

text \<open>The file has a header and its class definitions lie behind it inside the file; the builder's
  cursor lies in its segment.\<close>

definition builder_ok :: "DexFile \<Rightarrow> DexBuilder \<Rightarrow> bool" where
  "builder_ok d b \<longleftrightarrow> 112 \<le> Size d \<and> 2 * Size d < 2 ^ 32 \<and> 112 \<le> class_defs d
     \<and> unat (hdr d class_defs_size_off) \<le> 65536
     \<and> class_defs d + 32 * unat (hdr d class_defs_size_off) \<le> Size d
     \<and> cur_code_item_offset b \<le> length (code_item_seg b)"

lemma code_start_bounds: "Size d \<le> code_start d" "code_start d < Size d + 16"
  by (auto simp: code_start_def)

lemma assemble_eq:
  assumes "builder_ok d b" and "length m = 2 * Size d"
  shows "assemble d b m = do {
     m \<leftarrow> memcpy m 0 (begin_of d);
     m \<leftarrow> memcpy m (code_start d) (code_bytes b);
     m \<leftarrow> memcpy m (class_data_start d b) (concat (map mem_bytes (placed_items d b)));
     m \<leftarrow> store_all m (header_stores d (rebuilt_size d b));
     m \<leftarrow> store_all m (class_def_stores d (placed d b) 0 (unat (hdr d class_defs_size_off)));
     m \<leftarrow> memcpy m 0 dex_magic;
     Some (placed d b, m, rebuilt_size d b)
   }"
proof -
  let ?n = "unat (hdr d class_defs_size_off)"
  have ok: "112 \<le> Size d" "Size d < 2 ^ 32" "?n \<le> 65536" "class_defs d + 32 * ?n \<le> Size d"
    "cur_code_item_offset b \<le> length (code_item_seg b)"
    using assms(1) by (auto simp: builder_ok_def)
  have num: "NumClassDefs d = Some ?n" using header_field_hdr [OF ok(1)] by (simp add: NumClassDefs_def)
  obtain m1 where m1: "memcpy m 0 (begin_of d) = Some m1" using assms(2) by (simp add: memcpy_def Size_def)
  let ?b2 = "b\<lparr>dex_begin := 0, code_item_addr := code_start d\<rparr>"
  have copy: "copy_DEX_data d b m = Some (b\<lparr>dex_begin := 0\<rparr>, m1, code_start d)"
    using m1 by (simp add: copy_DEX_data_def code_start_def Let_def)
  show ?thesis
  proof (cases "memcpy m1 (code_start d) (code_bytes b)")
    case None
    then show ?thesis using copy ok(5) m1 by (simp add: assemble_def copy_code_items_def code_bytes_def)
  next
    case (Some m2)
    have code: "copy_code_items (b\<lparr>dex_begin := 0\<rparr>) m1 (code_start d) = Some (?b2, m2, class_data_start d b)"
      using Some ok(5) by (simp add: copy_code_items_def code_bytes_def class_data_start_def)
    have "class_data_start d b \<le> length m2"
      using Some ok(5) by (auto simp: memcpy_def code_bytes_def class_data_start_def split: if_splits)
    from copy_class_data_loop_eq [OF this]
    have data: "copy_class_data_items ?b2 m2 (class_data_start d b) =
        map_option (\<lambda>m3. (placed d b\<lparr>dex_size := dex_size b\<rparr>, m3, rebuilt_size d b))
          (memcpy m2 (class_data_start d b) (concat (map mem_bytes (placed_items d b))))"
      using patch_item_cong [of "?b2\<lparr>class_data_addr := class_data_start d b, class_data_items := []\<rparr>" ?b2]
      by (simp add: copy_class_data_items_def placed_items_def placed_def write_at_def rebuilt_size_def
          option.map_comp comp_def)
    have "repair_ClassDefs d (placed d b) m' = store_all m' (class_def_stores d (placed d b) 0 ?n)" for m'
      using repair_ClassDefs_stores [of d 0 ?n] ok by (simp add: repair_ClassDefs_def num)
    moreover have "set_dex_size (rebuilt_size d b) (placed d b\<lparr>dex_size := dex_size b\<rparr>) = placed d b"
      by (simp add: set_dex_size_def placed_def)
    moreover have "dex_size (placed d b) = rebuilt_size d b" by (simp add: placed_def)
    ultimately show ?thesis
      using copy code data m1 Some ok(1)
      by (cases "memcpy m2 (class_data_start d b) (concat (map mem_bytes (placed_items d b)))")
        (simp_all add: assemble_def Let_def repair_Header_stores repair_Magic_memcpy)
  qed
qed

lemma assembled:
  assumes "builder_ok d b" and "length m = 2 * Size d" and "rebuilt_size d b \<le> 2 * Size d"
  shows "\<exists>m3 m4 m5 m6. assemble d b m = Some (placed d b, m6, rebuilt_size d b)
    \<and> length m3 = 2 * Size d \<and> bytes_at m3 0 (begin_of d) \<and> bytes_at m3 (code_start d) (code_bytes b)
    \<and> bytes_at m3 (class_data_start d b) (concat (map mem_bytes (placed_items d b)))
    \<and> agree_outside (stored (header_stores d (rebuilt_size d b))) m3 m4
    \<and> (\<forall>(p, v)\<in>set (header_stores d (rebuilt_size d b)). load32 m4 p = Some v)
    \<and> agree_outside (stored (class_def_stores d (placed d b) 0 (unat (hdr d class_defs_size_off)))) m4 m5
    \<and> (\<forall>(p, v)\<in>set (class_def_stores d (placed d b) 0 (unat (hdr d class_defs_size_off))). load32 m5 p = Some v)
    \<and> memcpy m5 0 dex_magic = Some m6"
proof -
  let ?n = "unat (hdr d class_defs_size_off)"
  let ?cs = "class_def_stores d (placed d b) 0 ?n"
  have ok: "112 \<le> Size d" "class_defs d + 32 * ?n \<le> Size d" "cur_code_item_offset b \<le> length (code_item_seg b)"
    using assms(1) by (auto simp: builder_ok_def)
  have lc: "length (code_bytes b) = cur_code_item_offset b" using ok(3) by (simp add: code_bytes_def)
  have cs: "class_data_start d b \<le> 2 * Size d" using assms(3) by (simp add: rebuilt_size_def)
  obtain m1 where m1: "memcpy m 0 (begin_of d) = Some m1" using assms(2) by (simp add: memcpy_def Size_def)
  note l1 = memcpy_length [OF m1]
  obtain m2 where m2: "memcpy m1 (code_start d) (code_bytes b) = Some m2"
    using cs l1 assms(2) lc by (auto simp: class_data_start_def memcpy_def)
  note l2 = memcpy_length [OF m2]
  obtain m3 where m3: "memcpy m2 (class_data_start d b) (concat (map mem_bytes (placed_items d b))) = Some m3"
    using l1 l2 assms(2,3) by (auto simp: rebuilt_size_def memcpy_def)
  have l3: "length m3 = 2 * Size d" using memcpy_length [OF m3] l1 l2 assms(2) by simp
  have b1: "bytes_at m3 0 (begin_of d)"
    using bytes_at_memcpy [OF m1] bytes_at_memcpy_other [OF m2, of 0 "begin_of d"]
      bytes_at_memcpy_other [OF m3, of 0 "begin_of d"] code_start_bounds(1) [of d]
    by (simp add: class_data_start_def Size_def)
  have b2: "bytes_at m3 (code_start d) (code_bytes b)"
    using bytes_at_memcpy [OF m2] bytes_at_memcpy_other [OF m3, of "code_start d" "code_bytes b"]
    by (simp add: class_data_start_def lc)
  note b3 = bytes_at_memcpy [OF m3]
  obtain m4 where m4: "store_all m3 (header_stores d (rebuilt_size d b)) = Some m4"
    "agree_outside (stored (header_stores d (rebuilt_size d b))) m3 m4"
    "\<forall>(p, v)\<in>set (header_stores d (rebuilt_size d b)). load32 m4 p = Some v"
    using store_all_spaced [of "header_stores d (rebuilt_size d b)" m3] header_stores_spaced [of d "rebuilt_size d b"]
      l3 ok(1) by fastforce
  then have l4: "length m4 = 2 * Size d" using l3 by (simp add: agree_outside_def)
  have "\<forall>(p, v)\<in>set ?cs. p + 4 \<le> length m4" using ok(2) l4 by (auto simp: class_def_stores_iff)
  then obtain m5 where m5: "store_all m4 ?cs = Some m5" "agree_outside (stored ?cs) m4 m5"
    "\<forall>(p, v)\<in>set ?cs. load32 m5 p = Some v"
    using store_all_spaced [OF class_def_stores_spaced] by blast
  obtain m6 where m6: "memcpy m5 0 dex_magic = Some m6"
    using m5(2) l4 ok(1) by (auto simp: agree_outside_def memcpy_def)
  have "assemble d b m = Some (placed d b, m6, rebuilt_size d b)"
    using assemble_eq [OF assms(1,2)] m1 m2 m3 m4(1) m5(1) m6 by simp
  with l3 b1 b2 b3 m4 m5 m6 show ?thesis by blast
qed

lemma agree_take: "agree_outside S m m' \<Longrightarrow> agree_outside S (take k m) (take k m')"
  by (auto simp: agree_outside_def)

lemma bytes_at_take: "p + length bs \<le> n \<Longrightarrow> n \<le> length m \<Longrightarrow> bytes_at (take n m) p bs = bytes_at m p bs"
  by (simp add: bytes_at_def drop_take min_def)

lemma loads_take:
  "p + 2 \<le> n \<Longrightarrow> load16 (take n m) p = load16 m p"
  "p + 4 \<le> n \<Longrightarrow> load32 (take n m) p = load32 m p"
  by (auto simp: load16_def load32_def)

abbreviation class_data_slots :: "DexFile \<Rightarrow> DexBuilder \<Rightarrow> (ptr \<times> u32) list" where
  "class_data_slots d b \<equiv> class_def_stores d (placed d b) 0 (unat (hdr d class_defs_size_off))"

text \<open>What the written file holds.\<close>

lemma rebuilt_file:
  assumes "builder_ok d b" and "length m = 2 * Size d" and "rebuilt_size d b \<le> 2 * Size d"
  shows "\<exists>m'. assemble d b m = Some (placed d b, m', rebuilt_size d b)
    \<and> length (take (rebuilt_size d b) m') = rebuilt_size d b
    \<and> IsMagicValid (take (rebuilt_size d b) m') \<and> IsVersionValid (take (rebuilt_size d b) m')
    \<and> bytes_at (take (rebuilt_size d b) m') (code_start d) (code_bytes b)
    \<and> bytes_at (take (rebuilt_size d b) m') (class_data_start d b) (concat (map mem_bytes (placed_items d b)))
    \<and> (\<forall>(p, v)\<in>set (header_stores d (rebuilt_size d b)). load32 (take (rebuilt_size d b) m') p = Some v)
    \<and> (\<forall>(p, v)\<in>set (class_data_slots d b). load32 (take (rebuilt_size d b) m') p = Some v)
    \<and> agree_outside ({0..<8} \<union> stored (header_stores d (rebuilt_size d b)) \<union> stored (class_data_slots d b))
        (begin_of d) (take (Size d) m')"
proof -
  let ?n = "rebuilt_size d b" and ?hs = "header_stores d (rebuilt_size d b)" and ?cs = "class_data_slots d b"
  have ok: "112 \<le> Size d" "112 \<le> class_defs d" "class_defs d + 32 * unat (hdr d class_defs_size_off) \<le> Size d"
    "cur_code_item_offset b \<le> length (code_item_seg b)"
    using assms(1) by (auto simp: builder_ok_def)
  have le: "Size d \<le> code_start d" "code_start d \<le> class_data_start d b" "class_data_start d b \<le> ?n"
    using code_start_bounds [of d] by (auto simp: class_data_start_def rebuilt_size_def)
  have lc: "code_start d + length (code_bytes b) = class_data_start d b"
    using ok(4) by (simp add: code_bytes_def class_data_start_def)
  obtain m3 m4 m5 m6 where as: "assemble d b m = Some (placed d b, m6, ?n)" and l3: "length m3 = 2 * Size d"
    and b3: "bytes_at m3 0 (begin_of d)" "bytes_at m3 (code_start d) (code_bytes b)"
      "bytes_at m3 (class_data_start d b) (concat (map mem_bytes (placed_items d b)))"
    and a4: "agree_outside (stored ?hs) m3 m4" and h4: "\<forall>(p, v)\<in>set ?hs. load32 m4 p = Some v"
    and a5: "agree_outside (stored ?cs) m4 m5" and h5: "\<forall>(p, v)\<in>set ?cs. load32 m5 p = Some v"
    and m6: "memcpy m5 0 dex_magic = Some m6"
    using assembled [OF assms] by blast
  have a6: "agree_outside {0..<8} m5 m6" using agree_memcpy [OF m6] by (simp add: eval_nat_numeral)
  have a36: "agree_outside ({0..<8} \<union> stored ?hs \<union> stored ?cs) m3 m6"
    by (rule agree_trans [OF agree_trans [OF a4 a5 subset_refl] a6]) auto
  have hs: "stored ?hs \<subseteq> {32..<112}" by (rule header_stores_spaced)
  have cs: "stored ?cs \<subseteq> {112..<Size d}" using ok(2,3) by (auto simp: stored_def class_def_stores_iff)
  have keep: "bytes_at m6 p bs = bytes_at m3 p bs" if "Size d \<le> p" for p bs
    using that hs cs ok(1) by (intro agree_bytes_at [OF a36]) (auto simp: disjoint_iff subset_iff)
  have l6: "length m6 = 2 * Size d" using a36 l3 by (simp add: agree_outside_def)
  have magic: "bytes_at (take ?n m6) 0 dex_magic"
    using bytes_at_memcpy [OF m6] bytes_at_take [of 0 dex_magic ?n m6] le ok(1) l6 assms(3)
    by (simp del: bytes_at_Cons)
  have "\<forall>(p, v)\<in>set ?hs. load32 (take ?n m6) p = Some v"
  proof clarify
    fix p v
    assume pv: "(p, v) \<in> set ?hs"
    then have "32 \<le> p" "p + 4 \<le> 112" using stored_mem hs by blast+
    moreover from this have "{p..<p + 4} \<inter> stored ?cs = {}" using cs by (fastforce simp: disjoint_iff)
    ultimately have "load32 m6 p = load32 m4 p"
      using agree_load32 [OF a6, of p] agree_load32 [OF a5, of p] by simp
    then show "load32 (take ?n m6) p = Some v"
      using h4 pv loads_take(2) [of p ?n m6] \<open>p + 4 \<le> 112\<close> ok(1) le by auto
  qed
  moreover have "\<forall>(p, v)\<in>set ?cs. load32 (take ?n m6) p = Some v"
  proof clarify
    fix p v
    assume pv: "(p, v) \<in> set ?cs"
    then have "112 \<le> p" "p + 4 \<le> Size d" using stored_mem cs by blast+
    then show "load32 (take ?n m6) p = Some v"
      using h5 pv agree_load32 [OF a6, of p] loads_take(2) [of p ?n m6] le by (auto simp: disjoint_iff)
  qed
  moreover have "agree_outside ({0..<8} \<union> stored ?hs \<union> stored ?cs) (begin_of d) (take (Size d) m6)"
    using agree_take [OF a36, of "Size d"] b3(1) by (simp add: bytes_at_def Size_def)
  moreover have "IsMagicValid (take ?n m6)" "IsVersionValid (take ?n m6)"
    using magic by (simp_all add: IsMagicValid_def IsVersionValid_def kDexMagic_def
        kDexMagicVersion_def eval_nat_numeral)
  ultimately show ?thesis
    using as b3(2,3) keep le l6 assms(3) lc
    by (simp add: bytes_at_take rebuilt_size_def)
qed

text \<open>
  Claim C18. The one condition for a rebuild without memory corruption: assembling into the buffer of
  twice the original size that \<open>build_dex\<close> allocates succeeds exactly when the aligned original file,
  the code items and the encoded class data fit it. Nothing in the code checks that they do.
\<close>

theorem rebuild_fits_iff:
  assumes "builder_ok d b" and "length m = 2 * Size d"
  shows "(\<exists>r. assemble d b m = Some r) \<longleftrightarrow> rebuilt_size d b \<le> 2 * Size d"
proof
  assume "rebuilt_size d b \<le> 2 * Size d"
  from rebuilt_file [OF assms this] show "\<exists>r. assemble d b m = Some r" by blast
next
  assume "\<exists>r. assemble d b m = Some r"
  then obtain m1 m2 m3 where "memcpy m 0 (begin_of d) = Some m1" "memcpy m1 (code_start d) (code_bytes b) = Some m2"
    "memcpy m2 (class_data_start d b) (concat (map mem_bytes (placed_items d b))) = Some m3"
    unfolding assemble_eq [OF assms] by (auto simp: bind_eq_Some_conv)
  then show "rebuilt_size d b \<le> 2 * Size d"
    using assms(2) by (auto simp: rebuilt_size_def memcpy_def split: if_splits)
qed


text \<open>An item the builder collected: its counts are those of its lists, or its methods are missing.\<close>

definition item_ok :: "ClassDataItemMem \<Rightarrow> bool" where
  "item_ok item \<longleftrightarrow>
     unat (mem_static_fields_size item) + unat (mem_instance_fields_size item) = length (mem_fields item)
   \<and> (mem_methods item = [] \<or>
        unat (mem_direct_methods_size item) + unat (mem_virtual_methods_size item) = length (mem_methods item))
   \<and> length (mem_fields item) + length (mem_methods item) < 2 ^ 32"

lemma patch_item_ok: "item_ok item \<Longrightarrow> mem_ok (patch_item b item)"
  by (auto simp: item_ok_def mem_ok_def patch_item_def counts_ok_def mem_header_def Let_def)

lemma patch_item_class [simp]: "mem_class_idx (patch_item b item) = mem_class_idx item"
  by (simp add: patch_item_def Let_def)



lemma class_def_slot:
  assumes "k < n" and "GetClassDef d (word_of_nat k) = Some cd"
    and "class_data_offset_map (placed d b) (class_idx cd) = Some off"
  shows "(class_defs d + 32 * k + 24, ptr_diff32 (class_data_start d b) 0 + off)
    \<in> set (class_def_stores d (placed d b) 0 n)"
  unfolding class_def_stores_iff
  using assms by (intro exI [of _ k] conjI exI [of _ cd] exI [of _ off]) (simp_all add: placed_def)

text \<open>Only bytes 24 to 27 of a class definition are written.\<close>

lemma class_def_frame:
  assumes "q + w \<le> 24 \<or> 28 \<le> q" and "q + w \<le> 32" and "112 \<le> class_defs d"
  shows "{class_defs d + 32 * k + q..<class_defs d + 32 * k + q + w}
    \<inter> ({0..<8} \<union> stored (header_stores d n) \<union> stored (class_def_stores d b 0 N)) = {}"
proof (rule equals0I)
  fix x
  assume x: "x \<in> {class_defs d + 32 * k + q..<class_defs d + 32 * k + q + w}
    \<inter> ({0..<8} \<union> stored (header_stores d n) \<union> stored (class_def_stores d b 0 N))"
  then have "112 \<le> x" using assms(3) by auto
  with x header_stores_spaced(3) [of d n] have "x \<in> stored (class_def_stores d b 0 N)" by auto
  then obtain l where l: "class_defs d + 32 * l + 24 \<le> x" "x < class_defs d + 32 * l + 28"
    by (auto simp: stored_def class_def_stores_iff)
  from x have "class_defs d + 32 * k + q \<le> x" "x < class_defs d + 32 * k + q + w" by auto
  with l assms(1,2) have "32 * k < 32 * l + 32 \<and> 32 * l < 32 * k + 32" by linarith
  then have "k = l" by linarith
  with l x assms(1) show False by auto
qed

lemma GetClassDef_rebuilt:
  assumes "builder_ok d b" and "rebuilt_size d b \<le> length m'"
    and "agree_outside ({0..<8} \<union> stored (header_stores d (rebuilt_size d b)) \<union> stored (class_data_slots d b))
        (begin_of d) (take (Size d) m')"
    and "k < unat (hdr d class_defs_size_off)" and "GetClassDef d (word_of_nat k) = Some cd"
    and "load32 (take (rebuilt_size d b) m') (class_defs d + 32 * k + 24) = Some v"
  shows "GetClassDef (d\<lparr>begin_of := take (rebuilt_size d b) m'\<rparr>) (word_of_nat k) = Some (cd\<lparr>class_data_off := v\<rparr>)"
proof -
  let ?file = "take (rebuilt_size d b) m'" and ?p = "class_defs d + 32 * k"
  have ok: "112 \<le> class_defs d" "class_defs d + 32 * unat (hdr d class_defs_size_off) \<le> Size d" "k < 65536"
    using assms(1,4) by (auto simp: builder_ok_def)
  have le: "Size d \<le> rebuilt_size d b"
    using code_start_bounds(1) [of d] by (simp add: rebuilt_size_def class_data_start_def)
  have in_file: "?p + 32 \<le> Size d" using ok(2) assms(4) by linarith
  have l32: "load32 ?file (?p + q) = load32 (begin_of d) (?p + q)" if "q + 4 \<le> 24 \<or> 28 \<le> q" "q + 4 \<le> 32" for q
  proof -
    have "load32 (take (Size d) m') (?p + q) = load32 (begin_of d) (?p + q)"
      by (rule agree_load32 [OF assms(3)]) (use class_def_frame [OF that ok(1)] in \<open>simp add: add.assoc\<close>)
    with that in_file le show ?thesis by (simp add: loads_take)
  qed
  have l16: "load16 ?file (?p + q) = load16 (begin_of d) (?p + q)" if "q + 2 \<le> 24 \<or> 28 \<le> q" "q + 2 \<le> 32" for q
  proof -
    have "load16 (take (Size d) m') (?p + q) = load16 (begin_of d) (?p + q)"
      by (rule agree_load16 [OF assms(3)]) (use class_def_frame [OF that ok(1)] in \<open>simp add: add.assoc\<close>)
    with that in_file le show ?thesis by (simp add: loads_take)
  qed
  have off: "class_def_offset x (word_of_nat k) = class_defs x + 32 * k" for x
    using ok(3) by (simp add: class_def_offset_def unat_word_of_nat_u16)
  show ?thesis
    using assms(5,6) l16 [of 0] l16 [of 8] l32 [of 4] l32 [of 12] l32 [of 16] l32 [of 20] l32 [of 28]
    by (auto simp: GetClassDef_def off Let_def bind_eq_Some_conv)
qed

lemma placed_offset:
  assumes "j < length (class_data_items b)" and "distinct (map mem_class_idx (class_data_items b))"
  shows "class_data_offset_map (placed d b) (mem_class_idx (class_data_items b ! j))
    = Some (ptr_diff32 (item_offsets (class_data_start d b) (placed_items d b) ! j) (class_data_start d b))"
proof -
  have "map mem_class_idx (placed_items d b) = map mem_class_idx (class_data_items b)"
    by (simp add: placed_items_def)
  with assms offset_map_nth [of "placed_items d b" j] show ?thesis
    by (simp add: placed_def) (metis length_map nth_map)
qed

lemma ptr_diff32_sum: "ptr_diff32 q 0 + ptr_diff32 p q = word_of_nat p"
  by (simp add: ptr_diff32_def)

lemma item_offsets_end:
  "j < length items \<Longrightarrow>
     item_offsets t items ! j + length (mem_bytes (items ! j)) \<le> t + length (concat (map mem_bytes items))"
proof (induction items arbitrary: t j)
  case (Cons item items)
  then show ?case by (cases j) (auto dest!: Cons.IH [of _ "t + length (mem_bytes item)"])
qed simp

text \<open>
  Claim C1. The class definitions of the rebuilt file lead to the rebuilt class data: where the builder
  collected an item for a class, every definition of that class keeps its fields except the class
  data offset, and the runtime's iterator, started at that offset of the written file, sees exactly
  the members of the item as the builder patched it.
\<close>

theorem rebuilt_class_data:
  assumes "builder_ok d b" and "length m = 2 * Size d" and "rebuilt_size d b \<le> 2 * Size d"
    and "list_all item_ok (class_data_items b)" and "distinct (map mem_class_idx (class_data_items b))"
    and "j < length (class_data_items b)"
    and "k < unat (hdr d class_defs_size_off)" and "GetClassDef d (word_of_nat k) = Some cd"
    and "class_idx cd = mem_class_idx (class_data_items b ! j)"
  shows "\<exists>b' m' n. assemble d b m = Some (b', m', n)
    \<and> (\<exists>off p it e. GetClassDef (d\<lparr>begin_of := take n m'\<rparr>) (word_of_nat k) = Some (cd\<lparr>class_data_off := off\<rparr>)
         \<and> GetClassData (cd\<lparr>class_data_off := off\<rparr>) = Some p
         \<and> make_ClassDataItemIterator (take n m') p = Some it
         \<and> header it = mem_header (class_data_items b' ! j)
         \<and> cdi_walk (take n m') it = Some (mem_members (class_data_items b' ! j), e))"
proof -
  let ?n = "rebuilt_size d b" and ?items = "placed_items d b" and ?t = "class_data_start d b"
  let ?p = "item_offsets ?t ?items ! j"
  obtain m' where as: "assemble d b m = Some (placed d b, m', ?n)"
    and len: "length (take ?n m') = ?n"
    and data: "bytes_at (take ?n m') ?t (concat (map mem_bytes ?items))"
    and cs: "\<forall>(p, v)\<in>set (class_data_slots d b). load32 (take ?n m') p = Some v"
    and ag: "agree_outside ({0..<8} \<union> stored (header_stores d ?n) \<union> stored (class_data_slots d b))
        (begin_of d) (take (Size d) m')"
    using rebuilt_file [OF assms(1-3)] by blast
  have j: "j < length ?items" using assms(6) by (simp add: placed_items_def)
  have "(class_defs d + 32 * k + 24, word_of_nat ?p) \<in> set (class_data_slots d b)"
    using class_def_slot [OF assms(7,8)] placed_offset [OF assms(6,5)] assms(9) ptr_diff32_sum by metis
  with cs have "load32 (take ?n m') (class_defs d + 32 * k + 24) = Some (word_of_nat ?p)" by blast
  from GetClassDef_rebuilt [OF assms(1) _ ag assms(7,8) this] len
  have def: "GetClassDef (d\<lparr>begin_of := take ?n m'\<rparr>) (word_of_nat k) = Some (cd\<lparr>class_data_off := word_of_nat ?p\<rparr>)"
    by simp
  have "?p \<le> ?n" using item_offsets_end [OF j, of ?t] by (simp add: rebuilt_size_def)
  with assms(1,3) have "?p < 4294967296" by (simp add: builder_ok_def)
  then have u: "unat (word_of_nat ?p :: u32) = ?p" by (rule unat_word_of_nat_u32)
  have "0 < ?p"
    using item_offsets_ge [OF j, of ?t] code_start_bounds(1) [of d] assms(1)
    by (simp add: class_data_start_def builder_ok_def)
  with u have "(word_of_nat ?p :: u32) \<noteq> 0" by (metis less_not_refl unat_0)
  then have gcd: "GetClassData (cd\<lparr>class_data_off := word_of_nat ?p\<rparr>) = Some ?p"
    by (simp add: GetClassData_def u)
  have "mem_ok (?items ! j)"
    using assms(4,6) by (simp add: placed_items_def list_all_length patch_item_ok)
  from class_data_iteration [OF this [unfolded mem_ok_def] item_bytes_at [OF data j, unfolded mem_bytes_def]]
  have "\<exists>it e. make_ClassDataItemIterator (take ?n m') ?p = Some it \<and> header it = mem_header (?items ! j)
      \<and> cdi_walk (take ?n m') it = Some (mem_members (?items ! j), e)"
    by (auto simp: mem_members_def)
  then show ?thesis using as def gcd by (auto simp: placed_def)
qed

text \<open>
  Claim C2. The methods of the rebuilt file lead to their code: a method whose code item the builder
  copied has, in the class data that is written, the code offset at which the written file holds that
  code item; every other method keeps the offset it had, and nothing else of a method changes.
\<close>

theorem rebuilt_code_offsets:
  assumes "builder_ok d b" and "length m = 2 * Size d" and "rebuilt_size d b \<le> 2 * Size d"
    and "j < length (class_data_items b)" and "i < length (mem_methods (class_data_items b ! j))"
    and "mth = mem_methods (class_data_items b ! j) ! i"
  shows "\<exists>b' m' n. assemble d b m = Some (b', m', n)
    \<and> (case code_item_offset_map b (ucast (mem_method_idx mth)) of
         None \<Rightarrow> mem_methods (class_data_items b' ! j) ! i = mth
       | Some off \<Rightarrow>
           (\<exists>co. mem_methods (class_data_items b' ! j) ! i = mth\<lparr>code_off := co\<rparr>
              \<and> (unat off \<le> cur_code_item_offset b \<longrightarrow>
                   bytes_at (take n m') (unat co) (drop (unat off) (code_bytes b)))))"
proof -
  let ?n = "rebuilt_size d b"
  obtain m' where as: "assemble d b m = Some (placed d b, m', ?n)"
    and code: "bytes_at (take ?n m') (code_start d) (code_bytes b)"
    using rebuilt_file [OF assms(1-3)] by blast
  let ?b = "b\<lparr>dex_begin := 0, code_item_addr := code_start d\<rparr>"
  have "mem_methods (class_data_items (placed d b) ! j) ! i = repair_code_off ?b mth"
    using assms(4-6) by (auto simp: placed_def placed_items_def patch_item_def Let_def)
  moreover have "bytes_at (take ?n m') (unat (ptr_diff32 (code_start d) 0 + off)) (drop (unat off) (code_bytes b))"
    if "unat off \<le> cur_code_item_offset b" for off
  proof -
    have l: "unat off \<le> length (code_bytes b)" using that assms(1) by (simp add: code_bytes_def builder_ok_def)
    have "code_start d + unat off < 2 ^ 32"
      using that assms(1,3) by (simp add: builder_ok_def rebuilt_size_def class_data_start_def)
    then have "unat (ptr_diff32 (code_start d) 0 + off) = code_start d + unat off"
      by (simp add: ptr_diff32_def unat_word_ariths unat_of_nat)
    moreover have "bytes_at (take ?n m') (code_start d + unat off) (drop (unat off) (code_bytes b))"
      using code bytes_at_append [of "take ?n m'" "code_start d" "take (unat off) (code_bytes b)" "drop (unat off) (code_bytes b)"] l
      by simp
    ultimately show ?thesis by simp
  qed
  ultimately show ?thesis
    using as by (cases "code_item_offset_map b (ucast (mem_method_idx mth))") (auto simp: repair_code_off_def Let_def)
qed

section \<open>An example\<close>

text \<open>A file with one class definition and a builder that collected one class with one method.\<close>

definition sample_class_dex :: buffer where
  "sample_class_dex = [
    0x64, 0x65, 0x78, 0x0a, 0x30, 0x33, 0x35, 0, 0, 0, 0, 0, 0, 0, 0, 0, 0, 0, 0, 0, 0, 0, 0, 0,
    0, 0, 0, 0, 0, 0, 0, 0, 0x98, 0, 0, 0, 0x70, 0, 0, 0, 0x78, 0x56, 0x34, 0x12, 0, 0, 0, 0,
    0, 0, 0, 0, 0, 0, 0, 0, 0, 0, 0, 0, 0x70, 0, 0, 0, 0, 0, 0, 0, 0x70, 0, 0, 0, 0, 0, 0, 0,
    0x70, 0, 0, 0, 0, 0, 0, 0, 0x70, 0, 0, 0, 0, 0, 0, 0, 0x70, 0, 0, 0, 1, 0, 0, 0, 0x70, 0, 0, 0,
    8, 0, 0, 0, 0x90, 0, 0, 0,
    0, 0, 0, 0, 1, 0, 0, 0, 0, 0, 0, 0, 0, 0, 0, 0, 0, 0, 0, 0, 0, 0, 0, 0, 0, 0, 0, 0, 0, 0, 0, 0,
    0xaa, 0xaa, 0xaa, 0xaa, 0xaa, 0xaa, 0xaa, 0xaa]"

definition sample_class_file :: DexFile where
  "sample_class_file = \<lparr>begin_of = sample_class_dex, string_ids = 112, type_ids = 112, field_ids = 112,
     method_ids = 112, proto_ids = 112, class_defs = 112\<rparr>"

definition sample_builder :: DexBuilder where
  "sample_builder = new_DexBuilder\<lparr>code_item_offset_map := [3 \<mapsto> 0], code_item_seg := [0x0e, 0, 0x0e, 0],
     cur_code_item_offset := 4, class_data_items := [sample_item]\<rparr>"

lemma sample_size: "Size sample_class_file = 152"
  by code_simp

lemma sample_rebuilt_size: "rebuilt_size sample_class_file sample_builder = 176"
  by code_simp

lemma sample_builder_ok: "builder_ok sample_class_file sample_builder"
proof -
  have "hdr sample_class_file class_defs_size_off = 1" "class_defs sample_class_file = 112"
    "cur_code_item_offset sample_builder = 4" "length (code_item_seg sample_builder) = 4"
    by code_simp+
  then show ?thesis by (simp add: builder_ok_def sample_size)
qed


lemma sample_items_ok:
  "list_all item_ok (class_data_items sample_builder)" "distinct (map mem_class_idx (class_data_items sample_builder))"
  by (simp_all add: sample_builder_def sample_item_def item_ok_def)

lemma sample_class_def:
  "GetClassDef sample_class_file (word_of_nat 0) = Some \<lparr>class_idx = 0, access_flags = 1, superclass_idx = 0,
     interfaces_off = 0, source_file_idx = 0, annotations_off = 0, class_data_off = 0, static_values_off = 0\<rparr>"
  by code_simp

theorem rebuild_fits_iff_witness:
  "\<exists>r. assemble sample_class_file sample_builder (replicate 304 0) = Some r"
  using rebuild_fits_iff [OF sample_builder_ok, of "replicate 304 0"] by (simp add: sample_size sample_rebuilt_size)


theorem rebuilt_class_data_witness:
  "\<exists>b' m' n. assemble sample_class_file sample_builder (replicate 304 0) = Some (b', m', n)
     \<and> (\<exists>p it e. make_ClassDataItemIterator (take n m') p = Some it
          \<and> cdi_walk (take n m') it = Some (mem_members (class_data_items b' ! 0), e))"
proof -
  have "0 < unat (hdr sample_class_file class_defs_size_off)" by code_simp
  moreover have "class_data_items sample_builder = [sample_item]" "mem_class_idx sample_item = 0"
    by (simp_all add: sample_builder_def sample_item_def)
  ultimately show ?thesis
    using rebuilt_class_data [OF sample_builder_ok, of "replicate 304 0" 0 0, OF _ _ sample_items_ok _ _ sample_class_def]
    by (simp add: sample_size sample_rebuilt_size) blast
qed

theorem rebuilt_code_offsets_witness:
  "\<exists>b' m' n co. assemble sample_class_file sample_builder (replicate 304 0) = Some (b', m', n)
     \<and> mem_methods (class_data_items b' ! 0) ! 0 = (mem_methods sample_item ! 0)\<lparr>code_off := co\<rparr>
     \<and> bytes_at (take n m') (unat co) [0x0e, 0, 0x0e, 0]"
proof -
  have "class_data_items sample_builder = [sample_item]" "length (mem_methods sample_item) = 1"
    "code_item_offset_map sample_builder (ucast (mem_method_idx (mem_methods sample_item ! 0))) = Some 0"
    "code_bytes sample_builder = [0x0e, 0, 0x0e, 0]"
    by code_simp+
  then show ?thesis
    using rebuilt_code_offsets [OF sample_builder_ok, of "replicate 304 0" 0 0 "mem_methods sample_item ! 0"]
    by (simp add: sample_size sample_rebuilt_size del: bytes_at_Cons)
qed

end
