(* ===== verification/UnpackFilter.thy ===== *)
theory UnpackFilter
  imports Prelude
begin

text \<open>
  The unpacker's configuration: \<open>art/runtime/gerat/util/Utilproc.h\<close> and \<open>Utilproc.cc\<close> (process name,
  data directory, code hash) and \<open>art/runtime/gerat/filter/filter.h\<close>, \<open>filter.cc\<close>,
  \<open>karlgeratufilter.h\<close> and \<open>karlgeratufilter.cc\<close> (the configuration file and the name lists). The files a
  process can see are a map from paths to contents; the command line of the process and the paths
  \<open>stat\<close> succeeds on are part of the same environment.
\<close>

section \<open>Streams and strings\<close>

record env =
  files :: "string \<Rightarrow> string option"
  exists :: "string \<Rightarrow> bool"
  proc_cmdline :: "string option"

text \<open>\<open>fin >> s\<close>: skip white space, take the characters up to the next white space. At the end of the
  file the extraction fails and the string keeps its value.\<close>

definition is_space :: "char \<Rightarrow> bool" where
  "is_space c \<longleftrightarrow> c \<in> {CHR '' '', CHR 0x09, CHR 0x0A, CHR 0x0B, CHR 0x0C, CHR 0x0D}"

definition read_word :: "string \<Rightarrow> string \<Rightarrow> string \<times> string" where
  "read_word old fin =
     (let rest = dropWhile is_space fin
      in if rest = [] then (old, [])
         else (takeWhile (\<lambda>c. \<not> is_space c) rest, dropWhile (\<lambda>c. \<not> is_space c) rest))"

text \<open>The lines \<open>while (getline(fin, line))\<close> sees: a last line without a newline counts if it is not
  empty.\<close>

function getlines :: "string \<Rightarrow> string list" where
  "getlines s =
     (if s = [] then []
      else takeWhile (\<lambda>c. c \<noteq> CHR 0x0A) s # getlines (drop 1 (dropWhile (\<lambda>c. c \<noteq> CHR 0x0A) s)))"
  by pat_completeness auto
termination
proof (relation "measure length", goal_cases)
  case (2 s)
  then show ?case
    using length_dropWhile_le [of "\<lambda>c. c \<noteq> CHR 0x0A" s] by (cases s) (auto simp: le_imp_less_Suc)
qed simp

declare getlines.simps [simp del]

text \<open>\<open>name.find(needle) != std::string::npos\<close>.\<close>

fun str_contains :: "string \<Rightarrow> string \<Rightarrow> bool" where
  "str_contains needle [] \<longleftrightarrow> needle = []"
| "str_contains needle (c # s) \<longleftrightarrow>
     take (length needle) (c # s) = needle \<or> str_contains needle s"

section \<open>The process\<close>

text \<open>\<open>isprint(c) > 0 && c != ' '\<close> in the C locale.\<close>

definition is_graph :: "char \<Rightarrow> bool" where
  "is_graph c \<longleftrightarrow> 0x20 < (of_char c :: nat) \<and> (of_char c :: nat) < 0x7f"

definition get_proc_name :: "env \<Rightarrow> string" where
  "get_proc_name e =
     (case proc_cmdline e of
        None \<Rightarrow> []
      | Some f \<Rightarrow> takeWhile is_graph (takeWhile (\<lambda>c. c \<noteq> CHR 0x0A) f))"

definition get_apk_dir :: "env \<Rightarrow> string" where
  "get_apk_dir e =
     (let apk_dir_guess = ''/data/data/'' @ get_proc_name e
      in if exists e apk_dir_guess then apk_dir_guess else [])"

text \<open>\<open>hash = hash * seed + str[i++]\<close> in 32 bits; \<open>char\<close> is signed on x86 and unsigned on ARM.
  \<open>len\<close> is an \<open>int\<close>: nothing is hashed when it is negative.\<close>

definition char_value :: "bool \<Rightarrow> u8 \<Rightarrow> u32" where
  "char_value char_signed b = (if char_signed then scast b else ucast b)"

fun BKDRHash_loop :: "bool \<Rightarrow> u32 \<Rightarrow> buffer \<Rightarrow> ptr \<Rightarrow> nat \<Rightarrow> u32 option" where
  "BKDRHash_loop char_signed hash buf p 0 = Some hash"
| "BKDRHash_loop char_signed hash buf p (Suc n) = do {
     b \<leftarrow> load8 buf p;
     BKDRHash_loop char_signed (hash * 131 + char_value char_signed b) buf (Suc p) n
   }"

definition BKDRHash :: "bool \<Rightarrow> buffer \<Rightarrow> u32 \<Rightarrow> u32 option" where
  "BKDRHash char_signed str len = BKDRHash_loop char_signed 0 str 0 (nat (sint len))"

section \<open>The filter\<close>

datatype UnpackMode = black | white

record KarlGeratUFilter =
  flag :: bool
  component_name :: string
  dump_method_str :: string
  force_init_flag :: bool
  rebuild_flag :: bool
  black_list :: "string set"
  white_list :: "string set"
  bypass_class_list :: "string set"
  mode_str :: string
  mode :: UnpackMode

text \<open>The constructor sets none of \<open>force_init_flag\<close>, \<open>rebuild_flag\<close> and \<open>mode\<close>: the arguments stand
  for what the memory holds.\<close>

definition make_KarlGeratUFilter :: "bool \<Rightarrow> bool \<Rightarrow> UnpackMode \<Rightarrow> KarlGeratUFilter" where
  "make_KarlGeratUFilter force0 rebuild0 mode0 =
     \<lparr>flag = False, component_name = [], dump_method_str = [], force_init_flag = force0,
      rebuild_flag = rebuild0, black_list = {}, white_list = {}, bypass_class_list = {},
      mode_str = [], mode = mode0\<rparr>"

definition check_flag :: "env \<Rightarrow> KarlGeratUFilter \<Rightarrow> KarlGeratUFilter" where
  "check_flag e f =
     (if flag f then f
      else case files e (get_apk_dir e @ ''/unpack.txt'') of
        None \<Rightarrow> f\<lparr>force_init_flag := False, flag := False\<rparr>
      | Some fin \<Rightarrow>
          (let (name, fin) = read_word (component_name f) fin;
               f = f\<lparr>component_name := name\<rparr>
           in if component_name f \<noteq> []
              then
                let (dump, fin) = read_word (dump_method_str f) fin;
                    f = f\<lparr>flag := True, dump_method_str := dump\<rparr>
                in if dump_method_str f \<noteq> []
                      \<and> (dump_method_str f = ''force-dump'' \<or> dump_method_str f = ''force-rebuild'')
                   then
                     let f = f\<lparr>force_init_flag := True,
                               rebuild_flag := (dump_method_str f = ''force-rebuild'')\<rparr>;
                         (m, fin) = read_word (mode_str f) fin;
                         f = f\<lparr>mode_str := m\<rparr>
                     in if mode_str f \<noteq> [] \<and> mode_str f = ''black'' then f\<lparr>mode := black\<rparr>
                        else if mode_str f \<noteq> [] \<and> mode_str f = ''white'' then f\<lparr>mode := white\<rparr>
                        else f\<lparr>mode := black\<rparr>
                   else f\<lparr>force_init_flag := False\<rparr>
              else f\<lparr>force_init_flag := False, flag := False\<rparr>))"

definition get_flag :: "env \<Rightarrow> KarlGeratUFilter \<Rightarrow> bool \<times> KarlGeratUFilter" where
  "get_flag e f = (let f = check_flag e f in (flag f, f))"

definition get_component_name :: "KarlGeratUFilter \<Rightarrow> string" where
  "get_component_name f = component_name f"

definition get_force_init_flag :: "KarlGeratUFilter \<Rightarrow> bool" where
  "get_force_init_flag f = force_init_flag f"

definition get_rebuild_flag :: "KarlGeratUFilter \<Rightarrow> bool" where
  "get_rebuild_flag f = rebuild_flag f"

definition check_in_black_list :: "KarlGeratUFilter \<Rightarrow> string \<Rightarrow> bool" where
  "check_in_black_list f name =
     (if mode f = white then True
      else if mode f = black \<and> name \<notin> black_list f then False
      else True)"

definition check_in_white_list :: "KarlGeratUFilter \<Rightarrow> string \<Rightarrow> bool" where
  "check_in_white_list f name =
     (if mode f = black then False
      else if mode f = white \<and> name \<notin> white_list f then False
      else True)"

definition should_process :: "KarlGeratUFilter \<Rightarrow> string \<Rightarrow> bool" where
  "should_process f name =
     (if mode f = black then (if check_in_black_list f name then True else False)
      else if mode f = white then (if check_in_white_list f name then False else True)
      else False)"

text \<open>The loop over the set returns \<open>false\<close> at the first match; its order does not matter.\<close>

definition should_initialize :: "KarlGeratUFilter \<Rightarrow> string \<Rightarrow> bool" where
  "should_initialize f name \<longleftrightarrow> (\<forall>it\<in>bypass_class_list f. \<not> str_contains it name)"

definition nonempty_lines :: "string option \<Rightarrow> string set" where
  "nonempty_lines fin =
     (case fin of None \<Rightarrow> {} | Some s \<Rightarrow> set (filter (\<lambda>line. line \<noteq> []) (getlines s)))"

definition read_method_name_list :: "env \<Rightarrow> KarlGeratUFilter \<Rightarrow> KarlGeratUFilter" where
  "read_method_name_list e f =
     (if mode f = black
      then f\<lparr>black_list := black_list f \<union> nonempty_lines (files e (get_apk_dir e @ ''/black.txt''))\<rparr>
      else f\<lparr>white_list := white_list f \<union> nonempty_lines (files e (get_apk_dir e @ ''/white.txt''))\<rparr>)"

definition read_class_name_list :: "env \<Rightarrow> KarlGeratUFilter \<Rightarrow> KarlGeratUFilter" where
  "read_class_name_list e f =
     f\<lparr>bypass_class_list := bypass_class_list f
         \<union> nonempty_lines (files e (get_apk_dir e @ ''/bypass_class.txt''))\<rparr>"

definition read_list_files :: "env \<Rightarrow> KarlGeratUFilter \<Rightarrow> KarlGeratUFilter" where
  "read_list_files e f = read_class_name_list e (read_method_name_list e f)"

section \<open>The configuration file\<close>

function split_words :: "string \<Rightarrow> string list" where
  "split_words s =
     (let rest = dropWhile is_space s
      in if rest = [] then []
         else takeWhile (\<lambda>c. \<not> is_space c) rest # split_words (dropWhile (\<lambda>c. \<not> is_space c) rest))"
  by pat_completeness auto
termination
proof (relation "measure length", goal_cases)
  case (2 s rest)
  then obtain c r where r: "rest = c # r" "\<not> is_space c"
    by (metis dropWhile_eq_Cons_conv list.exhaust)
  have "length (dropWhile (\<lambda>c. \<not> is_space c) rest) \<le> length r"
    using r length_dropWhile_le [of "\<lambda>c. \<not> is_space c" r] by simp
  also have "\<dots> < length rest" using r by simp
  also have "\<dots> \<le> length s" using 2 by (simp add: length_dropWhile_le)
  finally show ?case by simp
qed simp

declare split_words.simps [simp del]

lemma read_word_split:
  "read_word [] s = (case split_words s of [] \<Rightarrow> ([], []) | w # ws \<Rightarrow> (w, snd (read_word [] s)))"
  "split_words (snd (read_word [] s)) = tl (split_words s)"
  by (simp_all add: split_words.simps [of s] read_word_def Let_def split_words.simps [of "[]"])

lemma read_word_fst: "fst (read_word [] s) = (case split_words s of [] \<Rightarrow> [] | w # ws \<Rightarrow> w)"
  using read_word_split(1) [of s] by (cases "split_words s") (simp_all add: prod_eq_iff)

lemma split_words_nonempty: "w \<in> set (split_words s) \<Longrightarrow> w \<noteq> []"
proof (induction s rule: split_words.induct)
  case (1 s)
  show ?case
  proof (cases "dropWhile is_space s")
    case Nil
    with 1(2) show ?thesis by (simp add: split_words.simps [of s])
  next
    case (Cons c r)
    then have "\<not> is_space c" by (metis dropWhile_eq_Cons_conv)
    with Cons 1 show ?thesis by (auto simp: split_words.simps [of s] Let_def)
  qed
qed

text \<open>A filter that has not found its configuration.\<close>

definition unconfigured :: "KarlGeratUFilter \<Rightarrow> bool" where
  "unconfigured f \<longleftrightarrow> \<not> flag f \<and> component_name f = [] \<and> dump_method_str f = [] \<and> mode_str f = []"

text \<open>What the words of the configuration file select.\<close>

definition configured_by :: "string list \<Rightarrow> KarlGeratUFilter \<Rightarrow> bool" where
  "configured_by ws f \<longleftrightarrow>
     flag f \<and> component_name f = hd ws
   \<and> force_init_flag f = (2 \<le> length ws \<and> ws ! 1 \<in> {''force-dump'', ''force-rebuild''})
   \<and> (force_init_flag f \<longrightarrow>
        rebuild_flag f = (ws ! 1 = ''force-rebuild'')
      \<and> mode f = (if 3 \<le> length ws \<and> ws ! 2 = ''white'' then white else black))"

text \<open>
  Claim C24. \<open>check_flag\<close> implements the three levels of the configuration file: without the file, or
  with no word in it, the filter stays unconfigured; otherwise the first word is the component name,
  the second selects dumping (level 1), forced dumping (level 2, \<open>force-dump\<close>) or rebuilding (level 3,
  \<open>force-rebuild\<close>), and at the forced levels the third word selects the list mode, \<open>black\<close> unless it is
  \<open>white\<close>.
\<close>

theorem check_flag_levels:
  assumes "unconfigured f"
  shows "case files e (get_apk_dir e @ ''/unpack.txt'') of
      None \<Rightarrow> unconfigured (check_flag e f) \<and> \<not> force_init_flag (check_flag e f)
    | Some cfg \<Rightarrow>
        if split_words cfg = [] then unconfigured (check_flag e f) \<and> \<not> force_init_flag (check_flag e f)
        else configured_by (split_words cfg) (check_flag e f)"
proof (cases "files e (get_apk_dir e @ ''/unpack.txt'')")
  case None
  with assms show ?thesis by (simp add: check_flag_def unconfigured_def)
next
  case (Some cfg)
  have init: "component_name f = []" "dump_method_str f = []" "mode_str f = []" "\<not> flag f"
    using assms by (simp_all add: unconfigured_def)
  show ?thesis
  proof (cases "split_words cfg")
    case Nil
    then have "read_word [] cfg = ([], [])" using read_word_split(1) [of cfg] by simp
    with Some init Nil show ?thesis by (simp add: check_flag_def unconfigured_def)
  next
    case (Cons w ws)
    define fin1 where "fin1 = snd (read_word [] cfg)"
    define fin2 where "fin2 = snd (read_word [] fin1)"
    have r0: "read_word [] cfg = (w, fin1)" "w \<noteq> []" "split_words fin1 = ws"
      using read_word_split [of cfg] split_words_nonempty [of w cfg] Cons by (auto simp: fin1_def)
    have r1: "read_word [] fin1 = (case ws of [] \<Rightarrow> [] | v # _ \<Rightarrow> v, fin2)" "split_words fin2 = tl ws"
      using read_word_fst [of fin1] read_word_split [of fin1] r0(3)
      by (auto simp: fin2_def prod_eq_iff)
    have r2: "fst (read_word [] fin2) = (case tl ws of [] \<Rightarrow> [] | v # _ \<Rightarrow> v)"
      using read_word_fst [of fin2] r1(2) by simp
    show ?thesis
      using Some init Cons r0 r1(1) r2
      by (cases ws; cases "tl ws")
        (auto simp: check_flag_def configured_by_def case_prod_beta Let_def)
  qed
qed

theorem check_flag_levels_witness:
  "configured_by [''La/B;'', ''force-rebuild'', ''white'']
     (check_flag \<lparr>files = (\<lambda>p. if p = ''/data/data/a.b/unpack.txt'' then Some ''La/B; force-rebuild white'' else None),
        exists = (\<lambda>p. p = ''/data/data/a.b''), proc_cmdline = Some ''a.b''\<rparr>
       (make_KarlGeratUFilter True False black))"
proof -
  let ?e = "\<lparr>files = (\<lambda>p. if p = ''/data/data/a.b/unpack.txt'' then Some ''La/B; force-rebuild white'' else None),
        exists = (\<lambda>p. p = ''/data/data/a.b''), proc_cmdline = Some ''a.b''\<rparr>"
  have "unconfigured (make_KarlGeratUFilter True False black)" by code_simp
  moreover have "get_apk_dir ?e = ''/data/data/a.b''" by code_simp
  moreover have "split_words ''La/B; force-rebuild white'' = [''La/B;'', ''force-rebuild'', ''white'']" by code_simp
  ultimately show ?thesis using check_flag_levels [of "make_KarlGeratUFilter True False black" ?e] by simp
qed

text \<open>
  Once the flag is set the configuration is final: whatever the environment later
  becomes, however often \<open>get_flag\<close> is asked, it answers true and changes nothing.
\<close>

theorem get_flag_final:
  assumes "fst (get_flag e f) = True"
  shows "foldl (\<lambda>f e. snd (get_flag e f)) (snd (get_flag e f)) es = snd (get_flag e f)
    \<and> fst (get_flag e' (snd (get_flag e f))) = True"
proof -
  have keep: "flag g \<Longrightarrow> get_flag e g = (True, g)" for e g
    by (simp add: get_flag_def check_flag_def)
  have "flag (snd (get_flag e f))" using assms by (simp add: get_flag_def Let_def)
  from keep [OF this] show ?thesis by (induction es) simp_all
qed

theorem get_flag_final_witness:
  "foldl (\<lambda>f e. snd (get_flag e f)) (make_KarlGeratUFilter False False black\<lparr>flag := True\<rparr>)
     [\<lparr>files = (\<lambda>p. None), exists = (\<lambda>p. False), proc_cmdline = None\<rparr>]
   = make_KarlGeratUFilter False False black\<lparr>flag := True\<rparr>"
proof -
  let ?e = "\<lparr>files = (\<lambda>p. None), exists = (\<lambda>p. False), proc_cmdline = None\<rparr>"
  let ?f = "make_KarlGeratUFilter False False black\<lparr>flag := True\<rparr>"
  have "get_flag ?e ?f = (True, ?f)" by (simp add: get_flag_def check_flag_def)
  with get_flag_final [of ?e ?f "[?e]"] show ?thesis by simp
qed

section \<open>Name lists\<close>

lemma str_contains_iff: "str_contains needle s \<longleftrightarrow> (\<exists>pre post. s = pre @ needle @ post)"
proof (induction needle s rule: str_contains.induct)
  case (1 needle)
  then show ?case by auto
next
  case (2 needle c s)
  have "take (length needle) (c # s) = needle \<longleftrightarrow> (\<exists>post. c # s = needle @ post)"
    by (metis append_eq_conv_conj append_take_drop_id)
  moreover have "(\<exists>pre post. c # s = pre @ needle @ post) \<longleftrightarrow>
      (\<exists>post. c # s = needle @ post) \<or> (\<exists>pre post. s = pre @ needle @ post)"
    by (metis append_Cons append_Nil list.inject neq_Nil_conv)
  ultimately show ?case using 2 by simp
qed

lemma getlines_join:
  assumes "list_all (\<lambda>l. CHR 0x0A \<notin> set l) ls"
  shows "getlines (concat (map (\<lambda>l. l @ [CHR 0x0A]) ls)) = ls"
  using assms
proof (induction ls)
  case Nil
  then show ?case by (simp add: getlines.simps)
next
  case (Cons l ls)
  then have "takeWhile (\<lambda>c. c \<noteq> CHR 0x0A) (l @ CHR 0x0A # r) = l"
    "dropWhile (\<lambda>c. c \<noteq> CHR 0x0A) (l @ CHR 0x0A # r) = CHR 0x0A # r" for r
    by (auto simp: takeWhile_append dropWhile_append)
  with Cons show ?case by (simp add: getlines.simps [of "l @ _"])
qed

text \<open>
  Claim C25. The name lists select what they say: after \<open>read_list_files\<close> on lists written one name per
  line, \<open>should_process\<close> accepts exactly the names of \<open>black.txt\<close> in black mode and exactly the names
  missing from \<open>white.txt\<close> in white mode, and \<open>should_initialize\<close> rejects exactly the class names in
  which a name of \<open>bypass_class.txt\<close> occurs.
\<close>

theorem name_lists_select:
  assumes "black_list f = {}" and "white_list f = {}" and "bypass_class_list f = {}"
    and "list_all (\<lambda>l. CHR 0x0A \<notin> set l \<and> l \<noteq> []) (names @ bypass)"
    and "files e (get_apk_dir e @ (if mode f = black then ''/black.txt'' else ''/white.txt''))
      = Some (concat (map (\<lambda>l. l @ [CHR 0x0A]) names))"
    and "files e (get_apk_dir e @ ''/bypass_class.txt'') = Some (concat (map (\<lambda>l. l @ [CHR 0x0A]) bypass))"
  shows "(should_process (read_list_files e f) name \<longleftrightarrow> (name \<in> set names \<longleftrightarrow> mode f = black))
    \<and> (should_initialize (read_list_files e f) cname \<longleftrightarrow>
         \<not> (\<exists>b\<in>set bypass. \<exists>pre post. cname = pre @ b @ post))"
proof -
  have lines: "getlines (concat (map (\<lambda>l. l @ [CHR 0x0A]) names)) = names"
    "getlines (concat (map (\<lambda>l. l @ [CHR 0x0A]) bypass)) = bypass"
    using assms(4) by (auto intro!: getlines_join simp: list_all_iff)
  have ne: "filter (\<lambda>line. line \<noteq> []) names = names" "filter (\<lambda>line. line \<noteq> []) bypass = bypass"
    using assms(4) by (auto simp: list_all_iff filter_id_conv)
  show ?thesis
    using assms lines ne
    by (cases "mode f")
      (auto simp: read_list_files_def read_method_name_list_def read_class_name_list_def
        nonempty_lines_def should_process_def check_in_black_list_def check_in_white_list_def
        should_initialize_def str_contains_iff)
qed

theorem name_lists_select_witness:
  "should_process (read_list_files \<lparr>files = (\<lambda>p. if p = ''/black.txt'' then Some [CHR ''m'', CHR 0x0A]
        else if p = ''/bypass_class.txt'' then Some [CHR ''k'', CHR 0x0A] else None),
      exists = (\<lambda>p. False), proc_cmdline = None\<rparr> (make_KarlGeratUFilter True False black)) ''m''
   \<and> \<not> should_initialize (read_list_files \<lparr>files = (\<lambda>p. if p = ''/black.txt'' then Some [CHR ''m'', CHR 0x0A]
        else if p = ''/bypass_class.txt'' then Some [CHR ''k'', CHR 0x0A] else None),
      exists = (\<lambda>p. False), proc_cmdline = None\<rparr> (make_KarlGeratUFilter True False black)) ''Lkk;''"
proof -
  let ?e = "\<lparr>files = (\<lambda>p. if p = ''/black.txt'' then Some [CHR ''m'', CHR 0x0A]
        else if p = ''/bypass_class.txt'' then Some [CHR ''k'', CHR 0x0A] else None),
      exists = (\<lambda>p. False), proc_cmdline = None\<rparr>"
  let ?f = "make_KarlGeratUFilter True False black"
  have "get_apk_dir ?e = []" by code_simp
  then have "(should_process (read_list_files ?e ?f) ''m'' \<longleftrightarrow> (''m'' \<in> set [''m''] \<longleftrightarrow> mode ?f = black))
    \<and> (should_initialize (read_list_files ?e ?f) ''Lkk;'' \<longleftrightarrow>
         \<not> (\<exists>b\<in>set [''k'']. \<exists>pre post. ''Lkk;'' = pre @ b @ post))"
    by (intro name_lists_select) (simp_all add: make_KarlGeratUFilter_def)
  moreover have "\<exists>b\<in>set [''k'']. \<exists>pre post. ''Lkk;'' = pre @ b @ post"
  proof -
    have "''Lkk;'' = ''L'' @ ''k'' @ ''k;''" by simp
    then show ?thesis by (metis list.set_intros(1))
  qed
  moreover have "mode ?f = black" by (simp add: make_KarlGeratUFilter_def)
  ultimately show ?thesis by simp
qed

section \<open>The code hash\<close>

text \<open>
  The forced-invocation interpreter (\<open>interpreter_switch_impl.cc\<close>) hashes a method's instructions before
  it runs and again after each \<open>invoke-static\<close>; a different hash means that the code was rewritten in
  place, and the rewritten code item is handed out. \<open>insns_size * sizeof(uint16_t)\<close> is stored in a
  \<open>uint32_t\<close>.
\<close>

definition insns_hash :: "bool \<Rightarrow> buffer \<Rightarrow> u32 \<Rightarrow> u32 option" where
  "insns_hash char_signed insns insns_size_in_code_units =
     BKDRHash char_signed insns (insns_size_in_code_units * 2)"

definition rewritten_after_invoke_static :: "bool \<Rightarrow> u32 \<Rightarrow> buffer \<Rightarrow> u32 \<Rightarrow> bool option" where
  "rewritten_after_invoke_static char_signed hash1 insns insns_size_in_code_units =
     map_option (\<lambda>hash2. hash1 \<noteq> hash2) (insns_hash char_signed insns insns_size_in_code_units)"

lemma BKDRHash_loop_foldl:
  "p + n \<le> length buf \<Longrightarrow>
     BKDRHash_loop cs h buf p n = Some (foldl (\<lambda>h b. h * 131 + char_value cs b) h (take n (drop p buf)))"
proof (induction n arbitrary: h p)
  case (Suc n)
  then have "drop p buf = buf ! p # drop (Suc p) buf" by (simp add: Cons_nth_drop_Suc)
  with Suc show ?case by (simp add: load8_def)
qed simp

lemma char_value_inj: "char_value cs a = char_value cs b \<Longrightarrow> a = b"
proof -
  have "ucast (ucast x :: u32) = x" "ucast (scast x :: u32) = x" for x :: u8
    by (rule bit_word_eqI; auto simp: bit_simps)+
  then show "char_value cs a = char_value cs b \<Longrightarrow> a = b"
    by (cases cs) (metis char_value_def)+
qed

text \<open>A step of the hash loses nothing: 131 is odd, hence invertible modulo \<open>2^32\<close>.\<close>

lemma hash_step_inj: "h * 131 + c = h' * 131 + (c :: u32) \<Longrightarrow> h = h'"
proof -
  assume "h * 131 + c = h' * 131 + c"
  then have "h * (131 * 0xc9484e2b) = h' * (131 * (0xc9484e2b :: u32))"
    by (simp only: mult.assoc [symmetric] add_right_cancel)
  moreover have "131 * 0xc9484e2b = (1 :: u32)" by simp
  ultimately show ?thesis by (simp only: mult_1_right)
qed

lemma hash_inj: "foldl (\<lambda>h b. h * 131 + char_value cs b) h bs = foldl (\<lambda>h b. h * 131 + char_value cs b) h' bs \<Longrightarrow> h = h'"
  by (induction bs arbitrary: h h') (auto dest: hash_step_inj)

lemma hash_one_byte:
  assumes "i < length bs" and "b \<noteq> bs ! i"
  shows "foldl (\<lambda>h b. h * 131 + char_value cs b) h (bs[i := b]) \<noteq> foldl (\<lambda>h b. h * 131 + char_value cs b) h bs"
proof
  let ?F = "foldl (\<lambda>h b. h * 131 + char_value cs b)"
  assume "?F h (bs[i := b]) = ?F h bs"
  moreover have "bs = take i bs @ bs ! i # drop (Suc i) bs" "bs[i := b] = take i bs @ b # drop (Suc i) bs"
    using assms(1) by (simp_all add: id_take_nth_drop upd_conv_take_nth_drop)
  ultimately have "?F h (take i bs @ b # drop (Suc i) bs) = ?F h (take i bs @ bs ! i # drop (Suc i) bs)"
    by simp
  then have "?F (?F h (take i bs) * 131 + char_value cs b) (drop (Suc i) bs)
      = ?F (?F h (take i bs) * 131 + char_value cs (bs ! i)) (drop (Suc i) bs)"
    by (simp only: foldl_append foldl_Cons)
  from hash_inj [OF this] have "char_value cs b = char_value cs (bs ! i)" by simp
  with assms(2) char_value_inj show False by blast
qed

lemma insns_hash_foldl:
  assumes "length insns = 2 * unat units" and "unat units < 2 ^ 30"
  shows "insns_hash cs insns units = Some (foldl (\<lambda>h b. h * 131 + char_value cs b) 0 insns)"
proof -
  have "unat (units * 2) = 2 * unat units" using assms(2) by (simp add: unat_word_ariths)
  then have u: "uint (units * 2) = int (2 * unat units)" by (metis of_nat_unat unsigned_of_nat uint_nat)
  have "2 * unat units < 2 ^ 31" using assms(2) by simp
  then have "int (2 * unat units) < int (2 ^ 31)" by (simp only: of_nat_less_iff)
  then have "uint (units * 2) < 2 ^ 31" by (simp only: u of_nat_power of_nat_numeral)
  moreover have "- (2 ^ 31) \<le> uint (units * 2)" using uint_ge_0 [of "units * 2"] by (rule order_trans [rotated]) simp
  ultimately have "sint (units * 2) = uint (units * 2)"
    by (simp add: sint_uint signed_take_bit_int_eq_self del: uint_ge_0)
  then have "nat (sint (units * 2)) = length insns" by (simp only: u assms(1) nat_int)
  then show ?thesis by (simp add: insns_hash_def BKDRHash_def BKDRHash_loop_foldl)
qed

text \<open>
  A rewrite of a single byte of a method's instructions is always noticed, and unchanged
  instructions never raise an alarm, whatever the signedness of \<open>char\<close>.
\<close>

theorem single_byte_rewrite_detected:
  assumes "length insns = 2 * unat units" and "unat units < 2 ^ 30"
    and "insns_hash cs insns units = Some hash1"
    and "i < length insns" and "b \<noteq> insns ! i"
  shows "rewritten_after_invoke_static cs hash1 (insns[i := b]) units = Some True
    \<and> rewritten_after_invoke_static cs hash1 insns units = Some False"
  using hash_one_byte [OF assms(4,5), of cs 0] assms(1-3)
  by (auto simp: rewritten_after_invoke_static_def insns_hash_foldl)

theorem single_byte_rewrite_detected_witness:
  "rewritten_after_invoke_static True 0x72a ([0x0e, 0][1 := 0xff]) 1 = Some True
   \<and> rewritten_after_invoke_static True 0x72a [0x0e, 0] 1 = Some False"
proof -
  have "insns_hash True [0x0e, 0] 1 = Some 0x72a" by code_simp
  then have "rewritten_after_invoke_static True 0x72a ([0x0e, 0][1 := 0xff]) 1 = Some True
    \<and> rewritten_after_invoke_static True 0x72a [0x0e, 0] 1 = Some False"
    by (intro single_byte_rewrite_detected) simp_all
  then show ?thesis by simp
qed

text \<open>
  Claim C26. A rewrite of a whole code unit can go unnoticed: the 16-bit units \<open>0x8300\<close> and \<open>0x0001\<close> hash alike
  where \<open>char\<close> is unsigned, \<open>0x7f00\<close> and \<open>0xfc01\<close> where it is signed, so a method rewritten from one to
  the other at the same offset, whatever surrounds it, raises no alarm and is not handed out.
\<close>

theorem code_unit_rewrite_missed:
  assumes "length pre + 2 + length post = 2 * unat units" and "unat units < 2 ^ 30"
    and "insns_hash cs (pre @ (if cs then [0x00, 0x7f] else [0x00, 0x83]) @ post) units = Some hash1"
  shows "rewritten_after_invoke_static cs hash1
     (pre @ (if cs then [0x01, 0xfc] else [0x01, 0x00]) @ post) units = Some False"
proof -
  have "char_value True 0xfc = - 4" "char_value True 0x7f = 0x7f" "char_value True 1 = 1" "char_value True 0 = 0"
    "char_value False 0x83 = 0x83" "char_value False 1 = 1" "char_value False 0 = 0"
    by code_simp+
  with assms show ?thesis
    by (cases cs) (auto simp: rewritten_after_invoke_static_def insns_hash_foldl algebra_simps)
qed

theorem code_unit_rewrite_missed_witness:
  "rewritten_after_invoke_static False 0x83 [0x01, 0x00] 1 = Some False"
proof -
  have "insns_hash False [0x00, 0x83] 1 = Some 0x83" by code_simp
  with code_unit_rewrite_missed [of "[]" "[]" 1 False "0x83"] show ?thesis by simp
qed

end
