(* ===== verification/Unpacker.thy ===== *)
theory Unpacker
  imports DexBuilder UnpackFilter
begin

text \<open>
  The unpacker: the functions of \<open>art/runtime/art_method.cc\<close> that dump or rebuild DEX files, the hook in
  \<open>ArtMethod::Invoke\<close> that calls them, and the globals of \<open>art/runtime/gerat/unpack/unpack_globals.cc\<close>.
  The state holds the globals, the current contents of the \<open>DexFile\<close> objects by their address, the
  pending-exception flag of the thread and the files written so far. The class linker and the builder
  functions that the sources only declare are parameters that act on this state: resolving or
  initialising a class runs code of the application, which may rewrite DEX memory and invoke methods.
  Undefined behaviour is \<open>None\<close>.
\<close>

section \<open>State\<close>

record gerat_state =
  dex_addrs :: "nat set"
  dex_num :: u32
  filter_inited :: bool
  unpack_mode_file_checked :: bool
  the_filter :: "KarlGeratUFilter option"
  started :: bool
  dex_memory :: "nat \<Rightarrow> DexFile option"
  exception_pending :: bool
  storage :: "(string \<times> buffer) list"

text \<open>What \<open>this\<close> of the hooked method gives: the \<open>DexFile\<close> it belongs to and its class.\<close>

record ArtMethod =
  dex_file_addr :: nat
  declaring_class :: string

text \<open>The operating system: the files and directories the process sees, whether a new file can be
  created, and what a file holds after \<open>write\<close>. The uninitialised members of a new filter.\<close>

record os =
  os_env :: env
  os_can_create :: "string \<Rightarrow> bool"
  os_write :: "string \<Rightarrow> buffer \<Rightarrow> buffer"
  os_heap_garbage :: "bool \<times> bool \<times> UnpackMode"

record runtime =
  ResolveMethod :: "u32 \<Rightarrow> InvokeType \<Rightarrow> gerat_state \<Rightarrow> gerat_state"
  FindClass :: "string \<Rightarrow> gerat_state \<Rightarrow> bool \<times> gerat_state"
  EnsureInitialized :: "string \<Rightarrow> gerat_state \<Rightarrow> gerat_state"
  build_ClassDataItem2 :: "nat \<Rightarrow> u16 \<Rightarrow> DexBuilder \<Rightarrow> gerat_state \<Rightarrow> DexBuilder \<times> gerat_state"

text \<open>The globals before the first \<open>Invoke\<close>.\<close>

definition initial_state :: "(nat \<Rightarrow> DexFile option) \<Rightarrow> (string \<times> buffer) list \<Rightarrow> gerat_state" where
  "initial_state mem sto =
     \<lparr>dex_addrs = {}, dex_num = 0, filter_inited = False, unpack_mode_file_checked = False,
      the_filter = None, started = False, dex_memory = mem, exception_pending = False, storage = sto\<rparr>"

definition init :: "os \<Rightarrow> gerat_state \<Rightarrow> gerat_state" where
  "init sys st =
     (let (force0, rebuild0, mode0) = os_heap_garbage sys
      in st\<lparr>the_filter := Some (make_KarlGeratUFilter force0 rebuild0 mode0)\<rparr>)"

definition set_started_flag :: "gerat_state \<Rightarrow> gerat_state" where
  "set_started_flag st = st\<lparr>started := True\<rparr>"

definition ClearException :: "gerat_state \<Rightarrow> gerat_state" where
  "ClearException st = st\<lparr>exception_pending := False\<rparr>"

definition clear_if_pending :: "gerat_state \<Rightarrow> gerat_state" where
  "clear_if_pending st = (if exception_pending st then ClearException st else st)"

section \<open>Strings\<close>

definition c_str :: "string \<Rightarrow> cstr" where
  "c_str s = map of_char s @ [0]"

text \<open>\<open>std::string(const char*)\<close>: the characters before the terminator; a null pointer, or no terminator
  in the file, is undefined.\<close>

definition std_string :: "cstr option \<Rightarrow> string option" where
  "std_string p =
     (case p of
        None \<Rightarrow> None
      | Some s \<Rightarrow> if 0 \<in> set s then Some (map (\<lambda>b. char_of (unat b)) (takeWhile (\<lambda>b. b \<noteq> 0) s)) else None)"

text \<open>\<open>std::to_string\<close> for \<open>size_t\<close> and \<open>int\<close>.\<close>

function to_string_nat :: "nat \<Rightarrow> string" where
  "to_string_nat n =
     (if n < 10 then [char_of (48 + n)] else to_string_nat (n div 10) @ [char_of (48 + n mod 10)])"
  by pat_completeness auto
termination by (relation "measure id") auto

declare to_string_nat.simps [simp del]

definition to_string_int :: "u32 \<Rightarrow> string" where
  "to_string_int n =
     (if sint n < 0 then CHR ''-'' # to_string_nat (nat (- sint n)) else to_string_nat (nat (sint n)))"

section \<open>Writing a file\<close>

definition dump_path :: "os \<Rightarrow> u32 \<Rightarrow> nat \<Rightarrow> string" where
  "dump_path sys num dex_size_real =
     get_apk_dir (os_env sys) @ ''/dumped_classes'' @ to_string_int num @ ''_''
     @ to_string_nat dex_size_real @ ''.dex''"

definition write_file :: "os \<Rightarrow> buffer \<Rightarrow> nat \<Rightarrow> gerat_state \<Rightarrow> gerat_state" where
  "write_file sys dex_file_m dex_size_real st =
     (let dexfilepath = dump_path sys (dex_num st) dex_size_real;
          st = st\<lparr>dex_num := dex_num st + 1\<rparr>
      in if map_of (storage st) dexfilepath \<noteq> None then st
         else if os_can_create sys dexfilepath
         then st\<lparr>storage := storage st @ [(dexfilepath, os_write sys dexfilepath (take dex_size_real dex_file_m))]\<rparr>
         else st)"

section \<open>Dumping\<close>

text \<open>\<open>dump_dex\<close> up to the test of \<open>dex_addrs\<close>, and the rest of it.\<close>

definition dump_wanted :: "gerat_state \<Rightarrow> ArtMethod \<Rightarrow> bool option" where
  "dump_wanted st this =
     (case the_filter st of
        None \<Rightarrow> Some False
      | Some f \<Rightarrow> do {
          dex_file \<leftarrow> dex_memory st (dex_file_addr this);
          found \<leftarrow> FindStringId dex_file (c_str (get_component_name f));
          Some (found \<noteq> None \<and> dex_file_addr this \<notin> dex_addrs st)
        })"

definition dump_commit :: "os \<Rightarrow> gerat_state \<Rightarrow> ArtMethod \<Rightarrow> gerat_state option" where
  "dump_commit sys st this = do {
     let st = st\<lparr>dex_addrs := insert (dex_file_addr this) (dex_addrs st)\<rparr>;
     dex_file \<leftarrow> dex_memory st (dex_file_addr this);
     begin_m \<leftarrow> check_and_repair_DEX_magic (begin_of dex_file);
     Some (write_file sys begin_m (Size dex_file) st)
   }"

definition dump_dex :: "os \<Rightarrow> gerat_state \<Rightarrow> ArtMethod \<Rightarrow> gerat_state option" where
  "dump_dex sys st this = do {
     wanted \<leftarrow> dump_wanted st this;
     (if wanted then dump_commit sys st this else Some st)
   }"

definition get_codeitem_off_by_iter :: "ClassDataItemIterator \<Rightarrow> int" where
  "get_codeitem_off_by_iter it = (case GetMethodCodeItem it of None \<Rightarrow> - 1 | Some p \<Rightarrow> int p)"

text \<open>The loops that step over fields; the memory is read anew at each step.\<close>

definition has_next_in :: "bool \<Rightarrow> ClassDataItemIterator \<Rightarrow> bool" where
  "has_next_in first it = (if first then HasNextStaticField it else HasNextInstanceField it)"

definition has_next_method :: "bool \<Rightarrow> ClassDataItemIterator \<Rightarrow> bool" where
  "has_next_method direct it = (if direct then HasNextDirectMethod it else HasNextVirtualMethod it)"

lemma has_next_pos: "has_next_in first it \<Longrightarrow> pos it < 2 ^ 32" "has_next_method direct it \<Longrightarrow> pos it < 2 ^ 32"
  unfolding has_next_in_def has_next_method_def HasNextStaticField_def HasNextInstanceField_def
    HasNextDirectMethod_def HasNextVirtualMethod_def
  using unat_u32_less [of "EndOfStaticFieldsPos it"] unat_u32_less [of "EndOfInstanceFieldsPos it"]
    unat_u32_less [of "EndOfDirectMethodsPos it"] unat_u32_less [of "EndOfVirtualMethodsPos it"]
  by (auto split: if_splits)

function skip_fields :: "bool \<Rightarrow> buffer \<Rightarrow> ClassDataItemIterator \<Rightarrow> ClassDataItemIterator option" where
  "skip_fields first buf it =
     (if has_next_in first it
      then (case cdi_Next buf it of None \<Rightarrow> None | Some it' \<Rightarrow> skip_fields first buf it')
      else Some it)"
  by pat_completeness auto
termination
  by (relation "measure (\<lambda>(_, _, it). 2 ^ 32 - pos it)")
    (auto dest!: cdi_Next_keeps has_next_pos)

text \<open>The body of the method loops of \<open>dump_dex_after_init\<close>: the direct loop clears a pending exception
  before it resolves the method, both clear it afterwards; then the iterator moves on, reading the
  memory as it is by then.\<close>

definition visit_method ::
  "runtime \<Rightarrow> bool \<Rightarrow> nat \<Rightarrow> u16 \<Rightarrow> gerat_state \<Rightarrow> ClassDataItemIterator \<Rightarrow> (gerat_state \<times> ClassDataItemIterator) option"
where
  "visit_method rt direct addr def_idx st it = do {
     dex_file \<leftarrow> dex_memory st addr;
     class_def \<leftarrow> GetClassDef dex_file def_idx;
     let invoke_type = GetMethodInvokeType class_def it;
     let method_idx = GetMemberIndex it;
     class_name \<leftarrow> GetClassDescriptor dex_file class_def;
     class_name' \<leftarrow> std_string class_name;
     let st = (if get_codeitem_off_by_iter it > 0
               then let st = (if direct then clear_if_pending st else st);
                        st = ResolveMethod rt method_idx invoke_type st
                    in clear_if_pending st
               else st);
     dex_file \<leftarrow> dex_memory st addr;
     it \<leftarrow> cdi_Next (begin_of dex_file) it;
     Some (st, it)
   }"

lemma visit_method_pos: "visit_method rt direct addr idx st it = Some (st', it') \<Longrightarrow> pos it' = Suc (pos it)"
  by (auto simp: visit_method_def Let_def bind_eq_Some_conv dest: cdi_Next_keeps)

function visit_methods ::
  "runtime \<Rightarrow> bool \<Rightarrow> nat \<Rightarrow> u16 \<Rightarrow> gerat_state \<Rightarrow> ClassDataItemIterator \<Rightarrow> (gerat_state \<times> ClassDataItemIterator) option"
where
  "visit_methods rt direct addr def_idx st it =
     (if has_next_method direct it
      then (case visit_method rt direct addr def_idx st it of
              None \<Rightarrow> None
            | Some (st', it') \<Rightarrow> visit_methods rt direct addr def_idx st' it')
      else Some (st, it))"
  by pat_completeness auto
termination
  by (relation "measure (\<lambda>(_, _, _, _, _, it). 2 ^ 32 - pos it)")
    (auto dest!: visit_method_pos has_next_pos)

declare skip_fields.simps [simp del] visit_methods.simps [simp del]

definition visit_class :: "runtime \<Rightarrow> nat \<Rightarrow> u16 \<Rightarrow> gerat_state \<Rightarrow> gerat_state option" where
  "visit_class rt addr def_idx st = do {
     dex_file \<leftarrow> dex_memory st addr;
     class_def \<leftarrow> GetClassDef dex_file def_idx;
     (case GetClassData class_def of
        None \<Rightarrow> Some st
      | Some class_data_item \<Rightarrow> do {
          it \<leftarrow> make_ClassDataItemIterator (begin_of dex_file) class_data_item;
          it \<leftarrow> skip_fields True (begin_of dex_file) it;
          it \<leftarrow> skip_fields False (begin_of dex_file) it;
          (st, it) \<leftarrow> visit_methods rt True addr def_idx st it;
          (st, it) \<leftarrow> visit_methods rt False addr def_idx st it;
          Some st
        })
   }"

fun visit_classes :: "runtime \<Rightarrow> nat \<Rightarrow> nat \<Rightarrow> nat \<Rightarrow> gerat_state \<Rightarrow> gerat_state option" where
  "visit_classes rt addr i 0 st = Some st"
| "visit_classes rt addr i (Suc n) st = do {
     st \<leftarrow> visit_class rt addr (word_of_nat i) st;
     visit_classes rt addr (Suc i) n st
   }"

definition dump_dex_after_init :: "os \<Rightarrow> runtime \<Rightarrow> gerat_state \<Rightarrow> ArtMethod \<Rightarrow> gerat_state option" where
  "dump_dex_after_init sys rt st this = do {
     wanted \<leftarrow> dump_wanted st this;
     (if wanted
      then do {
        let addr = dex_file_addr this;
        let st = st\<lparr>dex_addrs := insert addr (dex_addrs st)\<rparr>;
        dex_file \<leftarrow> dex_memory st addr;
        let size' = Size dex_file;
        let begin_m = begin_of dex_file;
        class_def_num \<leftarrow> NumClassDefs dex_file;
        st \<leftarrow> visit_classes rt addr 0 class_def_num st;
        dex_file \<leftarrow> dex_memory st addr;
        header_and_index_len \<leftarrow> header_field dex_file data_off_off;
        begin_m \<leftarrow>
          (if 0 < header_and_index_len \<and> unat header_and_index_len < size'
           then if unat header_and_index_len \<le> Size dex_file
                then memcpy begin_m 0 (take (unat header_and_index_len) (begin_of dex_file))
                else None
           else Some begin_m);
        begin_m \<leftarrow> check_and_repair_DEX_magic begin_m;
        Some (write_file sys begin_m size' st)
      }
      else Some st)
   }"

section \<open>Rebuilding\<close>

definition build_class ::
  "runtime \<Rightarrow> nat \<Rightarrow> u16 \<Rightarrow> DexBuilder \<Rightarrow> gerat_state \<Rightarrow> (DexBuilder \<times> gerat_state) option" where
  "build_class rt addr def_idx b st = do {
     dex_file \<leftarrow> dex_memory st addr;
     class_def \<leftarrow> GetClassDef dex_file def_idx;
     let st = clear_if_pending st;
     descriptor \<leftarrow> GetClassDescriptor dex_file class_def;
     class_name \<leftarrow> std_string descriptor;
     f \<leftarrow> the_filter st;
     Some (if should_initialize f class_name
           then let (found, st) = FindClass rt class_name st
                in if found
                   then let st = clear_if_pending st;
                            st = EnsureInitialized rt class_name st
                        in (build_ClassDataItem b, st)
                   else build_ClassDataItem2 rt addr def_idx b st
           else (b, st))
   }"

fun build_classes ::
  "runtime \<Rightarrow> nat \<Rightarrow> nat \<Rightarrow> nat \<Rightarrow> DexBuilder \<Rightarrow> gerat_state \<Rightarrow> (DexBuilder \<times> gerat_state) option" where
  "build_classes rt addr i 0 b st = Some (b, st)"
| "build_classes rt addr i (Suc n) b st = do {
     (b, st) \<leftarrow> build_class rt addr (word_of_nat i) b st;
     build_classes rt addr (Suc i) n b st
   }"

definition build_dex :: "os \<Rightarrow> runtime \<Rightarrow> gerat_state \<Rightarrow> ArtMethod \<Rightarrow> gerat_state option" where
  "build_dex sys rt st this =
     (case the_filter st of
        None \<Rightarrow> Some st
      | Some f \<Rightarrow> do {
          let component = get_component_name f;
          let addr = dex_file_addr this;
          dex_file \<leftarrow> dex_memory st addr;
          found \<leftarrow> FindStringId dex_file (c_str component);
          (if found = None then Some st
           else if \<not> str_contains (declaring_class this) component then Some st
           else if addr \<in> dex_addrs st then Some st
           else do {
             let st = st\<lparr>dex_addrs := insert addr (dex_addrs st)\<rparr>;
             let st = set_started_flag st;
             let b = init_segments dex_file new_DexBuilder;
             let dex_file_m = replicate (2 * Size dex_file) 0;
             class_def_num \<leftarrow> NumClassDefs dex_file;
             (b, st) \<leftarrow> build_classes rt addr 0 class_def_num b st;
             dex_file \<leftarrow> dex_memory st addr;
             (b, dex_file_m, dex_size_real) \<leftarrow> assemble dex_file b dex_file_m;
             Some (write_file sys dex_file_m dex_size_real st)
           })
        })"

section \<open>The hook\<close>

definition Invoke :: "os \<Rightarrow> runtime \<Rightarrow> bool \<Rightarrow> gerat_state \<Rightarrow> ArtMethod \<Rightarrow> gerat_state option" where
  "Invoke sys rt stack_overflow st this =
     (if stack_overflow then Some (st\<lparr>exception_pending := True\<rparr>)
      else
        let st = (if filter_inited st then st else init sys st\<lparr>filter_inited := True\<rparr>)
        in if started st then Some st
           else case the_filter st of
             None \<Rightarrow> Some st
           | Some f \<Rightarrow>
               (let (flag, f) = get_flag (os_env sys) f;
                    st = st\<lparr>the_filter := Some f\<rparr>
                in if \<not> flag then Some st
                   else if get_force_init_flag f
                   then let (f, st) =
                          (if unpack_mode_file_checked st then (f, st)
                           else (read_list_files (os_env sys) f,
                                 st\<lparr>the_filter := Some (read_list_files (os_env sys) f),
                                    unpack_mode_file_checked := True\<rparr>))
                        in if get_rebuild_flag f then build_dex sys rt st this
                           else dump_dex_after_init sys rt st this
                   else dump_dex sys st this))"

section \<open>Properties the runtime keeps\<close>

definition runtime_keeps :: "(gerat_state \<Rightarrow> bool) \<Rightarrow> runtime \<Rightarrow> bool" where
  "runtime_keeps P rt \<longleftrightarrow>
     (\<forall>idx t st. P st \<longrightarrow> P (ResolveMethod rt idx t st))
   \<and> (\<forall>name st. P st \<longrightarrow> P (snd (FindClass rt name st)))
   \<and> (\<forall>name st. P st \<longrightarrow> P (EnsureInitialized rt name st))
   \<and> (\<forall>addr i b st. P st \<longrightarrow> P (snd (build_ClassDataItem2 rt addr i b st)))"

text \<open>A property that does not depend on the exception flag and that the calls into the runtime keep is
  kept by the two traversals of the classes.\<close>

locale state_invariant =
  fixes P :: "gerat_state \<Rightarrow> bool"
  assumes no_exception: "P (st\<lparr>exception_pending := x\<rparr>) = P st"
begin

lemma clear_kept: "P (clear_if_pending st) = P st"
  by (simp add: clear_if_pending_def ClearException_def no_exception)

lemma visit_method_kept:
  "runtime_keeps P rt \<Longrightarrow> visit_method rt direct addr idx st it = Some (st', it') \<Longrightarrow> P st \<Longrightarrow> P st'"
  by (auto simp: visit_method_def Let_def bind_eq_Some_conv runtime_keeps_def clear_kept split: if_splits)

lemma visit_methods_kept:
  "runtime_keeps P rt \<Longrightarrow> visit_methods rt direct addr idx st it = Some (st', it') \<Longrightarrow> P st \<Longrightarrow> P st'"
proof (induction rt direct addr idx st it rule: visit_methods.induct)
  case (1 rt direct addr idx st it)
  show ?case
  proof (cases "has_next_method direct it")
    case True
    with "1.prems"(2) obtain s i where step: "visit_method rt direct addr idx st it = Some (s, i)"
      and rest: "visit_methods rt direct addr idx s i = Some (st', it')"
      by (subst (asm) visit_methods.simps) (auto split: option.splits)
    from visit_method_kept [OF "1.prems"(1) step "1.prems"(3)] show ?thesis
      using "1.IH" [OF True step refl "1.prems"(1) rest] by simp
  next
    case False
    with "1.prems"(2,3) show ?thesis by (simp add: visit_methods.simps)
  qed
qed

lemma visit_class_kept:
  "runtime_keeps P rt \<Longrightarrow> visit_class rt addr idx st = Some st' \<Longrightarrow> P st \<Longrightarrow> P st'"
  by (auto simp: visit_class_def bind_eq_Some_conv split: option.splits)
    (blast intro: visit_methods_kept)

lemma visit_classes_kept:
  "runtime_keeps P rt \<Longrightarrow> visit_classes rt addr i n st = Some st' \<Longrightarrow> P st \<Longrightarrow> P st'"
  by (induction n arbitrary: i st) (auto simp: bind_eq_Some_conv dest: visit_class_kept)

lemma build_class_kept:
  "runtime_keeps P rt \<Longrightarrow> build_class rt addr idx b st = Some (b', st') \<Longrightarrow> P st \<Longrightarrow> P st'"
proof -
  assume rt: "runtime_keeps P rt" and step: "build_class rt addr idx b st = Some (b', st')" and "P st"
  have P1: "P (snd (FindClass rt name s))" if "P s" for name s using rt that by (simp add: runtime_keeps_def)
  have P2: "P (EnsureInitialized rt name s)" if "P s" for name s using rt that by (simp add: runtime_keeps_def)
  have P3: "P (snd (build_ClassDataItem2 rt addr i b s))" if "P s" for addr i b s
    using rt that by (simp add: runtime_keeps_def)
  from \<open>P st\<close> have "P (clear_if_pending st)" by (simp add: clear_kept)
  with step show "P st'"
    by (auto simp: build_class_def Let_def bind_eq_Some_conv clear_kept split: if_splits prod.splits
        dest!: sym [of "(_, _)"] intro: P2)
      (metis P1 P2 P3 clear_kept snd_conv)+
qed

lemma build_classes_kept:
  "runtime_keeps P rt \<Longrightarrow> build_classes rt addr i n b st = Some (b', st') \<Longrightarrow> P st \<Longrightarrow> P st'"
  by (induction n arbitrary: i b st) (auto simp: bind_eq_Some_conv dest: build_class_kept)

end

section \<open>Counting the files\<close>














definition quiet_runtime :: runtime where
  "quiet_runtime = \<lparr>ResolveMethod = (\<lambda>_ _ st. st), FindClass = (\<lambda>_ st. (True, st)), EnsureInitialized = (\<lambda>_ st. st),
     build_ClassDataItem2 = (\<lambda>_ _ b st. (b, st))\<rparr>"

lemma quiet_runtime_keeps: "runtime_keeps P quiet_runtime"
  by (simp add: runtime_keeps_def quiet_runtime_def)

section \<open>Level 1: dumping\<close>

lemma check_and_repair_memcpy: "8 \<le> length m \<Longrightarrow> check_and_repair_DEX_magic m = memcpy m 0 dex_magic"
proof -
  assume "8 \<le> length m"
  moreover have "magic_differs m 0 dex_magic = Some (\<not> bytes_at m 0 dex_magic)"
    using \<open>8 \<le> length m\<close> by (intro magic_differs_bytes_at) simp
  ultimately show ?thesis
    using repair_Magic_memcpy [of m] memcpy_bytes_at [of m 0 dex_magic]
    by (cases "bytes_at m 0 dex_magic")
      (simp_all add: check_and_repair_DEX_magic_def repair_Magic_def del: bytes_at_Cons magic_differs.simps)
qed

lemma header_8: "make_DexFile base = Some d \<Longrightarrow> 8 \<le> length base"
  by (auto simp: make_DexFile_def load32_def bind_eq_Some_conv split: if_splits)

lemma OpenMemory_repaired:
  assumes "make_DexFile base = Some d" and "memcpy base 0 dex_magic = Some m"
  shows "OpenMemory m = Some (Some (d\<lparr>begin_of := m\<rparr>))"
proof -
  have "load32 m p = load32 base p" if "8 \<le> p" for p
    using load32_memcpy_other [OF assms(2)] that by simp
  then have "make_DexFile m = Some (d\<lparr>begin_of := m\<rparr>)"
    using assms(1) by (auto simp: make_DexFile_def bind_eq_Some_conv)
  moreover have "IsMagicValid m" "IsVersionValid m"
    using bytes_at_memcpy [OF assms(2)]
    by (simp_all add: IsMagicValid_def IsVersionValid_def kDexMagic_def kDexMagicVersion_def eval_nat_numeral)
  ultimately show ?thesis by (simp add: OpenMemory_def CheckMagicAndVersion_def)
qed

text \<open>
  Claim C4. A level 1 dump is a faithful, loadable copy: the first time a method of a DEX file that has
  the configured component among its strings is invoked, a file is stored that the loader accepts,
  with every table where the loaded file has it and with every byte after the magic as it is in
  memory; afterwards no method of that DEX file is dumped again, whatever its memory then holds.
\<close>

theorem dump_dex_faithful:
  assumes "the_filter st = Some f" and "dex_memory st (dex_file_addr this) = Some d" and "make_DexFile (begin_of d) = Some d"
    and "FindStringId d (c_str (get_component_name f)) = Some (Some i)" and "dex_file_addr this \<notin> dex_addrs st"
    and "path = dump_path sys (dex_num st) (Size d)"
    and "map_of (storage st) path = None" and "os_can_create sys path" and "\<And>bs. os_write sys path bs = bs"
  shows "\<exists>st' file. dump_dex sys st this = Some st' \<and> storage st' = storage st @ [(path, file)]
    \<and> OpenMemory file = Some (Some (d\<lparr>begin_of := file\<rparr>)) \<and> drop 8 file = drop 8 (begin_of d)
    \<and> dex_addrs st' = insert (dex_file_addr this) (dex_addrs st)
    \<and> dump_wanted (st'\<lparr>dex_memory := (dex_memory st')(dex_file_addr this \<mapsto> d')\<rparr>) this \<noteq> Some True"
proof -
  have "8 \<le> length (begin_of d)" using header_8 [OF assms(3)] .
  then obtain m where m: "memcpy (begin_of d) 0 dex_magic = Some m" by (auto simp: memcpy_def)
  with \<open>8 \<le> _\<close> have "check_and_repair_DEX_magic (begin_of d) = Some m" by (simp add: check_and_repair_memcpy)
  moreover have "length m = Size d" "drop 8 m = drop 8 (begin_of d)"
    using m by (auto simp: memcpy_def Size_def eval_nat_numeral split: if_splits)
  moreover note OpenMemory_repaired [OF assms(3) m]
  moreover have "dump_wanted st this = Some True"
    using assms(1,2,4,5) by (simp add: dump_wanted_def)
  ultimately show ?thesis
    using assms(1,2,6-9)
    by (auto simp: dump_dex_def dump_commit_def write_file_def Let_def dump_wanted_def bind_eq_Some_conv)
qed

definition sample_os :: os where
  "sample_os = \<lparr>os_env = \<lparr>files = [''/unpack.txt'' \<mapsto> ''a''], exists = (\<lambda>_. False), proc_cmdline = None\<rparr>,
     os_can_create = (\<lambda>_. True), os_write = (\<lambda>_ bs. bs), os_heap_garbage = (False, False, black)\<rparr>"

definition sample_state :: gerat_state where
  "sample_state = (initial_state [1 \<mapsto> sample_dex_file] [])
     \<lparr>the_filter := Some (make_KarlGeratUFilter False False black\<lparr>component_name := ''a'', flag := True\<rparr>),
      filter_inited := True\<rparr>"

definition sample_method :: ArtMethod where
  "sample_method = \<lparr>dex_file_addr = 1, declaring_class = ''La;''\<rparr>"

lemma sample_unpack:
  "the_filter sample_state = Some (make_KarlGeratUFilter False False black\<lparr>component_name := ''a'', flag := True\<rparr>)"
  "dex_memory sample_state (dex_file_addr sample_method) = Some sample_dex_file"
  "make_DexFile (begin_of sample_dex_file) = Some sample_dex_file"
  "FindStringId sample_dex_file (c_str (get_component_name
     (make_KarlGeratUFilter False False black\<lparr>component_name := ''a'', flag := True\<rparr>))) = Some (Some 0)"
  "dex_file_addr sample_method \<notin> dex_addrs sample_state"
  by (simp add: sample_state_def, simp add: sample_state_def sample_method_def initial_state_def,
      code_simp, code_simp, simp add: sample_state_def initial_state_def)

lemma sample_facts:
  "storage sample_state = []" "dex_num sample_state = 0" "dex_addrs sample_state = {}"
  "os_can_create sample_os p" "os_write sample_os p bs = bs" "dex_file_addr sample_method = 1"
  by (simp_all add: sample_state_def initial_state_def sample_os_def sample_method_def)

theorem dump_dex_faithful_witness:
  "\<exists>st' file. dump_dex sample_os sample_state sample_method = Some st'
     \<and> storage st' = [(dump_path sample_os 0 (Size sample_dex_file), file)]
     \<and> OpenMemory file = Some (Some (sample_dex_file\<lparr>begin_of := file\<rparr>))"
  using dump_dex_faithful [OF sample_unpack refl, where sys = sample_os and d' = sample_dex_file]
  by (auto simp: sample_facts)



section \<open>Two threads\<close>

text \<open>\<open>Invoke\<close> runs on every thread, and nothing orders the test of \<open>dex_addrs\<close> in one thread with the
  insertion in another.\<close>

datatype dump_pc = Testing | Dumping | Done

inductive dump_step ::
  "os \<Rightarrow> ArtMethod list \<Rightarrow> gerat_state \<times> dump_pc list \<Rightarrow> gerat_state \<times> dump_pc list \<Rightarrow> bool" for sys ms where
  test: "i < length pcs \<Longrightarrow> pcs ! i = Testing \<Longrightarrow> dump_wanted st (ms ! i) = Some wanted \<Longrightarrow>
    dump_step sys ms (st, pcs) (st, pcs[i := if wanted then Dumping else Done])"
| commit: "i < length pcs \<Longrightarrow> pcs ! i = Dumping \<Longrightarrow> dump_commit sys st (ms ! i) = Some st' \<Longrightarrow>
    dump_step sys ms (st, pcs) (st', pcs[i := Done])"

text \<open>One thread alone is \<open>dump_dex\<close>.\<close>

lemma dump_step_alone:
  "dump_dex sys st this = Some st' \<Longrightarrow> (dump_step sys [this])\<^sup>*\<^sup>* (st, [Testing]) (st', [Done])"
proof -
  assume "dump_dex sys st this = Some st'"
  then obtain w where w: "dump_wanted st this = Some w"
    and rest: "if w then dump_commit sys st this = Some st' else st' = st"
    by (auto simp: dump_dex_def bind_eq_Some_conv split: if_splits)
  from dump_step.test [of 0 "[Testing]" st "[this]" w sys] w
  have 1: "dump_step sys [this] (st, [Testing]) (st, [if w then Dumping else Done])" by simp
  show ?thesis
  proof (cases w)
    case True
    with rest dump_step.commit [of 0 "[Dumping]" sys st "[this]" st']
    have "dump_step sys [this] (st, [Dumping]) (st', [Done])" by simp
    moreover from 1 True have "dump_step sys [this] (st, [Testing]) (st, [Dumping])" by simp
    ultimately show ?thesis by (meson converse_rtranclp_into_rtranclp r_into_rtranclp)
  next
    case False
    with 1 rest show ?thesis by auto
  qed
qed

lemma dump_commit_effect:
  assumes "dex_memory st (dex_file_addr this) = Some d" and "8 \<le> Size d"
  shows "\<exists>st'. dump_commit sys st this = Some st' \<and> dex_num st' = dex_num st + 1 \<and> dex_memory st' = dex_memory st
    \<and> dex_addrs st' = insert (dex_file_addr this) (dex_addrs st)"
proof -
  obtain m where "check_and_repair_DEX_magic (begin_of d) = Some m"
    using assms(2) check_and_repair_memcpy [of "begin_of d"] by (auto simp: Size_def memcpy_def)
  with assms(1) show ?thesis by (auto simp: dump_commit_def write_file_def Let_def)
qed

text \<open>
  Claim C23. Without a lock the at-most-once guarantee is lost: two threads that invoke methods of the
  same DEX file can both pass the test before either has marked the file, and then dump it twice
  under two numbers.
\<close>

theorem dump_race:
  assumes "dump_wanted st this = Some True" and "dex_memory st (dex_file_addr this) = Some d" and "8 \<le> Size d"
  shows "\<exists>st'. (dump_step sys [this, this])\<^sup>*\<^sup>* (st, [Testing, Testing]) (st', [Done, Done])
    \<and> dex_num st' = dex_num st + 2 \<and> dex_addrs st' = insert (dex_file_addr this) (dex_addrs st)"
proof -
  let ?step = "dump_step sys [this, this]"
  obtain st1 where st1: "dump_commit sys st this = Some st1" "dex_num st1 = dex_num st + 1"
    "dex_memory st1 = dex_memory st" "dex_addrs st1 = insert (dex_file_addr this) (dex_addrs st)"
    using dump_commit_effect [OF assms(2,3)] by blast
  obtain st2 where st2: "dump_commit sys st1 this = Some st2" "dex_num st2 = dex_num st1 + 1"
    "dex_addrs st2 = insert (dex_file_addr this) (dex_addrs st1)"
    using dump_commit_effect [of st1 this d sys] assms(2,3) st1(3) by auto
  have "?step (st, [Testing, Testing]) (st, [Dumping, Testing])"
    using dump_step.test [of 0 "[Testing, Testing]" st "[this, this]" True sys] assms(1) by simp
  moreover have "?step (st, [Dumping, Testing]) (st, [Dumping, Dumping])"
    using dump_step.test [of 1 "[Dumping, Testing]" st "[this, this]" True sys] assms(1) by simp
  moreover have "?step (st, [Dumping, Dumping]) (st1, [Done, Dumping])"
    using dump_step.commit [of 0 "[Dumping, Dumping]" sys st "[this, this]" st1] st1(1) by simp
  moreover have "?step (st1, [Done, Dumping]) (st2, [Done, Done])"
    using dump_step.commit [of 1 "[Done, Dumping]" sys st1 "[this, this]" st2] st2(1) by simp
  ultimately have "?step\<^sup>*\<^sup>* (st, [Testing, Testing]) (st2, [Done, Done])"
    by (meson converse_rtranclp_into_rtranclp rtranclp.rtrancl_refl)
  then show ?thesis using st1 st2 by auto
qed

theorem dump_race_witness:
  "\<exists>st'. (dump_step sample_os [sample_method, sample_method])\<^sup>*\<^sup>* (sample_state, [Testing, Testing]) (st', [Done, Done])
     \<and> dex_num st' = 2 \<and> dex_addrs st' = {1}"
proof -
  have "dump_wanted sample_state sample_method = Some True"
    using sample_unpack by (simp add: dump_wanted_def)
  moreover have "8 \<le> Size sample_dex_file" by code_simp
  ultimately show ?thesis
    using dump_race [OF _ sample_unpack(2), of sample_os]
    by (auto simp: sample_facts)
qed

section \<open>Level 2: dumping after forced loading\<close>

text \<open>
  Claim C20. What a level 2 dump contains: the magic, then the header and index as they are after every
  method was resolved, and behind them (from \<open>data_off\<close> on) the bytes as they were before the first
  method was resolved. Code that the application restores while its classes are loaded is therefore
  not in the file, whatever the runtime does.
\<close>

theorem level2_data_is_stale:
  assumes "dump_wanted st this = Some True" and "dex_memory st (dex_file_addr this) = Some d"
    and "dump_dex_after_init sys rt st this = Some st'"
  shows "\<exists>n st2 d2 image.
      visit_classes rt (dex_file_addr this) 0 n (st\<lparr>dex_addrs := insert (dex_file_addr this) (dex_addrs st)\<rparr>) = Some st2
    \<and> dex_memory st2 (dex_file_addr this) = Some d2 \<and> st' = write_file sys image (Size d) st2
    \<and> length image = Size d \<and> bytes_at image 0 (kDexMagic @ kDexMagicVersion)
    \<and> (\<forall>i. unat (hdr d2 data_off_off) \<le> i \<longrightarrow> 8 \<le> i \<longrightarrow> i < Size d \<longrightarrow> image ! i = begin_of d ! i)
    \<and> (unat (hdr d2 data_off_off) < Size d \<longrightarrow>
         (\<forall>i. 8 \<le> i \<longrightarrow> i < unat (hdr d2 data_off_off) \<longrightarrow> image ! i = begin_of d2 ! i))"
proof -
  let ?a = "dex_file_addr this"
  let ?len = "\<lambda>d2. unat (hdr d2 data_off_off)"
  obtain n st2 d2 v m image where
    visit: "visit_classes rt ?a 0 n (st\<lparr>dex_addrs := insert ?a (dex_addrs st)\<rparr>) = Some st2" and
    d2: "dex_memory st2 ?a = Some d2" and v: "header_field d2 data_off_off = Some v" and
    m0: "(if 0 < v \<and> unat v < Size d
         then if unat v \<le> Size d2 then memcpy (begin_of d) 0 (take (unat v) (begin_of d2)) else None
         else Some (begin_of d)) = Some m" and
    image: "check_and_repair_DEX_magic m = Some image" "st' = write_file sys image (Size d) st2"
    using assms(3) by (simp add: dump_dex_after_init_def Let_def bind_eq_Some_conv assms(1,2)) blast
  have "v = hdr d2 data_off_off" using v by (simp add: hdr_def)
  with m0 have m: "(if 0 < hdr d2 data_off_off \<and> ?len d2 < Size d
         then if ?len d2 \<le> Size d2 then memcpy (begin_of d) 0 (take (?len d2) (begin_of d2)) else None
         else Some (begin_of d)) = Some m" by (simp only:)
  have len_m: "length m = Size d"
    using m by (auto simp: Size_def dest: memcpy_length split: if_splits)
  have "8 \<le> length m"
    using image(1) by (auto simp: check_and_repair_DEX_magic_def bind_eq_Some_conv load8_def store8_def split: if_splits)
  with image(1) have copy: "memcpy m 0 dex_magic = Some image" by (simp add: check_and_repair_memcpy)
  have tail: "image ! i = m ! i" if "8 \<le> i" "i < Size d" for i
    using memcpy_nth [OF copy, of i] that len_m by simp
  have m_nth: "m ! i = (if i < ?len d2 \<and> ?len d2 < Size d then begin_of d2 ! i else begin_of d ! i)"
    if "8 \<le> i" "i < Size d" for i
  proof (cases "0 < hdr d2 data_off_off \<and> ?len d2 < Size d")
    case True
    with m have "memcpy (begin_of d) 0 (take (?len d2) (begin_of d2)) = Some m" "?len d2 \<le> Size d2"
      by (auto split: if_splits)
    from memcpy_nth [OF this(1), of i] this(2) that True show ?thesis by (auto simp: Size_def)
  next
    case False
    moreover from False have "\<not> (i < ?len d2 \<and> ?len d2 < Size d)"
      by (auto simp: word_gt_0)
    moreover from False m have "m = begin_of d" by (simp only: if_False option.inject)
    ultimately show ?thesis by (simp only: if_False)
  qed
  have "bytes_at image 0 (kDexMagic @ kDexMagicVersion)"
    using bytes_at_memcpy [OF copy] by (simp add: kDexMagic_def kDexMagicVersion_def)
  moreover have "length image = Size d" using memcpy_length [OF copy] len_m by simp
  ultimately show ?thesis
    using visit d2 image(2) tail m_nth
    by (intro exI [of _ n] exI [of _ st2] exI [of _ d2] exI [of _ image] conjI) auto
qed

theorem level2_data_is_stale_witness:
  "\<exists>st' st2 image. dump_dex_after_init sample_os quiet_runtime sample_state sample_method = Some st'
     \<and> st' = write_file sample_os image (Size sample_dex_file) st2
     \<and> bytes_at image 0 (kDexMagic @ kDexMagicVersion)"
proof -
  have w: "dump_wanted sample_state sample_method = Some True"
    using sample_unpack by (simp add: dump_wanted_def)
  have "NumClassDefs sample_dex_file = Some 0" "header_field sample_dex_file data_off_off = Some 0xa8"
    "Size sample_dex_file = 182"
    by code_simp+
  moreover obtain m where "check_and_repair_DEX_magic sample_dex = Some m"
    using check_and_repair_memcpy [of sample_dex] by (auto simp: sample_dex_def memcpy_def)
  moreover have "memcpy (begin_of sample_dex_file) 0 (take 168 (begin_of sample_dex_file)) = Some sample_dex"
    by (simp add: memcpy_def sample_dex_file_def) (simp add: sample_dex_def)
  ultimately have "\<exists>st'. dump_dex_after_init sample_os quiet_runtime sample_state sample_method = Some st'"
    using w sample_unpack(2) by (simp add: dump_dex_after_init_def)
  with level2_data_is_stale [OF w sample_unpack(2)] show ?thesis by metis
qed

section \<open>Level 3: no recursion\<close>

definition runtime_agree :: "(gerat_state \<Rightarrow> bool) \<Rightarrow> runtime \<Rightarrow> runtime \<Rightarrow> bool" where
  "runtime_agree P rt rt' \<longleftrightarrow>
     (\<forall>name st. P st \<longrightarrow> FindClass rt name st = FindClass rt' name st)
   \<and> (\<forall>name st. P st \<longrightarrow> EnsureInitialized rt name st = EnsureInitialized rt' name st)
   \<and> (\<forall>addr i b st. P st \<longrightarrow> build_ClassDataItem2 rt addr i b st = build_ClassDataItem2 rt' addr i b st)"

interpretation starting: state_invariant started
  by unfold_locales simp

lemma build_class_agree:
  assumes "runtime_keeps started rt" and "runtime_agree started rt rt'" and "started st"
  shows "build_class rt addr idx b st = build_class rt' addr idx b st"
proof -
  have s: "started (clear_if_pending st)" using assms(3) by (simp add: starting.clear_kept)
  then have f: "FindClass rt name (clear_if_pending st) = FindClass rt' name (clear_if_pending st)" for name
    using assms(2) by (simp add: runtime_agree_def)
  have "started (snd (FindClass rt name (clear_if_pending st)))" for name
    using assms(1) s by (simp add: runtime_keeps_def)
  then show ?thesis
    using assms(2) by (auto simp: build_class_def Let_def f [symmetric] case_prod_beta runtime_agree_def
        starting.clear_kept intro!: Option.bind_cong)
qed

lemma build_classes_agree:
  assumes "runtime_keeps started rt" and "runtime_agree started rt rt'" and "started st"
  shows "build_classes rt addr i n b st = build_classes rt' addr i n b st"
  using assms(3)
proof (induction n arbitrary: i b st)
  case (Suc n)
  note agree = build_class_agree [OF assms(1,2) Suc.prems]
  show ?case
  proof (cases "build_class rt addr (word_of_nat i) b st")
    case None
    then show ?thesis by (simp add: agree [symmetric])
  next
    case (Some r)
    obtain b1 st1 where r: "r = (b1, st1)" by (cases r)
    with Some have "started st1" using starting.build_class_kept [OF assms(1)] Suc.prems by blast
    from Suc.IH [OF this] Some r show ?thesis by (simp add: agree [symmetric])
  qed
qed simp

text \<open>
  Claim C19. Rebuilding is not recursive: \<open>build_dex\<close> calls into the runtime only after it has set
  \<open>started\<close> (so what the runtime does in other states cannot matter), and from then on \<open>Invoke\<close>
  returns for every method without touching the unpacker's state or calling the runtime.
\<close>

theorem rebuild_not_recursive:
  assumes "runtime_keeps started rt" and "runtime_agree started rt rt'"
  shows "build_dex sys rt st this = build_dex sys rt' st this
    \<and> (started st \<longrightarrow> filter_inited st \<longrightarrow> Invoke sys rt'' False st this = Some st)"
proof
  show "build_dex sys rt st this = build_dex sys rt' st this"
    using build_classes_agree [OF assms]
    by (auto simp: build_dex_def Let_def set_started_flag_def split: option.splits intro!: Option.bind_cong)
qed (simp add: Invoke_def)

theorem rebuild_not_recursive_witness:
  "Invoke sample_os quiet_runtime False (set_started_flag sample_state) sample_method = Some (set_started_flag sample_state)
   \<and> build_dex sample_os quiet_runtime sample_state sample_method
     = build_dex sample_os (quiet_runtime\<lparr>EnsureInitialized := \<lambda>name st. if started st then st else sample_state\<rparr>)
         sample_state sample_method"
proof -
  let ?rt = "quiet_runtime\<lparr>EnsureInitialized := \<lambda>name st. if started st then st else sample_state\<rparr>"
  have "runtime_agree started quiet_runtime ?rt" by (simp add: runtime_agree_def quiet_runtime_def)
  from rebuild_not_recursive [OF quiet_runtime_keeps this, of sample_os sample_state sample_method quiet_runtime]
    rebuild_not_recursive [OF quiet_runtime_keeps this, of sample_os "set_started_flag sample_state" sample_method quiet_runtime]
  show ?thesis by (simp add: set_started_flag_def sample_state_def)
qed

end
