(* ===== verification/StaticVerifier.thy ===== *)
theory StaticVerifier
  imports Instruction CodeItem ClassData
begin

text \<open>
  The static pass of the bytecode verifier: \<open>art/runtime/verifier/instruction_flags.h\<close> and the part of
  \<open>art/runtime/verifier/method_verifier.cc\<close> that runs before the data-flow analysis: instruction
  widths, \<open>try\<close> blocks, and the checks of every instruction's operands. The verifier object is a record
  that every function returns updated; \<open>None\<close> is an access outside the file or outside \<open>insn_flags_\<close>,
  and for the \<open>while\<close> loops over 32-bit counters also a loop that does not end.
\<close>

section \<open>Instruction flags\<close>

definition flag_mask :: "nat \<Rightarrow> u8" where
  "flag_mask k = push_bit k 1"

abbreviation (input) kVisited :: nat where "kVisited \<equiv> 0"
abbreviation (input) kChanged :: nat where "kChanged \<equiv> 1"
abbreviation (input) kOpcode :: nat where "kOpcode \<equiv> 2"
abbreviation (input) kInTry :: nat where "kInTry \<equiv> 3"
abbreviation (input) kBranchTarget :: nat where "kBranchTarget \<equiv> 4"
abbreviation (input) kCompileTimeInfoPoint :: nat where "kCompileTimeInfoPoint \<equiv> 5"
abbreviation (input) kReturnFlag :: nat where "kReturnFlag \<equiv> 6"

definition SetFlag :: "nat \<Rightarrow> u8 \<Rightarrow> u8" where
  "SetFlag k flags = flags OR flag_mask k"

definition ClearFlag :: "nat \<Rightarrow> u8 \<Rightarrow> u8" where
  "ClearFlag k flags = flags AND NOT (flag_mask k)"

definition HasFlag :: "nat \<Rightarrow> u8 \<Rightarrow> bool" where
  "HasFlag k flags \<longleftrightarrow> flags AND flag_mask k \<noteq> 0"

definition SetIsOpcode :: "u8 \<Rightarrow> u8" where "SetIsOpcode = SetFlag kOpcode"
definition ClearIsOpcode :: "u8 \<Rightarrow> u8" where "ClearIsOpcode = ClearFlag kOpcode"
definition IsOpcode :: "u8 \<Rightarrow> bool" where "IsOpcode = HasFlag kOpcode"
definition SetInTry :: "u8 \<Rightarrow> u8" where "SetInTry = SetFlag kInTry"
definition ClearInTry :: "u8 \<Rightarrow> u8" where "ClearInTry = ClearFlag kInTry"
definition IsInTry :: "u8 \<Rightarrow> bool" where "IsInTry = HasFlag kInTry"
definition SetBranchTarget :: "u8 \<Rightarrow> u8" where "SetBranchTarget = SetFlag kBranchTarget"
definition ClearBranchTarget :: "u8 \<Rightarrow> u8" where "ClearBranchTarget = ClearFlag kBranchTarget"
definition IsBranchTarget :: "u8 \<Rightarrow> bool" where "IsBranchTarget = HasFlag kBranchTarget"
definition SetCompileTimeInfoPoint :: "u8 \<Rightarrow> u8" where "SetCompileTimeInfoPoint = SetFlag kCompileTimeInfoPoint"
definition ClearCompileTimeInfoPoint :: "u8 \<Rightarrow> u8" where "ClearCompileTimeInfoPoint = ClearFlag kCompileTimeInfoPoint"
definition IsCompileTimeInfoPoint :: "u8 \<Rightarrow> bool" where "IsCompileTimeInfoPoint = HasFlag kCompileTimeInfoPoint"
definition SetVisited :: "u8 \<Rightarrow> u8" where "SetVisited = SetFlag kVisited"
definition ClearVisited :: "u8 \<Rightarrow> u8" where "ClearVisited = ClearFlag kVisited"
definition IsVisited :: "u8 \<Rightarrow> bool" where "IsVisited = HasFlag kVisited"
definition SetChanged :: "u8 \<Rightarrow> u8" where "SetChanged = SetFlag kChanged"
definition ClearChanged :: "u8 \<Rightarrow> u8" where "ClearChanged = ClearFlag kChanged"
definition IsChanged :: "u8 \<Rightarrow> bool" where "IsChanged = HasFlag kChanged"
definition IsVisitedOrChanged :: "u8 \<Rightarrow> bool" where "IsVisitedOrChanged f \<longleftrightarrow> IsVisited f \<or> IsChanged f"
definition SetReturn :: "u8 \<Rightarrow> u8" where "SetReturn = SetFlag kReturnFlag"
definition ClearReturn :: "u8 \<Rightarrow> u8" where "ClearReturn = ClearFlag kReturnFlag"
definition IsReturnFlag :: "u8 \<Rightarrow> bool" where "IsReturnFlag = HasFlag kReturnFlag"

definition SetCompileTimeInfoPointAndReturn :: "u8 \<Rightarrow> u8" where
  "SetCompileTimeInfoPointAndReturn f = SetReturn (SetCompileTimeInfoPoint f)"

section \<open>Code items and the verifier object\<close>

fun units_of :: "u8 list \<Rightarrow> u16 list" where
  "units_of (a # b # r) = le16 a b # units_of r"
| "units_of r = []"

text \<open>A code item as the verifier and the interpreter use it. \<open>code_units\<close> is what lies in the file from
  \<open>insns_\<close> on, so that a read past the last instruction is what the C++ read would see.\<close>

record CodeItem =
  code_item_ptr :: ptr
  registers_size :: u16
  ins_size :: u16
  tries_size :: u16
  insns_size_in_code_units :: u32
  code_units :: insns

definition read_CodeItem :: "DexFile \<Rightarrow> ptr \<Rightarrow> CodeItem option" where
  "read_CodeItem d p = do {
     r \<leftarrow> code_registers_size d p;
     i \<leftarrow> code_ins_size d p;
     t \<leftarrow> code_tries_size d p;
     n \<leftarrow> code_insns_size d p;
     Some \<lparr>code_item_ptr = p, registers_size = r, ins_size = i, tries_size = t,
           insns_size_in_code_units = n, code_units = units_of (drop (p + 16) (begin_of d))\<rparr>
   }"

datatype VerifyError = VERIFY_ERROR_BAD_CLASS_HARD

record MethodVerifier =
  dex_file :: DexFile
  code_item :: "CodeItem option"
  method_access_flags :: u32
  verify_to_dump :: bool
  is_aot_compiler :: bool
  insn_flags :: "u8 list"
  has_check_casts :: bool
  has_virtual_or_interface_invokes :: bool
  new_instance_count :: nat
  monitor_enter_count :: nat
  have_pending_hard_failure :: bool
  failures :: "VerifyError list"

text \<open>\<open>Fail(VERIFY_ERROR_BAD_CLASS_HARD)\<close>; the message, and the report to the compiler's callbacks, are left out.\<close>

definition Fail :: "MethodVerifier \<Rightarrow> MethodVerifier" where
  "Fail v = v\<lparr>have_pending_hard_failure := True, failures := failures v @ [VERIFY_ERROR_BAD_CLASS_HARD]\<rparr>"

definition fail :: "MethodVerifier \<Rightarrow> (bool \<times> MethodVerifier) option" where
  "fail v = Some (False, Fail v)"

definition pass :: "MethodVerifier \<Rightarrow> (bool \<times> MethodVerifier) option" where
  "pass v = Some (True, v)"

text \<open>\<open>result = result && f()\<close>.\<close>

definition and_also ::
  "(bool \<times> MethodVerifier) option \<Rightarrow> (MethodVerifier \<Rightarrow> (bool \<times> MethodVerifier) option) \<Rightarrow> (bool \<times> MethodVerifier) option"
where
  "and_also r f = do { (b, v) \<leftarrow> r; if b then f v else Some (False, v) }"

definition flags_at :: "MethodVerifier \<Rightarrow> nat \<Rightarrow> u8 option" where
  "flags_at v pc = (if pc < length (insn_flags v) then Some (insn_flags v ! pc) else None)"

definition update_flags :: "(u8 \<Rightarrow> u8) \<Rightarrow> nat \<Rightarrow> MethodVerifier \<Rightarrow> MethodVerifier option" where
  "update_flags f pc v = do { x \<leftarrow> flags_at v pc; Some (v\<lparr>insn_flags := (insn_flags v)[pc := f x]\<rparr>) }"

section \<open>Widths\<close>

definition count_op :: "u8 \<Rightarrow> MethodVerifier \<times> nat \<times> nat \<Rightarrow> MethodVerifier \<times> nat \<times> nat" where
  "count_op opcode s =
     (case s of (v, news, monitors) \<Rightarrow>
        if opcode = APUT_OBJECT \<or> opcode = CHECK_CAST then (v\<lparr>has_check_casts := True\<rparr>, news, monitors)
        else if opcode = INVOKE_VIRTUAL \<or> opcode = INVOKE_VIRTUAL_RANGE \<or> opcode = INVOKE_INTERFACE
             \<or> opcode = INVOKE_INTERFACE_RANGE
        then (v\<lparr>has_virtual_or_interface_invokes := True\<rparr>, news, monitors)
        else if opcode = MONITOR_ENTER then (v, news, Suc monitors)
        else if opcode = NEW_INSTANCE then (v, Suc news, monitors)
        else (v, news, monitors))"

definition width_step ::
  "insns \<Rightarrow> nat \<Rightarrow> nat \<Rightarrow> MethodVerifier \<times> nat \<times> nat \<Rightarrow> (nat \<times> nat \<times> MethodVerifier \<times> nat \<times> nat) option" where
  "width_step insns inst dex_pc s = do {
     opcode \<leftarrow> Opcode insns inst;
     let (v, news, monitors) = count_op opcode s;
     inst_size \<leftarrow> SizeInCodeUnits insns inst;
     v \<leftarrow> update_flags SetIsOpcode dex_pc v;
     inst' \<leftarrow> RelativeAt inst (word_of_nat inst_size);
     Some (inst', dex_pc + inst_size, v, news, monitors)
   }"

lemma width_step_progress: "width_step insns inst dex_pc s = Some (inst', pc', s') \<Longrightarrow> dex_pc < pc'"
  by (auto simp: width_step_def bind_eq_Some_conv Let_def case_prod_beta dest: SizeInCodeUnits_pos)

function width_loop ::
  "insns \<Rightarrow> nat \<Rightarrow> nat \<Rightarrow> nat \<Rightarrow> MethodVerifier \<times> nat \<times> nat \<Rightarrow> (nat \<times> MethodVerifier \<times> nat \<times> nat) option" where
  "width_loop insns insns_size inst dex_pc s =
     (if dex_pc < insns_size
      then (case width_step insns inst dex_pc s of
              None \<Rightarrow> None
            | Some (inst', pc', s') \<Rightarrow> width_loop insns insns_size inst' pc' s')
      else Some (dex_pc, s))"
  by pat_completeness auto
termination
  by (relation "measure (\<lambda>(_, insns_size, _, dex_pc, _). insns_size - dex_pc)")
    (auto dest!: width_step_progress)

declare width_loop.simps [simp del]

definition ComputeWidthsAndCountOps :: "CodeItem \<Rightarrow> MethodVerifier \<Rightarrow> (bool \<times> MethodVerifier) option" where
  "ComputeWidthsAndCountOps c v = do {
     let insns_size = unat (insns_size_in_code_units c);
     (dex_pc, v, news, monitors) \<leftarrow> width_loop (code_units c) insns_size 0 0 (v, 0, 0);
     (if dex_pc \<noteq> insns_size then fail v
      else pass (v\<lparr>new_instance_count := news, monitor_enter_count := monitors\<rparr>))
   }"

section \<open>Try blocks\<close>

definition CheckNotMoveResult :: "CodeItem \<Rightarrow> nat \<Rightarrow> MethodVerifier \<Rightarrow> (bool \<times> MethodVerifier) option" where
  "CheckNotMoveResult c insn_idx v = do {
     w \<leftarrow> Fetch16 (code_units c) insn_idx 0;
     (if Opcode_of w \<ge> MOVE_RESULT \<and> Opcode_of w \<le> MOVE_RESULT_OBJECT then fail v else pass v)
   }"

text \<open>The loop that marks the instructions of a \<open>try\<close> block.\<close>

partial_function (option) mark_try :: "insns \<Rightarrow> u32 \<Rightarrow> u32 \<Rightarrow> nat \<Rightarrow> MethodVerifier \<Rightarrow> MethodVerifier option" where
  "mark_try insns end_pc dex_pc inst v =
     (if dex_pc < end_pc
      then do {
        v \<leftarrow> update_flags SetInTry (unat dex_pc) v;
        insn_size \<leftarrow> SizeInCodeUnits insns inst;
        inst \<leftarrow> RelativeAt inst (word_of_nat insn_size);
        mark_try insns end_pc (dex_pc + word_of_nat insn_size) inst v
      }
      else Some v)"

definition scan_try :: "CodeItem \<Rightarrow> TryItem \<Rightarrow> MethodVerifier \<Rightarrow> (bool \<times> MethodVerifier) option" where
  "scan_try c try_item v = do {
     let insns_size = insns_size_in_code_units c;
     let start = start_addr try_item;
     let end_pc = start + ucast (insn_count try_item);
     (if start \<ge> end_pc \<or> start \<ge> insns_size \<or> end_pc > insns_size then fail v
      else do {
        x \<leftarrow> flags_at v (unat start);
        (if \<not> IsOpcode x then fail v
         else do { v \<leftarrow> mark_try (code_units c) end_pc start (unat start) v; pass v })
      })
   }"

fun scan_tries :: "CodeItem \<Rightarrow> nat \<Rightarrow> nat \<Rightarrow> MethodVerifier \<Rightarrow> (bool \<times> MethodVerifier) option" where
  "scan_tries c idx 0 v = pass v"
| "scan_tries c idx (Suc n) v = do {
     p \<leftarrow> GetTryItems (dex_file v) (code_item_ptr c) idx;
     try_item \<leftarrow> read_TryItem (dex_file v) p;
     and_also (scan_try c try_item v) (scan_tries c (Suc idx) n)
   }"

text \<open>One handler: \<open>dex_pc\<close> is used as an index without a range check. Resolving the exception type has no
  effect on the verifier.\<close>

definition scan_handler :: "CodeItem \<Rightarrow> u32 \<Rightarrow> MethodVerifier \<Rightarrow> (bool \<times> MethodVerifier) option" where
  "scan_handler c dex_pc v = do {
     x \<leftarrow> flags_at v (unat dex_pc);
     (if \<not> IsOpcode x then fail v
      else do {
        (ok, v) \<leftarrow> CheckNotMoveResult c (unat dex_pc) v;
        (if \<not> ok then fail v
         else do { v \<leftarrow> update_flags SetBranchTarget (unat dex_pc) v; pass v })
      })
   }"

function scan_handler_list ::
  "CodeItem \<Rightarrow> CatchHandlerIterator \<Rightarrow> MethodVerifier \<Rightarrow> (bool \<times> MethodVerifier \<times> CatchHandlerIterator) option" where
  "scan_handler_list c iterator v =
     (if chi_HasNext iterator
      then (case scan_handler c (handler_address iterator) v of
              None \<Rightarrow> None
            | Some (ok, v) \<Rightarrow>
                if \<not> ok then Some (False, v, iterator)
                else (case chi_Next (begin_of (dex_file v)) iterator of
                        None \<Rightarrow> None
                      | Some iterator' \<Rightarrow> scan_handler_list c iterator' v))
      else Some (True, v, iterator))"
  by pat_completeness auto
termination
  by (relation "measure (\<lambda>(_, it, _). (if chi_HasNext it then 1 else 0)
      + nat (sint (remaining_count it)) + (if catch_all it then 1 else 0))")
    (auto dest: chi_Next_measure)

declare scan_handler_list.simps [simp del]

fun scan_handler_lists :: "CodeItem \<Rightarrow> nat \<Rightarrow> ptr \<Rightarrow> MethodVerifier \<Rightarrow> (bool \<times> MethodVerifier) option" where
  "scan_handler_lists c 0 handlers_ptr v = pass v"
| "scan_handler_lists c (Suc n) handlers_ptr v = do {
     iterator \<leftarrow> chi_Init_data (begin_of (dex_file v)) handlers_ptr (empty_handlers 0);
     (ok, v, iterator) \<leftarrow> scan_handler_list c iterator v;
     (if \<not> ok then Some (False, v)
      else do {
        handlers_ptr \<leftarrow> chi_EndDataPointer iterator;
        scan_handler_lists c n handlers_ptr v
      })
   }"

definition ScanTryCatchBlocks :: "CodeItem \<Rightarrow> MethodVerifier \<Rightarrow> (bool \<times> MethodVerifier) option" where
  "ScanTryCatchBlocks c v =
     (if tries_size c = 0 then pass v
      else and_also (scan_tries c 0 (unat (tries_size c)) v) (\<lambda>v. do {
        handlers_ptr \<leftarrow> GetCatchHandlerData (dex_file v) (code_item_ptr c) 0;
        (handlers_size, handlers_ptr) \<leftarrow> DecodeUnsignedLeb128 (begin_of (dex_file v)) handlers_ptr;
        scan_handler_lists c (unat handlers_size) handlers_ptr v
      }))"

section \<open>Operand checks\<close>

definition CheckRegisterIndex :: "CodeItem \<Rightarrow> u32 \<Rightarrow> MethodVerifier \<Rightarrow> (bool \<times> MethodVerifier) option" where
  "CheckRegisterIndex c idx v = (if idx \<ge> ucast (registers_size c) then fail v else pass v)"

definition CheckWideRegisterIndex :: "CodeItem \<Rightarrow> u32 \<Rightarrow> MethodVerifier \<Rightarrow> (bool \<times> MethodVerifier) option" where
  "CheckWideRegisterIndex c idx v = (if idx + 1 \<ge> ucast (registers_size c) then fail v else pass v)"

definition CheckFieldIndex :: "u32 \<Rightarrow> MethodVerifier \<Rightarrow> (bool \<times> MethodVerifier) option" where
  "CheckFieldIndex idx v = do {
     n \<leftarrow> header_field (dex_file v) field_ids_size_off;
     (if idx \<ge> n then fail v else pass v)
   }"

definition CheckMethodIndex :: "u32 \<Rightarrow> MethodVerifier \<Rightarrow> (bool \<times> MethodVerifier) option" where
  "CheckMethodIndex idx v = do {
     n \<leftarrow> header_field (dex_file v) method_ids_size_off;
     (if idx \<ge> n then fail v else pass v)
   }"

definition CheckStringIndex :: "u32 \<Rightarrow> MethodVerifier \<Rightarrow> (bool \<times> MethodVerifier) option" where
  "CheckStringIndex idx v = do {
     n \<leftarrow> header_field (dex_file v) string_ids_size_off;
     (if idx \<ge> n then fail v else pass v)
   }"

definition CheckTypeIndex :: "u32 \<Rightarrow> MethodVerifier \<Rightarrow> (bool \<times> MethodVerifier) option" where
  "CheckTypeIndex idx v = do {
     n \<leftarrow> header_field (dex_file v) type_ids_size_off;
     (if idx \<ge> n then fail v else pass v)
   }"

text \<open>\<open>descriptor[0] != 'L'\<close>; the descriptor of a type without a name is a null pointer.\<close>

definition CheckNewInstance :: "u32 \<Rightarrow> MethodVerifier \<Rightarrow> (bool \<times> MethodVerifier) option" where
  "CheckNewInstance idx v = do {
     n \<leftarrow> header_field (dex_file v) type_ids_size_off;
     (if idx \<ge> n then fail v
      else do {
        p \<leftarrow> StringByTypeIdx (dex_file v) idx;
        descriptor \<leftarrow> p;
        c \<leftarrow> load8 descriptor 0;
        (if c \<noteq> 0x4c then fail v else pass v)
      })
   }"

text \<open>\<open>while (*cp++ == '[') bracket_count++\<close>.\<close>

fun count_brackets :: "cstr \<Rightarrow> nat option" where
  "count_brackets [] = None"
| "count_brackets (c # s) = (if c = 0x5b then map_option Suc (count_brackets s) else Some 0)"

definition CheckNewArray :: "u32 \<Rightarrow> MethodVerifier \<Rightarrow> (bool \<times> MethodVerifier) option" where
  "CheckNewArray idx v = do {
     n \<leftarrow> header_field (dex_file v) type_ids_size_off;
     (if idx \<ge> n then fail v
      else do {
        p \<leftarrow> StringByTypeIdx (dex_file v) idx;
        descriptor \<leftarrow> p;
        bracket_count \<leftarrow> count_brackets descriptor;
        (if bracket_count = 0 then fail v
         else if bracket_count > 255 then fail v
         else pass v)
      })
   }"

text \<open>\<open>insns[k] | insns[k + 1] << 16\<close>.\<close>

definition two_units :: "insns \<Rightarrow> nat \<Rightarrow> u32 option" where
  "two_units insns k = do {
     lo \<leftarrow> Fetch16 insns k 0;
     hi \<leftarrow> Fetch16 insns k 1;
     Some (ucast lo OR push_bit 16 (ucast hi))
   }"

text \<open>\<open>(int32_t) cur_offset + offset\<close>; overflow is undefined.\<close>

definition signed_sum :: "u32 \<Rightarrow> u32 \<Rightarrow> int option" where
  "signed_sum a b =
     (let s = sint a + sint b in if - (2 ^ 31) \<le> s \<and> s < 2 ^ 31 then Some s else None)"

text \<open>The address of code unit \<open>k\<close> is not a multiple of 4.\<close>

definition unaligned :: "CodeItem \<Rightarrow> nat \<Rightarrow> bool" where
  "unaligned c k \<longleftrightarrow> (code_item_ptr c + 16 + 2 * k) mod 4 \<noteq> 0"

definition CheckArrayData :: "CodeItem \<Rightarrow> u32 \<Rightarrow> MethodVerifier \<Rightarrow> (bool \<times> MethodVerifier) option" where
  "CheckArrayData c cur_offset v = do {
     let insn_count = insns_size_in_code_units c;
     array_data_offset \<leftarrow> two_units (code_units c) (unat cur_offset + 1);
     s \<leftarrow> signed_sum cur_offset array_data_offset;
     (if s < 0 \<or> cur_offset + array_data_offset + 2 \<ge> insn_count then fail v
      else do {
        let array_data = nat s;
        (if unaligned c array_data then fail v
         else do {
           w \<leftarrow> Fetch16 (code_units c) array_data 1;
           let value_width = ((ucast w) :: u32);
           value_count \<leftarrow> two_units (code_units c) (array_data + 2);
           let table_size = 4 + (value_width * value_count + 1) div 2;
           (if cur_offset + array_data_offset + table_size > insn_count then fail v else pass v)
         })
      })
   }"

text \<open>The offset, and whether a branch to itself is allowed; \<open>None\<close> inside is the result \<open>false\<close>.\<close>

definition GetBranchOffset :: "CodeItem \<Rightarrow> u32 \<Rightarrow> (u32 \<times> bool \<times> bool) option option" where
  "GetBranchOffset c cur_offset = do {
     w \<leftarrow> Fetch16 (code_units c) (unat cur_offset) 0;
     let op = Opcode_of w;
     (if op = GOTO then Some (Some (scast (signed_drop_bit 8 w), False, False))
      else if op = GOTO_32 then do {
        off \<leftarrow> two_units (code_units c) (unat cur_offset + 1);
        Some (Some (off, False, True)) }
      else if op = GOTO_16 then do {
        off \<leftarrow> Fetch16 (code_units c) (unat cur_offset) 1;
        Some (Some (scast off, False, False)) }
      else if op \<in> {IF_EQ, IF_NE, IF_LT, IF_GE, IF_GT, IF_LE, IF_EQZ, IF_NEZ, IF_LTZ, IF_GEZ, IF_GTZ, IF_LEZ}
      then do {
        off \<leftarrow> Fetch16 (code_units c) (unat cur_offset) 1;
        Some (Some (scast off, True, False)) }
      else Some None)
   }"

definition CheckBranchTarget :: "CodeItem \<Rightarrow> u32 \<Rightarrow> MethodVerifier \<Rightarrow> (bool \<times> MethodVerifier) option" where
  "CheckBranchTarget c cur_offset v = do {
     r \<leftarrow> GetBranchOffset c cur_offset;
     (case r of
        None \<Rightarrow> Some (False, v)
      | Some (offset, isConditional, selfOkay) \<Rightarrow>
          if \<not> selfOkay \<and> offset = 0 then fail v
          else if uint cur_offset + sint offset \<noteq> uint (cur_offset + offset) then fail v
          else do {
            let insn_count = insns_size_in_code_units c;
            let abs_offset = cur_offset + offset;
            bad \<leftarrow> (if sint abs_offset < 0 then Some True
                   else if abs_offset \<ge> insn_count then Some True
                   else do { x \<leftarrow> flags_at v (unat abs_offset); Some (\<not> IsOpcode x) });
            (if bad then fail v
             else do { v \<leftarrow> update_flags SetBranchTarget (unat abs_offset) v; pass v })
          })
   }"

text \<open>The keys of a sparse switch ascend; \<open>n\<close> keys follow \<open>last_key\<close>.\<close>

fun check_keys :: "insns \<Rightarrow> nat \<Rightarrow> u32 \<Rightarrow> nat \<Rightarrow> bool option" where
  "check_keys insns k last_key 0 = Some True"
| "check_keys insns k last_key (Suc n) = do {
     key \<leftarrow> two_units insns k;
     (if sint key \<le> sint last_key then Some False else check_keys insns (k + 2) key n)
   }"

fun check_switch_targets :: "CodeItem \<Rightarrow> u32 \<Rightarrow> nat \<Rightarrow> nat \<Rightarrow> MethodVerifier \<Rightarrow> (bool \<times> MethodVerifier) option" where
  "check_switch_targets c cur_offset k 0 v = pass v"
| "check_switch_targets c cur_offset k (Suc n) v = do {
     offset \<leftarrow> two_units (code_units c) k;
     let abs_offset = cur_offset + offset;
     bad \<leftarrow> (if sint abs_offset < 0 then Some True
            else if sint abs_offset \<ge> sint (insns_size_in_code_units c) then Some True
            else do { x \<leftarrow> flags_at v (unat abs_offset); Some (\<not> IsOpcode x) });
     (if bad then fail v
      else do {
        v \<leftarrow> update_flags SetBranchTarget (unat abs_offset) v;
        check_switch_targets c cur_offset (k + 2) n v
      })
   }"

definition CheckSwitchTargets :: "CodeItem \<Rightarrow> u32 \<Rightarrow> MethodVerifier \<Rightarrow> (bool \<times> MethodVerifier) option" where
  "CheckSwitchTargets c cur_offset v = do {
     let insn_count = insns_size_in_code_units c;
     switch_offset \<leftarrow> two_units (code_units c) (unat cur_offset + 1);
     s \<leftarrow> signed_sum cur_offset switch_offset;
     (if s < 0 \<or> cur_offset + switch_offset + 2 > insn_count then fail v
      else do {
        let switch_insns = nat s;
        (if unaligned c switch_insns then fail v
         else do {
           count \<leftarrow> Fetch16 (code_units c) switch_insns 1;
           let switch_count = unat count;
           w \<leftarrow> Fetch16 (code_units c) (unat cur_offset) 0;
           let packed = (Opcode_of w = PACKED_SWITCH);
           let targets_offset = (if packed then 4 else 2 + 2 * switch_count);
           let expected_signature = (if packed then kPackedSwitchSignature else kSparseSwitchSignature);
           let table_size = ((word_of_nat (targets_offset + switch_count * 2)) :: u32);
           signature \<leftarrow> Fetch16 (code_units c) switch_insns 0;
           (if signature \<noteq> expected_signature then fail v
            else if cur_offset + switch_offset + table_size > insn_count then fail v
            else do {
              keys_ok \<leftarrow> (if \<not> packed \<and> switch_count > 1
                         then do {
                           last_key \<leftarrow> two_units (code_units c) (switch_insns + 2);
                           check_keys (code_units c) (switch_insns + 4) last_key (switch_count - 1) }
                         else Some True);
              (if \<not> keys_ok then fail v
               else check_switch_targets c cur_offset (switch_insns + targets_offset) switch_count v)
            })
         })
      })
   }"

definition CheckVarArgRegs :: "CodeItem \<Rightarrow> nat \<Rightarrow> u32 list \<Rightarrow> MethodVerifier \<Rightarrow> (bool \<times> MethodVerifier) option" where
  "CheckVarArgRegs c vA arg v =
     (if list_ex (\<lambda>r. r \<ge> ucast (registers_size c)) (take vA arg) then fail v else pass v)"

definition CheckVarArgRangeRegs :: "CodeItem \<Rightarrow> u32 \<Rightarrow> u32 \<Rightarrow> MethodVerifier \<Rightarrow> (bool \<times> MethodVerifier) option" where
  "CheckVarArgRangeRegs c vA vC v = (if vA + vC > ucast (registers_size c) then fail v else pass v)"

section \<open>Instructions\<close>

definition verify_arg_A :: "CodeItem \<Rightarrow> u8 \<Rightarrow> nat \<Rightarrow> MethodVerifier \<Rightarrow> (bool \<times> MethodVerifier) option" where
  "verify_arg_A c op inst v =
     (let t = GetVerifyTypeArgumentA op
      in if t = kVerifyRegA then do { r \<leftarrow> VRegA (code_units c) inst; CheckRegisterIndex c r v }
         else if t = kVerifyRegAWide then do { r \<leftarrow> VRegA (code_units c) inst; CheckWideRegisterIndex c r v }
         else pass v)"

definition verify_arg_B :: "CodeItem \<Rightarrow> u8 \<Rightarrow> nat \<Rightarrow> MethodVerifier \<Rightarrow> (bool \<times> MethodVerifier) option" where
  "verify_arg_B c op inst v =
     (let t = GetVerifyTypeArgumentB op
      in if t = kVerifyRegB then do { r \<leftarrow> VRegB (code_units c) inst; CheckRegisterIndex c r v }
         else if t = kVerifyRegBField then do { r \<leftarrow> VRegB (code_units c) inst; CheckFieldIndex r v }
         else if t = kVerifyRegBMethod then do { r \<leftarrow> VRegB (code_units c) inst; CheckMethodIndex r v }
         else if t = kVerifyRegBNewInstance then do { r \<leftarrow> VRegB (code_units c) inst; CheckNewInstance r v }
         else if t = kVerifyRegBString then do { r \<leftarrow> VRegB (code_units c) inst; CheckStringIndex r v }
         else if t = kVerifyRegBType then do { r \<leftarrow> VRegB (code_units c) inst; CheckTypeIndex r v }
         else if t = kVerifyRegBWide then do { r \<leftarrow> VRegB (code_units c) inst; CheckWideRegisterIndex c r v }
         else pass v)"

definition verify_arg_C :: "CodeItem \<Rightarrow> u8 \<Rightarrow> nat \<Rightarrow> MethodVerifier \<Rightarrow> (bool \<times> MethodVerifier) option" where
  "verify_arg_C c op inst v =
     (let t = GetVerifyTypeArgumentC op
      in if t = kVerifyRegC then do { r \<leftarrow> VRegC (code_units c) inst; CheckRegisterIndex c r v }
         else if t = kVerifyRegCField then do { r \<leftarrow> VRegC (code_units c) inst; CheckFieldIndex r v }
         else if t = kVerifyRegCNewArray then do { r \<leftarrow> VRegC (code_units c) inst; CheckNewArray r v }
         else if t = kVerifyRegCType then do { r \<leftarrow> VRegC (code_units c) inst; CheckTypeIndex r v }
         else if t = kVerifyRegCWide then do { r \<leftarrow> VRegC (code_units c) inst; CheckWideRegisterIndex c r v }
         else pass v)"

text \<open>The switch on the extra flags, after the result so far. A bad argument count returns at once.
  \<open>Inl\<close> is an early return.\<close>

definition verify_extra ::
  "CodeItem \<Rightarrow> u8 \<Rightarrow> nat \<Rightarrow> u32 \<Rightarrow> bool \<times> MethodVerifier \<Rightarrow> (MethodVerifier + bool \<times> MethodVerifier) option" where
  "verify_extra c op inst code_offset r =
     (let t = GetVerifyExtraFlags op; go = (\<lambda>f. map_option Inr (and_also (Some r) f))
      in if t = kVerifyArrayData then go (CheckArrayData c code_offset)
         else if t = kVerifyBranchTarget then go (CheckBranchTarget c code_offset)
         else if t = kVerifySwitchTargets then go (CheckSwitchTargets c code_offset)
         else if t = kVerifyVarArgNonZero \<or> t = kVerifyVarArg then do {
           v_a \<leftarrow> VRegA (code_units c) inst;
           (if (t = kVerifyVarArgNonZero \<and> v_a = 0) \<or> v_a > 5 then Some (Inl (Fail (snd r)))
            else do {
              inst_data \<leftarrow> Fetch16 (code_units c) inst 0;
              args \<leftarrow> GetVarArgs (code_units c) inst inst_data (replicate 5 0);
              go (CheckVarArgRegs c (unat v_a) args)
            }) }
         else if t = kVerifyVarArgRangeNonZero \<or> t = kVerifyVarArgRange then do {
           v_a \<leftarrow> VRegA (code_units c) inst;
           (if t = kVerifyVarArgRangeNonZero \<and> sint v_a \<le> 0 then Some (Inl (Fail (snd r)))
            else do {
              v_c \<leftarrow> VRegC (code_units c) inst;
              go (CheckVarArgRangeRegs c v_a v_c)
            }) }
         else if t = kVerifyError then Some (Inr (False, Fail (snd r)))
         else Some (Inr r))"

definition VerifyInstruction :: "CodeItem \<Rightarrow> nat \<Rightarrow> u32 \<Rightarrow> MethodVerifier \<Rightarrow> (bool \<times> MethodVerifier) option" where
  "VerifyInstruction c inst code_offset v = do {
     op \<leftarrow> Opcode (code_units c) inst;
     r \<leftarrow> and_also (and_also (verify_arg_A c op inst v) (verify_arg_B c op inst)) (verify_arg_C c op inst);
     x \<leftarrow> verify_extra c op inst code_offset r;
     (case x of
        Inl v \<Rightarrow> Some (False, v)
      | Inr (result, v) \<Rightarrow>
          if GetVerifyIsRuntimeOnly op \<and> is_aot_compiler v \<and> \<not> verify_to_dump v then fail v
          else Some (result, v))
   }"

text \<open>The marks of an instruction that passed its checks. The branch offset stays 0 if it is not a branch.\<close>

definition mark_instruction :: "CodeItem \<Rightarrow> nat \<Rightarrow> u32 \<Rightarrow> MethodVerifier \<Rightarrow> MethodVerifier option" where
  "mark_instruction c inst dex_pc v = do {
     op \<leftarrow> Opcode (code_units c) inst;
     (if IsBranch op then do {
        v \<leftarrow> update_flags SetCompileTimeInfoPoint (unat dex_pc) v;
        r \<leftarrow> GetBranchOffset c dex_pc;
        let offset = (case r of None \<Rightarrow> 0 | Some (offset, _, _) \<Rightarrow> offset);
        update_flags SetCompileTimeInfoPoint (unat (dex_pc + offset)) v }
      else if IsSwitch op \<or> IsThrow op then update_flags SetCompileTimeInfoPoint (unat dex_pc) v
      else if IsReturn op then update_flags SetCompileTimeInfoPointAndReturn (unat dex_pc) v
      else Some v)
   }"

partial_function (option) verify_loop ::
  "CodeItem \<Rightarrow> nat \<Rightarrow> u32 \<Rightarrow> MethodVerifier \<Rightarrow> (bool \<times> MethodVerifier) option" where
  "verify_loop c inst dex_pc v =
     (if dex_pc < insns_size_in_code_units c
      then do {
        (ok, v) \<leftarrow> VerifyInstruction c inst dex_pc v;
        (if \<not> ok then Some (False, v)
         else do {
           v \<leftarrow> mark_instruction c inst dex_pc v;
           n \<leftarrow> SizeInCodeUnits (code_units c) inst;
           inst \<leftarrow> Next (code_units c) inst;
           verify_loop c inst (dex_pc + word_of_nat n) v
         })
      }
      else Some (True, v))"

definition VerifyInstructions :: "CodeItem \<Rightarrow> MethodVerifier \<Rightarrow> (bool \<times> MethodVerifier) option" where
  "VerifyInstructions c v = do {
     v \<leftarrow> update_flags SetBranchTarget 0 v;
     v \<leftarrow> update_flags SetCompileTimeInfoPoint 0 v;
     verify_loop c 0 0 v
   }"

text \<open>\<open>Verify\<close> up to the data-flow analysis.\<close>

abbreviation (input) kAccAbstract :: u32 where "kAccAbstract \<equiv> 0x0400"

definition Verify :: "MethodVerifier \<Rightarrow> (bool \<times> MethodVerifier) option" where
  "Verify v =
     (case code_item v of
        None \<Rightarrow> if method_access_flags v AND (kAccNative OR kAccAbstract) = 0 then fail v else pass v
      | Some c \<Rightarrow>
          if ins_size c > registers_size c then fail v
          else
            let v = v\<lparr>insn_flags := replicate (unat (insns_size_in_code_units c)) 0\<rparr>
            in and_also (and_also (ComputeWidthsAndCountOps c v) (ScanTryCatchBlocks c)) (VerifyInstructions c))"

section \<open>Flags\<close>

lemma HasFlag_bit: "HasFlag j f \<longleftrightarrow> bit f j"
  by (simp add: HasFlag_def flag_mask_def push_bit_of_1 and_exp_eq_0_iff_not_bit)

lemma HasFlag_SetFlag: "k < 8 \<Longrightarrow> HasFlag j (SetFlag k f) \<longleftrightarrow> j = k \<or> HasFlag j f"
  by (auto simp: HasFlag_bit SetFlag_def flag_mask_def bit_simps)

lemma HasFlag_ClearFlag: "j < 8 \<Longrightarrow> HasFlag j (ClearFlag k f) \<longleftrightarrow> j \<noteq> k \<and> HasFlag j f"
  by (auto simp: HasFlag_bit ClearFlag_def flag_mask_def bit_simps)

lemmas flag_defs = SetIsOpcode_def IsOpcode_def SetInTry_def SetBranchTarget_def SetCompileTimeInfoPoint_def
  SetCompileTimeInfoPointAndReturn_def SetReturn_def

text \<open>The marks set after the widths are computed leave the opcode flags alone.\<close>

lemma IsOpcode_marks [simp]:
  "IsOpcode (SetInTry f) = IsOpcode f" "IsOpcode (SetBranchTarget f) = IsOpcode f"
  "IsOpcode (SetCompileTimeInfoPoint f) = IsOpcode f" "IsOpcode (SetCompileTimeInfoPointAndReturn f) = IsOpcode f"
  "IsOpcode (SetIsOpcode f)"
  by (simp_all add: flag_defs HasFlag_SetFlag)

lemma IsInTry_marks [simp]:
  "IsInTry (SetInTry f)" "IsInTry (SetBranchTarget f) = IsInTry f"
  "IsInTry (SetCompileTimeInfoPoint f) = IsInTry f" "IsInTry (SetCompileTimeInfoPointAndReturn f) = IsInTry f"
  by (simp_all add: flag_defs IsInTry_def HasFlag_SetFlag)

lemma IsVisitedOrChanged_marks [simp]:
  "IsVisitedOrChanged (SetInTry f) = IsVisitedOrChanged f" "IsVisitedOrChanged (SetBranchTarget f) = IsVisitedOrChanged f"
  "IsVisitedOrChanged (SetCompileTimeInfoPoint f) = IsVisitedOrChanged f"
  "IsVisitedOrChanged (SetCompileTimeInfoPointAndReturn f) = IsVisitedOrChanged f"
  "IsVisitedOrChanged (SetIsOpcode f) = IsVisitedOrChanged f"
  by (simp_all add: flag_defs IsVisitedOrChanged_def IsVisited_def IsChanged_def HasFlag_SetFlag)

definition opcode_at :: "MethodVerifier \<Rightarrow> nat \<Rightarrow> bool" where
  "opcode_at v pc \<longleftrightarrow> pc < length (insn_flags v) \<and> IsOpcode (insn_flags v ! pc)"

definition in_try :: "MethodVerifier \<Rightarrow> nat \<Rightarrow> bool" where
  "in_try v pc \<longleftrightarrow> pc < length (insn_flags v) \<and> IsInTry (insn_flags v ! pc)"

definition started :: "MethodVerifier \<Rightarrow> nat \<Rightarrow> bool" where
  "started v pc \<longleftrightarrow> pc < length (insn_flags v) \<and> IsVisitedOrChanged (insn_flags v ! pc)"

text \<open>The flags of \<open>v'\<close> agree with those of \<open>v\<close> on the instructions, the marks of \<open>try\<close> blocks are still there,
  and no instruction is marked for the code flow pass.\<close>

definition same_opcodes :: "MethodVerifier \<Rightarrow> MethodVerifier \<Rightarrow> bool" where
  "same_opcodes v v' \<longleftrightarrow> length (insn_flags v') = length (insn_flags v) \<and> dex_file v' = dex_file v
     \<and> (\<forall>pc. opcode_at v' pc = opcode_at v pc) \<and> (\<forall>pc. in_try v pc \<longrightarrow> in_try v' pc)
     \<and> (\<forall>pc. started v' pc \<longrightarrow> started v pc)"

lemma same_refl [simp]: "same_opcodes v v"
  by (simp add: same_opcodes_def)

lemma same_trans: "same_opcodes u v \<Longrightarrow> same_opcodes v w \<Longrightarrow> same_opcodes u w"
  by (simp add: same_opcodes_def)

lemma same_Fail [simp]: "same_opcodes v (Fail v)"
  by (simp add: same_opcodes_def Fail_def opcode_at_def in_try_def started_def)

lemma update_same:
  assumes "update_flags f pc v = Some v'" and "\<And>x. IsOpcode (f x) = IsOpcode x \<and> (IsInTry x \<longrightarrow> IsInTry (f x))
      \<and> IsVisitedOrChanged (f x) = IsVisitedOrChanged x"
  shows "same_opcodes v v'"
proof -
  from assms(1) have pc: "pc < length (insn_flags v)"
    and v': "v' = v\<lparr>insn_flags := (insn_flags v)[pc := f (insn_flags v ! pc)]\<rparr>"
    by (auto simp: update_flags_def flags_at_def bind_eq_Some_conv split: if_splits)
  then have "opcode_at v' q = opcode_at v q \<and> (in_try v q \<longrightarrow> in_try v' q) \<and> started v' q = started v q" for q
    using assms(2) [of "insn_flags v ! pc"] by (cases "q = pc") (simp_all add: opcode_at_def in_try_def started_def)
  with v' show ?thesis by (simp add: same_opcodes_def)
qed

lemmas fail_pass = fail_def pass_def

lemma and_also_True: "and_also r f = Some (True, v') \<longleftrightarrow> (\<exists>u. r = Some (True, u) \<and> f u = Some (True, v'))"
  by (auto simp: and_also_def bind_eq_Some_conv split: if_splits)

lemma fail_True [simp]: "fail v \<noteq> Some (True, v')" "pass v = Some (b, v') \<longleftrightarrow> b \<and> v' = v"
  by (auto simp: fail_pass)

lemma fail_Some [simp]: "fail v = Some (b, v') \<longleftrightarrow> \<not> b \<and> v' = Fail v"
  by (auto simp: fail_pass)

section \<open>The checks keep the opcode flags\<close>

text \<open>A result that, if there is one, has the opcode flags of \<open>v\<close>. The rules follow the shape of the code.\<close>

definition kept :: "MethodVerifier \<Rightarrow> (bool \<times> MethodVerifier) option \<Rightarrow> bool" where
  "kept v r \<longleftrightarrow> (\<forall>b v'. r = Some (b, v') \<longrightarrow> same_opcodes v v')"

lemma kept_Some: "kept v (Some (b, v)) \<and> kept v (Some (b, Fail v))"
  by (simp add: kept_def)

lemma kept_fail: "kept v (fail v)" and kept_pass: "kept v (pass v)"
  by (simp_all add: kept_def)

lemma kept_bind: "(\<And>x. m = Some x \<Longrightarrow> kept v (f x)) \<Longrightarrow> kept v (m \<bind> f)"
  by (cases m) (simp_all add: kept_def)

lemma kept_if: "(b \<Longrightarrow> kept v r) \<Longrightarrow> (\<not> b \<Longrightarrow> kept v s) \<Longrightarrow> kept v (if b then r else s)"
  by simp

lemma kept_option: "kept v r \<Longrightarrow> (\<And>x. kept v (f x)) \<Longrightarrow> kept v (case m of None \<Rightarrow> r | Some x \<Rightarrow> f x)"
  by (cases m) simp_all

lemma kept_prod: "(\<And>a b. kept v (f a b)) \<Longrightarrow> kept v (case p of (a, b) \<Rightarrow> f a b)"
  by (cases p) simp

lemma kept_from: "same_opcodes v u \<Longrightarrow> kept u r \<Longrightarrow> kept v r"
  using same_trans unfolding kept_def by blast

lemma kept_and_also: "kept v r \<Longrightarrow> (\<And>u. kept u (f u)) \<Longrightarrow> kept v (and_also r f)"
  by (cases r) (auto simp: and_also_def kept_def split: if_splits intro: same_trans)

lemma kept_then: "kept v m \<Longrightarrow> (\<And>b u. kept u (f b u)) \<Longrightarrow> kept v (m \<bind> (\<lambda>(b, u). f b u))"
  by (cases m) (auto simp: kept_def intro: same_trans)

lemma kept_branch_mark:
  assumes "\<And>u. kept u (f u)"
  shows "kept v (update_flags SetBranchTarget pc v \<bind> f)"
proof (rule kept_bind)
  fix u
  assume "update_flags SetBranchTarget pc v = Some u"
  then have "same_opcodes v u" by (rule update_same) simp
  then show "kept v (f u)" using assms by (rule kept_from)
qed

lemmas kept_rules = kept_fail kept_pass kept_Some [THEN conjunct1] kept_Some [THEN conjunct2] kept_branch_mark
  kept_and_also kept_bind kept_if kept_option kept_prod

text \<open>A check of the verifier: it may mark and it may fail, but it keeps the opcode flags.\<close>

locale check =
  fixes f :: "MethodVerifier \<Rightarrow> (bool \<times> MethodVerifier) option"
  assumes keeps: "kept v (f v)"
begin

lemma same: "f v = Some (b, v') \<Longrightarrow> same_opcodes v v'"
  using keeps [of v] by (simp add: kept_def)

lemma after: "and_also (Some (b, u)) f = Some (b', w) \<Longrightarrow> same_opcodes v u \<Longrightarrow> same_opcodes v w"
  using same [of u b' w] by (auto simp: and_also_def split: if_splits intro: same_trans)

end

interpretation register_index: check "CheckRegisterIndex c idx" for c idx
  by unfold_locales (auto simp: CheckRegisterIndex_def intro!: kept_rules)

interpretation wide_register_index: check "CheckWideRegisterIndex c idx" for c idx
  by unfold_locales (auto simp: CheckWideRegisterIndex_def intro!: kept_rules)

interpretation field_index: check "CheckFieldIndex idx" for idx
  by unfold_locales (auto simp: CheckFieldIndex_def intro!: kept_rules)

interpretation method_index: check "CheckMethodIndex idx" for idx
  by unfold_locales (auto simp: CheckMethodIndex_def intro!: kept_rules)

interpretation string_index: check "CheckStringIndex idx" for idx
  by unfold_locales (auto simp: CheckStringIndex_def intro!: kept_rules)

interpretation type_index: check "CheckTypeIndex idx" for idx
  by unfold_locales (auto simp: CheckTypeIndex_def intro!: kept_rules)

interpretation new_instance: check "CheckNewInstance idx" for idx
  by unfold_locales (unfold CheckNewInstance_def, intro kept_rules)

interpretation new_array: check "CheckNewArray idx" for idx
  by unfold_locales (unfold CheckNewArray_def, intro kept_rules)

interpretation array_data: check "CheckArrayData c off" for c off
  by unfold_locales (unfold CheckArrayData_def Let_def, intro kept_rules)

interpretation branch_target: check "CheckBranchTarget c off" for c off
  by unfold_locales (unfold CheckBranchTarget_def Let_def, intro kept_rules)

interpretation switch_target_loop: check "check_switch_targets c off k n" for c off k n
proof
  show "kept v (check_switch_targets c off k n v)" for v
    by (induction n arbitrary: k v) (unfold check_switch_targets.simps Let_def, (intro kept_rules, assumption?)+)
qed

interpretation switch_targets: check "CheckSwitchTargets c off" for c off
  by unfold_locales (unfold CheckSwitchTargets_def Let_def, intro kept_rules switch_target_loop.keeps)

interpretation var_arg_regs: check "CheckVarArgRegs c n args" for c n args
  by unfold_locales (unfold CheckVarArgRegs_def, intro kept_rules)

interpretation var_arg_range: check "CheckVarArgRangeRegs c a b" for c a b
  by unfold_locales (unfold CheckVarArgRangeRegs_def, intro kept_rules)

lemmas operand_keeps = register_index.keeps wide_register_index.keeps field_index.keeps method_index.keeps
  string_index.keeps type_index.keeps new_instance.keeps new_array.keeps

interpretation arg_A: check "verify_arg_A c op inst" for c op inst
  by unfold_locales (unfold verify_arg_A_def Let_def, intro kept_rules operand_keeps)

interpretation arg_B: check "verify_arg_B c op inst" for c op inst
  by unfold_locales (unfold verify_arg_B_def Let_def, intro kept_rules operand_keeps)

interpretation arg_C: check "verify_arg_C c op inst" for c op inst
  by unfold_locales (unfold verify_arg_C_def Let_def, intro kept_rules operand_keeps)

text \<open>The switch on the extra flags: an early return or a result so far.\<close>

lemma extra_checks_same:
  assumes "verify_extra c op inst off (b, u) = Some x" and "same_opcodes v u"
  shows "same_opcodes v (case x of Inl w \<Rightarrow> w | Inr (_, w) \<Rightarrow> w)"
proof -
  have f: "same_opcodes v (Fail u)" using assms(2) same_trans same_Fail by blast
  note after = array_data.after branch_target.after switch_targets.after var_arg_regs.after var_arg_range.after
  show ?thesis
    using assms(1) unfolding verify_extra_def Let_def
    by (auto simp: bind_eq_Some_conv f assms(2) dest: after [OF _ assms(2)] split: if_split_asm)
qed

section \<open>Instruction starts\<close>

text \<open>The code units at which an instruction starts when decoding begins at \<open>pc\<close>.\<close>

inductive insn_from :: "CodeItem \<Rightarrow> nat \<Rightarrow> nat \<Rightarrow> bool" for c where
  here: "pc < unat (insns_size_in_code_units c) \<Longrightarrow> insn_from c pc pc"
| later: "pc < unat (insns_size_in_code_units c) \<Longrightarrow> SizeInCodeUnits (code_units c) pc = Some n \<Longrightarrow>
    insn_from c (pc + n) q \<Longrightarrow> insn_from c pc q"

inductive_simps insn_from_unfold: "insn_from c pc q"

abbreviation insn_start :: "CodeItem \<Rightarrow> nat \<Rightarrow> bool" where
  "insn_start c \<equiv> insn_from c 0"

lemma insn_from_less: "insn_from c pc q \<Longrightarrow> pc \<le> q \<and> q < unat (insns_size_in_code_units c)"
  by (induction rule: insn_from.induct) auto

lemma insn_from_next:
  "insn_from c pc q \<Longrightarrow> SizeInCodeUnits (code_units c) q = Some n \<Longrightarrow> q + n < unat (insns_size_in_code_units c) \<Longrightarrow>
     insn_from c pc (q + n)"
  by (induction rule: insn_from.induct) (auto intro: insn_from.intros)

lemma insn_from_trans: "insn_from c p q \<Longrightarrow> insn_from c q r \<Longrightarrow> insn_from c p r"
  by (induction rule: insn_from.induct) (auto intro: insn_from.intros)

section \<open>Widths\<close>

lemma count_op_flags:
  "count_op op (v, news, monitors) = (v', s) \<Longrightarrow> insn_flags v' = insn_flags v \<and> dex_file v' = dex_file v"
  by (auto simp: count_op_def split: if_splits)

lemma width_step_effect:
  assumes "width_step insns pc pc t = Some (inst', pc', t')" and "pc < 2 ^ 31"
  shows "\<exists>n. SizeInCodeUnits insns pc = Some n \<and> pc' = pc + n \<and> dex_file (fst t') = dex_file (fst t)
    \<and> length (insn_flags (fst t')) = length (insn_flags (fst t))
    \<and> (\<forall>q. opcode_at (fst t') q \<longleftrightarrow> opcode_at (fst t) q \<or> q = pc) \<and> (n < 2 ^ 31 \<longrightarrow> inst' = pc')
    \<and> (\<forall>q. started (fst t') q = started (fst t) q)"
proof -
  obtain v news monitors where t: "t = (v, news, monitors)" by (cases t)
  from assms(1) obtain op where "Opcode insns pc = Some op" by (auto simp: width_step_def bind_eq_Some_conv)
  moreover obtain u a b where cop: "count_op op t = (u, a, b)" by (cases "count_op op t")
  ultimately obtain n v' where n: "SizeInCodeUnits insns pc = Some n"
    and upd: "update_flags SetIsOpcode pc u = Some v'" and rel: "RelativeAt pc (word_of_nat n) = Some inst'"
    and pc': "pc' = pc + n" and t': "t' = (v', a, b)"
    using assms(1) by (auto simp: width_step_def bind_eq_Some_conv)
  from count_op_flags [of op v news monitors u "(a, b)"] cop t
  have u: "insn_flags u = insn_flags v" "dex_file u = dex_file v" by simp_all
  from upd have p: "pc < length (insn_flags u)" and v': "v' = u\<lparr>insn_flags := (insn_flags u)[pc := SetIsOpcode (insn_flags u ! pc)]\<rparr>"
    by (auto simp: update_flags_def flags_at_def bind_eq_Some_conv split: if_splits)
  have "(opcode_at v' q \<longleftrightarrow> opcode_at v q \<or> q = pc) \<and> started v' q = started v q" for q
    using p u by (cases "q = pc") (simp_all add: opcode_at_def started_def v')
  moreover have "n < 2 ^ 31 \<longrightarrow> inst' = pc'" using rel RelativeAt_forward [of n pc] pc' by simp
  ultimately show ?thesis using n pc' u v' t t' by auto
qed

lemma width_loop_step:
  assumes "width_loop insns N inst pc t = Some (end_pc, t')" and "pc < N"
  shows "\<exists>inst1 pc1 t1. width_step insns inst pc t = Some (inst1, pc1, t1)
    \<and> width_loop insns N inst1 pc1 t1 = Some (end_pc, t')"
  using assms by (subst (asm) width_loop.simps) (auto split: option.splits prod.splits)

lemma width_loop_end: "width_loop insns N inst pc t = Some (end_pc, t') \<Longrightarrow> pc \<le> end_pc"
proof (induction insns N inst pc t rule: width_loop.induct)
  case (1 insns N inst pc t)
  show ?case
  proof (cases "pc < N")
    case True
    from width_loop_step [OF "1.prems" True] obtain inst1 pc1 t1
      where "width_step insns inst pc t = Some (inst1, pc1, t1)" "width_loop insns N inst1 pc1 t1 = Some (end_pc, t')"
      by blast
    with "1.IH" [OF True, of "(inst1, pc1, t1)" inst1 "(pc1, t1)" pc1 t1] width_step_progress [of insns inst pc t inst1 pc1 t1]
    show ?thesis by simp
  next
    case False
    with "1.prems" show ?thesis by (simp add: width_loop.simps)
  qed
qed

lemma width_loop_starts:
  assumes "width_loop (code_units c) (unat (insns_size_in_code_units c)) inst pc t = Some (unat (insns_size_in_code_units c), t')"
    and "unat (insns_size_in_code_units c) < 2 ^ 31" and "pc < unat (insns_size_in_code_units c) \<longrightarrow> inst = pc"
  shows "length (insn_flags (fst t')) = length (insn_flags (fst t)) \<and> dex_file (fst t') = dex_file (fst t)
    \<and> (\<forall>q. opcode_at (fst t') q \<longleftrightarrow> opcode_at (fst t) q \<or> insn_from c pc q) \<and> (\<forall>q. started (fst t') q = started (fst t) q)
    \<and> (\<forall>q. insn_from c pc q \<longrightarrow> (\<exists>n. SizeInCodeUnits (code_units c) q = Some n
         \<and> q + n \<le> unat (insns_size_in_code_units c)))"
  using assms
proof (induction "code_units c" "unat (insns_size_in_code_units c)" inst pc t rule: width_loop.induct)
  case (1 inst pc t)
  let ?size = "unat (insns_size_in_code_units c)"
  show ?case
  proof (cases "pc < ?size")
    case False
    with "1.prems"(1) have "t' = t" by (simp add: width_loop.simps)
    moreover have "\<not> insn_from c pc q" for q using False insn_from_less [of c pc q] by auto
    ultimately show ?thesis by simp
  next
    case True
    with "1.prems"(3) have inst: "inst = pc" by simp
    from width_loop_step [OF "1.prems"(1) True] obtain inst1 pc1 t1
      where step: "width_step (code_units c) pc pc t = Some (inst1, pc1, t1)"
        and rest: "width_loop (code_units c) ?size inst1 pc1 t1 = Some (?size, t')"
      by (auto simp: inst)
    obtain n where n: "SizeInCodeUnits (code_units c) pc = Some n" "pc1 = pc + n" "dex_file (fst t1) = dex_file (fst t)"
      "length (insn_flags (fst t1)) = length (insn_flags (fst t))"
      "\<forall>q. opcode_at (fst t1) q \<longleftrightarrow> opcode_at (fst t) q \<or> q = pc" "n < 2 ^ 31 \<longrightarrow> inst1 = pc1"
      "\<forall>q. started (fst t1) q = started (fst t) q"
      using width_step_effect [OF step] True "1.prems"(2) by auto
    have "pc1 < ?size \<longrightarrow> inst1 = pc1" using n(2,6) "1.prems"(2) by simp
    with "1.hyps" [OF True, of "(inst1, pc1, t1)" inst1 "(pc1, t1)" pc1 t1] step rest "1.prems"(2)
    have IH: "length (insn_flags (fst t')) = length (insn_flags (fst t1)) \<and> dex_file (fst t') = dex_file (fst t1)
      \<and> (\<forall>q. opcode_at (fst t') q \<longleftrightarrow> opcode_at (fst t1) q \<or> insn_from c pc1 q) \<and> (\<forall>q. started (fst t') q = started (fst t1) q)
      \<and> (\<forall>q. insn_from c pc1 q \<longrightarrow> (\<exists>n. SizeInCodeUnits (code_units c) q = Some n \<and> q + n \<le> ?size))"
      by (simp add: inst)
    have unf: "insn_from c pc q \<longleftrightarrow> q = pc \<or> insn_from c pc1 q" for q
      using True n(1,2) by (subst insn_from_unfold) auto
    show ?thesis
      using IH n width_loop_end [OF rest] by (auto simp: unf)
  qed
qed

lemma width_pass_starts:
  assumes "ComputeWidthsAndCountOps c v = Some (True, v')"
    and "insn_flags v = replicate (unat (insns_size_in_code_units c)) 0" and "unat (insns_size_in_code_units c) < 2 ^ 31"
  shows "length (insn_flags v') = unat (insns_size_in_code_units c) \<and> dex_file v' = dex_file v
    \<and> (\<forall>pc. opcode_at v' pc \<longleftrightarrow> insn_start c pc) \<and> (\<forall>pc. \<not> started v' pc)
    \<and> (\<forall>pc. insn_start c pc \<longrightarrow> (\<exists>n. SizeInCodeUnits (code_units c) pc = Some n
         \<and> pc + n \<le> unat (insns_size_in_code_units c)))"
proof -
  let ?size = "unat (insns_size_in_code_units c)"
  from assms(1) obtain u news monitors where
    loop: "width_loop (code_units c) ?size 0 0 (v, 0, 0) = Some (?size, u, news, monitors)"
    and v': "v' = u\<lparr>new_instance_count := news, monitor_enter_count := monitors\<rparr>"
    by (auto simp: ComputeWidthsAndCountOps_def Let_def bind_eq_Some_conv split: if_splits)
  have none: "\<not> opcode_at v q" "\<not> started v q" for q
    using assms(2) by (simp_all add: opcode_at_def started_def IsVisitedOrChanged_def IsVisited_def IsChanged_def IsOpcode_def HasFlag_def)
  have "opcode_at v' q = opcode_at u q" "started v' q = started u q" for q by (simp_all add: v' opcode_at_def started_def)
  with width_loop_starts [OF loop assms(3)] none show ?thesis
    using assms(2) by (simp add: v')
qed

interpretation instruction: check "VerifyInstruction c inst off" for c inst off
proof
  fix v
  show "kept v (VerifyInstruction c inst off v)"
  proof (unfold VerifyInstruction_def, intro kept_bind)
    fix op r x
    assume r: "and_also (and_also (verify_arg_A c op inst v) (verify_arg_B c op inst)) (verify_arg_C c op inst) = Some r"
      and x: "verify_extra c op inst off r = Some x"
    have "kept v (and_also (and_also (verify_arg_A c op inst v) (verify_arg_B c op inst)) (verify_arg_C c op inst))"
      by (intro kept_and_also arg_A.keeps arg_B.keeps arg_C.keeps)
    with r have "same_opcodes v (snd r)" by (cases r) (simp add: kept_def)
    with x have "same_opcodes v (case x of Inl w \<Rightarrow> w | Inr (_, w) \<Rightarrow> w)"
      by (cases r) (simp add: extra_checks_same)
    then show "kept v (case x of Inl v \<Rightarrow> Some (False, v)
      | Inr (result, v) \<Rightarrow> if GetVerifyIsRuntimeOnly op \<and> is_aot_compiler v \<and> \<not> verify_to_dump v then fail v else Some (result, v))"
      by (auto simp: kept_def split: sum.splits if_splits intro: same_trans)
  qed
qed

section \<open>The try blocks keep the opcode flags\<close>

lemma mark_try_same:
  assumes "mark_try insns end_pc pc inst v = Some v'"
  shows "same_opcodes v v'"
proof (rule mark_try.raw_induct [OF _ assms, of "\<lambda>insns end_pc pc inst v v'. same_opcodes v v'"])
  fix rec insns end_pc pc inst v v'
  assume IH: "\<And>insns end_pc pc inst v v'. rec insns end_pc pc inst v = Some v' \<Longrightarrow> same_opcodes v v'"
    and run: "(if pc < end_pc
      then do {
        v \<leftarrow> update_flags SetInTry (unat pc) v;
        insn_size \<leftarrow> SizeInCodeUnits insns inst;
        inst \<leftarrow> RelativeAt inst (word_of_nat insn_size);
        rec insns end_pc (pc + word_of_nat insn_size) inst v
      }
      else Some v) = Some v'"
  show "same_opcodes v v'"
  proof (cases "pc < end_pc")
    case True
    with run obtain u n inst' where u: "update_flags SetInTry (unat pc) v = Some u"
      and rest: "rec insns end_pc (pc + word_of_nat n) inst' u = Some v'"
      by (auto simp: bind_eq_Some_conv)
    from u have "same_opcodes v u" by (rule update_same) simp
    with IH [OF rest] show ?thesis by (rule same_trans [rotated])
  next
    case False
    with run show ?thesis by simp
  qed
qed

interpretation try_block: check "scan_try c t" for c t
proof
  show "kept v (scan_try c t v)" for v
    unfolding scan_try_def Let_def
    by (intro kept_rules) (auto intro: kept_from mark_try_same kept_pass)
qed

interpretation try_blocks: check "scan_tries c idx n" for c idx n
proof
  show "kept v (scan_tries c idx n v)" for v
    by (induction n arbitrary: idx v)
      (unfold scan_tries.simps, (intro kept_rules try_block.keeps | assumption)+)
qed

interpretation not_move_result: check "CheckNotMoveResult c pc" for c pc
  by unfold_locales (unfold CheckNotMoveResult_def, intro kept_rules)

interpretation handler: check "scan_handler c pc" for c pc
  by unfold_locales (unfold scan_handler_def, intro kept_then kept_rules not_move_result.keeps)

lemma scan_handler_list_same: "scan_handler_list c it v = Some (b, v', it') \<Longrightarrow> same_opcodes v v'"
proof (induction c it v rule: scan_handler_list.induct)
  case (1 c it v)
  show ?case
  proof (cases "chi_HasNext it")
    case True
    with "1.prems" obtain ok u where u: "scan_handler c (handler_address it) v = Some (ok, u)"
      by (subst (asm) scan_handler_list.simps) (auto split: option.splits)
    then have vu: "same_opcodes v u" by (rule handler.same)
    show ?thesis
    proof (cases ok)
      case True
      with "1.prems" \<open>chi_HasNext it\<close> u obtain it1 where n: "chi_Next (begin_of (dex_file u)) it = Some it1"
        and rest: "scan_handler_list c it1 u = Some (b, v', it')"
        by (subst (asm) scan_handler_list.simps) (auto split: option.splits)
      from "1.IH" [OF \<open>chi_HasNext it\<close> u refl _ n rest] True vu show ?thesis by (auto intro: same_trans)
    next
      case False
      with "1.prems" \<open>chi_HasNext it\<close> u vu show ?thesis
        by (subst (asm) scan_handler_list.simps) simp
    qed
  next
    case False
    with "1.prems" show ?thesis by (subst (asm) scan_handler_list.simps) simp
  qed
qed

interpretation handler_lists: check "scan_handler_lists c n p" for c n p
proof
  show "kept v (scan_handler_lists c n p v)" for v
  proof (induction n arbitrary: p v)
    case 0
    then show ?case by (simp add: kept_pass)
  next
    case (Suc n)
    show ?case
      unfolding scan_handler_lists.simps
    proof (intro kept_bind)
      fix it x
      assume "scan_handler_list c it v = Some x"
      moreover obtain ok u it' where x: "x = (ok, u, it')" by (cases x)
      ultimately have "same_opcodes v u" using scan_handler_list_same by simp
      moreover have "kept u (if \<not> ok then Some (False, u) else chi_EndDataPointer it' \<bind> (\<lambda>p. scan_handler_lists c n p u))"
        by (intro kept_rules Suc.IH)
      ultimately show "kept v (case x of (ok, v, it) \<Rightarrow>
          if \<not> ok then Some (False, v) else chi_EndDataPointer it \<bind> (\<lambda>p. scan_handler_lists c n p v))"
        unfolding x prod.case by (rule kept_from)
    qed
  qed
qed

interpretation try_catch: check "ScanTryCatchBlocks c" for c
  by unfold_locales
    (unfold ScanTryCatchBlocks_def, intro kept_rules try_blocks.keeps handler_lists.keeps)

section \<open>The marks of the try blocks\<close>

lemma insn_from_between: "insn_from c p q \<Longrightarrow> insn_from c p r \<Longrightarrow> q \<le> r \<Longrightarrow> insn_from c q r"
proof (induction rule: insn_from.induct)
  case (later p n q)
  from later.prems(1) consider "r = p" | "insn_from c (p + n) r"
    using later.hyps(2) by (subst (asm) insn_from_unfold) auto
  then show ?case
  proof cases
    case 1
    with insn_from_less [OF later.hyps(3)] SizeInCodeUnits_pos [OF later.hyps(2)] later.prems(2) show ?thesis by simp
  next
    case 2
    with later show ?thesis by simp
  qed
qed

lemma update_SetInTry: "update_flags SetInTry pc v = Some u \<Longrightarrow> in_try u pc"
  by (auto simp: update_flags_def flags_at_def bind_eq_Some_conv in_try_def split: if_splits)

lemma mark_try_step:
  assumes "mark_try insns e pc inst v = Some v'" and "pc < e"
  obtains u n inst' where "update_flags SetInTry (unat pc) v = Some u" and "SizeInCodeUnits insns inst = Some n"
    and "RelativeAt inst (word_of_nat n) = Some inst'" and "mark_try insns e (pc + word_of_nat n) inst' u = Some v'"
  using assms by (subst (asm) mark_try.simps) (auto simp: bind_eq_Some_conv)

lemma mark_try_marks:
  assumes "insn_from c pc q" and "mark_try (code_units c) e (word_of_nat pc) pc v = Some v'"
    and "unat (insns_size_in_code_units c) < 2 ^ 31" and "q < unat e"
  shows "in_try v' q"
  using assms
proof (induction arbitrary: v rule: insn_from.induct)
  case (here pc)
  then have w: "unat (word_of_nat pc :: u32) = pc" by (simp add: unat_word_of_nat_u32)
  with here have "word_of_nat pc < e" by (simp add: word_less_nat_alt)
  then obtain u n inst' where u: "update_flags SetInTry pc v = Some u"
    and rest: "mark_try (code_units c) e (word_of_nat pc + word_of_nat n) inst' u = Some v'"
    by (rule mark_try_step [OF here.prems(1), unfolded w])
  from update_SetInTry [OF u] mark_try_same [OF rest] show ?case by (simp add: same_opcodes_def)
next
  case (later pc n q)
  have q: "pc + n \<le> q" "q < unat (insns_size_in_code_units c)" using insn_from_less [OF later.hyps(3)] by simp_all
  with later.prems have w: "unat (word_of_nat pc :: u32) = pc" by (simp add: unat_word_of_nat_u32)
  with q later.prems have "word_of_nat pc < e" by (simp add: word_less_nat_alt)
  then obtain u m inst' where m: "SizeInCodeUnits (code_units c) pc = Some m" "RelativeAt pc (word_of_nat m) = Some inst'"
    and rest: "mark_try (code_units c) e (word_of_nat pc + word_of_nat m) inst' u = Some v'"
    by (rule mark_try_step [OF later.prems(1)])
  from m(1) later.hyps(2) have "m = n" by simp
  moreover have "n < 2 ^ 31" using q later.prems(2) by simp
  ultimately have "inst' = pc + n" using m(2) RelativeAt_forward [of n pc] by simp
  with rest \<open>m = n\<close> have "mark_try (code_units c) e (word_of_nat (pc + n)) (pc + n) u = Some v'" by simp
  then show ?case using later.IH later.prems by blast
qed

definition covers :: "TryItem \<Rightarrow> u32 \<Rightarrow> bool" where
  "covers t a \<longleftrightarrow> start_addr t \<le> a \<and> a < start_addr t + ucast (insn_count t)"

lemma scan_try_marks:
  assumes "scan_try c t v = Some (True, v')" and "\<forall>pc. opcode_at v pc \<longleftrightarrow> insn_start c pc"
    and "unat (insns_size_in_code_units c) < 2 ^ 31" and "insn_start c pc" and "covers t (word_of_nat pc)"
  shows "in_try v' pc"
proof -
  from assms(1) have start: "opcode_at v (unat (start_addr t))"
    and mark: "mark_try (code_units c) (start_addr t + ucast (insn_count t)) (start_addr t) (unat (start_addr t)) v = Some v'"
    by (auto simp: scan_try_def Let_def flags_at_def opcode_at_def bind_eq_Some_conv split: if_splits)
  have w: "unat (word_of_nat pc :: u32) = pc" using insn_from_less [OF assms(4)] assms(3) by (simp add: unat_word_of_nat_u32)
  with assms(5) have "unat (start_addr t) \<le> pc" "pc < unat (start_addr t + ucast (insn_count t))"
    by (simp_all add: covers_def word_le_nat_alt word_less_nat_alt)
  moreover from this start assms(2,4) have "insn_from c (unat (start_addr t)) pc" using insn_from_between by blast
  ultimately show ?thesis using mark_try_marks [OF _ _ assms(3), of "unat (start_addr t)" pc] mark by simp
qed

lemma scan_tries_marks:
  assumes "scan_tries c idx n v = Some (True, v')" and "\<forall>pc. opcode_at v pc \<longleftrightarrow> insn_start c pc"
    and "unat (insns_size_in_code_units c) < 2 ^ 31" and "insn_start c pc"
    and "i < n" and "GetTryItems (dex_file v) (code_item_ptr c) (idx + i) \<bind> read_TryItem (dex_file v) = Some t"
    and "covers t (word_of_nat pc)"
  shows "in_try v' pc"
  using assms
proof (induction n arbitrary: idx i v)
  case (Suc n)
  from Suc.prems(1) obtain p t' u where t': "GetTryItems (dex_file v) (code_item_ptr c) idx = Some p" "read_TryItem (dex_file v) p = Some t'"
    and one: "scan_try c t' v = Some (True, u)" and rest: "scan_tries c (Suc idx) n u = Some (True, v')"
    by (auto simp: bind_eq_Some_conv and_also_True)
  note same = try_block.same [OF one]
  show ?case
  proof (cases i)
    case 0
    with Suc.prems(6) t' have "t' = t" by simp
    with scan_try_marks [OF one Suc.prems(2-4)] Suc.prems(7) have "in_try u pc" by simp
    with try_blocks.same [OF rest] show ?thesis by (simp add: same_opcodes_def)
  next
    case (Suc j)
    with same Suc.prems show ?thesis
      by (intro Suc.IH [OF rest, of j]) (auto simp: same_opcodes_def)
  qed
qed simp

lemma FindTryItem_loop_covers:
  "FindTryItem_loop d p a mn mx = Some r \<Longrightarrow> 0 \<le> mn \<Longrightarrow>
     r = -1 \<or> (\<exists>t. 0 \<le> r \<and> r \<le> mx \<and> GetTryItems d p (nat r) \<bind> read_TryItem d = Some t \<and> covers t a)"
proof (induction d p a mn mx rule: FindTryItem_loop.induct)
  case (1 d p a mn mx)
  let ?mid = "mn + (mx - mn) div 2"
  show ?case
  proof (cases "mn \<le> mx")
    case True
    then obtain t where t: "GetTryItems d p (nat ?mid) \<bind> read_TryItem d = Some t"
      using "1.prems"(1) by (subst (asm) FindTryItem_loop.simps) (auto simp: Let_def split: option.splits)
    have mid: "mn \<le> ?mid" "?mid \<le> mx" using True by auto
    note IH = "1.IH" [OF True refl t refl refl]
    have loop: "FindTryItem_loop d p a mn mx =
        (if a < start_addr t then FindTryItem_loop d p a mn (?mid - 1)
         else if a \<ge> start_addr t + ucast (insn_count t) then FindTryItem_loop d p a (?mid + 1) mx else Some ?mid)"
      using True t by (subst FindTryItem_loop.simps) (simp add: Let_def)
    consider "a < start_addr t" | "\<not> a < start_addr t" "a \<ge> start_addr t + ucast (insn_count t)" | "covers t a"
      unfolding covers_def using leI by blast
    then show ?thesis
    proof cases
      case 1
      with loop "1.prems"(1) have "FindTryItem_loop d p a mn (?mid - 1) = Some r" by simp
      from IH(1) [OF 1 this "1.prems"(2)] mid(2) show ?thesis by auto
    next
      case 2
      with loop "1.prems"(1) have "FindTryItem_loop d p a (?mid + 1) mx = Some r" by simp
      from IH(2) [OF 2 this] "1.prems"(2) mid(1) show ?thesis by simp
    next
      case 3
      with loop "1.prems"(1) have "r = ?mid" by (simp add: covers_def not_le [symmetric])
      with t mid "1.prems"(2) 3 show ?thesis by auto
    qed
  next
    case False
    with "1.prems"(1) show ?thesis by (simp add: FindTryItem_loop.simps)
  qed
qed

lemma FindCatchHandlerOffset_covers:
  assumes "FindCatchHandlerOffset d p a = Some off" and "code_tries_size d p = Some n"
  shows "off = -1 \<or> (\<exists>i t. i < unat n \<and> GetTryItems d p i \<bind> read_TryItem d = Some t \<and> covers t a)"
proof -
  from assms obtain r where r: "FindTryItem_loop d p a 0 (int (unat n) - 1) = Some r" "r = -1 \<longrightarrow> off = -1"
    by (auto simp: FindCatchHandlerOffset_def FindTryItem_def bind_eq_Some_conv split: if_splits)
  from FindTryItem_loop_covers [OF r(1)] r(2) show ?thesis by (auto simp: nat_less_iff intro!: exI [of _ "nat r"])
qed

lemma handlers_covered:
  assumes "make_CatchHandlerIterator g d p a = Some it" and "chi_HasNext it"
  shows "\<exists>n i t. code_tries_size d p = Some n \<and> i < unat n \<and> GetTryItems d p i \<bind> read_TryItem d = Some t \<and> covers t a"
proof -
  from assms(1) obtain n where n: "code_tries_size d p = Some n"
    by (auto simp: make_CatchHandlerIterator_def bind_eq_Some_conv)
  consider "n = 0" | "n = 1" | "n \<noteq> 0" "n \<noteq> 1" by blast
  then show ?thesis
  proof cases
    case 1
    with assms n show ?thesis
      by (auto simp: make_CatchHandlerIterator_def chi_Init_def chi_HasNext_def empty_handlers_def)
  next
    case 2
    with assms n show ?thesis
      by (intro exI [of _ n] exI [of _ 0])
        (auto simp: make_CatchHandlerIterator_def chi_Init_def chi_HasNext_def empty_handlers_def covers_def bind_eq_Some_conv Let_def
          split: if_splits)
  next
    case 3
    with assms(1) n obtain off where off: "FindCatchHandlerOffset d p a = Some off"
      and it: "chi_Init d p off (empty_handlers g) = Some it"
      by (auto simp: make_CatchHandlerIterator_def bind_eq_Some_conv)
    with assms(2) have "off \<noteq> -1" by (auto simp: chi_Init_def chi_HasNext_def empty_handlers_def)
    with FindCatchHandlerOffset_covers [OF off n] n show ?thesis by blast
  qed
qed

section \<open>Accepted code\<close>

lemma mark_instruction_same: "mark_instruction c inst pc v = Some v' \<Longrightarrow> same_opcodes v v'"
proof -
  have m: "same_opcodes v u" if "update_flags SetCompileTimeInfoPoint k v = Some u" for v u k
    using that by (rule update_same) simp
  have r: "same_opcodes v u" if "update_flags SetCompileTimeInfoPointAndReturn k v = Some u" for v u k
    using that by (rule update_same) simp
  assume "mark_instruction c inst pc v = Some v'"
  then show ?thesis
    by (auto simp: mark_instruction_def bind_eq_Some_conv Let_def split: if_splits dest!: m r intro: same_trans)
qed

lemma verify_loop_step:
  assumes "verify_loop c inst pc v = Some (True, v')" and "pc < insns_size_in_code_units c"
  obtains u w n inst' where "VerifyInstruction c inst pc v = Some (True, u)" and "same_opcodes v w"
    and "SizeInCodeUnits (code_units c) inst = Some n" and "Next (code_units c) inst = Some inst'"
    and "verify_loop c inst' (pc + word_of_nat n) w = Some (True, v')"
proof -
  from assms obtain u w n inst' where 1: "VerifyInstruction c inst pc v = Some (True, u)"
    and w: "mark_instruction c inst pc u = Some w"
    and 2: "SizeInCodeUnits (code_units c) inst = Some n" "Next (code_units c) inst = Some inst'"
      "verify_loop c inst' (pc + word_of_nat n) w = Some (True, v')"
    by (subst (asm) verify_loop.simps) (auto simp: bind_eq_Some_conv split: if_splits)
  from instruction.same [OF 1] mark_instruction_same [OF w] have "same_opcodes v w" by (rule same_trans)
  with 1 2 that show thesis by blast
qed

lemma verify_loop_instructions:
  assumes "insn_from c pc q" and "verify_loop c pc (word_of_nat pc) v = Some (True, v')"
    and "unat (insns_size_in_code_units c) < 2 ^ 31"
  shows "\<exists>u u'. same_opcodes v u \<and> VerifyInstruction c q (word_of_nat q) u = Some (True, u')"
  using assms
proof (induction arbitrary: v rule: insn_from.induct)
  case (here pc)
  from here.hyps have lt: "word_of_nat pc < insns_size_in_code_units c"
    using unat_u32_less [of "insns_size_in_code_units c"] by (simp add: word_less_nat_alt unat_word_of_nat_u32)
  show ?case
  proof (rule verify_loop_step [OF here.prems(1) lt])
    fix u
    assume "VerifyInstruction c pc (word_of_nat pc) v = Some (True, u)"
    then show ?thesis by (intro exI [of _ v] exI [of _ u]) simp
  qed
next
  case (later pc n q)
  from later.hyps(1) have lt: "word_of_nat pc < insns_size_in_code_units c"
    using unat_u32_less [of "insns_size_in_code_units c"] by (simp add: word_less_nat_alt unat_word_of_nat_u32)
  obtain u w m inst' where "VerifyInstruction c pc (word_of_nat pc) v = Some (True, u)" and w: "same_opcodes v w"
    and m: "SizeInCodeUnits (code_units c) pc = Some m" and nxt: "Next (code_units c) pc = Some inst'"
    and loop: "verify_loop c inst' (word_of_nat pc + word_of_nat m) w = Some (True, v')"
    by (rule verify_loop_step [OF later.prems(1) lt])
  from m later.hyps(2) have mn: "m = n" by simp
  have "n < 2 ^ 31" using insn_from_less [OF later.hyps(3)] later.prems(2) by simp
  then have "inst' = pc + n" using nxt later.hyps(2) RelativeAt_forward [of n pc] by (simp add: Next_def)
  with loop mn have "verify_loop c (pc + n) (word_of_nat (pc + n)) w = Some (True, v')" by simp
  from later.IH [OF this later.prems(2)] w show ?case using same_trans by blast
qed

text \<open>What the three passes together establish.\<close>

lemma verify_loop_same:
  assumes "verify_loop c inst pc v = Some (b, v')"
  shows "same_opcodes v v'"
proof (rule verify_loop.raw_induct [OF _ assms, of "\<lambda>c inst pc v r. same_opcodes v (snd r)", simplified])
  fix rec c inst pc v r
  assume IH: "\<And>c inst pc v r. rec c inst pc v = Some r \<Longrightarrow> same_opcodes v (snd r)"
    and run: "(if pc < insns_size_in_code_units c
      then do {
        (ok, v) \<leftarrow> VerifyInstruction c inst pc v;
        (if \<not> ok then Some (False, v)
         else do {
           v \<leftarrow> mark_instruction c inst pc v;
           n \<leftarrow> SizeInCodeUnits (code_units c) inst;
           inst \<leftarrow> Next (code_units c) inst;
           rec c inst (pc + word_of_nat n) v
         })
      }
      else Some (True, v)) = Some r"
  show "same_opcodes v (snd r)"
  proof (cases "pc < insns_size_in_code_units c")
    case True
    with run obtain ok u where u: "VerifyInstruction c inst pc v = Some (ok, u)" by (auto simp: bind_eq_Some_conv)
    note vu = instruction.same [OF u]
    show ?thesis
    proof (cases ok)
      case True
      with run u \<open>pc < insns_size_in_code_units c\<close> obtain w n inst' where m: "mark_instruction c inst pc u = Some w"
        and rest: "rec c inst' (pc + word_of_nat n) w = Some r"
        by (auto simp: bind_eq_Some_conv)
      show ?thesis by (rule same_trans [OF vu same_trans [OF mark_instruction_same [OF m] IH [OF rest]]])
    next
      case False
      with run u vu \<open>pc < insns_size_in_code_units c\<close> show ?thesis by auto
    qed
  next
    case False
    with run show ?thesis by auto
  qed
qed

lemma Verify_stages:
  assumes "Verify v = Some (True, v')" and "code_item v = Some c" and "unat (insns_size_in_code_units c) < 2 ^ 31"
  obtains v1 v2 b where "\<forall>pc. opcode_at v1 pc \<longleftrightarrow> insn_start c pc" and "dex_file v1 = dex_file v" and "\<forall>pc. \<not> started v1 pc"
    and "\<forall>pc. insn_start c pc \<longrightarrow> (\<exists>n. SizeInCodeUnits (code_units c) pc = Some n \<and> pc + n \<le> unat (insns_size_in_code_units c))"
    and "length (insn_flags v1) = unat (insns_size_in_code_units c)"
    and "ScanTryCatchBlocks c v1 = Some (True, v2)" and "same_opcodes v1 v2" and "same_opcodes v2 b"
    and "verify_loop c 0 0 b = Some (True, v')" and "same_opcodes b v'"
proof -
  let ?v = "v\<lparr>insn_flags := replicate (unat (insns_size_in_code_units c)) 0\<rparr>"
  from assms(1,2) obtain v1 v2 where 1: "ComputeWidthsAndCountOps c ?v = Some (True, v1)"
    and 2: "ScanTryCatchBlocks c v1 = Some (True, v2)" and 3: "VerifyInstructions c v2 = Some (True, v')"
    by (auto simp: Verify_def Let_def and_also_True split: if_splits)
  note w = width_pass_starts [OF 1 _ assms(3), simplified]
  from 3 obtain a b where a: "update_flags SetBranchTarget 0 v2 = Some a" and b: "update_flags SetCompileTimeInfoPoint 0 a = Some b"
    and loop: "verify_loop c 0 0 b = Some (True, v')"
    by (auto simp: VerifyInstructions_def bind_eq_Some_conv)
  from a have "same_opcodes v2 a" by (rule update_same) simp
  moreover from b have "same_opcodes a b" by (rule update_same) simp
  ultimately have "same_opcodes v2 b" using same_trans by blast
  with w 2 loop try_catch.same [OF 2] verify_loop_same [OF loop] show thesis by (intro that [of v1 v2 b]) simp_all
qed

lemma Verify_accepts:
  assumes "Verify v = Some (True, v')" and "code_item v = Some c" and "unat (insns_size_in_code_units c) < 2 ^ 31"
    and "insn_start c pc"
  shows "\<exists>u u'. VerifyInstruction c pc (word_of_nat pc) u = Some (True, u') \<and> (\<forall>t. opcode_at u t \<longleftrightarrow> insn_start c t)
    \<and> (\<exists>n. SizeInCodeUnits (code_units c) pc = Some n \<and> pc + n \<le> unat (insns_size_in_code_units c))"
proof (rule Verify_stages [OF assms(1-3)])
  fix v1 v2 b
  assume v: "\<forall>pc. opcode_at v1 pc \<longleftrightarrow> insn_start c pc" "same_opcodes v1 v2" "same_opcodes v2 b" "verify_loop c 0 0 b = Some (True, v')"
    and size: "\<forall>pc. insn_start c pc \<longrightarrow> (\<exists>n. SizeInCodeUnits (code_units c) pc = Some n \<and> pc + n \<le> unat (insns_size_in_code_units c))"
  obtain u u' where "same_opcodes b u" "VerifyInstruction c pc (word_of_nat pc) u = Some (True, u')"
    using verify_loop_instructions [OF assms(4) _ assms(3)] v(4) by fastforce
  with v size assms(4) show ?thesis by (auto simp: same_opcodes_def)
qed

text \<open>The flags after the static pass.\<close>

lemma Verify_flags:
  assumes "Verify v = Some (True, v')" and "code_item v = Some c" and "unat (insns_size_in_code_units c) < 2 ^ 31"
  shows "length (insn_flags v') = unat (insns_size_in_code_units c) \<and> dex_file v' = dex_file v
    \<and> (\<forall>pc. opcode_at v' pc \<longleftrightarrow> insn_start c pc) \<and> (\<forall>pc. \<not> started v' pc)"
  by (rule Verify_stages [OF assms]) (auto simp: same_opcodes_def)

text \<open>An instruction for which a catch handler is found carries the mark of a \<open>try\<close> block.\<close>

lemma Verify_marks_tries:
  assumes "Verify v = Some (True, v')" and "code_item v = Some c" and "unat (insns_size_in_code_units c) < 2 ^ 31"
    and "code_tries_size (dex_file v) (code_item_ptr c) = Some (tries_size c)"
    and "insn_start c pc" and "make_CatchHandlerIterator g (dex_file v) (code_item_ptr c) (word_of_nat pc) = Some it" and "chi_HasNext it"
  shows "in_try v' pc"
proof (rule Verify_stages [OF assms(1-3)])
  fix v1 v2 b
  assume v: "\<forall>pc. opcode_at v1 pc \<longleftrightarrow> insn_start c pc" "dex_file v1 = dex_file v" "ScanTryCatchBlocks c v1 = Some (True, v2)"
    "same_opcodes v2 b" "same_opcodes b v'"
  from handlers_covered [OF assms(6,7)] assms(4) obtain i t where t: "i < unat (tries_size c)"
    "GetTryItems (dex_file v) (code_item_ptr c) i \<bind> read_TryItem (dex_file v) = Some t" "covers t (word_of_nat pc)"
    by auto
  then have "tries_size c \<noteq> 0" by auto
  with v(3) obtain u p q n where u: "scan_tries c 0 (unat (tries_size c)) v1 = Some (True, u)"
    and lists: "scan_handler_lists c n p u = Some (True, v2)"
    by (auto simp: ScanTryCatchBlocks_def and_also_True bind_eq_Some_conv)
  from scan_tries_marks [OF u v(1) assms(3,5) t(1)] t v(2) have "in_try u pc" by simp
  with handler_lists.same [OF lists] v(4,5) show ?thesis by (simp add: same_opcodes_def)
qed

lemma verify_extra_True:
  assumes "verify_extra c op inst off (b, u) = Some (Inr (True, w))"
  shows b
  using assms
  by (auto simp: verify_extra_def Let_def and_also_def bind_eq_Some_conv split: if_split_asm)

lemma VerifyInstruction_True:
  assumes "VerifyInstruction c pc off u = Some (True, u')"
  obtains op r where "Opcode (code_units c) pc = Some op"
    and "and_also (and_also (verify_arg_A c op pc u) (verify_arg_B c op pc)) (verify_arg_C c op pc) = Some r"
    and "verify_extra c op pc off r = Some (Inr (True, u'))"
proof -
  from assms obtain op r x where op: "Opcode (code_units c) pc = Some op"
    and r: "and_also (and_also (verify_arg_A c op pc u) (verify_arg_B c op pc)) (verify_arg_C c op pc) = Some r"
    and x: "verify_extra c op pc off r = Some x"
    and fin: "(case x of Inl v \<Rightarrow> Some (False, v)
      | Inr (result, v) \<Rightarrow> if GetVerifyIsRuntimeOnly op \<and> is_aot_compiler v \<and> \<not> verify_to_dump v then fail v else Some (result, v))
      = Some (True, u')"
    unfolding VerifyInstruction_def bind_eq_Some_conv by blast
  from fin have "x = Inr (True, u')"
    by (cases x) (auto split: if_splits)
  with op r x that show thesis by blast
qed

lemma VerifyInstruction_passes:
  assumes "VerifyInstruction c pc off u = Some (True, u')"
  obtains op u1 u2 u3 where "Opcode (code_units c) pc = Some op" and "verify_arg_A c op pc u = Some (True, u1)"
    and "verify_arg_B c op pc u1 = Some (True, u2)" and "verify_arg_C c op pc u2 = Some (True, u3)"
    and "verify_extra c op pc off (True, u3) = Some (Inr (True, u'))"
proof -
  from assms obtain op r where op: "Opcode (code_units c) pc = Some op"
    and r: "and_also (and_also (verify_arg_A c op pc u) (verify_arg_B c op pc)) (verify_arg_C c op pc) = Some r"
    and x: "verify_extra c op pc off r = Some (Inr (True, u'))"
    by (elim VerifyInstruction_True)
  obtain b u3 where r3: "r = (b, u3)" by (cases r)
  with x have b using verify_extra_True by blast
  with r r3 obtain u1 u2 where "verify_arg_A c op pc u = Some (True, u1)" "verify_arg_B c op pc u1 = Some (True, u2)"
    "verify_arg_C c op pc u2 = Some (True, u3)"
    by (auto simp: and_also_True)
  with op x r3 \<open>b\<close> that show thesis by simp
qed

text \<open>Formats of the opcodes whose register operands are checked, and of the branches.\<close>

definition register_row :: "u8 \<Rightarrow> Format \<Rightarrow> u32 \<Rightarrow> u32 \<Rightarrow> bool" where
  "register_row op format flags vflags \<longleftrightarrow>
     (vflags AND kVerifyRegAWide \<noteq> 0 \<longrightarrow> format \<notin> {k10t, k20t, k30t})
   \<and> (vflags AND kVerifyRegBWide \<noteq> 0 \<longrightarrow> format \<in> {k12x, k22x, k23x, k32x})
   \<and> (vflags AND kVerifyRegCWide \<noteq> 0 \<longrightarrow> format = k23x)
   \<and> (vflags AND kVerifyBranchTarget \<noteq> 0 \<longrightarrow> (op = GOTO \<and> format = k10t) \<or> (op = GOTO_16 \<and> format = k20t)
        \<or> (op = GOTO_32 \<and> format = k30t) \<or> (op \<in> {IF_EQ, IF_NE, IF_LT, IF_GE, IF_GT, IF_LE} \<and> format = k22t)
        \<or> (op \<in> {IF_EQZ, IF_NEZ, IF_LTZ, IF_GEZ, IF_GTZ, IF_LEZ} \<and> format = k21t))
   \<and> (flags AND kBranch \<noteq> 0 \<longrightarrow> vflags AND 0x5FC000 = kVerifyBranchTarget)
   \<and> (flags AND kSwitch \<noteq> 0 \<longrightarrow> vflags AND 0x5FC000 = kVerifySwitchTargets)
   \<and> (format = k35c \<longrightarrow> vflags AND 0x5FC000 \<in> {kVerifyVarArg, kVerifyVarArgNonZero})
   \<and> (format = k3rc \<longrightarrow> vflags AND 0x5FC000 \<in> {kVerifyVarArgRange, kVerifyVarArgRangeNonZero})"

lemma register_rows:
  "list_all (\<lambda>(op, name, format, flags, vflags). register_row op format flags vflags) insn_table"
  unfolding insn_table_def insn_table_lo_def insn_table_hi_def by (simp add: register_row_def)

lemmas opcode_registers = insn_table_all [OF register_rows, unfolded VerifyFlagsOf_def FlagsOf_def]

lemma extra_flags_of:
  "IsBranch op \<Longrightarrow> GetVerifyExtraFlags op = kVerifyBranchTarget"
  "IsSwitch op \<Longrightarrow> GetVerifyExtraFlags op = kVerifySwitchTargets"
  "FormatOf op = k35c \<Longrightarrow> GetVerifyExtraFlags op \<in> {kVerifyVarArg, kVerifyVarArgNonZero}"
  "FormatOf op = k3rc \<Longrightarrow> GetVerifyExtraFlags op \<in> {kVerifyVarArgRange, kVerifyVarArgRangeNonZero}"
  using opcode_registers [of op] by (simp_all add: register_row_def IsBranch_def IsSwitch_def GetVerifyExtraFlags_def)

lemma VRegA_bound:
  assumes "VRegA insns i = Some r" and "Opcode insns i = Some op" and "FormatOf op \<notin> {k10t, k20t, k30t}"
  shows "unat r < 2 ^ 16"
proof -
  have 8: "unat (x :: u8) < 65536" for x using unat_u8_less [of x] by simp
  have 16: "unat (x :: u16) < 65536" for x using unat_u16_less [of x] by simp
  show ?thesis
    using assms 8 16 by (cases "FormatOf op") (auto simp: VRegA_def Opcode_def bind_eq_Some_conv)
qed

lemma VRegB_bound:
  assumes "VRegB insns i = Some r" and "Opcode insns i = Some op" and "FormatOf op \<in> {k12x, k22x, k23x, k32x}"
  shows "unat r < 2 ^ 16"
proof -
  have 8: "unat (x :: u8) < 65536" for x using unat_u8_less [of x] by simp
  have 16: "unat (x :: u16) < 65536" for x using unat_u16_less [of x] by simp
  show ?thesis
    using assms 8 16 by (auto simp: VRegB_def Opcode_def bind_eq_Some_conv)
qed

lemma VRegC_bound:
  assumes "VRegC insns i = Some r" and "Opcode insns i = Some op" and "FormatOf op \<in> {k23x, k3rc}"
  shows "unat r < 2 ^ 16"
proof -
  have 8: "unat (x :: u8) < 65536" for x using unat_u8_less [of x] by simp
  have 16: "unat (x :: u16) < 65536" for x using unat_u16_less [of x] by simp
  show ?thesis
    using assms 8 16 by (auto simp: VRegC_def Opcode_def bind_eq_Some_conv)
qed

lemma CheckRegisterIndex_True: "CheckRegisterIndex c r v = Some (True, w) \<longleftrightarrow> unat r < unat (registers_size c) \<and> w = v"
  by (auto simp: CheckRegisterIndex_def word_le_nat_alt split: if_splits)

lemma CheckWideRegisterIndex_True:
  assumes "CheckWideRegisterIndex c r v = Some (True, w)" and "unat r < 2 ^ 16"
  shows "unat r + 1 < unat (registers_size c)"
proof -
  have "unat (r + 1) = unat r + 1" using assms(2) by (simp add: unat_word_ariths)
  with assms(1) show ?thesis
    by (auto simp: CheckWideRegisterIndex_def word_le_nat_alt split: if_splits)
qed

lemma and_flag: "w AND m = f \<Longrightarrow> w AND f = (f :: u32)"
  by (metis and.left_idem)

lemma arg_A_passes:
  assumes "verify_arg_A c op pc u = Some (True, w)" and "Opcode (code_units c) pc = Some op"
  shows "(GetVerifyTypeArgumentA op = kVerifyRegA \<longrightarrow> (\<exists>r. VRegA (code_units c) pc = Some r \<and> unat r < unat (registers_size c)))
    \<and> (GetVerifyTypeArgumentA op = kVerifyRegAWide \<longrightarrow>
         (\<exists>r. VRegA (code_units c) pc = Some r \<and> unat r + 1 < unat (registers_size c)))"
proof (intro conjI impI)
  assume "GetVerifyTypeArgumentA op = kVerifyRegA"
  with assms(1) show "\<exists>r. VRegA (code_units c) pc = Some r \<and> unat r < unat (registers_size c)"
    by (auto simp: verify_arg_A_def bind_eq_Some_conv CheckRegisterIndex_True)
next
  assume wide: "GetVerifyTypeArgumentA op = kVerifyRegAWide"
  with assms(1) obtain r where r: "VRegA (code_units c) pc = Some r" "CheckWideRegisterIndex c r u = Some (True, w)"
    by (auto simp: verify_arg_A_def bind_eq_Some_conv)
  have "kInstructionVerifyFlags op AND kVerifyRegAWide = kVerifyRegAWide"
    using wide unfolding GetVerifyTypeArgumentA_def by (rule and_flag)
  then have "FormatOf op \<notin> {k10t, k20t, k30t}"
    using opcode_registers [of op] by (simp add: register_row_def)
  from VRegA_bound [OF r(1) assms(2) this] CheckWideRegisterIndex_True [OF r(2)] r(1)
  show "\<exists>r. VRegA (code_units c) pc = Some r \<and> unat r + 1 < unat (registers_size c)" by blast
qed

lemma arg_B_passes:
  assumes "verify_arg_B c op pc u = Some (True, w)" and "Opcode (code_units c) pc = Some op"
  shows "(GetVerifyTypeArgumentB op = kVerifyRegB \<longrightarrow> (\<exists>r. VRegB (code_units c) pc = Some r \<and> unat r < unat (registers_size c)))
    \<and> (GetVerifyTypeArgumentB op = kVerifyRegBWide \<longrightarrow>
         (\<exists>r. VRegB (code_units c) pc = Some r \<and> unat r + 1 < unat (registers_size c)))"
proof (intro conjI impI)
  assume "GetVerifyTypeArgumentB op = kVerifyRegB"
  with assms(1) show "\<exists>r. VRegB (code_units c) pc = Some r \<and> unat r < unat (registers_size c)"
    by (auto simp: verify_arg_B_def bind_eq_Some_conv CheckRegisterIndex_True)
next
  assume wide: "GetVerifyTypeArgumentB op = kVerifyRegBWide"
  with assms(1) obtain r where r: "VRegB (code_units c) pc = Some r" "CheckWideRegisterIndex c r u = Some (True, w)"
    by (auto simp: verify_arg_B_def bind_eq_Some_conv)
  have "kInstructionVerifyFlags op AND kVerifyRegBWide = kVerifyRegBWide"
    using wide unfolding GetVerifyTypeArgumentB_def by (rule and_flag)
  then have "FormatOf op \<in> {k12x, k22x, k23x, k32x}"
    using opcode_registers [of op] by (simp add: register_row_def)
  from VRegB_bound [OF r(1) assms(2) this] CheckWideRegisterIndex_True [OF r(2)] r(1)
  show "\<exists>r. VRegB (code_units c) pc = Some r \<and> unat r + 1 < unat (registers_size c)" by blast
qed

lemma arg_C_passes:
  assumes "verify_arg_C c op pc u = Some (True, w)" and "Opcode (code_units c) pc = Some op"
  shows "(GetVerifyTypeArgumentC op = kVerifyRegC \<longrightarrow> (\<exists>r. VRegC (code_units c) pc = Some r \<and> unat r < unat (registers_size c)))
    \<and> (GetVerifyTypeArgumentC op = kVerifyRegCWide \<longrightarrow>
         (\<exists>r. VRegC (code_units c) pc = Some r \<and> unat r + 1 < unat (registers_size c)))"
proof (intro conjI impI)
  assume "GetVerifyTypeArgumentC op = kVerifyRegC"
  with assms(1) show "\<exists>r. VRegC (code_units c) pc = Some r \<and> unat r < unat (registers_size c)"
    by (auto simp: verify_arg_C_def bind_eq_Some_conv CheckRegisterIndex_True)
next
  assume wide: "GetVerifyTypeArgumentC op = kVerifyRegCWide"
  with assms(1) obtain r where r: "VRegC (code_units c) pc = Some r" "CheckWideRegisterIndex c r u = Some (True, w)"
    by (auto simp: verify_arg_C_def bind_eq_Some_conv)
  have "kInstructionVerifyFlags op AND kVerifyRegCWide = kVerifyRegCWide"
    using wide unfolding GetVerifyTypeArgumentC_def by (rule and_flag)
  then have "FormatOf op \<in> {k23x, k3rc}"
    using opcode_registers [of op] by (simp add: register_row_def)
  from VRegC_bound [OF r(1) assms(2) this] CheckWideRegisterIndex_True [OF r(2)] r(1)
  show "\<exists>r. VRegC (code_units c) pc = Some r \<and> unat r + 1 < unat (registers_size c)" by blast
qed

lemma sint_cases: "sint (w :: u32) = (if uint w < 2 ^ 31 then uint w else uint w - 2 ^ 32)"
proof -
  have "0 \<le> uint w" "uint w < 2 ^ 32" using uint_bounded [of w] by simp_all
  moreover have "sint w = (uint w + 2 ^ 31) mod 2 ^ 32 - 2 ^ 31"
    by (simp add: sint_uint signed_take_bit_eq_take_bit_shift take_bit_eq_mod)
  moreover have "(uint w + 2 ^ 31) mod 2 ^ 32 = (uint w + 2 ^ 31) - 2 ^ 32" if "\<not> uint w < 2 ^ 31"
    using calculation(1,2) that by (subst minus_mod_self2 [symmetric], intro mod_pos_pos_trivial) auto
  ultimately show ?thesis by (auto simp: mod_pos_pos_trivial)
qed

lemma signed_target:
  assumes "pc < 2 ^ 31" and "0 \<le> sint (word_of_nat pc + off :: u32)"
  shows "int pc + sint off = int (unat (word_of_nat pc + off :: u32))"
proof -
  let ?S = "int pc + sint off"
  have b: "- (2 ^ 31) \<le> sint off" "sint off < 2 ^ 31"
    using sint_greater_eq [of off] sint_less [of off] by simp_all
  have s: "sint (word_of_nat pc + off) = (?S + 2 ^ 31) mod 2 ^ 32 - 2 ^ 31"
    using sint_word_of_nat_small [OF assms(1)] by (simp add: sint_word_add signed_take_bit_eq_take_bit_shift take_bit_eq_mod)
  have "?S < 2 ^ 31"
  proof (rule ccontr)
    assume "\<not> ?S < 2 ^ 31"
    then have "(?S + 2 ^ 31) mod 2 ^ 32 = (?S + 2 ^ 31) - 2 ^ 32"
      using assms(1) b by (subst minus_mod_self2 [symmetric], intro mod_pos_pos_trivial) auto
    with assms s b show False by auto
  qed
  with s b have "sint (word_of_nat pc + off) = ?S" by (simp add: mod_pos_pos_trivial)
  moreover have "sint (word_of_nat pc + off) = uint (word_of_nat pc + off)"
    using assms(2) sint_cases [of "word_of_nat pc + off"] uint_bounded [of "word_of_nat pc + off"] by (auto split: if_splits)
  ultimately show ?thesis by simp
qed
lemma goto_offset: "(scast (signed_drop_bit 8 (w :: u16)) :: u32) = scast (ucast (drop_bit 8 w) :: u8)"
proof (rule bit_word_eqI)
  fix n
  assume "n < LENGTH(32)"
  then show "bit (scast (signed_drop_bit 8 w) :: u32) n = bit (scast (ucast (drop_bit 8 w) :: u8) :: u32) n"
    by (cases "n = 7") (auto simp: bit_simps min_def not_less)
qed

lemma extra_var_args:
  assumes "verify_extra c op pc off (True, u) = Some (Inr (True, w))"
    and "GetVerifyExtraFlags op \<in> {kVerifyVarArg, kVerifyVarArgNonZero}"
  shows "\<exists>n d args. VRegA (code_units c) pc = Some n \<and> unat n \<le> 5 \<and> Fetch16 (code_units c) pc 0 = Some d
    \<and> GetVarArgs (code_units c) pc d (replicate 5 0) = Some args
    \<and> (\<forall>r \<in> set (take (unat n) args). unat r < unat (registers_size c))"
proof -
  from assms obtain n d args where "VRegA (code_units c) pc = Some n" "\<not> n > 5" "Fetch16 (code_units c) pc 0 = Some d"
    "GetVarArgs (code_units c) pc d (replicate 5 0) = Some args"
    and chk: "and_also (Some (True, u)) (CheckVarArgRegs c (unat n) args) = Some (True, w)"
    by (auto simp: verify_extra_def Let_def bind_eq_Some_conv split: if_split_asm)
  moreover from chk have "\<forall>r \<in> set (take (unat n) args). unat r < unat (registers_size c)"
    by (auto simp: and_also_True CheckVarArgRegs_def list_ex_iff word_le_nat_alt not_le split: if_splits)
  ultimately show ?thesis by (auto simp: word_less_nat_alt)
qed

lemma extra_range:
  assumes "verify_extra c op pc off (True, u) = Some (Inr (True, w))" and "Opcode (code_units c) pc = Some op"
    and "GetVerifyExtraFlags op \<in> {kVerifyVarArgRange, kVerifyVarArgRangeNonZero}"
  shows "\<exists>n r. VRegA (code_units c) pc = Some n \<and> VRegC (code_units c) pc = Some r
    \<and> unat n + unat r \<le> unat (registers_size c)"
proof -
  from assms(1,3) obtain n r where n: "VRegA (code_units c) pc = Some n" and r: "VRegC (code_units c) pc = Some r"
    and chk: "and_also (Some (True, u)) (CheckVarArgRangeRegs c n r) = Some (True, w)"
    by (auto simp: verify_extra_def Let_def bind_eq_Some_conv split: if_split_asm)
  from assms(3) have "kInstructionVerifyFlags op AND kVerifyVarArgRange = kVerifyVarArgRange
      \<or> kInstructionVerifyFlags op AND kVerifyVarArgRangeNonZero = kVerifyVarArgRangeNonZero"
    unfolding GetVerifyExtraFlags_def using and_flag by blast
  then have "kInstructionVerifyFlags op AND kVerifyVarArgRange \<noteq> 0
      \<or> kInstructionVerifyFlags op AND kVerifyVarArgRangeNonZero \<noteq> 0"
    by (elim disjE) simp_all
  then have fmt: "FormatOf op = k3rc"
    using opcode_consistent [of op] by (simp only: row_consistent_def VerifyFlagsOf_def)
  have "unat n < 2 ^ 16" "unat r < 2 ^ 16" using VRegA_bound [OF n assms(2)] VRegC_bound [OF r assms(2)] fmt by simp_all
  then have "unat (n + r) = unat n + unat r" by (simp add: unat_word_ariths)
  with chk have "unat n + unat r \<le> unat (registers_size c)"
    by (auto simp: and_also_True CheckVarArgRangeRegs_def word_less_nat_alt split: if_splits)
  with n r show ?thesis by blast
qed

text \<open>The verifier's own decoding of a branch is the decoder's.\<close>

lemma GetBranchOffset_cases:
  assumes "Fetch16 (code_units c) (unat off) 0 = Some w"
  shows "Opcode_of w = GOTO \<Longrightarrow> GetBranchOffset c off = Some (Some (scast (signed_drop_bit 8 w), False, False))"
    and "Opcode_of w = GOTO_16 \<Longrightarrow>
      GetBranchOffset c off = map_option (\<lambda>x. Some (scast x, False, False)) (Fetch16 (code_units c) (unat off) 1)"
    and "Opcode_of w = GOTO_32 \<Longrightarrow>
      GetBranchOffset c off = map_option (\<lambda>x. Some (x, False, True)) (two_units (code_units c) (unat off + 1))"
    and "Opcode_of w \<in> {IF_EQ, IF_NE, IF_LT, IF_GE, IF_GT, IF_LE, IF_EQZ, IF_NEZ, IF_LTZ, IF_GEZ, IF_GTZ, IF_LEZ} \<Longrightarrow>
      GetBranchOffset c off = map_option (\<lambda>x. Some (scast x, True, False)) (Fetch16 (code_units c) (unat off) 1)"
proof -
  show "Opcode_of w = GOTO \<Longrightarrow> GetBranchOffset c off = Some (Some (scast (signed_drop_bit 8 w), False, False))"
    using assms by (simp add: GetBranchOffset_def)
  show "Opcode_of w = GOTO_16 \<Longrightarrow>
      GetBranchOffset c off = map_option (\<lambda>x. Some (scast x, False, False)) (Fetch16 (code_units c) (unat off) 1)"
    using assms by (cases "Fetch16 (code_units c) (unat off) 1") (simp_all add: GetBranchOffset_def)
  show "Opcode_of w = GOTO_32 \<Longrightarrow>
      GetBranchOffset c off = map_option (\<lambda>x. Some (x, False, True)) (two_units (code_units c) (unat off + 1))"
    using assms by (cases "two_units (code_units c) (unat off + 1)") (simp_all add: GetBranchOffset_def)
  assume "Opcode_of w \<in> {IF_EQ, IF_NE, IF_LT, IF_GE, IF_GT, IF_LE, IF_EQZ, IF_NEZ, IF_LTZ, IF_GEZ, IF_GTZ, IF_LEZ}"
  moreover from this have "Opcode_of w \<noteq> GOTO" "Opcode_of w \<noteq> GOTO_16" "Opcode_of w \<noteq> GOTO_32" by (elim insertE; simp)+
  ultimately show "GetBranchOffset c off = map_option (\<lambda>x. Some (scast x, True, False)) (Fetch16 (code_units c) (unat off) 1)"
    using assms by (cases "Fetch16 (code_units c) (unat off) 1") (simp_all only: GetBranchOffset_def Let_def Option.bind.simps if_True if_False option.map)
qed

lemma GetBranchOffset_target:
  assumes "GetBranchOffset c off = Some (Some (t, x))" and "Opcode (code_units c) (unat off) = Some op"
    and "GetVerifyExtraFlags op = kVerifyBranchTarget"
  shows "GetTargetOffset (code_units c) (unat off) = Some t"
proof -
  from assms(2) obtain w where w: "Fetch16 (code_units c) (unat off) 0 = Some w" and op: "op = Opcode_of w"
    by (auto simp: Opcode_def)
  have "kInstructionVerifyFlags op AND kVerifyBranchTarget = kVerifyBranchTarget"
    using assms(3) unfolding GetVerifyExtraFlags_def by (rule and_flag)
  then have "kInstructionVerifyFlags op AND kVerifyBranchTarget \<noteq> 0" by simp
  then have "(op = GOTO \<and> FormatOf op = k10t) \<or> (op = GOTO_16 \<and> FormatOf op = k20t) \<or> (op = GOTO_32 \<and> FormatOf op = k30t)
    \<or> (op \<in> {IF_EQ, IF_NE, IF_LT, IF_GE, IF_GT, IF_LE} \<and> FormatOf op = k22t)
    \<or> (op \<in> {IF_EQZ, IF_NEZ, IF_LTZ, IF_GEZ, IF_GTZ, IF_LEZ} \<and> FormatOf op = k21t)"
    using opcode_registers [of op] unfolding register_row_def by (elim conjE) (erule mp)
  then consider (1) "op = GOTO" "FormatOf op = k10t" | (2) "op = GOTO_16" "FormatOf op = k20t"
    | (3) "op = GOTO_32" "FormatOf op = k30t"
    | (4) "op \<in> {IF_EQ, IF_NE, IF_LT, IF_GE, IF_GT, IF_LE}" "FormatOf op = k22t"
    | (5) "op \<in> {IF_EQZ, IF_NEZ, IF_LTZ, IF_GEZ, IF_GTZ, IF_LEZ}" "FormatOf op = k21t"
    by (elim disjE conjE)
  then show ?thesis
  proof cases
    case 1
    with assms(1) w op show ?thesis
      using GetBranchOffset_cases(1) [OF w]
      by (simp add: GetTargetOffset_def VRegA_10t_def InstAA_def goto_offset)
  next
    case 2
    with assms(1) w op show ?thesis
      using GetBranchOffset_cases(2) [OF w] by (auto simp: GetTargetOffset_def VRegA_20t_def)
  next
    case 3
    with assms(1) w op show ?thesis
      using GetBranchOffset_cases(3) [OF w]
      by (auto simp: GetTargetOffset_def VRegA_30t_def Fetch32_def two_units_def bind_eq_Some_conv Fetch16_def split: if_splits)
  next
    case 4
    then have "Opcode_of w \<in> {IF_EQ, IF_NE, IF_LT, IF_GE, IF_GT, IF_LE, IF_EQZ, IF_NEZ, IF_LTZ, IF_GEZ, IF_GTZ, IF_LEZ}"
      using op by (auto simp only: insert_iff)
    from GetBranchOffset_cases(4) [OF w this] assms(1) w op 4(2) show ?thesis
      by (cases "Fetch16 (code_units c) (unat off) 1") (auto simp: GetTargetOffset_def VRegC_22t_def)
  next
    case 5
    then have "Opcode_of w \<in> {IF_EQ, IF_NE, IF_LT, IF_GE, IF_GT, IF_LE, IF_EQZ, IF_NEZ, IF_LTZ, IF_GEZ, IF_GTZ, IF_LEZ}"
      using op by (auto simp only: insert_iff)
    from GetBranchOffset_cases(4) [OF w this] assms(1) w op 5(2) show ?thesis
      by (cases "Fetch16 (code_units c) (unat off) 1") (auto simp: GetTargetOffset_def VRegB_21t_def)
  qed
qed

lemma extra_branch:
  assumes "verify_extra c op pc (word_of_nat pc) (True, u) = Some (Inr (True, w))" and "Opcode (code_units c) pc = Some op"
    and "GetVerifyExtraFlags op = kVerifyBranchTarget" and "pc < 2 ^ 31"
  shows "\<exists>off t. GetTargetOffset (code_units c) pc = Some off \<and> int t = int pc + sint off \<and> opcode_at u t"
proof -
  have pc: "unat (word_of_nat pc :: u32) = pc" using assms(4) by (simp add: unat_word_of_nat_u32)
  from assms(1,3) have "CheckBranchTarget c (word_of_nat pc) u = Some (True, w)"
    by (auto simp: verify_extra_def Let_def and_also_True)
  then obtain off x where b: "GetBranchOffset c (word_of_nat pc) = Some (Some (off, x))"
    and s: "uint (word_of_nat pc :: u32) + sint off = uint (word_of_nat pc + off)"
    and t: "opcode_at u (unat (word_of_nat pc + off))"
    by (auto simp: CheckBranchTarget_def Let_def bind_eq_Some_conv flags_at_def opcode_at_def
        split: option.splits if_split_asm)
  have "int (unat (word_of_nat pc + off)) = int pc + sint off" using s pc by (metis uint_nat)
  moreover have "GetTargetOffset (code_units c) pc = Some off"
    using GetBranchOffset_target [of c "word_of_nat pc" off x op] b assms(2,3) pc by simp
  ultimately show ?thesis using t by blast
qed

lemma check_switch_targets_pass:
  assumes "check_switch_targets c off k n u = Some (True, w)" and "i < n"
  shows "\<exists>o' u'. two_units (code_units c) (k + 2 * i) = Some o' \<and> same_opcodes u u' \<and> 0 \<le> sint (off + o')
    \<and> opcode_at u' (unat (off + o'))"
  using assms
proof (induction n arbitrary: k i u)
  case (Suc n)
  from Suc.prems(1) obtain o' x u1 where o': "two_units (code_units c) k = Some o'" "0 \<le> sint (off + o')"
    "flags_at u (unat (off + o')) = Some x" "IsOpcode x"
    and upd: "update_flags SetBranchTarget (unat (off + o')) u = Some u1"
    and rest: "check_switch_targets c off (k + 2) n u1 = Some (True, w)"
    by (auto simp: bind_eq_Some_conv Let_def split: if_split_asm)
  show ?case
  proof (cases i)
    case 0
    with o' show ?thesis by (auto simp: flags_at_def opcode_at_def split: if_splits intro!: exI [of _ u])
  next
    case (Suc j)
    from upd have "same_opcodes u u1" by (rule update_same) simp
    with Suc.IH [OF rest, of j] Suc.prems(2) Suc show ?thesis by (auto intro: same_trans)
  qed
qed simp

lemma signed_sum_Some: "signed_sum a b = Some s \<Longrightarrow> s = sint a + sint b"
  by (auto simp: signed_sum_def Let_def split: if_splits)

lemma passes_if: "(if b then fail v else r) = Some (True, w) \<longleftrightarrow> \<not> b \<and> r = Some (True, w)"
  by simp

lemma CheckSwitchTargets_True:
  assumes "CheckSwitchTargets c pc u = Some (True, w)"
  obtains off s count d where "two_units (code_units c) (unat pc + 1) = Some off"
    and "signed_sum pc off = Some s" and "\<not> s < 0" and "Fetch16 (code_units c) (nat s) 1 = Some count"
    and "Fetch16 (code_units c) (unat pc) 0 = Some d"
    and "Fetch16 (code_units c) (nat s) 0 = Some (if Opcode_of d = PACKED_SWITCH then kPackedSwitchSignature else kSparseSwitchSignature)"
    and "check_switch_targets c pc (nat s + (if Opcode_of d = PACKED_SWITCH then 4 else 2 + 2 * unat count)) (unat count) u = Some (True, w)"
  using assms that unfolding CheckSwitchTargets_def Let_def
  by (simp only: bind_eq_Some_conv passes_if not_not) blast

lemma extra_switch:
  assumes "verify_extra c op pc (word_of_nat pc) (True, u) = Some (Inr (True, w))" and "Opcode (code_units c) pc = Some op"
    and "GetVerifyExtraFlags op = kVerifySwitchTargets" and "pc < 2 ^ 31"
  shows "\<exists>off table count. two_units (code_units c) (pc + 1) = Some off \<and> int table = int pc + sint off
    \<and> Fetch16 (code_units c) table 0 = Some (if op = PACKED_SWITCH then kPackedSwitchSignature else kSparseSwitchSignature)
    \<and> Fetch16 (code_units c) table 1 = Some count
    \<and> (\<forall>i < unat count. \<exists>rel t. two_units (code_units c)
          (table + (if op = PACKED_SWITCH then 4 else 2 + 2 * unat count) + 2 * i) = Some rel
        \<and> int t = int pc + sint rel \<and> opcode_at u t)"
proof -
  have pc: "unat (word_of_nat pc :: u32) = pc" using assms(4) by (simp add: unat_word_of_nat_u32)
  have spc: "sint (word_of_nat pc :: u32) = int pc" using sint_word_of_nat_small [OF assms(4)] .
  from assms(1,3) have "CheckSwitchTargets c (word_of_nat pc) u = Some (True, w)"
    by (auto simp: verify_extra_def Let_def and_also_True)
  then obtain off s count d where off: "two_units (code_units c) (pc + 1) = Some off"
    and s: "signed_sum (word_of_nat pc) off = Some s" "\<not> s < 0" and count: "Fetch16 (code_units c) (nat s) 1 = Some count"
    and d: "Fetch16 (code_units c) pc 0 = Some d"
    and sig: "Fetch16 (code_units c) (nat s) 0
      = Some (if Opcode_of d = PACKED_SWITCH then kPackedSwitchSignature else kSparseSwitchSignature)"
    and targets: "check_switch_targets c (word_of_nat pc)
      (nat s + (if Opcode_of d = PACKED_SWITCH then 4 else 2 + 2 * unat count)) (unat count) u = Some (True, w)"
    by (elim CheckSwitchTargets_True) (simp add: pc)
  have op: "op = Opcode_of d" using d assms(2) by (simp add: Opcode_def)
  have "\<exists>rel t. two_units (code_units c) (nat s + (if op = PACKED_SWITCH then 4 else 2 + 2 * unat count) + 2 * i) = Some rel
      \<and> int t = int pc + sint rel \<and> opcode_at u t" if "i < unat count" for i
  proof -
    from check_switch_targets_pass [OF targets that] obtain rel u' where
      rel: "two_units (code_units c) (nat s + (if op = PACKED_SWITCH then 4 else 2 + 2 * unat count) + 2 * i) = Some rel"
      "same_opcodes u u'" "0 \<le> sint (word_of_nat pc + rel)" "opcode_at u' (unat (word_of_nat pc + rel))"
      unfolding op by blast
    with signed_target [OF assms(4) rel(3)] show ?thesis
      by (intro exI [of _ rel] exI [of _ "unat (word_of_nat pc + rel)"]) (simp add: same_opcodes_def)
  qed
  moreover have "int (nat s) = int pc + sint off" using signed_sum_Some [OF s(1)] s(2) spc by simp
  ultimately show ?thesis using off count sig op by (intro exI conjI) auto
qed

text \<open>
  Claim C10. Register operands of verified code are registers: when the static pass accepts a method,
  every instruction reached by decoding from the start has the registers its opcode names (\<open>vA\<close>,
  \<open>vB\<close>, \<open>vC\<close>; both halves of a wide one) inside the frame of \<open>registers_size\<close> registers, at most five
  arguments, each of them a register of the frame, and a range of arguments that ends inside it.
\<close>

theorem verified_operands:
  assumes "Verify v = Some (True, v')" and "code_item v = Some c" and "unat (insns_size_in_code_units c) < 2 ^ 31"
    and "insn_start c pc"
  shows "\<exists>op. Opcode (code_units c) pc = Some op
    \<and> (GetVerifyTypeArgumentA op = kVerifyRegA \<longrightarrow>
         (\<exists>r. VRegA (code_units c) pc = Some r \<and> unat r < unat (registers_size c)))
    \<and> (GetVerifyTypeArgumentA op = kVerifyRegAWide \<longrightarrow>
         (\<exists>r. VRegA (code_units c) pc = Some r \<and> unat r + 1 < unat (registers_size c)))
    \<and> (GetVerifyTypeArgumentB op = kVerifyRegB \<longrightarrow>
         (\<exists>r. VRegB (code_units c) pc = Some r \<and> unat r < unat (registers_size c)))
    \<and> (GetVerifyTypeArgumentB op = kVerifyRegBWide \<longrightarrow>
         (\<exists>r. VRegB (code_units c) pc = Some r \<and> unat r + 1 < unat (registers_size c)))
    \<and> (GetVerifyTypeArgumentC op = kVerifyRegC \<longrightarrow>
         (\<exists>r. VRegC (code_units c) pc = Some r \<and> unat r < unat (registers_size c)))
    \<and> (GetVerifyTypeArgumentC op = kVerifyRegCWide \<longrightarrow>
         (\<exists>r. VRegC (code_units c) pc = Some r \<and> unat r + 1 < unat (registers_size c)))
    \<and> (FormatOf op = k35c \<longrightarrow> (\<exists>n d args. VRegA (code_units c) pc = Some n \<and> unat n \<le> 5
         \<and> Fetch16 (code_units c) pc 0 = Some d \<and> GetVarArgs (code_units c) pc d (replicate 5 0) = Some args
         \<and> (\<forall>r \<in> set (take (unat n) args). unat r < unat (registers_size c))))
    \<and> (FormatOf op = k3rc \<longrightarrow> (\<exists>n r. VRegA (code_units c) pc = Some n \<and> VRegC (code_units c) pc = Some r
         \<and> unat n + unat r \<le> unat (registers_size c)))"
proof -
  from Verify_accepts [OF assms] obtain u u' where "VerifyInstruction c pc (word_of_nat pc) u = Some (True, u')" by blast
  then obtain op u1 u2 u3 where op: "Opcode (code_units c) pc = Some op"
    and a: "verify_arg_A c op pc u = Some (True, u1)" and b: "verify_arg_B c op pc u1 = Some (True, u2)"
    and r: "verify_arg_C c op pc u2 = Some (True, u3)"
    and x: "verify_extra c op pc (word_of_nat pc) (True, u3) = Some (Inr (True, u'))"
    by (rule VerifyInstruction_passes)
  note * = arg_A_passes [OF a op] arg_B_passes [OF b op] arg_C_passes [OF r op]
    extra_var_args [OF x extra_flags_of(3)] extra_range [OF x op extra_flags_of(4)]
  show ?thesis
    by (rule exI [of _ op]) (use op * in \<open>intro conjI impI; blast\<close>)
qed

text \<open>
  Claim C11. Control flow of verified code stays at instructions: when the static pass accepts a method,
  every instruction reached by decoding from the start ends inside the code, with the next one starting
  there unless the code ends; the target of every branch, as the decoder computes it, is the start of
  an instruction; and every switch has a payload of its kind, all of whose targets are starts of instructions.
\<close>

theorem verified_targets:
  assumes "Verify v = Some (True, v')" and "code_item v = Some c" and "unat (insns_size_in_code_units c) < 2 ^ 31"
    and "insn_start c pc"
  shows "\<exists>op n. Opcode (code_units c) pc = Some op \<and> SizeInCodeUnits (code_units c) pc = Some n
    \<and> (pc + n = unat (insns_size_in_code_units c) \<or> insn_start c (pc + n))
    \<and> (IsBranch op \<longrightarrow> (\<exists>off t. GetTargetOffset (code_units c) pc = Some off \<and> int t = int pc + sint off \<and> insn_start c t))
    \<and> (IsSwitch op \<longrightarrow> (\<exists>off table count. two_units (code_units c) (pc + 1) = Some off \<and> int table = int pc + sint off
         \<and> Fetch16 (code_units c) table 0 = Some (if op = PACKED_SWITCH then kPackedSwitchSignature else kSparseSwitchSignature)
         \<and> Fetch16 (code_units c) table 1 = Some count
         \<and> (\<forall>i < unat count. \<exists>rel t. two_units (code_units c)
              (table + (if op = PACKED_SWITCH then 4 else 2 + 2 * unat count) + 2 * i) = Some rel
              \<and> int t = int pc + sint rel \<and> insn_start c t)))"
proof -
  from Verify_accepts [OF assms] obtain u u' n where "VerifyInstruction c pc (word_of_nat pc) u = Some (True, u')"
    and u: "\<forall>t. opcode_at u t \<longleftrightarrow> insn_start c t" and n: "SizeInCodeUnits (code_units c) pc = Some n"
      "pc + n \<le> unat (insns_size_in_code_units c)"
    by blast
  then obtain op u1 u2 u3 where op: "Opcode (code_units c) pc = Some op"
    and a: "verify_arg_A c op pc u = Some (True, u1)" and b: "verify_arg_B c op pc u1 = Some (True, u2)"
    and r: "verify_arg_C c op pc u2 = Some (True, u3)"
    and x: "verify_extra c op pc (word_of_nat pc) (True, u3) = Some (Inr (True, u'))"
    by (elim VerifyInstruction_passes) blast
  have "same_opcodes u u3" using arg_A.same [OF a] arg_B.same [OF b] arg_C.same [OF r] same_trans by blast
  with u have u3: "opcode_at u3 t \<longleftrightarrow> insn_start c t" for t by (simp add: same_opcodes_def)
  have "pc < 2 ^ 31" using insn_from_less [OF assms(4)] assms(3) by simp
  note * = extra_branch [OF x op extra_flags_of(1) this, unfolded u3] extra_switch [OF x op extra_flags_of(2) this, unfolded u3]
  have "pc + n = unat (insns_size_in_code_units c) \<or> insn_start c (pc + n)"
    using insn_from_next [OF assms(4) n(1)] n(2) by (simp add: le_less) blast
  with op n(1) * show ?thesis by (intro exI [of _ op] exI [of _ n]) blast
qed

text \<open>
  Claim C40. Accesses the static pass does not guard: for a method with an empty instruction list
  \<open>VerifyInstructions\<close> marks \<open>insn_flags_[0]\<close> of an array of length 0, and a handler address at or above
  the code size is used as an index into \<open>insn_flags_\<close> before anything compares it with the size.
\<close>

theorem static_pass_unguarded:
  "(code_item v = Some c \<and> insns_size_in_code_units c = 0 \<and> ins_size c \<le> registers_size c \<and> tries_size c = 0 \<longrightarrow>
      Verify v = None)
   \<and> (length (insn_flags u) \<le> unat pc \<longrightarrow> scan_handler c pc u = None)"
  by (auto simp: Verify_def Let_def and_also_def ComputeWidthsAndCountOps_def width_loop.simps pass_def
      ScanTryCatchBlocks_def VerifyInstructions_def update_flags_def flags_at_def scan_handler_def not_less)

subsection \<open>Examples\<close>

text \<open>\<open>const/4 v0; if-eqz v0, +4; goto +2; nop; return-void\<close>, in a frame of one register.\<close>

definition sample_code :: CodeItem where
  "sample_code = \<lparr>code_item_ptr = 0, registers_size = 1, ins_size = 0, tries_size = 0, insns_size_in_code_units = 6,
     code_units = [0x0012, 0x0038, 0x0004, 0x0228, 0x0000, 0x000e]\<rparr>"

definition sample_verifier :: "CodeItem \<Rightarrow> MethodVerifier" where
  "sample_verifier c = \<lparr>dex_file = \<lparr>begin_of = [], string_ids = 0, type_ids = 0, field_ids = 0, method_ids = 0, proto_ids = 0, class_defs = 0\<rparr>, code_item = Some c, method_access_flags = 0,
     verify_to_dump = False, is_aot_compiler = False, insn_flags = [], has_check_casts = False,
     has_virtual_or_interface_invokes = False, new_instance_count = 0, monitor_enter_count = 0,
     have_pending_hard_failure = False, failures = []\<rparr>"

declare verify_loop.simps [code] mark_try.simps [code]

lemma sample_accepted: "\<exists>v'. Verify (sample_verifier sample_code) = Some (True, v')"
proof -
  have "map_option fst (Verify (sample_verifier sample_code)) = Some True" by code_simp
  then show ?thesis by (auto simp: map_option_eq_Some)
qed

lemma sample_start: "insn_start sample_code 1"
proof -
  have "SizeInCodeUnits (code_units sample_code) 0 = Some 1" by code_simp
  moreover have "insn_from sample_code 1 1" by (rule insn_from.here) (simp add: sample_code_def)
  ultimately show ?thesis using insn_from.later [of 0 sample_code 1 1] by (simp add: sample_code_def)
qed

theorem verified_operands_witness:
  "\<exists>r. VRegA (code_units sample_code) 1 = Some r \<and> unat r < unat (registers_size sample_code)"
proof -
  obtain v' where "Verify (sample_verifier sample_code) = Some (True, v')" using sample_accepted by blast
  moreover have "code_item (sample_verifier sample_code) = Some sample_code" by (simp add: sample_verifier_def)
  moreover have "unat (insns_size_in_code_units sample_code) < 2 ^ 31" by (simp add: sample_code_def)
  moreover have "Opcode (code_units sample_code) 1 = Some IF_EQZ" "GetVerifyTypeArgumentA IF_EQZ = kVerifyRegA"
    by code_simp+
  ultimately show ?thesis using verified_operands [OF _ _ _ sample_start] by fastforce
qed

theorem verified_targets_witness:
  "\<exists>off t. GetTargetOffset (code_units sample_code) 1 = Some off \<and> int t = 1 + sint off \<and> insn_start sample_code t"
proof -
  obtain v' where "Verify (sample_verifier sample_code) = Some (True, v')" using sample_accepted by blast
  moreover have "code_item (sample_verifier sample_code) = Some sample_code" by (simp add: sample_verifier_def)
  moreover have "unat (insns_size_in_code_units sample_code) < 2 ^ 31" by (simp add: sample_code_def)
  moreover have "Opcode (code_units sample_code) 1 = Some IF_EQZ" "IsBranch IF_EQZ" by code_simp+
  ultimately show ?thesis using verified_targets [OF _ _ _ sample_start] by fastforce
qed

theorem static_pass_unguarded_witness:
  "Verify (sample_verifier (sample_code\<lparr>insns_size_in_code_units := 0, code_units := []\<rparr>)) = None
   \<and> scan_handler sample_code 6 (sample_verifier sample_code) = None"
  using static_pass_unguarded [of "sample_verifier (sample_code\<lparr>insns_size_in_code_units := 0, code_units := []\<rparr>)"
      "sample_code\<lparr>insns_size_in_code_units := 0, code_units := []\<rparr>"]
    static_pass_unguarded [of _ sample_code "sample_verifier sample_code" 6]
  by (simp add: sample_verifier_def sample_code_def)

end
