(* ===== verification/ShadowFrame.thy ===== *)
theory ShadowFrame
  imports StaticVerifier "HOL-Library.Signed_Division"
begin

text \<open>
  The frame of the interpreter and its arithmetic: \<open>ShadowFrame\<close> of \<open>art/runtime/stack.h\<close>,
  \<open>JValue\<close> of \<open>art/runtime/jvalue.h\<close>, \<open>interpreter/safe_math.h\<close>, and the division and switch helpers
  of \<open>interpreter/interpreter_common.h\<close>. A reference is the 32-bit value the frame stores, 0 for null;
  floats and doubles are their bit patterns. \<open>None\<close> is an access outside the arrays of the frame or
  outside the code.
\<close>

unbundle bit_operations_syntax

section \<open>Shadow frames\<close>

record ShadowFrame =
  number_of_vregs :: u32
  vregs :: "u32 list"
  references :: "u32 list"
  frame_dex_pc :: u32

definition Create :: "u32 \<Rightarrow> u32 \<Rightarrow> ShadowFrame" where
  "Create num_vregs dex_pc =
     \<lparr>number_of_vregs = num_vregs, vregs = replicate (unat num_vregs) 0, references = replicate (unat num_vregs) 0,
      frame_dex_pc = dex_pc\<rparr>"

definition GetDexPC :: "ShadowFrame \<Rightarrow> u32" where
  "GetDexPC f = frame_dex_pc f"

definition SetDexPC :: "u32 \<Rightarrow> ShadowFrame \<Rightarrow> ShadowFrame" where
  "SetDexPC pc f = f\<lparr>frame_dex_pc := pc\<rparr>"

definition GetVReg :: "ShadowFrame \<Rightarrow> nat \<Rightarrow> u32 option" where
  "GetVReg f i = (if i < length (vregs f) then Some (vregs f ! i) else None)"

definition GetVRegFloat :: "ShadowFrame \<Rightarrow> nat \<Rightarrow> u32 option" where
  "GetVRegFloat f i = (if i < length (vregs f) then Some (vregs f ! i) else None)"

definition GetVRegLong :: "ShadowFrame \<Rightarrow> nat \<Rightarrow> u64 option" where
  "GetVRegLong f i =
     (if i + 1 < length (vregs f) then Some (ucast (vregs f ! i) OR push_bit 32 (ucast (vregs f ! (i + 1)))) else None)"

definition GetVRegDouble :: "ShadowFrame \<Rightarrow> nat \<Rightarrow> u64 option" where
  "GetVRegDouble f i =
     (if i + 1 < length (vregs f) then Some (ucast (vregs f ! i) OR push_bit 32 (ucast (vregs f ! (i + 1)))) else None)"

definition GetVRegReference :: "ShadowFrame \<Rightarrow> nat \<Rightarrow> u32 option" where
  "GetVRegReference f i = (if i < length (references f) then Some (references f ! i) else None)"

text \<open>\<open>kMovingCollector\<close> is true, so a value clears the reference of its register.\<close>

definition SetVReg :: "nat \<Rightarrow> u32 \<Rightarrow> ShadowFrame \<Rightarrow> ShadowFrame option" where
  "SetVReg i val f =
     (if i < length (vregs f) \<and> i < length (references f)
      then Some (f\<lparr>vregs := (vregs f)[i := val], references := (references f)[i := 0]\<rparr>) else None)"

definition SetVRegFloat :: "nat \<Rightarrow> u32 \<Rightarrow> ShadowFrame \<Rightarrow> ShadowFrame option" where
  "SetVRegFloat i val f =
     (if i < length (vregs f) \<and> i < length (references f)
      then Some (f\<lparr>vregs := (vregs f)[i := val], references := (references f)[i := 0]\<rparr>) else None)"

definition SetVRegLong :: "nat \<Rightarrow> u64 \<Rightarrow> ShadowFrame \<Rightarrow> ShadowFrame option" where
  "SetVRegLong i val f =
     (if i + 1 < length (vregs f) \<and> i + 1 < length (references f)
      then Some (f\<lparr>vregs := (vregs f)[i := ucast val, i + 1 := ucast (drop_bit 32 val)],
                   references := (references f)[i := 0, i + 1 := 0]\<rparr>) else None)"

definition SetVRegDouble :: "nat \<Rightarrow> u64 \<Rightarrow> ShadowFrame \<Rightarrow> ShadowFrame option" where
  "SetVRegDouble i val f =
     (if i + 1 < length (vregs f) \<and> i + 1 < length (references f)
      then Some (f\<lparr>vregs := (vregs f)[i := ucast val, i + 1 := ucast (drop_bit 32 val)],
                   references := (references f)[i := 0, i + 1 := 0]\<rparr>) else None)"

definition SetVRegReference :: "nat \<Rightarrow> u32 \<Rightarrow> ShadowFrame \<Rightarrow> ShadowFrame option" where
  "SetVRegReference i val f =
     (if i < length (vregs f) \<and> i < length (references f)
      then Some (f\<lparr>vregs := (vregs f)[i := val], references := (references f)[i := val]\<rparr>) else None)"

text \<open>The copy of an argument register into the callee's frame.\<close>

definition AssignRegister :: "ShadowFrame \<Rightarrow> nat \<Rightarrow> nat \<Rightarrow> ShadowFrame \<Rightarrow> ShadowFrame option" where
  "AssignRegister shadow_frame dest_reg src_reg new_shadow_frame = do {
     src_value \<leftarrow> GetVReg shadow_frame src_reg;
     obj \<leftarrow> GetVRegReference shadow_frame src_reg;
     (if src_value = obj then SetVRegReference dest_reg obj new_shadow_frame
      else SetVReg dest_reg src_value new_shadow_frame)
   }"

text \<open>The visit of a moving collector: \<open>ReferenceMapVisitor::VisitShadowFrame\<close> of \<open>thread.cc\<close> on a frame with a
  reference array. \<open>visitor\<close> is the callback: the new address of an object.\<close>

fun visit_registers :: "(u32 \<Rightarrow> nat \<Rightarrow> u32) \<Rightarrow> nat \<Rightarrow> nat \<Rightarrow> ShadowFrame \<Rightarrow> ShadowFrame option" where
  "visit_registers visitor reg 0 f = Some f"
| "visit_registers visitor reg (Suc n) f = do {
     ref \<leftarrow> GetVRegReference f reg;
     f \<leftarrow> (if ref \<noteq> 0
          then let new_ref = visitor ref reg
               in if new_ref \<noteq> ref then SetVRegReference reg new_ref f else Some f
          else Some f);
     visit_registers visitor (Suc reg) n f
   }"

definition VisitShadowFrame :: "(u32 \<Rightarrow> nat \<Rightarrow> u32) \<Rightarrow> ShadowFrame \<Rightarrow> ShadowFrame option" where
  "VisitShadowFrame visitor f = visit_registers visitor 0 (unat (number_of_vregs f)) f"

section \<open>Values\<close>

text \<open>A \<open>JValue\<close> is 8 bytes, little endian; \<open>SetI\<close> and \<open>SetC\<close> change the low bytes only, \<open>SetL\<close> stores a pointer.\<close>

type_synonym JValue = u64

definition GetI :: "JValue \<Rightarrow> u32" where "GetI j = ucast j"
definition GetJ :: "JValue \<Rightarrow> u64" where "GetJ j = j"
definition GetL :: "JValue \<Rightarrow> u32" where "GetL j = ucast j"
definition SetI :: "u32 \<Rightarrow> JValue \<Rightarrow> JValue" where "SetI i j = (j AND 0xFFFFFFFF00000000) OR ucast i"
definition SetJ :: "u64 \<Rightarrow> JValue \<Rightarrow> JValue" where "SetJ v j = v"
definition SetL :: "u32 \<Rightarrow> JValue \<Rightarrow> JValue" where "SetL l j = ucast l"

section \<open>Arithmetic\<close>

text \<open>\<open>SafeMath\<close> computes on the unsigned type, where overflow wraps.\<close>

definition SafeAdd :: "'a::len word \<Rightarrow> 'a word \<Rightarrow> 'a word" where "SafeAdd a b = a + b"
definition SafeSub :: "'a::len word \<Rightarrow> 'a word \<Rightarrow> 'a word" where "SafeSub a b = a - b"
definition SafeMul :: "'a::len word \<Rightarrow> 'a word \<Rightarrow> 'a word" where "SafeMul a b = a * b"

text \<open>
  The signed \<open>/\<close> and \<open>%\<close> of C++ truncate towards zero; dividing by zero, and dividing the least value by -1,
  is undefined.
\<close>

definition division_overflows :: "'a::len word \<Rightarrow> 'a word \<Rightarrow> bool" where
  "division_overflows a b \<longleftrightarrow> sint a = - (2 ^ (LENGTH('a) - 1)) \<and> sint b = -1"

definition signed_quotient :: "'a::len word \<Rightarrow> 'a word \<Rightarrow> 'a word option" where
  "signed_quotient a b = (if b = 0 \<or> division_overflows a b then None else Some (word_of_int (sint a sdiv sint b)))"

definition signed_remainder :: "'a::len word \<Rightarrow> 'a word \<Rightarrow> 'a word option" where
  "signed_remainder a b = (if b = 0 \<or> division_overflows a b then None else Some (word_of_int (sint a smod sint b)))"

text \<open>\<open>Inl ()\<close> is the \<open>ArithmeticException\<close>.\<close>

definition DoIntDivide :: "nat \<Rightarrow> u32 \<Rightarrow> u32 \<Rightarrow> ShadowFrame \<Rightarrow> (unit + ShadowFrame) option" where
  "DoIntDivide result_reg dividend divisor f =
     (if divisor = 0 then Some (Inl ())
      else if dividend = 0x80000000 \<and> divisor = -1 then map_option Inr (SetVReg result_reg 0x80000000 f)
      else do { q \<leftarrow> signed_quotient dividend divisor; map_option Inr (SetVReg result_reg q f) })"

definition DoIntRemainder :: "nat \<Rightarrow> u32 \<Rightarrow> u32 \<Rightarrow> ShadowFrame \<Rightarrow> (unit + ShadowFrame) option" where
  "DoIntRemainder result_reg dividend divisor f =
     (if divisor = 0 then Some (Inl ())
      else if dividend = 0x80000000 \<and> divisor = -1 then map_option Inr (SetVReg result_reg 0 f)
      else do { m \<leftarrow> signed_remainder dividend divisor; map_option Inr (SetVReg result_reg m f) })"

definition DoLongDivide :: "nat \<Rightarrow> u64 \<Rightarrow> u64 \<Rightarrow> ShadowFrame \<Rightarrow> (unit + ShadowFrame) option" where
  "DoLongDivide result_reg dividend divisor f =
     (if divisor = 0 then Some (Inl ())
      else if dividend = 0x8000000000000000 \<and> divisor = -1 then map_option Inr (SetVRegLong result_reg 0x8000000000000000 f)
      else do { q \<leftarrow> signed_quotient dividend divisor; map_option Inr (SetVRegLong result_reg q f) })"

definition DoLongRemainder :: "nat \<Rightarrow> u64 \<Rightarrow> u64 \<Rightarrow> ShadowFrame \<Rightarrow> (unit + ShadowFrame) option" where
  "DoLongRemainder result_reg dividend divisor f =
     (if divisor = 0 then Some (Inl ())
      else if dividend = 0x8000000000000000 \<and> divisor = -1 then map_option Inr (SetVRegLong result_reg 0 f)
      else do { m \<leftarrow> signed_remainder dividend divisor; map_option Inr (SetVRegLong result_reg m f) })"

section \<open>Switches\<close>

text \<open>\<open>reinterpret_cast<const uint16_t*>(inst) + inst->VRegB_31t()\<close>, and an \<open>int32_t\<close> of the table.\<close>

definition payload_at :: "insns \<Rightarrow> nat \<Rightarrow> nat option" where
  "payload_at insns inst = do { off \<leftarrow> VRegB_31t insns inst; RelativeAt inst off }"

text \<open>The subtraction \<open>test_val - first_key\<close> is on \<open>int32_t\<close> and wraps in compiled code.\<close>

definition DoPackedSwitch :: "insns \<Rightarrow> nat \<Rightarrow> u16 \<Rightarrow> ShadowFrame \<Rightarrow> u32 option" where
  "DoPackedSwitch insns inst inst_data f = do {
     switch_data \<leftarrow> payload_at insns inst;
     test_val \<leftarrow> GetVReg f (unat (VRegA_31t inst_data));
     size' \<leftarrow> Fetch16 insns switch_data 1;
     (if size' = 0 then Some 3
      else do {
        first_key \<leftarrow> two_units insns (switch_data + 2);
        let index = sint (test_val - first_key);
        (if 0 \<le> index \<and> index < uint size' then two_units insns (switch_data + 4 + 2 * nat index) else Some 3)
      })
   }"

function sparse_search :: "insns \<Rightarrow> nat \<Rightarrow> nat \<Rightarrow> u32 \<Rightarrow> int \<Rightarrow> int \<Rightarrow> u32 option" where
  "sparse_search insns keys entries test_val lo hi =
     (if lo \<le> hi
      then let mid = (lo + hi) div 2
           in (case two_units insns (keys + 2 * nat mid) of
                 None \<Rightarrow> None
               | Some foundVal \<Rightarrow>
                   if sint test_val < sint foundVal then sparse_search insns keys entries test_val lo (mid - 1)
                   else if sint test_val > sint foundVal then sparse_search insns keys entries test_val (mid + 1) hi
                   else two_units insns (entries + 2 * nat mid))
      else Some 3)"
  by pat_completeness auto
termination
  by (relation "measure (\<lambda>(_, _, _, _, lo, hi). nat (hi - lo + 1))") auto

declare sparse_search.simps [simp del]

definition DoSparseSwitch :: "insns \<Rightarrow> nat \<Rightarrow> u16 \<Rightarrow> ShadowFrame \<Rightarrow> u32 option" where
  "DoSparseSwitch insns inst inst_data f = do {
     switch_data \<leftarrow> payload_at insns inst;
     test_val \<leftarrow> GetVReg f (unat (VRegA_31t inst_data));
     size' \<leftarrow> Fetch16 insns switch_data 1;
     (if size' = 0 then Some 3
      else do {
        let keys = switch_data + 2;
        let entries = keys + 2 * unat size';
        sparse_search insns keys entries test_val 0 (int (unat size') - 1)
      })
   }"

section \<open>Register laws\<close>

text \<open>A frame of \<open>n\<close> registers. The reference array is what a collector sees: an entry is null or the value of
  its register.\<close>

definition frame_ok :: "nat \<Rightarrow> ShadowFrame \<Rightarrow> bool" where
  "frame_ok n f \<longleftrightarrow> unat (number_of_vregs f) = n \<and> length (vregs f) = n \<and> length (references f) = n
     \<and> (\<forall>i < n. references f ! i = 0 \<or> references f ! i = vregs f ! i)"

lemma Create_ok: "frame_ok (unat n) (Create n pc)"
  by (simp add: frame_ok_def Create_def)

lemma SetDexPC_ok [simp]: "frame_ok n (SetDexPC pc f) \<longleftrightarrow> frame_ok n f"
  by (simp add: frame_ok_def SetDexPC_def)

text \<open>A view of the registers: values of \<open>width\<close> registers that are read back as they were written.\<close>

locale register_view =
  fixes get :: "ShadowFrame \<Rightarrow> nat \<Rightarrow> 'v option"
    and set_reg :: "nat \<Rightarrow> 'v \<Rightarrow> ShadowFrame \<Rightarrow> ShadowFrame option"
    and width :: nat
  assumes get_defined: "frame_ok n f \<Longrightarrow> i + width \<le> n \<Longrightarrow> \<exists>v. get f i = Some v"
    and set_defined: "frame_ok n f \<Longrightarrow> i + width \<le> n \<Longrightarrow> \<exists>f'. set_reg i v f = Some f'"
    and set_keeps: "set_reg i v f = Some f' \<Longrightarrow> frame_ok n f \<Longrightarrow> frame_ok n f'"
    and get_set: "set_reg i v f = Some f' \<Longrightarrow> get f' i = Some v"
    and get_other: "set_reg i v f = Some f' \<Longrightarrow> j + width \<le> i \<or> i + width \<le> j \<Longrightarrow> get f' j = get f j"
begin

lemma set_ok: "frame_ok n f \<Longrightarrow> i + width \<le> n \<Longrightarrow> \<exists>f'. set_reg i v f = Some f' \<and> frame_ok n f'"
  using set_defined set_keeps by blast

text \<open>A move: the target reads as the source did, registers apart from it are unchanged.\<close>

lemma move:
  assumes "frame_ok n f" and "i + width \<le> n" and "j + width \<le> n"
  shows "\<exists>v f'. get f j = Some v \<and> set_reg i v f = Some f' \<and> frame_ok n f' \<and> get f' i = get f j
    \<and> (\<forall>k. k + width \<le> i \<or> i + width \<le> k \<longrightarrow> get f' k = get f k)"
proof -
  obtain v where v: "get f j = Some v" using get_defined assms(1,3) by blast
  obtain f' where "set_reg i v f = Some f'" "frame_ok n f'" using set_ok assms(1,2) by blast
  then show ?thesis using v get_set [of i v f f'] get_other [of i v f f'] by auto
qed

end

lemma join_split: "(ucast (ucast v :: u32) OR push_bit 32 (ucast (ucast (drop_bit 32 v) :: u32)) :: u64) = v"
  by (rule bit_word_eqI) (auto simp: bit_simps)

lemmas get_defs = GetVReg_def GetVRegFloat_def GetVRegLong_def GetVRegDouble_def GetVRegReference_def
lemmas set_defs = SetVReg_def SetVRegFloat_def SetVRegLong_def SetVRegDouble_def SetVRegReference_def

interpretation int_view: register_view GetVReg SetVReg 1
  by unfold_locales (auto simp: get_defs set_defs frame_ok_def nth_list_update split: if_splits)

interpretation float_view: register_view GetVRegFloat SetVRegFloat 1
  by unfold_locales (auto simp: get_defs set_defs frame_ok_def nth_list_update split: if_splits)

interpretation reference_view: register_view GetVRegReference SetVRegReference 1
  by unfold_locales (auto simp: get_defs set_defs frame_ok_def nth_list_update split: if_splits)

interpretation long_view: register_view GetVRegLong SetVRegLong 2
  by unfold_locales (auto simp: get_defs set_defs frame_ok_def nth_list_update join_split split: if_splits)

interpretation double_view: register_view GetVRegDouble SetVRegDouble 2
  by unfold_locales (auto simp: get_defs set_defs frame_ok_def nth_list_update join_split split: if_splits)

text \<open>A value clears the reference of its register, so that no stale reference is read through it.\<close>

lemma value_clears_reference:
  "SetVReg i v f = Some f' \<Longrightarrow> GetVRegReference f' i = Some 0"
  "SetVRegLong i w f = Some f' \<Longrightarrow> GetVRegReference f' i = Some 0 \<and> GetVRegReference f' (i + 1) = Some 0"
  by (auto simp: get_defs set_defs split: if_splits)

text \<open>An argument register is copied with its kind.\<close>

lemma AssignRegister_keeps:
  assumes "AssignRegister f dst src g = Some g'" and "frame_ok n g"
  shows "frame_ok n g' \<and> GetVReg g' dst = GetVReg f src"
proof -
  from assms(1) obtain v where v: "GetVReg f src = Some v"
    and g': "SetVRegReference dst v g = Some g' \<or> SetVReg dst v g = Some g'"
    by (auto simp: AssignRegister_def bind_eq_Some_conv split: if_splits)
  have "frame_ok n g'" using g' assms(2) int_view.set_keeps reference_view.set_keeps by auto
  moreover have "GetVReg g' dst = Some v" using g' by (auto simp: get_defs set_defs split: if_splits)
  ultimately show ?thesis using v by simp
qed

section \<open>Moving collection\<close>

definition moved :: "(u32 \<Rightarrow> nat \<Rightarrow> u32) \<Rightarrow> nat set \<Rightarrow> u32 list \<Rightarrow> u32 list \<Rightarrow> u32 list" where
  "moved visitor S refs xs = map (\<lambda>i. if i \<in> S \<and> refs ! i \<noteq> 0 then visitor (refs ! i) i else xs ! i) [0..<length xs]"

definition visited :: "(u32 \<Rightarrow> nat \<Rightarrow> u32) \<Rightarrow> nat set \<Rightarrow> ShadowFrame \<Rightarrow> ShadowFrame" where
  "visited visitor S f = f\<lparr>vregs := moved visitor S (references f) (vregs f),
     references := moved visitor S (references f) (references f)\<rparr>"

lemma moved_length [simp]: "length (moved visitor S refs xs) = length xs"
  by (simp add: moved_def)

lemma moved_nth [simp]:
  "i < length xs \<Longrightarrow> moved visitor S refs xs ! i = (if i \<in> S \<and> refs ! i \<noteq> 0 then visitor (refs ! i) i else xs ! i)"
  by (simp add: moved_def)

lemma moved_insert:
  "reg < length xs \<Longrightarrow> reg \<notin> S \<Longrightarrow> refs ! reg \<noteq> 0 \<Longrightarrow>
     (moved visitor S refs xs)[reg := visitor (refs ! reg) reg] = moved visitor (insert reg S) refs xs"
  "refs ! reg = 0 \<or> reg < length xs \<and> visitor (refs ! reg) reg = xs ! reg \<Longrightarrow>
     moved visitor (insert reg S) refs xs = moved visitor S refs xs"
  by (auto simp: nth_list_update intro!: nth_equalityI)

lemma visited_none: "visited visitor {} f = f"
  by (simp add: visited_def moved_def map_nth)

lemma visited_one:
  assumes "frame_ok n f" and "reg < n" and "reg \<notin> S"
  shows "(if references f ! reg \<noteq> 0
      then let new_ref = visitor (references f ! reg) reg
           in if new_ref \<noteq> references f ! reg then SetVRegReference reg new_ref (visited visitor S f) else Some (visited visitor S f)
      else Some (visited visitor S f)) = Some (visited visitor (insert reg S) f)"
proof -
  have same: "references f ! reg \<noteq> 0 \<longrightarrow> vregs f ! reg = references f ! reg" using assms(1,2) by (auto simp: frame_ok_def)
  show ?thesis
    using assms same by (auto simp: SetVRegReference_def visited_def frame_ok_def Let_def moved_insert)
qed

lemma visit_registers_visited:
  assumes "frame_ok n f" and "reg + k \<le> n"
  shows "visit_registers visitor reg k (visited visitor {..<reg} f) = Some (visited visitor {..<reg + k} f)"
  using assms(2)
proof (induction k arbitrary: reg)
  case (Suc k)
  then have reg: "reg < n" by simp
  then have "GetVRegReference (visited visitor {..<reg} f) reg = Some (references f ! reg)"
    using assms(1) by (simp add: GetVRegReference_def visited_def frame_ok_def)
  with visited_one [OF assms(1) reg, of "{..<reg}" visitor] Suc.IH [of "Suc reg"] Suc.prems show ?case
    by (simp add: lessThan_Suc)
qed simp

text \<open>
  Claim C14. A moving collection renames exactly the references of a frame: on a well-formed frame
  \<open>VisitShadowFrame\<close> succeeds; a register that holds a reference holds the object's new address
  afterwards, in both arrays, every other register keeps its value, and the frame is well-formed again.
\<close>

theorem collection_moves_references:
  assumes "frame_ok n f"
  shows "\<exists>f'. VisitShadowFrame visitor f = Some f' \<and> frame_ok n f'
    \<and> (\<forall>i < n. \<exists>ref v. GetVRegReference f i = Some ref \<and> GetVReg f i = Some v
         \<and> (if ref = 0 then GetVRegReference f' i = Some 0 \<and> GetVReg f' i = Some v
            else GetVRegReference f' i = Some (visitor ref i) \<and> GetVReg f' i = Some (visitor v i)))"
proof -
  have "VisitShadowFrame visitor f = Some (visited visitor {..<n} f)"
    using visit_registers_visited [OF assms, of 0 n visitor] assms by (simp add: VisitShadowFrame_def frame_ok_def visited_none)
  moreover have "frame_ok n (visited visitor {..<n} f)" using assms by (simp add: frame_ok_def visited_def)
  moreover have "\<exists>ref v. GetVRegReference f i = Some ref \<and> GetVReg f i = Some v
      \<and> (if ref = 0 then GetVRegReference (visited visitor {..<n} f) i = Some 0 \<and> GetVReg (visited visitor {..<n} f) i = Some v
         else GetVRegReference (visited visitor {..<n} f) i = Some (visitor ref i) \<and> GetVReg (visited visitor {..<n} f) i = Some (visitor v i))"
    if "i < n" for i
    using assms that by (auto simp: frame_ok_def visited_def get_defs)
  ultimately show ?thesis by blast
qed

definition sample_frame :: ShadowFrame where
  "sample_frame = \<lparr>number_of_vregs = 2, vregs = [0x100, 0x100], references = [0x100, 0], frame_dex_pc = 0\<rparr>"

theorem collection_moves_references_witness:
  "map_option vregs (VisitShadowFrame (\<lambda>ref reg. ref + 16) sample_frame) = Some [0x110, 0x100]"
proof -
  have "frame_ok 2 sample_frame" by (auto simp: frame_ok_def sample_frame_def less_2_cases_iff)
  from collection_moves_references [OF this, of "\<lambda>ref reg. ref + 16"] obtain f' where
    f': "VisitShadowFrame (\<lambda>ref reg. ref + 16) sample_frame = Some f'" "frame_ok 2 f'"
    and r: "\<forall>i < 2. \<exists>ref v. GetVRegReference sample_frame i = Some ref \<and> GetVReg sample_frame i = Some v
         \<and> (if ref = 0 then GetVRegReference f' i = Some 0 \<and> GetVReg f' i = Some v
            else GetVRegReference f' i = Some (ref + 16) \<and> GetVReg f' i = Some (v + 16))"
    by blast
  have "GetVRegReference sample_frame 0 = Some 0x100 \<and> GetVReg sample_frame 0 = Some 0x100"
    "GetVRegReference sample_frame 1 = Some 0 \<and> GetVReg sample_frame 1 = Some 0x100"
    by (simp_all add: sample_frame_def get_defs)
  with r [THEN spec, of 0] r [THEN spec, of 1] have "GetVReg f' 0 = Some 0x110" "GetVReg f' 1 = Some 0x100" by auto
  moreover obtain a b where "vregs f' = [a, b]" using f'(2) by (auto simp: frame_ok_def numeral_2_eq_2 length_Suc_conv)
  ultimately show ?thesis using f'(1) by (simp add: get_defs)
qed

section \<open>Division\<close>

text \<open>The quotient of two values of a width fits it, except for the least value divided by -1.\<close>

lemma sdiv_range:
  assumes "- (2 ^ k) \<le> a" and "a < 2 ^ k" and "\<not> (a = - (2 ^ k) \<and> b = -1)"
  shows "- (2 ^ k) \<le> a sdiv b \<and> a sdiv b < (2 ^ k :: int)"
proof (cases "\<bar>b\<bar> \<le> 1")
  case True
  then have "b = -1 \<or> b = 0 \<or> b = 1" by auto
  with assms show ?thesis by auto
next
  case False
  show ?thesis
  proof (cases "a = 0")
    case nz: False
    have "0 \<le> \<bar>a\<bar> div \<bar>b\<bar>" "\<bar>a\<bar> div \<bar>b\<bar> < \<bar>a\<bar>"
      using False nz by (simp_all add: pos_imp_zdiv_nonneg_iff int_div_less_self)
    then have "\<bar>a sdiv b\<bar> < \<bar>a\<bar>"
      using False nz unfolding signed_divide_int_def abs_mult by (auto simp: abs_sgn_eq)
    then show ?thesis using assms(1,2) by (auto simp: abs_if split: if_splits)
  qed simp
qed

lemma smod_range:
  assumes "b \<noteq> 0"
  shows "\<bar>(a :: int) smod b\<bar> < \<bar>b\<bar> \<and> \<bar>a smod b\<bar> \<le> \<bar>a\<bar> \<and> (a smod b \<noteq> 0 \<longrightarrow> sgn (a smod b) = sgn a)"
proof -
  have "a smod b = sgn a * (\<bar>a\<bar> mod \<bar>b\<bar>)" by (simp add: signed_modulo_int_def)
  moreover have "0 \<le> \<bar>a\<bar> mod \<bar>b\<bar>" "\<bar>a\<bar> mod \<bar>b\<bar> < \<bar>b\<bar>" "\<bar>a\<bar> mod \<bar>b\<bar> \<le> \<bar>a\<bar>"
    using assms by (simp_all add: zmod_le_nonneg_dividend)
  ultimately show ?thesis by (auto simp: sgn_if abs_mult)
qed

lemma sint_word_of_int:
  "- (2 ^ (LENGTH('a) - 1)) \<le> k \<Longrightarrow> k < 2 ^ (LENGTH('a) - 1) \<Longrightarrow> sint (word_of_int k :: 'a::len word) = k"
  by (simp add: signed_of_int signed_take_bit_int_eq_self)

text \<open>Quotient and remainder of the truncating division on words.\<close>

lemma word_division:
  fixes a b :: "'a::len word"
  assumes "b \<noteq> 0" and "\<not> (sint a = - (2 ^ (LENGTH('a) - 1)) \<and> sint b = -1)"
  shows "sint (word_of_int (sint a sdiv sint b) :: 'a word) = sint a sdiv sint b"
    and "sint (word_of_int (sint a smod sint b) :: 'a word) = sint a smod sint b"
proof -
  have r: "- (2 ^ (LENGTH('a) - 1)) \<le> sint x" "sint x < 2 ^ (LENGTH('a) - 1)" for x :: "'a word"
    using sint_greater_eq [of x] sint_less [of x] by simp_all
  show "sint (word_of_int (sint a sdiv sint b) :: 'a word) = sint a sdiv sint b"
    using sdiv_range [OF r(1) [of a] r(2) [of a] assms(2)] by (intro sint_word_of_int) auto
  have "sint b \<noteq> 0" using assms(1) by (simp add: signed_eq_0_iff)
  from smod_range [OF this, of "sint a"] r [of b]
  show "sint (word_of_int (sint a smod sint b) :: 'a word) = sint a smod sint b"
    by (intro sint_word_of_int) (auto simp: abs_if split: if_splits)
qed

text \<open>Java's division: \<open>q\<close> and \<open>m\<close> are quotient and remainder of \<open>a\<close> by \<open>b\<close>.\<close>

definition java_division :: "'a::len word \<Rightarrow> 'a word \<Rightarrow> 'a word \<Rightarrow> 'a word \<Rightarrow> bool" where
  "java_division a b q m \<longleftrightarrow> \<bar>sint m\<bar> < \<bar>sint b\<bar> \<and> (m = 0 \<or> sgn (sint m) = sgn (sint a))
     \<and> (if division_overflows a b then q = a \<and> m = 0 else sint a = sint q * sint b + sint m)"

lemma signed_division:
  assumes "b \<noteq> 0" and "\<not> division_overflows a b"
  shows "\<exists>q m. signed_quotient a b = Some q \<and> signed_remainder a b = Some m \<and> java_division a b q m"
proof -
  let ?q = "word_of_int (sint a sdiv sint b) :: 'a word" and ?m = "word_of_int (sint a smod sint b) :: 'a word"
  note d = word_division [OF assms(1) assms(2) [unfolded division_overflows_def]]
  have "sint b \<noteq> 0" using assms(1) by (simp add: signed_eq_0_iff)
  from smod_range [OF this, of "sint a"] d assms(2) have "java_division a b ?q ?m"
    by (auto simp: java_division_def sdiv_mult_smod_eq signed_eq_0_iff)
  with assms show ?thesis by (simp add: signed_quotient_def signed_remainder_def)
qed

lemma division_overflows_eq:
  "division_overflows (a :: u32) b \<longleftrightarrow> a = 0x80000000 \<and> b = -1"
  "division_overflows (c :: u64) d \<longleftrightarrow> c = 0x8000000000000000 \<and> d = -1"
proof -
  have "sint (0x80000000 :: u32) = - (2 ^ 31)" "sint (-1 :: u32) = -1" by simp_all
  then show "division_overflows a b \<longleftrightarrow> a = 0x80000000 \<and> b = -1"
    using signed_word_eqI [of a "0x80000000"] signed_word_eqI [of b "-1"] by (auto simp: division_overflows_def)
  have "sint (0x8000000000000000 :: u64) = - (2 ^ 63)" "sint (-1 :: u64) = -1" by simp_all
  then show "division_overflows c d \<longleftrightarrow> c = 0x8000000000000000 \<and> d = -1"
    using signed_word_eqI [of c "0x8000000000000000"] signed_word_eqI [of d "-1"] by (auto simp: division_overflows_def)
qed

text \<open>With a divisor other than 0 each of the four stores the value of Java's division.\<close>

lemma int_division_value:
  assumes "b \<noteq> 0"
  shows "\<exists>q m. DoIntDivide r a b f = map_option Inr (SetVReg r q f) \<and> DoIntRemainder r a b f = map_option Inr (SetVReg r m f)
    \<and> java_division a b q m"
proof (cases "division_overflows a b")
  case True
  then show ?thesis using assms
    by (intro exI [of _ a] exI [of _ 0]) (auto simp: DoIntDivide_def DoIntRemainder_def java_division_def division_overflows_eq)
next
  case False
  from signed_division [OF assms this] obtain q m where "signed_quotient a b = Some q" "signed_remainder a b = Some m" "java_division a b q m"
    by blast
  with False assms show ?thesis
    by (intro exI [of _ q] exI [of _ m]) (auto simp: DoIntDivide_def DoIntRemainder_def division_overflows_eq)
qed

lemma long_division_value:
  assumes "b \<noteq> 0"
  shows "\<exists>q m. DoLongDivide r a b f = map_option Inr (SetVRegLong r q f) \<and> DoLongRemainder r a b f = map_option Inr (SetVRegLong r m f)
    \<and> java_division a b q m"
proof (cases "division_overflows a b")
  case True
  then show ?thesis using assms
    by (intro exI [of _ a] exI [of _ 0]) (auto simp: DoLongDivide_def DoLongRemainder_def java_division_def division_overflows_eq)
next
  case False
  from signed_division [OF assms this] obtain q m where "signed_quotient a b = Some q" "signed_remainder a b = Some m" "java_division a b q m"
    by blast
  with False assms show ?thesis
    by (intro exI [of _ q] exI [of _ m]) (auto simp: DoLongDivide_def DoLongRemainder_def division_overflows_eq)
qed

text \<open>
  Claim C31. Division is Java's, for \<open>int\<close> and for \<open>long\<close>. In a frame with the result register (two of them for
  \<open>long\<close>) \<open>DoIntDivide\<close>, \<open>DoIntRemainder\<close>, \<open>DoLongDivide\<close> and \<open>DoLongRemainder\<close> throw exactly when the divisor
  is 0. Otherwise they store a quotient and a remainder with dividend = quotient * divisor + remainder, the
  remainder smaller than the divisor in magnitude and with the sign of the dividend, which makes the quotient the
  one truncated towards zero; the least value divided by -1, where the division of C++ is undefined, gives the
  least value and remainder 0.
\<close>

theorem int_division:
  assumes "frame_ok n f"
  shows "(r < n \<longrightarrow> (if b = 0 then DoIntDivide r a b f = Some (Inl ()) \<and> DoIntRemainder r a b f = Some (Inl ())
      else \<exists>fq fr q m. DoIntDivide r a b f = Some (Inr fq) \<and> GetVReg fq r = Some q \<and> frame_ok n fq
        \<and> DoIntRemainder r a b f = Some (Inr fr) \<and> GetVReg fr r = Some m \<and> frame_ok n fr \<and> java_division a b q m))
    \<and> (r + 1 < n \<longrightarrow> (if d = 0 then DoLongDivide r c d f = Some (Inl ()) \<and> DoLongRemainder r c d f = Some (Inl ())
      else \<exists>fq fr q m. DoLongDivide r c d f = Some (Inr fq) \<and> GetVRegLong fq r = Some q \<and> frame_ok n fq
        \<and> DoLongRemainder r c d f = Some (Inr fr) \<and> GetVRegLong fr r = Some m \<and> frame_ok n fr \<and> java_division c d q m))"
proof -
  have "\<exists>fq fr q m. DoIntDivide r a b f = Some (Inr fq) \<and> GetVReg fq r = Some q \<and> frame_ok n fq
        \<and> DoIntRemainder r a b f = Some (Inr fr) \<and> GetVReg fr r = Some m \<and> frame_ok n fr \<and> java_division a b q m"
    if r: "b \<noteq> 0" "r < n"
  proof -
    from int_division_value [OF r(1), of r a f] obtain q m where qm: "DoIntDivide r a b f = map_option Inr (SetVReg r q f)"
      "DoIntRemainder r a b f = map_option Inr (SetVReg r m f)" "java_division a b q m" by blast
    obtain fq fr where "SetVReg r q f = Some fq" "frame_ok n fq" "SetVReg r m f = Some fr" "frame_ok n fr"
      using int_view.set_ok [OF assms, of r q] int_view.set_ok [OF assms, of r m] r(2) by auto
    with qm int_view.get_set [of r q f fq] int_view.get_set [of r m f fr] show ?thesis by auto
  qed
  moreover have "\<exists>fq fr q m. DoLongDivide r c d f = Some (Inr fq) \<and> GetVRegLong fq r = Some q \<and> frame_ok n fq
        \<and> DoLongRemainder r c d f = Some (Inr fr) \<and> GetVRegLong fr r = Some m \<and> frame_ok n fr \<and> java_division c d q m"
    if r: "d \<noteq> 0" "r + 1 < n"
  proof -
    from long_division_value [OF r(1), of r c f] obtain q m where qm: "DoLongDivide r c d f = map_option Inr (SetVRegLong r q f)"
      "DoLongRemainder r c d f = map_option Inr (SetVRegLong r m f)" "java_division c d q m" by blast
    obtain fq fr where "SetVRegLong r q f = Some fq" "frame_ok n fq" "SetVRegLong r m f = Some fr" "frame_ok n fr"
      using long_view.set_ok [OF assms, of r q] long_view.set_ok [OF assms, of r m] r(2) by auto
    with qm long_view.get_set [of r q f fq] long_view.get_set [of r m f fr] show ?thesis by auto
  qed
  ultimately show ?thesis
    by (simp add: DoIntDivide_def DoIntRemainder_def DoLongDivide_def DoLongRemainder_def)
qed

theorem int_division_witness:
  "(\<exists>fq q. DoIntDivide 0 (-7) 2 (Create 2 0) = Some (Inr fq) \<and> GetVReg fq 0 = Some q \<and> q = -3)
    \<and> DoLongRemainder 0 5 0 (Create 2 0) = Some (Inl ())"
proof -
  have "frame_ok 2 (Create 2 0)" using Create_ok [of 2 0] by simp
  from int_division [OF this, of 0 2 "-7" 0 5] obtain fq q where
    "DoIntDivide 0 (-7) 2 (Create 2 0) = Some (Inr fq)" "GetVReg fq 0 = Some q" "DoLongRemainder 0 5 0 (Create 2 0) = Some (Inl ())"
    by auto
  moreover have "map_option (\<lambda>x. GetVReg (projr x) 0) (DoIntDivide 0 (-7) 2 (Create 2 0)) = Some (Some (-3))" by code_simp
  ultimately show ?thesis by auto
qed

section \<open>Switch tables\<close>

lemma Fetch32_two_units: "Fetch32 insns i k = two_units insns (i + k)"
  by (simp add: Fetch32_def two_units_def Fetch16_def)

text \<open>Binary search over strictly ascending keys is lookup.\<close>

lemma sparse_search_lookup:
  assumes "\<And>i. i < n \<Longrightarrow> two_units insns (keys + 2 * i) = Some (key i)"
    and "\<And>i. i < n \<Longrightarrow> two_units insns (entries + 2 * i) = Some (target i)"
    and "\<And>i j. i < j \<Longrightarrow> j < n \<Longrightarrow> sint (key i) < sint (key j)"
    and "0 \<le> lo" and "hi < int n" and "\<And>i. i < n \<Longrightarrow> key i = t \<Longrightarrow> lo \<le> int i \<and> int i \<le> hi"
  shows "(\<exists>i < n. key i = t \<and> sparse_search insns keys entries t lo hi = Some (target i))
    \<or> ((\<forall>i < n. key i \<noteq> t) \<and> sparse_search insns keys entries t lo hi = Some 3)"
  using assms(4-6)
proof (induction "nat (hi - lo + 1)" arbitrary: lo hi rule: less_induct)
  case less
  show ?case
  proof (cases "lo \<le> hi")
    case False
    then show ?thesis using less.prems(3) by (force simp: sparse_search.simps [of insns])
  next
    case True
    define mid where "mid = (lo + hi) div 2"
    with True less.prems(1,2) have mid: "lo \<le> mid" "mid \<le> hi" "nat mid < n" "int (nat mid) = mid" by auto
    have other: "key i \<noteq> t \<or> int i \<le> mid - 1" if "sint t < sint (key (nat mid))" "i < n" for i
      using that assms(3) [of "nat mid" i] mid by (cases "nat mid < i"; cases "nat mid = i") auto
    have other': "key i \<noteq> t \<or> mid + 1 \<le> int i" if "sint t > sint (key (nat mid))" "i < n" for i
      using that assms(3) [of i "nat mid"] mid by (cases "i < nat mid"; cases "nat mid = i") auto
    note unf = sparse_search.simps [of insns keys entries t lo hi]
    consider "sint t < sint (key (nat mid))" | "sint t > sint (key (nat mid))" | "t = key (nat mid)"
      using signed_word_eqI linorder_less_linear by blast
    then show ?thesis
    proof cases
      case 1
      have "sparse_search insns keys entries t lo hi = sparse_search insns keys entries t lo (mid - 1)"
        using True 1 assms(1) [OF mid(3)] by (simp add: unf Let_def mid_def)
      moreover have "lo \<le> int i \<and> int i \<le> mid - 1" if "i < n" "key i = t" for i
        using other [OF 1 that(1)] less.prems(3) [OF that] that(2) by simp
      ultimately show ?thesis using less.hyps [of "mid - 1" lo] mid less.prems(1,2) by simp
    next
      case 2
      have "sparse_search insns keys entries t lo hi = sparse_search insns keys entries t (mid + 1) hi"
        using True 2 assms(1) [OF mid(3)] by (simp add: unf Let_def mid_def)
      moreover have "mid + 1 \<le> int i \<and> int i \<le> hi" if "i < n" "key i = t" for i
        using other' [OF 2 that(1)] less.prems(3) [OF that] that(2) by simp
      ultimately show ?thesis using less.hyps [of hi "mid + 1"] mid less.prems(1,2) by simp
    next
      case 3
      have "sparse_search insns keys entries t lo hi = Some (target (nat mid))"
        by (subst unf) (simp only: True Let_def mid_def [symmetric] assms(1,2) [OF mid(3)] 3 option.case less_irrefl
            if_True if_False)
      then show ?thesis using 3 mid(3) by (intro disjI1 exI [of _ "nat mid"]) simp
    qed
  qed
qed

text \<open>What the static pass establishes of the keys of a sparse switch.\<close>

lemma check_keys_sorted:
  assumes "check_keys insns k last_key n = Some True"
  shows "\<exists>ks. length ks = n \<and> (\<forall>i < n. two_units insns (k + 2 * i) = Some (ks ! i))
    \<and> sorted_wrt (\<lambda>x y. sint x < sint y) (last_key # ks)"
  using assms
proof (induction n arbitrary: k last_key)
  case 0
  then show ?case by simp
next
  case (Suc n)
  from Suc.prems obtain key where key: "two_units insns k = Some key" "sint last_key < sint key"
    and rest: "check_keys insns (k + 2) key n = Some True"
    by (auto simp: bind_eq_Some_conv split: if_splits)
  from Suc.IH [OF rest] obtain ks where ks: "length ks = n" "\<forall>i < n. two_units insns (k + 2 + 2 * i) = Some (ks ! i)"
    "sorted_wrt (\<lambda>x y. sint x < sint y) (key # ks)"
    by blast
  have "two_units insns (k + 2 * i) = Some ((key # ks) ! i)" if "i < Suc n" for i
    using that key(1) ks(2) by (cases i) auto
  moreover have "sorted_wrt (\<lambda>x y. sint x < sint y) (last_key # key # ks)" using key(2) ks(3) by auto
  ultimately show ?case using ks(1) by (intro exI [of _ "key # ks"]) simp
qed

lemma CheckSwitchTargets_keys:
  assumes "CheckSwitchTargets c pc u = Some (True, w)"
  obtains off s count d keys_ok where "two_units (code_units c) (unat pc + 1) = Some off"
    and "signed_sum pc off = Some s" and "\<not> s < 0" and "Fetch16 (code_units c) (nat s) 1 = Some count"
    and "Fetch16 (code_units c) (unat pc) 0 = Some d"
    and "(if Opcode_of d \<noteq> PACKED_SWITCH \<and> unat count > 1
          then do { last_key \<leftarrow> two_units (code_units c) (nat s + 2);
                    check_keys (code_units c) (nat s + 4) last_key (unat count - 1) }
          else Some True) = Some keys_ok" and keys_ok
    and "check_switch_targets c pc (nat s + (if Opcode_of d = PACKED_SWITCH then 4 else 2 + 2 * unat count)) (unat count) u = Some (True, w)"
  using assms unfolding CheckSwitchTargets_def Let_def
  by (simp only: bind_eq_Some_conv passes_if not_not de_Morgan_disj) (elim exE conjE, rule that, assumption+)

definition switch_key :: "insns \<Rightarrow> bool \<Rightarrow> nat \<Rightarrow> nat \<Rightarrow> u32 option" where
  "switch_key insns packed table i =
     (if packed then map_option (\<lambda>k. k + word_of_nat i) (two_units insns (table + 2)) else two_units insns (table + 2 + 2 * i))"

definition switch_target :: "insns \<Rightarrow> bool \<Rightarrow> nat \<Rightarrow> nat \<Rightarrow> nat \<Rightarrow> u32 option" where
  "switch_target insns packed table count i =
     two_units insns (table + (if packed then 4 else 2 + 2 * count) + 2 * i)"

lemma int_less_uint: "int i < uint (x :: u16) \<longleftrightarrow> i < unat x"
proof -
  have "uint x = int (unat x)" by simp
  then show ?thesis by (simp only: of_nat_less_iff)
qed

lemma two_units_below: "two_units insns l = Some x \<Longrightarrow> k \<le> l \<Longrightarrow> \<exists>y. two_units insns k = Some y"
  by (auto simp: two_units_def Fetch16_def bind_eq_Some_conv split: if_splits)

lemma verified_keys:
  assumes "(if \<not> packed \<and> unat count > 1
          then do { last_key \<leftarrow> two_units insns (table + 2);
                    check_keys insns (table + 4) last_key (unat count - 1) }
          else Some True) = Some True"
    and "\<not> packed" and "unat (count :: u16) \<noteq> 0" and "two_units insns (table + 2 + 2 * unat count) = Some x"
  shows "\<exists>ks. length ks = unat count \<and> (\<forall>i < unat count. two_units insns (table + 2 + 2 * i) = Some (ks ! i))
    \<and> sorted_wrt (\<lambda>x y. sint x < sint y) ks"
proof (cases "unat count > 1")
  case True
  with assms(1,2) obtain k where k: "two_units insns (table + 2) = Some k"
    and chk: "check_keys insns (table + 4) k (unat count - 1) = Some True"
    by (auto simp: bind_eq_Some_conv)
  from check_keys_sorted [OF chk] obtain ks where ks: "length ks = unat count - 1"
    "\<forall>i < unat count - 1. two_units insns (table + 4 + 2 * i) = Some (ks ! i)"
    "sorted_wrt (\<lambda>x y. sint x < sint y) (k # ks)"
    by blast
  have "two_units insns (table + 2 + 2 * i) = Some ((k # ks) ! i)" if "i < unat count" for i
  proof (cases i)
    case (Suc j)
    with that ks(2) have "two_units insns (table + 4 + 2 * j) = Some (ks ! j)" by simp
    then show ?thesis by (simp add: Suc add.commute [of table] algebra_simps numeral_eq_Suc)
  qed (use k in simp)
  then show ?thesis using ks(1,3) True by (intro exI [of _ "k # ks"]) auto
next
  case False
  with assms(3) have "unat count = 1" by simp
  moreover from this assms(4) obtain y where "two_units insns (table + 2) = Some y"
    using two_units_below [OF assms(4), of "table + 2"] by auto
  ultimately show ?thesis by (intro exI [of _ "[y]"]) simp
qed

lemma packed_index:
  assumes "i < unat (count :: u16)"
  shows "t = fk + word_of_nat i \<longleftrightarrow> sint (t - fk :: u32) = int i"
proof -
  have "i < 2 ^ 31" using assms unat_u16_less [of count] by simp
  then have i: "sint (word_of_nat i :: u32) = int i" by (rule sint_word_of_nat_small)
  have "t = fk + word_of_nat i \<longleftrightarrow> t - fk = word_of_nat i" by (auto simp: algebra_simps)
  also have "\<dots> \<longleftrightarrow> sint (t - fk) = sint (word_of_nat i :: u32)" by (auto intro: signed_word_eqI)
  finally show ?thesis by (simp only: i)
qed

lemma packed_lookup:
  assumes "payload_at insns pc = Some table" and "Fetch16 insns table 1 = Some count" and "count \<noteq> 0"
    and "two_units insns (table + 2) = Some fk" and "\<And>i. i < unat count \<Longrightarrow> two_units insns (table + 4 + 2 * i) = Some (target i)"
    and "GetVReg f (unat (VRegA_31t d)) = Some t"
  shows "\<exists>r. DoPackedSwitch insns pc d f = Some r
    \<and> ((\<exists>i < unat count. fk + word_of_nat i = t \<and> target i = r) \<or> ((\<forall>i < unat count. fk + word_of_nat i \<noteq> t) \<and> r = 3))"
proof -
  let ?x = "sint (t - fk)"
  have run: "DoPackedSwitch insns pc d f
      = (if 0 \<le> ?x \<and> ?x < uint count then two_units insns (table + 4 + 2 * nat ?x) else Some 3)"
    using assms(1-4,6) by (simp add: DoPackedSwitch_def Let_def)
  have index: "fk + word_of_nat i = t \<longleftrightarrow> ?x = int i" if "i < unat count" for i
    using packed_index [OF that, of t fk] by auto
  show ?thesis
  proof (cases "0 \<le> ?x \<and> ?x < uint count")
    case True
    then have n: "nat ?x < unat count" by (simp add: nat_less_iff)
    with True run assms(5) [OF n] index [OF n] show ?thesis
      by (intro exI [of _ "target (nat ?x)"]) (auto intro!: exI [of _ "nat ?x"])
  next
    case False
    then have "fk + word_of_nat i \<noteq> t" if "i < unat count" for i
      using index [OF that] that by (auto simp: int_less_uint)
    with False run show ?thesis by auto
  qed
qed

lemma sparse_lookup:
  assumes "payload_at insns pc = Some table" and "Fetch16 insns table 1 = Some count" and "count \<noteq> 0"
    and "length ks = unat count" and "\<forall>i < unat count. two_units insns (table + 2 + 2 * i) = Some (ks ! i)"
    and "sorted_wrt (\<lambda>x y. sint x < sint y) ks"
    and "\<And>i. i < unat count \<Longrightarrow> two_units insns (table + (2 + 2 * unat count) + 2 * i) = Some (target i)"
    and "GetVReg f (unat (VRegA_31t d)) = Some t"
  shows "\<exists>r. DoSparseSwitch insns pc d f = Some r
    \<and> ((\<exists>i < unat count. ks ! i = t \<and> target i = r) \<or> ((\<forall>i < unat count. ks ! i \<noteq> t) \<and> r = 3))"
proof -
  have run: "DoSparseSwitch insns pc d f
      = sparse_search insns (table + 2) (table + 2 + 2 * unat count) t 0 (int (unat count) - 1)"
    using assms(1-3,8) by (simp add: DoSparseSwitch_def Let_def)
  have "(\<exists>i < unat count. ks ! i = t \<and> DoSparseSwitch insns pc d f = Some (target i))
      \<or> ((\<forall>i < unat count. ks ! i \<noteq> t) \<and> DoSparseSwitch insns pc d f = Some 3)"
    unfolding run
  proof (rule sparse_search_lookup)
    show "two_units insns (table + 2 + 2 * i) = Some (ks ! i)" if "i < unat count" for i using that assms(5) by simp
    show "two_units insns (table + 2 + 2 * unat count + 2 * i) = Some (target i)" if "i < unat count" for i
      using assms(7) [OF that] by (simp only: add.assoc)
    show "sint (ks ! i) < sint (ks ! j)" if "i < j" "j < unat count" for i j
      using sorted_wrt_nth_less [OF assms(6) that(1)] that assms(4) by simp
  qed (auto simp: int_less_uint)
  then show ?thesis by blast
qed

lemma switch_lookup:
  assumes "CheckSwitchTargets c (word_of_nat pc) u = Some (True, w)" and "pc < 2 ^ 31"
    and "Fetch16 (code_units c) pc 0 = Some d" and "Opcode_of d = PACKED_SWITCH \<longleftrightarrow> packed"
    and "GetVReg f (unat (VRegA_31t d)) = Some t"
  shows "\<exists>table count r. payload_at (code_units c) pc = Some table \<and> Fetch16 (code_units c) table 1 = Some count
    \<and> (if packed then DoPackedSwitch else DoSparseSwitch) (code_units c) pc d f = Some r
    \<and> ((\<exists>i < unat count. switch_key (code_units c) packed table i = Some t
           \<and> switch_target (code_units c) packed table (unat count) i = Some r)
        \<or> ((\<forall>i < unat count. switch_key (code_units c) packed table i \<noteq> Some t) \<and> r = 3))"
proof -
  let ?insns = "code_units c"
  have pc: "unat (word_of_nat pc :: u32) = pc" using assms(2) by (simp add: unat_word_of_nat_u32)
  obtain off s count where off: "two_units ?insns (pc + 1) = Some off" and s: "signed_sum (word_of_nat pc) off = Some s" "\<not> s < 0"
    and count: "Fetch16 ?insns (nat s) 1 = Some count"
    and keys: "(if \<not> packed \<and> unat count > 1
          then do { last_key \<leftarrow> two_units ?insns (nat s + 2);
                    check_keys ?insns (nat s + 4) last_key (unat count - 1) }
          else Some True) = Some True"
    and tgt: "check_switch_targets c (word_of_nat pc) (nat s + (if packed then 4 else 2 + 2 * unat count)) (unat count) u = Some (True, w)"
    by (rule CheckSwitchTargets_keys [OF assms(1)]) (use assms(3,4) pc in simp)
  let ?table = "nat s"
  have table: "payload_at ?insns pc = Some ?table"
    using off s signed_sum_Some [OF s(1)] sint_word_of_nat_small [OF assms(2)]
    by (simp add: payload_at_def VRegB_31t_def Fetch32_two_units RelativeAt_def)
  from check_switch_targets_pass [OF tgt]
  have targets: "\<exists>r. switch_target ?insns packed ?table (unat count) i = Some r" if "i < unat count" for i
    using that by (force simp: switch_target_def)
  show ?thesis
  proof (cases "unat count = 0")
    case True
    then have "count = 0" by (simp add: unat_eq_0)
    with table count assms(5) show ?thesis
      by (intro exI [of _ ?table] exI [of _ count] exI [of _ 3])
        (auto simp: DoPackedSwitch_def DoSparseSwitch_def)
  next
    case nz: False
    then have c0: "count \<noteq> 0" by auto
    define target where "target i = the (switch_target ?insns packed ?table (unat count) i)" for i
    have target: "switch_target ?insns packed ?table (unat count) i = Some (target i)" if "i < unat count" for i
      using targets [OF that] by (auto simp: target_def)
    from target [of 0] nz have first: "two_units ?insns (?table + (if packed then 4 else 2 + 2 * unat count)) = Some (target 0)"
      by (simp add: switch_target_def)
    show ?thesis
    proof (cases packed)
      case True
      from first True obtain fk where fk: "two_units ?insns (?table + 2) = Some fk"
        using two_units_below [OF first, of "?table + 2"] by auto
      have "two_units ?insns (?table + 4 + 2 * i) = Some (target i)" if "i < unat count" for i
        using target [OF that] True by (simp add: switch_target_def)
      from packed_lookup [OF table count c0 fk this assms(5)] obtain r where
        r: "DoPackedSwitch ?insns pc d f = Some r"
        "(\<exists>i < unat count. fk + word_of_nat i = t \<and> target i = r) \<or> ((\<forall>i < unat count. fk + word_of_nat i \<noteq> t) \<and> r = 3)"
        by blast
      have "switch_key ?insns packed ?table i = Some (fk + word_of_nat i)" for i
        using fk True by (simp only: switch_key_def if_True option.map)
      with r target table count True show ?thesis
        by (intro exI [of _ ?table] exI [of _ count] exI [of _ r]) auto
    next
      case False
      with first have "two_units ?insns (?table + 2 + 2 * unat count) = Some (target 0)" by (simp only: if_False add.assoc)
      from verified_keys [OF keys False nz this] obtain ks where ks: "length ks = unat count"
        "\<forall>i < unat count. two_units ?insns (?table + 2 + 2 * i) = Some (ks ! i)" "sorted_wrt (\<lambda>x y. sint x < sint y) ks"
        by blast
      have "two_units ?insns (?table + (2 + 2 * unat count) + 2 * i) = Some (target i)" if "i < unat count" for i
        using target [OF that] False by (simp only: switch_target_def if_False)
      from sparse_lookup [OF table count c0 ks this assms(5)] obtain r where
        r: "DoSparseSwitch ?insns pc d f = Some r"
        "(\<exists>i < unat count. ks ! i = t \<and> target i = r) \<or> ((\<forall>i < unat count. ks ! i \<noteq> t) \<and> r = 3)"
        by blast
      have "switch_key ?insns packed ?table i = Some (ks ! i)" if "i < unat count" for i
        using ks(2) that False by (simp add: switch_key_def)
      with r target table count False show ?thesis
        by (intro exI [of _ ?table] exI [of _ count] exI [of _ r]) auto
    qed
  qed
qed

text \<open>
  Claim C29. Switches select by key: in code the static pass accepts, \<open>DoSparseSwitch\<close> (a binary
  search) and \<open>DoPackedSwitch\<close> terminate inside the code and return the offset stored for the case
  whose key equals the tested register, or 3, the size of the instruction, when there is none. The
  keys of a packed switch are \<open>first_key\<close> and its successors.
\<close>

theorem switches_select:
  assumes "CheckSwitchTargets c (word_of_nat pc) u = Some (True, w)" and "pc < 2 ^ 31"
    and "Fetch16 (code_units c) pc 0 = Some d" and "Opcode_of d = PACKED_SWITCH \<longleftrightarrow> packed"
    and "GetVReg f (unat (VRegA_31t d)) = Some t"
  shows "\<exists>table count r. payload_at (code_units c) pc = Some table \<and> Fetch16 (code_units c) table 1 = Some count
    \<and> (if packed then DoPackedSwitch else DoSparseSwitch) (code_units c) pc d f = Some r
    \<and> ((\<exists>i < unat count. switch_key (code_units c) packed table i = Some t
           \<and> switch_target (code_units c) packed table (unat count) i = Some r)
        \<or> ((\<forall>i < unat count. switch_key (code_units c) packed table i \<noteq> Some t) \<and> r = 3))"
  using assms by (rule switch_lookup)

text \<open>\<open>sparse-switch v0, +4; nop; payload with keys -1 and 5 and both targets 3\<close>, accepted with the opcodes at 0 and 3 flagged.\<close>

definition sample_switch :: CodeItem where
  "sample_switch = \<lparr>code_item_ptr = 0, registers_size = 1, ins_size = 0, tries_size = 0, insns_size_in_code_units = 14,
     code_units = [0x002c, 0x0004, 0x0000, 0x0000, 0x0200, 0x0002, 0xffff, 0xffff, 0x0005, 0x0000, 0x0003, 0x0000, 0x0003, 0x0000]\<rparr>"

theorem switches_select_witness:
  "\<exists>r. DoSparseSwitch (code_units sample_switch) 0 0x002c (Create 1 0) = Some r"
proof -
  let ?v = "(sample_verifier sample_switch)\<lparr>insn_flags := [4, 0, 0, 4, 4, 0, 0, 0, 0, 0, 0, 0, 0, 0]\<rparr>"
  have "map_option fst (CheckSwitchTargets sample_switch (word_of_nat 0) ?v) = Some True" by code_simp
  then obtain w where w: "CheckSwitchTargets sample_switch (word_of_nat 0) ?v = Some (True, w)"
    by (auto simp: map_option_eq_Some)
  have "Fetch16 (code_units sample_switch) 0 0 = Some 0x002c" "Opcode_of 0x002c = PACKED_SWITCH \<longleftrightarrow> False"
    "GetVReg (Create 1 0) (unat (VRegA_31t 0x002c)) = Some 0"
    by code_simp+
  from switches_select [OF w _ this] show ?thesis by auto
qed

end
