(* ===== verification/Interpreter.thy ===== *)
theory Interpreter
  imports ShadowFrame UnpackFilter
begin

text \<open>
  The switch interpreter: \<open>art/runtime/interpreter/interpreter_switch_impl.cc\<close> with the helpers of
  \<open>interpreter_common.cc\<close>, \<open>interpreter_common.h\<close>, \<open>ArtMethod::FindCatchBlock\<close> and \<open>FillArrayData\<close>.

  A handler takes the position of the instruction, its first code unit and the state, and yields an
  outcome; \<open>None\<close> is an access outside the frame or outside the code. The rest of the runtime (class
  linker, heap, monitors, the callee of an invoke) is reached through requests that a parameter of the
  model answers; so are the operations of the floating-point unit, on bit patterns. Objects are the
  32-bit references the frame stores. Left out: instrumentation listeners, thread suspension,
  assertions of debug builds, the \<open>CHECK\<close>s that a request answered with null left an exception pending
  and that a class has an embedded method table, and the recording of heap writes in a transaction.
\<close>

section \<open>State\<close>

datatype Primitive = kPrimBoolean | kPrimByte | kPrimChar | kPrimShort | kPrimInt | kPrimLong | kPrimNot

datatype exception_kind =
    NullPointerException
  | NullPointerExceptionForFieldAccess u32 bool
  | ArithmeticExceptionDivideByZero
  | ArrayIndexOutOfBoundsException u32 u32
  | ClassCastException u32 u32
  | NegativeArraySizeException u32
  | AbstractMethodError u32
  | VirtualMachineError
  | RuntimeException
  | InternalError
  | TransactionAbortError

datatype request =
    Throw exception_kind
  | ResolveString u32
  | ResolveVerifyAndClinit u32
  | MonitorEnter u32
  | MonitorExit u32
  | GetClass u32
  | InstanceOf u32 u32
  | VerifierInstanceOf u32 u32
  | IsAssignableFrom u32 u32
  | IsThrowableClass u32
  | IsStringClass u32
  | IsFinalizable u32
  | IsArrayClass u32
  | ComponentIsPrimitive u32
  | ComponentIsPrimitiveInt u32
  | ComponentIsPrimitiveWide u32
  | GetReturnType
  | GetClassFromTypeIndex u16
  | AllocString
  | AllocObjectFromCode u32
  | AllocArrayFromCode u32 u32
  | AllocArray u32 u32
  | GetLength u32
  | GetElement Primitive u32 u32
  | SetElement Primitive u32 u32 u64
  | CheckAssignable u32 u32
  | CopyRawData u32 u16 "u16 list" u32
  | FindFieldFromCode bool bool Primitive u32
  | GetDeclaringClass u32
  | GetFieldType u32
  | GetField Primitive u32 u32
  | SetField Primitive u32 u32 u64
  | GetFieldAt Primitive u32 u16
  | SetFieldAt Primitive u32 u16 u64
  | FindMethodFromCode InvokeType u32 u32
  | GetEmbeddedVTableEntry u32 u32
  | IsAbstract u32
  | DoCall bool u32 nat u16

record 'w istate =
  frame :: ShadowFrame
  result_register :: JValue
  pending :: u32
  code :: insns
  world :: 'w

type_synonym 'w answers = "request \<Rightarrow> 'w istate \<Rightarrow> u64 \<times> 'w istate"

record fpu =
  float_add :: "u32 \<Rightarrow> u32 \<Rightarrow> u32"
  float_sub :: "u32 \<Rightarrow> u32 \<Rightarrow> u32"
  float_mul :: "u32 \<Rightarrow> u32 \<Rightarrow> u32"
  float_div :: "u32 \<Rightarrow> u32 \<Rightarrow> u32"
  float_fmod :: "u32 \<Rightarrow> u32 \<Rightarrow> u32"
  float_neg :: "u32 \<Rightarrow> u32"
  float_less :: "u32 \<Rightarrow> u32 \<Rightarrow> bool"
  float_eq :: "u32 \<Rightarrow> u32 \<Rightarrow> bool"
  double_add :: "u64 \<Rightarrow> u64 \<Rightarrow> u64"
  double_sub :: "u64 \<Rightarrow> u64 \<Rightarrow> u64"
  double_mul :: "u64 \<Rightarrow> u64 \<Rightarrow> u64"
  double_div :: "u64 \<Rightarrow> u64 \<Rightarrow> u64"
  double_fmod :: "u64 \<Rightarrow> u64 \<Rightarrow> u64"
  double_neg :: "u64 \<Rightarrow> u64"
  double_less :: "u64 \<Rightarrow> u64 \<Rightarrow> bool"
  double_eq :: "u64 \<Rightarrow> u64 \<Rightarrow> bool"
  int_to_float :: "int \<Rightarrow> u32"
  int_to_double :: "int \<Rightarrow> u64"
  float_to_double :: "u32 \<Rightarrow> u64"
  double_to_float :: "u64 \<Rightarrow> u32"
  float_truncate :: "u32 \<Rightarrow> int"
  double_truncate :: "u64 \<Rightarrow> int"

text \<open>The template arguments and parameters of \<open>ExecuteSwitchImpl\<close>, and the code item of the method.\<close>

record 'w config =
  rt :: "'w answers"
  fp :: fpu
  do_access_check :: bool
  transaction_active :: bool
  force_invoke_flag :: u32
  char_signed :: bool
  method_code :: CodeItem
  method_dex_file :: DexFile

datatype 'w outcome = Continue nat "'w istate" | Return JValue "'w istate" | NewCodeItem "'w istate" | Fatal

type_synonym 'w handler = "'w config \<Rightarrow> nat \<Rightarrow> u16 \<Rightarrow> 'w istate \<Rightarrow> 'w outcome option"

definition ask :: "'w config \<Rightarrow> request \<Rightarrow> 'w istate \<Rightarrow> u32 \<times> 'w istate" where
  "ask cfg q s = (case rt cfg q s of (v, s) \<Rightarrow> (ucast v, s))"

definition tell :: "'w config \<Rightarrow> request \<Rightarrow> 'w istate \<Rightarrow> 'w istate" where
  "tell cfg q s = snd (rt cfg q s)"

definition throw_exception :: "'w config \<Rightarrow> exception_kind \<Rightarrow> 'w istate \<Rightarrow> 'w istate" where
  "throw_exception cfg k s = tell cfg (Throw k) s"

definition ClearPending :: "'w istate \<Rightarrow> 'w istate" where
  "ClearPending s = s\<lparr>pending := 0\<rparr>"

definition SetPending :: "u32 \<Rightarrow> 'w istate \<Rightarrow> 'w istate" where
  "SetPending e s = s\<lparr>pending := e\<rparr>"

definition IsExceptionPending :: "'w istate \<Rightarrow> bool" where
  "IsExceptionPending s \<longleftrightarrow> pending s \<noteq> 0"

text \<open>\<open>inst = inst->RelativeAt(offset)\<close>, and \<open>Next_1xx\<close>, \<open>Next_2xx\<close>, \<open>Next_3xx\<close>, \<open>Next_51l\<close> with offset 1, 2, 3, 5.\<close>

definition advance :: "u32 \<Rightarrow> nat \<Rightarrow> 'w istate \<Rightarrow> 'w outcome option" where
  "advance offset inst s = do { i \<leftarrow> RelativeAt inst offset; Some (Continue i s) }"

definition put_reg :: "('v \<Rightarrow> ShadowFrame \<Rightarrow> ShadowFrame option) \<Rightarrow> 'v \<Rightarrow> 'w istate \<Rightarrow> 'w istate option" where
  "put_reg set_it v s = do { f \<leftarrow> set_it v (frame s); Some (s\<lparr>frame := f\<rparr>) }"

section \<open>Exceptions\<close>

function catch_loop ::
  "'w config \<Rightarrow> u32 \<Rightarrow> CatchHandlerIterator \<Rightarrow> 'w istate \<Rightarrow> (u32 \<times> 'w istate) option" where
  "catch_loop cfg exception_type it s =
     (if chi_HasNext it
      then if handler_type_idx it = kDexNoIndex16 then Some (handler_address it, s)
           else
             let (iter_exception_type, s) = ask cfg (GetClassFromTypeIndex (handler_type_idx it)) s
             in if iter_exception_type = 0
                then (case chi_Next (begin_of (method_dex_file cfg)) it of
                        None \<Rightarrow> None
                      | Some it' \<Rightarrow> catch_loop cfg exception_type it' (ClearPending s))
                else
                  let (assignable, s) = ask cfg (IsAssignableFrom iter_exception_type exception_type) s
                  in if assignable \<noteq> 0 then Some (handler_address it, s)
                     else (case chi_Next (begin_of (method_dex_file cfg)) it of
                             None \<Rightarrow> None
                           | Some it' \<Rightarrow> catch_loop cfg exception_type it' s)
      else Some (kDexNoIndex, s))"
  by pat_completeness auto
termination
  by (relation "measure (\<lambda>(_, _, it, _). (if chi_HasNext it then 1 else 0)
      + nat (sint (remaining_count it)) + (if catch_all it then 1 else 0))")
    (auto dest: chi_Next_measure)

declare catch_loop.simps [simp del]

definition FindCatchBlock ::
  "'w config \<Rightarrow> u32 \<Rightarrow> u32 \<Rightarrow> 'w istate \<Rightarrow> (u32 \<times> bool \<times> 'w istate) option" where
  "FindCatchBlock cfg exception_type dex_pc s = do {
     let exc = pending s;
     let s = ClearPending s;
     it \<leftarrow> make_CatchHandlerIterator 0 (method_dex_file cfg) (code_item_ptr (method_code cfg)) dex_pc;
     (found_dex_pc, s) \<leftarrow> catch_loop cfg exception_type it s;
     has_no_move_exception \<leftarrow>
       (if found_dex_pc \<noteq> kDexNoIndex
        then map_option (\<lambda>op. op \<noteq> MOVE_EXCEPTION) (Opcode (code s) (unat found_dex_pc)) else Some False);
     let s = (if exc \<noteq> 0 then SetPending exc s else s);
     Some (found_dex_pc, has_no_move_exception, s)
   }"

definition FindNextInstructionFollowingException ::
  "'w config \<Rightarrow> u32 \<Rightarrow> 'w istate \<Rightarrow> (u32 \<times> 'w istate) option" where
  "FindNextInstructionFollowingException cfg dex_pc s = do {
     let (exception_type, s) = ask cfg (GetClass (pending s)) s;
     (found_dex_pc, clear_exception, s) \<leftarrow> FindCatchBlock cfg exception_type dex_pc s;
     Some (found_dex_pc, if found_dex_pc \<noteq> kDexNoIndex \<and> clear_exception then ClearPending s else s)
   }"

text \<open>The macros \<open>HANDLE_PENDING_EXCEPTION\<close> and \<open>POSSIBLY_HANDLE_PENDING_EXCEPTION\<close>.\<close>

definition handle_pending_exception :: "'w config \<Rightarrow> nat \<Rightarrow> 'w istate \<Rightarrow> 'w outcome option" where
  "handle_pending_exception cfg inst s = do {
     (found_dex_pc, s) \<leftarrow> FindNextInstructionFollowingException cfg (GetDexPc inst) s;
     (if found_dex_pc = kDexNoIndex then Some (Return 0 s)
      else advance (found_dex_pc - GetDexPc inst) inst s)
   }"

definition possibly_handle :: "'w config \<Rightarrow> bool \<Rightarrow> u32 \<Rightarrow> nat \<Rightarrow> 'w istate \<Rightarrow> 'w outcome option" where
  "possibly_handle cfg is_pending size_of_inst inst s =
     (if is_pending then handle_pending_exception cfg inst s else advance size_of_inst inst s)"

definition throw_here :: "'w config \<Rightarrow> exception_kind \<Rightarrow> nat \<Rightarrow> 'w istate \<Rightarrow> 'w outcome option" where
  "throw_here cfg k inst s = handle_pending_exception cfg inst (throw_exception cfg k s)"

section \<open>Moves, constants and results\<close>

text \<open>\<open>Set(vA, f(Get(vB)))\<close> for formats 12x, 22x and 32x.\<close>

definition unop_12x ::
  "(ShadowFrame \<Rightarrow> nat \<Rightarrow> 'a option) \<Rightarrow> ('a \<Rightarrow> 'b) \<Rightarrow> (nat \<Rightarrow> 'b \<Rightarrow> ShadowFrame \<Rightarrow> ShadowFrame option) \<Rightarrow> 'w handler" where
  "unop_12x get f set_reg cfg inst inst_data s = do {
     x \<leftarrow> get (frame s) (unat (VRegB_12x inst_data));
     s \<leftarrow> put_reg (set_reg (unat (VRegA_12x inst_data))) (f x) s;
     advance 1 inst s
   }"

definition move_22x ::
  "(ShadowFrame \<Rightarrow> nat \<Rightarrow> 'a option) \<Rightarrow> (nat \<Rightarrow> 'a \<Rightarrow> ShadowFrame \<Rightarrow> ShadowFrame option) \<Rightarrow> 'w handler" where
  "move_22x get set_reg cfg inst inst_data s = do {
     b \<leftarrow> VRegB_22x (code s) inst;
     x \<leftarrow> get (frame s) (unat b);
     s \<leftarrow> put_reg (set_reg (unat (VRegA_22x inst_data))) x s;
     advance 2 inst s
   }"

definition move_32x ::
  "(ShadowFrame \<Rightarrow> nat \<Rightarrow> 'a option) \<Rightarrow> (nat \<Rightarrow> 'a \<Rightarrow> ShadowFrame \<Rightarrow> ShadowFrame option) \<Rightarrow> 'w handler" where
  "move_32x get set_reg cfg inst inst_data s = do {
     b \<leftarrow> VRegB_32x (code s) inst;
     x \<leftarrow> get (frame s) (unat b);
     a \<leftarrow> VRegA_32x (code s) inst;
     s \<leftarrow> put_reg (set_reg (unat a)) x s;
     advance 3 inst s
   }"

definition move_result ::
  "(JValue \<Rightarrow> 'a) \<Rightarrow> (nat \<Rightarrow> 'a \<Rightarrow> ShadowFrame \<Rightarrow> ShadowFrame option) \<Rightarrow> 'w handler" where
  "move_result get set_reg cfg inst inst_data s = do {
     s \<leftarrow> put_reg (set_reg (unat (VRegA_11x inst_data))) (get (result_register s)) s;
     advance 1 inst s
   }"

definition move_exception :: "'w handler" where
  "move_exception cfg inst inst_data s = do {
     s \<leftarrow> put_reg (SetVRegReference (unat (VRegA_11x inst_data))) (pending s) s;
     advance 1 inst (ClearPending s)
   }"

definition return_void :: "'w handler" where
  "return_void cfg inst inst_data s = Some (Return 0 s)"

definition return_int :: "'w handler" where
  "return_int cfg inst inst_data s = do {
     x \<leftarrow> GetVReg (frame s) (unat (VRegA_11x inst_data));
     Some (Return (SetI x (SetJ 0 0)) s)
   }"

definition return_wide :: "'w handler" where
  "return_wide cfg inst inst_data s = do {
     x \<leftarrow> GetVRegLong (frame s) (unat (VRegA_11x inst_data));
     Some (Return (SetJ x 0) s)
   }"

text \<open>With access checks, the code after \<open>HANDLE_PENDING_EXCEPTION\<close> is reached when a handler was found:
  a null return type is then dereferenced, and a value of the wrong type is returned all the same.\<close>

definition return_object :: "'w handler" where
  "return_object cfg inst inst_data s = do {
     obj_result \<leftarrow> GetVRegReference (frame s) (unat (VRegA_11x inst_data));
     (if do_access_check cfg \<and> obj_result \<noteq> 0
      then do {
        let (return_type, s) = ask cfg GetReturnType s;
        obj_result \<leftarrow> GetVRegReference (frame s) (unat (VRegA_11x inst_data));
        (if return_type = 0
         then do {
           r \<leftarrow> handle_pending_exception cfg inst s;
           (case r of Continue _ _ \<Rightarrow> None | _ \<Rightarrow> Some r) }
         else
           let (ok, s) = ask cfg (VerifierInstanceOf obj_result return_type) s
           in if ok = 0
              then do {
                r \<leftarrow> throw_here cfg VirtualMachineError inst s;
                (case r of Continue _ s \<Rightarrow> Some (Return (SetL obj_result 0) s) | _ \<Rightarrow> Some r) }
              else Some (Return (SetL obj_result 0) s))
      }
      else Some (Return (SetL obj_result 0) s))
   }"

text \<open>A constant 0 is also the null reference.\<close>

definition put_const :: "nat \<Rightarrow> u32 \<Rightarrow> 'w istate \<Rightarrow> 'w istate option" where
  "put_const dst val s = do {
     s \<leftarrow> put_reg (SetVReg dst) val s;
     (if val = 0 then put_reg (SetVRegReference dst) 0 s else Some s)
   }"

definition const_4 :: "'w handler" where
  "const_4 cfg inst inst_data s = do {
     s \<leftarrow> put_const (unat (VRegA_11n inst_data)) (scast (VRegB_11n inst_data)) s;
     advance 1 inst s
   }"

definition const_16 :: "'w handler" where
  "const_16 cfg inst inst_data s = do {
     val \<leftarrow> VRegB_21s (code s) inst;
     s \<leftarrow> put_const (unat (VRegA_21s inst_data)) (scast val) s;
     advance 2 inst s
   }"

definition const_32 :: "'w handler" where
  "const_32 cfg inst inst_data s = do {
     val \<leftarrow> VRegB_31i (code s) inst;
     s \<leftarrow> put_const (unat (VRegA_31i inst_data)) val s;
     advance 3 inst s
   }"

definition const_high16 :: "'w handler" where
  "const_high16 cfg inst inst_data s = do {
     val \<leftarrow> VRegB_21h (code s) inst;
     s \<leftarrow> put_const (unat (VRegA_21h inst_data)) (push_bit 16 (ucast val)) s;
     advance 2 inst s
   }"

definition const_wide_16 :: "'w handler" where
  "const_wide_16 cfg inst inst_data s = do {
     val \<leftarrow> VRegB_21s (code s) inst;
     s \<leftarrow> put_reg (SetVRegLong (unat (VRegA_21s inst_data))) (scast val) s;
     advance 2 inst s
   }"

definition const_wide_32 :: "'w handler" where
  "const_wide_32 cfg inst inst_data s = do {
     val \<leftarrow> VRegB_31i (code s) inst;
     s \<leftarrow> put_reg (SetVRegLong (unat (VRegA_31i inst_data))) (scast val) s;
     advance 3 inst s
   }"

definition const_wide :: "'w handler" where
  "const_wide cfg inst inst_data s = do {
     val \<leftarrow> VRegB_51l (code s) inst;
     s \<leftarrow> put_reg (SetVRegLong (unat (VRegA_51l inst_data))) val s;
     advance 5 inst s
   }"

definition const_wide_high16 :: "'w handler" where
  "const_wide_high16 cfg inst inst_data s = do {
     val \<leftarrow> VRegB_21h (code s) inst;
     s \<leftarrow> put_reg (SetVRegLong (unat (VRegA_21h inst_data))) (push_bit 48 (ucast val)) s;
     advance 2 inst s
   }"

text \<open>A reference that the runtime provides, or a pending exception.\<close>

definition put_object :: "'w config \<Rightarrow> nat \<Rightarrow> u32 \<Rightarrow> u32 \<Rightarrow> nat \<Rightarrow> 'w istate \<Rightarrow> 'w outcome option" where
  "put_object cfg dst obj size_of_inst inst s =
     (if obj = 0 then handle_pending_exception cfg inst s
      else do { s \<leftarrow> put_reg (SetVRegReference dst) obj s; advance size_of_inst inst s })"

definition const_string :: "'w handler" where
  "const_string cfg inst inst_data s = do {
     idx \<leftarrow> VRegB_21c (code s) inst;
     let (str, s) = ask cfg (ResolveString (ucast idx)) s;
     put_object cfg (unat (VRegA_21c inst_data)) str 2 inst s
   }"

definition const_string_jumbo :: "'w handler" where
  "const_string_jumbo cfg inst inst_data s = do {
     idx \<leftarrow> VRegB_31c (code s) inst;
     let (str, s) = ask cfg (ResolveString idx) s;
     put_object cfg (unat (VRegA_31c inst_data)) str 3 inst s
   }"

definition const_class :: "'w handler" where
  "const_class cfg inst inst_data s = do {
     idx \<leftarrow> VRegB_21c (code s) inst;
     let (c, s) = ask cfg (ResolveVerifyAndClinit (ucast idx)) s;
     put_object cfg (unat (VRegA_21c inst_data)) c 2 inst s
   }"

section \<open>Objects\<close>

definition monitor_op :: "(u32 \<Rightarrow> request) \<Rightarrow> 'w handler" where
  "monitor_op op cfg inst inst_data s = do {
     obj \<leftarrow> GetVRegReference (frame s) (unat (VRegA_11x inst_data));
     (if obj = 0 then throw_here cfg NullPointerException inst s
      else let s = tell cfg (op obj) s in possibly_handle cfg (IsExceptionPending s) 1 inst s)
   }"

definition check_cast :: "'w handler" where
  "check_cast cfg inst inst_data s = do {
     idx \<leftarrow> VRegB_21c (code s) inst;
     let (c, s) = ask cfg (ResolveVerifyAndClinit (ucast idx)) s;
     (if c = 0 then handle_pending_exception cfg inst s
      else do {
        obj \<leftarrow> GetVRegReference (frame s) (unat (VRegA_21c inst_data));
        (if obj = 0 then advance 2 inst s
         else
           let (is_instance, s) = ask cfg (InstanceOf obj c) s
           in if is_instance = 0
              then let (k, s) = ask cfg (GetClass obj) s in throw_here cfg (ClassCastException c k) inst s
              else advance 2 inst s)
      })
   }"

definition instance_of :: "'w handler" where
  "instance_of cfg inst inst_data s = do {
     idx \<leftarrow> VRegC_22c (code s) inst;
     let (c, s) = ask cfg (ResolveVerifyAndClinit (ucast idx)) s;
     (if c = 0 then handle_pending_exception cfg inst s
      else do {
        obj \<leftarrow> GetVRegReference (frame s) (unat (VRegB_22c inst_data));
        let (is_instance, s) = (if obj = 0 then (0, s) else ask cfg (InstanceOf obj c) s);
        s \<leftarrow> put_reg (SetVReg (unat (VRegA_22c inst_data))) (if obj \<noteq> 0 \<and> is_instance \<noteq> 0 then 1 else 0) s;
        advance 2 inst s
      })
   }"

definition array_length :: "'w handler" where
  "array_length cfg inst inst_data s = do {
     array \<leftarrow> GetVRegReference (frame s) (unat (VRegB_12x inst_data));
     (if array = 0 then throw_here cfg NullPointerException inst s
      else do {
        let (n, s) = ask cfg (GetLength array) s;
        s \<leftarrow> put_reg (SetVReg (unat (VRegA_12x inst_data))) n s;
        advance 1 inst s
      })
   }"

definition new_instance :: "'w handler" where
  "new_instance cfg inst inst_data s = do {
     idx \<leftarrow> VRegB_21c (code s) inst;
     let (c, s) = ask cfg (ResolveVerifyAndClinit (ucast idx)) s;
     let (is_string, s) = (if c = 0 then (0, s) else ask cfg (IsStringClass c) s);
     let (obj, s) = (if c = 0 then (0, s) else if is_string \<noteq> 0 then ask cfg AllocString s
                     else ask cfg (AllocObjectFromCode (ucast idx)) s);
     (if obj = 0 then handle_pending_exception cfg inst s
      else
        let (finalizable, s) = (if transaction_active cfg then ask cfg (IsFinalizable obj) s else (0, s))
        in if transaction_active cfg \<and> finalizable \<noteq> 0 then throw_here cfg TransactionAbortError inst s
           else do { s \<leftarrow> put_reg (SetVRegReference (unat (VRegA_21c inst_data))) obj s; advance 2 inst s })
   }"

definition new_array :: "'w handler" where
  "new_array cfg inst inst_data s = do {
     length' \<leftarrow> GetVReg (frame s) (unat (VRegB_22c inst_data));
     idx \<leftarrow> VRegC_22c (code s) inst;
     let (obj, s) = ask cfg (AllocArrayFromCode (ucast idx) length') s;
     put_object cfg (unat (VRegA_22c inst_data)) obj 2 inst s
   }"

text \<open>The element loop of \<open>DoFilledNewArray\<close>; \<open>regs\<close> are the source registers.\<close>

fun fill_elements :: "'w config \<Rightarrow> bool \<Rightarrow> u32 \<Rightarrow> nat \<Rightarrow> nat list \<Rightarrow> 'w istate \<Rightarrow> 'w istate option" where
  "fill_elements cfg is_int array i [] s = Some s"
| "fill_elements cfg is_int array i (r # regs) s = do {
     v \<leftarrow> (if is_int then GetVReg (frame s) r else GetVRegReference (frame s) r);
     fill_elements cfg is_int array (Suc i) regs
       (tell cfg (SetElement (if is_int then kPrimInt else kPrimNot) array (word_of_nat i) (ucast v)) s)
   }"

text \<open>The result is the success flag; \<open>CHECK\<close> failures abort, which is \<open>Inl ()\<close>.\<close>

definition DoFilledNewArray :: "bool \<Rightarrow> 'w config \<Rightarrow> nat \<Rightarrow> u16 \<Rightarrow> 'w istate \<Rightarrow> (unit + bool \<times> 'w istate) option" where
  "DoFilledNewArray is_range cfg inst inst_data s = do {
     let length' = unat (if is_range then VRegA_3rc inst_data else VRegA_35c inst_data);
     (if \<not> is_range \<and> length' > 5 then Some (Inl ())
      else do {
        type_idx \<leftarrow> (if is_range then VRegB_3rc (code s) inst else VRegB_35c (code s) inst);
        let (array_class, s) = ask cfg (ResolveVerifyAndClinit (ucast type_idx)) s;
        (if array_class = 0 then Some (Inr (False, s))
         else
           let (is_array, s) = ask cfg (IsArrayClass array_class) s;
               (is_int, s) = ask cfg (ComponentIsPrimitiveInt array_class) s;
               (is_primitive, s) = ask cfg (ComponentIsPrimitive array_class) s
           in if is_array = 0 then Some (Inl ())
              else if is_primitive \<noteq> 0 \<and> is_int = 0
              then let (is_wide, s) = ask cfg (ComponentIsPrimitiveWide array_class) s
                   in Some (Inr (False, throw_exception cfg (if is_wide \<noteq> 0 then RuntimeException else InternalError) s))
              else
                let (new_array, s) = ask cfg (AllocArray array_class (word_of_nat length')) s
                in if new_array = 0 then Some (Inr (False, s))
                   else do {
                     regs \<leftarrow> (if is_range
                             then map_option (\<lambda>c. map (\<lambda>i. unat c + i) [0..<length']) (VRegC_3rc (code s) inst)
                             else map_option (\<lambda>arg. map unat (take length' arg)) (GetVarArgs (code s) inst inst_data (replicate 5 0)));
                     s \<leftarrow> fill_elements cfg (is_int \<noteq> 0) new_array 0 regs s;
                     Some (Inr (True, s\<lparr>result_register := SetL new_array (result_register s)\<rparr>))
                   })
      })
   }"

definition filled_new_array :: "bool \<Rightarrow> 'w handler" where
  "filled_new_array is_range cfg inst inst_data s = do {
     r \<leftarrow> DoFilledNewArray is_range cfg inst inst_data s;
     (case r of Inl _ \<Rightarrow> Some Fatal | Inr (success, s) \<Rightarrow> possibly_handle cfg (\<not> success) 3 inst s)
   }"

text \<open>\<open>memcpy\<close> of \<open>size_in_bytes\<close> bytes of the payload, whose count is a 32-bit product.\<close>

definition FillArrayData :: "'w config \<Rightarrow> u32 \<Rightarrow> nat \<Rightarrow> 'w istate \<Rightarrow> (bool \<times> 'w istate) option" where
  "FillArrayData cfg obj payload s =
     (if obj = 0 then Some (False, throw_exception cfg NullPointerException s)
      else do {
        element_count \<leftarrow> two_units (code s) (payload + 2);
        let (n, s) = ask cfg (GetLength obj) s;
        (if sint element_count > sint n
         then Some (False, throw_exception cfg (ArrayIndexOutOfBoundsException obj element_count) s)
         else do {
           element_width \<leftarrow> Fetch16 (code s) payload 1;
           let size_in_bytes = element_count * ucast element_width;
           let units = (unat size_in_bytes + 1) div 2;
           (if payload + 4 + units \<le> length (code s)
            then Some (True, tell cfg (CopyRawData obj element_width (take units (drop (payload + 4) (code s))) size_in_bytes) s)
            else None)
         })
      })"

definition fill_array_data :: "'w handler" where
  "fill_array_data cfg inst inst_data s = do {
     payload \<leftarrow> payload_at (code s) inst;
     obj \<leftarrow> GetVRegReference (frame s) (unat (VRegA_31t inst_data));
     (success, s) \<leftarrow> FillArrayData cfg obj payload s;
     possibly_handle cfg (\<not> success) 3 inst s
   }"

definition throw_op :: "'w handler" where
  "throw_op cfg inst inst_data s = do {
     exc \<leftarrow> GetVRegReference (frame s) (unat (VRegA_11x inst_data));
     (if exc = 0 then throw_here cfg NullPointerException inst s
      else
        let (throwable, s) = (if do_access_check cfg then ask cfg (IsThrowableClass exc) s else (1, s))
        in if do_access_check cfg \<and> throwable = 0 then throw_here cfg VirtualMachineError inst s
           else handle_pending_exception cfg inst (SetPending exc s))
   }"

section \<open>Control flow\<close>

text \<open>\<open>IsBackwardBranch\<close> only allows the thread to be suspended.\<close>

definition IsBackwardBranch :: "u32 \<Rightarrow> bool" where
  "IsBackwardBranch branch_offset \<longleftrightarrow> sint branch_offset \<le> 0"

definition goto_10t :: "'w handler" where
  "goto_10t cfg inst inst_data s = advance (scast (VRegA_10t inst_data)) inst s"

definition goto_20t :: "'w handler" where
  "goto_20t cfg inst inst_data s = do { offset \<leftarrow> VRegA_20t (code s) inst; advance (scast offset) inst s }"

definition goto_30t :: "'w handler" where
  "goto_30t cfg inst inst_data s = do { offset \<leftarrow> VRegA_30t (code s) inst; advance offset inst s }"

definition packed_switch :: "'w handler" where
  "packed_switch cfg inst inst_data s = do {
     offset \<leftarrow> DoPackedSwitch (code s) inst inst_data (frame s);
     advance offset inst s
   }"

definition sparse_switch :: "'w handler" where
  "sparse_switch cfg inst inst_data s = do {
     offset \<leftarrow> DoSparseSwitch (code s) inst inst_data (frame s);
     advance offset inst s
   }"

text \<open>The comparisons differ in the result for a NaN: \<open>cmpl\<close> tests greater first, \<open>cmpg\<close> tests less first.\<close>

definition cmpl :: "('a \<Rightarrow> 'a \<Rightarrow> bool) \<Rightarrow> ('a \<Rightarrow> 'a \<Rightarrow> bool) \<Rightarrow> 'a \<Rightarrow> 'a \<Rightarrow> u32" where
  "cmpl lt equ val1 val2 = (if lt val2 val1 then 1 else if equ val1 val2 then 0 else -1)"

definition cmpg :: "('a \<Rightarrow> 'a \<Rightarrow> bool) \<Rightarrow> ('a \<Rightarrow> 'a \<Rightarrow> bool) \<Rightarrow> 'a \<Rightarrow> 'a \<Rightarrow> u32" where
  "cmpg lt equ val1 val2 = (if lt val1 val2 then -1 else if equ val1 val2 then 0 else 1)"

definition if_22t :: "(int \<Rightarrow> int \<Rightarrow> bool) \<Rightarrow> 'w handler" where
  "if_22t test cfg inst inst_data s = do {
     a \<leftarrow> GetVReg (frame s) (unat (VRegA_22t inst_data));
     b \<leftarrow> GetVReg (frame s) (unat (VRegB_22t inst_data));
     (if test (sint a) (sint b)
      then do { offset \<leftarrow> VRegC_22t (code s) inst; advance (scast offset) inst s }
      else advance 2 inst s)
   }"

definition if_21t :: "(int \<Rightarrow> bool) \<Rightarrow> 'w handler" where
  "if_21t test cfg inst inst_data s = do {
     a \<leftarrow> GetVReg (frame s) (unat (VRegA_21t inst_data));
     (if test (sint a)
      then do { offset \<leftarrow> VRegB_21t (code s) inst; advance (scast offset) inst s }
      else advance 2 inst s)
   }"

section \<open>Arithmetic\<close>

definition binop_23x ::
  "(ShadowFrame \<Rightarrow> nat \<Rightarrow> 'a option) \<Rightarrow> (ShadowFrame \<Rightarrow> nat \<Rightarrow> 'b option) \<Rightarrow> ('a \<Rightarrow> 'b \<Rightarrow> 'c)
   \<Rightarrow> (nat \<Rightarrow> 'c \<Rightarrow> ShadowFrame \<Rightarrow> ShadowFrame option) \<Rightarrow> 'w handler" where
  "binop_23x get1 get2 f set_reg cfg inst inst_data s = do {
     b \<leftarrow> VRegB_23x (code s) inst;
     x \<leftarrow> get1 (frame s) (unat b);
     c \<leftarrow> VRegC_23x (code s) inst;
     y \<leftarrow> get2 (frame s) (unat c);
     s \<leftarrow> put_reg (set_reg (unat (VRegA_23x inst_data))) (f x y) s;
     advance 2 inst s
   }"

definition binop_2addr ::
  "(ShadowFrame \<Rightarrow> nat \<Rightarrow> 'a option) \<Rightarrow> (ShadowFrame \<Rightarrow> nat \<Rightarrow> 'b option) \<Rightarrow> ('a \<Rightarrow> 'b \<Rightarrow> 'a)
   \<Rightarrow> (nat \<Rightarrow> 'a \<Rightarrow> ShadowFrame \<Rightarrow> ShadowFrame option) \<Rightarrow> 'w handler" where
  "binop_2addr get1 get2 f set_reg cfg inst inst_data s = do {
     let vregA = unat (VRegA_12x inst_data);
     x \<leftarrow> get1 (frame s) vregA;
     y \<leftarrow> get2 (frame s) (unat (VRegB_12x inst_data));
     s \<leftarrow> put_reg (set_reg vregA) (f x y) s;
     advance 1 inst s
   }"

definition binop_lit16 :: "(u32 \<Rightarrow> u32 \<Rightarrow> u32) \<Rightarrow> 'w handler" where
  "binop_lit16 f cfg inst inst_data s = do {
     x \<leftarrow> GetVReg (frame s) (unat (VRegB_22s inst_data));
     lit \<leftarrow> VRegC_22s (code s) inst;
     s \<leftarrow> put_reg (SetVReg (unat (VRegA_22s inst_data))) (f x (scast lit)) s;
     advance 2 inst s
   }"

definition binop_lit8 :: "(u32 \<Rightarrow> u32 \<Rightarrow> u32) \<Rightarrow> 'w handler" where
  "binop_lit8 f cfg inst inst_data s = do {
     b \<leftarrow> VRegB_22b (code s) inst;
     x \<leftarrow> GetVReg (frame s) (unat b);
     lit \<leftarrow> VRegC_22b (code s) inst;
     s \<leftarrow> put_reg (SetVReg (unat (VRegA_22b inst_data))) (f x (scast lit)) s;
     advance 2 inst s
   }"

text \<open>Shifts use the low bits of the count. In C++ \<open>x << n\<close> of a negative \<open>x\<close> is taken as the shift of its bits.\<close>

definition shl_int :: "u32 \<Rightarrow> u32 \<Rightarrow> u32" where "shl_int x n = push_bit (unat (n AND 0x1f)) x"
definition shr_int :: "u32 \<Rightarrow> u32 \<Rightarrow> u32" where "shr_int x n = signed_drop_bit (unat (n AND 0x1f)) x"
definition ushr_int :: "u32 \<Rightarrow> u32 \<Rightarrow> u32" where "ushr_int x n = drop_bit (unat (n AND 0x1f)) x"
definition shl_long :: "u64 \<Rightarrow> u32 \<Rightarrow> u64" where "shl_long x n = push_bit (unat (n AND 0x3f)) x"
definition shr_long :: "u64 \<Rightarrow> u32 \<Rightarrow> u64" where "shr_long x n = signed_drop_bit (unat (n AND 0x3f)) x"
definition ushr_long :: "u64 \<Rightarrow> u32 \<Rightarrow> u64" where "ushr_long x n = drop_bit (unat (n AND 0x3f)) x"

text \<open>The division helpers, and what the caller makes of a failure: the handlers for \<open>int\<close> test the success
  flag, those for \<open>long\<close> the pending exception.\<close>

definition finish_division ::
  "'w config \<Rightarrow> (unit + ShadowFrame) option \<Rightarrow> bool \<Rightarrow> u32 \<Rightarrow> nat \<Rightarrow> 'w istate \<Rightarrow> 'w outcome option" where
  "finish_division cfg r test_pending size_of_inst inst s = do {
     x \<leftarrow> r;
     let (success, s) =
       (case x of Inl _ \<Rightarrow> (False, throw_exception cfg ArithmeticExceptionDivideByZero s)
                | Inr f \<Rightarrow> (True, s\<lparr>frame := f\<rparr>));
     possibly_handle cfg (if test_pending then IsExceptionPending s else \<not> success) size_of_inst inst s
   }"

definition div_23x ::
  "(ShadowFrame \<Rightarrow> nat \<Rightarrow> 'a option) \<Rightarrow> (nat \<Rightarrow> 'a \<Rightarrow> 'a \<Rightarrow> ShadowFrame \<Rightarrow> (unit + ShadowFrame) option) \<Rightarrow> bool \<Rightarrow> 'w handler" where
  "div_23x get do_it test_pending cfg inst inst_data s = do {
     b \<leftarrow> VRegB_23x (code s) inst;
     x \<leftarrow> get (frame s) (unat b);
     c \<leftarrow> VRegC_23x (code s) inst;
     y \<leftarrow> get (frame s) (unat c);
     finish_division cfg (do_it (unat (VRegA_23x inst_data)) x y (frame s)) test_pending 2 inst s
   }"

definition div_2addr ::
  "(ShadowFrame \<Rightarrow> nat \<Rightarrow> 'a option) \<Rightarrow> (nat \<Rightarrow> 'a \<Rightarrow> 'a \<Rightarrow> ShadowFrame \<Rightarrow> (unit + ShadowFrame) option) \<Rightarrow> bool \<Rightarrow> 'w handler" where
  "div_2addr get do_it test_pending cfg inst inst_data s = do {
     let vregA = unat (VRegA_12x inst_data);
     x \<leftarrow> get (frame s) vregA;
     y \<leftarrow> get (frame s) (unat (VRegB_12x inst_data));
     finish_division cfg (do_it vregA x y (frame s)) test_pending 1 inst s
   }"

definition div_lit16 :: "(nat \<Rightarrow> u32 \<Rightarrow> u32 \<Rightarrow> ShadowFrame \<Rightarrow> (unit + ShadowFrame) option) \<Rightarrow> 'w handler" where
  "div_lit16 do_it cfg inst inst_data s = do {
     x \<leftarrow> GetVReg (frame s) (unat (VRegB_22s inst_data));
     lit \<leftarrow> VRegC_22s (code s) inst;
     finish_division cfg (do_it (unat (VRegA_22s inst_data)) x (scast lit) (frame s)) False 2 inst s
   }"

definition div_lit8 :: "(nat \<Rightarrow> u32 \<Rightarrow> u32 \<Rightarrow> ShadowFrame \<Rightarrow> (unit + ShadowFrame) option) \<Rightarrow> 'w handler" where
  "div_lit8 do_it cfg inst inst_data s = do {
     b \<leftarrow> VRegB_22b (code s) inst;
     x \<leftarrow> GetVReg (frame s) (unat b);
     lit \<leftarrow> VRegC_22b (code s) inst;
     finish_division cfg (do_it (unat (VRegA_22b inst_data)) x (scast lit) (frame s)) False 2 inst s
   }"

text \<open>\<open>art_float_to_integral\<close>: out-of-range values saturate and NaN becomes 0.\<close>

definition art_float_to_integral ::
  "('f \<Rightarrow> 'f \<Rightarrow> bool) \<Rightarrow> ('f \<Rightarrow> 'f \<Rightarrow> bool) \<Rightarrow> (int \<Rightarrow> 'f) \<Rightarrow> ('f \<Rightarrow> int) \<Rightarrow> nat \<Rightarrow> 'f \<Rightarrow> int" where
  "art_float_to_integral lt equ of_integer trunc width f =
     (let kMaxInt = 2 ^ (width - 1) - 1; kMinInt = - (2 ^ (width - 1))
      in if lt (of_integer kMinInt) f
         then if lt f (of_integer kMaxInt) then trunc f else kMaxInt
         else if \<not> equ f f then 0 else kMinInt)"

section \<open>Arrays and fields\<close>

text \<open>The value of a register for a type, and the bits of a register that are stored for one.\<close>

definition widen :: "Primitive \<Rightarrow> u64 \<Rightarrow> u32" where
  "widen p v =
     (case p of kPrimBoolean \<Rightarrow> ucast (ucast v :: u8) | kPrimByte \<Rightarrow> scast (ucast v :: u8)
              | kPrimChar \<Rightarrow> ucast (ucast v :: u16) | kPrimShort \<Rightarrow> scast (ucast v :: u16) | _ \<Rightarrow> ucast v)"

definition narrow :: "Primitive \<Rightarrow> u32 \<Rightarrow> u64" where
  "narrow p v =
     (case p of kPrimBoolean \<Rightarrow> ucast (ucast v :: u8) | kPrimByte \<Rightarrow> ucast (ucast v :: u8)
              | kPrimChar \<Rightarrow> ucast (ucast v :: u16) | kPrimShort \<Rightarrow> ucast (ucast v :: u16) | _ \<Rightarrow> ucast v)"

definition set_typed :: "Primitive \<Rightarrow> nat \<Rightarrow> u64 \<Rightarrow> ShadowFrame \<Rightarrow> ShadowFrame option" where
  "set_typed p i v =
     (case p of kPrimLong \<Rightarrow> SetVRegLong i v | kPrimNot \<Rightarrow> SetVRegReference i (ucast v) | _ \<Rightarrow> SetVReg i (widen p v))"

definition get_typed :: "Primitive \<Rightarrow> ShadowFrame \<Rightarrow> nat \<Rightarrow> u64 option" where
  "get_typed p f i =
     (case p of kPrimLong \<Rightarrow> GetVRegLong f i | kPrimNot \<Rightarrow> map_option ucast (GetVRegReference f i)
              | _ \<Rightarrow> map_option (narrow p) (GetVReg f i))"

definition CheckIsValidIndex :: "'w config \<Rightarrow> u32 \<Rightarrow> u32 \<Rightarrow> 'w istate \<Rightarrow> bool \<times> 'w istate" where
  "CheckIsValidIndex cfg array index s =
     (let (n, s) = ask cfg (GetLength array) s
      in if index \<ge> n then (False, throw_exception cfg (ArrayIndexOutOfBoundsException array index) s) else (True, s))"

definition aget :: "Primitive \<Rightarrow> 'w handler" where
  "aget p cfg inst inst_data s = do {
     b \<leftarrow> VRegB_23x (code s) inst;
     a \<leftarrow> GetVRegReference (frame s) (unat b);
     (if a = 0 then throw_here cfg NullPointerException inst s
      else do {
        c \<leftarrow> VRegC_23x (code s) inst;
        index \<leftarrow> GetVReg (frame s) (unat c);
        let (valid, s) = CheckIsValidIndex cfg a index s;
        (if valid
         then do {
           let (v, s) = rt cfg (GetElement p a index) s;
           s \<leftarrow> put_reg (set_typed p (unat (VRegA_23x inst_data))) v s;
           advance 2 inst s }
         else handle_pending_exception cfg inst s)
      })
   }"

definition aput :: "Primitive \<Rightarrow> 'w handler" where
  "aput p cfg inst inst_data s = do {
     b \<leftarrow> VRegB_23x (code s) inst;
     a \<leftarrow> GetVRegReference (frame s) (unat b);
     (if a = 0 then throw_here cfg NullPointerException inst s
      else do {
        val \<leftarrow> get_typed p (frame s) (unat (VRegA_23x inst_data));
        c \<leftarrow> VRegC_23x (code s) inst;
        index \<leftarrow> GetVReg (frame s) (unat c);
        let (valid, s) = CheckIsValidIndex cfg a index s;
        let (assignable, s) = (if valid \<and> p = kPrimNot then ask cfg (CheckAssignable a (ucast val)) s else (1, s));
        (if valid \<and> assignable \<noteq> 0 then advance 2 inst (tell cfg (SetElement p a index val) s)
         else handle_pending_exception cfg inst s)
      })
   }"

definition DoFieldGet :: "bool \<Rightarrow> Primitive \<Rightarrow> 'w config \<Rightarrow> nat \<Rightarrow> u16 \<Rightarrow> 'w istate \<Rightarrow> (bool \<times> 'w istate) option" where
  "DoFieldGet is_static p cfg inst inst_data s = do {
     field_idx \<leftarrow> (if is_static then VRegB_21c (code s) inst else VRegC_22c (code s) inst);
     let (f, s) = ask cfg (FindFieldFromCode is_static False p (ucast field_idx)) s;
     (if f = 0 then Some (False, s)
      else do {
        let (cls, s) = (if is_static then ask cfg (GetDeclaringClass f) s else (0, s));
        obj \<leftarrow> (if is_static then Some cls else GetVRegReference (frame s) (unat (VRegB_22c inst_data)));
        (if \<not> is_static \<and> obj = 0 then Some (False, throw_exception cfg (NullPointerExceptionForFieldAccess f True) s)
         else do {
           let vregA = unat (if is_static then VRegA_21c inst_data else VRegA_22c inst_data);
           let (v, s) = rt cfg (GetField p f obj) s;
           s \<leftarrow> put_reg (set_typed p vregA) v s;
           Some (True, s)
         })
      })
   }"

definition DoIGetQuick :: "Primitive \<Rightarrow> 'w config \<Rightarrow> nat \<Rightarrow> u16 \<Rightarrow> 'w istate \<Rightarrow> (bool \<times> 'w istate) option" where
  "DoIGetQuick p cfg inst inst_data s = do {
     obj \<leftarrow> GetVRegReference (frame s) (unat (VRegB_22c inst_data));
     (if obj = 0 then Some (False, throw_exception cfg NullPointerException s)
      else do {
        field_offset \<leftarrow> VRegC_22c (code s) inst;
        let (v, s) = rt cfg (GetFieldAt p obj field_offset) s;
        s \<leftarrow> put_reg (set_typed p (unat (VRegA_22c inst_data))) v s;
        Some (True, s)
      })
   }"

text \<open>With access checks \<open>VerifierInstanceOf\<close> dereferences the class of the field, which is null when it does not resolve.\<close>

definition DoFieldPut :: "bool \<Rightarrow> Primitive \<Rightarrow> 'w config \<Rightarrow> nat \<Rightarrow> u16 \<Rightarrow> 'w istate \<Rightarrow> (bool \<times> 'w istate) option" where
  "DoFieldPut is_static p cfg inst inst_data s = do {
     field_idx \<leftarrow> (if is_static then VRegB_21c (code s) inst else VRegC_22c (code s) inst);
     let (f, s) = ask cfg (FindFieldFromCode is_static True p (ucast field_idx)) s;
     (if f = 0 then Some (False, s)
      else do {
        let (cls, s) = (if is_static then ask cfg (GetDeclaringClass f) s else (0, s));
        obj \<leftarrow> (if is_static then Some cls else GetVRegReference (frame s) (unat (VRegB_22c inst_data)));
        (if \<not> is_static \<and> obj = 0 then Some (False, throw_exception cfg (NullPointerExceptionForFieldAccess f False) s)
         else do {
           let vregA = unat (if is_static then VRegA_21c inst_data else VRegA_22c inst_data);
           val \<leftarrow> get_typed p (frame s) vregA;
           (if p = kPrimNot \<and> do_access_check cfg \<and> val \<noteq> 0
            then
              let (field_class, s) = ask cfg (GetFieldType f) s;
                  (ok, s) = ask cfg (VerifierInstanceOf (ucast val) field_class) s
              in if field_class = 0 then None
                 else if ok = 0 then Some (False, throw_exception cfg VirtualMachineError s)
                 else Some (True, tell cfg (SetField p f obj val) s)
            else Some (True, tell cfg (SetField p f obj val) s))
         })
      })
   }"

definition DoIPutQuick :: "Primitive \<Rightarrow> 'w config \<Rightarrow> nat \<Rightarrow> u16 \<Rightarrow> 'w istate \<Rightarrow> (bool \<times> 'w istate) option" where
  "DoIPutQuick p cfg inst inst_data s = do {
     obj \<leftarrow> GetVRegReference (frame s) (unat (VRegB_22c inst_data));
     (if obj = 0 then Some (False, throw_exception cfg NullPointerException s)
      else do {
        field_offset \<leftarrow> VRegC_22c (code s) inst;
        val \<leftarrow> get_typed p (frame s) (unat (VRegA_22c inst_data));
        Some (True, tell cfg (SetFieldAt p obj field_offset val) s)
      })
   }"

definition field_op ::
  "('w config \<Rightarrow> nat \<Rightarrow> u16 \<Rightarrow> 'w istate \<Rightarrow> (bool \<times> 'w istate) option) \<Rightarrow> 'w handler" where
  "field_op do_it cfg inst inst_data s = do {
     (success, s) \<leftarrow> do_it cfg inst inst_data s;
     possibly_handle cfg (\<not> success) 2 inst s
   }"

section \<open>Invocations\<close>

definition DoInvoke :: "InvokeType \<Rightarrow> bool \<Rightarrow> 'w config \<Rightarrow> nat \<Rightarrow> u16 \<Rightarrow> 'w istate \<Rightarrow> (bool \<times> 'w istate) option" where
  "DoInvoke type is_range cfg inst inst_data s = do {
     method_idx \<leftarrow> (if is_range then VRegB_3rc (code s) inst else VRegB_35c (code s) inst);
     vregC \<leftarrow> (if is_range then map_option unat (VRegC_3rc (code s) inst) else map_option unat (VRegC_35c (code s) inst));
     receiver \<leftarrow> (if type = kStatic then Some 0 else GetVRegReference (frame s) vregC);
     let (called_method, s) = ask cfg (FindMethodFromCode type (ucast method_idx) receiver) s;
     (if called_method = 0 then Some (False, s\<lparr>result_register := SetJ 0 (result_register s)\<rparr>)
      else
        let (is_abstract, s) = ask cfg (IsAbstract called_method) s
        in if is_abstract \<noteq> 0
           then let s = throw_exception cfg (AbstractMethodError called_method) s
                in Some (False, s\<lparr>result_register := SetJ 0 (result_register s)\<rparr>)
           else let (success, s) = ask cfg (DoCall is_range called_method inst inst_data) s in Some (success \<noteq> 0, s))
   }"

definition DoInvokeVirtualQuick :: "bool \<Rightarrow> 'w config \<Rightarrow> nat \<Rightarrow> u16 \<Rightarrow> 'w istate \<Rightarrow> (bool \<times> 'w istate) option" where
  "DoInvokeVirtualQuick is_range cfg inst inst_data s = do {
     vregC \<leftarrow> (if is_range then map_option unat (VRegC_3rc (code s) inst) else map_option unat (VRegC_35c (code s) inst));
     receiver \<leftarrow> GetVRegReference (frame s) vregC;
     (if receiver = 0 then Some (False, throw_exception cfg NullPointerException s)
      else do {
        vtable_idx \<leftarrow> (if is_range then VRegB_3rc (code s) inst else VRegB_35c (code s) inst);
        let (called_method, s) = ask cfg (GetEmbeddedVTableEntry receiver (ucast vtable_idx)) s;
        (if called_method = 0 then Some (False, s\<lparr>result_register := SetJ 0 (result_register s)\<rparr>)
         else
           let (is_abstract, s) = ask cfg (IsAbstract called_method) s
           in if is_abstract \<noteq> 0
              then let s = throw_exception cfg (AbstractMethodError called_method) s
                   in Some (False, s\<lparr>result_register := SetJ 0 (result_register s)\<rparr>)
              else let (success, s) = ask cfg (DoCall is_range called_method inst inst_data) s in Some (success \<noteq> 0, s))
      })
   }"

definition invoke_op ::
  "('w config \<Rightarrow> nat \<Rightarrow> u16 \<Rightarrow> 'w istate \<Rightarrow> (bool \<times> 'w istate) option) \<Rightarrow> 'w handler" where
  "invoke_op do_it cfg inst inst_data s = do {
     (success, s) \<leftarrow> do_it cfg inst inst_data s;
     possibly_handle cfg (\<not> success) 3 inst s
   }"

text \<open>The unpacker's hook: under a forced invocation the instructions are hashed on entry and again after
  each \<open>invoke-static\<close>; a different hash ends the method and hands out its code item.\<close>

abbreviation (input) KARL_GERAT_U_CODE :: u32 where "KARL_GERAT_U_CODE \<equiv> 0x8200666"

definition code_bytes :: "insns \<Rightarrow> buffer" where
  "code_bytes insns = concat (map (\<lambda>u. [ucast u, ucast (drop_bit 8 u)]) insns)"

definition hash_code :: "'w config \<Rightarrow> 'w istate \<Rightarrow> u32 option" where
  "hash_code cfg s = insns_hash (char_signed cfg) (code_bytes (code s)) (insns_size_in_code_units (method_code cfg))"

definition invoke_static :: "u32 \<Rightarrow> 'w handler" where
  "invoke_static hash1 cfg inst inst_data s = do {
     (success, s) \<leftarrow> DoInvoke kStatic False cfg inst inst_data s;
     hash2 \<leftarrow> (if force_invoke_flag cfg = KARL_GERAT_U_CODE then hash_code cfg s else Some hash1);
     (if force_invoke_flag cfg = KARL_GERAT_U_CODE \<and> hash1 \<noteq> hash2 then Some (NewCodeItem s)
      else possibly_handle cfg (\<not> success) 3 inst s)
   }"

section \<open>Dispatch\<close>

definition move_handlers :: "(u8 \<times> 'w handler) list" where
  "move_handlers =
    [(NOP, \<lambda>cfg inst inst_data s. advance 1 inst s),
     (MOVE, unop_12x GetVReg id SetVReg), (MOVE_FROM16, move_22x GetVReg SetVReg), (MOVE_16, move_32x GetVReg SetVReg),
     (MOVE_WIDE, unop_12x GetVRegLong id SetVRegLong), (MOVE_WIDE_FROM16, move_22x GetVRegLong SetVRegLong),
     (MOVE_WIDE_16, move_32x GetVRegLong SetVRegLong),
     (MOVE_OBJECT, unop_12x GetVRegReference id SetVRegReference),
     (MOVE_OBJECT_FROM16, move_22x GetVRegReference SetVRegReference),
     (MOVE_OBJECT_16, move_32x GetVRegReference SetVRegReference),
     (MOVE_RESULT, move_result GetI SetVReg), (MOVE_RESULT_WIDE, move_result GetJ SetVRegLong),
     (MOVE_RESULT_OBJECT, move_result GetL SetVRegReference), (MOVE_EXCEPTION, move_exception)]"

definition return_handlers :: "(u8 \<times> 'w handler) list" where
  "return_handlers =
    [(RETURN_VOID_NO_BARRIER, return_void), (RETURN_VOID, return_void), (RETURN, return_int),
     (RETURN_WIDE, return_wide), (RETURN_OBJECT, return_object)]"

definition const_handlers :: "(u8 \<times> 'w handler) list" where
  "const_handlers =
    [(CONST_4, const_4), (CONST_16, const_16), (OP_CONST, const_32), (CONST_HIGH16, const_high16),
     (CONST_WIDE_16, const_wide_16), (CONST_WIDE_32, const_wide_32), (CONST_WIDE, const_wide),
     (CONST_WIDE_HIGH16, const_wide_high16), (CONST_STRING, const_string), (CONST_STRING_JUMBO, const_string_jumbo),
     (CONST_CLASS, const_class)]"

definition object_handlers :: "(u8 \<times> 'w handler) list" where
  "object_handlers =
    [(MONITOR_ENTER, monitor_op MonitorEnter), (MONITOR_EXIT, monitor_op MonitorExit), (CHECK_CAST, check_cast),
     (INSTANCE_OF, instance_of), (ARRAY_LENGTH, array_length), (NEW_INSTANCE, new_instance), (NEW_ARRAY, new_array),
     (FILLED_NEW_ARRAY, filled_new_array False), (FILLED_NEW_ARRAY_RANGE, filled_new_array True),
     (FILL_ARRAY_DATA, fill_array_data), (THROW, throw_op)]"

definition branch_handlers :: "(u8 \<times> 'w handler) list" where
  "branch_handlers =
    [(GOTO, goto_10t), (GOTO_16, goto_20t), (GOTO_32, goto_30t),
     (PACKED_SWITCH, packed_switch), (SPARSE_SWITCH, sparse_switch)]"

definition cmp_handlers :: "fpu \<Rightarrow> (u8 \<times> 'w handler) list" where
  "cmp_handlers p =
    [(CMPL_FLOAT, binop_23x GetVRegFloat GetVRegFloat (cmpl (float_less p) (float_eq p)) SetVReg),
     (CMPG_FLOAT, binop_23x GetVRegFloat GetVRegFloat (cmpg (float_less p) (float_eq p)) SetVReg),
     (CMPL_DOUBLE, binop_23x GetVRegDouble GetVRegDouble (cmpl (double_less p) (double_eq p)) SetVReg),
     (CMPG_DOUBLE, binop_23x GetVRegDouble GetVRegDouble (cmpg (double_less p) (double_eq p)) SetVReg),
     (CMP_LONG, binop_23x GetVRegLong GetVRegLong (cmpl (\<lambda>a b. sint a < sint b) (=)) SetVReg)]"

definition if_handlers :: "(u8 \<times> 'w handler) list" where
  "if_handlers =
    [(IF_EQ, if_22t (=)), (IF_NE, if_22t (\<noteq>)), (IF_LT, if_22t (<)), (IF_GE, if_22t (\<ge>)), (IF_GT, if_22t (>)),
     (IF_LE, if_22t (\<le>)),
     (IF_EQZ, if_21t (\<lambda>x. x = 0)), (IF_NEZ, if_21t (\<lambda>x. x \<noteq> 0)), (IF_LTZ, if_21t (\<lambda>x. x < 0)),
     (IF_GEZ, if_21t (\<lambda>x. x \<ge> 0)), (IF_GTZ, if_21t (\<lambda>x. x > 0)), (IF_LEZ, if_21t (\<lambda>x. x \<le> 0))]"

definition array_handlers :: "(u8 \<times> 'w handler) list" where
  "array_handlers =
    [(AGET_BOOLEAN, aget kPrimBoolean), (AGET_BYTE, aget kPrimByte), (AGET_CHAR, aget kPrimChar),
     (AGET_SHORT, aget kPrimShort), (AGET, aget kPrimInt), (AGET_WIDE, aget kPrimLong), (AGET_OBJECT, aget kPrimNot),
     (APUT_BOOLEAN, aput kPrimBoolean), (APUT_BYTE, aput kPrimByte), (APUT_CHAR, aput kPrimChar),
     (APUT_SHORT, aput kPrimShort), (APUT, aput kPrimInt), (APUT_WIDE, aput kPrimLong), (APUT_OBJECT, aput kPrimNot)]"

definition iget_handlers :: "(u8 \<times> 'w handler) list" where
  "iget_handlers =
    [(IGET_BOOLEAN, field_op (DoFieldGet False kPrimBoolean)), (IGET_BYTE, field_op (DoFieldGet False kPrimByte)),
     (IGET_CHAR, field_op (DoFieldGet False kPrimChar)), (IGET_SHORT, field_op (DoFieldGet False kPrimShort)),
     (IGET, field_op (DoFieldGet False kPrimInt)), (IGET_WIDE, field_op (DoFieldGet False kPrimLong)),
     (IGET_OBJECT, field_op (DoFieldGet False kPrimNot)),
     (IGET_QUICK, field_op (DoIGetQuick kPrimInt)), (IGET_WIDE_QUICK, field_op (DoIGetQuick kPrimLong)),
     (IGET_OBJECT_QUICK, field_op (DoIGetQuick kPrimNot)), (IGET_BOOLEAN_QUICK, field_op (DoIGetQuick kPrimBoolean)),
     (IGET_BYTE_QUICK, field_op (DoIGetQuick kPrimByte)), (IGET_CHAR_QUICK, field_op (DoIGetQuick kPrimChar)),
     (IGET_SHORT_QUICK, field_op (DoIGetQuick kPrimShort))]"

definition sget_handlers :: "(u8 \<times> 'w handler) list" where
  "sget_handlers =
    [(SGET_BOOLEAN, field_op (DoFieldGet True kPrimBoolean)), (SGET_BYTE, field_op (DoFieldGet True kPrimByte)),
     (SGET_CHAR, field_op (DoFieldGet True kPrimChar)), (SGET_SHORT, field_op (DoFieldGet True kPrimShort)),
     (SGET, field_op (DoFieldGet True kPrimInt)), (SGET_WIDE, field_op (DoFieldGet True kPrimLong)),
     (SGET_OBJECT, field_op (DoFieldGet True kPrimNot))]"

definition iput_handlers :: "(u8 \<times> 'w handler) list" where
  "iput_handlers =
    [(IPUT_BOOLEAN, field_op (DoFieldPut False kPrimBoolean)), (IPUT_BYTE, field_op (DoFieldPut False kPrimByte)),
     (IPUT_CHAR, field_op (DoFieldPut False kPrimChar)), (IPUT_SHORT, field_op (DoFieldPut False kPrimShort)),
     (IPUT, field_op (DoFieldPut False kPrimInt)), (IPUT_WIDE, field_op (DoFieldPut False kPrimLong)),
     (IPUT_OBJECT, field_op (DoFieldPut False kPrimNot)),
     (IPUT_QUICK, field_op (DoIPutQuick kPrimInt)), (IPUT_BOOLEAN_QUICK, field_op (DoIPutQuick kPrimBoolean)),
     (IPUT_BYTE_QUICK, field_op (DoIPutQuick kPrimByte)), (IPUT_CHAR_QUICK, field_op (DoIPutQuick kPrimChar)),
     (IPUT_SHORT_QUICK, field_op (DoIPutQuick kPrimShort)), (IPUT_WIDE_QUICK, field_op (DoIPutQuick kPrimLong)),
     (IPUT_OBJECT_QUICK, field_op (DoIPutQuick kPrimNot))]"

definition sput_handlers :: "(u8 \<times> 'w handler) list" where
  "sput_handlers =
    [(SPUT_BOOLEAN, field_op (DoFieldPut True kPrimBoolean)), (SPUT_BYTE, field_op (DoFieldPut True kPrimByte)),
     (SPUT_CHAR, field_op (DoFieldPut True kPrimChar)), (SPUT_SHORT, field_op (DoFieldPut True kPrimShort)),
     (SPUT, field_op (DoFieldPut True kPrimInt)), (SPUT_WIDE, field_op (DoFieldPut True kPrimLong)),
     (SPUT_OBJECT, field_op (DoFieldPut True kPrimNot))]"

definition invoke_handlers :: "u32 \<Rightarrow> (u8 \<times> 'w handler) list" where
  "invoke_handlers hash1 =
    [(INVOKE_VIRTUAL, invoke_op (DoInvoke kVirtual False)), (INVOKE_VIRTUAL_RANGE, invoke_op (DoInvoke kVirtual True)),
     (INVOKE_SUPER, invoke_op (DoInvoke kSuper False)), (INVOKE_SUPER_RANGE, invoke_op (DoInvoke kSuper True)),
     (INVOKE_DIRECT, invoke_op (DoInvoke kDirect False)), (INVOKE_DIRECT_RANGE, invoke_op (DoInvoke kDirect True)),
     (INVOKE_INTERFACE, invoke_op (DoInvoke kInterface False)),
     (INVOKE_INTERFACE_RANGE, invoke_op (DoInvoke kInterface True)),
     (INVOKE_STATIC, invoke_static hash1), (INVOKE_STATIC_RANGE, invoke_op (DoInvoke kStatic True)),
     (INVOKE_VIRTUAL_QUICK, invoke_op (DoInvokeVirtualQuick False)),
     (INVOKE_VIRTUAL_RANGE_QUICK, invoke_op (DoInvokeVirtualQuick True))]"

definition unop_handlers :: "fpu \<Rightarrow> (u8 \<times> 'w handler) list" where
  "unop_handlers p =
    [(NEG_INT, unop_12x GetVReg uminus SetVReg), (NOT_INT, unop_12x GetVReg not SetVReg),
     (NEG_LONG, unop_12x GetVRegLong uminus SetVRegLong), (NOT_LONG, unop_12x GetVRegLong not SetVRegLong),
     (NEG_FLOAT, unop_12x GetVRegFloat (float_neg p) SetVRegFloat),
     (NEG_DOUBLE, unop_12x GetVRegDouble (double_neg p) SetVRegDouble),
     (INT_TO_LONG, unop_12x GetVReg scast SetVRegLong),
     (INT_TO_FLOAT, unop_12x GetVReg (\<lambda>x. int_to_float p (sint x)) SetVRegFloat),
     (INT_TO_DOUBLE, unop_12x GetVReg (\<lambda>x. int_to_double p (sint x)) SetVRegDouble),
     (LONG_TO_INT, unop_12x GetVRegLong ucast SetVReg),
     (LONG_TO_FLOAT, unop_12x GetVRegLong (\<lambda>x. int_to_float p (sint x)) SetVRegFloat),
     (LONG_TO_DOUBLE, unop_12x GetVRegLong (\<lambda>x. int_to_double p (sint x)) SetVRegDouble),
     (FLOAT_TO_INT, unop_12x GetVRegFloat
        (\<lambda>x. word_of_int (art_float_to_integral (float_less p) (float_eq p) (int_to_float p) (float_truncate p) 32 x)) SetVReg),
     (FLOAT_TO_LONG, unop_12x GetVRegFloat
        (\<lambda>x. word_of_int (art_float_to_integral (float_less p) (float_eq p) (int_to_float p) (float_truncate p) 64 x)) SetVRegLong),
     (FLOAT_TO_DOUBLE, unop_12x GetVRegFloat (float_to_double p) SetVRegDouble),
     (DOUBLE_TO_INT, unop_12x GetVRegDouble
        (\<lambda>x. word_of_int (art_float_to_integral (double_less p) (double_eq p) (int_to_double p) (double_truncate p) 32 x)) SetVReg),
     (DOUBLE_TO_LONG, unop_12x GetVRegDouble
        (\<lambda>x. word_of_int (art_float_to_integral (double_less p) (double_eq p) (int_to_double p) (double_truncate p) 64 x)) SetVRegLong),
     (DOUBLE_TO_FLOAT, unop_12x GetVRegDouble (double_to_float p) SetVRegFloat),
     (INT_TO_BYTE, unop_12x GetVReg (\<lambda>x. scast (ucast x :: u8)) SetVReg),
     (INT_TO_CHAR, unop_12x GetVReg (\<lambda>x. ucast (ucast x :: u16)) SetVReg),
     (INT_TO_SHORT, unop_12x GetVReg (\<lambda>x. scast (ucast x :: u16)) SetVReg)]"

definition int_handlers :: "(u8 \<times> 'w handler) list" where
  "int_handlers =
    [(ADD_INT, binop_23x GetVReg GetVReg SafeAdd SetVReg), (SUB_INT, binop_23x GetVReg GetVReg SafeSub SetVReg),
     (MUL_INT, binop_23x GetVReg GetVReg SafeMul SetVReg),
     (DIV_INT, div_23x GetVReg DoIntDivide False), (REM_INT, div_23x GetVReg DoIntRemainder False),
     (SHL_INT, binop_23x GetVReg GetVReg shl_int SetVReg), (SHR_INT, binop_23x GetVReg GetVReg shr_int SetVReg),
     (USHR_INT, binop_23x GetVReg GetVReg ushr_int SetVReg),
     (AND_INT, binop_23x GetVReg GetVReg (AND) SetVReg), (OR_INT, binop_23x GetVReg GetVReg (OR) SetVReg),
     (XOR_INT, binop_23x GetVReg GetVReg (XOR) SetVReg)]"

definition long_handlers :: "(u8 \<times> 'w handler) list" where
  "long_handlers =
    [(ADD_LONG, binop_23x GetVRegLong GetVRegLong SafeAdd SetVRegLong),
     (SUB_LONG, binop_23x GetVRegLong GetVRegLong SafeSub SetVRegLong),
     (MUL_LONG, binop_23x GetVRegLong GetVRegLong SafeMul SetVRegLong),
     (DIV_LONG, div_23x GetVRegLong DoLongDivide True), (REM_LONG, div_23x GetVRegLong DoLongRemainder True),
     (AND_LONG, binop_23x GetVRegLong GetVRegLong (AND) SetVRegLong),
     (OR_LONG, binop_23x GetVRegLong GetVRegLong (OR) SetVRegLong),
     (XOR_LONG, binop_23x GetVRegLong GetVRegLong (XOR) SetVRegLong),
     (SHL_LONG, binop_23x GetVRegLong GetVReg shl_long SetVRegLong),
     (SHR_LONG, binop_23x GetVRegLong GetVReg shr_long SetVRegLong),
     (USHR_LONG, binop_23x GetVRegLong GetVReg ushr_long SetVRegLong)]"

definition float_handlers :: "fpu \<Rightarrow> (u8 \<times> 'w handler) list" where
  "float_handlers p =
    [(ADD_FLOAT, binop_23x GetVRegFloat GetVRegFloat (float_add p) SetVRegFloat),
     (SUB_FLOAT, binop_23x GetVRegFloat GetVRegFloat (float_sub p) SetVRegFloat),
     (MUL_FLOAT, binop_23x GetVRegFloat GetVRegFloat (float_mul p) SetVRegFloat),
     (DIV_FLOAT, binop_23x GetVRegFloat GetVRegFloat (float_div p) SetVRegFloat),
     (REM_FLOAT, binop_23x GetVRegFloat GetVRegFloat (float_fmod p) SetVRegFloat),
     (ADD_DOUBLE, binop_23x GetVRegDouble GetVRegDouble (double_add p) SetVRegDouble),
     (SUB_DOUBLE, binop_23x GetVRegDouble GetVRegDouble (double_sub p) SetVRegDouble),
     (MUL_DOUBLE, binop_23x GetVRegDouble GetVRegDouble (double_mul p) SetVRegDouble),
     (DIV_DOUBLE, binop_23x GetVRegDouble GetVRegDouble (double_div p) SetVRegDouble),
     (REM_DOUBLE, binop_23x GetVRegDouble GetVRegDouble (double_fmod p) SetVRegDouble)]"

definition int_2addr_handlers :: "(u8 \<times> 'w handler) list" where
  "int_2addr_handlers =
    [(ADD_INT_2ADDR, binop_2addr GetVReg GetVReg SafeAdd SetVReg), (SUB_INT_2ADDR, binop_2addr GetVReg GetVReg SafeSub SetVReg),
     (MUL_INT_2ADDR, binop_2addr GetVReg GetVReg SafeMul SetVReg),
     (DIV_INT_2ADDR, div_2addr GetVReg DoIntDivide False), (REM_INT_2ADDR, div_2addr GetVReg DoIntRemainder False),
     (SHL_INT_2ADDR, binop_2addr GetVReg GetVReg shl_int SetVReg), (SHR_INT_2ADDR, binop_2addr GetVReg GetVReg shr_int SetVReg),
     (USHR_INT_2ADDR, binop_2addr GetVReg GetVReg ushr_int SetVReg),
     (AND_INT_2ADDR, binop_2addr GetVReg GetVReg (AND) SetVReg), (OR_INT_2ADDR, binop_2addr GetVReg GetVReg (OR) SetVReg),
     (XOR_INT_2ADDR, binop_2addr GetVReg GetVReg (XOR) SetVReg)]"

definition long_2addr_handlers :: "(u8 \<times> 'w handler) list" where
  "long_2addr_handlers =
    [(ADD_LONG_2ADDR, binop_2addr GetVRegLong GetVRegLong SafeAdd SetVRegLong),
     (SUB_LONG_2ADDR, binop_2addr GetVRegLong GetVRegLong SafeSub SetVRegLong),
     (MUL_LONG_2ADDR, binop_2addr GetVRegLong GetVRegLong SafeMul SetVRegLong),
     (DIV_LONG_2ADDR, div_2addr GetVRegLong DoLongDivide True), (REM_LONG_2ADDR, div_2addr GetVRegLong DoLongRemainder True),
     (AND_LONG_2ADDR, binop_2addr GetVRegLong GetVRegLong (AND) SetVRegLong),
     (OR_LONG_2ADDR, binop_2addr GetVRegLong GetVRegLong (OR) SetVRegLong),
     (XOR_LONG_2ADDR, binop_2addr GetVRegLong GetVRegLong (XOR) SetVRegLong),
     (SHL_LONG_2ADDR, binop_2addr GetVRegLong GetVReg shl_long SetVRegLong),
     (SHR_LONG_2ADDR, binop_2addr GetVRegLong GetVReg shr_long SetVRegLong),
     (USHR_LONG_2ADDR, binop_2addr GetVRegLong GetVReg ushr_long SetVRegLong)]"

definition float_2addr_handlers :: "fpu \<Rightarrow> (u8 \<times> 'w handler) list" where
  "float_2addr_handlers p =
    [(ADD_FLOAT_2ADDR, binop_2addr GetVRegFloat GetVRegFloat (float_add p) SetVRegFloat),
     (SUB_FLOAT_2ADDR, binop_2addr GetVRegFloat GetVRegFloat (float_sub p) SetVRegFloat),
     (MUL_FLOAT_2ADDR, binop_2addr GetVRegFloat GetVRegFloat (float_mul p) SetVRegFloat),
     (DIV_FLOAT_2ADDR, binop_2addr GetVRegFloat GetVRegFloat (float_div p) SetVRegFloat),
     (REM_FLOAT_2ADDR, binop_2addr GetVRegFloat GetVRegFloat (float_fmod p) SetVRegFloat),
     (ADD_DOUBLE_2ADDR, binop_2addr GetVRegDouble GetVRegDouble (double_add p) SetVRegDouble),
     (SUB_DOUBLE_2ADDR, binop_2addr GetVRegDouble GetVRegDouble (double_sub p) SetVRegDouble),
     (MUL_DOUBLE_2ADDR, binop_2addr GetVRegDouble GetVRegDouble (double_mul p) SetVRegDouble),
     (DIV_DOUBLE_2ADDR, binop_2addr GetVRegDouble GetVRegDouble (double_div p) SetVRegDouble),
     (REM_DOUBLE_2ADDR, binop_2addr GetVRegDouble GetVRegDouble (double_fmod p) SetVRegDouble)]"

definition lit_handlers :: "(u8 \<times> 'w handler) list" where
  "lit_handlers =
    [(ADD_INT_LIT16, binop_lit16 SafeAdd), (RSUB_INT_LIT16, binop_lit16 (\<lambda>x lit. SafeSub lit x)),
     (MUL_INT_LIT16, binop_lit16 SafeMul), (DIV_INT_LIT16, div_lit16 DoIntDivide), (REM_INT_LIT16, div_lit16 DoIntRemainder),
     (AND_INT_LIT16, binop_lit16 (AND)), (OR_INT_LIT16, binop_lit16 (OR)), (XOR_INT_LIT16, binop_lit16 (XOR)),
     (ADD_INT_LIT8, binop_lit8 SafeAdd), (RSUB_INT_LIT8, binop_lit8 (\<lambda>x lit. SafeSub lit x)),
     (MUL_INT_LIT8, binop_lit8 SafeMul), (DIV_INT_LIT8, div_lit8 DoIntDivide), (REM_INT_LIT8, div_lit8 DoIntRemainder),
     (AND_INT_LIT8, binop_lit8 (AND)), (OR_INT_LIT8, binop_lit8 (OR)), (XOR_INT_LIT8, binop_lit8 (XOR)),
     (SHL_INT_LIT8, binop_lit8 shl_int), (SHR_INT_LIT8, binop_lit8 shr_int), (USHR_INT_LIT8, binop_lit8 ushr_int)]"

text \<open>The switch of \<open>ExecuteSwitchImpl\<close>; the unused opcodes call \<open>UnexpectedOpcode\<close>, which aborts.\<close>

definition handlers :: "fpu \<Rightarrow> u32 \<Rightarrow> (u8 \<times> 'w handler) list" where
  "handlers p hash1 =
     move_handlers @ return_handlers @ const_handlers @ object_handlers @ branch_handlers @ cmp_handlers p @ if_handlers
     @ array_handlers @ iget_handlers @ sget_handlers @ iput_handlers @ sput_handlers @ invoke_handlers hash1
     @ unop_handlers p @ int_handlers @ long_handlers @ float_handlers p @ int_2addr_handlers @ long_2addr_handlers
     @ float_2addr_handlers p @ lit_handlers"

text \<open>One turn of the loop.\<close>

definition step :: "'w config \<Rightarrow> u32 \<Rightarrow> nat \<Rightarrow> 'w istate \<Rightarrow> 'w outcome option" where
  "step cfg hash1 inst s = do {
     let s = s\<lparr>frame := SetDexPC (GetDexPc inst) (frame s)\<rparr>;
     inst_data \<leftarrow> Fetch16 (code s) inst 0;
     (case map_of (handlers (fp cfg) hash1) (Opcode_of inst_data) of
        None \<Rightarrow> Some Fatal
      | Some h \<Rightarrow> h cfg inst inst_data s)
   }"

partial_function (option) run :: "'w config \<Rightarrow> u32 \<Rightarrow> nat \<Rightarrow> 'w istate \<Rightarrow> 'w outcome option" where
  "run cfg hash1 inst s =
     do { r \<leftarrow> step cfg hash1 inst s;
          (case r of Continue inst' s' \<Rightarrow> run cfg hash1 inst' s' | _ \<Rightarrow> Some r) }"

definition ExecuteSwitchImpl :: "'w config \<Rightarrow> 'w istate \<Rightarrow> 'w outcome option" where
  "ExecuteSwitchImpl cfg s = do {
     hash1 \<leftarrow> (if force_invoke_flag cfg = KARL_GERAT_U_CODE then hash_code cfg s else Some 0);
     run cfg hash1 (unat (GetDexPC (frame s))) s
   }"

section \<open>The unpacker's hook\<close>

lemma length_code_bytes: "length (code_bytes us) = 2 * length us"
  by (induction us) (simp_all add: code_bytes_def)

lemma possibly_handle_ordinary: "possibly_handle cfg b off inst s \<noteq> Some (NewCodeItem t)"
  by (auto simp: possibly_handle_def handle_pending_exception_def advance_def bind_eq_Some_conv split: if_splits)

text \<open>
  Claim C15. Self-modifying code is handed out: under a forced invocation, when the method called by an
  \<open>invoke-static\<close> has rewritten a single byte of the instructions that were hashed on entry, the
  interpreter stops and hands out the code item, with the rewritten code in the state; when the
  instructions are unchanged it goes on as without the hook. The handler of \<open>invoke-static/range\<close>
  has no hook and never hands anything out.
\<close>

theorem hook_hands_out_rewritten_code:
  assumes "force_invoke_flag cfg = KARL_GERAT_U_CODE" and "hash_code cfg s0 = Some hash1"
    and "insns_size_in_code_units (method_code cfg) = word_of_nat (length (code s0))" and "length (code s0) < 2 ^ 30"
    and "DoInvoke kStatic False cfg inst inst_data s = Some (success, t)"
  shows "(i < 2 * length (code s0) \<and> b \<noteq> code_bytes (code s0) ! i \<and> code_bytes (code t) = (code_bytes (code s0))[i := b] \<longrightarrow>
      invoke_static hash1 cfg inst inst_data s = Some (NewCodeItem t))
    \<and> (code t = code s0 \<longrightarrow> invoke_static hash1 cfg inst inst_data s = possibly_handle cfg (\<not> success) 3 inst t)
    \<and> invoke_op (DoInvoke kStatic True) cfg inst inst_data s \<noteq> Some (NewCodeItem u)"
proof -
  let ?n = "insns_size_in_code_units (method_code cfg)"
  let ?hash = "foldl (\<lambda>h b. h * 131 + char_value (char_signed cfg) b) 0"
  have n: "unat ?n = length (code s0)" using assms(3,4) by (simp add: unat_word_of_nat_u32)
  have hash: "insns_hash (char_signed cfg) bs ?n = Some (?hash bs)" if "length bs = 2 * length (code s0)" for bs
    using that n assms(4) by (intro insns_hash_foldl) simp_all
  have hash1: "hash1 = ?hash (code_bytes (code s0))"
    using assms(2) hash [of "code_bytes (code s0)"] by (simp add: hash_code_def length_code_bytes)
  have run: "invoke_static hash1 cfg inst inst_data s = (if hash1 \<noteq> ?hash (code_bytes (code t)) then Some (NewCodeItem t)
      else possibly_handle cfg (\<not> success) 3 inst t)" if "length (code_bytes (code t)) = 2 * length (code s0)"
    using assms(1,5) hash [OF that] by (simp add: invoke_static_def hash_code_def)
  have "invoke_static hash1 cfg inst inst_data s = Some (NewCodeItem t)"
    if "i < 2 * length (code s0)" "b \<noteq> code_bytes (code s0) ! i" "code_bytes (code t) = (code_bytes (code s0))[i := b]"
  proof -
    have "hash1 \<noteq> ?hash (code_bytes (code t))"
      using hash_one_byte [of i "code_bytes (code s0)" b "char_signed cfg" 0] that hash1 by (simp add: length_code_bytes)
    with run that(3) show ?thesis by (simp add: length_code_bytes)
  qed
  moreover have "invoke_op (DoInvoke kStatic True) cfg inst inst_data s \<noteq> Some (NewCodeItem u)"
    by (auto simp: invoke_op_def bind_eq_Some_conv possibly_handle_ordinary)
  ultimately show ?thesis using run hash1 by (simp add: length_code_bytes)
qed

text \<open>A floating-point unit for the examples.\<close>

definition sample_fpu :: fpu where
  "sample_fpu = \<lparr>float_add = \<lambda>a b. 0, float_sub = \<lambda>a b. 0, float_mul = \<lambda>a b. 0, float_div = \<lambda>a b. 0, float_fmod = \<lambda>a b. 0,
     float_neg = \<lambda>a. a, float_less = \<lambda>a b. False, float_eq = \<lambda>a b. a = b, double_add = \<lambda>a b. 0, double_sub = \<lambda>a b. 0,
     double_mul = \<lambda>a b. 0, double_div = \<lambda>a b. 0, double_fmod = \<lambda>a b. 0, double_neg = \<lambda>a. a, double_less = \<lambda>a b. False,
     double_eq = \<lambda>a b. a = b, int_to_float = word_of_int, int_to_double = word_of_int, float_to_double = ucast,
     double_to_float = ucast, float_truncate = sint, double_truncate = sint\<rparr>"

text \<open>A callee that turns the \<open>nop\<close> after an \<open>invoke-static\<close> into \<open>return-void\<close>.\<close>

definition rewriting_config :: "unit config" where
  "rewriting_config =
     \<lparr>rt = \<lambda>q s. (case q of FindMethodFromCode _ _ _ \<Rightarrow> (1, s) | DoCall _ _ _ _ \<Rightarrow> (1, s\<lparr>code := (code s)[3 := 0x000e]\<rparr>) | _ \<Rightarrow> (0, s)),
      fp = sample_fpu, do_access_check = False, transaction_active = False, force_invoke_flag = KARL_GERAT_U_CODE, char_signed = True,
      method_code = \<lparr>code_item_ptr = 0, registers_size = 1, ins_size = 0, tries_size = 0, insns_size_in_code_units = 4,
        code_units = [0x0071, 0, 0, 0x0000]\<rparr>,
      method_dex_file = \<lparr>begin_of = [], string_ids = 0, type_ids = 0, field_ids = 0, method_ids = 0, proto_ids = 0, class_defs = 0\<rparr>\<rparr>"

definition rewriting_state :: "unit istate" where
  "rewriting_state = \<lparr>frame = Create 1 0, result_register = 0, pending = 0, code = [0x0071, 0, 0, 0x0000], world = ()\<rparr>"

theorem hook_hands_out_rewritten_code_witness:
  "invoke_static 0xb3e9c4db rewriting_config 0 0x0071 rewriting_state
     = Some (NewCodeItem (rewriting_state\<lparr>code := [0x0071, 0, 0, 0x000e]\<rparr>))"
proof -
  let ?t = "rewriting_state\<lparr>code := [0x0071, 0, 0, 0x000e]\<rparr>"
  have "hash_code rewriting_config rewriting_state = Some 0xb3e9c4db" by code_simp
  moreover have "DoInvoke kStatic False rewriting_config 0 0x0071 rewriting_state = Some (True, ?t)"
    by code_simp
  moreover have "force_invoke_flag rewriting_config = KARL_GERAT_U_CODE"
    "insns_size_in_code_units (method_code rewriting_config) = word_of_nat (length (code rewriting_state))"
    "length (code rewriting_state) < 2 ^ 30"
    by (simp_all add: rewriting_config_def rewriting_state_def)
  moreover have "code_bytes (code ?t) = (code_bytes (code rewriting_state))[6 := 0x0e]" "6 < 2 * length (code rewriting_state)"
    "0x0e \<noteq> code_bytes (code rewriting_state) ! 6"
    by code_simp+
  ultimately show ?thesis
    using hook_hands_out_rewritten_code [of rewriting_config rewriting_state "0xb3e9c4db" 0 "0x0071" rewriting_state True ?t 6 "0x0e"]
    by blast
qed

end
