(* ===== verification/InterpreterSafety.thy ===== *)
theory InterpreterSafety
  imports Interpreter
begin

text \<open>
  The interpreter runs verified code safely: from a code item that the static pass of
  \<open>StaticVerifier\<close> accepts, no handler of \<open>Interpreter\<close> reads or writes a register outside the frame
  or a code unit outside the code, and it continues at an instruction.

  \<open>safe\<close> states this of one outcome, \<open>safe_handler\<close> of a handler under the checks of its opcode;
  the rules of the first section prove it along the structure of a handler.
\<close>

section \<open>Safe outcomes\<close>

text \<open>A position the interpreter may continue at: an instruction, or right behind the last one.\<close>

definition start_or_end :: "CodeItem \<Rightarrow> nat \<Rightarrow> bool" where
  "start_or_end c j \<longleftrightarrow> insn_start c j \<or> j = unat (insns_size_in_code_units c)"

definition running :: "CodeItem \<Rightarrow> 'w istate \<Rightarrow> bool" where
  "running c s \<longleftrightarrow> frame_ok (unat (registers_size c)) (frame s) \<and> code s = code_units c"

text \<open>The state in the middle of the instruction at \<open>pc\<close>.\<close>

definition running_at :: "CodeItem \<Rightarrow> nat \<Rightarrow> 'w istate \<Rightarrow> bool" where
  "running_at c pc s \<longleftrightarrow> running c s \<and> GetDexPC (frame s) = word_of_nat pc"

text \<open>
  The static control flow: where the instruction at \<open>pc\<close> may continue, by the flags of its opcode. These
  are the ways of the interpreter; the catch handlers are those of the file \<open>dex\<close>.
\<close>

definition next_insn :: "CodeItem \<Rightarrow> nat \<Rightarrow> nat \<Rightarrow> bool" where
  "next_insn c pc j \<longleftrightarrow> start_or_end c j
     \<and> (\<exists>op. Opcode (code_units c) pc = Some op \<and> CanFlowThrough op \<and> j = pc + format_size (FormatOf op))"

definition branch_to :: "CodeItem \<Rightarrow> nat \<Rightarrow> nat \<Rightarrow> bool" where
  "branch_to c pc j \<longleftrightarrow> (\<exists>op off. Opcode (code_units c) pc = Some op \<and> IsBranch op
     \<and> GetTargetOffset (code_units c) pc = Some off \<and> RelativeAt pc off = Some j)"

definition switch_to :: "CodeItem \<Rightarrow> nat \<Rightarrow> nat \<Rightarrow> bool" where
  "switch_to c pc j \<longleftrightarrow> (\<exists>op table count i off. Opcode (code_units c) pc = Some op \<and> IsSwitch op
     \<and> payload_at (code_units c) pc = Some table \<and> Fetch16 (code_units c) table 1 = Some count \<and> i < unat count
     \<and> switch_target (code_units c) (op = PACKED_SWITCH) table (unat count) i = Some off \<and> RelativeAt pc off = Some j)"

definition throws_at :: "CodeItem \<Rightarrow> nat \<Rightarrow> bool" where
  "throws_at c pc \<longleftrightarrow> insn_start c pc \<and> (\<exists>op. Opcode (code_units c) pc = Some op \<and> IsThrow op)"

definition caught_at :: "CodeItem \<Rightarrow> DexFile \<Rightarrow> nat \<Rightarrow> nat \<Rightarrow> bool" where
  "caught_at c dex pc j \<longleftrightarrow> throws_at c pc
     \<and> (\<exists>it hs e h. make_CatchHandlerIterator 0 dex (code_item_ptr c) (word_of_nat pc) = Some it
          \<and> chi_walk (begin_of dex) it = Some (hs, e) \<and> h \<in> set hs \<and> j = unat (snd h))"

definition flow :: "CodeItem \<Rightarrow> DexFile \<Rightarrow> nat \<Rightarrow> nat \<Rightarrow> bool" where
  "flow c dex pc j \<longleftrightarrow> start_or_end c j \<and> (next_insn c pc j \<or> branch_to c pc j \<or> switch_to c pc j \<or> caught_at c dex pc j)"

lemma flow_next: "next_insn c pc j \<Longrightarrow> flow c dex pc j"
  by (simp add: flow_def next_insn_def)

lemma throws_start: "throws_at c pc \<Longrightarrow> insn_start c pc"
  by (simp add: throws_at_def)

text \<open>An outcome of the instruction at \<open>pc\<close>: the interpreter follows the control flow.\<close>

definition outcome_ok :: "CodeItem \<Rightarrow> DexFile \<Rightarrow> nat \<Rightarrow> bool \<Rightarrow> 'w outcome \<Rightarrow> bool" where
  "outcome_ok c dex pc may_abort r =
     (case r of Continue j s \<Rightarrow> flow c dex pc j \<and> running c s | Fatal \<Rightarrow> may_abort | _ \<Rightarrow> True)"

text \<open>A computation that succeeds with a result as wanted.\<close>

definition holds :: "('x \<Rightarrow> bool) \<Rightarrow> 'x option \<Rightarrow> bool" where
  "holds Q r \<longleftrightarrow> (\<exists>x. r = Some x \<and> Q x)"

abbreviation safe :: "CodeItem \<Rightarrow> DexFile \<Rightarrow> nat \<Rightarrow> bool \<Rightarrow> 'w outcome option \<Rightarrow> bool" where
  "safe c dex pc may_abort \<equiv> holds (outcome_ok c dex pc may_abort)"

abbreviation safe_call :: "CodeItem \<Rightarrow> nat \<Rightarrow> ('v \<times> 'w istate) option \<Rightarrow> bool" where
  "safe_call c pc \<equiv> holds (\<lambda>(v, t). running_at c pc t)"

text \<open>What is asked of the runtime: its answers keep the frame's size and pc and do not rewrite the code.\<close>

definition answers_ok :: "CodeItem \<Rightarrow> 'w answers \<Rightarrow> bool" where
  "answers_ok c ans \<longleftrightarrow> (\<forall>q pc s. running_at c pc s \<longrightarrow> running_at c pc (snd (ans q s)))"

text \<open>What is asked of the file: the catch handlers found for an instruction can be read, and their
  addresses are instructions. The pass over the try blocks checks the lists one after the other; that
  the offset of a try block is the start of one of them is the file verifier's part.\<close>

definition catches_ok :: "CodeItem \<Rightarrow> DexFile \<Rightarrow> bool" where
  "catches_ok c d \<longleftrightarrow> (\<forall>pc. insn_start c pc \<longrightarrow>
     (\<exists>it hs e. make_CatchHandlerIterator 0 d (code_item_ptr c) (word_of_nat pc) = Some it
        \<and> chi_walk (begin_of d) it = Some (hs, e) \<and> (\<forall>h \<in> set hs. insn_start c (unat (snd h)))))"

text \<open>The byte count of an array payload stays clear of the 32-bit wrap-around that the static pass does not guard.\<close>

definition array_data_ok :: "CodeItem \<Rightarrow> bool" where
  "array_data_ok c \<longleftrightarrow> (\<forall>pc table w n. insn_start c pc \<longrightarrow> Opcode (code_units c) pc = Some FILL_ARRAY_DATA \<longrightarrow>
     payload_at (code_units c) pc = Some table \<longrightarrow>
     Fetch16 (code_units c) table 1 = Some w \<longrightarrow> two_units (code_units c) (table + 2) = Some n \<longrightarrow> unat (n * ucast w) < 2 ^ 31)"

definition sound_run :: "CodeItem \<Rightarrow> 'w config \<Rightarrow> bool" where
  "sound_run c cfg \<longleftrightarrow> method_code cfg = c \<and> \<not> do_access_check cfg \<and> answers_ok c (rt cfg)
     \<and> catches_ok c (method_dex_file cfg) \<and> array_data_ok c
     \<and> unat (insns_size_in_code_units c) < 2 ^ 31 \<and> unat (insns_size_in_code_units c) \<le> length (code_units c)"

lemma start_inside: "sound_run c cfg \<Longrightarrow> insn_start c pc \<Longrightarrow> pc < 2 ^ 31 \<and> pc < length (code_units c)"
  using insn_from_less [of c 0 pc] by (auto simp: sound_run_def)

lemma outcome_ok_simps [simp]:
  "outcome_ok c dex pc b (Continue j s) \<longleftrightarrow> flow c dex pc j \<and> running c s"
  "outcome_ok c dex pc b (Return v s)" "outcome_ok c dex pc b (NewCodeItem s)" "outcome_ok c dex pc b Fatal \<longleftrightarrow> b"
  by (simp_all add: outcome_ok_def)

lemma holds_simps [simp]: "holds Q (Some x) \<longleftrightarrow> Q x" "\<not> holds Q None"
  by (simp_all add: holds_def)

lemma holds_Some: "Q x \<Longrightarrow> holds Q (Some x)"
  by simp

lemma holds_bind: "holds P m \<Longrightarrow> (\<And>x. P x \<Longrightarrow> holds Q (f x)) \<Longrightarrow> holds Q (m \<bind> f)"
  by (auto simp: holds_def)

lemma ask_running: "sound_run c cfg \<Longrightarrow> running_at c pc s \<Longrightarrow> running_at c pc (snd (ask cfg q s))"
  by (auto simp: ask_def sound_run_def answers_ok_def split: prod.splits) (metis snd_conv)

lemma rt_running: "sound_run c cfg \<Longrightarrow> running_at c pc s \<Longrightarrow> running_at c pc (snd (rt cfg q s))"
  by (auto simp: sound_run_def answers_ok_def)

lemma tell_running: "sound_run c cfg \<Longrightarrow> running_at c pc s \<Longrightarrow> running_at c pc (tell cfg q s)"
  by (simp add: tell_def rt_running)

lemma throw_running: "sound_run c cfg \<Longrightarrow> running_at c pc s \<Longrightarrow> running_at c pc (throw_exception cfg k s)"
  by (simp add: throw_exception_def tell_running)

lemma update_running [simp]:
  "running_at c pc (s\<lparr>result_register := v\<rparr>) = running_at c pc s"
  "running_at c pc (ClearPending s) = running_at c pc s" "running_at c pc (SetPending e s) = running_at c pc s"
  by (simp_all add: running_at_def running_def ClearPending_def SetPending_def)

lemma running_code: "running_at c pc s \<Longrightarrow> code s = code_units c"
  by (simp add: running_at_def running_def)

text \<open>The outcome after the runtime was asked, in the forms the handlers use.\<close>

lemma holds_prod: "running_at c pc (snd p) \<Longrightarrow> (\<And>v t. running_at c pc t \<Longrightarrow> holds Q (f v t)) \<Longrightarrow> holds Q (case p of (v, t) \<Rightarrow> f v t)"
  by (cases p) simp

lemma running_pair: "running_at c pc s \<Longrightarrow> running_at c pc (snd (x, s))"
  and running_if: "running_at c pc (snd p) \<Longrightarrow> running_at c pc (snd p') \<Longrightarrow> running_at c pc (snd (if d then p else p'))"
  by simp_all

lemma running_result: "running_at c pc s \<Longrightarrow> running_at c pc (s\<lparr>result_register := v\<rparr>)"
  and running_SetPending: "running_at c pc s \<Longrightarrow> running_at c pc (SetPending e s)"
  and running_ClearPending: "running_at c pc s \<Longrightarrow> running_at c pc (ClearPending s)"
  by simp_all

lemmas running_rules = ask_running rt_running tell_running throw_running running_pair running_if running_result
  running_SetPending running_ClearPending

lemma holds_if: "(d \<Longrightarrow> holds Q r) \<Longrightarrow> (\<not> d \<Longrightarrow> holds Q r') \<Longrightarrow> holds Q (if d then r else r')"
  by simp

section \<open>Continuing\<close>

lemma advance_safe: "RelativeAt pc off = Some j \<Longrightarrow> flow c dex pc j \<Longrightarrow> running_at c pc s \<Longrightarrow> safe c dex pc b (advance off pc s)"
  by (simp add: advance_def running_at_def)

lemma next_safe:
  "running_at c pc s \<Longrightarrow> next_insn c pc (pc + unat off) \<Longrightarrow> unat off < 2 ^ 31 \<Longrightarrow> safe c dex pc b (advance off pc s)"
  using RelativeAt_forward [of "unat off" pc] by (auto intro!: advance_safe flow_next)

lemma chi_walk_cases:
  assumes "chi_walk buf it = Some (hs, e)"
  shows "(hs = [] \<and> \<not> chi_HasNext it) \<or> (\<exists>it' hs'. chi_HasNext it \<and> chi_Next buf it = Some it' \<and> chi_walk buf it' = Some (hs', e)
    \<and> hs = (handler_type_idx it, handler_address it) # hs')"
  using assms by (subst (asm) chi_walk.simps) (auto split: if_splits option.splits)

lemma catch_loop_address:
  assumes "sound_run c cfg" and "chi_walk (begin_of (method_dex_file cfg)) it = Some (hs, e)" and "running_at c pc s"
  shows "\<exists>a t. catch_loop cfg ty it s = Some (a, t) \<and> running_at c pc t \<and> (a = kDexNoIndex \<or> a \<in> snd ` set hs)"
  using assms(2,3)
proof (induction hs arbitrary: it s)
  case Nil
  then have "\<not> chi_HasNext it" using chi_walk_cases by fastforce
  with Nil show ?case by (subst catch_loop.simps) simp
next
  case (Cons h hs)
  from chi_walk_cases [OF Cons.prems(1)] obtain it' where has: "chi_HasNext it"
    and nxt: "chi_Next (begin_of (method_dex_file cfg)) it = Some it'" "chi_walk (begin_of (method_dex_file cfg)) it' = Some (hs, e)"
    and h: "h = (handler_type_idx it, handler_address it)"
    by auto
  have rest: "\<exists>a t. catch_loop cfg ty it' u = Some (a, t) \<and> running_at c pc t \<and> (a = kDexNoIndex \<or> a \<in> snd ` set (h # hs))"
    if "running_at c pc u" for u
    using Cons.IH [OF nxt(2) that] by auto
  obtain v t where v: "ask cfg (GetClassFromTypeIndex (handler_type_idx it)) s = (v, t)" by fastforce
  obtain w u where w: "ask cfg (IsAssignableFrom v ty) t = (w, u)" by fastforce
  have t: "running_at c pc t" using ask_running [OF assms(1) Cons.prems(2)] v by (metis snd_conv)
  then have u: "running_at c pc u" using ask_running [OF assms(1)] w by (metis snd_conv)
  have "catch_loop cfg ty it s = (if handler_type_idx it = kDexNoIndex16 then Some (handler_address it, s)
      else if v = 0 then catch_loop cfg ty it' (ClearPending t)
      else if w \<noteq> 0 then Some (handler_address it, u) else catch_loop cfg ty it' u)"
    by (subst catch_loop.simps) (simp add: has nxt(1) v w)
  moreover have "handler_address it \<in> snd ` set (h # hs)" using h by simp
  ultimately show ?case using rest [of u] rest [of "ClearPending t"] t u Cons.prems(2) by simp
qed

lemma displacement:
  assumes "pc < 2 ^ 31" and "unat a < 2 ^ 31"
  shows "RelativeAt pc (a - word_of_nat pc) = Some (unat (a :: u32))"
proof -
  have "0 \<le> sint a" using assms(2) sint_word_of_nat_small [of "unat a"] by simp
  then have "int pc + sint (a - word_of_nat pc) = int (unat a)"
    using signed_target [OF assms(1), of "a - word_of_nat pc"] by simp
  then show ?thesis by (simp add: RelativeAt_def)
qed

lemma handle_pending_safe:
  assumes "sound_run c cfg" and "throws_at c pc" and "running_at c pc s"
  shows "safe c (method_dex_file cfg) pc b (handle_pending_exception cfg pc s)"
proof -
  note pc = throws_start [OF assms(2)]
  have c: "method_code cfg = c" using assms(1) by (simp add: sound_run_def)
  obtain ty s1 where ty: "ask cfg (GetClass (pending s)) s = (ty, s1)" by fastforce
  have s1: "running_at c pc s1" using ask_running [OF assms(1,3)] ty by (metis snd_conv)
  from assms(1) pc obtain it hs e where
    it: "make_CatchHandlerIterator 0 (method_dex_file cfg) (code_item_ptr (method_code cfg)) (word_of_nat pc) = Some it"
    and hs: "chi_walk (begin_of (method_dex_file cfg)) it = Some (hs, e)" "\<forall>h \<in> set hs. insn_start c (unat (snd h))"
    unfolding sound_run_def catches_ok_def by blast
  from catch_loop_address [OF assms(1) hs(1), of pc "ClearPending s1" ty] s1 obtain a t where
    a: "catch_loop cfg ty it (ClearPending s1) = Some (a, t)" and t: "running_at c pc t"
    and src: "a = kDexNoIndex \<or> a \<in> snd ` set hs"
    by auto
  show ?thesis
  proof (cases "a = kDexNoIndex")
    case True
    then show ?thesis
      by (simp add: handle_pending_exception_def FindNextInstructionFollowingException_def FindCatchBlock_def GetDexPc_def Let_def ty it a)
  next
    case False
    with src hs(2) have st: "insn_start c (unat a)" by auto
    note in_code = start_inside [OF assms(1) st] start_inside [OF assms(1) pc]
    from in_code obtain op where op: "Opcode (code t) (unat a) = Some op"
      using running_code [OF t] by (simp add: Opcode_inside)
    obtain u where u: "FindNextInstructionFollowingException cfg (GetDexPc pc) s = Some (a, u)" and ru: "running_at c pc u"
      using False t by (simp add: FindNextInstructionFollowingException_def FindCatchBlock_def GetDexPc_def Let_def ty it a op)
    have "RelativeAt pc (a - GetDexPc pc) = Some (unat a)"
      using displacement in_code by (simp add: GetDexPc_def)
    moreover have "flow c (method_dex_file cfg) pc (unat a)"
      unfolding flow_def caught_at_def start_or_end_def using assms(2) st it hs(1) src False c by blast
    ultimately show ?thesis
      using ru by (simp add: handle_pending_exception_def u False advance_safe)
  qed
qed

lemma possibly_safe:
  "sound_run c cfg \<Longrightarrow> throws_at c pc \<Longrightarrow> running_at c pc s \<Longrightarrow> next_insn c pc (pc + unat off) \<Longrightarrow> unat off < 2 ^ 31 \<Longrightarrow>
     safe c (method_dex_file cfg) pc b (possibly_handle cfg p off pc s)"
  by (simp add: possibly_handle_def handle_pending_safe next_safe)

lemma throw_safe:
  "sound_run c cfg \<Longrightarrow> throws_at c pc \<Longrightarrow> running_at c pc s \<Longrightarrow> safe c (method_dex_file cfg) pc b (throw_here cfg k pc s)"
  by (simp add: throw_here_def handle_pending_safe throw_running)

section \<open>Verified instructions\<close>

text \<open>What the static pass and the layout of the code say of the instruction at \<open>pc\<close>; its data tables are
  excluded by the size.\<close>

definition verified_at :: "CodeItem \<Rightarrow> nat \<Rightarrow> u16 \<Rightarrow> bool" where
  "verified_at c pc d \<longleftrightarrow> insn_start c pc \<and> pc < 2 ^ 31 \<and> Fetch16 (code_units c) pc 0 = Some d
     \<and> (\<exists>u u'. VerifyInstruction c pc (word_of_nat pc) u = Some (True, u') \<and> (\<forall>t. opcode_at u t \<longleftrightarrow> insn_start c t))
     \<and> start_or_end c (pc + format_size (FormatOf (Opcode_of d)))
     \<and> pc + format_size (FormatOf (Opcode_of d)) \<le> length (code_units c)"

text \<open>The format of an opcode and how many registers its operands A, B and C are checked to be.\<close>

definition reg_width :: "u32 \<Rightarrow> u32 \<Rightarrow> u32 \<Rightarrow> nat" where
  "reg_width single wide t = (if t = single then 1 else if t = wide then 2 else 0)"

definition shape :: "u8 \<Rightarrow> Format \<times> nat \<times> nat \<times> nat" where
  "shape op =
     (FormatOf op, reg_width kVerifyRegA kVerifyRegAWide (GetVerifyTypeArgumentA op),
      reg_width kVerifyRegB kVerifyRegBWide (GetVerifyTypeArgumentB op),
      reg_width kVerifyRegC kVerifyRegCWide (GetVerifyTypeArgumentC op))"

definition in_frame :: "CodeItem \<Rightarrow> nat \<Rightarrow> nat \<Rightarrow> bool" where
  "in_frame c r w \<longleftrightarrow> 0 < w \<longrightarrow> r + w \<le> unat (registers_size c)"

definition operand_ok :: "CodeItem \<Rightarrow> u32 option \<Rightarrow> nat \<Rightarrow> bool" where
  "operand_ok c x w \<longleftrightarrow> 0 < w \<longrightarrow> (\<exists>r. x = Some r \<and> unat r + w \<le> unat (registers_size c))"

lemma operand_widths:
  assumes "verified_at c pc d" and "shape (Opcode_of d) = (fmt, wa, wb, wc)"
  shows "operand_ok c (VRegA (code_units c) pc) wa \<and> operand_ok c (VRegB (code_units c) pc) wb
    \<and> operand_ok c (VRegC (code_units c) pc) wc"
proof -
  from assms(1) obtain u u' where v: "VerifyInstruction c pc (word_of_nat pc) u = Some (True, u')"
    and op: "Opcode (code_units c) pc = Some (Opcode_of d)"
    by (auto simp: verified_at_def Opcode_of_eq)
  obtain op u1 u2 u3 where o: "Opcode (code_units c) pc = Some op" and a: "verify_arg_A c op pc u = Some (True, u1)"
    and b: "verify_arg_B c op pc u1 = Some (True, u2)" and e: "verify_arg_C c op pc u2 = Some (True, u3)"
    by (rule VerifyInstruction_passes [OF v])
  from o op have o': "op = Opcode_of d" by simp
  from assms(2) have w: "wa = reg_width kVerifyRegA kVerifyRegAWide (GetVerifyTypeArgumentA op)"
    "wb = reg_width kVerifyRegB kVerifyRegBWide (GetVerifyTypeArgumentB op)"
    "wc = reg_width kVerifyRegC kVerifyRegCWide (GetVerifyTypeArgumentC op)"
    by (simp_all add: shape_def o')
  show ?thesis
    using arg_A_passes [OF a o] arg_B_passes [OF b o] arg_C_passes [OF e o]
    unfolding w operand_ok_def reg_width_def by (auto simp: Suc_le_eq)
qed

lemma verified_format: "verified_at c pc d \<Longrightarrow> shape (Opcode_of d) = (fmt, wa, wb, wc) \<Longrightarrow> FormatOf (Opcode_of d) = fmt
    \<and> Fetch16 (code_units c) pc 0 = Some d \<and> (CanFlowThrough (Opcode_of d) \<longrightarrow> next_insn c pc (pc + format_size fmt))
    \<and> pc + format_size fmt \<le> length (code_units c)"
  by (auto simp: verified_at_def shape_def next_insn_def Opcode_of_eq)

text \<open>Only the formats of \<open>nop\<close>, of \<open>return\<close>, \<open>throw\<close> and their like and of \<open>goto\<close> have opcodes that do not flow through.\<close>

lemma flowing_rows:
  "list_all (\<lambda>(op, name, format, flags, vflags). format \<notin> {k10x, k11x, k10t, k20t, k30t} \<longrightarrow> flags AND kContinue \<noteq> 0) insn_table"
  unfolding insn_table_def insn_table_lo_def insn_table_hi_def by simp

lemma flows_through: "FormatOf op \<notin> {k10x, k11x, k10t, k20t, k30t} \<Longrightarrow> CanFlowThrough op"
  using insn_table_all [OF flowing_rows, of op] by (simp add: CanFlowThrough_def)

text \<open>The operands in the form the handlers read them, for each format.\<close>

lemmas vreg_defs = VRegA_def VRegB_def VRegC_def

lemmas operand_reads = VRegB_21s_def VRegB_21h_def VRegB_21c_def VRegB_22x_def VRegB_22b_def VRegB_23x_def VRegB_21t_def
  VRegB_31i_def VRegB_31c_def VRegB_31t_def VRegB_32x_def VRegB_51l_def VRegB_35c_def VRegB_3rc_def VRegA_32x_def
  VRegC_22c_def VRegC_22s_def VRegC_22b_def VRegC_23x_def VRegC_22t_def VRegC_35c_def VRegC_3rc_def Fetch32_def

lemma operands:
  assumes "verified_at c pc d" and "shape (Opcode_of d) = (fmt, wa, wb, wc)"
  shows "fmt = k10x \<Longrightarrow> CanFlowThrough (Opcode_of d) \<Longrightarrow> next_insn c pc (pc + 1)"
    and "fmt = k11x \<Longrightarrow> in_frame c (unat (VRegA_11x d)) wa
    \<and> (CanFlowThrough (Opcode_of d) \<longrightarrow> next_insn c pc (pc + 1))"
    and "fmt = k11n \<Longrightarrow> in_frame c (unat (VRegA_11n d)) wa
    \<and> next_insn c pc (pc + 1)"
    and "fmt = k12x \<Longrightarrow> in_frame c (unat (VRegA_12x d)) wa
    \<and> in_frame c (unat (VRegB_12x d)) wb
    \<and> next_insn c pc (pc + 1)"
    and "fmt = k21s \<Longrightarrow> in_frame c (unat (VRegA_21s d)) wa
    \<and> (\<exists>v. VRegB_21s (code_units c) pc = Some v)
    \<and> next_insn c pc (pc + 2)"
    and "fmt = k21h \<Longrightarrow> in_frame c (unat (VRegA_21h d)) wa
    \<and> (\<exists>v. VRegB_21h (code_units c) pc = Some v)
    \<and> next_insn c pc (pc + 2)"
    and "fmt = k21c \<Longrightarrow> in_frame c (unat (VRegA_21c d)) wa
    \<and> (\<exists>v. VRegB_21c (code_units c) pc = Some v)
    \<and> next_insn c pc (pc + 2)"
    and "fmt = k22x \<Longrightarrow> in_frame c (unat (VRegA_22x d)) wa
    \<and> (\<exists>r. VRegB_22x (code_units c) pc = Some r \<and> in_frame c (unat r) wb)
    \<and> next_insn c pc (pc + 2)"
    and "fmt = k22c \<Longrightarrow> in_frame c (unat (VRegA_22c d)) wa
    \<and> in_frame c (unat (VRegB_22c d)) wb
    \<and> (\<exists>v. VRegC_22c (code_units c) pc = Some v)
    \<and> next_insn c pc (pc + 2)"
    and "fmt = k22s \<Longrightarrow> in_frame c (unat (VRegA_22s d)) wa
    \<and> in_frame c (unat (VRegB_22s d)) wb
    \<and> (\<exists>v. VRegC_22s (code_units c) pc = Some v)
    \<and> next_insn c pc (pc + 2)"
    and "fmt = k22b \<Longrightarrow> in_frame c (unat (VRegA_22b d)) wa
    \<and> (\<exists>r. VRegB_22b (code_units c) pc = Some r \<and> in_frame c (unat r) wb)
    \<and> (\<exists>v. VRegC_22b (code_units c) pc = Some v)
    \<and> next_insn c pc (pc + 2)"
    and "fmt = k23x \<Longrightarrow> in_frame c (unat (VRegA_23x d)) wa
    \<and> (\<exists>r. VRegB_23x (code_units c) pc = Some r \<and> in_frame c (unat r) wb)
    \<and> (\<exists>r. VRegC_23x (code_units c) pc = Some r \<and> in_frame c (unat r) wc)
    \<and> next_insn c pc (pc + 2)"
    and "fmt = k22t \<Longrightarrow> in_frame c (unat (VRegA_22t d)) wa
    \<and> in_frame c (unat (VRegB_22t d)) wb
    \<and> (\<exists>v. VRegC_22t (code_units c) pc = Some v)
    \<and> next_insn c pc (pc + 2)"
    and "fmt = k21t \<Longrightarrow> in_frame c (unat (VRegA_21t d)) wa
    \<and> (\<exists>v. VRegB_21t (code_units c) pc = Some v)
    \<and> next_insn c pc (pc + 2)"
    and "fmt = k31i \<Longrightarrow> in_frame c (unat (VRegA_31i d)) wa
    \<and> (\<exists>v. VRegB_31i (code_units c) pc = Some v)
    \<and> next_insn c pc (pc + 3)"
    and "fmt = k31c \<Longrightarrow> in_frame c (unat (VRegA_31c d)) wa
    \<and> (\<exists>v. VRegB_31c (code_units c) pc = Some v)
    \<and> next_insn c pc (pc + 3)"
    and "fmt = k31t \<Longrightarrow> in_frame c (unat (VRegA_31t d)) wa
    \<and> (\<exists>v. VRegB_31t (code_units c) pc = Some v)
    \<and> next_insn c pc (pc + 3)"
    and "fmt = k32x \<Longrightarrow> (\<exists>r. VRegA_32x (code_units c) pc = Some r \<and> in_frame c (unat r) wa)
    \<and> (\<exists>r. VRegB_32x (code_units c) pc = Some r \<and> in_frame c (unat r) wb)
    \<and> next_insn c pc (pc + 3)"
    and "fmt = k51l \<Longrightarrow> in_frame c (unat (VRegA_51l d)) wa
    \<and> (\<exists>v. VRegB_51l (code_units c) pc = Some v)
    \<and> next_insn c pc (pc + 5)"
    and "fmt = k35c \<Longrightarrow> (\<exists>v. VRegB_35c (code_units c) pc = Some v)
    \<and> (\<exists>v. VRegC_35c (code_units c) pc = Some v)
    \<and> next_insn c pc (pc + 3)"
    and "fmt = k3rc \<Longrightarrow> (\<exists>v. VRegB_3rc (code_units c) pc = Some v)
    \<and> (\<exists>v. VRegC_3rc (code_units c) pc = Some v)
    \<and> next_insn c pc (pc + 3)"
  using operand_widths [OF assms] verified_format [OF assms] flows_through [of "Opcode_of d"]
  by (auto simp: vreg_defs operand_ok_def in_frame_def operand_reads)

lemmas operands_10x = operands(1) [OF _ _ refl]
  and operands_11x = operands(2) [OF _ _ refl]
  and operands_11n = operands(3) [OF _ _ refl]
  and operands_12x = operands(4) [OF _ _ refl]
  and operands_21s = operands(5) [OF _ _ refl]
  and operands_21h = operands(6) [OF _ _ refl]
  and operands_21c = operands(7) [OF _ _ refl]
  and operands_22x = operands(8) [OF _ _ refl]
  and operands_22c = operands(9) [OF _ _ refl]
  and operands_22s = operands(10) [OF _ _ refl]
  and operands_22b = operands(11) [OF _ _ refl]
  and operands_23x = operands(12) [OF _ _ refl]
  and operands_22t = operands(13) [OF _ _ refl]
  and operands_21t = operands(14) [OF _ _ refl]
  and operands_31i = operands(15) [OF _ _ refl]
  and operands_31c = operands(16) [OF _ _ refl]
  and operands_31t = operands(17) [OF _ _ refl]
  and operands_32x = operands(18) [OF _ _ refl]
  and operands_51l = operands(19) [OF _ _ refl]
  and operands_35c = operands(20) [OF _ _ refl]
  and operands_3rc = operands(21) [OF _ _ refl]

lemma operands_11x_next:
  "verified_at c pc d \<Longrightarrow> shape (Opcode_of d) = (k11x, wa, wb, wc) \<Longrightarrow> Opcode_of d = op \<Longrightarrow> CanFlowThrough op \<Longrightarrow>
     in_frame c (unat (VRegA_11x d)) wa \<and> next_insn c pc (pc + 1)"
  using operands_11x by blast

section \<open>Safe handlers\<close>

definition readable :: "(ShadowFrame \<Rightarrow> nat \<Rightarrow> 'a option) \<Rightarrow> nat \<Rightarrow> bool" where
  "readable get w \<longleftrightarrow> 0 < w \<and> (\<forall>n f i. frame_ok n f \<longrightarrow> i + w \<le> n \<longrightarrow> (\<exists>v. get f i = Some v))"

definition writable :: "(nat \<Rightarrow> 'a \<Rightarrow> ShadowFrame \<Rightarrow> ShadowFrame option) \<Rightarrow> nat \<Rightarrow> bool" where
  "writable put w \<longleftrightarrow> 0 < w \<and> (\<forall>n f i v. frame_ok n f \<longrightarrow> i + w \<le> n \<longrightarrow>
     (\<exists>f'. put i v f = Some f' \<and> frame_ok n f' \<and> GetDexPC f' = GetDexPC f))"

text \<open>The views of a frame, by the laws of their interpretations.\<close>

lemma readable_views [simp]:
  "readable GetVReg 1" "readable GetVRegFloat 1" "readable GetVRegReference 1" "readable GetVRegLong 2" "readable GetVRegDouble 2"
  unfolding readable_def
  using int_view.get_defined float_view.get_defined reference_view.get_defined long_view.get_defined double_view.get_defined
  by auto

lemma set_dex_pc:
  "SetVReg i v f = Some f' \<Longrightarrow> GetDexPC f' = GetDexPC f" "SetVRegFloat i v f = Some f' \<Longrightarrow> GetDexPC f' = GetDexPC f"
  "SetVRegReference i v f = Some f' \<Longrightarrow> GetDexPC f' = GetDexPC f" "SetVRegLong i w f = Some f' \<Longrightarrow> GetDexPC f' = GetDexPC f"
  "SetVRegDouble i w f = Some f' \<Longrightarrow> GetDexPC f' = GetDexPC f"
  by (auto simp: set_defs GetDexPC_def split: if_splits)

lemma writableI:
  "(\<And>n f i v. frame_ok n f \<Longrightarrow> i + w \<le> n \<Longrightarrow> \<exists>f'. put i v f = Some f' \<and> frame_ok n f') \<Longrightarrow>
   (\<And>i v f f'. put i v f = Some f' \<Longrightarrow> GetDexPC f' = GetDexPC f) \<Longrightarrow> 0 < w \<Longrightarrow> writable put w"
  unfolding writable_def by metis

lemma writable_views [simp]:
  "writable SetVReg 1" "writable SetVRegFloat 1" "writable SetVRegReference 1" "writable SetVRegLong 2" "writable SetVRegDouble 2"
  by (rule writableI,
      erule (1) int_view.set_ok float_view.set_ok reference_view.set_ok long_view.set_ok double_view.set_ok,
      erule set_dex_pc, simp)+

lemma holds_get:
  "readable get w \<Longrightarrow> running_at c pc s \<Longrightarrow> in_frame c i w \<Longrightarrow> (\<And>x. holds Q (f x)) \<Longrightarrow> holds Q (get (frame s) i \<bind> f)"
  unfolding readable_def in_frame_def running_at_def running_def by fastforce

lemma holds_put:
  assumes "writable put w" and "running_at c pc s" and "in_frame c i w" and "\<And>t. running_at c pc t \<Longrightarrow> holds Q (f t)"
  shows "holds Q (put_reg (put i) v s \<bind> f)"
proof -
  from assms(1-3) obtain f' where "put i v (frame s) = Some f'" "running_at c pc (s\<lparr>frame := f'\<rparr>)"
    unfolding writable_def in_frame_def running_at_def running_def by fastforce
  with assms(4) show ?thesis by (simp add: put_reg_def)
qed

lemmas get_rules = readable_views [THEN holds_get]
lemmas put_rules = writable_views [THEN holds_put]

definition may_abort :: "u8 \<Rightarrow> bool" where
  "may_abort op \<longleftrightarrow> op = FILLED_NEW_ARRAY \<or> op = FILLED_NEW_ARRAY_RANGE"

definition safe_handler :: "u8 \<Rightarrow> 'w handler \<Rightarrow> bool" where
  "safe_handler op h \<longleftrightarrow> (\<forall>c cfg pc d s. sound_run c cfg \<longrightarrow> verified_at c pc d \<longrightarrow> Opcode_of d = op \<longrightarrow> running_at c pc s
     \<longrightarrow> safe c (method_dex_file cfg) pc (may_abort op) (h cfg pc d s))"

lemma safe_handlerI:
  fixes h :: "'w handler"
  assumes "shape op = sh"
    and "\<And>c cfg pc d s. sound_run c cfg \<Longrightarrow> verified_at c pc d \<Longrightarrow> shape (Opcode_of d) = sh \<Longrightarrow> Opcode_of d = op \<Longrightarrow>
      insn_start c pc \<Longrightarrow> running_at c pc s \<Longrightarrow> code s = code_units c \<Longrightarrow> safe c (method_dex_file cfg) pc (may_abort op) (h cfg pc d s)"
  shows "safe_handler op h"
  unfolding safe_handler_def
proof (intro allI impI)
  fix c pc d and cfg :: "'w config" and s :: "'w istate"
  assume "sound_run c cfg" "verified_at c pc d" "Opcode_of d = op" "running_at c pc s"
  then show "safe c (method_dex_file cfg) pc (may_abort op) (h cfg pc d s)"
    using assms(1) by (intro assms(2)) (auto simp: running_code verified_at_def)
qed

text \<open>A handler that may throw, of an opcode with the flag \<open>kThrow\<close>.\<close>

lemma throwing_handlerI:
  fixes h :: "'w handler"
  assumes "shape op = sh" and "IsThrow op"
    and "\<And>c cfg pc d s. sound_run c cfg \<Longrightarrow> verified_at c pc d \<Longrightarrow> shape (Opcode_of d) = sh \<Longrightarrow> Opcode_of d = op \<Longrightarrow>
      throws_at c pc \<Longrightarrow> running_at c pc s \<Longrightarrow> code s = code_units c \<Longrightarrow>
      safe c (method_dex_file cfg) pc (may_abort op) (h cfg pc d s)"
  shows "safe_handler op h"
proof (rule safe_handlerI [OF assms(1)])
  fix c pc d and cfg :: "'w config" and s :: "'w istate"
  assume h: "sound_run c cfg" "verified_at c pc d" "shape (Opcode_of d) = sh" "Opcode_of d = op" "insn_start c pc"
    "running_at c pc s" "code s = code_units c"
  have "throws_at c pc" using h(2,4,5) assms(2) by (auto simp: throws_at_def verified_at_def Opcode_of_eq)
  then show "safe c (method_dex_file cfg) pc (may_abort op) (h cfg pc d s)" by (rule assms(3) [OF h(1-4) _ h(6,7)])
qed

lemma unop_12x_safe:
  assumes "shape op = (k12x, wa, wb, wc)" and "readable get wb" and "writable put wa"
  shows "safe_handler op (unop_12x get f put)"
  by (rule safe_handlerI [OF assms(1)], frule (1) operands_12x, unfold unop_12x_def, elim conjE exE,
      simp only: Option.bind.simps)
    (intro holds_get [OF assms(2)] holds_put [OF assms(3)] next_safe; (assumption | simp))

lemma move_22x_safe:
  assumes "shape op = (k22x, wa, wb, wc)" and "readable get wb" and "writable put wa"
  shows "safe_handler op (move_22x get put)"
  by (rule safe_handlerI [OF assms(1)], frule (1) operands_22x, unfold move_22x_def, elim conjE exE,
      simp only: Option.bind.simps)
    (intro holds_get [OF assms(2)] holds_put [OF assms(3)] next_safe; (assumption | simp))

lemma move_32x_safe:
  assumes "shape op = (k32x, wa, wb, wc)" and "readable get wb" and "writable put wa"
  shows "safe_handler op (move_32x get put)"
  by (rule safe_handlerI [OF assms(1)], frule (1) operands_32x, unfold move_32x_def, elim conjE exE,
      simp only: Option.bind.simps)
    (intro holds_get [OF assms(2)] holds_put [OF assms(3)] next_safe; (assumption | simp))

lemma move_result_safe:
  assumes "shape op = (k11x, wa, wb, wc)" and "writable put wa" and "CanFlowThrough op"
  shows "safe_handler op (move_result get put)"
  by (rule safe_handlerI [OF assms(1)], frule (2) operands_11x_next [OF _ _ _ assms(3)], unfold move_result_def, elim conjE exE,
      simp only: Option.bind.simps)
    (intro holds_put [OF assms(2)] next_safe; (assumption | simp))

lemma binop_23x_safe:
  assumes "shape op = (k23x, wa, wb, wc)" and "readable get1 wb" and "readable get2 wc" and "writable put wa"
  shows "safe_handler op (binop_23x get1 get2 f put)"
  by (rule safe_handlerI [OF assms(1)], frule (1) operands_23x, unfold binop_23x_def, elim conjE exE,
      simp only: Option.bind.simps)
    (intro holds_get [OF assms(2)] holds_get [OF assms(3)] holds_put [OF assms(4)] next_safe; (assumption | simp))

lemma binop_2addr_safe:
  assumes "shape op = (k12x, wa, wb, wc)" and "readable get1 wa" and "readable get2 wb" and "writable put wa"
  shows "safe_handler op (binop_2addr get1 get2 f put)"
  by (rule safe_handlerI [OF assms(1)], frule (1) operands_12x, unfold binop_2addr_def Let_def, elim conjE exE,
      simp only: Option.bind.simps)
    (intro holds_get [OF assms(2)] holds_get [OF assms(3)] holds_put [OF assms(4)] next_safe; (assumption | simp))

lemma binop_lit16_safe:
  assumes "shape op = (k22s, 1, 1, 0)"
  shows "safe_handler op (binop_lit16 f)"
  by (rule safe_handlerI [OF assms(1)], frule (1) operands_22s, unfold binop_lit16_def, elim conjE exE,
      simp only: Option.bind.simps)
    (intro get_rules put_rules next_safe; (assumption | simp))

lemma binop_lit8_safe:
  assumes "shape op = (k22b, 1, 1, 0)"
  shows "safe_handler op (binop_lit8 f)"
  by (rule safe_handlerI [OF assms(1)], frule (1) operands_22b, unfold binop_lit8_def, elim conjE exE,
      simp only: Option.bind.simps)
    (intro get_rules put_rules next_safe; (assumption | simp))

section \<open>The handlers one by one\<close>

lemma put_object_safe:
  "sound_run c cfg \<Longrightarrow> throws_at c pc \<Longrightarrow> running_at c pc s \<Longrightarrow> in_frame c dst 1 \<Longrightarrow> next_insn c pc (pc + unat off) \<Longrightarrow>
     unat off < 2 ^ 31 \<Longrightarrow> safe c (method_dex_file cfg) pc b (put_object cfg dst obj off pc s)"
  unfolding put_object_def by (intro holds_if handle_pending_safe put_rules next_safe; (assumption | simp))

lemma holds_put_const:
  assumes "running_at c pc s" and "in_frame c dst 1" and "\<And>t. running_at c pc t \<Longrightarrow> holds Q (f t)"
  shows "holds Q (put_const dst v s \<bind> f)"
proof (rule holds_bind)
  show "holds (running_at c pc) (put_const dst v s)"
    unfolding put_const_def
    by (intro put_rules holds_if) (use assms in \<open>auto intro: put_rules(3) [where f = Some, simplified]\<close>)
qed (rule assms(3))

lemmas outcome_rules = holds_if handle_pending_safe throw_safe possibly_safe put_object_safe next_safe get_rules put_rules
  holds_put_const holds_prod running_rules holds_Some

lemma return_void_safe: "safe_handler op return_void"
  by (simp add: safe_handler_def return_void_def)

lemma return_object_safe:
  assumes "shape op = (k11x, 1, 0, 0)"
  shows "safe_handler op return_object"
proof (rule safe_handlerI [OF assms])
  fix c pc d and cfg :: "'w config" and s :: "'w istate"
  assume h: "sound_run c cfg" "verified_at c pc d" "shape (Opcode_of d) = (k11x, 1, 0, 0)" "running_at c pc s"
  then have "\<not> do_access_check cfg" by (simp add: sound_run_def)
  then have "return_object cfg pc d s = GetVRegReference (frame s) (unat (VRegA_11x d)) \<bind> (\<lambda>x. Some (Return (SetL x 0) s))"
    by (simp add: return_object_def)
  moreover from operands_11x [OF h(2,3)] have "safe c (method_dex_file cfg) pc (may_abort op)
      (GetVRegReference (frame s) (unat (VRegA_11x d)) \<bind> (\<lambda>x. Some (Return (SetL x 0) s)))"
    by (intro get_rules(3) [OF h(4)]) simp_all
  ultimately show "safe c (method_dex_file cfg) pc (may_abort op) (return_object cfg pc d s)" by simp
qed

lemma move_exception_safe:
  assumes "shape op = (k11x, 1, 0, 0)" and "CanFlowThrough op"
  shows "safe_handler op move_exception"
  by (rule safe_handlerI [OF assms(1)], frule (2) operands_11x_next [OF _ _ _ assms(2)], unfold move_exception_def Let_def, elim conjE exE,
      simp only: Option.bind.simps)
    (intro outcome_rules; (assumption | simp))

lemma return_int_safe:
  assumes "shape op = (k11x, 1, 0, 0)"
  shows "safe_handler op return_int"
  by (rule safe_handlerI [OF assms(1)], frule (1) operands_11x, unfold return_int_def Let_def, elim conjE exE,
      simp only: Option.bind.simps)
    (intro outcome_rules; (assumption | simp))

lemma return_wide_safe:
  assumes "shape op = (k11x, 2, 0, 0)"
  shows "safe_handler op return_wide"
  by (rule safe_handlerI [OF assms(1)], frule (1) operands_11x, unfold return_wide_def Let_def, elim conjE exE,
      simp only: Option.bind.simps)
    (intro outcome_rules; (assumption | simp))

lemma const_4_safe:
  assumes "shape op = (k11n, 1, 0, 0)"
  shows "safe_handler op const_4"
  by (rule safe_handlerI [OF assms(1)], frule (1) operands_11n, unfold const_4_def Let_def, elim conjE exE,
      simp only: Option.bind.simps)
    (intro outcome_rules; (assumption | simp))

lemma const_16_safe:
  assumes "shape op = (k21s, 1, 0, 0)"
  shows "safe_handler op const_16"
  by (rule safe_handlerI [OF assms(1)], frule (1) operands_21s, unfold const_16_def Let_def, elim conjE exE,
      simp only: Option.bind.simps)
    (intro outcome_rules; (assumption | simp))

lemma const_32_safe:
  assumes "shape op = (k31i, 1, 0, 0)"
  shows "safe_handler op const_32"
  by (rule safe_handlerI [OF assms(1)], frule (1) operands_31i, unfold const_32_def Let_def, elim conjE exE,
      simp only: Option.bind.simps)
    (intro outcome_rules; (assumption | simp))

lemma const_high16_safe:
  assumes "shape op = (k21h, 1, 0, 0)"
  shows "safe_handler op const_high16"
  by (rule safe_handlerI [OF assms(1)], frule (1) operands_21h, unfold const_high16_def Let_def, elim conjE exE,
      simp only: Option.bind.simps)
    (intro outcome_rules; (assumption | simp))

lemma const_wide_16_safe:
  assumes "shape op = (k21s, 2, 0, 0)"
  shows "safe_handler op const_wide_16"
  by (rule safe_handlerI [OF assms(1)], frule (1) operands_21s, unfold const_wide_16_def Let_def, elim conjE exE,
      simp only: Option.bind.simps)
    (intro outcome_rules; (assumption | simp))

lemma const_wide_32_safe:
  assumes "shape op = (k31i, 2, 0, 0)"
  shows "safe_handler op const_wide_32"
  by (rule safe_handlerI [OF assms(1)], frule (1) operands_31i, unfold const_wide_32_def Let_def, elim conjE exE,
      simp only: Option.bind.simps)
    (intro outcome_rules; (assumption | simp))

lemma const_wide_safe:
  assumes "shape op = (k51l, 2, 0, 0)"
  shows "safe_handler op const_wide"
  by (rule safe_handlerI [OF assms(1)], frule (1) operands_51l, unfold const_wide_def Let_def, elim conjE exE,
      simp only: Option.bind.simps)
    (intro outcome_rules; (assumption | simp))

lemma const_wide_high16_safe:
  assumes "shape op = (k21h, 2, 0, 0)"
  shows "safe_handler op const_wide_high16"
  by (rule safe_handlerI [OF assms(1)], frule (1) operands_21h, unfold const_wide_high16_def Let_def, elim conjE exE,
      simp only: Option.bind.simps)
    (intro outcome_rules; (assumption | simp))

lemma const_string_safe:
  assumes "shape op = (k21c, 1, 0, 0)" and "IsThrow op"
  shows "safe_handler op const_string"
  by (rule throwing_handlerI [OF assms(1,2)], frule (1) operands_21c, unfold const_string_def Let_def, elim conjE exE,
      simp only: Option.bind.simps)
    (intro outcome_rules; (assumption | simp))

lemma const_string_jumbo_safe:
  assumes "shape op = (k31c, 1, 0, 0)" and "IsThrow op"
  shows "safe_handler op const_string_jumbo"
  by (rule throwing_handlerI [OF assms(1,2)], frule (1) operands_31c, unfold const_string_jumbo_def Let_def, elim conjE exE,
      simp only: Option.bind.simps)
    (intro outcome_rules; (assumption | simp))

lemma const_class_safe:
  assumes "shape op = (k21c, 1, 0, 0)" and "IsThrow op"
  shows "safe_handler op const_class"
  by (rule throwing_handlerI [OF assms(1,2)], frule (1) operands_21c, unfold const_class_def Let_def, elim conjE exE,
      simp only: Option.bind.simps)
    (intro outcome_rules; (assumption | simp))

lemma monitor_op_safe:
  assumes "shape op = (k11x, 1, 0, 0)" and "IsThrow op" and "CanFlowThrough op"
  shows "safe_handler op (monitor_op q)"
  by (rule throwing_handlerI [OF assms(1,2)], frule (2) operands_11x_next [OF _ _ _ assms(3)], unfold monitor_op_def Let_def, elim conjE exE,
      simp only: Option.bind.simps)
    (intro outcome_rules; (assumption | simp))

lemma check_cast_safe:
  assumes "shape op = (k21c, 1, 0, 0)" and "IsThrow op"
  shows "safe_handler op check_cast"
  by (rule throwing_handlerI [OF assms(1,2)], frule (1) operands_21c, unfold check_cast_def Let_def, elim conjE exE,
      simp only: Option.bind.simps)
    (intro outcome_rules; (assumption | simp))

lemma instance_of_safe:
  assumes "shape op = (k22c, 1, 1, 0)" and "IsThrow op"
  shows "safe_handler op instance_of"
  by (rule throwing_handlerI [OF assms(1,2)], frule (1) operands_22c, unfold instance_of_def Let_def, elim conjE exE,
      simp only: Option.bind.simps)
    (intro outcome_rules; (assumption | simp))

lemma array_length_safe:
  assumes "shape op = (k12x, 1, 1, 0)" and "IsThrow op"
  shows "safe_handler op array_length"
  by (rule throwing_handlerI [OF assms(1,2)], frule (1) operands_12x, unfold array_length_def Let_def, elim conjE exE,
      simp only: Option.bind.simps)
    (intro outcome_rules; (assumption | simp))

lemma new_instance_safe:
  assumes "shape op = (k21c, 1, 0, 0)" and "IsThrow op"
  shows "safe_handler op new_instance"
  by (rule throwing_handlerI [OF assms(1,2)], frule (1) operands_21c, unfold new_instance_def Let_def, elim conjE exE,
      simp only: Option.bind.simps)
    (intro outcome_rules; (assumption | simp))

lemma new_array_safe:
  assumes "shape op = (k22c, 1, 1, 0)" and "IsThrow op"
  shows "safe_handler op new_array"
  by (rule throwing_handlerI [OF assms(1,2)], frule (1) operands_22c, unfold new_array_def Let_def, elim conjE exE,
      simp only: Option.bind.simps)
    (intro outcome_rules; (assumption | simp))

lemma throw_op_safe:
  assumes "shape op = (k11x, 1, 0, 0)" and "IsThrow op"
  shows "safe_handler op throw_op"
  by (rule throwing_handlerI [OF assms(1,2)], frule (1) operands_11x, unfold throw_op_def Let_def, elim conjE exE,
      simp only: Option.bind.simps)
    (intro outcome_rules; (assumption | simp))

text \<open>Divisions.\<close>

definition divides_ok :: "(nat \<Rightarrow> 'a \<Rightarrow> 'a \<Rightarrow> ShadowFrame \<Rightarrow> (unit + ShadowFrame) option) \<Rightarrow> nat \<Rightarrow> bool" where
  "divides_ok do_it w \<longleftrightarrow> 0 < w \<and> (\<forall>n f i x y. frame_ok n f \<longrightarrow> i + w \<le> n \<longrightarrow>
     (do_it i x y f = Some (Inl ()) \<or> (\<exists>f'. do_it i x y f = Some (Inr f') \<and> frame_ok n f' \<and> GetDexPC f' = GetDexPC f)))"

lemma divides_okI:
  assumes "writable put w" and "\<And>i x y f. do_it i x y f = Some (Inl ()) \<or> (\<exists>v. do_it i x y f = map_option Inr (put i v f))"
  shows "divides_ok do_it w"
  unfolding divides_ok_def
proof (intro conjI allI impI)
  show "0 < w" using assms(1) by (simp add: writable_def)
  fix n f i x y
  assume "frame_ok n f" "i + w \<le> n"
  with assms(1) have put: "\<exists>f'. put i v f = Some f' \<and> frame_ok n f' \<and> GetDexPC f' = GetDexPC f" for v
    by (simp add: writable_def)
  from assms(2) [of i x y f] show "do_it i x y f = Some (Inl ())
      \<or> (\<exists>f'. do_it i x y f = Some (Inr f') \<and> frame_ok n f' \<and> GetDexPC f' = GetDexPC f)"
    using put by force
qed

lemma divides_views [simp]:
  "divides_ok DoIntDivide 1" "divides_ok DoIntRemainder 1" "divides_ok DoLongDivide 2" "divides_ok DoLongRemainder 2"
proof -
  note defs = DoIntDivide_def DoIntRemainder_def DoLongDivide_def DoLongRemainder_def
  have int: "DoIntDivide i x y f = Some (Inl ()) \<or> (\<exists>v. DoIntDivide i x y f = map_option Inr (SetVReg i v f))"
    "DoIntRemainder i x y f = Some (Inl ()) \<or> (\<exists>v. DoIntRemainder i x y f = map_option Inr (SetVReg i v f))" for i x y f
    using int_division_value [of y i x f] by (cases "y = 0", simp add: defs, blast)+
  have long: "DoLongDivide i x y f = Some (Inl ()) \<or> (\<exists>v. DoLongDivide i x y f = map_option Inr (SetVRegLong i v f))"
    "DoLongRemainder i x y f = Some (Inl ()) \<or> (\<exists>v. DoLongRemainder i x y f = map_option Inr (SetVRegLong i v f))" for i x y f
    using long_division_value [of y i x f] by (cases "y = 0", simp add: defs, blast)+
  show "divides_ok DoIntDivide 1" "divides_ok DoIntRemainder 1"
    by (rule divides_okI [OF writable_views(1)], rule int)+
  show "divides_ok DoLongDivide 2" "divides_ok DoLongRemainder 2"
    by (rule divides_okI [OF writable_views(4)], rule long)+
qed

lemma finish_division_safe:
  assumes "divides_ok do_it w" and "sound_run c cfg" and "throws_at c pc" and "running_at c pc s" and "in_frame c i w"
    and "next_insn c pc (pc + unat off)" and "unat off < 2 ^ 31"
  shows "safe c (method_dex_file cfg) pc b (finish_division cfg (do_it i x y (frame s)) p off pc s)"
proof -
  from assms(1,4,5) have "do_it i x y (frame s) = Some (Inl ())
      \<or> (\<exists>f'. do_it i x y (frame s) = Some (Inr f') \<and> running_at c pc (s\<lparr>frame := f'\<rparr>))"
    unfolding divides_ok_def in_frame_def running_at_def running_def by fastforce
  then show ?thesis
    using assms(2-7) by (auto simp: finish_division_def intro!: possibly_safe throw_running)
qed

lemma div_23x_safe:
  assumes "shape op = (k23x, w, w, w)" and "readable get w" and "divides_ok do_it w" and "IsThrow op"
  shows "safe_handler op (div_23x get do_it t)"
  by (rule throwing_handlerI [OF assms(1,4)], frule (1) operands_23x, unfold div_23x_def , elim conjE exE,
      simp only: Option.bind.simps)
    (intro holds_get [OF assms(2)] finish_division_safe [OF assms(3)]; (assumption | simp))

lemma div_2addr_safe:
  assumes "shape op = (k12x, w, w, wc)" and "readable get w" and "divides_ok do_it w" and "IsThrow op"
  shows "safe_handler op (div_2addr get do_it t)"
  by (rule throwing_handlerI [OF assms(1,4)], frule (1) operands_12x, unfold div_2addr_def Let_def, elim conjE exE,
      simp only: Option.bind.simps)
    (intro holds_get [OF assms(2)] finish_division_safe [OF assms(3)]; (assumption | simp))

lemma div_lit16_safe:
  assumes "shape op = (k22s, 1, 1, 0)" and "divides_ok do_it 1" and "IsThrow op"
  shows "safe_handler op (div_lit16 do_it)"
  by (rule throwing_handlerI [OF assms(1,3)], frule (1) operands_22s, unfold div_lit16_def , elim conjE exE,
      simp only: Option.bind.simps)
    (intro get_rules finish_division_safe [OF assms(2)]; (assumption | simp))

lemma div_lit8_safe:
  assumes "shape op = (k22b, 1, 1, 0)" and "divides_ok do_it 1" and "IsThrow op"
  shows "safe_handler op (div_lit8 do_it)"
  by (rule throwing_handlerI [OF assms(1,3)], frule (1) operands_22b, unfold div_lit8_def , elim conjE exE,
      simp only: Option.bind.simps)
    (intro get_rules finish_division_safe [OF assms(2)]; (assumption | simp))

text \<open>Arrays and fields.\<close>

definition type_width :: "Primitive \<Rightarrow> nat" where
  "type_width p = (if p = kPrimLong then 2 else 1)"

lemma get_typed_readable: "readable (get_typed p) (type_width p)"
  using readable_views(1,3,4) by (cases p) (auto simp: readable_def get_typed_def type_width_def)

lemma set_typed_writable: "writable (set_typed p) (type_width p)"
  using writable_views(1,3,4) by (cases p) (auto simp: writable_def set_typed_def type_width_def)

lemmas typed_rules = holds_get [OF get_typed_readable] holds_put [OF set_typed_writable]

lemma CheckIsValidIndex_running:
  "sound_run c cfg \<Longrightarrow> running_at c pc s \<Longrightarrow> running_at c pc (snd (CheckIsValidIndex cfg a i s))"
  unfolding CheckIsValidIndex_def Let_def
  using ask_running [of c cfg pc s "GetLength a"] by (auto split: prod.splits intro: throw_running)

lemma aget_safe:
  assumes "shape op = (k23x, type_width p, 1, 1)" and "IsThrow op"
  shows "safe_handler op (aget p)"
  by (rule throwing_handlerI [OF assms(1,2)], frule (1) operands_23x, unfold aget_def Let_def, elim conjE exE,
      simp only: Option.bind.simps)
    (intro typed_rules CheckIsValidIndex_running outcome_rules; (assumption | simp))

lemma aput_safe:
  assumes "shape op = (k23x, type_width p, 1, 1)" and "IsThrow op"
  shows "safe_handler op (aput p)"
  by (rule throwing_handlerI [OF assms(1,2)], frule (1) operands_23x, unfold aput_def Let_def, elim conjE exE,
      simp only: Option.bind.simps)
    (intro typed_rules CheckIsValidIndex_running outcome_rules; (assumption | simp))

lemma call_safe:
  assumes "safe_call c pc r" and "\<And>b t. running_at c pc t \<Longrightarrow> holds Q (f b t)"
  shows "holds Q (r \<bind> (\<lambda>(b, t). f b t))"
  using assms by (auto simp: holds_def)

lemma call_Some: "running_at c pc t \<Longrightarrow> safe_call c pc (Some (v, t))"
  by simp

lemma field_op_safe:
  "sound_run c cfg \<Longrightarrow> throws_at c pc \<Longrightarrow> next_insn c pc (pc + 2) \<Longrightarrow> safe_call c pc (do_it cfg pc d s) \<Longrightarrow>
     safe c (method_dex_file cfg) pc b (field_op do_it cfg pc d s)"
  unfolding field_op_def by (rule call_safe, assumption, rule possibly_safe) simp_all

lemma invoke_op_safe:
  "sound_run c cfg \<Longrightarrow> throws_at c pc \<Longrightarrow> next_insn c pc (pc + 3) \<Longrightarrow> safe_call c pc (do_it cfg pc d s) \<Longrightarrow>
     safe c (method_dex_file cfg) pc b (invoke_op do_it cfg pc d s)"
  unfolding invoke_op_def by (rule call_safe, assumption, rule possibly_safe) simp_all

lemmas branch_simps = Option.bind.simps if_True if_False not_True_eq_False not_False_eq_True simp_thms split_conv

lemma iget_safe:
  assumes "shape op = (k22c, type_width p, 1, 0)" and "IsThrow op"
  shows "safe_handler op (field_op (DoFieldGet False p))"
  by (rule throwing_handlerI [OF assms(1,2)], frule (1) operands_22c, elim conjE exE, rule field_op_safe, assumption+,
      unfold DoFieldGet_def Let_def, simp only: branch_simps)
    (intro typed_rules call_Some outcome_rules; (assumption | simp))

lemma sget_safe:
  assumes "shape op = (k21c, type_width p, 0, 0)" and "IsThrow op"
  shows "safe_handler op (field_op (DoFieldGet True p))"
  by (rule throwing_handlerI [OF assms(1,2)], frule (1) operands_21c, elim conjE exE, rule field_op_safe, assumption+,
      unfold DoFieldGet_def Let_def, simp only: branch_simps)
    (intro typed_rules call_Some outcome_rules; (assumption | simp))

lemma iget_quick_safe:
  assumes "shape op = (k22c, type_width p, 1, 0)" and "IsThrow op"
  shows "safe_handler op (field_op (DoIGetQuick p))"
  by (rule throwing_handlerI [OF assms(1,2)], frule (1) operands_22c, elim conjE exE, rule field_op_safe, assumption+,
      unfold DoIGetQuick_def Let_def, simp only: branch_simps)
    (intro typed_rules call_Some outcome_rules; (assumption | simp))

lemma iput_safe:
  assumes "shape op = (k22c, type_width p, 1, 0)" and "IsThrow op"
  shows "safe_handler op (field_op (DoFieldPut False p))"
  by (rule throwing_handlerI [OF assms(1,2)], frule (1) operands_22c, elim conjE exE, rule field_op_safe, assumption+,
      unfold DoFieldPut_def Let_def, simp only: branch_simps)
    (intro typed_rules call_Some outcome_rules; (assumption | (simp; fail) | simp add: sound_run_def))

lemma sput_safe:
  assumes "shape op = (k21c, type_width p, 0, 0)" and "IsThrow op"
  shows "safe_handler op (field_op (DoFieldPut True p))"
  by (rule throwing_handlerI [OF assms(1,2)], frule (1) operands_21c, elim conjE exE, rule field_op_safe, assumption+,
      unfold DoFieldPut_def Let_def, simp only: branch_simps)
    (intro typed_rules call_Some outcome_rules; (assumption | (simp; fail) | simp add: sound_run_def))

lemma iput_quick_safe:
  assumes "shape op = (k22c, type_width p, 1, 0)" and "IsThrow op"
  shows "safe_handler op (field_op (DoIPutQuick p))"
  by (rule throwing_handlerI [OF assms(1,2)], frule (1) operands_22c, elim conjE exE, rule field_op_safe, assumption+,
      unfold DoIPutQuick_def Let_def, simp only: branch_simps)
    (intro typed_rules call_Some outcome_rules; (assumption | simp))

section \<open>Argument lists\<close>

lemma verified_extra:
  assumes "verified_at c pc d"
  obtains u w where "verify_extra c (Opcode_of d) pc (word_of_nat pc) (True, u) = Some (Inr (True, w))"
    and "\<forall>t. opcode_at u t \<longleftrightarrow> insn_start c t"
proof -
  from assms obtain u u' where v: "VerifyInstruction c pc (word_of_nat pc) u = Some (True, u')"
    and u: "\<forall>t. opcode_at u t \<longleftrightarrow> insn_start c t" and op: "Opcode (code_units c) pc = Some (Opcode_of d)"
    by (auto simp: verified_at_def Opcode_of_eq)
  from v obtain op u1 u2 u3 where o: "Opcode (code_units c) pc = Some op" and a: "verify_arg_A c op pc u = Some (True, u1)"
    and b: "verify_arg_B c op pc u1 = Some (True, u2)" and e: "verify_arg_C c op pc u2 = Some (True, u3)"
    and x: "verify_extra c op pc (word_of_nat pc) (True, u3) = Some (Inr (True, u'))"
    by (rule VerifyInstruction_passes)
  have "same_opcodes u u3" using arg_A.same [OF a] arg_B.same [OF b] arg_C.same [OF e] same_trans by blast
  with u have "\<forall>t. opcode_at u3 t \<longleftrightarrow> insn_start c t" by (simp add: same_opcodes_def)
  with x o op show thesis by (auto intro: that)
qed

lemma var_args:
  assumes "verified_at c pc d" and "shape (Opcode_of d) = (k35c, wa, wb, wc)"
  shows "unat (VRegA_35c d) \<le> 5 \<and> (\<exists>args. GetVarArgs (code_units c) pc d (replicate 5 0) = Some args
    \<and> (\<forall>r \<in> set (take (unat (VRegA_35c d)) args). in_frame c (unat r) 1))"
proof -
  note f = verified_format [OF assms]
  obtain u w where x: "verify_extra c (Opcode_of d) pc (word_of_nat pc) (True, u) = Some (Inr (True, w))"
    by (rule verified_extra [OF assms(1)])
  have flags: "GetVerifyExtraFlags (Opcode_of d) \<in> {kVerifyVarArg, kVerifyVarArgNonZero}" using f by (intro extra_flags_of) simp
  have "VRegA (code_units c) pc = Some (ucast (VRegA_35c d))" using f by (simp add: VRegA_def)
  with extra_var_args [OF x flags] f show ?thesis by (auto simp: in_frame_def Suc_le_eq)
qed

lemma range_args:
  assumes "verified_at c pc d" and "shape (Opcode_of d) = (k3rc, wa, wb, wc)"
  shows "\<exists>r. VRegC_3rc (code_units c) pc = Some r \<and> unat (VRegA_3rc d) + unat r \<le> unat (registers_size c)"
proof -
  note f = verified_format [OF assms]
  obtain u w where x: "verify_extra c (Opcode_of d) pc (word_of_nat pc) (True, u) = Some (Inr (True, w))"
    by (rule verified_extra [OF assms(1)])
  have flags: "GetVerifyExtraFlags (Opcode_of d) \<in> {kVerifyVarArgRange, kVerifyVarArgRangeNonZero}"
    using f by (intro extra_flags_of) simp
  have op: "Opcode (code_units c) pc = Some (Opcode_of d)" using f by (simp add: Opcode_of_eq)
  have "VRegA (code_units c) pc = Some (ucast (VRegA_3rc d))" using f by (simp add: VRegA_def)
  moreover have "VRegC (code_units c) pc = map_option ucast (VRegC_3rc (code_units c) pc)" using f by (simp add: VRegC_def)
  ultimately show ?thesis using extra_range [OF x op flags] by auto
qed

text \<open>An argument list that may not be empty starts with a register of the frame.\<close>

lemma extra_nonzero:
  assumes "verify_extra c op pc off (True, u) = Some (Inr (True, w))"
  shows "GetVerifyExtraFlags op = kVerifyVarArgNonZero \<Longrightarrow> VRegA (code_units c) pc = Some n \<Longrightarrow> n \<noteq> 0"
    and "GetVerifyExtraFlags op = kVerifyVarArgRangeNonZero \<Longrightarrow> VRegA (code_units c) pc = Some n \<Longrightarrow> n \<noteq> 0"
  using assms by (auto simp: verify_extra_def Let_def)

lemma GetVarArgs_first:
  assumes "GetVarArgs insns pc d (replicate 5 0) = Some args" and "VRegA_35c d \<noteq> 0" and "unat (VRegA_35c d) \<le> 5"
  shows "\<exists>r. VRegC_35c insns pc = Some r \<and> take (unat (VRegA_35c d)) args \<noteq> [] \<and> unat r = unat (hd args)"
proof -
  have "unat (InstB d) \<noteq> 0" "unat (InstB d) \<le> 5" using assms(2,3) by (simp_all add: VRegA_35c_def unat_eq_0)
  then consider "unat (InstB d) = 1" | "unat (InstB d) = 2" | "unat (InstB d) = 3" | "unat (InstB d) = 4" | "unat (InstB d) = 5"
    by linarith
  then have count: "InstB d = 1 \<or> InstB d = 2 \<or> InstB d = 3 \<or> InstB d = 4 \<or> InstB d = 5"
    by cases (simp_all add: word_unat_eq_iff)
  have "unat (ucast (w AND 0x0F) :: u8) = unat (ucast (w AND 0x0F) :: u32)" for w :: u16
  proof -
    have "unat (w AND 0x0F) < 16" by (simp add: unat_and_mask_drop(2))
    then show ?thesis by (simp add: unsigned_ucast_eq take_bit_nat_eq_self)
  qed
  moreover from assms(1) count obtain w where "Fetch16 insns pc 2 = Some w" "length args = 5" "args ! 0 = ucast (w AND 0x0F)"
    by (auto simp: GetVarArgs_def Let_def bind_eq_Some_conv)
  ultimately show ?thesis
    using \<open>unat (InstB d) \<noteq> 0\<close> by (cases args) (simp_all add: VRegC_35c_def VRegA_35c_def)
qed

section \<open>Invocations\<close>

text \<open>The operands of an invoke: a method index, and a first register, which is read when the call has a receiver.\<close>

definition arguments_ok :: "CodeItem \<Rightarrow> nat \<Rightarrow> bool \<Rightarrow> bool \<Rightarrow> bool" where
  "arguments_ok c pc receiver is_range \<longleftrightarrow>
     (\<exists>idx r. (if is_range then VRegB_3rc (code_units c) pc else VRegB_35c (code_units c) pc) = Some idx
        \<and> (if is_range then map_option unat (VRegC_3rc (code_units c) pc) else map_option unat (VRegC_35c (code_units c) pc)) = Some r
        \<and> (receiver \<longrightarrow> in_frame c r 1))"

lemma arguments_verified:
  assumes "verified_at c pc d" and "shape (Opcode_of d) = (if is_range then k3rc else k35c, wa, wb, wc)"
    and "receiver \<Longrightarrow> GetVerifyExtraFlags (Opcode_of d) = (if is_range then kVerifyVarArgRangeNonZero else kVerifyVarArgNonZero)"
  shows "arguments_ok c pc receiver is_range"
proof -
  obtain u w where x: "verify_extra c (Opcode_of d) pc (word_of_nat pc) (True, u) = Some (Inr (True, w))"
    by (rule verified_extra [OF assms(1)])
  note f = verified_format [OF assms(1,2)]
  show ?thesis
  proof (cases is_range)
    case True
    have "VRegA (code_units c) pc = Some (ucast (VRegA_3rc d))" using f True by (simp add: VRegA_def)
    from extra_nonzero(2) [OF x _ this] have "receiver \<Longrightarrow> unat (VRegA_3rc d) \<noteq> 0"
      using assms(3) True by (auto simp: unat_eq_0)
    with range_args [OF assms(1)] operands_3rc [OF assms(1)] assms(2) True show ?thesis
      by (fastforce simp: arguments_ok_def in_frame_def)
  next
    case False
    have "VRegA (code_units c) pc = Some (ucast (VRegA_35c d))" using f False by (simp add: VRegA_def)
    from extra_nonzero(1) [OF x _ this] have nz: "receiver \<Longrightarrow> VRegA_35c d \<noteq> 0"
      using assms(3) False by auto
    from assms(2) False have sh: "shape (Opcode_of d) = (k35c, wa, wb, wc)" by simp
    from operands_35c [OF assms(1) sh] obtain idx r where idx: "VRegB_35c (code_units c) pc = Some idx"
      and r: "VRegC_35c (code_units c) pc = Some r" by blast
    from var_args [OF assms(1) sh] obtain args where n: "unat (VRegA_35c d) \<le> 5"
      and args: "GetVarArgs (code_units c) pc d (replicate 5 0) = Some args"
        "\<forall>r \<in> set (take (unat (VRegA_35c d)) args). in_frame c (unat r) 1" by blast
    have "in_frame c (unat r) 1" if receiver
    proof -
      from GetVarArgs_first [OF args(1) nz [OF that] n] r have "take (unat (VRegA_35c d)) args \<noteq> []" "unat r = unat (hd args)"
        by auto
      moreover from this have "hd args \<in> set (take (unat (VRegA_35c d)) args)" by (cases args) (auto simp: take_Cons' split: if_splits)
      ultimately show ?thesis using args(2) by simp
    qed
    with idx r False show ?thesis by (simp add: arguments_ok_def)
  qed
qed

lemma DoInvoke_call:
  assumes "sound_run c cfg" and "running_at c pc s" and "arguments_ok c pc (type \<noteq> kStatic) is_range"
  shows "safe_call c pc (DoInvoke type is_range cfg pc d s)"
proof -
  note code = running_code [OF assms(2)]
  from assms(3) obtain idx r where *:
    "(if is_range then VRegB_3rc (code_units c) pc else VRegB_35c (code_units c) pc) = Some idx"
    "(if is_range then map_option unat (VRegC_3rc (code_units c) pc) else map_option unat (VRegC_35c (code_units c) pc)) = Some r"
    "type \<noteq> kStatic \<longrightarrow> in_frame c r 1"
    by (auto simp only: arguments_ok_def)
  from *(3) assms(2) have "holds (\<lambda>_. True) (if type = kStatic then Some 0 else GetVRegReference (frame s) r)"
    using get_rules(3) [OF assms(2), of r "\<lambda>_. True" Some] by simp
  then show ?thesis
    unfolding DoInvoke_def Let_def code * Option.bind.simps
    by (rule holds_bind) (use assms(1,2) in \<open>intro call_Some outcome_rules; (assumption | simp)\<close>)
qed

lemma DoInvokeVirtualQuick_call:
  assumes "sound_run c cfg" and "running_at c pc s" and "arguments_ok c pc True is_range"
  shows "safe_call c pc (DoInvokeVirtualQuick is_range cfg pc d s)"
proof -
  note code = running_code [OF assms(2)]
  from assms(3) obtain idx r where *:
    "(if is_range then VRegB_3rc (code_units c) pc else VRegB_35c (code_units c) pc) = Some idx"
    "(if is_range then map_option unat (VRegC_3rc (code_units c) pc) else map_option unat (VRegC_35c (code_units c) pc)) = Some r"
    "in_frame c r 1"
    by (auto simp only: arguments_ok_def)
  then show ?thesis
    unfolding DoInvokeVirtualQuick_def Let_def code * Option.bind.simps
    by (use assms(1,2) * in \<open>intro call_Some outcome_rules; (assumption | simp)\<close>)
qed

lemma invoke_handler_safe:
  fixes do_it :: "'w config \<Rightarrow> nat \<Rightarrow> u16 \<Rightarrow> 'w istate \<Rightarrow> (bool \<times> 'w istate) option"
  assumes "shape op = (if is_range then k3rc else k35c, wa, wb, wc)"
    and "receiver \<Longrightarrow> GetVerifyExtraFlags op = (if is_range then kVerifyVarArgRangeNonZero else kVerifyVarArgNonZero)"
    and "\<And>c cfg pc d s. sound_run c cfg \<Longrightarrow> running_at c pc s \<Longrightarrow> arguments_ok c pc receiver is_range \<Longrightarrow>
      safe_call c pc (do_it cfg pc d s)"
    and "IsThrow op"
  shows "safe_handler op (invoke_op do_it)"
proof (rule throwing_handlerI [OF assms(1,4)])
  fix c pc d and cfg :: "'w config" and s :: "'w istate"
  assume h: "sound_run c cfg" "verified_at c pc d" "shape (Opcode_of d) = (if is_range then k3rc else k35c, wa, wb, wc)"
    "Opcode_of d = op" "throws_at c pc" "running_at c pc s"
  have "arguments_ok c pc receiver is_range"
    using arguments_verified [OF h(2,3)] assms(2) h(4) by simp
  moreover have "next_insn c pc (pc + 3)" using operands_35c [OF h(2)] operands_3rc [OF h(2)] h(3) by (cases is_range) simp_all
  ultimately show "safe c (method_dex_file cfg) pc (may_abort op) (invoke_op do_it cfg pc d s)"
    using h by (intro invoke_op_safe assms(3))
qed

lemma invoke_safe:
  assumes "shape op = (if is_range then k3rc else k35c, wa, wb, wc)"
    and "type \<noteq> kStatic \<longrightarrow> GetVerifyExtraFlags op = (if is_range then kVerifyVarArgRangeNonZero else kVerifyVarArgNonZero)" and "IsThrow op"
  shows "safe_handler op (invoke_op (DoInvoke type is_range))"
  by (rule invoke_handler_safe [where receiver = "type \<noteq> kStatic", OF assms(1)], erule mp [OF assms(2)], erule (2) DoInvoke_call,
      rule assms(3))

lemma invoke_quick_safe:
  assumes "shape op = (if is_range then k3rc else k35c, wa, wb, wc)"
    and "GetVerifyExtraFlags op = (if is_range then kVerifyVarArgRangeNonZero else kVerifyVarArgNonZero)" and "IsThrow op"
  shows "safe_handler op (invoke_op (DoInvokeVirtualQuick is_range))"
  by (rule invoke_handler_safe [where receiver = True, OF assms(1,2)], erule (2) DoInvokeVirtualQuick_call, rule assms(3))

lemma hash_defined:
  assumes "sound_run c cfg" and "running_at c pc s"
  shows "\<exists>h. hash_code cfg s = Some h"
proof -
  let ?n = "insns_size_in_code_units c"
  have "nat (sint (?n * 2)) \<le> unat (?n * 2)" using sint_cases [of "?n * 2"] uint_bounded [of "?n * 2"] by (simp add: nat_le_iff)
  also have "unat (?n * 2) \<le> unat ?n * 2" by (simp add: unat_word_ariths)
  also have "\<dots> \<le> length (code_bytes (code_units c))"
  proof -
    have "length (code_bytes us) = 2 * length us" for us by (induction us) (simp_all add: code_bytes_def)
    then show ?thesis using assms(1) by (simp add: sound_run_def)
  qed
  finally show ?thesis
    using assms running_code [OF assms(2)]
    by (simp add: hash_code_def insns_hash_def BKDRHash_def sound_run_def BKDRHash_loop_foldl)
qed

lemma invoke_static_safe:
  assumes "shape op = (k35c, wa, wb, wc)" and "IsThrow op"
  shows "safe_handler op (invoke_static hash1)"
proof (rule throwing_handlerI [OF assms(1,2)])
  fix c pc d and cfg :: "'w config" and s :: "'w istate"
  assume h: "sound_run c cfg" "verified_at c pc d" "shape (Opcode_of d) = (k35c, wa, wb, wc)"
    "Opcode_of d = op" "throws_at c pc" "running_at c pc s"
  have args: "arguments_ok c pc (kStatic \<noteq> kStatic) False"
    using arguments_verified [OF h(2), where is_range = False] h(3) by simp
  show "safe c (method_dex_file cfg) pc (may_abort op) (invoke_static hash1 cfg pc d s)"
    unfolding invoke_static_def
  proof (rule call_safe [OF DoInvoke_call [OF h(1,6) args]])
    fix b and t :: "'w istate"
    assume t: "running_at c pc t"
    show "safe c (method_dex_file cfg) pc (may_abort op) ((if force_invoke_flag cfg = KARL_GERAT_U_CODE then hash_code cfg t else Some hash1) \<bind>
      (\<lambda>hash2. if force_invoke_flag cfg = KARL_GERAT_U_CODE \<and> hash1 \<noteq> hash2 then Some (NewCodeItem t)
        else possibly_handle cfg (\<not> b) 3 pc t))"
      using hash_defined [OF h(1) t] operands_35c [OF h(2,3)] h(1,5) t
      by (auto intro!: possibly_safe)
  qed
qed

section \<open>Array data\<close>

lemma fill_elements_running:
  assumes "sound_run c cfg" and "running_at c pc s" and "\<forall>r \<in> set regs. in_frame c r 1"
  shows "holds (running_at c pc) (fill_elements cfg is_int a i regs s)"
  using assms(2,3)
proof (induction regs arbitrary: i s)
  case (Cons r regs)
  have "holds (\<lambda>_. True) (if is_int then GetVReg (frame s) r else GetVRegReference (frame s) r)"
    using Cons.prems get_rules(1) [OF Cons.prems(1), of r "\<lambda>_. True" Some] get_rules(3) [OF Cons.prems(1), of r "\<lambda>_. True" Some]
    by simp
  moreover have "holds (running_at c pc) (fill_elements cfg is_int a (Suc i) regs (tell cfg q s))" for q
    using Cons.prems tell_running [OF assms(1)] by (intro Cons.IH) simp_all
  ultimately show ?case by (simp add: holds_bind)
qed simp

definition filled_ok :: "CodeItem \<Rightarrow> nat \<Rightarrow> (unit + bool \<times> 'w istate) \<Rightarrow> bool" where
  "filled_ok c pc r = (case r of Inl _ \<Rightarrow> True | Inr (_, t) \<Rightarrow> running_at c pc t)"

lemma filled_ok_simps: "filled_ok c pc (Inl x)" "running_at c pc t \<Longrightarrow> filled_ok c pc (Inr (b, t))"
  by (simp_all add: filled_ok_def)

lemma filled_registers:
  assumes "verified_at c pc d" and "shape (Opcode_of d) = (if is_range then k3rc else k35c, wa, wb, wc)"
    and "n = unat (if is_range then VRegA_3rc d else VRegA_35c d)"
  shows "holds (\<lambda>regs. \<forall>r \<in> set regs. in_frame c r 1)
    (if is_range then map_option (\<lambda>v. map (\<lambda>i. unat v + i) [0..<n]) (VRegC_3rc (code_units c) pc)
     else map_option (\<lambda>arg. map unat (take n arg)) (GetVarArgs (code_units c) pc d (replicate 5 0)))"
  using assms range_args [OF assms(1)] var_args [OF assms(1)]
  by (cases is_range) (fastforce simp: in_frame_def)+

lemma fill_registers_safe:
  assumes "sound_run c cfg" and "running_at c pc s" and "holds (\<lambda>regs. \<forall>r \<in> set regs. in_frame c r 1) m"
  shows "holds (filled_ok c pc) (m \<bind> (\<lambda>regs. fill_elements cfg b a i regs s \<bind> (\<lambda>t. Some (Inr (True, t\<lparr>result_register := f t\<rparr>)))))"
  using assms(3) by (rule holds_bind, intro holds_bind [OF fill_elements_running [OF assms(1,2)]]) (simp_all add: filled_ok_simps)

lemma filled_new_array_safe:
  assumes "shape op = (if is_range then k3rc else k35c, wa, wb, wc)" and "may_abort op" and "IsThrow op"
  shows "safe_handler op (filled_new_array is_range)"
proof (rule throwing_handlerI [OF assms(1,3)])
  fix c pc d and cfg :: "'w config" and s :: "'w istate"
  assume h: "sound_run c cfg" "verified_at c pc d" "shape (Opcode_of d) = (if is_range then k3rc else k35c, wa, wb, wc)"
    "throws_at c pc" "running_at c pc s"
  obtain idx where idx: "(if is_range then VRegB_3rc (code_units c) pc else VRegB_35c (code_units c) pc) = Some idx"
    using operands_35c [OF h(2)] operands_3rc [OF h(2)] h(3) by (cases is_range) auto
  have nxt: "next_insn c pc (pc + 3)" using operands_35c [OF h(2)] operands_3rc [OF h(2)] h(3) by (cases is_range) simp_all
  have regs: "running_at c pc t \<Longrightarrow> holds (\<lambda>regs. \<forall>r \<in> set regs. in_frame c r 1)
    (if is_range then map_option (\<lambda>v. map (\<lambda>i. unat v + i) [0..<unat (if is_range then VRegA_3rc d else VRegA_35c d)]) (VRegC_3rc (code t) pc)
     else map_option (\<lambda>arg. map unat (take (unat (if is_range then VRegA_3rc d else VRegA_35c d)) arg))
       (GetVarArgs (code t) pc d (replicate 5 0)))" for t :: "'w istate"
    using filled_registers [OF h(2,3) refl] by (simp only: running_code)
  have "holds (filled_ok c pc) (DoFilledNewArray is_range cfg pc d s)"
    unfolding DoFilledNewArray_def Let_def running_code [OF h(5)] idx Option.bind.simps
    by (intro fill_registers_safe regs holds_if holds_prod [of c pc] running_rules holds_Some filled_ok_simps;
        (rule h(1,5) | assumption))
  then obtain r where r: "DoFilledNewArray is_range cfg pc d s = Some r" "filled_ok c pc r" by (auto simp: holds_def)
  then show "safe c (method_dex_file cfg) pc (may_abort op) (filled_new_array is_range cfg pc d s)"
    using possibly_safe [OF h(1,4), where off = 3] nxt assms(2)
    by (auto simp: filled_new_array_def filled_ok_def split: sum.splits)
qed

lemma CheckArrayData_True:
  assumes "CheckArrayData c pc u = Some (True, v)"
  obtains off s w n where "two_units (code_units c) (unat pc + 1) = Some off" and "signed_sum pc off = Some s" and "\<not> s < 0"
    and "Fetch16 (code_units c) (nat s) 1 = Some w" and "two_units (code_units c) (nat s + 2) = Some n"
    and "\<not> pc + off + (4 + (ucast w * n + 1) div 2) > insns_size_in_code_units c"
  using assms unfolding CheckArrayData_def Let_def
  by (simp only: bind_eq_Some_conv passes_if not_not de_Morgan_disj) (elim exE conjE, rule that, assumption+)

lemma signed_sum_word:
  assumes "signed_sum a b = Some s" and "\<not> s < 0"
  shows "unat (a + b) = nat s \<and> nat s < 2 ^ 31"
proof -
  have s: "s = sint a + sint b" "s < 2 ^ 31" using assms(1) by (auto simp: signed_sum_def Let_def split: if_splits)
  have "a + b = word_of_int s" by (simp add: s(1))
  then have u: "uint (a + b) = s" using assms(2) s(2) by (simp add: uint_word_of_int)
  then have "unat (a + b) = nat s" by (simp flip: nat_uint_eq)
  with s(2) assms(2) show ?thesis by (simp add: nat_less_iff)
qed

lemma verified_array_data:
  assumes "sound_run c cfg" and "verified_at c pc d" and "Opcode_of d = FILL_ARRAY_DATA"
    and "GetVerifyExtraFlags (Opcode_of d) = kVerifyArrayData"
  shows "\<exists>table w n. payload_at (code_units c) pc = Some table \<and> Fetch16 (code_units c) table 1 = Some w
    \<and> two_units (code_units c) (table + 2) = Some n
    \<and> table + 4 + (unat (n * ucast w) + 1) div 2 \<le> length (code_units c)"
proof -
  have pc: "pc < 2 ^ 31" "insn_start c pc" using assms(2) by (simp_all add: verified_at_def)
  have op: "Opcode (code_units c) pc = Some FILL_ARRAY_DATA" using assms(2,3) by (auto simp: verified_at_def Opcode_of_eq)
  obtain u w' where "verify_extra c (Opcode_of d) pc (word_of_nat pc) (True, u) = Some (Inr (True, w'))"
    by (rule verified_extra [OF assms(2)])
  with assms(4) have "CheckArrayData c (word_of_nat pc) u = Some (True, w')"
    by (auto simp: verify_extra_def Let_def and_also_True)
  then obtain off s w n where off: "two_units (code_units c) (pc + 1) = Some off"
    and s: "signed_sum (word_of_nat pc) off = Some s" "\<not> s < 0"
    and w: "Fetch16 (code_units c) (nat s) 1 = Some w" and n: "two_units (code_units c) (nat s + 2) = Some n"
    and fits: "\<not> word_of_nat pc + off + (4 + (ucast w * n + 1) div 2) > insns_size_in_code_units c"
    by (rule CheckArrayData_True) (use pc(1) in \<open>simp add: unat_word_of_nat_u32\<close>)
  have table: "payload_at (code_units c) pc = Some (nat s)"
    using off s signed_sum_Some [OF s(1)] sint_word_of_nat_small [OF pc(1)]
    by (simp add: payload_at_def VRegB_31t_def Fetch32_two_units RelativeAt_def)
  let ?P = "n * ucast w :: u32" and ?base = "word_of_nat pc + off :: u32"
  have P: "unat ?P < 2 ^ 31"
    using assms(1) pc(2) op table w n unfolding sound_run_def array_data_ok_def by blast
  then have "unat (?P + 1) = unat ?P + 1" by (simp add: unat_word_ariths)
  then have "unat (4 + (?P + 1) div 2) = 4 + (unat ?P + 1) div 2"
    using P by (simp add: unat_word_ariths unat_div_distrib)
  moreover have base: "unat ?base = nat s" "nat s < 2 ^ 31" using signed_sum_word [OF s] by simp_all
  ultimately have "unat (?base + (4 + (?P + 1) div 2)) = nat s + (4 + (unat ?P + 1) div 2)"
    using P by (simp add: unat_word_ariths)
  with fits have "nat s + (4 + (unat ?P + 1) div 2) \<le> unat (insns_size_in_code_units c)"
    by (simp add: word_less_nat_alt not_less mult.commute)
  with table w n assms(1) show ?thesis by (intro exI conjI) (auto simp: sound_run_def)
qed

lemma fill_array_data_safe:
  assumes "shape op = (k31t, 1, 0, 0)" and "GetVerifyExtraFlags op = kVerifyArrayData" and "op = FILL_ARRAY_DATA" and "IsThrow op"
  shows "safe_handler op fill_array_data"
proof (rule throwing_handlerI [OF assms(1,4)])
  fix c pc d and cfg :: "'w config" and s :: "'w istate"
  assume h: "sound_run c cfg" "verified_at c pc d" "shape (Opcode_of d) = (k31t, 1, 0, 0)" "Opcode_of d = op"
    "throws_at c pc" "running_at c pc s"
  from verified_array_data [OF h(1,2)] assms(2,3) h(4) obtain table w n where *: "payload_at (code_units c) pc = Some table"
    "Fetch16 (code_units c) table 1 = Some w" "two_units (code_units c) (table + 2) = Some n"
    "table + 4 + (unat (n * ucast w) + 1) div 2 \<le> length (code_units c)"
    by auto
  have "safe_call c pc (FillArrayData cfg obj table s)" for obj
  proof -
    obtain len t where t: "ask cfg (GetLength obj) s = (len, t)" by fastforce
    have rt: "running_at c pc t" using ask_running [OF h(1,6)] t by (metis snd_conv)
    show ?thesis
      using * running_code [OF h(6)] running_code [OF rt] throw_running [OF h(1)] tell_running [OF h(1)] h(6) rt
      by (simp add: FillArrayData_def t Let_def)
  qed
  with operands_31t [OF h(2,3)] h * show "safe c (method_dex_file cfg) pc (may_abort op) (fill_array_data cfg pc d s)"
    unfolding fill_array_data_def running_code [OF h(6)] *(1) Option.bind.simps
    by (intro get_rules(3) [OF h(6)] call_safe possibly_safe) simp_all
qed

section \<open>Branches and switches\<close>

lemma branch_target:
  assumes "verified_at c pc d" and "GetVerifyExtraFlags (Opcode_of d) = kVerifyBranchTarget"
  shows "\<exists>off t. GetTargetOffset (code_units c) pc = Some off \<and> RelativeAt pc off = Some t \<and> flow c dex pc t"
proof -
  have pc: "pc < 2 ^ 31" "Opcode (code_units c) pc = Some (Opcode_of d)"
    using assms(1) by (auto simp: verified_at_def Opcode_of_eq)
  obtain u w where x: "verify_extra c (Opcode_of d) pc (word_of_nat pc) (True, u) = Some (Inr (True, w))"
    and u: "\<forall>t. opcode_at u t \<longleftrightarrow> insn_start c t"
    by (rule verified_extra [OF assms(1)])
  from extra_branch [OF x pc(2) assms(2) pc(1)] u obtain off t where
    t: "GetTargetOffset (code_units c) pc = Some off" "int t = int pc + sint off" "insn_start c t"
    by blast
  have "IsBranch (Opcode_of d)" using opcode_table_consistent [of "Opcode_of d"] assms(2) by simp
  moreover have "RelativeAt pc off = Some t" using t(2) by (simp add: RelativeAt_def flip: t(2))
  ultimately show ?thesis using t pc(2) by (auto simp: flow_def branch_to_def start_or_end_def)
qed

lemma goto_handler_safe:
  fixes h :: "'w handler"
  assumes "shape op = sh" and "GetVerifyExtraFlags op = kVerifyBranchTarget"
    and "\<And>(c :: CodeItem) cfg pc d s. shape (Opcode_of d) = sh \<Longrightarrow> Fetch16 (code_units c) pc 0 = Some d \<Longrightarrow> code s = code_units c \<Longrightarrow>
      h cfg pc d s = GetTargetOffset (code_units c) pc \<bind> (\<lambda>off. advance off pc s)"
  shows "safe_handler op h"
proof (rule safe_handlerI [OF assms(1)])
  fix c pc d and cfg :: "'w config" and s :: "'w istate"
  assume h: "verified_at c pc d" "shape (Opcode_of d) = sh" "Opcode_of d = op" "running_at c pc s" "code s = code_units c"
  have "Fetch16 (code_units c) pc 0 = Some d" using h(1) by (simp add: verified_at_def)
  from assms(3) [OF h(2) this h(5), of cfg] branch_target [OF h(1), of "method_dex_file cfg"] assms(2) h(3,4) show "safe c (method_dex_file cfg) pc (may_abort op) (h cfg pc d s)"
    by (auto intro: advance_safe)
qed

lemma goto_safe:
  assumes "GetVerifyExtraFlags op = kVerifyBranchTarget"
  shows "shape op = (k10t, wa, wb, wc) \<Longrightarrow> safe_handler op goto_10t"
    and "shape op = (k20t, wa, wb, wc) \<Longrightarrow> safe_handler op goto_20t"
    and "shape op = (k30t, wa, wb, wc) \<Longrightarrow> safe_handler op goto_30t"
proof -
  show "shape op = (k10t, wa, wb, wc) \<Longrightarrow> safe_handler op goto_10t"
    by (rule goto_handler_safe [OF _ assms], assumption) (simp add: goto_10t_def GetTargetOffset_def shape_def)
  show "shape op = (k20t, wa, wb, wc) \<Longrightarrow> safe_handler op goto_20t"
    by (rule goto_handler_safe [OF _ assms], assumption) (simp add: goto_20t_def GetTargetOffset_def shape_def map_option_case split: option.split)
  show "shape op = (k30t, wa, wb, wc) \<Longrightarrow> safe_handler op goto_30t"
    by (rule goto_handler_safe [OF _ assms], assumption) (simp add: goto_30t_def GetTargetOffset_def shape_def)
qed

lemma if_22t_safe:
  assumes "shape op = (k22t, 1, 1, wc)" and "GetVerifyExtraFlags op = kVerifyBranchTarget"
  shows "safe_handler op (if_22t test)"
proof (rule safe_handlerI [OF assms(1)])
  fix c pc d and cfg :: "'w config" and s :: "'w istate"
  assume h: "sound_run c cfg" "verified_at c pc d" "shape (Opcode_of d) = (k22t, 1, 1, wc)" "Opcode_of d = op"
    "insn_start c pc" "running_at c pc s"
  from branch_target [OF h(2), of "method_dex_file cfg"] assms(2) h(4) verified_format [OF h(2,3)] obtain off t where
    off: "VRegC_22t (code_units c) pc = Some off" "RelativeAt pc (scast off) = Some t" "flow c (method_dex_file cfg) pc t"
    by (auto simp: GetTargetOffset_def)
  from operands_22t [OF h(2,3)] h(6) off show "safe c (method_dex_file cfg) pc (may_abort op) (if_22t test cfg pc d s)"
    unfolding if_22t_def running_code [OF h(6)] off(1) Option.bind.simps
    by (intro get_rules(1) [OF h(6)] holds_if advance_safe next_safe) simp_all
qed

lemma if_21t_safe:
  assumes "shape op = (k21t, 1, wb, wc)" and "GetVerifyExtraFlags op = kVerifyBranchTarget"
  shows "safe_handler op (if_21t test)"
proof (rule safe_handlerI [OF assms(1)])
  fix c pc d and cfg :: "'w config" and s :: "'w istate"
  assume h: "sound_run c cfg" "verified_at c pc d" "shape (Opcode_of d) = (k21t, 1, wb, wc)" "Opcode_of d = op"
    "insn_start c pc" "running_at c pc s"
  from branch_target [OF h(2), of "method_dex_file cfg"] assms(2) h(4) verified_format [OF h(2,3)] obtain off t where
    off: "VRegB_21t (code_units c) pc = Some off" "RelativeAt pc (scast off) = Some t" "flow c (method_dex_file cfg) pc t"
    by (auto simp: GetTargetOffset_def)
  from operands_21t [OF h(2,3)] h(6) off show "safe c (method_dex_file cfg) pc (may_abort op) (if_21t test cfg pc d s)"
    unfolding if_21t_def running_code [OF h(6)] off(1) Option.bind.simps
    by (intro get_rules(1) [OF h(6)] holds_if advance_safe next_safe) simp_all
qed

lemma switch_continues:
  assumes "verified_at c pc d" and "shape (Opcode_of d) = (k31t, 1, wb, wc)"
    and "GetVerifyExtraFlags (Opcode_of d) = kVerifySwitchTargets" and "running_at c pc s"
    and "packed \<longleftrightarrow> Opcode_of d = PACKED_SWITCH"
  shows "holds (\<lambda>off. \<exists>j. RelativeAt pc off = Some j \<and> flow c dex pc j)
    ((if packed then DoPackedSwitch else DoSparseSwitch) (code_units c) pc d (frame s))"
proof -
  have pc: "pc < 2 ^ 31" "Opcode (code_units c) pc = Some (Opcode_of d)" "Fetch16 (code_units c) pc 0 = Some d"
    using assms(1) by (auto simp: verified_at_def Opcode_of_eq)
  obtain u w where x: "verify_extra c (Opcode_of d) pc (word_of_nat pc) (True, u) = Some (Inr (True, w))"
    and u: "\<forall>t. opcode_at u t \<longleftrightarrow> insn_start c t"
    by (rule verified_extra [OF assms(1)])
  then have chk: "CheckSwitchTargets c (word_of_nat pc) u = Some (True, w)"
    using assms(3) by (auto simp: verify_extra_def Let_def and_also_True)
  have next3: "in_frame c (unat (VRegA_31t d)) 1" "next_insn c pc (pc + 3)" using operands_31t [OF assms(1,2)] by simp_all
  then obtain v where v: "GetVReg (frame s) (unat (VRegA_31t d)) = Some v"
    using get_rules(1) [OF assms(4), of _ "\<lambda>_. True" Some] by (auto simp: holds_def)
  from switch_lookup [OF chk pc(1,3) _ v] assms(5) obtain table count r where
    table: "payload_at (code_units c) pc = Some table" and count: "Fetch16 (code_units c) table 1 = Some count"
    and r: "(if packed then DoPackedSwitch else DoSparseSwitch) (code_units c) pc d (frame s) = Some r"
    and sel: "(\<exists>i < unat count. switch_target (code_units c) packed table (unat count) i = Some r) \<or> r = 3"
    by blast
  from extra_switch [OF x pc(2) assms(3) pc(1)] obtain off table' count' where
    off: "two_units (code_units c) (pc + 1) = Some off" "int table' = int pc + sint off" "Fetch16 (code_units c) table' 1 = Some count'"
    and all: "\<forall>i < unat count'. \<exists>rel t. two_units (code_units c)
          (table' + (if Opcode_of d = PACKED_SWITCH then 4 else 2 + 2 * unat count') + 2 * i) = Some rel
        \<and> int t = int pc + sint rel \<and> opcode_at u t"
    by blast
  from off(1,2) table have "table' = table"
    by (simp add: payload_at_def VRegB_31t_def Fetch32_two_units RelativeAt_def split: if_splits)
  have sw: "IsSwitch (Opcode_of d)" using opcode_table_consistent [of "Opcode_of d"] assms(3) by simp
  have at: "RelativeAt pc r = Some t" if "int t = int pc + sint r" for t using that by (simp add: RelativeAt_def flip: that)
  have "\<exists>j. RelativeAt pc r = Some j \<and> flow c dex pc j"
    if i: "i < unat count" "switch_target (code_units c) packed table (unat count) i = Some r" for i
  proof -
    from off(3) count all assms(5) u i \<open>table' = table\<close> obtain t where t: "int t = int pc + sint r" "insn_start c t"
      by (auto simp: switch_target_def dest!: spec [of _ i])
    have "switch_to c pc t"
      unfolding switch_to_def using sw pc(2) table count i at [OF t(1)] assms(5) by blast
    with at [OF t(1)] t(2) show ?thesis by (auto simp: flow_def start_or_end_def)
  qed
  then have "\<exists>j. RelativeAt pc r = Some j \<and> flow c dex pc j"
    using sel flow_next [OF next3(2)] RelativeAt_forward [of 3 pc] by auto
  with r show ?thesis by (simp add: holds_def)
qed

lemma switch_handler_safe:
  fixes h :: "'w handler"
  assumes "shape op = (k31t, 1, wb, wc)" and "GetVerifyExtraFlags op = kVerifySwitchTargets" and "packed \<longleftrightarrow> op = PACKED_SWITCH"
    and "\<And>cfg inst inst_data s. h cfg inst inst_data s =
      (if packed then DoPackedSwitch else DoSparseSwitch) (code s) inst inst_data (frame s) \<bind> (\<lambda>off. advance off inst s)"
  shows "safe_handler op h"
proof (rule safe_handlerI [OF assms(1)])
  fix c pc d and cfg :: "'w config" and s :: "'w istate"
  assume h: "verified_at c pc d" "shape (Opcode_of d) = (k31t, 1, wb, wc)" "Opcode_of d = op" "running_at c pc s"
  from assms(2,3) h(3) have "GetVerifyExtraFlags (Opcode_of d) = kVerifySwitchTargets" "packed \<longleftrightarrow> Opcode_of d = PACKED_SWITCH"
    by simp_all
  note off = switch_continues [OF h(1,2) this(1) h(4) this(2), of "method_dex_file cfg"]
  show "safe c (method_dex_file cfg) pc (may_abort op) (h cfg pc d s)"
    unfolding assms(4) running_code [OF h(4)] by (rule holds_bind [OF off]) (auto intro: advance_safe h(4))
qed

lemma packed_switch_safe:
  "shape op = (k31t, 1, wb, wc) \<Longrightarrow> GetVerifyExtraFlags op = kVerifySwitchTargets \<Longrightarrow> op = PACKED_SWITCH \<Longrightarrow> safe_handler op packed_switch"
  by (rule switch_handler_safe [where packed = True]) (simp_all add: packed_switch_def)

lemma sparse_switch_safe:
  "shape op = (k31t, 1, wb, wc) \<Longrightarrow> GetVerifyExtraFlags op = kVerifySwitchTargets \<Longrightarrow> op \<noteq> PACKED_SWITCH \<Longrightarrow> safe_handler op sparse_switch"
  by (rule switch_handler_safe [where packed = False]) (simp_all add: sparse_switch_def)

section \<open>The opcode tables\<close>

lemma nop_safe: "shape op = (k10x, 0, 0, 0) \<Longrightarrow> CanFlowThrough op \<Longrightarrow> safe_handler op (\<lambda>cfg inst inst_data s. advance 1 inst s)"
  by (rule safe_handlerI, assumption, drule (1) operands_10x) (simp_all add: next_safe)

text \<open>The shapes of the opcodes, read off the instruction table.\<close>

definition row_shape :: "Format \<Rightarrow> u32 \<Rightarrow> Format \<times> nat \<times> nat \<times> nat" where
  "row_shape format vflags =
     (format, reg_width kVerifyRegA kVerifyRegAWide (vflags AND (kVerifyRegA OR kVerifyRegAWide)),
      reg_width kVerifyRegB kVerifyRegBWide (vflags AND (kVerifyRegB OR kVerifyRegBField OR kVerifyRegBMethod OR
        kVerifyRegBNewInstance OR kVerifyRegBString OR kVerifyRegBType OR kVerifyRegBWide)),
      reg_width kVerifyRegC kVerifyRegCWide (vflags AND (kVerifyRegC OR kVerifyRegCField OR kVerifyRegCNewArray OR
        kVerifyRegCType OR kVerifyRegCWide)))"

lemma shape_row: "shape op = row_shape (FormatOf op) (VerifyFlagsOf op) \<and> GetVerifyExtraFlags op = VerifyFlagsOf op AND 0x5FC000"
  by (simp add: shape_def row_shape_def VerifyFlagsOf_def GetVerifyTypeArgumentA_def GetVerifyTypeArgumentB_def
      GetVerifyTypeArgumentC_def GetVerifyExtraFlags_def)

lemma table_shapes:
  "list_all (\<lambda>(op, name, format, flags, vflags). shape op = row_shape format vflags
     \<and> GetVerifyExtraFlags op = vflags AND 0x5FC000 \<and> (CanFlowThrough op \<longleftrightarrow> flags AND kContinue \<noteq> 0)
     \<and> (IsThrow op \<longleftrightarrow> flags AND kThrow \<noteq> 0)) insn_table"
proof -
  have "fst (insn_table ! i) = word_of_nat i \<and> unat (word_of_nat i :: u8) = i" if "i < 256" for i
    using that arg_cong [OF insn_table_indexed, of "\<lambda>xs. xs ! i"] by (simp add: unat_of_nat)
  then show ?thesis
    using shape_row
    by (simp add: list_all_length case_prod_beta FormatOf_def VerifyFlagsOf_def FlagsOf_def CanFlowThrough_def IsThrow_def
        kInstructionFormats_def kInstructionVerifyFlags_def kInstructionFlags_def)
qed

lemmas shape_rules = table_shapes [unfolded insn_table_def insn_table_lo_def insn_table_hi_def, simplified row_shape_def reg_width_def, simplified]

lemma shape_eq: "fst (shape op) = fmt \<Longrightarrow>
    shape op = (fmt, fst (snd (shape op)), fst (snd (snd (shape op))), snd (snd (snd (shape op))))"
  by auto

text \<open>The handler lemmas as conditional rules, decided by the shapes.\<close>

lemmas handler_rules =
  unop_12x_safe [OF shape_eq] move_22x_safe [OF shape_eq] move_32x_safe [OF shape_eq] move_result_safe [OF shape_eq]
  binop_23x_safe [OF shape_eq] binop_2addr_safe [OF shape_eq] binop_lit16_safe binop_lit8_safe
  div_23x_safe [of _ 1] div_23x_safe [of _ 2] div_2addr_safe [of _ 1 0] div_2addr_safe [of _ 2 0] div_lit16_safe div_lit8_safe
  move_exception_safe return_void_safe return_int_safe return_wide_safe return_object_safe const_4_safe const_16_safe
  const_32_safe const_high16_safe const_wide_16_safe const_wide_32_safe const_wide_safe const_wide_high16_safe
  const_string_safe const_string_jumbo_safe const_class_safe monitor_op_safe check_cast_safe instance_of_safe
  array_length_safe new_instance_safe new_array_safe throw_op_safe aget_safe aput_safe iget_safe sget_safe iget_quick_safe
  iput_safe sput_safe iput_quick_safe fill_array_data_safe
  filled_new_array_safe [of _ False 0 0 0] filled_new_array_safe [of _ True 0 0 0]
  invoke_safe [where wa = 0 and wb = 0 and wc = 0] invoke_quick_safe [where wa = 0 and wb = 0 and wc = 0]
  invoke_static_safe [of _ 0 0 0] goto_safe [where wa = 0 and wb = 0 and wc = 0] if_22t_safe [of _ 0] if_21t_safe [of _ 0 0]
  packed_switch_safe [of _ 0 0] sparse_switch_safe [of _ 0 0]

lemmas view_rules = readable_views [unfolded One_nat_def] writable_views [unfolded One_nat_def] divides_views [unfolded One_nat_def]
  type_width_def may_abort_def

lemmas table_rules = handler_rules shape_rules view_rules

lemma move_handlers_safe: "list_all (\<lambda>(op, h). safe_handler op h) move_handlers"
  by (simp add: nop_safe move_handlers_def table_rules)

lemma return_handlers_safe: "list_all (\<lambda>(op, h). safe_handler op h) return_handlers"
  by (simp add: return_handlers_def table_rules)

lemma const_handlers_safe: "list_all (\<lambda>(op, h). safe_handler op h) const_handlers"
  by (simp add: const_handlers_def table_rules)

lemma object_handlers_safe: "list_all (\<lambda>(op, h). safe_handler op h) object_handlers"
  by (simp add: object_handlers_def table_rules)

lemma branch_handlers_safe: "list_all (\<lambda>(op, h). safe_handler op h) branch_handlers"
  by (simp add: branch_handlers_def table_rules)

lemma cmp_handlers_safe: "list_all (\<lambda>(op, h). safe_handler op h) (cmp_handlers p)"
  by (simp add: cmp_handlers_def table_rules)

lemma if_handlers_safe: "list_all (\<lambda>(op, h). safe_handler op h) if_handlers"
  by (simp add: if_handlers_def table_rules)

lemma array_handlers_safe: "list_all (\<lambda>(op, h). safe_handler op h) array_handlers"
  by (simp add: array_handlers_def table_rules)

lemma iget_handlers_safe: "list_all (\<lambda>(op, h). safe_handler op h) iget_handlers"
  by (simp add: iget_handlers_def table_rules)

lemma sget_handlers_safe: "list_all (\<lambda>(op, h). safe_handler op h) sget_handlers"
  by (simp add: sget_handlers_def table_rules)

lemma iput_handlers_safe: "list_all (\<lambda>(op, h). safe_handler op h) iput_handlers"
  by (simp add: iput_handlers_def table_rules)

lemma sput_handlers_safe: "list_all (\<lambda>(op, h). safe_handler op h) sput_handlers"
  by (simp add: sput_handlers_def table_rules)

lemma invoke_handlers_safe: "list_all (\<lambda>(op, h). safe_handler op h) (invoke_handlers hash1)"
  by (simp add: invoke_handlers_def table_rules)

lemma unop_handlers_safe: "list_all (\<lambda>(op, h). safe_handler op h) (unop_handlers p)"
  by (simp add: unop_handlers_def table_rules)

lemma int_handlers_safe: "list_all (\<lambda>(op, h). safe_handler op h) int_handlers"
  by (simp add: int_handlers_def table_rules)

lemma long_handlers_safe: "list_all (\<lambda>(op, h). safe_handler op h) long_handlers"
  by (simp add: long_handlers_def table_rules)

lemma float_handlers_safe: "list_all (\<lambda>(op, h). safe_handler op h) (float_handlers p)"
  by (simp add: float_handlers_def table_rules)

lemma int_2addr_handlers_safe: "list_all (\<lambda>(op, h). safe_handler op h) int_2addr_handlers"
  by (simp add: int_2addr_handlers_def table_rules)

lemma long_2addr_handlers_safe: "list_all (\<lambda>(op, h). safe_handler op h) long_2addr_handlers"
  by (simp add: long_2addr_handlers_def table_rules)

lemma float_2addr_handlers_safe: "list_all (\<lambda>(op, h). safe_handler op h) (float_2addr_handlers p)"
  by (simp add: float_2addr_handlers_def table_rules)

lemma lit_handlers_safe: "list_all (\<lambda>(op, h). safe_handler op h) lit_handlers"
  by (simp add: lit_handlers_def table_rules)

lemma handlers_safe: "map_of (handlers p hash1) op = Some h \<Longrightarrow> safe_handler op h"
proof -
  have "list_all (\<lambda>(op, h). safe_handler op h) (handlers p hash1)"
    unfolding handlers_def
    by (simp add: move_handlers_safe return_handlers_safe const_handlers_safe object_handlers_safe branch_handlers_safe
        cmp_handlers_safe if_handlers_safe array_handlers_safe iget_handlers_safe sget_handlers_safe iput_handlers_safe
        sput_handlers_safe invoke_handlers_safe unop_handlers_safe int_handlers_safe long_handlers_safe float_handlers_safe
        int_2addr_handlers_safe long_2addr_handlers_safe float_2addr_handlers_safe lit_handlers_safe)
  then show "map_of (handlers p hash1) op = Some h \<Longrightarrow> safe_handler op h"
    by (auto simp: list_all_iff dest: map_of_SomeD)
qed

text \<open>Every opcode without a handler is one the static pass rejects.\<close>

definition opcodes :: "nat \<Rightarrow> nat \<Rightarrow> u8 list" where
  "opcodes a b = map word_of_nat [a..<Suc b]"

lemma opcodes_rec: "opcodes a b = (if a \<le> b then word_of_nat a # opcodes (Suc a) b else [])"
  by (simp add: opcodes_def upt_rec)

lemma tables_handle:
  "set (opcodes 0x0 0xd) \<subseteq> fst ` set move_handlers"
  "set (opcodes 0xe 0x11) \<subseteq> fst ` set return_handlers"
  "set (opcodes 0x12 0x1c) \<subseteq> fst ` set const_handlers"
  "set (opcodes 0x1d 0x27) \<subseteq> fst ` set object_handlers"
  "set (opcodes 0x28 0x2c) \<subseteq> fst ` set branch_handlers"
  "set (opcodes 0x2d 0x31) \<subseteq> fst ` set (cmp_handlers p)"
  "set (opcodes 0x32 0x3d) \<subseteq> fst ` set if_handlers"
  "set (opcodes 0x44 0x51) \<subseteq> fst ` set array_handlers"
  "set (opcodes 0x52 0x58) \<subseteq> fst ` set iget_handlers"
  "set (opcodes 0x59 0x5f) \<subseteq> fst ` set iput_handlers"
  "set (opcodes 0x60 0x66) \<subseteq> fst ` set sget_handlers"
  "set (opcodes 0x67 0x6d) \<subseteq> fst ` set sput_handlers"
  "set (opcodes 0x6e 0x72) \<subseteq> fst ` set (invoke_handlers hash1)"
  "set (opcodes 0x73 0x73) \<subseteq> fst ` set return_handlers"
  "set (opcodes 0x74 0x78) \<subseteq> fst ` set (invoke_handlers hash1)"
  "set (opcodes 0x7b 0x8f) \<subseteq> fst ` set (unop_handlers p)"
  "set (opcodes 0x90 0x9a) \<subseteq> fst ` set int_handlers"
  "set (opcodes 0x9b 0xa5) \<subseteq> fst ` set long_handlers"
  "set (opcodes 0xa6 0xaf) \<subseteq> fst ` set (float_handlers p)"
  "set (opcodes 0xb0 0xba) \<subseteq> fst ` set int_2addr_handlers"
  "set (opcodes 0xbb 0xc5) \<subseteq> fst ` set long_2addr_handlers"
  "set (opcodes 0xc6 0xcf) \<subseteq> fst ` set (float_2addr_handlers p)"
  "set (opcodes 0xd0 0xe2) \<subseteq> fst ` set lit_handlers"
  "set (opcodes 0xe3 0xe5) \<subseteq> fst ` set iget_handlers"
  "set (opcodes 0xe6 0xe8) \<subseteq> fst ` set iput_handlers"
  "set (opcodes 0xe9 0xea) \<subseteq> fst ` set (invoke_handlers hash1)"
  "set (opcodes 0xeb 0xee) \<subseteq> fst ` set iput_handlers"
  "set (opcodes 0xef 0xf2) \<subseteq> fst ` set iget_handlers"
  by (simp_all add: opcodes_rec move_handlers_def return_handlers_def const_handlers_def object_handlers_def branch_handlers_def cmp_handlers_def if_handlers_def array_handlers_def iget_handlers_def iput_handlers_def sget_handlers_def sput_handlers_def invoke_handlers_def unop_handlers_def int_handlers_def long_handlers_def float_handlers_def int_2addr_handlers_def long_2addr_handlers_def float_2addr_handlers_def lit_handlers_def)

type_synonym 'w table = "(u8 \<times> 'w handler) list"

lemma tables_included:
  "fst ` set (move_handlers :: 'w table) \<subseteq> fst ` set (handlers p hash1 :: 'w table)"
  "fst ` set (return_handlers :: 'w table) \<subseteq> fst ` set (handlers p hash1 :: 'w table)"
  "fst ` set (const_handlers :: 'w table) \<subseteq> fst ` set (handlers p hash1 :: 'w table)"
  "fst ` set (object_handlers :: 'w table) \<subseteq> fst ` set (handlers p hash1 :: 'w table)"
  "fst ` set (branch_handlers :: 'w table) \<subseteq> fst ` set (handlers p hash1 :: 'w table)"
  "fst ` set ((cmp_handlers p) :: 'w table) \<subseteq> fst ` set (handlers p hash1 :: 'w table)"
  "fst ` set (if_handlers :: 'w table) \<subseteq> fst ` set (handlers p hash1 :: 'w table)"
  "fst ` set (array_handlers :: 'w table) \<subseteq> fst ` set (handlers p hash1 :: 'w table)"
  "fst ` set (iget_handlers :: 'w table) \<subseteq> fst ` set (handlers p hash1 :: 'w table)"
  "fst ` set (iput_handlers :: 'w table) \<subseteq> fst ` set (handlers p hash1 :: 'w table)"
  "fst ` set (sget_handlers :: 'w table) \<subseteq> fst ` set (handlers p hash1 :: 'w table)"
  "fst ` set (sput_handlers :: 'w table) \<subseteq> fst ` set (handlers p hash1 :: 'w table)"
  "fst ` set ((invoke_handlers hash1) :: 'w table) \<subseteq> fst ` set (handlers p hash1 :: 'w table)"
  "fst ` set ((unop_handlers p) :: 'w table) \<subseteq> fst ` set (handlers p hash1 :: 'w table)"
  "fst ` set (int_handlers :: 'w table) \<subseteq> fst ` set (handlers p hash1 :: 'w table)"
  "fst ` set (long_handlers :: 'w table) \<subseteq> fst ` set (handlers p hash1 :: 'w table)"
  "fst ` set ((float_handlers p) :: 'w table) \<subseteq> fst ` set (handlers p hash1 :: 'w table)"
  "fst ` set (int_2addr_handlers :: 'w table) \<subseteq> fst ` set (handlers p hash1 :: 'w table)"
  "fst ` set (long_2addr_handlers :: 'w table) \<subseteq> fst ` set (handlers p hash1 :: 'w table)"
  "fst ` set ((float_2addr_handlers p) :: 'w table) \<subseteq> fst ` set (handlers p hash1 :: 'w table)"
  "fst ` set (lit_handlers :: 'w table) \<subseteq> fst ` set (handlers p hash1 :: 'w table)"
  by (auto simp: handlers_def image_Un)

lemma rows_handled:
  "map fst (filter (\<lambda>(op, name, format, flags, vflags). vflags AND 0x5FC000 \<noteq> kVerifyError) insn_table) =
     opcodes 0x0 0xd @ opcodes 0xe 0x11 @ opcodes 0x12 0x1c @ opcodes 0x1d 0x27 @ opcodes 0x28 0x2c @ opcodes 0x2d 0x31 @ opcodes 0x32 0x3d @ opcodes 0x44 0x51 @ opcodes 0x52 0x58 @ opcodes 0x59 0x5f @ opcodes 0x60 0x66 @ opcodes 0x67 0x6d @ opcodes 0x6e 0x72 @ opcodes 0x73 0x73 @ opcodes 0x74 0x78 @ opcodes 0x7b 0x8f @ opcodes 0x90 0x9a @ opcodes 0x9b 0xa5 @ opcodes 0xa6 0xaf @ opcodes 0xb0 0xba @ opcodes 0xbb 0xc5 @ opcodes 0xc6 0xcf @ opcodes 0xd0 0xe2 @ opcodes 0xe3 0xe5 @ opcodes 0xe6 0xe8 @ opcodes 0xe9 0xea @ opcodes 0xeb 0xee @ opcodes 0xef 0xf2"
  by code_simp

lemma opcode_handled:
  assumes "GetVerifyExtraFlags op \<noteq> kVerifyError"
  shows "\<exists>h :: 'w handler. map_of (handlers p hash1) op = Some h"
proof -
  let ?checked = "map fst (filter (\<lambda>(op, name, format, flags, vflags). vflags AND 0x5FC000 \<noteq> kVerifyError) insn_table)"
  have "insn_table ! unat op \<in> set insn_table" using unat_u8_less [of op] by simp
  moreover have "snd (snd (snd (snd (insn_table ! unat op)))) AND 0x5FC000 \<noteq> kVerifyError"
    using assms shape_row [of op] by (simp add: VerifyFlagsOf_def kInstructionVerifyFlags_def)
  ultimately have "op \<in> set ?checked"
    using insn_table_fst [of op] by (force simp: case_prod_beta)
  moreover have "set ?checked \<subseteq> fst ` set (handlers p hash1 :: 'w table)"
    unfolding rows_handled set_append by (intro Un_least) (rule order_trans, rule tables_handle, rule tables_included)+
  ultimately show ?thesis using map_of_eq_None_iff [of "handlers p hash1 :: 'w table" op] by auto
qed

section \<open>Running verified code\<close>

text \<open>A data table is the payload of a switch or of \<open>fill-array-data\<close>; its first unit is a \<open>nop\<close> with a kind.\<close>

definition at_data :: "CodeItem \<Rightarrow> nat \<Rightarrow> bool" where
  "at_data c pc \<longleftrightarrow> Fetch16 (code_units c) pc 0 \<in> {Some kPackedSwitchSignature, Some kSparseSwitchSignature, Some kArrayDataSignature}"

lemma size_of_format:
  assumes "SizeInCodeUnits (code_units c) pc = Some n" and "Fetch16 (code_units c) pc 0 = Some d" and "\<not> at_data c pc"
  shows "n = format_size (FormatOf (Opcode_of d))"
proof (cases "Opcode_of d = NOP")
  case True
  then have "d AND 0xFF = 0" by (simp add: Opcode_of_zero_iff)
  with True assms show ?thesis
    by (auto simp: SizeInCodeUnits_def SizeInCodeUnitsComplexOpcode_def Opcode_of_eq kInstructionSizeInCodeUnits_NOP at_data_def
        split: if_splits)
next
  case False
  with SizeInCodeUnits_format [OF Opcode_of_eq [OF assms(2)]] assms(1) show ?thesis by simp
qed

lemma accepted_instruction:
  assumes "Verify v = Some (True, v')" and "code_item v = Some c" and "sound_run c cfg" and "insn_start c pc" and "\<not> at_data c pc"
  shows "\<exists>d. verified_at c pc d"
proof -
  have n31: "unat (insns_size_in_code_units c) < 2 ^ 31" and len: "unat (insns_size_in_code_units c) \<le> length (code_units c)"
    using assms(3) by (simp_all add: sound_run_def)
  from Verify_accepts [OF assms(1,2) n31 assms(4)] obtain u u' n where
    v: "VerifyInstruction c pc (word_of_nat pc) u = Some (True, u')" "\<forall>t. opcode_at u t \<longleftrightarrow> insn_start c t"
    and n: "SizeInCodeUnits (code_units c) pc = Some n" "pc + n \<le> unat (insns_size_in_code_units c)"
    by blast
  note pc = start_inside [OF assms(3,4)]
  then obtain d where d: "Fetch16 (code_units c) pc 0 = Some d" by simp
  have "n = format_size (FormatOf (Opcode_of d))" using n(1) d assms(5) by (rule size_of_format)
  moreover have "start_or_end c (pc + n)"
    using insn_from_next [OF assms(4) n(1)] n(2) by (auto simp: start_or_end_def le_less)
  ultimately have "verified_at c pc d"
    unfolding verified_at_def using assms(4) pc d v n(2) len by auto
  then show ?thesis by blast
qed

lemma step_safe:
  fixes cfg :: "'w config"
  assumes "sound_run c cfg" and "verified_at c pc d" and "running c s"
  shows "safe c (method_dex_file cfg) pc (may_abort (Opcode_of d)) (step cfg hash1 pc s)"
proof -
  let ?s = "s\<lparr>frame := SetDexPC (GetDexPc pc) (frame s)\<rparr>"
  have s: "running_at c pc ?s" using assms(3) by (simp add: running_at_def running_def GetDexPC_def SetDexPC_def GetDexPc_def frame_ok_def)
  obtain u w where "verify_extra c (Opcode_of d) pc (word_of_nat pc) (True, u) = Some (Inr (True, w))"
    by (rule verified_extra [OF assms(2)])
  then have "GetVerifyExtraFlags (Opcode_of d) \<noteq> kVerifyError" by (auto simp: verify_extra_def Let_def)
  then obtain h :: "'w handler" where h: "map_of (handlers (fp cfg) hash1) (Opcode_of d) = Some h" using opcode_handled by blast
  have "Fetch16 (code s) pc 0 = Some d" using assms(2,3) by (simp add: verified_at_def running_def)
  with h have "step cfg hash1 pc s = h cfg pc d ?s" by (simp add: step_def Let_def)
  with handlers_safe [OF h] assms(1,2) s show ?thesis by (simp add: safe_handler_def)
qed

text \<open>The turns of the loop, as long as no data table is executed.\<close>

inductive executes :: "CodeItem \<Rightarrow> 'w config \<Rightarrow> u32 \<Rightarrow> nat \<Rightarrow> 'w istate \<Rightarrow> nat \<Rightarrow> 'w istate \<Rightarrow> bool" for c cfg hash1 where
  entry: "executes c cfg hash1 pc s pc s"
| turn: "executes c cfg hash1 pc s i t \<Longrightarrow> \<not> at_data c i \<Longrightarrow> i \<noteq> unat (insns_size_in_code_units c) \<Longrightarrow>
    step cfg hash1 i t = Some (Continue j u) \<Longrightarrow> executes c cfg hash1 pc s j u"

lemma executes_running:
  assumes "executes c cfg hash1 pc s j t" and "Verify v = Some (True, v')" and "code_item v = Some c"
    and "sound_run c cfg" and "insn_start c pc" and "running c s"
  shows "start_or_end c j \<and> running c t"
  using assms(1,5,6)
proof (induction rule: executes.induct)
  case (turn pc s i t j u)
  then have "insn_start c i" "running c t" by (auto simp: start_or_end_def)
  with accepted_instruction [OF assms(2-4) _ turn.hyps(2)] obtain d where "verified_at c i d" by blast
  from step_safe [OF assms(4) this \<open>running c t\<close>, of hash1] turn.hyps(4) show ?case by (simp add: flow_def)
qed (simp add: start_or_end_def)

text \<open>
  Claim C12. Verified code runs safely: let the static pass accept a method, let the interpreter run it without
  access checks, and let the runtime's answers keep the frame's size and the code, the catch tables be readable,
  the code have less than 2^31 units and the byte count of every array payload stay below 2^31 (\<open>sound_run\<close>).
  From an instruction, with a frame of \<open>registers_size\<close> registers, every sequence of turns of the switch
  interpreter that has not executed a data table is at an instruction or right behind the last one, with the
  frame and the code intact; and at an instruction that is no data table the next turn is defined: it reads and
  writes registers of the frame and units of the code only, and it meets a handler. Only \<open>filled-new-array\<close>
  can abort.
\<close>

theorem verified_code_runs:
  assumes "Verify v = Some (True, v')" and "code_item v = Some c" and "sound_run c cfg" and "insn_start c pc" and "running c s"
    and "executes c cfg hash1 pc s j t"
  shows "start_or_end c j \<and> running c t
    \<and> (j \<noteq> unat (insns_size_in_code_units c) \<and> \<not> at_data c j \<longrightarrow>
         (\<exists>op r. Opcode (code_units c) j = Some op \<and> step cfg hash1 j t = Some r
            \<and> (r = Fatal \<longrightarrow> op = FILLED_NEW_ARRAY \<or> op = FILLED_NEW_ARRAY_RANGE)))"
proof -
  have run: "start_or_end c j" "running c t" using executes_running [OF assms(6,1-5)] by simp_all
  moreover have "\<exists>op r. Opcode (code_units c) j = Some op \<and> step cfg hash1 j t = Some r
      \<and> (r = Fatal \<longrightarrow> op = FILLED_NEW_ARRAY \<or> op = FILLED_NEW_ARRAY_RANGE)"
    if j: "j \<noteq> unat (insns_size_in_code_units c)" "\<not> at_data c j"
  proof -
    from run(1) j(1) have "insn_start c j" by (simp add: start_or_end_def)
    with accepted_instruction [OF assms(1-3) _ j(2)] obtain d where d: "verified_at c j d" by blast
    then have "Opcode (code_units c) j = Some (Opcode_of d)" by (simp add: verified_at_def Opcode_of_eq)
    moreover obtain r where "step cfg hash1 j t = Some r" "outcome_ok c (method_dex_file cfg) j (may_abort (Opcode_of d)) r"
      using step_safe [OF assms(3) d run(2), of hash1] by (auto simp: holds_def)
    ultimately show ?thesis by (auto simp: may_abort_def)
  qed
  ultimately show ?thesis by blast
qed

text \<open>A runtime that answers every request with 0, and the code of \<open>sample_code\<close> in a file without try blocks.\<close>

definition sample_config :: "CodeItem \<Rightarrow> unit config" where
  "sample_config c = \<lparr>rt = \<lambda>q s. (0, s), fp = sample_fpu, do_access_check = False, transaction_active = False, force_invoke_flag = 0,
     char_signed = True, method_code = c,
     method_dex_file = \<lparr>begin_of = replicate 28 0, string_ids = 0, type_ids = 0, field_ids = 0, method_ids = 0, proto_ids = 0, class_defs = 0\<rparr>\<rparr>"

definition sample_state :: "CodeItem \<Rightarrow> unit istate" where
  "sample_state c = \<lparr>frame = Create (ucast (registers_size c)) 0, result_register = 0, pending = 0, code = code_units c, world = ()\<rparr>"

lemma sample_sound: "sound_run sample_code (sample_config sample_code)"
proof -
  have "answers_ok sample_code (rt (sample_config sample_code))" by (simp add: answers_ok_def sample_config_def)
  moreover have "catches_ok sample_code (method_dex_file (sample_config sample_code))"
  proof -
    have "make_CatchHandlerIterator 0 (method_dex_file (sample_config sample_code)) 0 a
        = Some (empty_handlers 0)" for a
      by (simp add: make_CatchHandlerIterator_def sample_config_def code_tries_size_def load16_def load8_def le16_def
          chi_Init_def empty_handlers_def)
    then show ?thesis
      by (auto simp: catches_ok_def sample_code_def chi_walk.simps chi_HasNext_def empty_handlers_def)
  qed
  moreover have "array_data_ok sample_code"
  proof -
    have "list_all (\<lambda>pc. Opcode (code_units sample_code) pc \<noteq> Some FILL_ARRAY_DATA) [0..<6]" by code_simp
    then have "Opcode (code_units sample_code) pc \<noteq> Some FILL_ARRAY_DATA" if "pc < 6" for pc
      using that by (auto simp: list_all_iff)
    moreover have "insn_start sample_code pc \<Longrightarrow> pc < 6" for pc using insn_from_less [of sample_code 0 pc] by (simp add: sample_code_def)
    ultimately show ?thesis unfolding array_data_ok_def by blast
  qed
  ultimately show ?thesis by (simp add: sound_run_def sample_config_def sample_code_def)
qed

theorem verified_code_runs_witness:
  "\<exists>r. step (sample_config sample_code) 0 1 (sample_state sample_code) = Some r"
proof -
  let ?cfg = "sample_config sample_code" and ?s = "sample_state sample_code"
  obtain v' where v: "Verify (sample_verifier sample_code) = Some (True, v')" using sample_accepted by blast
  have c: "code_item (sample_verifier sample_code) = Some sample_code" by (simp add: sample_verifier_def)
  have s: "running sample_code ?s" using Create_ok [of "ucast (registers_size sample_code)" 0]
    by (simp add: running_def sample_state_def)
  have "executes sample_code ?cfg 0 1 ?s 1 ?s" by (rule executes.entry)
  moreover have "\<not> at_data sample_code 1" by code_simp
  ultimately show ?thesis
    using verified_code_runs [OF v c sample_sound sample_start s, of 0 1 ?s] by (auto simp: sample_code_def)
qed

section \<open>The size of array data\<close>

text \<open>\<open>fill-array-data v0, +4; return-void; payload of 2^32 - 1 elements of one byte\<close>.\<close>

definition wrapped_array_data :: CodeItem where
  "wrapped_array_data = \<lparr>code_item_ptr = 0, registers_size = 1, ins_size = 0, tries_size = 0, insns_size_in_code_units = 8,
     code_units = [0x0026, 0x0004, 0x0000, 0x000e, 0x0300, 0x0001, 0xffff, 0xffff]\<rparr>"

text \<open>
  Claim C30. The size of array data wraps around: a payload of \<open>2^32 - 1\<close> one-byte elements passes the
  static pass, which computes the size of the table as 4 units, and passes the bounds check of
  \<open>FillArrayData\<close>, to which the element count is negative; the copy of \<open>2^32 - 1\<close> bytes then
  leaves the code, whatever the length of the array.
\<close>

theorem array_data_size_wraps:
  assumes "obj \<noteq> 0" and "code s = code_units wrapped_array_data"
    and "\<And>q t. code (snd (rt cfg q t)) = code t" and "0 \<le> sint (fst (ask cfg (GetLength obj) s))"
  shows "map_option fst (Verify (sample_verifier wrapped_array_data)) = Some True \<and> FillArrayData cfg obj 4 s = None"
proof
  show "map_option fst (Verify (sample_verifier wrapped_array_data)) = Some True" by code_simp
  obtain n t where n: "ask cfg (GetLength obj) s = (n, t)" by fastforce
  then have t: "code t = code_units wrapped_array_data"
    using assms(2) assms(3) [of "GetLength obj" s] by (auto simp: ask_def split: prod.splits)
  have "two_units (code_units wrapped_array_data) (4 + 2) = Some 0xffffffff" "Fetch16 (code_units wrapped_array_data) 4 1 = Some 1"
    "length (code_units wrapped_array_data) = 8"
    by code_simp+
  moreover have "sint (0xffffffff :: u32) = -1" by code_simp
  ultimately show "FillArrayData cfg obj 4 s = None"
    using assms(1,2,4) n t by (simp add: FillArrayData_def Let_def)
qed

theorem array_data_size_wraps_witness:
  "FillArrayData (sample_config wrapped_array_data) 1 4 (sample_state wrapped_array_data) = None"
  using array_data_size_wraps [of 1 "sample_state wrapped_array_data" "sample_config wrapped_array_data"]
  by (simp add: sample_state_def sample_config_def ask_def)

end
