(* ===== verification/CodeFlow.thy ===== *)
theory CodeFlow
  imports InterpreterSafety
begin

text \<open>
  The code flow pass of the bytecode verifier: \<open>CodeFlowVerifyMethod\<close>, the control part of
  \<open>CodeFlowVerifyInstruction\<close> and \<open>UpdateRegisters\<close> of \<open>art/runtime/verifier/method_verifier.cc\<close>, and
  what the pass and the interpreter have to do with each other.

  The pass walks the instructions that execution can reach, with a work list of \<open>changed\<close> flags. What it
  computes on register types (\<open>RegisterLine\<close>, the type lattice, resolved classes) is the argument \<open>an\<close>:
  the walk is the same for every such analysis, and so are the theorems.
\<close>

section \<open>State\<close>

datatype Line = BranchLine | WorkLine | SavedLine

text \<open>
  The operations on register types, on a state \<open>'l\<close> of all lines and the register table:
  \<open>type_instruction\<close> is the switch over the opcodes and returns whether it set a hard failure and whether
  it set a runtime-throw failure; \<open>copy_line\<close> and \<open>merge_lines\<close> are the two halves of
  \<open>UpdateRegisters\<close> (success; success and change); \<open>prepare_next\<close> is what happens to the working line
  before the next instruction; \<open>has_line\<close> whether the register table keeps a line for an instruction;
  \<open>is_throwable\<close> whether a handler type resolves to \<open>java.lang.Throwable\<close>.
\<close>

record 'l type_analysis =
  load_line :: "nat \<Rightarrow> 'l \<Rightarrow> 'l"
  type_instruction :: "nat \<Rightarrow> 'l \<Rightarrow> bool \<times> bool \<times> 'l"
  has_branch_line :: "'l \<Rightarrow> bool"
  copy_line :: "Line \<Rightarrow> bool \<Rightarrow> nat \<Rightarrow> 'l \<Rightarrow> bool \<times> 'l"
  merge_lines :: "Line \<Rightarrow> bool \<Rightarrow> nat \<Rightarrow> 'l \<Rightarrow> bool \<times> bool \<times> 'l"
  prepare_next :: "bool \<Rightarrow> nat \<Rightarrow> 'l \<Rightarrow> 'l"
  has_line :: "nat \<Rightarrow> 'l \<Rightarrow> bool"
  monitor_depth :: "'l \<Rightarrow> nat"
  is_throwable :: "u16 \<Rightarrow> bool"

record 'l flow_state =
  verifier :: MethodVerifier
  types :: 'l
  have_any_pending_runtime_throw_failure :: bool

type_synonym 'l flow_result = "(bool \<times> 'l flow_state) option"

definition and_flow :: "'l flow_result \<Rightarrow> ('l flow_state \<Rightarrow> 'l flow_result) \<Rightarrow> 'l flow_result" where
  "and_flow r f = do { (ok, s) \<leftarrow> r; (if ok then f s else Some (False, s)) }"

definition flow_fail :: "'l flow_state \<Rightarrow> 'l flow_result" where
  "flow_fail s = Some (False, s\<lparr>verifier := Fail (verifier s)\<rparr>)"

definition flow_check :: "(MethodVerifier \<Rightarrow> (bool \<times> MethodVerifier) option) \<Rightarrow> 'l flow_state \<Rightarrow> 'l flow_result" where
  "flow_check f s = do { (ok, v) \<leftarrow> f (verifier s); Some (ok, s\<lparr>verifier := v\<rparr>) }"

section \<open>One instruction\<close>

definition CheckNotMoveException :: "CodeItem \<Rightarrow> nat \<Rightarrow> MethodVerifier \<Rightarrow> (bool \<times> MethodVerifier) option" where
  "CheckNotMoveException c insn_idx v = do {
     w \<leftarrow> Fetch16 (code_units c) insn_idx 0;
     (if Opcode_of w = MOVE_EXCEPTION then fail v else pass v)
   }"

definition CheckNotMoveExceptionOrMoveResult :: "CodeItem \<Rightarrow> nat \<Rightarrow> MethodVerifier \<Rightarrow> (bool \<times> MethodVerifier) option" where
  "CheckNotMoveExceptionOrMoveResult c insn_idx v =
     and_also (CheckNotMoveException c insn_idx v) (CheckNotMoveResult c insn_idx)"

text \<open>The registers at \<open>next_idx\<close> are copied on the first visit and merged later; a change marks the instruction.\<close>

definition UpdateRegisters :: "'l type_analysis \<Rightarrow> nat \<Rightarrow> Line \<Rightarrow> bool \<Rightarrow> 'l flow_state \<Rightarrow> 'l flow_result" where
  "UpdateRegisters an next_idx merge_line update_merge_line s = do {
     x \<leftarrow> flags_at (verifier s) next_idx;
     let (ok, changed, l) =
       (if \<not> IsVisitedOrChanged x
        then (let (ok, l) = copy_line an merge_line (IsReturnFlag x) next_idx (types s) in (ok, True, l))
        else merge_lines an merge_line update_merge_line next_idx (types s));
     (if \<not> ok then Some (False, s\<lparr>types := l\<rparr>)
      else do {
        v \<leftarrow> (if changed then update_flags SetChanged next_idx (verifier s) else Some (verifier s));
        Some (True, s\<lparr>verifier := v, types := l\<rparr>)
      })
   }"

definition flow_branch :: "'l type_analysis \<Rightarrow> CodeItem \<Rightarrow> nat \<Rightarrow> u32 \<Rightarrow> 'l flow_state \<Rightarrow> 'l flow_result" where
  "flow_branch an c work_insn_idx opcode_flags s =
     (if opcode_flags AND kBranch \<noteq> 0
      then do {
        r \<leftarrow> GetBranchOffset c (word_of_nat work_insn_idx);
        (case r of
           None \<Rightarrow> flow_fail s
         | Some (branch_target, isConditional, selfOkay) \<Rightarrow>
             let target = unat (word_of_nat work_insn_idx + branch_target)
             in and_flow (flow_check (CheckNotMoveExceptionOrMoveResult c target) s)
                  (\<lambda>s. UpdateRegisters an target (if has_branch_line an (types s) then BranchLine else WorkLine) False s))
      }
      else Some (True, s))"

fun flow_switch_targets :: "'l type_analysis \<Rightarrow> CodeItem \<Rightarrow> nat \<Rightarrow> nat \<Rightarrow> nat \<Rightarrow> 'l flow_state \<Rightarrow> 'l flow_result" where
  "flow_switch_targets an c work_insn_idx k 0 s = Some (True, s)"
| "flow_switch_targets an c work_insn_idx k (Suc n) s = do {
     offset \<leftarrow> two_units (code_units c) k;
     let abs_offset = unat (word_of_nat work_insn_idx + offset);
     and_flow (flow_check (CheckNotMoveExceptionOrMoveResult c abs_offset) s)
       (\<lambda>s. and_flow (UpdateRegisters an abs_offset WorkLine False s)
              (flow_switch_targets an c work_insn_idx (k + 2) n))
   }"

definition flow_switch :: "'l type_analysis \<Rightarrow> CodeItem \<Rightarrow> nat \<Rightarrow> u32 \<Rightarrow> 'l flow_state \<Rightarrow> 'l flow_result" where
  "flow_switch an c work_insn_idx opcode_flags s =
     (if opcode_flags AND kSwitch \<noteq> 0
      then do {
        offset_to_switch \<leftarrow> two_units (code_units c) (work_insn_idx + 1);
        switch_insns \<leftarrow> RelativeAt work_insn_idx offset_to_switch;
        switch_count \<leftarrow> Fetch16 (code_units c) switch_insns 1;
        w \<leftarrow> Fetch16 (code_units c) work_insn_idx 0;
        let offset_to_targets = (if Opcode_of w = PACKED_SWITCH then 4 else 2 + 2 * unat switch_count);
        flow_switch_targets an c work_insn_idx (switch_insns + offset_to_targets) (unat switch_count) s
      }
      else Some (True, s))"

text \<open>The loop over the catch handlers, which also looks for a catch-all.\<close>

function flow_handlers ::
  "'l type_analysis \<Rightarrow> CatchHandlerIterator \<Rightarrow> bool \<Rightarrow> 'l flow_state \<Rightarrow> (bool \<times> bool \<times> 'l flow_state) option" where
  "flow_handlers an iterator has_catch_all_handler s =
     (if chi_HasNext iterator
      then (case UpdateRegisters an (unat (handler_address iterator)) SavedLine False s of
              None \<Rightarrow> None
            | Some (ok, s) \<Rightarrow>
                if \<not> ok then Some (False, has_catch_all_handler, s)
                else (case chi_Next (begin_of (dex_file (verifier s))) iterator of
                        None \<Rightarrow> None
                      | Some iterator' \<Rightarrow>
                          flow_handlers an iterator'
                            (has_catch_all_handler \<or> handler_type_idx iterator = kDexNoIndex16
                             \<or> is_throwable an (handler_type_idx iterator)) s))
      else Some (True, has_catch_all_handler, s))"
  by pat_completeness auto
termination
  by (relation "measure (\<lambda>(_, it, _). (if chi_HasNext it then 1 else 0)
      + nat (sint (remaining_count it)) + (if catch_all it then 1 else 0))")
    (auto dest: chi_Next_measure)

declare flow_handlers.simps [simp del]

definition flow_throw :: "'l type_analysis \<Rightarrow> CodeItem \<Rightarrow> nat \<Rightarrow> u8 \<Rightarrow> u32 \<Rightarrow> 'l flow_state \<Rightarrow> 'l flow_result" where
  "flow_throw an c work_insn_idx op opcode_flags s = do {
     x \<leftarrow> flags_at (verifier s) work_insn_idx;
     (if opcode_flags AND kThrow \<noteq> 0 \<and> IsInTry x
      then do {
        iterator \<leftarrow> make_CatchHandlerIterator 0 (dex_file (verifier s)) (code_item_ptr c) (word_of_nat work_insn_idx);
        (ok, has_catch_all_handler, s) \<leftarrow> flow_handlers an iterator False s;
        (if \<not> ok then Some (False, s)
         else if monitor_depth an (types s) > 0 \<and> \<not> has_catch_all_handler
                 \<and> (op \<noteq> MONITOR_ENTER \<or> monitor_depth an (types s) \<noteq> 1)
         then flow_fail s
         else Some (True, s))
      }
      else Some (True, s))
   }"

definition flow_continue :: "'l type_analysis \<Rightarrow> CodeItem \<Rightarrow> nat \<Rightarrow> u32 \<Rightarrow> 'l flow_state \<Rightarrow> 'l flow_result" where
  "flow_continue an c work_insn_idx opcode_flags s =
     (if opcode_flags AND kContinue \<noteq> 0
      then do {
        n \<leftarrow> SizeInCodeUnits (code_units c) work_insn_idx;
        let next_insn_idx = word_of_nat work_insn_idx + (word_of_nat n :: u32);
        (if next_insn_idx \<ge> insns_size_in_code_units c then flow_fail s
         else and_flow (flow_check (CheckNotMoveException c (unat next_insn_idx)) s) (\<lambda>s. do {
           x \<leftarrow> flags_at (verifier s) (unat next_insn_idx);
           let s = s\<lparr>types := prepare_next an (IsReturnFlag x) (unat next_insn_idx) (types s)\<rparr>;
           (if has_line an (unat next_insn_idx) (types s)
            then UpdateRegisters an (unat next_insn_idx) WorkLine True s
            else do {
              v \<leftarrow> update_flags SetChanged (unat next_insn_idx) (verifier s);
              Some (True, s\<lparr>verifier := v\<rparr>)
            })
         }))
      }
      else Some (True, s))"

definition flow_return :: "'l type_analysis \<Rightarrow> u32 \<Rightarrow> 'l flow_state \<Rightarrow> 'l flow_result" where
  "flow_return an opcode_flags s =
     (if opcode_flags AND kReturn \<noteq> 0 \<and> monitor_depth an (types s) \<noteq> 0 then flow_fail s else Some (True, s))"

text \<open>The instruction at which the search for the next change starts.\<close>

definition guess_after :: "CodeItem \<Rightarrow> nat \<Rightarrow> u32 \<Rightarrow> nat \<Rightarrow> nat option" where
  "guess_after c work_insn_idx opcode_flags start_guess =
     (if opcode_flags AND kContinue \<noteq> 0
      then map_option (\<lambda>n. unat (word_of_nat work_insn_idx + (word_of_nat n :: u32))) (SizeInCodeUnits (code_units c) work_insn_idx)
      else if opcode_flags AND kBranch \<noteq> 0
      then map_option (\<lambda>r. unat (word_of_nat work_insn_idx + (case r of None \<Rightarrow> 0 | Some (branch_target, _, _) \<Rightarrow> branch_target)))
             (GetBranchOffset c (word_of_nat work_insn_idx))
      else Some start_guess)"

text \<open>A \<open>nop\<close> with an operand is the signature of a data table. \<open>monitor-exit\<close> is taken not to throw.\<close>

definition CodeFlowVerifyInstruction ::
  "'l type_analysis \<Rightarrow> CodeItem \<Rightarrow> nat \<Rightarrow> nat \<Rightarrow> 'l flow_state \<Rightarrow> (bool \<times> nat \<times> 'l flow_state) option" where
  "CodeFlowVerifyInstruction an c work_insn_idx start_guess s = do {
     w \<leftarrow> Fetch16 (code_units c) work_insn_idx 0;
     let op = Opcode_of w;
     let (hard, throws, l) = type_instruction an work_insn_idx (types s);
     let s = s\<lparr>types := l\<rparr>;
     (if op = NOP \<and> VRegA_10x w \<noteq> 0 \<or> hard
      then Some (False, start_guess, s\<lparr>verifier := Fail (verifier s)\<rparr>)
      else do {
        let opcode_flags =
          (if throws then kThrow else if op = MONITOR_EXIT then FlagsOf op AND NOT kThrow else FlagsOf op);
        let s = s\<lparr>have_any_pending_runtime_throw_failure := have_any_pending_runtime_throw_failure s \<or> throws\<rparr>;
        (ok, s) \<leftarrow>
          and_flow (and_flow (and_flow (and_flow
            (flow_branch an c work_insn_idx opcode_flags s)
            (flow_switch an c work_insn_idx opcode_flags))
            (flow_throw an c work_insn_idx op opcode_flags))
            (flow_continue an c work_insn_idx opcode_flags))
            (flow_return an opcode_flags);
        (if \<not> ok then Some (False, start_guess, s)
         else do {
           start_guess \<leftarrow> guess_after c work_insn_idx opcode_flags start_guess;
           Some (True, start_guess, s)
         })
      })
   }"

section \<open>The work list\<close>

text \<open>The first instruction marked as changed, or the size of the code.\<close>

function find_changed :: "MethodVerifier \<Rightarrow> nat \<Rightarrow> nat \<Rightarrow> nat option" where
  "find_changed v insns_size insn_idx =
     (if insn_idx < insns_size
      then (case flags_at v insn_idx of
              None \<Rightarrow> None
            | Some x \<Rightarrow> if IsChanged x then Some insn_idx else find_changed v insns_size (insn_idx + 1))
      else Some insn_idx)"
  by pat_completeness auto
termination
  by (relation "measure (\<lambda>(_, insns_size, insn_idx). insns_size - insn_idx)") auto

declare find_changed.simps [simp del]

definition visit ::
  "'l type_analysis \<Rightarrow> CodeItem \<Rightarrow> nat \<Rightarrow> nat \<Rightarrow> 'l flow_state \<Rightarrow> (bool \<times> nat \<times> 'l flow_state) option" where
  "visit an c insn_idx start_guess s = do {
     x \<leftarrow> flags_at (verifier s) insn_idx;
     let s = (if IsBranchTarget x then s\<lparr>types := load_line an insn_idx (types s)\<rparr> else s);
     (ok, start_guess, s) \<leftarrow> CodeFlowVerifyInstruction an c insn_idx start_guess s;
     (if \<not> ok then Some (False, start_guess, s)
      else do {
        v \<leftarrow> update_flags SetVisited insn_idx (verifier s);
        v \<leftarrow> update_flags ClearChanged insn_idx v;
        Some (True, start_guess, s\<lparr>verifier := v\<rparr>)
      })
   }"

partial_function (option) flow_loop ::
  "'l type_analysis \<Rightarrow> CodeItem \<Rightarrow> nat \<Rightarrow> 'l flow_state \<Rightarrow> (bool \<times> 'l flow_state) option" where
  "flow_loop an c start_guess s = do {
     let insns_size = unat (insns_size_in_code_units c);
     insn_idx \<leftarrow> find_changed (verifier s) insns_size start_guess;
     (if insn_idx = insns_size
      then if start_guess \<noteq> 0 then flow_loop an c 0 s else Some (True, s)
      else do {
        (ok, start_guess, s) \<leftarrow> visit an c insn_idx start_guess s;
        (if \<not> ok then Some (False, s) else flow_loop an c start_guess s)
      })
   }"

definition CodeFlowVerifyMethod :: "'l type_analysis \<Rightarrow> CodeItem \<Rightarrow> 'l flow_state \<Rightarrow> 'l flow_result" where
  "CodeFlowVerifyMethod an c s = do {
     v \<leftarrow> update_flags SetChanged 0 (verifier s);
     flow_loop an c 0 (s\<lparr>verifier := v\<rparr>)
   }"

section \<open>The marks of the walk\<close>

lemma and_flow_True: "and_flow r f = Some (True, s') \<longleftrightarrow> (\<exists>u. r = Some (True, u) \<and> f u = Some (True, s'))"
  by (auto simp: and_flow_def bind_eq_Some_conv split: if_splits)

lemma walk_marks [simp]:
  "IsOpcode (SetChanged f) = IsOpcode f" "IsOpcode (ClearChanged f) = IsOpcode f" "IsOpcode (SetVisited f) = IsOpcode f"
  "IsInTry (SetChanged f) = IsInTry f" "IsInTry (ClearChanged f) = IsInTry f" "IsInTry (SetVisited f) = IsInTry f"
  "IsVisited (SetChanged f) = IsVisited f" "IsVisited (ClearChanged f) = IsVisited f" "IsVisited (SetVisited f)"
  "IsChanged (SetChanged f)" "\<not> IsChanged (ClearChanged f)" "IsChanged (SetVisited f) = IsChanged f"
  by (simp_all add: IsOpcode_def IsInTry_def IsVisited_def IsChanged_def SetChanged_def ClearChanged_def SetVisited_def
      HasFlag_SetFlag HasFlag_ClearFlag)

definition visited_at :: "MethodVerifier \<Rightarrow> nat \<Rightarrow> bool" where
  "visited_at v pc \<longleftrightarrow> pc < length (insn_flags v) \<and> IsVisited (insn_flags v ! pc)"

definition changed_at :: "MethodVerifier \<Rightarrow> nat \<Rightarrow> bool" where
  "changed_at v pc \<longleftrightarrow> pc < length (insn_flags v) \<and> IsChanged (insn_flags v ! pc)"

lemma started_iff: "started v pc \<longleftrightarrow> visited_at v pc \<or> changed_at v pc"
  by (auto simp: started_def visited_at_def changed_at_def IsVisitedOrChanged_def)

text \<open>What the walk leaves alone.\<close>

definition same_code :: "MethodVerifier \<Rightarrow> MethodVerifier \<Rightarrow> bool" where
  "same_code u v \<longleftrightarrow> length (insn_flags v) = length (insn_flags u) \<and> dex_file v = dex_file u
     \<and> (\<forall>pc. opcode_at v pc = opcode_at u pc) \<and> (\<forall>pc. in_try v pc = in_try u pc)"

text \<open>Processing an instruction only adds marks.\<close>

definition grows :: "MethodVerifier \<Rightarrow> MethodVerifier \<Rightarrow> bool" where
  "grows u v \<longleftrightarrow> same_code u v \<and> (\<forall>pc. visited_at v pc = visited_at u pc) \<and> (\<forall>pc. changed_at u pc \<longrightarrow> changed_at v pc)"

lemma grows_refl [simp]: "grows v v"
  by (simp add: grows_def same_code_def)

lemma grows_trans: "grows u v \<Longrightarrow> grows v w \<Longrightarrow> grows u w"
  by (simp add: grows_def same_code_def)

lemma same_code_trans: "same_code u v \<Longrightarrow> same_code v w \<Longrightarrow> same_code u w"
  by (simp add: same_code_def)

lemma grows_started: "grows u v \<Longrightarrow> started u pc \<Longrightarrow> started v pc"
  by (auto simp: grows_def started_iff)

lemma update_flags_Some:
  "update_flags f pc v = Some v' \<longleftrightarrow>
     pc < length (insn_flags v) \<and> v' = v\<lparr>insn_flags := (insn_flags v)[pc := f (insn_flags v ! pc)]\<rparr>"
  by (auto simp: update_flags_def flags_at_def)

lemmas at_defs = opcode_at_def in_try_def visited_at_def changed_at_def

lemma SetChanged_grows: "update_flags SetChanged pc v = Some v' \<Longrightarrow> grows v v' \<and> started v' pc"
  by (auto simp: update_flags_Some grows_def same_code_def at_defs started_iff nth_list_update)

definition marks :: "'l flow_state \<Rightarrow> nat set \<Rightarrow> 'l flow_result \<Rightarrow> bool" where
  "marks s T r \<longleftrightarrow> (\<forall>s'. r = Some (True, s') \<longrightarrow> grows (verifier s) (verifier s')
     \<and> have_any_pending_runtime_throw_failure s' = have_any_pending_runtime_throw_failure s
     \<and> (\<forall>t \<in> T. started (verifier s') t))"

lemma marks_done: "marks s {} (Some (b, s))" and marks_fail: "marks s T (flow_fail s)" and marks_False: "marks s T (Some (False, u))"
  by (simp_all add: marks_def flow_fail_def)

lemma marks_bind: "(\<And>x. m = Some x \<Longrightarrow> marks s T (f x)) \<Longrightarrow> marks s T (m \<bind> f)"
  by (cases m) (simp_all add: marks_def)

lemma marks_if: "(b \<Longrightarrow> marks s T r) \<Longrightarrow> (\<not> b \<Longrightarrow> marks s T r') \<Longrightarrow> marks s T (if b then r else r')"
  by simp

lemma marks_mono: "marks s T r \<Longrightarrow> T' \<subseteq> T \<Longrightarrow> marks s T' r"
  by (auto simp: marks_def)

lemma marks_then:
  assumes "marks s T r" and "\<And>u. grows (verifier s) (verifier u) \<Longrightarrow> marks u T' (f u)"
  shows "marks s (T \<union> T') (and_flow r f)"
  unfolding marks_def
proof (intro allI impI)
  fix s'
  assume "and_flow r f = Some (True, s')"
  then obtain u where r: "r = Some (True, u)" and f: "f u = Some (True, s')"
    by (auto simp: and_flow_def bind_eq_Some_conv split: if_splits)
  from assms(1) r have u: "grows (verifier s) (verifier u)" "\<forall>t \<in> T. started (verifier u) t"
    "have_any_pending_runtime_throw_failure u = have_any_pending_runtime_throw_failure s"
    by (simp_all add: marks_def)
  with assms(2) f have s': "grows (verifier u) (verifier s')" "\<forall>t \<in> T'. started (verifier s') t"
    "have_any_pending_runtime_throw_failure s' = have_any_pending_runtime_throw_failure u"
    by (simp_all add: marks_def)
  with u grows_trans grows_started show "grows (verifier s) (verifier s')
      \<and> have_any_pending_runtime_throw_failure s' = have_any_pending_runtime_throw_failure s
      \<and> (\<forall>t \<in> T \<union> T'. started (verifier s') t)"
    by (metis Un_iff)
qed

lemma marks_check:
  assumes "marks s T (f s)" and "\<And>v'. chk (verifier s) = Some (True, v') \<Longrightarrow> v' = verifier s"
  shows "marks s T (and_flow (flow_check chk s) f)"
  unfolding marks_def
proof (intro allI impI)
  fix s'
  assume "and_flow (flow_check chk s) f = Some (True, s')"
  then obtain v' where "chk (verifier s) = Some (True, v')" and "f (s\<lparr>verifier := v'\<rparr>) = Some (True, s')"
    by (auto simp: and_flow_def flow_check_def bind_eq_Some_conv split: if_splits)
  with assms show "grows (verifier s) (verifier s')
      \<and> have_any_pending_runtime_throw_failure s' = have_any_pending_runtime_throw_failure s
      \<and> (\<forall>t \<in> T. started (verifier s') t)"
    by (simp add: marks_def)
qed

lemma move_checks:
  "CheckNotMoveException c i v = Some (True, v') \<Longrightarrow> v' = v"
  "CheckNotMoveExceptionOrMoveResult c i v = Some (True, v') \<Longrightarrow> v' = v"
  by (auto simp: CheckNotMoveExceptionOrMoveResult_def CheckNotMoveException_def CheckNotMoveResult_def bind_eq_Some_conv
      and_also_True split: if_splits)

lemma UpdateRegisters_marks: "marks s {t} (UpdateRegisters an t line b s)"
proof -
  have "grows (verifier s) (verifier s') \<and> have_any_pending_runtime_throw_failure s' = have_any_pending_runtime_throw_failure s
      \<and> started (verifier s') t" if upd: "UpdateRegisters an t line b s = Some (True, s')" for s'
  proof -
    from upd obtain x where x: "flags_at (verifier s) t = Some x" by (auto simp: UpdateRegisters_def bind_eq_Some_conv)
    define r where "r = (if \<not> IsVisitedOrChanged x
        then (let (ok, l) = copy_line an line (IsReturnFlag x) t (types s) in (ok, True, l))
        else merge_lines an line b t (types s))"
    obtain ok changed l where r: "r = (ok, changed, l)" by (cases r)
    from upd x r obtain v where v: "(if changed then update_flags SetChanged t (verifier s) else Some (verifier s)) = Some v"
      and s': "s' = s\<lparr>verifier := v, types := l\<rparr>"
      by (auto simp: UpdateRegisters_def bind_eq_Some_conv r_def [symmetric] split: if_splits)
    have "\<not> changed \<Longrightarrow> started (verifier s) t"
      using r x by (auto simp: r_def started_def flags_at_def split: if_splits prod.splits)
    with v SetChanged_grows [of t "verifier s" v] s' show ?thesis by (auto split: if_splits)
  qed
  then show ?thesis by (simp add: marks_def)
qed

section \<open>What one instruction marks\<close>

lemma flow_branch_marks:
  "marks s {unat (word_of_nat pc + off) | off x. flags AND kBranch \<noteq> 0 \<and> GetBranchOffset c (word_of_nat pc) = Some (Some (off, x))}
     (flow_branch an c pc flags s)"
proof -
  have "marks s {unat (word_of_nat pc + off)}
      (and_flow (flow_check (CheckNotMoveExceptionOrMoveResult c (unat (word_of_nat pc + off))) s)
        (\<lambda>s. UpdateRegisters an (unat (word_of_nat pc + off)) (if has_branch_line an (types s) then BranchLine else WorkLine) False s))" for off
    by (intro marks_check UpdateRegisters_marks) (rule move_checks)
  then show ?thesis
    unfolding flow_branch_def Let_def
    by (intro marks_if marks_bind) (auto intro: marks_fail marks_done elim!: marks_mono split: option.splits)
qed

lemma flow_switch_targets_marks:
  "marks s {unat (word_of_nat pc + off) | off i. i < n \<and> two_units (code_units c) (k + 2 * i) = Some off}
     (flow_switch_targets an c pc k n s)"
proof (induction n arbitrary: k s)
  case (Suc n)
  have set_eq: "{unat (word_of_nat pc + off) | off i. i < Suc n \<and> two_units (code_units c) (k + 2 * i) = Some off}
      \<subseteq> {unat (word_of_nat pc + off) | off. two_units (code_units c) k = Some off}
        \<union> {unat (word_of_nat pc + off) | off i. i < n \<and> two_units (code_units c) (k + 2 + 2 * i) = Some off}" (is "?A \<subseteq> ?B")
  proof
    fix t
    assume "t \<in> ?A"
    then obtain off i where "t = unat (word_of_nat pc + off)" "i < Suc n" "two_units (code_units c) (k + 2 * i) = Some off" by blast
    then show "t \<in> ?B" by (cases i) auto
  qed
  have "marks s ?B (flow_switch_targets an c pc k (Suc n) s)"
    unfolding flow_switch_targets.simps Let_def
    by (intro marks_bind marks_check move_checks marks_then Suc.IH) (auto intro: marks_mono [OF UpdateRegisters_marks])
  then show ?case using set_eq by (rule marks_mono)
qed (simp add: marks_done)

lemma flow_switch_marks:
  "marks s {unat (word_of_nat pc + off) | off op table count i. flags AND kSwitch \<noteq> 0 \<and> Opcode (code_units c) pc = Some op
       \<and> payload_at (code_units c) pc = Some table \<and> Fetch16 (code_units c) table 1 = Some count \<and> i < unat count
       \<and> switch_target (code_units c) (op = PACKED_SWITCH) table (unat count) i = Some off}
     (flow_switch an c pc flags s)"
  unfolding flow_switch_def Let_def
  by (intro marks_if marks_bind, rule marks_mono [OF flow_switch_targets_marks])
    (auto simp: payload_at_def VRegB_31t_def Fetch32_two_units switch_target_def Opcode_of_eq intro: marks_mono [OF marks_done])

lemma flow_handlers_grows:
  "flow_handlers an it b s = Some (True, b', s') \<Longrightarrow>
     grows (verifier s) (verifier s') \<and> have_any_pending_runtime_throw_failure s' = have_any_pending_runtime_throw_failure s"
proof (induction an it b s rule: flow_handlers.induct)
  case (1 an it b s)
  show ?case
  proof (cases "chi_HasNext it")
    case True
    with "1.prems" obtain u it1 where upd: "UpdateRegisters an (unat (handler_address it)) SavedLine False s = Some (True, u)"
      and it1: "chi_Next (begin_of (dex_file (verifier u))) it = Some it1"
      and rest: "flow_handlers an it1 (b \<or> handler_type_idx it = kDexNoIndex16 \<or> is_throwable an (handler_type_idx it)) u = Some (True, b', s')"
      by (subst (asm) flow_handlers.simps) (auto split: option.splits if_splits)
    from "1.IH" [OF True upd refl _ it1 rest] UpdateRegisters_marks [of s "unat (handler_address it)" an SavedLine False] upd
    show ?thesis by (auto simp: marks_def intro: grows_trans)
  next
    case False
    with "1.prems" show ?thesis by (subst (asm) flow_handlers.simps) simp
  qed
qed

lemma flow_handlers_marks:
  assumes "flow_handlers an it b s = Some (True, b', s')" and "chi_walk (begin_of (dex_file (verifier s))) it = Some (hs, e)"
  shows "grows (verifier s) (verifier s') \<and> have_any_pending_runtime_throw_failure s' = have_any_pending_runtime_throw_failure s
    \<and> (\<forall>h \<in> set hs. started (verifier s') (unat (snd h)))"
  using assms
proof (induction hs arbitrary: it b s)
  case Nil
  then have "\<not> chi_HasNext it" using chi_walk_cases by fastforce
  with Nil.prems(1) show ?case by (subst (asm) flow_handlers.simps) simp
next
  case (Cons h hs)
  from chi_walk_cases [OF Cons.prems(2)] obtain it' where has: "chi_HasNext it"
    and nxt: "chi_Next (begin_of (dex_file (verifier s))) it = Some it'" "chi_walk (begin_of (dex_file (verifier s))) it' = Some (hs, e)"
    and h: "h = (handler_type_idx it, handler_address it)"
    by auto
  from Cons.prems(1) has obtain u it1 b1 where upd: "UpdateRegisters an (unat (handler_address it)) SavedLine False s = Some (True, u)"
    and it1: "chi_Next (begin_of (dex_file (verifier u))) it = Some it1" and rest: "flow_handlers an it1 b1 u = Some (True, b', s')"
    by (subst (asm) flow_handlers.simps) (auto split: option.splits if_splits)
  from upd UpdateRegisters_marks [of s "unat (handler_address it)" an SavedLine False] have
    u: "grows (verifier s) (verifier u)" "started (verifier u) (unat (handler_address it))"
    "have_any_pending_runtime_throw_failure u = have_any_pending_runtime_throw_failure s"
    by (simp_all add: marks_def)
  then have "dex_file (verifier u) = dex_file (verifier s)" by (simp add: grows_def same_code_def)
  with Cons.IH [OF rest] nxt it1 have "grows (verifier u) (verifier s')"
    "have_any_pending_runtime_throw_failure s' = have_any_pending_runtime_throw_failure u"
    "\<forall>h \<in> set hs. started (verifier s') (unat (snd h))"
    by simp_all
  moreover from this(1) u(2) have "started (verifier s') (unat (snd h))" by (simp add: h grows_started)
  moreover from u(1) calculation(1) have "grows (verifier s) (verifier s')" by (rule grows_trans)
  ultimately show ?case using u(3) by simp
qed

lemma flow_throw_marks:
  "marks s {unat (snd h) | h it hs e. flags AND kThrow \<noteq> 0 \<and> in_try (verifier s) pc
       \<and> make_CatchHandlerIterator 0 (dex_file (verifier s)) (code_item_ptr c) (word_of_nat pc) = Some it
       \<and> chi_walk (begin_of (dex_file (verifier s))) it = Some (hs, e) \<and> h \<in> set hs}
     (flow_throw an c pc op flags s)"
  unfolding marks_def
proof (intro allI impI)
  fix s'
  assume run: "flow_throw an c pc op flags s = Some (True, s')"
  then obtain x where x: "flags_at (verifier s) pc = Some x" by (auto simp: flow_throw_def bind_eq_Some_conv)
  then have tr: "in_try (verifier s) pc \<longleftrightarrow> IsInTry x" by (auto simp: in_try_def flags_at_def split: if_splits)
  show "grows (verifier s) (verifier s') \<and> have_any_pending_runtime_throw_failure s' = have_any_pending_runtime_throw_failure s
    \<and> (\<forall>t \<in> {unat (snd h) | h it hs e. flags AND kThrow \<noteq> 0 \<and> in_try (verifier s) pc
       \<and> make_CatchHandlerIterator 0 (dex_file (verifier s)) (code_item_ptr c) (word_of_nat pc) = Some it
       \<and> chi_walk (begin_of (dex_file (verifier s))) it = Some (hs, e) \<and> h \<in> set hs}. started (verifier s') t)"
  proof (cases "flags AND kThrow \<noteq> 0 \<and> IsInTry x")
    case True
    with run x obtain it b where it: "make_CatchHandlerIterator 0 (dex_file (verifier s)) (code_item_ptr c) (word_of_nat pc) = Some it"
      and hs: "flow_handlers an it False s = Some (True, b, s')"
      by (auto simp: flow_throw_def bind_eq_Some_conv flow_fail_def split: if_splits)
    have "grows (verifier s) (verifier s') \<and> have_any_pending_runtime_throw_failure s' = have_any_pending_runtime_throw_failure s"
      by (rule flow_handlers_grows [OF hs])
    moreover have "started (verifier s') (unat (snd h))"
      if "make_CatchHandlerIterator 0 (dex_file (verifier s)) (code_item_ptr c) (word_of_nat pc) = Some it'"
        "chi_walk (begin_of (dex_file (verifier s))) it' = Some (hs, e)" "h \<in> set hs" for h it' hs e
      using flow_handlers_marks [OF hs, of _ e] that it by simp
    ultimately show ?thesis by blast
  next
    case False
    with run x tr show ?thesis by (auto simp: flow_throw_def)
  qed
qed

lemma flow_continue_marks:
  "marks s {unat (word_of_nat pc + (word_of_nat n :: u32)) | n. flags AND kContinue \<noteq> 0 \<and> SizeInCodeUnits (code_units c) pc = Some n}
     (flow_continue an c pc flags s)"
proof -
  have upd: "marks s {t} (do {
      v \<leftarrow> update_flags SetChanged t (verifier s);
      Some (True, s\<lparr>types := l, verifier := v\<rparr>) })" for t l
    using SetChanged_grows [of t "verifier s"] by (auto simp: marks_def bind_eq_Some_conv)
  have types: "marks s T r" if "marks (s\<lparr>types := l\<rparr>) T r" for T r l
    using that by (simp add: marks_def)
  have step: "marks s {t} (and_flow (flow_check (CheckNotMoveException c t) s) (\<lambda>s. do {
      x \<leftarrow> flags_at (verifier s) t;
      let s = s\<lparr>types := prepare_next an (IsReturnFlag x) t (types s)\<rparr>;
      (if has_line an t (types s) then UpdateRegisters an t WorkLine True s
       else do { v \<leftarrow> update_flags SetChanged t (verifier s); Some (True, s\<lparr>verifier := v\<rparr>) }) }))" for t
    unfolding Let_def
    by (rule marks_check, rule marks_bind, rule marks_if, rule types, rule UpdateRegisters_marks, simp add: upd, erule move_checks)
  show ?thesis
    unfolding flow_continue_def Let_def [of "word_of_nat pc + word_of_nat _"]
    by (intro marks_if marks_bind marks_fail marks_mono [OF step]) (auto intro: marks_mono [OF marks_done])
qed

lemma flow_return_marks: "marks s {} (flow_return an flags s)"
  by (simp add: flow_return_def marks_fail marks_done)

section \<open>The walk covers the control flow\<close>

text \<open>Where the verifier expects the instruction at \<open>pc\<close> to continue.\<close>

definition verifier_flow :: "CodeItem \<Rightarrow> MethodVerifier \<Rightarrow> nat \<Rightarrow> nat \<Rightarrow> bool" where
  "verifier_flow c v pc j \<longleftrightarrow> next_insn c pc j \<or> branch_to c pc j \<or> switch_to c pc j
     \<or> caught_at c (dex_file v) pc j \<and> in_try v pc \<and> Opcode (code_units c) pc \<noteq> Some MONITOR_EXIT"

lemma relative_word:
  assumes "RelativeAt pc off = Some j" and "pc < 2 ^ 31"
  shows "unat (word_of_nat pc + off :: u32) = j"
proof -
  have j: "int j = int pc + sint off" using assms(1) by (auto simp: RelativeAt_def split: if_splits)
  have "word_of_nat pc + off = word_of_int (int j)" by (simp add: j)
  moreover have "j < 2 ^ 32" using j assms(2) sint_lt [of off] by simp
  ultimately show ?thesis by (simp add: unat_of_nat take_bit_nat_eq_self)
qed

lemma FlagsOf_bits: "IsBranch op \<longleftrightarrow> FlagsOf op AND kBranch \<noteq> 0" "IsSwitch op \<longleftrightarrow> FlagsOf op AND kSwitch \<noteq> 0"
  "IsThrow op \<longleftrightarrow> FlagsOf op AND kThrow \<noteq> 0"
  by (simp_all add: IsBranch_def IsSwitch_def IsThrow_def FlagsOf_def)

lemma data_signature: "at_data c pc \<Longrightarrow> Fetch16 (code_units c) pc 0 = Some w \<Longrightarrow> Opcode_of w = NOP \<and> VRegA_10x w \<noteq> 0"
  by (auto simp: at_data_def Opcode_of_def VRegA_10x_def InstAA_def)

lemma result_True:
  "r \<bind> (\<lambda>(ok, u). if \<not> ok then Some (False, g, u) else m \<bind> (\<lambda>g. Some (True, g, u))) = Some (True, g', s') \<Longrightarrow> r = Some (True, s')"
  by (auto simp: bind_eq_Some_conv split: if_splits)

lemma instruction_stages:
  assumes "CodeFlowVerifyInstruction an c pc g s = Some (True, g', s')"
  obtains w throws s0 s1 s2 s3 s4 flags where "Fetch16 (code_units c) pc 0 = Some w" and "\<not> (Opcode_of w = NOP \<and> VRegA_10x w \<noteq> 0)"
    and "flags = (if throws then kThrow else if Opcode_of w = MONITOR_EXIT then FlagsOf (Opcode_of w) AND NOT kThrow else FlagsOf (Opcode_of w))"
    and "verifier s0 = verifier s"
    and "have_any_pending_runtime_throw_failure s0 \<longleftrightarrow> have_any_pending_runtime_throw_failure s \<or> throws"
    and "flow_branch an c pc flags s0 = Some (True, s1)" and "flow_switch an c pc flags s1 = Some (True, s2)"
    and "flow_throw an c pc (Opcode_of w) flags s2 = Some (True, s3)" and "flow_continue an c pc flags s3 = Some (True, s4)"
    and "flow_return an flags s4 = Some (True, s')"
proof -
  from assms obtain w where w: "Fetch16 (code_units c) pc 0 = Some w"
    by (auto simp: CodeFlowVerifyInstruction_def bind_eq_Some_conv)
  obtain hard throws l where t: "type_instruction an pc (types s) = (hard, throws, l)" by (cases "type_instruction an pc (types s)")
  let ?flags = "if throws then kThrow else if Opcode_of w = MONITOR_EXIT then FlagsOf (Opcode_of w) AND NOT kThrow else FlagsOf (Opcode_of w)"
  let ?s0 = "s\<lparr>types := l, have_any_pending_runtime_throw_failure := have_any_pending_runtime_throw_failure (s\<lparr>types := l\<rparr>) \<or> throws\<rparr>"
  let ?r = "and_flow (and_flow (and_flow (and_flow (flow_branch an c pc ?flags ?s0) (flow_switch an c pc ?flags))
      (flow_throw an c pc (Opcode_of w) ?flags)) (flow_continue an c pc ?flags)) (flow_return an ?flags)"
  let ?bad = "Opcode_of w = NOP \<and> VRegA_10x w \<noteq> 0 \<or> hard"
  have run: "(if ?bad then Some (False, g, s\<lparr>types := l, verifier := Fail (verifier (s\<lparr>types := l\<rparr>))\<rparr>)
      else ?r \<bind> (\<lambda>(ok, u). if \<not> ok then Some (False, g, u) else guess_after c pc ?flags g \<bind> (\<lambda>g. Some (True, g, u))))
      = Some (True, g', s')"
    using assms by (simp only: CodeFlowVerifyInstruction_def w t Let_def Option.bind.simps prod.case)
  then have ok: "\<not> ?bad" by (cases ?bad) simp_all
  with run have "?r \<bind> (\<lambda>(ok, u). if \<not> ok then Some (False, g, u) else guess_after c pc ?flags g \<bind> (\<lambda>g. Some (True, g, u)))
      = Some (True, g', s')"
    by (simp only: if_False)
  then have stages: "?r = Some (True, s')" by (rule result_True)
  from stages obtain s1 s2 s3 s4 where "flow_branch an c pc ?flags ?s0 = Some (True, s1)" "flow_switch an c pc ?flags s1 = Some (True, s2)"
    "flow_throw an c pc (Opcode_of w) ?flags s2 = Some (True, s3)" "flow_continue an c pc ?flags s3 = Some (True, s4)"
    "flow_return an ?flags s4 = Some (True, s')"
    unfolding and_flow_True by blast
  with ok show thesis by (intro that [OF w _ refl, where throws = throws and ?s0.0 = ?s0]) simp_all
qed

lemma instruction_marks:
  assumes "CodeFlowVerifyInstruction an c pc g s = Some (True, g', s')" and "same_code v1 (verifier s)" and "pc < 2 ^ 31"
  shows "grows (verifier s) (verifier s')
    \<and> (have_any_pending_runtime_throw_failure s \<longrightarrow> have_any_pending_runtime_throw_failure s')
    \<and> (\<not> have_any_pending_runtime_throw_failure s' \<longrightarrow>
         \<not> at_data c pc \<and> (\<forall>j. verifier_flow c v1 pc j \<longrightarrow> started (verifier s') j))"
proof (rule instruction_stages [OF assms(1)])
  fix w throws s0 s1 s2 s3 s4 flags
  assume w: "Fetch16 (code_units c) pc 0 = Some w" "\<not> (Opcode_of w = NOP \<and> VRegA_10x w \<noteq> 0)"
    and flags: "flags = (if throws then kThrow else if Opcode_of w = MONITOR_EXIT then FlagsOf (Opcode_of w) AND NOT kThrow else FlagsOf (Opcode_of w))"
    and s0: "verifier s0 = verifier s" "have_any_pending_runtime_throw_failure s0 \<longleftrightarrow> have_any_pending_runtime_throw_failure s \<or> throws"
    and 1: "flow_branch an c pc flags s0 = Some (True, s1)" and 2: "flow_switch an c pc flags s1 = Some (True, s2)"
    and 3: "flow_throw an c pc (Opcode_of w) flags s2 = Some (True, s3)" and 4: "flow_continue an c pc flags s3 = Some (True, s4)"
    and 5: "flow_return an flags s4 = Some (True, s')"
  note m1 = flow_branch_marks [unfolded marks_def, rule_format, OF 1]
    and m2 = flow_switch_marks [unfolded marks_def, rule_format, OF 2]
    and m3 = flow_throw_marks [unfolded marks_def, rule_format, OF 3]
    and m4 = flow_continue_marks [unfolded marks_def, rule_format, OF 4]
    and m5 = flow_return_marks [unfolded marks_def, rule_format, OF 5]
  have g: "grows (verifier s) (verifier s1)" "grows (verifier s1) (verifier s2)" "grows (verifier s2) (verifier s3)"
    "grows (verifier s3) (verifier s4)" "grows (verifier s4) (verifier s')"
    using m1 m2 m3 m4 m5 s0(1) by simp_all
  have g4: "grows (verifier s1) (verifier s')" "grows (verifier s2) (verifier s')" "grows (verifier s3) (verifier s')"
    using g grows_trans by blast+
  have any: "have_any_pending_runtime_throw_failure s' \<longleftrightarrow> have_any_pending_runtime_throw_failure s \<or> throws"
    using m1 m2 m3 m4 m5 s0(2) by simp
  have op: "Opcode (code_units c) pc = Some (Opcode_of w)" using w(1) by (rule Opcode_of_eq)
  have nodata: "\<not> at_data c pc" using data_signature w by blast
  have "started (verifier s') j" if "\<not> throws" and f: "verifier_flow c v1 pc j" for j
  proof -
    have bits: "flags AND kBranch = FlagsOf (Opcode_of w) AND kBranch" "flags AND kSwitch = FlagsOf (Opcode_of w) AND kSwitch"
      "flags AND kContinue = FlagsOf (Opcode_of w) AND kContinue"
      "Opcode_of w \<noteq> MONITOR_EXIT \<Longrightarrow> flags AND kThrow = FlagsOf (Opcode_of w) AND kThrow"
      using that(1) by (simp_all add: flags and.assoc)
    from f consider "next_insn c pc j" | "branch_to c pc j" | "switch_to c pc j"
      | "caught_at c (dex_file v1) pc j" "in_try v1 pc" "Opcode_of w \<noteq> MONITOR_EXIT"
      using op by (auto simp: verifier_flow_def)
    then show ?thesis
    proof cases
      case 1
      then have fl: "CanFlowThrough (Opcode_of w)" and j: "j = pc + format_size (FormatOf (Opcode_of w))"
        using op by (auto simp: next_insn_def)
      from 4 fl bits obtain n where n: "SizeInCodeUnits (code_units c) pc = Some n"
        by (auto simp: flow_continue_def CanFlowThrough_def bind_eq_Some_conv)
      from size_of_format [OF n w(1) nodata] j have jn: "j = pc + n" by simp
      have "format_size (FormatOf (Opcode_of w)) \<le> 5" by (cases "FormatOf (Opcode_of w)") simp_all
      with j assms(3) have "j < 2 ^ 32" by simp
      with jn have "unat (word_of_nat pc + word_of_nat n :: u32) = j" by (simp add: unat_of_nat take_bit_nat_eq_self flip: of_nat_add)
      with m4 n fl bits have "started (verifier s4) j" by (auto simp: CanFlowThrough_def)
      then show ?thesis using g(5) grows_started by blast
    next
      case 2
      then obtain off where br: "IsBranch (Opcode_of w)" and off: "GetTargetOffset (code_units c) pc = Some off" "RelativeAt pc off = Some j"
        using op by (auto simp: branch_to_def)
      from br bits have "flags AND kBranch \<noteq> 0" by (simp add: FlagsOf_bits)
      with 1 obtain off' x where b: "GetBranchOffset c (word_of_nat pc) = Some (Some (off', x))"
        by (auto simp: flow_branch_def bind_eq_Some_conv flow_fail_def split: option.splits)
      have "unat (word_of_nat pc :: u32) = pc" using assms(3) by (simp add: unat_word_of_nat_u32)
      with GetBranchOffset_target [OF b] op extra_flags_of(1) [OF br] off(1) have "off' = off" by simp
      with relative_word [OF off(2) assms(3)] b \<open>flags AND kBranch \<noteq> 0\<close> m1 have "started (verifier s1) j" by blast
      then show ?thesis using g4(1) grows_started by blast
    next
      case 3
      then obtain table count i off where "IsSwitch (Opcode_of w)" and sw: "payload_at (code_units c) pc = Some table"
        "Fetch16 (code_units c) table 1 = Some count" "i < unat count"
        "switch_target (code_units c) (Opcode_of w = PACKED_SWITCH) table (unat count) i = Some off" "RelativeAt pc off = Some j"
        using op by (auto simp: switch_to_def)
      with bits have "flags AND kSwitch \<noteq> 0" by (simp add: FlagsOf_bits)
      with relative_word [OF sw(5) assms(3)] sw op m2 have "started (verifier s2) j" by blast
      then show ?thesis using g4(2) grows_started by blast
    next
      case 4
      have "same_code (verifier s) (verifier s2)" using grows_trans [OF g(1,2)] by (simp add: grows_def)
      with assms(2) have "same_code v1 (verifier s2)" by (rule same_code_trans)
      then have d: "dex_file v1 = dex_file (verifier s2)" "in_try (verifier s2) pc" using 4(2) by (simp_all add: same_code_def)
      from 4(1,3) op bits have "flags AND kThrow \<noteq> 0" by (auto simp: caught_at_def throws_at_def FlagsOf_bits)
      moreover obtain it hs e h where "make_CatchHandlerIterator 0 (dex_file v1) (code_item_ptr c) (word_of_nat pc) = Some it"
        "chi_walk (begin_of (dex_file v1)) it = Some (hs, e)" "h \<in> set hs" "j = unat (snd h)"
        using 4(1) by (auto simp: caught_at_def)
      ultimately have "j \<in> {unat (snd h) | h it hs e. flags AND kThrow \<noteq> 0 \<and> in_try (verifier s2) pc
       \<and> make_CatchHandlerIterator 0 (dex_file (verifier s2)) (code_item_ptr c) (word_of_nat pc) = Some it
       \<and> chi_walk (begin_of (dex_file (verifier s2))) it = Some (hs, e) \<and> h \<in> set hs}"
        using d by (cases h) auto
      with m3 have "started (verifier s3) j" by blast
      then show ?thesis using g4(3) grows_started by blast
    qed
  qed
  moreover have "grows (verifier s) (verifier s')" using g(1) g4(1) by (rule grows_trans)
  ultimately show ?thesis using any nodata by simp
qed

section \<open>The invariant of the work list\<close>

text \<open>A visited instruction is not a data table, and wherever it may continue is visited or still to be visited.\<close>

definition walk_inv :: "CodeItem \<Rightarrow> MethodVerifier \<Rightarrow> 'l flow_state \<Rightarrow> bool" where
  "walk_inv c v1 s \<longleftrightarrow> same_code v1 (verifier s) \<and> started (verifier s) 0
     \<and> (\<not> have_any_pending_runtime_throw_failure s \<longrightarrow> (\<forall>pc. visited_at (verifier s) pc \<longrightarrow>
          \<not> at_data c pc \<and> (\<forall>j. verifier_flow c v1 pc j \<longrightarrow> started (verifier s) j)))"

lemma visit_flags:
  assumes "update_flags SetVisited pc v = Some u" and "update_flags ClearChanged pc u = Some w"
  shows "same_code v w \<and> (\<forall>q. visited_at w q \<longleftrightarrow> visited_at v q \<or> q = pc) \<and> (\<forall>q. started v q \<longrightarrow> started w q)"
  using assms by (auto simp: update_flags_Some same_code_def at_defs started_iff nth_list_update)

lemma visit_inv:
  assumes "visit an c pc g s = Some (True, g', s')" and "walk_inv c v1 s" and "pc < 2 ^ 31"
  shows "walk_inv c v1 s'"
proof -
  from assms(1) obtain x where x: "flags_at (verifier s) pc = Some x" by (auto simp: visit_def bind_eq_Some_conv)
  define s0 where "s0 = (if IsBranchTarget x then s\<lparr>types := load_line an pc (types s)\<rparr> else s)"
  have s: "verifier s0 = verifier s" "have_any_pending_runtime_throw_failure s0 = have_any_pending_runtime_throw_failure s"
    by (simp_all add: s0_def)
  have "do {
     (ok, g, s) \<leftarrow> CodeFlowVerifyInstruction an c pc g s0;
     (if \<not> ok then Some (False, g, s)
      else do {
        v \<leftarrow> update_flags SetVisited pc (verifier s);
        v \<leftarrow> update_flags ClearChanged pc v;
        Some (True, g, s\<lparr>verifier := v\<rparr>) }) } = Some (True, g', s')"
    using assms(1) by (simp only: visit_def x Let_def Option.bind.simps s0_def)
  then obtain t u w where t: "CodeFlowVerifyInstruction an c pc g s0 = Some (True, g', t)"
    and u: "update_flags SetVisited pc (verifier t) = Some u" "update_flags ClearChanged pc u = Some w" and s': "s' = t\<lparr>verifier := w\<rparr>"
    by (auto simp: bind_eq_Some_conv split: if_splits)
  have same: "same_code v1 (verifier s)" using assms(2) by (simp add: walk_inv_def)
  have t': "grows (verifier s) (verifier t)" "have_any_pending_runtime_throw_failure s \<longrightarrow> have_any_pending_runtime_throw_failure t"
    "\<not> have_any_pending_runtime_throw_failure t \<longrightarrow> \<not> at_data c pc \<and> (\<forall>j. verifier_flow c v1 pc j \<longrightarrow> started (verifier t) j)"
    using instruction_marks [OF t _ assms(3), of v1] same s by auto
  note w = visit_flags [OF u]
  have "same_code v1 (verifier t)" using same t'(1) same_code_trans by (simp add: grows_def)
  with w have "same_code v1 w" using same_code_trans by blast
  moreover have "started w 0" using assms(2) t'(1) w grows_started by (auto simp: walk_inv_def)
  moreover have "\<not> at_data c q \<and> (\<forall>j. verifier_flow c v1 q j \<longrightarrow> started w j)"
    if "\<not> have_any_pending_runtime_throw_failure t" and q: "visited_at w q" for q
  proof (cases "q = pc")
    case True
    with t'(3) that w show ?thesis by blast
  next
    case False
    with q w t'(1) have "visited_at (verifier s) q" by (auto simp: grows_def)
    with assms(2) t'(2) that(1) have "\<not> at_data c q \<and> (\<forall>j. verifier_flow c v1 q j \<longrightarrow> started (verifier s) j)"
      by (auto simp: walk_inv_def)
    with t'(1) w grows_started show ?thesis by blast
  qed
  ultimately show ?thesis by (simp add: walk_inv_def s')
qed

lemma find_changed_none: "find_changed v n i = Some n \<Longrightarrow> i \<le> pc \<Longrightarrow> pc < n \<Longrightarrow> \<not> changed_at v pc"
proof (induction v n i rule: find_changed.induct)
  case (1 v n i)
  then have "i < n" by simp
  with "1.prems"(1) obtain x where x: "flags_at v i = Some x" "\<not> IsChanged x" "find_changed v n (i + 1) = Some n"
    by (subst (asm) find_changed.simps) (auto split: option.splits if_splits)
  show ?case
  proof (cases "i = pc")
    case True
    with x show ?thesis by (auto simp: changed_at_def flags_at_def)
  next
    case False
    with "1.IH" [OF \<open>i < n\<close> x(1,2,3)] "1.prems"(2,3) show ?thesis by simp
  qed
qed

lemma flow_loop_inv:
  assumes "flow_loop an c g s = Some (True, s')" and "walk_inv c v1 s"
    and "unat (insns_size_in_code_units c) < 2 ^ 31" and "length (insn_flags v1) = unat (insns_size_in_code_units c)"
  shows "walk_inv c v1 s' \<and> (\<forall>pc. \<not> changed_at (verifier s') pc)"
proof -
  define P where "P c r s \<longleftrightarrow> (fst r \<longrightarrow> walk_inv c v1 s \<longrightarrow> unat (insns_size_in_code_units c) < 2 ^ 31 \<longrightarrow>
    length (insn_flags v1) = unat (insns_size_in_code_units c) \<longrightarrow>
    walk_inv c v1 (snd r) \<and> (\<forall>pc. \<not> changed_at (verifier (snd r)) pc))" for c and r :: "bool \<times> 'a flow_state" and s :: "'a flow_state"
  have "P c (True, s') s"
  proof (rule flow_loop.raw_induct [OF _ assms(1), of "\<lambda>an c g s r. P c r s"])
    fix rec and an :: "'a type_analysis" and c g s r
    assume IH: "\<And>an c g s r. rec an c g s = Some r \<Longrightarrow> P c r s"
      and run: "(let insns_size = unat (insns_size_in_code_units c) in do {
         insn_idx \<leftarrow> find_changed (verifier s) insns_size g;
         (if insn_idx = insns_size
          then if g \<noteq> 0 then rec an c 0 s else Some (True, s)
          else do {
            (ok, g, s) \<leftarrow> visit an c insn_idx g s;
            (if \<not> ok then Some (False, s) else rec an c g s)
          }) }) = Some r"
    then obtain i where i: "find_changed (verifier s) (unat (insns_size_in_code_units c)) g = Some i"
      by (auto simp: Let_def bind_eq_Some_conv)
    consider "i = unat (insns_size_in_code_units c)" "g \<noteq> 0" | "i = unat (insns_size_in_code_units c)" "g = 0"
      | "i \<noteq> unat (insns_size_in_code_units c)" by blast
    then show "P c r s"
    proof cases
      case 1
      with run i have "rec an c 0 s = Some r" by (simp add: Let_def)
      then show ?thesis by (rule IH)
    next
      case 2
      with run i have r: "r = (True, s)" by (simp add: Let_def)
      show ?thesis
        unfolding P_def r
        using find_changed_none [of "verifier s" i 0] i 2
        by (auto simp: walk_inv_def same_code_def changed_at_def)
    next
      case 3
      with run i obtain ok g' t where v: "visit an c i g s = Some (ok, g', t)"
        and rest: "(if \<not> ok then Some (False, t) else rec an c g' t) = Some r"
        by (auto simp: Let_def bind_eq_Some_conv)
      show ?thesis
      proof (cases ok)
        case True
        from v have "i < length (insn_flags (verifier s))" by (auto simp: visit_def flags_at_def bind_eq_Some_conv split: if_splits)
        then have "walk_inv c v1 s \<Longrightarrow> unat (insns_size_in_code_units c) < 2 ^ 31 \<Longrightarrow>
            length (insn_flags v1) = unat (insns_size_in_code_units c) \<Longrightarrow> walk_inv c v1 t"
          using visit_inv [of an c i g s g' t v1] v True by (simp add: walk_inv_def same_code_def)
        with IH [of an c g' t r] rest True show ?thesis unfolding P_def by simp
      next
        case False
        with rest show ?thesis by (auto simp: P_def)
      qed
    qed
  qed
  with assms(2-4) show ?thesis by (simp add: P_def)
qed

text \<open>What the pass accepts: a set of instructions with the first one in it and closed under the control flow.\<close>

lemma CodeFlowVerifyMethod_closed:
  assumes "CodeFlowVerifyMethod an c s = Some (True, s')" and "\<not> have_any_pending_runtime_throw_failure s'"
    and "unat (insns_size_in_code_units c) < 2 ^ 31" and "length (insn_flags (verifier s)) = unat (insns_size_in_code_units c)"
    and "\<forall>pc. \<not> started (verifier s) pc"
  shows "visited_at (verifier s') 0 \<and> same_code (verifier s) (verifier s')
    \<and> (\<forall>pc. visited_at (verifier s') pc \<longrightarrow> \<not> at_data c pc \<and> (\<forall>j. verifier_flow c (verifier s) pc j \<longrightarrow> visited_at (verifier s') j))"
proof -
  from assms(1) obtain v where v: "update_flags SetChanged 0 (verifier s) = Some v"
    and loop: "flow_loop an c 0 (s\<lparr>verifier := v\<rparr>) = Some (True, s')"
    by (auto simp: CodeFlowVerifyMethod_def bind_eq_Some_conv)
  have "walk_inv c (verifier s) (s\<lparr>verifier := v\<rparr>)"
    using SetChanged_grows [OF v] assms(5) by (auto simp: walk_inv_def grows_def started_iff)
  from flow_loop_inv [OF loop this assms(3,4)] assms(2) show ?thesis by (auto simp: walk_inv_def started_iff)
qed

section \<open>Running accepted code\<close>

text \<open>Both passes accept the method, without a failure that is left to run time.\<close>

definition accepted :: "MethodVerifier \<Rightarrow> CodeItem \<Rightarrow> 'l type_analysis \<Rightarrow> 'l \<Rightarrow> 'l flow_state \<Rightarrow> bool" where
  "accepted v c an l s' \<longleftrightarrow> code_item v = Some c \<and> code_tries_size (dex_file v) (code_item_ptr c) = Some (tries_size c)
     \<and> (\<exists>v1. Verify v = Some (True, v1)
          \<and> CodeFlowVerifyMethod an c \<lparr>verifier = v1, types = l, have_any_pending_runtime_throw_failure = False\<rparr> = Some (True, s'))
     \<and> \<not> have_any_pending_runtime_throw_failure s'"

text \<open>
  A method both passes accept, and an interpreter that runs it without access checks in the file the verifier
  read, with a runtime that keeps frame and code.
\<close>

definition sound_accepted :: "MethodVerifier \<Rightarrow> CodeItem \<Rightarrow> 'l type_analysis \<Rightarrow> 'l \<Rightarrow> 'l flow_state \<Rightarrow> 'w config \<Rightarrow> bool" where
  "sound_accepted v c an l s' cfg \<longleftrightarrow> accepted v c an l s' \<and> sound_run c cfg \<and> method_dex_file cfg = dex_file v"

text \<open>
  The pass does not follow the catch handlers of a \<open>monitor-exit\<close>, by a comment because its exceptions are
  impossible in verified code. A turn from one instruction to another that does not enter such a handler:
\<close>

definition quiet_exit :: "CodeItem \<Rightarrow> nat \<Rightarrow> nat \<Rightarrow> bool" where
  "quiet_exit c i j \<longleftrightarrow> (Opcode (code_units c) i = Some MONITOR_EXIT \<longrightarrow> next_insn c i j)"

lemma accepted_closed:
  assumes "sound_accepted v c an l s' cfg"
  shows "visited_at (verifier s') 0" and "length (insn_flags (verifier s')) = unat (insns_size_in_code_units c)"
    and "visited_at (verifier s') pc \<Longrightarrow> \<not> at_data c pc"
    and "visited_at (verifier s') pc \<Longrightarrow> flow c (dex_file v) pc j \<Longrightarrow> quiet_exit c pc j \<Longrightarrow> visited_at (verifier s') j"
proof -
  have run: "sound_run c cfg" "method_dex_file cfg = dex_file v" using assms by (simp_all add: sound_accepted_def)
  from assms obtain v1 where c: "code_item v = Some c" "code_tries_size (dex_file v) (code_item_ptr c) = Some (tries_size c)"
    and v1: "Verify v = Some (True, v1)" "\<not> have_any_pending_runtime_throw_failure s'"
    and cf: "CodeFlowVerifyMethod an c \<lparr>verifier = v1, types = l, have_any_pending_runtime_throw_failure = False\<rparr> = Some (True, s')"
    by (auto simp: sound_accepted_def accepted_def)
  have n: "unat (insns_size_in_code_units c) < 2 ^ 31" using run(1) by (simp add: sound_run_def)
  note f = Verify_flags [OF v1(1) c(1) n]
  have closed: "visited_at (verifier s') 0" "same_code v1 (verifier s')"
    "\<forall>pc. visited_at (verifier s') pc \<longrightarrow> \<not> at_data c pc \<and> (\<forall>j. verifier_flow c v1 pc j \<longrightarrow> visited_at (verifier s') j)"
    using CodeFlowVerifyMethod_closed [OF cf v1(2) n] f by simp_all
  have edge: "verifier_flow c v1 pc j" if "flow c (dex_file v) pc j" "quiet_exit c pc j" for pc j
  proof (cases "caught_at c (dex_file v) pc j")
    case True
    then obtain it hs e h where it: "make_CatchHandlerIterator 0 (dex_file v) (code_item_ptr c) (word_of_nat pc) = Some it"
      and hs: "chi_walk (begin_of (dex_file v)) it = Some (hs, e)" "h \<in> set hs" and pc: "insn_start c pc"
      by (auto simp: caught_at_def throws_at_def)
    from chi_walk_cases [OF hs(1)] hs(2) have "chi_HasNext it" by auto
    from Verify_marks_tries [OF v1(1) c(1) n c(2) pc it this] have "in_try v1 pc" .
    with True f that(2) show ?thesis by (auto simp: verifier_flow_def quiet_exit_def)
  next
    case False
    with that show ?thesis by (auto simp: flow_def verifier_flow_def)
  qed
  show "visited_at (verifier s') j" if "visited_at (verifier s') pc" "flow c (dex_file v) pc j" "quiet_exit c pc j"
    using edge [OF that(2,3)] closed(3) that(1) by blast
  show "visited_at (verifier s') 0" by (rule closed(1))
  show "length (insn_flags (verifier s')) = unat (insns_size_in_code_units c)" using closed(2) f by (simp add: same_code_def)
  show "visited_at (verifier s') pc \<Longrightarrow> \<not> at_data c pc" using closed(3) by blast
qed

lemma accepted_turn:
  fixes cfg :: "'w config"
  assumes "sound_accepted v c an l s' cfg" and "visited_at (verifier s') pc" and "insn_start c pc" and "running c s"
  shows "\<exists>op r. Opcode (code_units c) pc = Some op \<and> step cfg hash1 pc s = Some r \<and> (r = Fatal \<longrightarrow> may_abort op)
    \<and> (\<forall>j t. r = Continue j t \<longrightarrow> flow c (dex_file v) pc j \<and> running c t
         \<and> (quiet_exit c pc j \<longrightarrow> insn_start c j \<and> visited_at (verifier s') j))"
proof -
  have run: "sound_run c cfg" and dex: "method_dex_file cfg = dex_file v" using assms(1) by (simp_all add: sound_accepted_def)
  note closed = accepted_closed [OF assms(1)]
  obtain v1 where v1: "Verify v = Some (True, v1)" "code_item v = Some c" using assms(1) by (auto simp: sound_accepted_def accepted_def)
  from assms(2) have "\<not> at_data c pc" by (rule closed(3))
  with accepted_instruction [OF v1 run assms(3)] obtain d where d: "verified_at c pc d" by blast
  from step_safe [OF run d assms(4), of hash1] obtain r where r: "step cfg hash1 pc s = Some r"
    "outcome_ok c (method_dex_file cfg) pc (may_abort (Opcode_of d)) r"
    by (auto simp: holds_def)
  have "flow c (dex_file v) pc j \<and> running c t \<and> (quiet_exit c pc j \<longrightarrow> insn_start c j \<and> visited_at (verifier s') j)"
    if "r = Continue j t" for j t
  proof -
    from r(2) that dex have f: "flow c (dex_file v) pc j" "running c t" by simp_all
    have "insn_start c j \<and> visited_at (verifier s') j" if "quiet_exit c pc j"
    proof -
      have j: "visited_at (verifier s') j" using assms(2) f(1) that by (rule closed(4))
      with closed(2) have "j \<noteq> unat (insns_size_in_code_units c)" by (auto simp: visited_at_def)
      with f(1) j show ?thesis by (auto simp: flow_def start_or_end_def)
    qed
    with f show ?thesis by simp
  qed
  with r d show ?thesis by (auto simp: verified_at_def Opcode_of_eq)
qed

text \<open>The turns of the interpreter loop, in an execution in which no \<open>monitor-exit\<close> enters a catch handler.\<close>

inductive reaches :: "CodeItem \<Rightarrow> 'w config \<Rightarrow> u32 \<Rightarrow> 'w istate \<Rightarrow> nat \<Rightarrow> 'w istate \<Rightarrow> bool" for c cfg hash1 s where
  entry: "reaches c cfg hash1 s 0 s"
| turn: "reaches c cfg hash1 s i t \<Longrightarrow> step cfg hash1 i t = Some (Continue j u) \<Longrightarrow> quiet_exit c i j \<Longrightarrow> reaches c cfg hash1 s j u"

lemma accepted_entry:
  assumes "sound_accepted v c an l s' cfg"
  shows "visited_at (verifier s') 0 \<and> insn_start c 0"
proof -
  note closed = accepted_closed(1,2) [OF assms]
  then have "0 < unat (insns_size_in_code_units c)" by (simp add: visited_at_def)
  with closed(1) show ?thesis by (simp add: insn_from.here)
qed

lemma accepted_reaches:
  assumes "reaches c cfg hash1 s j t" and "sound_accepted v c an l s' cfg" and "running c s"
  shows "visited_at (verifier s') j \<and> insn_start c j \<and> running c t"
  using assms(1)
proof (induction rule: reaches.induct)
  case entry
  then show ?case using accepted_entry [OF assms(2)] assms(3) by simp
next
  case (turn i t j u)
  then have "visited_at (verifier s') i" "insn_start c i" "running c t" by simp_all
  from accepted_turn [OF assms(2) this, of hash1] turn.hyps(2,3) show ?case by auto
qed

text \<open>\<open>sample_code\<close> in the file of \<open>sample_config\<close>, and an analysis without types.\<close>

declare flow_loop.simps [code]

definition sample_method :: MethodVerifier where
  "sample_method = (sample_verifier sample_code)\<lparr>dex_file := method_dex_file (sample_config sample_code)\<rparr>"

definition no_types :: "unit type_analysis" where
  "no_types = \<lparr>load_line = \<lambda>_ l. l, type_instruction = \<lambda>_ l. (False, False, l), has_branch_line = \<lambda>_. False, copy_line = \<lambda>_ _ _ l. (True, l),
     merge_lines = \<lambda>_ _ _ l. (True, False, l), prepare_next = \<lambda>_ _ l. l, has_line = \<lambda>_ _. True, monitor_depth = \<lambda>_. 0, is_throwable = \<lambda>_. False\<rparr>"

definition sample_walk :: "(bool \<times> unit flow_state) option" where
  "sample_walk = do {
     (ok, v) \<leftarrow> Verify sample_method;
     (if ok then CodeFlowVerifyMethod no_types sample_code \<lparr>verifier = v, types = (), have_any_pending_runtime_throw_failure = False\<rparr> else None)
   }"

lemma sample_operations:
  "list_all (\<lambda>pc. case Opcode (code_units sample_code) pc of None \<Rightarrow> False
     | Some op \<Rightarrow> op \<noteq> MONITOR_EXIT \<and> \<not> IsSwitch op \<and> \<not> IsThrow op
         \<and> (IsBranch op \<longrightarrow> (case GetTargetOffset (code_units sample_code) pc of None \<Rightarrow> False | Some off \<Rightarrow> 0 < sint off))) [0..<6]"
  by code_simp

lemma sample_operation:
  assumes "pc < 6" and "Opcode (code_units sample_code) pc = Some op"
  shows "op \<noteq> MONITOR_EXIT \<and> \<not> IsSwitch op \<and> \<not> IsThrow op
    \<and> (IsBranch op \<longrightarrow> (\<exists>off. GetTargetOffset (code_units sample_code) pc = Some off \<and> 0 < sint off))"
  using sample_operations assms by (auto simp: list_all_iff split: option.splits dest!: bspec [of _ _ pc])

lemma sample_accepted_both: "\<exists>s'. sound_accepted sample_method sample_code no_types () s' (sample_config sample_code)"
proof -
  have "map_option (\<lambda>(ok, s). ok \<and> \<not> have_any_pending_runtime_throw_failure s \<and> length (insn_flags (verifier s)) = 6) sample_walk = Some True"
    by code_simp
  then obtain s' where w: "sample_walk = Some (True, s')" "\<not> have_any_pending_runtime_throw_failure s'" "length (insn_flags (verifier s')) = 6"
    by auto
  from w(1) have "\<exists>v1. Verify sample_method = Some (True, v1)
      \<and> CodeFlowVerifyMethod no_types sample_code \<lparr>verifier = v1, types = (), have_any_pending_runtime_throw_failure = False\<rparr> = Some (True, s')"
    by (auto simp: sample_walk_def bind_eq_Some_conv split: if_splits)
  moreover have "code_tries_size (dex_file sample_method) (code_item_ptr sample_code) = Some (tries_size sample_code)" by code_simp
  ultimately have "accepted sample_method sample_code no_types () s'"
    using w(2) by (simp add: accepted_def sample_method_def sample_verifier_def)
  then show ?thesis using sample_sound by (auto simp: sound_accepted_def sample_method_def)
qed

lemma sample_running: "running sample_code (sample_state sample_code)"
  using Create_ok [of "ucast (registers_size sample_code)" 0] by (simp add: running_def sample_state_def)

text \<open>
  Claim C5. The interpreter refines the walk of the verifier. Let both passes accept a method without a failure
  that is left to run time; let the interpreter run it, in the same file and from a frame of \<open>registers_size\<close> registers,
  without access checks, with a runtime whose answers keep the frame and the code, with catch tables that can be
  read and lead to instructions, and with array payloads below 2 GB (\<open>sound_run\<close>); and
  consider an execution in which no \<open>monitor-exit\<close> enters a catch handler. Whatever this execution reaches from
  the first instruction is an instruction the code flow pass has visited, so it never runs off the code and never
  into a data table; the turn there is defined, it aborts at \<open>filled-new-array\<close> only, and where it continues is a
  successor in the static control flow.
\<close>

theorem execution_follows_flow:
  assumes "sound_accepted v c an l s' cfg" and "running c s" and "reaches c cfg hash1 s j t"
  shows "visited_at (verifier s') j \<and> insn_start c j \<and> \<not> at_data c j \<and> running c t
    \<and> (\<exists>op r. Opcode (code_units c) j = Some op \<and> step cfg hash1 j t = Some r
         \<and> (r = Fatal \<longrightarrow> op = FILLED_NEW_ARRAY \<or> op = FILLED_NEW_ARRAY_RANGE)
         \<and> (\<forall>k u. r = Continue k u \<longrightarrow> flow c (dex_file v) j k))"
proof -
  have j: "visited_at (verifier s') j" "insn_start c j" "running c t"
    using accepted_reaches [OF assms(3,1,2)] by simp_all
  then have "\<not> at_data c j" using accepted_closed(3) [OF assms(1)] by blast
  with j accepted_turn [OF assms(1) j, of hash1] show ?thesis unfolding may_abort_def by blast
qed

theorem execution_follows_flow_witness:
  "\<exists>r. step (sample_config sample_code) 0 0 (sample_state sample_code) = Some r \<and> r \<noteq> Fatal"
proof -
  obtain s' where "sound_accepted sample_method sample_code no_types () s' (sample_config sample_code)" using sample_accepted_both by blast
  from execution_follows_flow [OF this sample_running reaches.entry, of 0] obtain op r where
    "Opcode (code_units sample_code) 0 = Some op" "step (sample_config sample_code) 0 0 (sample_state sample_code) = Some r"
    "r = Fatal \<longrightarrow> op = FILLED_NEW_ARRAY \<or> op = FILLED_NEW_ARRAY_RANGE"
    by auto
  moreover have "Opcode (code_units sample_code) 0 = Some CONST_4" by code_simp
  ultimately show ?thesis by auto
qed

text \<open>
  Claim C13. Code that only goes forward returns. Let the conditions of \<open>sound_accepted\<close> hold: both passes accept
  the method without a failure left to run time, there are no access checks, the answers of the runtime keep the
  frame and the code, the catch tables can be read and array payloads are below 2 GB. Let every successor of a
  visited instruction in the control flow lie behind it, and let no \<open>monitor-exit\<close> that is reached enter a catch
  handler. Then the interpreter loop ends.
\<close>

theorem forward_code_returns:
  assumes "sound_accepted v c an l s' cfg" and "running c s"
    and "\<forall>pc j. visited_at (verifier s') pc \<longrightarrow> flow c (dex_file v) pc j \<longrightarrow> pc < j"
    and "\<forall>pc t j u. reaches c cfg hash1 s pc t \<longrightarrow> step cfg hash1 pc t = Some (Continue j u) \<longrightarrow> quiet_exit c pc j"
  shows "\<exists>r. run cfg hash1 0 s = Some r \<and> (\<forall>j t. r \<noteq> Continue j t)"
proof -
  have "\<exists>r. run cfg hash1 pc t = Some r \<and> (\<forall>j t. r \<noteq> Continue j t)" if "reaches c cfg hash1 s pc t" for pc t
    using that
  proof (induction "unat (insns_size_in_code_units c) - pc" arbitrary: pc t rule: less_induct)
    case less
    have pc: "visited_at (verifier s') pc" "insn_start c pc" "running c t"
      using accepted_reaches [OF less.prems assms(1,2)] by simp_all
    from accepted_turn [OF assms(1) pc, of hash1] obtain r where r: "step cfg hash1 pc t = Some r"
      and cont: "\<forall>j u. r = Continue j u \<longrightarrow> flow c (dex_file v) pc j"
      by blast
    show ?case
    proof (cases r)
      case (Continue j u)
      with r have j: "reaches c cfg hash1 s j u" using less.prems assms(4) by (blast intro: reaches.turn)
      from cont Continue assms(3) pc(1) have "pc < j" by blast
      moreover have "j < unat (insns_size_in_code_units c)"
        using accepted_reaches [OF j assms(1,2)] insn_from_less [of c 0 j] by simp
      ultimately have "\<exists>r. run cfg hash1 j u = Some r \<and> (\<forall>j t. r \<noteq> Continue j t)" using j by (intro less.hyps) simp_all
      then show ?thesis using r Continue by (subst run.simps) simp
    qed (use r in \<open>subst run.simps, simp\<close>)+
  qed
  then show ?thesis using reaches.entry by blast
qed

theorem forward_code_returns_witness:
  "\<exists>r. run (sample_config sample_code) 0 0 (sample_state sample_code) = Some r"
proof -
  obtain s' where s': "sound_accepted sample_method sample_code no_types () s' (sample_config sample_code)" using sample_accepted_both by blast
  then have "length (insn_flags (verifier s')) = 6" using accepted_closed(2) by (fastforce simp: sample_code_def)
  have "pc < j" if "visited_at (verifier s') pc" "flow sample_code (dex_file sample_method) pc j" for pc j
  proof -
    have pc: "pc < 6" using that(1) \<open>length (insn_flags (verifier s')) = 6\<close> by (simp add: visited_at_def)
    have "0 < format_size f" for f by (cases f) simp_all
    then have "next_insn sample_code pc j \<Longrightarrow> pc < j" by (auto simp: next_insn_def)
    moreover have "pc < j" if "branch_to sample_code pc j"
      using that sample_operation [OF pc] by (auto simp: branch_to_def RelativeAt_def split: if_splits)
    ultimately show ?thesis
      using that(2) sample_operation [OF pc] by (auto simp: flow_def switch_to_def caught_at_def throws_at_def)
  qed
  moreover have "quiet_exit sample_code pc j" if "reaches sample_code (sample_config sample_code) 0 (sample_state sample_code) pc t" for pc t j
  proof -
    have "pc < 6" using accepted_reaches [OF that s' sample_running] \<open>length (insn_flags (verifier s')) = 6\<close> by (simp add: visited_at_def)
    then show ?thesis using sample_operation by (auto simp: quiet_exit_def)
  qed
  ultimately show ?thesis using forward_code_returns [OF s' sample_running, of 0] by blast
qed
end
