(* ===== verification/Descriptor.thy ===== *)
theory Descriptor
  imports Utf
begin

text \<open>
  Names of members and types: \<open>IsValidMemberName\<close>, \<open>IsValidDescriptor\<close> and their siblings of
  \<open>art/runtime/utils.cc\<close>. Strings are as in the theory on modified UTF-8: the bytes from the pointer to
  the end of the buffer, \<open>None\<close> for a read past it.
\<close>

section \<open>The code\<close>

definition DEX_MEMBER_VALID_LOW_ASCII :: "u32 list" where
  "DEX_MEMBER_VALID_LOW_ASCII = [0x00000000, 0x03ff2010, 0x87fffffe, 0x07fffffe]"

definition IsValidPartOfMemberNameUtf8Slow :: "cstr \<Rightarrow> (bool \<times> cstr) option" where
  "IsValidPartOfMemberNameUtf8Slow s = do {
     (pair, s) \<leftarrow> GetUtf16FromUtf8 s;
     let leading = GetLeadingUtf16Char pair;
     (if GetTrailingUtf16Char pair \<noteq> 0 then Some (True, s)
      else let high = drop_bit 8 leading in
        if high = 0x00 then Some (leading > 0x00a0, s)
        else if high = 0xd8 \<or> high = 0xd9 \<or> high = 0xda \<or> high = 0xdb
        then do {
          (pair2, s) \<leftarrow> GetUtf16FromUtf8 s;
          let trailing = GetLeadingUtf16Char pair2;
          Some (GetTrailingUtf16Char pair2 = 0 \<and> 0xdc00 \<le> trailing \<and> trailing \<le> 0xdfff, s) }
        else if high = 0xdc \<or> high = 0xdd \<or> high = 0xde \<or> high = 0xdf then Some (False, s)
        else if high = 0x20 \<or> high = 0xff
        then let block = leading AND 0xfff8 in
          Some (\<not> (block = 0x2000 \<or> block = 0x2008 \<or> block = 0x2028 \<or> block = 0xfff0 \<or> block = 0xfff8), s)
        else Some (True, s))
   }"

definition IsValidPartOfMemberNameUtf8 :: "cstr \<Rightarrow> (bool \<times> cstr) option" where
  "IsValidPartOfMemberNameUtf8 s = do {
     (c, s') \<leftarrow> next_byte s;
     (if c \<le> 0x7f
      then Some (bit (DEX_MEMBER_VALID_LOW_ASCII ! unat (drop_bit 5 c)) (unat (c AND 0x1f)), s')
      else IsValidPartOfMemberNameUtf8Slow s)
   }"

lemma next_byte_Some: "next_byte s = Some (b, s') \<longleftrightarrow> s = b # s'"
  by (cases s) auto

lemma IsValidPartOfMemberNameUtf8_shorter:
  "IsValidPartOfMemberNameUtf8 s = Some (ok, s') \<Longrightarrow> length s' < length s"
  by (auto simp: IsValidPartOfMemberNameUtf8_def IsValidPartOfMemberNameUtf8Slow_def Let_def bind_eq_Some_conv
      next_byte_Some split: if_splits dest!: GetUtf16FromUtf8_shorter)

text \<open>The loop of \<open>IsValidMemberName\<close>; \<open>'>'\<close> is \<open>0x3e\<close>, \<open>'<'\<close> is \<open>0x3c\<close>.\<close>

function member_name_loop :: "bool \<Rightarrow> cstr \<Rightarrow> bool option" where
  "member_name_loop angle_name s = do {
     (c, s1) \<leftarrow> next_byte s;
     (if c = 0 then Some (\<not> angle_name)
      else if c = 0x3e
      then (if angle_name then do { (e, _) \<leftarrow> next_byte s1; Some (e = 0) } else Some False)
      else case IsValidPartOfMemberNameUtf8 s of
          None \<Rightarrow> None
        | Some (ok, s') \<Rightarrow> if ok then member_name_loop angle_name s' else Some False)
   }"
  by pat_completeness auto
termination
  by (relation "measure (\<lambda>(_, s). length s)") (auto dest: IsValidPartOfMemberNameUtf8_shorter)

declare member_name_loop.simps [simp del]

definition IsValidMemberName :: "cstr \<Rightarrow> bool option" where
  "IsValidMemberName s = do {
     (c, s1) \<leftarrow> next_byte s;
     (if c = 0 then Some False
      else if c = 0x3c then member_name_loop True s1
      else member_name_loop False s)
   }"

datatype ClassNameType = kName | kDescriptor

text \<open>The loop \<open>while (*s == '[')\<close> with its count.\<close>

fun skip_brackets :: "nat \<Rightarrow> cstr \<Rightarrow> (nat \<times> cstr) option" where
  "skip_brackets arrayCount [] = None"
| "skip_brackets arrayCount (c # s) =
     (if c = 0x5b then skip_brackets (Suc arrayCount) s else Some (arrayCount, c # s))"

text \<open>The loop over the characters of a class name: \<open>';'\<close> is \<open>0x3b\<close>, \<open>'/'\<close> is \<open>0x2f\<close>, \<open>'.'\<close> is \<open>0x2e\<close>.\<close>

function class_name_loop :: "ClassNameType \<Rightarrow> u8 \<Rightarrow> bool \<Rightarrow> cstr \<Rightarrow> bool option" where
  "class_name_loop type sep sepOrFirst s = do {
     (c, s1) \<leftarrow> next_byte s;
     (if c = 0 then Some (type = kName \<and> \<not> sepOrFirst)
      else if c = 0x3b
      then (if type = kDescriptor \<and> \<not> sepOrFirst then do { (e, _) \<leftarrow> next_byte s1; Some (e = 0) }
            else Some False)
      else if c = 0x2f \<or> c = 0x2e
      then (if c \<noteq> sep then Some False
            else if sepOrFirst then Some False
            else class_name_loop type sep True s1)
      else case IsValidPartOfMemberNameUtf8 s of
          None \<Rightarrow> None
        | Some (ok, s') \<Rightarrow> if ok then class_name_loop type sep False s' else Some False)
   }"
  by pat_completeness auto
termination
  by (relation "measure (\<lambda>(_, _, _, s). length s)") (auto dest: IsValidPartOfMemberNameUtf8_shorter simp: next_byte_Some)

declare class_name_loop.simps [simp del]

text \<open>The letters of the primitive types: \<open>B C D F I J S Z\<close>.\<close>

definition primitive_letters :: "u8 list" where
  "primitive_letters = [0x42, 0x43, 0x44, 0x46, 0x49, 0x4a, 0x53, 0x5a]"

definition IsValidClassName :: "ClassNameType \<Rightarrow> u8 \<Rightarrow> cstr \<Rightarrow> bool option" where
  "IsValidClassName kType kSeparator s = do {
     (arrayCount, s) \<leftarrow> skip_brackets 0 s;
     (if arrayCount > 255 then Some False
      else let type = (if kType \<noteq> kDescriptor \<and> arrayCount \<noteq> 0 then kDescriptor else kType) in
        if type = kDescriptor
        then do {
          (c, s) \<leftarrow> next_byte s;
          (if List.member primitive_letters c then do { (e, _) \<leftarrow> next_byte s; Some (e = 0) }
           else if c = 0x56
           then (if arrayCount = 0 then do { (e, _) \<leftarrow> next_byte s; Some (e = 0) } else Some False)
           else if c = 0x4c then class_name_loop type kSeparator True s
           else Some False) }
        else class_name_loop type kSeparator True s)
   }"

definition IsValidBinaryClassName :: "cstr \<Rightarrow> bool option" where
  "IsValidBinaryClassName = IsValidClassName kName 0x2e"

definition IsValidJniClassName :: "cstr \<Rightarrow> bool option" where
  "IsValidJniClassName = IsValidClassName kName 0x2f"

definition IsValidDescriptor :: "cstr \<Rightarrow> bool option" where
  "IsValidDescriptor = IsValidClassName kDescriptor 0x2f"


section \<open>The grammar of names\<close>

text \<open>
  The grammar of the DEX format document, on UTF-16 units: \<open>SimpleNameChar\<close>, \<open>SimpleName\<close>,
  \<open>FullClassName\<close>, \<open>MemberName\<close> and \<open>TypeDescriptor\<close>. It is written from the document and uses nothing
  of the code above.
\<close>

definition simple_unit :: "u16 \<Rightarrow> bool" where
  "simple_unit c \<longleftrightarrow> 0x41 \<le> c \<and> c \<le> 0x5a \<or> 0x61 \<le> c \<and> c \<le> 0x7a \<or> 0x30 \<le> c \<and> c \<le> 0x39
     \<or> c = 0x24 \<or> c = 0x2d \<or> c = 0x5f
     \<or> 0x00a1 \<le> c \<and> c \<le> 0x1fff \<or> 0x2010 \<le> c \<and> c \<le> 0x2027 \<or> 0x2030 \<le> c \<and> c \<le> 0xd7ff \<or> 0xe000 \<le> c \<and> c \<le> 0xffef"

inductive name_char :: "u16 list \<Rightarrow> bool" where
  unit: "simple_unit c \<Longrightarrow> name_char [c]"
| pair: "0xd800 \<le> h \<Longrightarrow> h \<le> 0xdbff \<Longrightarrow> 0xdc00 \<le> l \<Longrightarrow> l \<le> 0xdfff \<Longrightarrow> name_char [h, l]"

inductive simple_name :: "u16 list \<Rightarrow> bool" where
  one: "name_char p \<Longrightarrow> simple_name p"
| more: "name_char p \<Longrightarrow> simple_name n \<Longrightarrow> simple_name (p @ n)"

text \<open>Components with the separator between them: a slash in descriptors, a dot in binary names.\<close>

inductive class_name :: "u16 \<Rightarrow> u16 list \<Rightarrow> bool" for sep where
  simple: "simple_name n \<Longrightarrow> class_name sep n"
| package: "simple_name p \<Longrightarrow> class_name sep n \<Longrightarrow> class_name sep (p @ sep # n)"

text \<open>\<open>B C D F I J S Z\<close>, or \<open>L\<close>, a class name and \<open>;\<close>.\<close>

inductive element_descriptor :: "u16 \<Rightarrow> u16 list \<Rightarrow> bool" for sep where
  primitive: "c \<in> {0x42, 0x43, 0x44, 0x46, 0x49, 0x4a, 0x53, 0x5a} \<Longrightarrow> element_descriptor sep [c]"
| class_type: "class_name sep n \<Longrightarrow> element_descriptor sep (0x4c # n @ [0x3b])"

inductive array_descriptor :: "u16 \<Rightarrow> u16 list \<Rightarrow> bool" for sep where
  array: "1 \<le> k \<Longrightarrow> k \<le> 255 \<Longrightarrow> element_descriptor sep e \<Longrightarrow> array_descriptor sep (replicate k 0x5b @ e)"

definition type_descriptor :: "u16 list \<Rightarrow> bool" where
  "type_descriptor t \<longleftrightarrow> t = [0x56] \<or> element_descriptor 0x2f t \<or> array_descriptor 0x2f t"

text \<open>A name, or a name in angle brackets as in \<open><init>\<close>; the code also lets \<open><>\<close> through.\<close>

definition member_name :: "u16 list \<Rightarrow> bool" where
  "member_name n \<longleftrightarrow> simple_name n \<or> n = [0x3c, 0x3e] \<or> (\<exists>m. simple_name m \<and> n = 0x3c # m @ [0x3e])"

text \<open>Modified UTF-8 as the DEX format has it, every UTF-16 unit on its own.\<close>

definition mutf8 :: "u16 list \<Rightarrow> u8 list" where
  "mutf8 cs = concat (map char_bytes cs)"

definition units :: "u16 list \<Rightarrow> (u16 \<times> u16) list" where
  "units cs = map (\<lambda>c. (c, 0)) cs"

lemma mutf8_units: "mutf8 cs = token_string (units cs)" "list_all token_ok (units cs)"
  "concat (map token_chars (units cs)) = cs"
  by (induction cs) (simp_all add: mutf8_def units_def token_bytes_def token_ok_def token_chars_def)

section \<open>One character\<close>

text \<open>The table of the ASCII characters, and the switch over the others.\<close>

lemma ascii_table:
  "list_all (\<lambda>n. bit (DEX_MEMBER_VALID_LOW_ASCII ! unat (drop_bit 5 (word_of_nat n :: u8))) (unat ((word_of_nat n :: u8) AND 0x1f))
     = simple_unit (word_of_nat n)) [0..<128]"
  by code_simp

lemma ascii_part:
  assumes "(c :: u16) \<le> 0x7f"
  shows "bit (DEX_MEMBER_VALID_LOW_ASCII ! unat (drop_bit 5 (ucast c :: u8))) (unat ((ucast c :: u8) AND 0x1f)) = simple_unit c"
proof -
  have "unat c < 128" using assms by (simp add: word_le_nat_alt)
  moreover have eq: "(word_of_nat (unat c) :: u8) = ucast c"
    by (simp add: word_unat_eq_iff unsigned_of_nat unsigned_ucast_eq)
  ultimately show ?thesis using bspec [OF ascii_table [unfolded list_all_iff], of "unat c"] by (simp add: eq)
qed

lemma high_byte: "drop_bit 8 (c :: u16) = k \<longleftrightarrow> 256 * unat k \<le> unat c \<and> unat c < 256 * unat k + 256"
proof -
  have "unat (drop_bit 8 c) = unat c div 256" by (simp only: unat_drop_bit_eq) (simp add: drop_bit_eq_div)
  then have "drop_bit 8 c = k \<longleftrightarrow> unat c div 256 = unat k" by (metis word_unat_eq_iff)
  then show ?thesis by auto
qed

lemma block_of:
  fixes c m :: u16
  assumes "unat m mod 8 = 0"
  shows "c AND 0xfff8 = m \<longleftrightarrow> unat m \<le> unat c \<and> unat c < unat m + 8"
proof -
  have "(0xfff8 :: u16) = NOT (mask 3)" by (simp add: mask_eq_exp_minus_1)
  then have "c AND 0xfff8 = push_bit 3 (drop_bit 3 c)" by (simp add: bit_eq_iff) (auto simp: bit_simps)
  also have "\<dots> = drop_bit 3 c * 8" by (simp add: push_bit_eq_mult)
  finally have "c AND 0xfff8 = drop_bit 3 c * 8" .
  moreover have d: "unat (drop_bit 3 c) = unat c div 8" by (simp only: unat_drop_bit_eq) (simp add: drop_bit_eq_div)
  moreover have "unat (drop_bit 3 c * 8) = unat (drop_bit 3 c) * 8"
    using unat_u16_less [of c] by (subst unat_mult_lem [THEN iffD1]) (simp_all add: d)
  ultimately have "c AND 0xfff8 = m \<longleftrightarrow> unat c div 8 * 8 = unat m" by (metis word_unat_eq_iff)
  with assms show ?thesis by auto
qed

lemma leading_byte:
  "drop_bit 8 c = 0xd8 \<or> drop_bit 8 c = 0xd9 \<or> drop_bit 8 c = 0xda \<or> drop_bit 8 c = 0xdb \<longleftrightarrow> leading_surrogate c"
  unfolding leading_surrogate_def high_byte word_le_nat_alt by simp arith

lemma simple_unit_switch:
  assumes "\<not> leading_surrogate c" and "0x7f < c \<or> c = 0"
  shows "simple_unit c = (if drop_bit 8 c = 0x00 then c > 0x00a0
      else if drop_bit 8 c = 0xdc \<or> drop_bit 8 c = 0xdd \<or> drop_bit 8 c = 0xde \<or> drop_bit 8 c = 0xdf then False
      else if drop_bit 8 c = 0x20 \<or> drop_bit 8 c = 0xff
      then \<not> (c AND 0xfff8 = 0x2000 \<or> c AND 0xfff8 = 0x2008 \<or> c AND 0xfff8 = 0x2028 \<or> c AND 0xfff8 = 0xfff0 \<or> c AND 0xfff8 = 0xfff8)
      else True)"
proof -
  note blocks = block_of [of "0x2000"] block_of [of "0x2008"] block_of [of "0x2028"] block_of [of "0xfff0"] block_of [of "0xfff8"]
  define x where "x = unat c"
  have x: "x < 65536" using unat_u16_less [of c] by (simp add: x_def)
  have eqs: "c = 0x24 \<longleftrightarrow> x = 0x24" "c = 0x2d \<longleftrightarrow> x = 0x2d" "c = 0x5f \<longleftrightarrow> x = 0x5f" "c = 0 \<longleftrightarrow> x = 0"
    by (simp_all add: x_def word_unat_eq_iff)
  show ?thesis
    using assms x
    by (simp add: leading_surrogate_def simple_unit_def eqs high_byte blocks word_le_nat_alt word_less_nat_alt flip: x_def) presburger
qed

lemma slow_part:
  assumes "GetUtf16FromUtf8 s = Some (maybe_pair c d, s1)" and "0x7f < c \<or> c = 0"
  shows "IsValidPartOfMemberNameUtf8Slow s =
     (if d \<noteq> 0 then Some (True, s1)
      else if leading_surrogate c then do {
        (pair2, s2) \<leftarrow> GetUtf16FromUtf8 s1;
        Some (GetTrailingUtf16Char pair2 = 0 \<and> trailing_surrogate (GetLeadingUtf16Char pair2), s2) }
      else Some (simple_unit c, s1))"
proof (cases "d \<noteq> 0 \<or> leading_surrogate c")
  case True
  moreover from True have "drop_bit 8 c \<noteq> 0" if "d = 0" using that by (auto simp: leading_surrogate_def high_byte word_le_nat_alt)
  ultimately show ?thesis
    unfolding IsValidPartOfMemberNameUtf8Slow_def assms(1) Let_def
    using leading_byte [of c] by (simp add: trailing_surrogate_def)
next
  case False
  then show ?thesis
    unfolding IsValidPartOfMemberNameUtf8Slow_def assms(1) Let_def
    using leading_byte [of c] simple_unit_switch [of c] assms(2) by simp
qed

text \<open>The first byte of an encoded character tells the ASCII characters apart.\<close>

lemma first_byte:
  assumes "token_ok t"
  obtains b bs where "token_bytes t = b # bs"
    "snd t = 0 \<and> 0 < fst t \<and> fst t \<le> 0x7f \<and> b = ucast (fst t) \<and> bs = [] \<and> b \<le> 0x7f \<or> (0x7f < fst t \<or> fst t = 0) \<and> \<not> b \<le> 0x7f"
proof (cases "snd t = 0 \<and> 0 < fst t \<and> fst t \<le> 0x7f")
  case True
  then have "unat (fst t) \<le> 127" by (simp add: word_le_nat_alt)
  then have "(ucast (fst t) :: u8) \<le> 0x7f" by (simp add: word_le_nat_alt unsigned_ucast_eq take_bit_nat_eq_self)
  with True show ?thesis by (intro that [of "ucast (fst t)" "[]"]) (auto simp: token_bytes_def char_bytes_def case_prod_beta)
next
  case False
  have high: "\<not> b \<le> 0x7f" if "bit b 7" for b :: u8
  proof
    assume "b \<le> 0x7f"
    then have "unat b < 2 ^ 7" by (simp add: word_le_nat_alt)
    from unat_less_bits [OF this, of 7] that show False by simp
  qed
  have top: "bit (x OR (0xe0 :: u8)) 7" "bit (x OR (0xc0 :: u8)) 7" "bit (x OR (0xf0 :: u8)) 7" for x
    by (simp_all add: bit_simps bit_u8_masks del: bit_numeral_word_iff)
  show ?thesis
  proof (cases "snd t = 0")
    case True
    with False have "\<not> (0 < fst t \<and> fst t \<le> 0x7f)" by simp
    moreover from this have "0x7f < fst t \<or> fst t = 0" by (auto simp: not_less word_gt_0 not_le)
    moreover from True \<open>\<not> (0 < fst t \<and> fst t \<le> 0x7f)\<close> have "\<exists>b bs. token_bytes t = b # bs \<and> \<not> b \<le> 0x7f"
      using high [OF top(1)] high [OF top(2)]
      by (cases "fst t > 0x07ff") (simp_all only: token_bytes_def case_prod_beta char_bytes_def utf8_prefix_bytes if_True if_False list.inject, auto)
    ultimately show ?thesis using that by blast
  next
    case nz: False
    with assms have "0x7f < fst t" using leading_surrogate_large(2) [of "fst t"]
      by (auto simp: token_ok_def word_less_nat_alt case_prod_beta)
    then show ?thesis
      using that high [OF top(3)] nz by (simp add: token_bytes_def case_prod_beta pair_bytes_def Let_def utf8_prefix_bytes)
  qed
qed

lemma part_of_token:
  assumes "token_ok t"
  shows "IsValidPartOfMemberNameUtf8 (token_bytes t @ s) =
     (if snd t \<noteq> 0 then Some (True, s)
      else if leading_surrogate (fst t) then do {
        (pair2, s2) \<leftarrow> GetUtf16FromUtf8 s;
        Some (GetTrailingUtf16Char pair2 = 0 \<and> trailing_surrogate (GetLeadingUtf16Char pair2), s2) }
      else Some (simple_unit (fst t), s))"
proof -
  obtain b bs where b: "token_bytes t = b # bs"
    "snd t = 0 \<and> 0 < fst t \<and> fst t \<le> 0x7f \<and> b = ucast (fst t) \<and> bs = [] \<and> b \<le> 0x7f \<or> (0x7f < fst t \<or> fst t = 0) \<and> \<not> b \<le> 0x7f"
    using assms by (rule first_byte)
  from b(2) show ?thesis
  proof (elim disjE conjE)
    assume a: "snd t = 0" "0 < fst t" "fst t \<le> 0x7f" "b = ucast (fst t)" "bs = []" "b \<le> 0x7f"
    then have "\<not> leading_surrogate (fst t)" using leading_surrogate_large(1) by blast
    with a b(1) ascii_part [OF a(3)] show ?thesis by (simp add: IsValidPartOfMemberNameUtf8_def)
  next
    assume "0x7f < fst t" "\<not> b \<le> 0x7f"
    then show ?thesis
      using slow_part [OF GetUtf16FromUtf8_token [OF assms], of s] b(1) by (simp add: IsValidPartOfMemberNameUtf8_def)
  next
    assume "fst t = 0" "\<not> b \<le> 0x7f"
    then show ?thesis
      using slow_part [OF GetUtf16FromUtf8_token [OF assms], of s] b(1) by (simp add: IsValidPartOfMemberNameUtf8_def)
  qed
qed

section \<open>The loops on units\<close>

text \<open>What is left of a string behind one character of a name, if there is one.\<close>

fun next_char :: "u16 list \<Rightarrow> u16 list option" where
  "next_char [] = None"
| "next_char (c # cs) =
     (if leading_surrogate c then (case cs of d # ds \<Rightarrow> if trailing_surrogate d then Some ds else None | [] \<Rightarrow> None)
      else if simple_unit c then Some cs else None)"

abbreviation chars_of :: "(u16 \<times> u16) list \<Rightarrow> u16 list" where
  "chars_of ts \<equiv> concat (map token_chars ts)"

lemma lead_not_trail: "leading_surrogate c \<Longrightarrow> \<not> trailing_surrogate c"
  by (auto simp: leading_surrogate_def trailing_surrogate_def word_le_nat_alt)

lemma part_of_tokens:
  assumes "list_all token_ok ts" and "ts \<noteq> []"
  shows "\<exists>ok s'. IsValidPartOfMemberNameUtf8 (token_string ts @ 0 # rest) = Some (ok, s')
    \<and> (case next_char (chars_of ts) of None \<Rightarrow> \<not> ok
       | Some cs \<Rightarrow> ok \<and> (\<exists>us. list_all token_ok us \<and> chars_of us = cs \<and> length us < length ts \<and> s' = token_string us @ 0 # rest))"
proof -
  obtain c d ts' where ts: "ts = (c, d) # ts'" and t: "token_ok (c, d)" "list_all token_ok ts'"
    using assms by (cases ts) auto
  note part = part_of_token [OF t(1), of "token_string ts' @ 0 # rest"]
  show ?thesis
  proof (cases "d \<noteq> 0 \<or> \<not> leading_surrogate c")
    case True
    with t part ts show ?thesis by (auto simp: token_ok_def token_chars_def intro!: exI [of _ ts'])
  next
    case False
    show ?thesis
    proof (cases ts')
      case Nil
      have "GetUtf16FromUtf8 (0 # rest) = Some (0, rest)" by (simp add: GetUtf16FromUtf8_def)
      with False part ts Nil show ?thesis by (auto simp: token_chars_def GetLeadingUtf16Char_def trailing_surrogate_def)
    next
      case (Cons u us)
      with t have u: "token_ok u" "list_all token_ok us" by simp_all
      with False part ts Cons GetUtf16FromUtf8_token [OF u(1), of "token_string us @ 0 # rest"] show ?thesis
        by (auto simp: token_chars_eq token_ok_def case_prod_beta dest: lead_not_trail intro!: exI [of _ us])
    qed
  qed
qed

lemma next_char_shorter: "next_char us = Some cs \<Longrightarrow> length cs < length us"
  by (cases us) (auto split: if_splits list.splits)

declare next_char.simps [simp del]

text \<open>The loops of \<open>IsValidMemberName\<close> and \<open>IsValidClassName\<close>, as they run on units.\<close>

function member_units :: "bool \<Rightarrow> u16 list \<Rightarrow> bool" where
  "member_units angle us = (case us of [] \<Rightarrow> \<not> angle
     | c # cs \<Rightarrow> if c = 0x3e then angle \<and> cs = [] else case next_char us of None \<Rightarrow> False | Some r \<Rightarrow> member_units angle r)"
  by pat_completeness auto
termination by (relation "measure (\<lambda>(_, us). length us)") (auto dest!: next_char_shorter)

function class_units :: "ClassNameType \<Rightarrow> u16 \<Rightarrow> bool \<Rightarrow> u16 list \<Rightarrow> bool" where
  "class_units type sep first us = (case us of [] \<Rightarrow> type = kName \<and> \<not> first
     | c # cs \<Rightarrow> if c = 0x3b then type = kDescriptor \<and> \<not> first \<and> cs = []
         else if c = 0x2f \<or> c = 0x2e then c = sep \<and> \<not> first \<and> class_units type sep True cs
         else case next_char us of None \<Rightarrow> False | Some r \<Rightarrow> class_units type sep False r)"
  by pat_completeness auto
termination by (relation "measure (\<lambda>(_, _, _, us). length us)") (auto dest!: next_char_shorter)

declare member_units.simps [simp del] class_units.simps [simp del]

lemma ascii_byte:
  assumes "token_ok t" and "0 < k" and "k \<le> 0x7f"
  shows "hd (token_bytes t) = k \<longleftrightarrow> t = (ucast k, 0)"
proof -
  have k: "unat (ucast k :: u16) = unat k" using unat_u8_less [of k] by (simp add: unsigned_ucast_eq take_bit_nat_eq_self)
  have two: "(ucast (ucast k :: u16) :: u8) = k" by (rule bit_word_eqI) (auto simp: bit_simps)
  obtain b bs where b: "token_bytes t = b # bs"
    "snd t = 0 \<and> 0 < fst t \<and> fst t \<le> 0x7f \<and> b = ucast (fst t) \<and> bs = [] \<and> b \<le> 0x7f \<or> (0x7f < fst t \<or> fst t = 0) \<and> \<not> b \<le> 0x7f"
    using assms(1) by (rule first_byte)
  have "fst t = ucast k" if "b = k"
  proof -
    from that b(2) assms(3) have "fst t \<le> 0x7f" "ucast (fst t) = k" by auto
    moreover from this(1) have "unat (ucast (fst t) :: u8) = unat (fst t)"
      by (simp add: word_le_nat_alt unsigned_ucast_eq take_bit_nat_eq_self)
    ultimately show ?thesis using k by (metis word_unat_eq_iff)
  qed
  moreover have "b = k" if "t = (ucast k, 0)"
    using b(2) two k assms(2,3) that by (auto simp: word_less_nat_alt word_le_nat_alt unat_gt_0)
  ultimately show ?thesis using b assms(3) by (cases t) auto
qed

lemma first_unit:
  assumes "token_ok t" and "0 < k" and "k \<le> 0x7f"
  shows "hd (token_bytes t) = k \<longleftrightarrow> fst t = ucast k"
proof -
  have "unat (ucast k :: u16) \<le> 127" using assms(3) by (simp add: unsigned_ucast_eq take_bit_nat_eq_self word_le_nat_alt)
  then have "snd t = 0" if "fst t = ucast k"
    using assms(1) that by (auto simp: token_ok_def leading_surrogate_def word_le_nat_alt case_prod_beta)
  then show ?thesis using ascii_byte [OF assms] by (cases t) auto
qed

lemma next_byte_tokens:
  "next_byte (token_bytes t @ s) = Some (hd (token_bytes t), tl (token_bytes t) @ s)"
  by (rule token_bytes_next [of t]) simp

lemma ends_here:
  "do { (e, _) \<leftarrow> next_byte (token_string ts @ 0 # rest); Some (e = 0) } = Some (chars_of ts = [])"
  by (cases ts) (simp_all add: next_byte_tokens token_chars_eq)

text \<open>Up to the terminator the loops on bytes and on units agree.\<close>

lemma ascii_unit: "char_bytes 0x3b = [0x3b]" "char_bytes 0x3e = [0x3e]" "char_bytes 0x3c = [0x3c]" "char_bytes 0x2f = [0x2f]" "char_bytes 0x2e = [0x2e]"
  by (simp_all add: char_bytes_def)

lemma member_name_loop_units:
  "list_all token_ok ts \<Longrightarrow> member_name_loop angle (token_string ts @ 0 # rest) = Some (member_units angle (chars_of ts))"
proof (induction "length ts" arbitrary: ts rule: less_induct)
  case less
  show ?case
  proof (cases ts)
    case Nil
    then show ?thesis by (simp add: member_name_loop.simps [of _ "0 # _"] member_units.simps)
  next
    case (Cons t ts')
    then have t: "token_ok t" "list_all token_ok ts'" using less.prems by simp_all
    obtain c cs where us: "chars_of ts = c # cs" by (cases "chars_of ts") (auto simp: Cons token_chars_eq split: if_splits)
    note byte = next_byte_tokens [of t "token_string ts' @ 0 # rest"]
    show ?thesis
    proof (cases "hd (token_bytes t) = 0x3e")
      case True
      then have "t = (0x3e, 0)" using ascii_byte [OF t(1), of "0x3e"] by simp
      then show ?thesis using t(2) ends_here [of ts' rest]
        by (simp add: Cons member_name_loop.simps [of _ "0x3e # _"] member_units.simps token_bytes_def token_chars_def ascii_unit)
    next
      case False
      then have "c \<noteq> 0x3e" using first_unit [OF t(1), of "0x3e"] us by (auto simp: Cons token_chars_eq split: if_splits)
      from part_of_tokens [OF less.prems, of rest] Cons obtain ok s' where
        p: "IsValidPartOfMemberNameUtf8 (token_string ts @ 0 # rest) = Some (ok, s')"
        "case next_char (chars_of ts) of None \<Rightarrow> \<not> ok
         | Some cs \<Rightarrow> ok \<and> (\<exists>us. list_all token_ok us \<and> chars_of us = cs \<and> length us < length ts \<and> s' = token_string us @ 0 # rest)"
        by auto
      have "member_name_loop angle (token_string ts @ 0 # rest) = (if ok then member_name_loop angle s' else Some False)"
        using byte False p(1) by (subst member_name_loop.simps) (simp add: Cons)
      also have "\<dots> = Some (member_units angle (chars_of ts))"
        using p(2) less.hyps \<open>c \<noteq> 0x3e\<close> us by (subst member_units.simps) (auto split: option.splits)
      finally show ?thesis .
    qed
  qed
qed

lemma class_name_loop_units:
  assumes "list_all token_ok ts" and "sep \<in> {0x2e, 0x2f}"
  shows "class_name_loop type sep first (token_string ts @ 0 # rest) = Some (class_units type (ucast sep) first (chars_of ts))"
  using assms(1)
proof (induction "length ts" arbitrary: ts first rule: less_induct)
  case less
  show ?case
  proof (cases ts)
    case Nil
    then show ?thesis by (simp add: class_name_loop.simps [of _ _ _ "0 # _"] class_units.simps)
  next
    case (Cons t ts')
    then have t: "token_ok t" "list_all token_ok ts'" using less.prems by simp_all
    obtain c cs where us: "chars_of ts = c # cs" "c = fst t"
      by (cases "chars_of ts") (auto simp: Cons token_chars_eq split: if_splits)
    have ascii: "hd (token_bytes t) = k \<longleftrightarrow> c = ucast k" "c = ucast k \<Longrightarrow> t = (ucast k, 0)" if "0 < k" "k \<le> 0x7f" for k
      using first_unit [OF t(1) that] ascii_byte [OF t(1) that] us(2) by auto
    note byte = next_byte_tokens [of t "token_string ts' @ 0 # rest"]
    consider "c = 0x3b" | "c = 0x2f \<or> c = 0x2e" | "c \<noteq> 0x3b" "c \<noteq> 0x2f" "c \<noteq> 0x2e" by blast
    then show ?thesis
    proof cases
      case 1
      then have "t = (0x3b, 0)" using ascii(2) [of "0x3b"] by simp
      then show ?thesis using ends_here [of ts' rest]
        by (simp add: Cons class_name_loop.simps [of _ _ _ "0x3b # _"] class_units.simps token_bytes_def token_chars_def ascii_unit)
    next
      case 2
      then have "t = (c, 0)" using ascii(2) [of "0x2f"] ascii(2) [of "0x2e"] by auto
      moreover have "class_name_loop type sep True (token_string ts' @ 0 # rest) = Some (class_units type (ucast sep) True (chars_of ts'))"
        using t(2) by (intro less.hyps) (simp_all add: Cons)
      ultimately show ?thesis using 2 assms(2)
        by (auto simp: Cons class_name_loop.simps [of _ _ _ "0x2f # _"] class_name_loop.simps [of _ _ _ "0x2e # _"]
            class_units.simps [of _ _ _ "_ # _"] token_bytes_def token_chars_def ascii_unit)
    next
      case 3
      from part_of_tokens [OF less.prems, of rest] Cons obtain ok s' where
        p: "IsValidPartOfMemberNameUtf8 (token_string ts @ 0 # rest) = Some (ok, s')"
        "case next_char (chars_of ts) of None \<Rightarrow> \<not> ok
         | Some cs \<Rightarrow> ok \<and> (\<exists>us. list_all token_ok us \<and> chars_of us = cs \<and> length us < length ts \<and> s' = token_string us @ 0 # rest)"
        by auto
      have "class_name_loop type sep first (token_string ts @ 0 # rest) = (if ok then class_name_loop type sep False s' else Some False)"
        using byte 3 p(1) ascii(1) [of "0x3b"] ascii(1) [of "0x2f"] ascii(1) [of "0x2e"]
        by (subst class_name_loop.simps) (simp add: Cons)
      also have "\<dots> = Some (class_units type (ucast sep) first (chars_of ts))"
        using p(2) less.hyps 3 us by (subst class_units.simps) (auto split: option.splits)
      finally show ?thesis .
    qed
  qed
qed

section \<open>The grammar is decided\<close>

lemma simple_unit_ordinary:
  assumes "simple_unit c"
  shows "\<not> leading_surrogate c" "c \<noteq> 0x2e" "c \<noteq> 0x2f" "c \<noteq> 0x3b" "c \<noteq> 0x3c" "c \<noteq> 0x3e"
  using assms by (auto simp: simple_unit_def leading_surrogate_def word_le_nat_alt)

lemma leading_ordinary:
  assumes "leading_surrogate c"
  shows "c \<noteq> 0x2e" "c \<noteq> 0x2f" "c \<noteq> 0x3b" "c \<noteq> 0x3c" "c \<noteq> 0x3e"
  using assms by (auto simp: leading_surrogate_def)

lemma next_char_iff: "next_char us = Some r \<longleftrightarrow> (\<exists>p. name_char p \<and> us = p @ r)"
proof
  assume "next_char us = Some r"
  then show "\<exists>p. name_char p \<and> us = p @ r"
    by (cases us) (force simp: next_char.simps leading_surrogate_def trailing_surrogate_def split: if_splits list.splits intro: name_char.intros)+
next
  assume "\<exists>p. name_char p \<and> us = p @ r"
  then show "next_char us = Some r"
    using simple_unit_ordinary(1) by (auto simp: next_char.simps leading_surrogate_def trailing_surrogate_def elim!: name_char.cases)
qed

lemma name_char_head:
  assumes "name_char p"
  obtains c cs where "p = c # cs" "c \<noteq> 0x2e" "c \<noteq> 0x2f" "c \<noteq> 0x3b" "c \<noteq> 0x3c" "c \<noteq> 0x3e"
  using assms that simple_unit_ordinary leading_ordinary by (cases rule: name_char.cases) (auto simp: leading_surrogate_def)

lemma simple_name_head:
  assumes "simple_name n"
  obtains c cs where "n = c # cs" "c \<noteq> 0x2e" "c \<noteq> 0x2f" "c \<noteq> 0x3b" "c \<noteq> 0x3c" "c \<noteq> 0x3e"
  using assms that by (cases rule: simple_name.cases) (auto elim!: name_char_head)

lemma member_units_char: "name_char p \<Longrightarrow> member_units angle (p @ us) = member_units angle us"
  using next_char_iff [of "p @ us" us] by (subst member_units.simps) (auto elim!: name_char_head)

lemma class_units_char:
  "name_char p \<Longrightarrow> class_units type sep first (p @ us) = class_units type sep False us"
  using next_char_iff [of "p @ us" us] by (subst class_units.simps) (auto elim!: name_char_head)

lemma member_units_name: "simple_name n \<Longrightarrow> member_units angle (n @ us) = member_units angle us"
  by (induction rule: simple_name.induct) (simp_all add: member_units_char)

lemma class_units_name: "simple_name n \<Longrightarrow> class_units type sep first (n @ us) = class_units type sep False us"
  by (induction arbitrary: first rule: simple_name.induct) (simp_all add: class_units_char)

lemma member_units_iff:
  "member_units angle us \<longleftrightarrow> (\<exists>n. (n = [] \<or> simple_name n) \<and> us = n @ (if angle then [0x3e] else []))"
proof
  assume "\<exists>n. (n = [] \<or> simple_name n) \<and> us = n @ (if angle then [0x3e] else [])"
  then show "member_units angle us" by (auto simp: member_units_name) (simp_all add: member_units.simps)
next
  assume "member_units angle us"
  then show "\<exists>n. (n = [] \<or> simple_name n) \<and> us = n @ (if angle then [0x3e] else [])"
  proof (induction angle us rule: member_units.induct)
    case (1 angle us)
    show ?case
    proof (cases "next_char us")
      case None
      with "1.prems" show ?thesis by (subst (asm) member_units.simps) (auto split: list.splits if_splits)
    next
      case (Some r)
      then obtain p where p: "name_char p" "us = p @ r" using next_char_iff by blast
      then obtain c cs where us: "us = c # cs" "c \<noteq> 0x3e" by (auto elim: name_char_head)
      have "member_units angle r" using "1.prems" p by (simp add: member_units_char)
      with "1.IH" [OF us Some] obtain n where "n = [] \<or> simple_name n" "r = n @ (if angle then [0x3e] else [])" by blast
      with p show ?thesis by (intro exI [of _ "p @ n"]) (auto intro: simple_name.intros)
    qed
  qed
qed

definition name_end :: "ClassNameType \<Rightarrow> u16 list" where
  "name_end type = (case type of kName \<Rightarrow> [] | kDescriptor \<Rightarrow> [0x3b])"

lemma class_units_end: "class_units type sep False (name_end type)"
  by (cases type) (simp_all add: name_end_def class_units.simps)

lemma class_name_extend: "name_char p \<Longrightarrow> class_name sep n \<Longrightarrow> class_name sep (p @ n)"
  by (erule class_name.cases) (metis class_name.intros simple_name.more append_assoc)+

lemma class_units_iff:
  assumes "sep \<in> {0x2e, 0x2f}"
  shows "class_units type sep True us \<longleftrightarrow> (\<exists>n. class_name sep n \<and> us = n @ name_end type)"
proof
  assume "\<exists>n. class_name sep n \<and> us = n @ name_end type"
  then obtain n where n: "class_name sep n" "us = n @ name_end type" by blast
  from n(1) have "class_units type sep True (n @ name_end type)"
  proof (induction rule: class_name.induct)
    case (simple n)
    then show ?case by (simp add: class_units_name class_units_end)
  next
    case (package p n)
    then show ?case using assms by (auto simp: class_units_name class_units.simps [of _ _ _ "_ # _"])
  qed
  with n(2) show "class_units type sep True us" by simp
next
  let ?named = "\<lambda>us. \<exists>n. class_name sep n \<and> us = n @ name_end type"
  have "?named us \<or> \<not> first \<and> (us = name_end type \<or> (\<exists>r. us = sep # r \<and> ?named r))" if "class_units type sep first us" for first
    using that
  proof (induction "length us" arbitrary: us first rule: less_induct)
    case less
    show ?case
    proof (cases "next_char us")
      case None
      from less.prems have step: "case us of [] \<Rightarrow> type = kName \<and> \<not> first
         | c # cs \<Rightarrow> if c = 0x3b then type = kDescriptor \<and> \<not> first \<and> cs = []
             else (c = 0x2f \<or> c = 0x2e) \<and> c = sep \<and> \<not> first \<and> class_units type sep True cs"
        by (subst (asm) class_units.simps) (use None in \<open>auto split: list.splits if_splits option.splits\<close>)
      show ?thesis
      proof (cases us)
        case Nil
        with step show ?thesis by (simp add: name_end_def)
      next
        case (Cons c cs)
        with step less.hyps [of cs True] show ?thesis by (auto simp: name_end_def split: if_splits)
      qed
    next
      case (Some r)
      then obtain p where p: "name_char p" "us = p @ r" using next_char_iff by blast
      then have "class_units type sep False r" using less.prems by (simp add: class_units_char)
      from less.hyps [OF next_char_shorter [OF Some] this]
      consider "?named r" | "r = name_end type" | t where "r = sep # t" "?named t" by blast
      then have "?named us"
      proof cases
        case 1
        with p show ?thesis using class_name_extend by (metis append_assoc)
      next
        case 2
        with p show ?thesis by (auto intro: class_name.intros simple_name.intros)
      next
        case 3
        then obtain n where "class_name sep n" "t = n @ name_end type" by blast
        with p 3(1) show ?thesis by (intro exI [of _ "p @ sep # n"]) (auto intro: class_name.intros simple_name.intros)
      qed
      then show ?thesis ..
    qed
  qed
  moreover assume "class_units type sep True us"
  ultimately show "?named us" by blast
qed

section \<open>Brackets and elements\<close>

lemma skip_brackets_units:
  "list_all token_ok ts \<Longrightarrow> \<exists>k us. skip_brackets n (token_string ts @ 0 # rest) = Some (n + k, token_string us @ 0 # rest)
     \<and> list_all token_ok us \<and> chars_of ts = replicate k 0x5b @ chars_of us \<and> (chars_of us = [] \<or> hd (chars_of us) \<noteq> 0x5b)"
proof (induction ts arbitrary: n)
  case Nil
  show ?case by (intro exI [of _ 0] exI [of _ "[]"]) simp
next
  case (Cons t ts)
  then have t: "token_ok t" by simp
  obtain b bs where b: "token_bytes t = b # bs" by (rule token_bytes_next [of t])
  show ?case
  proof (cases "b = 0x5b")
    case True
    then have "t = (0x5b, 0)" using ascii_byte [OF t, of "0x5b"] b by simp
    moreover obtain k us where "skip_brackets (Suc n) (token_string ts @ 0 # rest) = Some (Suc n + k, token_string us @ 0 # rest)"
      "list_all token_ok us" "chars_of ts = replicate k 0x5b @ chars_of us" "chars_of us = [] \<or> hd (chars_of us) \<noteq> 0x5b"
      using Cons.IH [of "Suc n"] Cons.prems by auto
    ultimately show ?thesis
      by (intro exI [of _ "Suc k"] exI [of _ us]) (simp add: token_bytes_def token_chars_def char_bytes_def)
  next
    case False
    then have "fst t \<noteq> 0x5b" using first_unit [OF t, of "0x5b"] b by simp
    with False b Cons.prems show ?thesis by (intro exI [of _ 0] exI [of _ "t # ts"]) (simp add: token_chars_eq)
  qed
qed

lemma replicate_prefix_unique:
  assumes "replicate k x @ a = replicate l x @ b" and "a = [] \<or> hd a \<noteq> x" and "b \<noteq> []" "hd b \<noteq> x"
  shows "k = l \<and> a = b"
  using assms(1)
proof (induction k arbitrary: l)
  case 0
  with assms show ?case by (cases l) auto
next
  case (Suc k)
  with assms(3,4) show ?case by (cases l) auto
qed

lemma element_head:
  assumes "element_descriptor sep e"
  obtains c cs where "e = c # cs" "c \<noteq> 0x5b" "c \<noteq> 0x56"
  using assms that by (cases rule: element_descriptor.cases) auto

lemma array_descriptor_replicate:
  assumes "us = [] \<or> hd us \<noteq> 0x5b"
  shows "array_descriptor sep (replicate k 0x5b @ us) \<longleftrightarrow> 1 \<le> k \<and> k \<le> 255 \<and> element_descriptor sep us"
proof
  assume "array_descriptor sep (replicate k 0x5b @ us)"
  then obtain l e where e: "1 \<le> l" "l \<le> 255" "element_descriptor sep e" "replicate k 0x5b @ us = replicate l 0x5b @ e"
    by (auto elim: array_descriptor.cases)
  from e(3) have "e \<noteq> []" "hd e \<noteq> 0x5b" by (auto elim: element_head)
  from replicate_prefix_unique [OF e(4) assms this] e(1-3) show "1 \<le> k \<and> k \<le> 255 \<and> element_descriptor sep us" by simp
qed (auto intro: array_descriptor.intros)

lemma element_not_array: "element_descriptor sep e \<Longrightarrow> \<not> array_descriptor sep e"
  by (auto elim!: element_head array_descriptor.cases) (metis Suc_le_D append_Cons list.inject replicate_Suc)

text \<open>The part of \<open>IsValidClassName\<close> behind the brackets.\<close>

lemma element_units:
  assumes "list_all token_ok ts" and "sep \<in> {0x2e, 0x2f}"
  shows "do {
          (c, s) \<leftarrow> next_byte (token_string ts @ 0 # rest);
          (if List.member primitive_letters c then do { (e, _) \<leftarrow> next_byte s; Some (e = 0) }
           else if c = 0x56
           then (if void then do { (e, _) \<leftarrow> next_byte s; Some (e = 0) } else Some False)
           else if c = 0x4c then class_name_loop kDescriptor sep True s
           else Some False) }
     = Some (element_descriptor (ucast sep) (chars_of ts) \<or> void \<and> chars_of ts = [0x56])"
proof (cases ts)
  case Nil
  then show ?thesis by (auto simp: primitive_letters_def elim: element_head)
next
  case (Cons t ts')
  then have t: "token_ok t" "list_all token_ok ts'" using assms(1) by simp_all
  have sep: "ucast sep \<in> {0x2e, 0x2f :: u16}" using assms(2) by auto
  obtain b bs where b: "token_bytes t = b # bs" by (rule token_bytes_next [of t])
  have ascii: "b = k \<longleftrightarrow> fst t = ucast k" "fst t = ucast k \<Longrightarrow> t = (ucast k, 0)" if "0 < k" "k \<le> 0x7f" for k
    using first_unit [OF t(1) that] ascii_byte [OF t(1) that] b by auto
  note k = ascii(1) [of "0x42"] ascii(1) [of "0x43"] ascii(1) [of "0x44"] ascii(1) [of "0x46"]
    ascii(1) [of "0x49"] ascii(1) [of "0x4a"] ascii(1) [of "0x53"] ascii(1) [of "0x5a"]
  have us: "chars_of ts = fst t # (if snd t = 0 then [] else [snd t]) @ chars_of ts'" by (simp add: Cons token_chars_eq)
  have prim: "element_descriptor (ucast sep) (c # cs) \<longleftrightarrow> c \<in> {0x42, 0x43, 0x44, 0x46, 0x49, 0x4a, 0x53, 0x5a} \<and> cs = []
      \<or> c = 0x4c \<and> class_units kDescriptor (ucast sep) True cs" for c cs
    unfolding class_units_iff [OF sep] by (auto simp: name_end_def intro: element_descriptor.intros elim!: element_descriptor.cases)
  consider "b \<in> set primitive_letters" | "b = 0x56" | "b = 0x4c" | "b \<notin> set primitive_letters" "b \<noteq> 0x56" "b \<noteq> 0x4c" by blast
  then show ?thesis
  proof cases
    case 1
    then have p: "0 < b" "b \<le> 0x7f" "ucast b \<in> {0x42, 0x43, 0x44, 0x46, 0x49, 0x4a, 0x53, 0x5a :: u16}"
      by (auto simp: primitive_letters_def)
    from ascii [OF p(1,2)] have t': "t = (ucast b, 0)" by simp
    with p b have "bs = []" by (auto simp: token_bytes_def char_bytes_def)
    with 1 b t' p(3) ends_here [of ts' rest] show ?thesis by (auto simp: Cons token_chars_def prim)
  next
    case 2
    then have "t = (0x56, 0)" using ascii [of "0x56"] by simp
    then show ?thesis using ends_here [of ts' rest]
      by (auto simp: Cons token_bytes_def char_bytes_def token_chars_def prim primitive_letters_def)
  next
    case 3
    then have "t = (0x4c, 0)" using ascii [of "0x4c"] by simp
    then show ?thesis using class_name_loop_units [OF t(2) assms(2), of kDescriptor True rest]
      by (auto simp: Cons token_bytes_def char_bytes_def token_chars_def prim primitive_letters_def)
  next
    case 4
    then have "fst t \<notin> {0x42, 0x43, 0x44, 0x46, 0x49, 0x4a, 0x53, 0x5a}" "fst t \<noteq> 0x56" "fst t \<noteq> 0x4c"
      using k ascii(1) [of "0x56"] ascii(1) [of "0x4c"] by (auto simp: primitive_letters_def)
    with 4 b us show ?thesis by (simp add: prim) (simp add: Cons)
  qed
qed

lemma class_name_valid:
  assumes "list_all token_ok ts" and "sep \<in> {0x2e, 0x2f}"
  shows "IsValidClassName kDescriptor sep (token_string ts @ 0 # rest)
      = Some (chars_of ts = [0x56] \<or> element_descriptor (ucast sep) (chars_of ts) \<or> array_descriptor (ucast sep) (chars_of ts))" (is ?descriptor)
    and "IsValidClassName kName sep (token_string ts @ 0 # rest)
      = Some (class_name (ucast sep) (chars_of ts) \<or> array_descriptor (ucast sep) (chars_of ts))" (is ?name)
proof -
  from skip_brackets_units [OF assms(1), of 0 rest] obtain k us where
    k: "skip_brackets 0 (token_string ts @ 0 # rest) = Some (k, token_string us @ 0 # rest)" and us: "list_all token_ok us"
    and ts: "chars_of ts = replicate k 0x5b @ chars_of us" and hd: "chars_of us = [] \<or> hd (chars_of us) \<noteq> 0x5b"
    by auto
  have sep: "ucast sep \<in> {0x2e, 0x2f :: u16}" using assms(2) by auto
  note el = element_units [OF us assms(2), of rest] and ar = array_descriptor_replicate [OF hd, of "ucast sep"]
  have "replicate k 0x5b @ chars_of us = [0x56] \<longleftrightarrow> k = 0 \<and> chars_of us = [0x56]" by (cases k) auto
  moreover have "element_descriptor (ucast sep) (replicate k 0x5b @ chars_of us) \<longleftrightarrow> k = 0 \<and> element_descriptor (ucast sep) (chars_of us)"
    by (cases k) (auto elim: element_head)
  ultimately show ?descriptor
    using k el [of "k = 0"] ar [of k] by (auto simp: IsValidClassName_def Let_def ts)
  have "\<not> class_name (ucast sep) (replicate k 0x5b @ chars_of us)" if "0 < k"
  proof -
    from that obtain l where l: "k = Suc l" by (cases k) auto
    have "next_char (0x5b # us) = None" for us by (simp add: next_char.simps leading_surrogate_def simple_unit_def)
    then have "\<not> class_units kName (ucast sep) True (0x5b # us)" for us by (subst class_units.simps) simp
    then show ?thesis using class_units_iff [OF sep, of kName] by (simp add: l name_end_def)
  qed
  moreover have "class_name_loop kName sep True (token_string us @ 0 # rest) = Some (class_name (ucast sep) (chars_of us))"
    using class_name_loop_units [OF us assms(2), of kName True rest] class_units_iff [OF sep, of kName] by (simp add: name_end_def)
  ultimately show ?name
    using k el [of "k = 0"] ar [of k] by (cases "k = 0") (auto simp: IsValidClassName_def Let_def ts)
qed

lemma member_name_valid:
  assumes "list_all token_ok ts"
  shows "IsValidMemberName (token_string ts @ 0 # rest) = Some (member_name (chars_of ts))"
proof (cases ts)
  case Nil
  then show ?thesis by (auto simp: IsValidMemberName_def member_name_def elim: simple_name_head)
next
  case (Cons t ts')
  then have t: "token_ok t" "list_all token_ok ts'" using assms by simp_all
  obtain b bs where b: "token_bytes t = b # bs" "b \<noteq> 0" by (rule token_bytes_next [of t])
  have us: "chars_of ts = fst t # (if snd t = 0 then [] else [snd t]) @ chars_of ts'" by (simp add: Cons token_chars_eq)
  show ?thesis
  proof (cases "b = 0x3c")
    case True
    then have t': "t = (0x3c, 0)" using ascii_byte [OF t(1), of "0x3c"] b by simp
    have "\<not> simple_name (0x3c # cs)" for cs by (auto elim: simple_name_head)
    with t' member_name_loop_units [OF t(2), of True rest] show ?thesis
      by (auto simp: Cons IsValidMemberName_def member_name_def token_bytes_def token_chars_def char_bytes_def member_units_iff)
  next
    case False
    then have "fst t \<noteq> 0x3c" using first_unit [OF t(1), of "0x3c"] b by simp
    then have "member_name (chars_of ts) \<longleftrightarrow> member_units False (chars_of ts)"
      unfolding us by (auto simp: member_name_def member_units_iff)
    moreover have "IsValidMemberName (token_string ts @ 0 # rest) = member_name_loop False (token_string ts @ 0 # rest)"
      using False b by (simp add: IsValidMemberName_def Cons)
    ultimately show ?thesis using member_name_loop_units [OF assms, of False rest] by simp
  qed
qed

text \<open>The two encodings of a string: the form of DEX files, and that of the runtime's own encoder.\<close>

definition encoding_of :: "u16 list \<Rightarrow> u8 list \<Rightarrow> bool" where
  "encoding_of us bs \<longleftrightarrow> bs = mutf8 us \<or> bs = ConvertUtf16ToModifiedUtf8 us"

lemma encoding_tokens:
  assumes "encoding_of us bs"
  obtains ts where "list_all token_ok ts" "bs = token_string ts" "chars_of ts = us"
  using assms that [of "units us"] that [of "tokens us"] mutf8_units [of us] tokens_ok [of us] token_chars_tokens [of us]
    ConvertUtf16ToModifiedUtf8_tokens [of us]
  by (auto simp: encoding_of_def)

text \<open>
  Claim C21. The name checks decide the grammar of the DEX format on every well-formed string: for a string of
  UTF-16 units, encoded in modified UTF-8 in the form of DEX files or as the runtime encodes it and followed by
  the terminator, \<open>IsValidDescriptor\<close> answers whether the units are a type descriptor (\<open>V\<close>, or at most 255
  brackets and the letter of a primitive type or \<open>L\<close>, non-empty components of name characters with single slashes
  between them, and \<open>;\<close>), \<open>IsValidMemberName\<close> whether they are a name or a name in angle brackets, and
  \<open>IsValidBinaryClassName\<close> and \<open>IsValidJniClassName\<close> whether they are a class name with dots or slashes or an
  array descriptor. The name characters are the ranges of the format, with surrogates in pairs only.
\<close>

theorem descriptors_decided:
  assumes "encoding_of us bs"
  shows "IsValidDescriptor (bs @ 0 # rest) = Some (type_descriptor us)
    \<and> IsValidMemberName (bs @ 0 # rest) = Some (member_name us)
    \<and> IsValidBinaryClassName (bs @ 0 # rest) = Some (class_name 0x2e us \<or> array_descriptor 0x2e us)
    \<and> IsValidJniClassName (bs @ 0 # rest) = Some (class_name 0x2f us \<or> array_descriptor 0x2f us)"
proof -
  from assms obtain ts where ts: "list_all token_ok ts" "bs = token_string ts" "chars_of ts = us" by (rule encoding_tokens)
  show ?thesis
    using class_name_valid [OF ts(1), of "0x2f" rest] class_name_valid [OF ts(1), of "0x2e" rest] member_name_valid [OF ts(1), of rest] ts
    by (simp add: IsValidDescriptor_def IsValidBinaryClassName_def IsValidJniClassName_def type_descriptor_def)
qed

text \<open>\<open>[La/\<close> and U+e9 and \<open>;\<close>.\<close>

theorem descriptors_decided_witness:
  "encoding_of [0x5b, 0x4c, 0x61, 0x2f, 0xe9, 0x3b] [0x5b, 0x4c, 0x61, 0x2f, 0xc3, 0xa9, 0x3b]
    \<and> type_descriptor [0x5b, 0x4c, 0x61, 0x2f, 0xe9, 0x3b]"
proof -
  have e: "encoding_of [0x5b, 0x4c, 0x61, 0x2f, 0xe9, 0x3b] [0x5b, 0x4c, 0x61, 0x2f, 0xc3, 0xa9, 0x3b]" by code_simp
  have "IsValidDescriptor ([0x5b, 0x4c, 0x61, 0x2f, 0xc3, 0xa9, 0x3b] @ 0 # []) = Some True" by code_simp
  with descriptors_decided [OF e, of "[]"] e show ?thesis by simp
qed

text \<open>
  Bytes that are no well-formed modified UTF-8 are another matter: the second byte of a character is not looked
  at, so a lone first byte takes the terminator with it. The C string of the bytes \<open>4c c3\<close> passes as a descriptor
  when \<open>3b 00\<close> happens to follow it.
\<close>

lemma terminator_taken: "IsValidDescriptor [0x4c, 0xc3, 0x00, 0x3b, 0x00] = Some True"
  by code_simp

end
