(* ===== verification/DexFileVerifier.thy ===== *)
theory DexFileVerifier
  imports Descriptor CodeItem ClassData
begin

text \<open>
  The DEX file verifier: \<open>art/runtime/dex_file_verifier.h\<close> and \<open>dex_file_verifier.cc\<close>. It checks the
  header, the map, every item in the order of the file (\<open>CheckIntraSection\<close>), then the references between
  items (\<open>CheckInterSection\<close>).

  A check has one of three results: \<open>None\<close>, the C++ reads outside the file, dereferences null or exhausts the
  stack; \<open>Some None\<close>, it reports an error and returns false; \<open>Some (Some x)\<close>, it goes on. The constant
  members of the object are a record. Of the others, \<open>ptr_\<close> is an argument and, where it moves, part of the
  result; so are \<open>previous_item_\<close>, \<open>offset_to_type_map_\<close> and \<open>defined_classes_\<close> for the functions that use
  them. After a false nothing reads them, and the message is left out.
\<close>

section \<open>Verdicts\<close>

type_synonym 'a verdict = "'a option option"

abbreviation accept :: "'a \<Rightarrow> 'a verdict" where
  "accept x \<equiv> Some (Some x)"

definition require :: "bool \<Rightarrow> 'a verdict \<Rightarrow> 'a verdict" where
  "require b k = (if b then k else Some None)"

definition and_then :: "'a verdict \<Rightarrow> ('a \<Rightarrow> 'b verdict) \<Rightarrow> 'b verdict" where
  "and_then m k = (case m of None \<Rightarrow> None | Some None \<Rightarrow> Some None | Some (Some x) \<Rightarrow> k x)"

named_theorems accepts \<open>what it means that a check goes on\<close>

lemma require_accepts [accepts]: "require b k = accept x \<longleftrightarrow> b \<and> k = accept x"
  by (simp add: require_def)

lemma and_then_accepts [accepts]: "and_then m k = accept x \<longleftrightarrow> (\<exists>y. m = accept y \<and> k y = accept x)"
  by (simp add: and_then_def split: option.splits)

lemma and_then_cong [fundef_cong]:
  "m = m' \<Longrightarrow> (\<And>x. m' = accept x \<Longrightarrow> k x = k' x) \<Longrightarrow> and_then m k = and_then m' k'"
  by (simp add: and_then_def split: option.splits)

lemma require_cong [fundef_cong]: "b = b' \<Longrightarrow> (b' \<Longrightarrow> k = k') \<Longrightarrow> require b k = require b' k'"
  by (simp add: require_def)

lemmas [accepts] = bind_eq_Some_conv

section \<open>The verifier object\<close>

text \<open>\<open>begin_address\<close> is \<open>begin_\<close> as an integer, \<open>address_max\<close> the greatest \<open>uintptr_t\<close>; \<open>stack_depth\<close> is how
  many nested calls of \<open>CheckEncodedValue\<close> the stack has room for.\<close>

record DexFileVerifier =
  verified_file :: DexFile
  begin_address :: nat
  address_max :: nat
  stack_depth :: nat

abbreviation file_bytes :: "DexFileVerifier \<Rightarrow> buffer" where
  "file_bytes v \<equiv> begin_of (verified_file v)"

abbreviation (input) checksum_off :: nat where "checksum_off \<equiv> 8"
abbreviation (input) endian_tag_off :: nat where "endian_tag_off \<equiv> 40"
abbreviation (input) link_size_off :: nat where "link_size_off \<equiv> 44"
abbreviation (input) link_off_off :: nat where "link_off_off \<equiv> 48"
abbreviation (input) map_off_off :: nat where "map_off_off \<equiv> 52"
abbreviation (input) data_size_off :: nat where "data_size_off \<equiv> 104"

text \<open>\<open>header_->field\<close>.\<close>

definition header_at :: "DexFileVerifier \<Rightarrow> nat \<Rightarrow> u32 option" where
  "header_at v off = header_field (verified_file v) off"

abbreviation (input) kDexTypeHeaderItem :: u16 where "kDexTypeHeaderItem \<equiv> 0x0000"
abbreviation (input) kDexTypeStringIdItem :: u16 where "kDexTypeStringIdItem \<equiv> 0x0001"
abbreviation (input) kDexTypeTypeIdItem :: u16 where "kDexTypeTypeIdItem \<equiv> 0x0002"
abbreviation (input) kDexTypeProtoIdItem :: u16 where "kDexTypeProtoIdItem \<equiv> 0x0003"
abbreviation (input) kDexTypeFieldIdItem :: u16 where "kDexTypeFieldIdItem \<equiv> 0x0004"
abbreviation (input) kDexTypeMethodIdItem :: u16 where "kDexTypeMethodIdItem \<equiv> 0x0005"
abbreviation (input) kDexTypeClassDefItem :: u16 where "kDexTypeClassDefItem \<equiv> 0x0006"
abbreviation (input) kDexTypeMapList :: u16 where "kDexTypeMapList \<equiv> 0x1000"
abbreviation (input) kDexTypeTypeList :: u16 where "kDexTypeTypeList \<equiv> 0x1001"
abbreviation (input) kDexTypeAnnotationSetRefList :: u16 where "kDexTypeAnnotationSetRefList \<equiv> 0x1002"
abbreviation (input) kDexTypeAnnotationSetItem :: u16 where "kDexTypeAnnotationSetItem \<equiv> 0x1003"
abbreviation (input) kDexTypeClassDataItem :: u16 where "kDexTypeClassDataItem \<equiv> 0x2000"
abbreviation (input) kDexTypeCodeItem :: u16 where "kDexTypeCodeItem \<equiv> 0x2001"
abbreviation (input) kDexTypeStringDataItem :: u16 where "kDexTypeStringDataItem \<equiv> 0x2002"
abbreviation (input) kDexTypeDebugInfoItem :: u16 where "kDexTypeDebugInfoItem \<equiv> 0x2003"
abbreviation (input) kDexTypeAnnotationItem :: u16 where "kDexTypeAnnotationItem \<equiv> 0x2004"
abbreviation (input) kDexTypeEncodedArrayItem :: u16 where "kDexTypeEncodedArrayItem \<equiv> 0x2005"
abbreviation (input) kDexTypeAnnotationsDirectoryItem :: u16 where "kDexTypeAnnotationsDirectoryItem \<equiv> 0x2006"

definition MapTypeToBitMask :: "u16 \<Rightarrow> u32" where
  "MapTypeToBitMask map_type =
     (if map_type = kDexTypeHeaderItem then 0x1
      else if map_type = kDexTypeStringIdItem then 0x2
      else if map_type = kDexTypeTypeIdItem then 0x4
      else if map_type = kDexTypeProtoIdItem then 0x8
      else if map_type = kDexTypeFieldIdItem then 0x10
      else if map_type = kDexTypeMethodIdItem then 0x20
      else if map_type = kDexTypeClassDefItem then 0x40
      else if map_type = kDexTypeMapList then 0x80
      else if map_type = kDexTypeTypeList then 0x100
      else if map_type = kDexTypeAnnotationSetRefList then 0x200
      else if map_type = kDexTypeAnnotationSetItem then 0x400
      else if map_type = kDexTypeClassDataItem then 0x800
      else if map_type = kDexTypeCodeItem then 0x1000
      else if map_type = kDexTypeStringDataItem then 0x2000
      else if map_type = kDexTypeDebugInfoItem then 0x4000
      else if map_type = kDexTypeAnnotationItem then 0x8000
      else if map_type = kDexTypeEncodedArrayItem then 0x10000
      else if map_type = kDexTypeAnnotationsDirectoryItem then 0x20000
      else 0)"

definition IsDataSectionType :: "u16 \<Rightarrow> bool" where
  "IsDataSectionType map_type \<longleftrightarrow>
     \<not> (map_type = kDexTypeHeaderItem \<or> map_type = kDexTypeStringIdItem \<or> map_type = kDexTypeTypeIdItem
        \<or> map_type = kDexTypeProtoIdItem \<or> map_type = kDexTypeFieldIdItem \<or> map_type = kDexTypeMethodIdItem
        \<or> map_type = kDexTypeClassDefItem)"

section \<open>Bounds\<close>

text \<open>The start of the list is a pointer into the file or behind it, so it is not below \<open>begin_\<close>; the element
  size is not 0 at any call.\<close>

definition CheckListSize :: "DexFileVerifier \<Rightarrow> ptr \<Rightarrow> nat \<Rightarrow> nat \<Rightarrow> bool" where
  "CheckListSize v start count elem_size =
     (let available_bytes_till_end_of_mem = address_max v - (begin_address v + start);
          max_count = available_bytes_till_end_of_mem div elem_size
      in if max_count < count then False else start + count * elem_size \<le> Size (verified_file v))"

definition CheckList :: "DexFileVerifier \<Rightarrow> nat \<Rightarrow> ptr \<Rightarrow> ptr verdict" where
  "CheckList v element_size ptr =
     require (CheckListSize v ptr 1 4) (do {
       count \<leftarrow> load32 (file_bytes v) ptr;
       require (count > 0 \<longrightarrow> CheckListSize v (ptr + 4) (unat count) element_size)
         (accept (ptr + 4 + unat count * element_size))
     })"

definition CheckIndex :: "u32 \<Rightarrow> u32 \<Rightarrow> bool" where
  "CheckIndex field limit \<longleftrightarrow> field < limit"

definition CheckValidOffsetAndSize :: "DexFileVerifier \<Rightarrow> u32 \<Rightarrow> u32 \<Rightarrow> bool" where
  "CheckValidOffsetAndSize v offset n \<longleftrightarrow>
     \<not> (n = 0 \<and> offset \<noteq> 0) \<and> \<not> Size (verified_file v) \<le> unat offset"

section \<open>Header and map\<close>

text \<open>A pair of header fields, the offset and the size of a section.\<close>

definition check_section_field :: "DexFileVerifier \<Rightarrow> nat \<Rightarrow> nat \<Rightarrow> unit verdict" where
  "check_section_field v off_field size_field = do {
     off \<leftarrow> header_at v off_field;
     size \<leftarrow> header_at v size_field;
     require (CheckValidOffsetAndSize v off size) (accept ())
   }"

text \<open>\<open>adler32\<close> is zlib's checksum of a byte string, started from its initial value. The map's offset is checked
  against itself as a size, as in the source.\<close>

definition CheckHeader :: "(u8 list \<Rightarrow> u32) \<Rightarrow> DexFileVerifier \<Rightarrow> unit verdict" where
  "CheckHeader adler32 v = do {
     expected_size \<leftarrow> header_at v file_size_off;
     require (Size (verified_file v) = unat expected_size) (do {
       checksum \<leftarrow> header_at v checksum_off;
       require (adler32 (drop 12 (file_bytes v)) = checksum) (do {
         endian_tag \<leftarrow> header_at v endian_tag_off;
         require (endian_tag = 0x12345678) (do {
           header_size \<leftarrow> header_at v header_size_off;
           require (header_size = 112)
             (and_then (check_section_field v link_off_off link_size_off) (\<lambda>_.
              and_then (check_section_field v map_off_off map_off_off) (\<lambda>_.
              and_then (check_section_field v string_ids_off_off string_ids_size_off) (\<lambda>_.
              and_then (check_section_field v type_ids_off_off type_ids_size_off) (\<lambda>_.
              and_then (check_section_field v proto_ids_off_off proto_ids_size_off) (\<lambda>_.
              and_then (check_section_field v field_ids_off_off field_ids_size_off) (\<lambda>_.
              and_then (check_section_field v method_ids_off_off method_ids_size_off) (\<lambda>_.
              and_then (check_section_field v class_defs_off_off class_defs_size_off) (\<lambda>_.
              check_section_field v data_off_off data_size_off)))))))))
         }) }) })
   }"

record MapItem =
  mi_type :: u16
  mi_size :: u32
  mi_offset :: u32

definition read_MapItem :: "DexFileVerifier \<Rightarrow> ptr \<Rightarrow> MapItem option" where
  "read_MapItem v p = do {
     t \<leftarrow> load16 (file_bytes v) p;
     n \<leftarrow> load32 (file_bytes v) (p + 4);
     off \<leftarrow> load32 (file_bytes v) (p + 8);
     Some \<lparr>mi_type = t, mi_size = n, mi_offset = off\<rparr>
   }"

text \<open>The loop over the map, for the items from index \<open>i\<close>: it returns \<open>used_bits\<close>.\<close>

fun map_loop :: "DexFileVerifier \<Rightarrow> u32 \<Rightarrow> nat \<Rightarrow> nat \<Rightarrow> ptr \<Rightarrow> u32 \<Rightarrow> u32 \<Rightarrow> u32 \<Rightarrow> u32 verdict" where
  "map_loop v file_size i 0 p last_offset data_items_left used_bits = accept used_bits"
| "map_loop v file_size i (Suc n) p last_offset data_items_left used_bits = do {
     item \<leftarrow> read_MapItem v p;
     require (\<not> (last_offset \<ge> mi_offset item \<and> i \<noteq> 0))
      (require (\<not> mi_offset item \<ge> file_size)
        (require (IsDataSectionType (mi_type item) \<longrightarrow> \<not> mi_size item > data_items_left)
          (let data_items_left = (if IsDataSectionType (mi_type item) then data_items_left - mi_size item else data_items_left);
               the_bit = MapTypeToBitMask (mi_type item)
           in require (the_bit \<noteq> 0)
             (require (used_bits AND the_bit = 0)
               (map_loop v file_size (Suc i) n (p + 12) (mi_offset item) data_items_left (used_bits OR the_bit))))))
   }"

text \<open>An id section that the header has and the map has not.\<close>

definition section_missing :: "DexFileVerifier \<Rightarrow> u32 \<Rightarrow> u16 \<Rightarrow> nat \<Rightarrow> nat \<Rightarrow> bool option" where
  "section_missing v used_bits type off_field size_field = do {
     off \<leftarrow> header_at v off_field;
     size \<leftarrow> header_at v size_field;
     Some (used_bits AND MapTypeToBitMask type = 0 \<and> (off \<noteq> 0 \<or> size \<noteq> 0))
   }"

definition CheckMap :: "DexFileVerifier \<Rightarrow> unit verdict" where
  "CheckMap v = do {
     map_off \<leftarrow> header_at v map_off_off;
     let map_list = unat map_off;
     require (CheckListSize v map_list 1 16) (do {
       count \<leftarrow> load32 (file_bytes v) map_list;
       data_size \<leftarrow> header_at v data_size_off;
       file_size \<leftarrow> header_at v file_size_off;
       require (CheckListSize v (map_list + 4) (unat count) 12)
        (and_then (map_loop v file_size 0 (unat count) (map_list + 4) 0 data_size 0) (\<lambda>used_bits.
          require (used_bits AND MapTypeToBitMask kDexTypeHeaderItem \<noteq> 0)
           (require (used_bits AND MapTypeToBitMask kDexTypeMapList \<noteq> 0) (do {
             string_ids \<leftarrow> section_missing v used_bits kDexTypeStringIdItem string_ids_off_off string_ids_size_off;
             type_ids \<leftarrow> section_missing v used_bits kDexTypeTypeIdItem type_ids_off_off type_ids_size_off;
             proto_ids \<leftarrow> section_missing v used_bits kDexTypeProtoIdItem proto_ids_off_off proto_ids_size_off;
             field_ids \<leftarrow> section_missing v used_bits kDexTypeFieldIdItem field_ids_off_off field_ids_size_off;
             method_ids \<leftarrow> section_missing v used_bits kDexTypeMethodIdItem method_ids_off_off method_ids_size_off;
             class_defs \<leftarrow> section_missing v used_bits kDexTypeClassDefItem class_defs_off_off class_defs_size_off;
             require (\<not> string_ids \<and> \<not> type_ids \<and> \<not> proto_ids \<and> \<not> field_ids \<and> \<not> method_ids \<and> \<not> class_defs)
               (accept ())
           }))))
     })
   }"

section \<open>Encoded values\<close>

fun little_endian :: "buffer \<Rightarrow> ptr \<Rightarrow> nat \<Rightarrow> nat \<Rightarrow> u32 \<Rightarrow> u32 option" where
  "little_endian buf p i 0 result = Some result"
| "little_endian buf p i (Suc n) result = do {
     b \<leftarrow> load8 buf p;
     little_endian buf (Suc p) (Suc i) n (result OR push_bit (i * 8) (ucast b))
   }"

text \<open>When the bytes are not there, the error is noted but the result is 0 and the caller goes on.\<close>

definition ReadUnsignedLittleEndian :: "DexFileVerifier \<Rightarrow> nat \<Rightarrow> ptr \<Rightarrow> (u32 \<times> ptr) option" where
  "ReadUnsignedLittleEndian v n ptr =
     (if CheckListSize v ptr n 1
      then do { r \<leftarrow> little_endian (file_bytes v) ptr 0 n 0; Some (r, ptr + n) }
      else Some (0, ptr))"

text \<open>\<open>while (size--) CheckEncodedValue()\<close>; the argument \<open>check_value\<close> is that call.\<close>

fun check_values :: "(ptr \<Rightarrow> ptr verdict) \<Rightarrow> nat \<Rightarrow> ptr \<Rightarrow> ptr verdict" where
  "check_values check_value 0 ptr = accept ptr"
| "check_values check_value (Suc n) ptr = and_then (check_value ptr) (check_values check_value n)"

definition encoded_array :: "DexFileVerifier \<Rightarrow> (ptr \<Rightarrow> ptr verdict) \<Rightarrow> ptr \<Rightarrow> ptr verdict" where
  "encoded_array v check_value ptr = do {
     (size, ptr) \<leftarrow> DecodeUnsignedLeb128 (file_bytes v) ptr;
     check_values check_value (unat size) ptr
   }"

fun annotation_elements ::
  "DexFileVerifier \<Rightarrow> (ptr \<Rightarrow> ptr verdict) \<Rightarrow> nat \<Rightarrow> nat \<Rightarrow> u32 \<Rightarrow> ptr \<Rightarrow> ptr verdict" where
  "annotation_elements v check_value i 0 prev_idx ptr = accept ptr"
| "annotation_elements v check_value i (Suc n) prev_idx ptr = do {
     (idx, ptr) \<leftarrow> DecodeUnsignedLeb128 (file_bytes v) ptr;
     limit \<leftarrow> header_at v string_ids_size_off;
     require (CheckIndex idx limit)
      (require (\<not> (prev_idx \<ge> idx \<and> i \<noteq> 0))
        (and_then (check_value ptr) (annotation_elements v check_value (Suc i) n idx)))
   }"

definition encoded_annotation :: "DexFileVerifier \<Rightarrow> (ptr \<Rightarrow> ptr verdict) \<Rightarrow> ptr \<Rightarrow> ptr verdict" where
  "encoded_annotation v check_value ptr = do {
     (idx, ptr) \<leftarrow> DecodeUnsignedLeb128 (file_bytes v) ptr;
     limit \<leftarrow> header_at v type_ids_size_off;
     require (CheckIndex idx limit) (do {
       (size, ptr) \<leftarrow> DecodeUnsignedLeb128 (file_bytes v) ptr;
       annotation_elements v check_value 0 (unat size) 0 ptr
     })
   }"

text \<open>The index values: at most four bytes, below the size of a table.\<close>

definition index_value :: "DexFileVerifier \<Rightarrow> nat \<Rightarrow> u8 \<Rightarrow> ptr \<Rightarrow> ptr verdict" where
  "index_value v size_field value_arg ptr =
     require (\<not> value_arg > 3) (do {
       (idx, ptr) \<leftarrow> ReadUnsignedLittleEndian v (unat value_arg + 1) ptr;
       limit \<leftarrow> header_at v size_field;
       require (CheckIndex idx limit) (accept ptr)
     })"

primrec CheckEncodedValue :: "DexFileVerifier \<Rightarrow> nat \<Rightarrow> ptr \<Rightarrow> ptr verdict" where
  "CheckEncodedValue v 0 = (\<lambda>ptr. None)"
| "CheckEncodedValue v (Suc depth) = (\<lambda>ptr.
     require (CheckListSize v ptr 1 1) (do {
       header_byte \<leftarrow> load8 (file_bytes v) ptr;
       let ptr = ptr + 1;
       let value_type = header_byte AND 0x1f;
       let value_arg = drop_bit 5 header_byte;
       (if value_type = 0x00 then require (\<not> value_arg \<noteq> 0) (accept (ptr + 1))
        else if value_type = 0x02 \<or> value_type = 0x03
        then require (\<not> value_arg > 1) (accept (ptr + unat value_arg + 1))
        else if value_type = 0x04 \<or> value_type = 0x10
        then require (\<not> value_arg > 3) (accept (ptr + unat value_arg + 1))
        else if value_type = 0x06 \<or> value_type = 0x11 then accept (ptr + unat value_arg + 1)
        else if value_type = 0x17 then index_value v string_ids_size_off value_arg ptr
        else if value_type = 0x18 then index_value v type_ids_size_off value_arg ptr
        else if value_type = 0x19 \<or> value_type = 0x1b then index_value v field_ids_size_off value_arg ptr
        else if value_type = 0x1a then index_value v method_ids_size_off value_arg ptr
        else if value_type = 0x1c
        then require (\<not> value_arg \<noteq> 0) (encoded_array v (CheckEncodedValue v depth) ptr)
        else if value_type = 0x1d
        then require (\<not> value_arg \<noteq> 0) (encoded_annotation v (CheckEncodedValue v depth) ptr)
        else if value_type = 0x1e then require (\<not> value_arg \<noteq> 0) (accept ptr)
        else if value_type = 0x1f then require (\<not> value_arg > 1) (accept ptr)
        else Some None)
     }))"

definition CheckEncodedArray :: "DexFileVerifier \<Rightarrow> ptr \<Rightarrow> ptr verdict" where
  "CheckEncodedArray v = encoded_array v (CheckEncodedValue v (stack_depth v))"

definition CheckEncodedAnnotation :: "DexFileVerifier \<Rightarrow> ptr \<Rightarrow> ptr verdict" where
  "CheckEncodedAnnotation v = encoded_annotation v (CheckEncodedValue v (stack_depth v))"

section \<open>Items\<close>

abbreviation (input) kAccPrivate :: u32 where "kAccPrivate \<equiv> 0x0002"
abbreviation (input) kAccSynchronized :: u32 where "kAccSynchronized \<equiv> 0x0020"
abbreviation (input) kAccAbstract :: u32 where "kAccAbstract \<equiv> 0x0400"
abbreviation (input) kAccJavaFlagsMask :: u32 where "kAccJavaFlagsMask \<equiv> 0xffff"
abbreviation (input) kAccDeclaredSynchronized :: u32 where "kAccDeclaredSynchronized \<equiv> 0x00020000"

definition CheckClassDataItemField :: "DexFileVerifier \<Rightarrow> u32 \<Rightarrow> u32 \<Rightarrow> bool \<Rightarrow> unit verdict" where
  "CheckClassDataItemField v idx flags expect_static = do {
     limit \<leftarrow> header_at v field_ids_size_off;
     require (CheckIndex idx limit)
      (let is_static = flags AND kAccStatic \<noteq> 0 in
       require (is_static = expect_static)
        (require (flags AND NOT kAccJavaFlagsMask = 0) (accept ())))
   }"

definition CheckClassDataItemMethod :: "DexFileVerifier \<Rightarrow> u32 \<Rightarrow> u32 \<Rightarrow> u32 \<Rightarrow> bool \<Rightarrow> unit verdict" where
  "CheckClassDataItemMethod v idx flags code_offset expect_direct = do {
     limit \<leftarrow> header_at v method_ids_size_off;
     require (CheckIndex idx limit)
      (let is_direct = flags AND (kAccStatic OR kAccPrivate OR kAccConstructor) \<noteq> 0;
           expect_code = flags AND (kAccNative OR kAccAbstract) = 0;
           is_synchronized = flags AND kAccSynchronized \<noteq> 0;
           allow_synchronized = flags AND kAccNative \<noteq> 0;
           access_method_mask = kAccJavaFlagsMask OR kAccConstructor OR kAccDeclaredSynchronized
       in require (is_direct = expect_direct)
        (require (\<not> (flags AND NOT access_method_mask \<noteq> 0 \<or> is_synchronized \<and> \<not> allow_synchronized))
          (require (\<not> (expect_code \<and> code_offset = 0))
            (require (\<not> (\<not> expect_code \<and> code_offset \<noteq> 0)) (accept ())))))
   }"

text \<open>The four loops of \<open>CheckIntraClassDataItem\<close> differ in the members they see and in the check of a member.\<close>

datatype member_kind = StaticField | InstanceField | DirectMethod | VirtualMethod

fun has_next :: "member_kind \<Rightarrow> ClassDataItemIterator \<Rightarrow> bool" where
  "has_next StaticField it = HasNextStaticField it"
| "has_next InstanceField it = HasNextInstanceField it"
| "has_next DirectMethod it = HasNextDirectMethod it"
| "has_next VirtualMethod it = HasNextVirtualMethod it"

fun check_member :: "DexFileVerifier \<Rightarrow> member_kind \<Rightarrow> ClassDataItemIterator \<Rightarrow> unit verdict" where
  "check_member v StaticField it = CheckClassDataItemField v (GetMemberIndex it) (GetRawMemberAccessFlags it) True"
| "check_member v InstanceField it = CheckClassDataItemField v (GetMemberIndex it) (GetRawMemberAccessFlags it) False"
| "check_member v DirectMethod it =
     CheckClassDataItemMethod v (GetMemberIndex it) (GetRawMemberAccessFlags it) (GetMethodCodeItemOffset it) True"
| "check_member v VirtualMethod it =
     CheckClassDataItemMethod v (GetMemberIndex it) (GetRawMemberAccessFlags it) (GetMethodCodeItemOffset it) False"

lemma member_next_pos: "has_next k it \<Longrightarrow> pos it < 2 ^ 32"
  by (cases k) (auto simp: HasNextStaticField_def HasNextInstanceField_def HasNextDirectMethod_def HasNextVirtualMethod_def
      intro: less_trans [OF _ unat_u32_less, simplified])

function members_loop :: "DexFileVerifier \<Rightarrow> member_kind \<Rightarrow> u32 \<Rightarrow> ClassDataItemIterator \<Rightarrow> ClassDataItemIterator verdict" where
  "members_loop v k prev_index it =
     (if has_next k it
      then let curr_index = GetMemberIndex it in
        require (\<not> curr_index < prev_index)
         (and_then (check_member v k it) (\<lambda>_.
           (case cdi_Next (file_bytes v) it of None \<Rightarrow> None | Some it' \<Rightarrow> members_loop v k curr_index it')))
      else accept it)"
  by pat_completeness auto
termination
  by (relation "measure (\<lambda>(v, k, prev, it). 2 ^ 32 - pos it)") (auto dest!: member_next_pos cdi_Next_keeps)

declare members_loop.simps [simp del]

definition CheckIntraClassDataItem :: "DexFileVerifier \<Rightarrow> ptr \<Rightarrow> ptr verdict" where
  "CheckIntraClassDataItem v ptr = do {
     it \<leftarrow> make_ClassDataItemIterator (file_bytes v) ptr;
     and_then (members_loop v StaticField 0 it) (\<lambda>it.
     and_then (members_loop v InstanceField 0 it) (\<lambda>it.
     and_then (members_loop v DirectMethod 0 it) (\<lambda>it.
     and_then (members_loop v VirtualMethod 0 it) (\<lambda>it. do {
       p \<leftarrow> cdi_EndDataPointer it;
       accept p
     }))))
   }"

text \<open>The typed handlers of a list, \<open>while (size-- > 0)\<close>.\<close>

fun handler_pairs :: "DexFileVerifier \<Rightarrow> u32 \<Rightarrow> nat \<Rightarrow> ptr \<Rightarrow> ptr verdict" where
  "handler_pairs v insns_size 0 ptr = accept ptr"
| "handler_pairs v insns_size (Suc n) ptr = do {
     (type_idx, ptr) \<leftarrow> DecodeUnsignedLeb128 (file_bytes v) ptr;
     limit \<leftarrow> header_at v type_ids_size_off;
     require (CheckIndex type_idx limit) (do {
       (addr, ptr) \<leftarrow> DecodeUnsignedLeb128 (file_bytes v) ptr;
       require (\<not> addr \<ge> insns_size) (handler_pairs v insns_size n ptr)
     })
   }"

text \<open>The loop of \<open>CheckAndGetHandlerOffsets\<close>: it returns the offsets of the lists from \<open>handlers_base\<close> on.\<close>

fun handler_offsets_loop :: "DexFileVerifier \<Rightarrow> u32 \<Rightarrow> ptr \<Rightarrow> nat \<Rightarrow> ptr \<Rightarrow> (u32 list \<times> ptr) verdict" where
  "handler_offsets_loop v insns_size handlers_base 0 ptr = accept ([], ptr)"
| "handler_offsets_loop v insns_size handlers_base (Suc n) ptr = do {
     let offset = ptr - handlers_base;
     (size, ptr) \<leftarrow> DecodeSignedLeb128 (file_bytes v) ptr;
     require (\<not> (sint size < -65536 \<or> sint size > 65536))
      (let catch_all = sint size \<le> 0 in
       and_then (handler_pairs v insns_size (nat \<bar>sint size\<bar>) ptr) (\<lambda>ptr.
        and_then
         (if catch_all
          then do { (addr, ptr) \<leftarrow> DecodeUnsignedLeb128 (file_bytes v) ptr; require (\<not> addr \<ge> insns_size) (accept ptr) }
          else accept ptr) (\<lambda>ptr.
          and_then (handler_offsets_loop v insns_size handlers_base n ptr) (\<lambda>(offsets, ptr).
            accept (word_of_nat offset # offsets, ptr)))))
   }"

definition CheckAndGetHandlerOffsets :: "DexFileVerifier \<Rightarrow> ptr \<Rightarrow> nat \<Rightarrow> ptr \<Rightarrow> (u32 list \<times> ptr) verdict" where
  "CheckAndGetHandlerOffsets v code_item handlers_size ptr = do {
     handlers_base \<leftarrow> GetCatchHandlerData (verified_file v) code_item 0;
     insns_size \<leftarrow> code_insns_size (verified_file v) code_item;
     handler_offsets_loop v insns_size handlers_base handlers_size ptr
   }"

fun check_try_items :: "DexFileVerifier \<Rightarrow> u32 \<Rightarrow> u32 list \<Rightarrow> nat \<Rightarrow> ptr \<Rightarrow> u32 \<Rightarrow> unit verdict" where
  "check_try_items v insns_size handler_offsets 0 try_items last_addr = accept ()"
| "check_try_items v insns_size handler_offsets (Suc n) try_items last_addr = do {
     ti \<leftarrow> read_TryItem (verified_file v) try_items;
     require (\<not> start_addr ti < last_addr)
      (require (\<not> start_addr ti \<ge> insns_size)
        (require (List.member handler_offsets (ucast (handler_off ti)))
          (let last_addr = start_addr ti + ucast (insn_count ti) in
           require (\<not> last_addr > insns_size)
            (check_try_items v insns_size handler_offsets n (try_items + 8) last_addr))))
   }"

definition code_outs_size :: "DexFile \<Rightarrow> ptr \<Rightarrow> u16 option" where
  "code_outs_size d code_item = load16 (begin_of d) (code_item + 4)"

text \<open>\<open>sizeof(DexFile::CodeItem)\<close> is 20: the fields up to \<open>insns_[1]\<close>, at offset 16, and two bytes of padding.\<close>

definition CheckIntraCodeItem :: "DexFileVerifier \<Rightarrow> ptr \<Rightarrow> ptr verdict" where
  "CheckIntraCodeItem v code_item =
     (let d = verified_file v in
      require (CheckListSize v code_item 1 20) (do {
        ins_size \<leftarrow> code_ins_size d code_item;
        registers_size \<leftarrow> code_registers_size d code_item;
        outs_size \<leftarrow> code_outs_size d code_item;
        require (\<not> ins_size > registers_size)
         (require (\<not> (outs_size > 5 \<and> outs_size > registers_size)) (do {
           insns_size \<leftarrow> code_insns_size d code_item;
           let insns_end = code_item + 16 + 2 * unat insns_size;
           require (CheckListSize v (code_item + 16) (unat insns_size) 2) (do {
             tries_size \<leftarrow> code_tries_size d code_item;
             (if tries_size = 0 then accept insns_end
              else do {
                spacer_ok \<leftarrow> (if insns_end mod 4 \<noteq> 0
                             then do { x \<leftarrow> load16 (file_bytes v) insns_end; Some (x = 0) } else Some True);
                require spacer_ok (do {
                  try_items \<leftarrow> GetTryItems d code_item 0;
                  ptr \<leftarrow> GetCatchHandlerData d code_item 0;
                  (handlers_size, ptr) \<leftarrow> DecodeUnsignedLeb128 (file_bytes v) ptr;
                  require (CheckListSize v try_items (unat tries_size) 8)
                   (require (\<not> (handlers_size = 0 \<or> handlers_size \<ge> 65536))
                     (and_then (CheckAndGetHandlerOffsets v code_item (unat handlers_size) ptr)
                       (\<lambda>(handler_offsets, ptr).
                         and_then (check_try_items v insns_size handler_offsets (unat tries_size) try_items 0)
                           (\<lambda>_. accept ptr))))
                })
              })
           })
         }))
      }))"

text \<open>The loop over the characters of a string.\<close>

fun string_chars :: "DexFileVerifier \<Rightarrow> nat \<Rightarrow> ptr \<Rightarrow> ptr verdict" where
  "string_chars v 0 ptr = accept ptr"
| "string_chars v (Suc n) ptr =
     require (\<not> ptr \<ge> Size (verified_file v)) (do {
       byte \<leftarrow> load8 (file_bytes v) ptr;
       let ptr = ptr + 1;
       let high = drop_bit 4 byte;
       (if high < 8 then require (byte \<noteq> 0) (string_chars v n ptr)
        else if high = 0x0c \<or> high = 0x0d
        then do {
          byte2 \<leftarrow> load8 (file_bytes v) ptr;
          require (byte2 AND 0xc0 = 0x80)
           (let value = push_bit 6 (ucast (byte AND 0x1f)) OR ucast (byte2 AND 0x3f) :: u16 in
            require (\<not> (value \<noteq> 0 \<and> value < 0x80)) (string_chars v n (ptr + 1))) }
        else if high = 0x0e
        then do {
          byte2 \<leftarrow> load8 (file_bytes v) ptr;
          require (byte2 AND 0xc0 = 0x80) (do {
            byte3 \<leftarrow> load8 (file_bytes v) (ptr + 1);
            require (byte3 AND 0xc0 = 0x80)
             (let value = push_bit 12 (ucast (byte AND 0x0f)) OR push_bit 6 (ucast (byte2 AND 0x3f))
                    OR ucast (byte3 AND 0x3f) :: u16 in
              require (\<not> value < 0x800) (string_chars v n (ptr + 2))) }) }
        else Some None)
     })"

definition CheckIntraStringDataItem :: "DexFileVerifier \<Rightarrow> ptr \<Rightarrow> ptr verdict" where
  "CheckIntraStringDataItem v ptr = do {
     (size, ptr) \<leftarrow> DecodeUnsignedLeb128 (file_bytes v) ptr;
     and_then (string_chars v (unat size) ptr) (\<lambda>ptr. do {
       b \<leftarrow> load8 (file_bytes v) ptr;
       require (b = 0) (accept (ptr + 1))
     })
   }"

text \<open>An index stored plus one, 0 for none.\<close>

definition optional_index :: "DexFileVerifier \<Rightarrow> nat \<Rightarrow> ptr \<Rightarrow> ptr verdict" where
  "optional_index v size_field ptr = do {
     (idx, ptr) \<leftarrow> DecodeUnsignedLeb128 (file_bytes v) ptr;
     limit \<leftarrow> header_at v size_field;
     require (idx \<noteq> 0 \<longrightarrow> CheckIndex (idx - 1) limit) (accept ptr)
   }"

fun debug_parameters :: "DexFileVerifier \<Rightarrow> nat \<Rightarrow> ptr \<Rightarrow> ptr verdict" where
  "debug_parameters v 0 ptr = accept ptr"
| "debug_parameters v (Suc n) ptr = and_then (optional_index v string_ids_size_off ptr) (debug_parameters v n)"

definition debug_register :: "DexFileVerifier \<Rightarrow> ptr \<Rightarrow> ptr verdict" where
  "debug_register v ptr = do {
     (reg_num, ptr) \<leftarrow> DecodeUnsignedLeb128 (file_bytes v) ptr;
     require (\<not> reg_num \<ge> 65536) (accept ptr)
   }"

text \<open>The operands of a debug opcode other than \<open>DBG_END_SEQUENCE\<close>.\<close>

definition debug_opcode :: "DexFileVerifier \<Rightarrow> u8 \<Rightarrow> ptr \<Rightarrow> ptr verdict" where
  "debug_opcode v opcode ptr =
     (if opcode = 0x01 then do { (_, ptr) \<leftarrow> DecodeUnsignedLeb128 (file_bytes v) ptr; accept ptr }
      else if opcode = 0x02 then do { (_, ptr) \<leftarrow> DecodeSignedLeb128 (file_bytes v) ptr; accept ptr }
      else if opcode = 0x03
      then and_then (debug_register v ptr) (\<lambda>ptr.
           and_then (optional_index v string_ids_size_off ptr) (\<lambda>ptr.
           optional_index v type_ids_size_off ptr))
      else if opcode = 0x05 \<or> opcode = 0x06 then debug_register v ptr
      else if opcode = 0x04
      then and_then (debug_register v ptr) (\<lambda>ptr.
           and_then (optional_index v string_ids_size_off ptr) (\<lambda>ptr.
           and_then (optional_index v type_ids_size_off ptr) (\<lambda>ptr.
           optional_index v string_ids_size_off ptr)))
      else if opcode = 0x09 then optional_index v string_ids_size_off ptr
      else accept ptr)"

lemma optional_index_moves: "optional_index v f p = accept q \<Longrightarrow> p < q"
  by (auto simp: optional_index_def accepts dest: DecodeUnsignedLeb128_consumes)

lemma debug_register_moves: "debug_register v p = accept q \<Longrightarrow> p < q"
  by (auto simp: debug_register_def accepts dest: DecodeUnsignedLeb128_consumes)

lemma debug_opcode_moves: "debug_opcode v opcode p = accept q \<Longrightarrow> p \<le> q"
  by (auto simp: debug_opcode_def accepts split: if_splits
      dest!: DecodeUnsignedLeb128_consumes(1) signed_leb.dec_progress optional_index_moves debug_register_moves)

function debug_opcodes :: "DexFileVerifier \<Rightarrow> ptr \<Rightarrow> ptr verdict" where
  "debug_opcodes v ptr =
     (case load8 (file_bytes v) ptr of
        None \<Rightarrow> None
      | Some opcode \<Rightarrow>
          if opcode = 0x00 then accept (ptr + 1)
          else and_then (debug_opcode v opcode (ptr + 1)) (debug_opcodes v))"
  by pat_completeness auto
termination
proof (relation "measure (\<lambda>(v, ptr). Size (verified_file v) - ptr)", goal_cases)
  case (2 v ptr opcode q)
  then show ?case using debug_opcode_moves [of v opcode "ptr + 1" q]
    by (auto simp: load8_def Size_def split: if_splits)
qed simp

declare debug_opcodes.simps [simp del]

definition CheckIntraDebugInfoItem :: "DexFileVerifier \<Rightarrow> ptr \<Rightarrow> ptr verdict" where
  "CheckIntraDebugInfoItem v ptr = do {
     (_, ptr) \<leftarrow> DecodeUnsignedLeb128 (file_bytes v) ptr;
     (parameters_size, ptr) \<leftarrow> DecodeUnsignedLeb128 (file_bytes v) ptr;
     require (\<not> parameters_size > 65536)
      (and_then (debug_parameters v (unat parameters_size) ptr) (debug_opcodes v))
   }"

definition CheckIntraAnnotationItem :: "DexFileVerifier \<Rightarrow> ptr \<Rightarrow> ptr verdict" where
  "CheckIntraAnnotationItem v ptr =
     require (CheckListSize v ptr 1 1) (do {
       visibility \<leftarrow> load8 (file_bytes v) ptr;
       require (visibility = 0x00 \<or> visibility = 0x01 \<or> visibility = 0x02) (CheckEncodedAnnotation v (ptr + 1))
     })"

text \<open>The three lists of an annotations directory: 8 bytes per entry, strictly ascending in the index at its start.\<close>

fun ascending_entries :: "DexFileVerifier \<Rightarrow> nat \<Rightarrow> nat \<Rightarrow> u32 \<Rightarrow> ptr \<Rightarrow> ptr verdict" where
  "ascending_entries v i 0 prev_idx item = accept item"
| "ascending_entries v i (Suc n) prev_idx item = do {
     idx \<leftarrow> load32 (file_bytes v) item;
     require (\<not> (prev_idx \<ge> idx \<and> i \<noteq> 0)) (ascending_entries v (Suc i) n idx (item + 8))
   }"

definition CheckIntraAnnotationsDirectoryItem :: "DexFileVerifier \<Rightarrow> ptr \<Rightarrow> ptr verdict" where
  "CheckIntraAnnotationsDirectoryItem v item =
     require (CheckListSize v item 1 16) (do {
       field_count \<leftarrow> load32 (file_bytes v) (item + 4);
       method_count \<leftarrow> load32 (file_bytes v) (item + 8);
       parameter_count \<leftarrow> load32 (file_bytes v) (item + 12);
       require (CheckListSize v (item + 16) (unat field_count) 8)
        (and_then (ascending_entries v 0 (unat field_count) 0 (item + 16)) (\<lambda>method_item.
         require (CheckListSize v method_item (unat method_count) 8)
          (and_then (ascending_entries v 0 (unat method_count) 0 method_item) (\<lambda>parameter_item.
           require (CheckListSize v parameter_item (unat parameter_count) 8)
            (ascending_entries v 0 (unat parameter_count) 0 parameter_item)))))
     })"

section \<open>Sections\<close>

fun padding_loop :: "DexFileVerifier \<Rightarrow> nat \<Rightarrow> ptr \<Rightarrow> ptr verdict" where
  "padding_loop v 0 ptr = accept ptr"
| "padding_loop v (Suc n) ptr = do {
     b \<leftarrow> load8 (file_bytes v) ptr;
     require (b = 0) (padding_loop v n (ptr + 1))
   }"

definition CheckPadding :: "DexFileVerifier \<Rightarrow> nat \<Rightarrow> u32 \<Rightarrow> ptr \<Rightarrow> ptr verdict" where
  "CheckPadding v offset aligned_offset ptr =
     (if offset < unat aligned_offset
      then require (CheckListSize v offset (unat aligned_offset - offset) 1)
             (padding_loop v (unat aligned_offset - offset) ptr)
      else accept ptr)"

text \<open>The switch of \<open>CheckIntraSectionIterate\<close>: one item of a section.\<close>

definition fixed_size_item :: "DexFileVerifier \<Rightarrow> nat \<Rightarrow> ptr \<Rightarrow> ptr verdict" where
  "fixed_size_item v n ptr = require (CheckListSize v ptr 1 n) (accept (ptr + n))"

definition intra_item :: "DexFileVerifier \<Rightarrow> u16 \<Rightarrow> ptr \<Rightarrow> ptr verdict" where
  "intra_item v type ptr =
     (if type = kDexTypeStringIdItem then fixed_size_item v 4 ptr
      else if type = kDexTypeTypeIdItem then fixed_size_item v 4 ptr
      else if type = kDexTypeProtoIdItem then fixed_size_item v 12 ptr
      else if type = kDexTypeFieldIdItem then fixed_size_item v 8 ptr
      else if type = kDexTypeMethodIdItem then fixed_size_item v 8 ptr
      else if type = kDexTypeClassDefItem then fixed_size_item v 32 ptr
      else if type = kDexTypeTypeList then CheckList v 2 ptr
      else if type = kDexTypeAnnotationSetRefList then CheckList v 4 ptr
      else if type = kDexTypeAnnotationSetItem then CheckList v 4 ptr
      else if type = kDexTypeClassDataItem then CheckIntraClassDataItem v ptr
      else if type = kDexTypeCodeItem then CheckIntraCodeItem v ptr
      else if type = kDexTypeStringDataItem then CheckIntraStringDataItem v ptr
      else if type = kDexTypeDebugInfoItem then CheckIntraDebugInfoItem v ptr
      else if type = kDexTypeAnnotationItem then CheckIntraAnnotationItem v ptr
      else if type = kDexTypeEncodedArrayItem then CheckEncodedArray v ptr
      else if type = kDexTypeAnnotationsDirectoryItem then CheckIntraAnnotationsDirectoryItem v ptr
      else Some None)"

text \<open>\<open>alignment_mask + 1\<close>.\<close>

definition intra_alignment :: "u16 \<Rightarrow> nat" where
  "intra_alignment type =
     (if type = kDexTypeClassDataItem \<or> type = kDexTypeStringDataItem \<or> type = kDexTypeDebugInfoItem
         \<or> type = kDexTypeAnnotationItem \<or> type = kDexTypeEncodedArrayItem then 1 else 4)"

type_synonym type_map = "u32 \<rightharpoonup> u16"

text \<open>\<open>SafeMap::Put\<close> is \<open>emplace\<close>: an entry that is there stays.\<close>

definition Put :: "type_map \<Rightarrow> u32 \<Rightarrow> u16 \<Rightarrow> type_map" where
  "Put m k t = (case m k of None \<Rightarrow> m(k \<mapsto> t) | Some _ \<Rightarrow> m)"

fun intra_items :: "DexFileVerifier \<Rightarrow> u16 \<Rightarrow> nat \<Rightarrow> nat \<Rightarrow> ptr \<Rightarrow> type_map \<Rightarrow> (ptr \<times> type_map) verdict" where
  "intra_items v type 0 offset ptr m = accept (ptr, m)"
| "intra_items v type (Suc n) offset ptr m =
     (let aligned_offset = RoundUp offset (intra_alignment type) in
      and_then (CheckPadding v offset (word_of_nat aligned_offset) ptr) (\<lambda>ptr.
      and_then (intra_item v type ptr) (\<lambda>ptr.
        let m = (if IsDataSectionType type then Put m (word_of_nat aligned_offset) type else m) in
        require (\<not> ptr > Size (verified_file v)) (intra_items v type n ptr ptr m))))"

definition CheckIntraSectionIterate ::
  "DexFileVerifier \<Rightarrow> nat \<Rightarrow> u32 \<Rightarrow> u16 \<Rightarrow> ptr \<Rightarrow> type_map \<Rightarrow> (ptr \<times> type_map) verdict" where
  "CheckIntraSectionIterate v offset section_count type ptr m = intra_items v type (unat section_count) offset ptr m"

text \<open>The header's offset and size of an id section.\<close>

definition id_section_fields :: "u16 \<Rightarrow> (nat \<times> nat) option" where
  "id_section_fields type =
     (if type = kDexTypeStringIdItem then Some (string_ids_off_off, string_ids_size_off)
      else if type = kDexTypeTypeIdItem then Some (type_ids_off_off, type_ids_size_off)
      else if type = kDexTypeProtoIdItem then Some (proto_ids_off_off, proto_ids_size_off)
      else if type = kDexTypeFieldIdItem then Some (field_ids_off_off, field_ids_size_off)
      else if type = kDexTypeMethodIdItem then Some (method_ids_off_off, method_ids_size_off)
      else if type = kDexTypeClassDefItem then Some (class_defs_off_off, class_defs_size_off)
      else None)"

definition CheckIntraIdSection ::
  "DexFileVerifier \<Rightarrow> u32 \<Rightarrow> u32 \<Rightarrow> u16 \<Rightarrow> ptr \<Rightarrow> type_map \<Rightarrow> (ptr \<times> type_map) verdict" where
  "CheckIntraIdSection v offset count type ptr m =
     (case id_section_fields type of
        None \<Rightarrow> Some None
      | Some (off_field, size_field) \<Rightarrow> do {
          expected_offset \<leftarrow> header_at v off_field;
          expected_size \<leftarrow> header_at v size_field;
          require (offset = expected_offset)
           (require (count = expected_size) (CheckIntraSectionIterate v (unat offset) count type ptr m)) })"

definition CheckIntraDataSection ::
  "DexFileVerifier \<Rightarrow> u32 \<Rightarrow> u32 \<Rightarrow> u16 \<Rightarrow> ptr \<Rightarrow> type_map \<Rightarrow> (ptr \<times> type_map) verdict" where
  "CheckIntraDataSection v offset count type ptr m = do {
     data_off \<leftarrow> header_at v data_off_off;
     data_size \<leftarrow> header_at v data_size_off;
     let data_end = unat data_off + unat data_size;
     require (\<not> (unat offset < unat data_off \<or> unat offset > data_end))
      (and_then (CheckIntraSectionIterate v (unat offset) count type ptr m) (\<lambda>(ptr, m).
        require (\<not> ptr > data_end) (accept (ptr, m))))
   }"

definition is_id_section :: "u16 \<Rightarrow> bool" where
  "is_id_section type \<longleftrightarrow> type = kDexTypeStringIdItem \<or> type = kDexTypeTypeIdItem \<or> type = kDexTypeProtoIdItem
     \<or> type = kDexTypeFieldIdItem \<or> type = kDexTypeMethodIdItem \<or> type = kDexTypeClassDefItem"

definition is_data_subsection :: "u16 \<Rightarrow> bool" where
  "is_data_subsection type \<longleftrightarrow> type = kDexTypeTypeList \<or> type = kDexTypeAnnotationSetRefList
     \<or> type = kDexTypeAnnotationSetItem \<or> type = kDexTypeClassDataItem \<or> type = kDexTypeCodeItem
     \<or> type = kDexTypeStringDataItem \<or> type = kDexTypeDebugInfoItem \<or> type = kDexTypeAnnotationItem
     \<or> type = kDexTypeEncodedArrayItem \<or> type = kDexTypeAnnotationsDirectoryItem"

text \<open>One entry of the map; the result is the offset behind the section, the pointer and the map of items.\<close>

definition intra_section ::
  "DexFileVerifier \<Rightarrow> u32 \<Rightarrow> MapItem \<Rightarrow> ptr \<Rightarrow> type_map \<Rightarrow> (nat \<times> ptr \<times> type_map) verdict" where
  "intra_section v map_count item ptr m =
     (let type = mi_type item in
      if type = kDexTypeHeaderItem
      then require (mi_size item = 1) (require (mi_offset item = 0) (do {
             header_size \<leftarrow> header_at v header_size_off;
             accept (unat header_size, unat header_size, m) }))
      else if is_id_section type
      then and_then (CheckIntraIdSection v (mi_offset item) (mi_size item) type ptr m) (\<lambda>(ptr, m). accept (ptr, ptr, m))
      else if type = kDexTypeMapList
      then require (mi_size item = 1) (do {
             map_off \<leftarrow> header_at v map_off_off;
             require (mi_offset item = map_off)
               (accept (unat (mi_offset item) + 4 + unat map_count * 12, ptr + 4 + unat map_count * 12, m)) })
      else if is_data_subsection type
      then and_then (CheckIntraDataSection v (mi_offset item) (mi_size item) type ptr m) (\<lambda>(ptr, m). accept (ptr, ptr, m))
      else Some None)"

fun intra_sections ::
  "DexFileVerifier \<Rightarrow> u32 \<Rightarrow> nat \<Rightarrow> ptr \<Rightarrow> nat \<Rightarrow> ptr \<Rightarrow> type_map \<Rightarrow> type_map verdict" where
  "intra_sections v map_count 0 p offset ptr m = accept m"
| "intra_sections v map_count (Suc n) p offset ptr m = do {
     item \<leftarrow> read_MapItem v p;
     and_then (CheckPadding v offset (mi_offset item) ptr) (\<lambda>ptr.
      require (\<not> offset > unat (mi_offset item))
       (and_then (intra_section v map_count item ptr m) (\<lambda>(offset, ptr, m).
         intra_sections v map_count n (p + 12) offset ptr m)))
   }"

definition CheckIntraSection :: "DexFileVerifier \<Rightarrow> type_map verdict" where
  "CheckIntraSection v = do {
     map_off \<leftarrow> header_at v map_off_off;
     count \<leftarrow> load32 (file_bytes v) (unat map_off);
     intra_sections v count (unat count) (unat map_off + 4) 0 0 Map.empty
   }"

section \<open>References between items\<close>

definition CheckOffsetToTypeMap :: "type_map \<Rightarrow> u32 \<Rightarrow> u16 \<Rightarrow> bool" where
  "CheckOffsetToTypeMap m offset type =
     (case m offset of None \<Rightarrow> False | Some t \<Rightarrow> t = type)"

text \<open>\<open>off != 0 && !CheckOffsetToTypeMap(off, type)\<close>.\<close>

definition bad_reference :: "type_map \<Rightarrow> u32 \<Rightarrow> u16 \<Rightarrow> bool" where
  "bad_reference m off type \<longleftrightarrow> off \<noteq> 0 \<and> \<not> CheckOffsetToTypeMap m off type"

text \<open>A null pointer makes the caller return false, as a bad index does.\<close>

definition CheckLoadStringByIdx :: "DexFileVerifier \<Rightarrow> u32 \<Rightarrow> cstr verdict" where
  "CheckLoadStringByIdx v idx = do {
     limit \<leftarrow> header_at v string_ids_size_off;
     require (CheckIndex idx limit) (StringDataByIdx (verified_file v) idx)
   }"

definition CheckLoadStringByTypeIdx :: "DexFileVerifier \<Rightarrow> u32 \<Rightarrow> cstr verdict" where
  "CheckLoadStringByTypeIdx v type_idx = do {
     limit \<leftarrow> header_at v type_ids_size_off;
     require (CheckIndex type_idx limit) (do {
       type_id \<leftarrow> GetTypeId (verified_file v) (unat type_idx);
       CheckLoadStringByIdx v (descriptor_idx type_id)
     })
   }"

definition CheckLoadFieldId :: "DexFileVerifier \<Rightarrow> u32 \<Rightarrow> FieldId verdict" where
  "CheckLoadFieldId v idx = do {
     limit \<leftarrow> header_at v field_ids_size_off;
     require (CheckIndex idx limit) (do { f \<leftarrow> GetFieldId (verified_file v) (unat idx); accept f })
   }"

definition CheckLoadMethodId :: "DexFileVerifier \<Rightarrow> u32 \<Rightarrow> MethodId verdict" where
  "CheckLoadMethodId v idx = do {
     limit \<leftarrow> header_at v method_ids_size_off;
     require (CheckIndex idx limit) (do { f \<leftarrow> GetMethodId (verified_file v) (unat idx); accept f })
   }"

text \<open>\<open>V\<close> is \<open>0x56\<close>, \<open>L\<close> is \<open>0x4c\<close>, \<open>[\<close> is \<open>0x5b\<close>; the other letters are the primitive types.\<close>

definition CheckShortyDescriptorMatch :: "u8 \<Rightarrow> cstr \<Rightarrow> bool \<Rightarrow> unit verdict" where
  "CheckShortyDescriptorMatch shorty_char descriptor is_return_type =
     (if shorty_char = 0x56 \<and> \<not> is_return_type then Some None
      else if shorty_char = 0x56 \<or> List.member primitive_letters shorty_char
      then do {
        (c, rest) \<leftarrow> next_byte descriptor;
        require (c = shorty_char) (do {
          (e, _) \<leftarrow> next_byte rest;
          require (e = 0) (accept ()) }) }
      else if shorty_char = 0x4c
      then do {
        (c, _) \<leftarrow> next_byte descriptor;
        require (c = 0x4c \<or> c = 0x5b) (accept ()) }
      else Some None)"

text \<open>\<open>IsValidDescriptor(s)\<close> and a condition on \<open>s[0]\<close>.\<close>

definition descriptor_starts :: "(u8 \<Rightarrow> bool) \<Rightarrow> cstr \<Rightarrow> bool option" where
  "descriptor_starts ok s = do {
     valid \<leftarrow> IsValidDescriptor s;
     (if valid then do { (c, _) \<leftarrow> next_byte s; Some (ok c) } else Some False)
   }"

text \<open>\<open>LOAD_STRING_BY_TYPE\<close> followed by that test.\<close>

definition check_type_descriptor :: "DexFileVerifier \<Rightarrow> u32 \<Rightarrow> (u8 \<Rightarrow> bool) \<Rightarrow> unit verdict" where
  "check_type_descriptor v type_idx ok =
     and_then (CheckLoadStringByTypeIdx v type_idx) (\<lambda>s. do { b \<leftarrow> descriptor_starts ok s; require b (accept ()) })"

definition check_member_name :: "DexFileVerifier \<Rightarrow> u32 \<Rightarrow> unit verdict" where
  "check_member_name v name_idx =
     and_then (CheckLoadStringByIdx v name_idx) (\<lambda>s. do { b \<leftarrow> IsValidMemberName s; require b (accept ()) })"

definition FindFirstClassDataDefiner :: "DexFileVerifier \<Rightarrow> ptr \<Rightarrow> u16 verdict" where
  "FindFirstClassDataDefiner v ptr = do {
     it \<leftarrow> make_ClassDataItemIterator (file_bytes v) ptr;
     (if HasNextStaticField it \<or> HasNextInstanceField it
      then and_then (CheckLoadFieldId v (GetMemberIndex it)) (\<lambda>field. accept (f_class_idx field))
      else if HasNextDirectMethod it \<or> HasNextVirtualMethod it
      then and_then (CheckLoadMethodId v (GetMemberIndex it)) (\<lambda>method. accept (m_class_idx method))
      else accept kDexNoIndex16)
   }"

definition FindFirstAnnotationsDirectoryDefiner :: "DexFileVerifier \<Rightarrow> ptr \<Rightarrow> u16 verdict" where
  "FindFirstAnnotationsDirectoryDefiner v item = do {
     fields_size \<leftarrow> load32 (file_bytes v) (item + 4);
     (if fields_size \<noteq> 0
      then do {
        idx \<leftarrow> load32 (file_bytes v) (item + 16);
        and_then (CheckLoadFieldId v idx) (\<lambda>field. accept (f_class_idx field)) }
      else do {
        methods_size \<leftarrow> load32 (file_bytes v) (item + 8);
        parameters_size \<leftarrow> load32 (file_bytes v) (item + 12);
        (if methods_size \<noteq> 0 \<or> parameters_size \<noteq> 0
         then do {
           idx \<leftarrow> load32 (file_bytes v) (item + 16);
           and_then (CheckLoadMethodId v idx) (\<lambda>method. accept (m_class_idx method)) }
         else accept kDexNoIndex16) })
   }"

text \<open>The entries of the id tables at a pointer.\<close>

definition read_TypeId :: "buffer \<Rightarrow> ptr \<Rightarrow> TypeId option" where
  "read_TypeId buf p = do { i \<leftarrow> load32 buf p; Some \<lparr>descriptor_idx = i\<rparr> }"

definition read_FieldId :: "buffer \<Rightarrow> ptr \<Rightarrow> FieldId option" where
  "read_FieldId buf p = do {
     c \<leftarrow> load16 buf p; t \<leftarrow> load16 buf (p + 2); n \<leftarrow> load32 buf (p + 4);
     Some \<lparr>f_class_idx = c, f_type_idx = t, f_name_idx = n\<rparr> }"

definition read_MethodId :: "buffer \<Rightarrow> ptr \<Rightarrow> MethodId option" where
  "read_MethodId buf p = do {
     c \<leftarrow> load16 buf p; t \<leftarrow> load16 buf (p + 2); n \<leftarrow> load32 buf (p + 4);
     Some \<lparr>m_class_idx = c, m_proto_idx = t, m_name_idx = n\<rparr> }"

definition read_ProtoId :: "buffer \<Rightarrow> ptr \<Rightarrow> ProtoId option" where
  "read_ProtoId buf p = do {
     s \<leftarrow> load32 buf p; r \<leftarrow> load16 buf (p + 4); q \<leftarrow> load32 buf (p + 8);
     Some \<lparr>shorty_idx = s, return_type_idx = r, parameters_off = q\<rparr> }"

definition read_ClassDef :: "buffer \<Rightarrow> ptr \<Rightarrow> ClassDef option" where
  "read_ClassDef buf p = do {
     c \<leftarrow> load16 buf p;
     a \<leftarrow> load32 buf (p + 4);
     s \<leftarrow> load16 buf (p + 8);
     i \<leftarrow> load32 buf (p + 12);
     f \<leftarrow> load32 buf (p + 16);
     n \<leftarrow> load32 buf (p + 20);
     k \<leftarrow> load32 buf (p + 24);
     v \<leftarrow> load32 buf (p + 28);
     Some \<lparr>class_idx = c, access_flags = a, superclass_idx = s, interfaces_off = i,
           source_file_idx = f, annotations_off = n, class_data_off = k, static_values_off = v\<rparr> }"

text \<open>The order test against \<open>previous_item_\<close>, nothing for the first item.\<close>

definition check_previous :: "(ptr \<Rightarrow> unit verdict) \<Rightarrow> ptr option \<Rightarrow> 'a \<Rightarrow> 'a verdict" where
  "check_previous f prev r = (case prev of None \<Rightarrow> accept r | Some p \<Rightarrow> and_then (f p) (\<lambda>_. accept r))"

definition string_order :: "DexFileVerifier \<Rightarrow> u32 \<Rightarrow> ptr \<Rightarrow> unit verdict" where
  "string_order v string_data prev = do {
     prev_data \<leftarrow> load32 (file_bytes v) prev;
     prev_str \<leftarrow> GetStringData (verified_file v) \<lparr>string_data_off = prev_data\<rparr>;
     str \<leftarrow> GetStringData (verified_file v) \<lparr>string_data_off = string_data\<rparr>;
     c \<leftarrow> CompareModifiedUtf8ToModifiedUtf8AsUtf16CodePointValues prev_str str;
     require (\<not> c \<ge> 0) (accept ())
   }"

definition CheckInterStringIdItem :: "DexFileVerifier \<Rightarrow> type_map \<Rightarrow> ptr option \<Rightarrow> ptr \<Rightarrow> ptr verdict" where
  "CheckInterStringIdItem v m prev ptr = do {
     string_data \<leftarrow> load32 (file_bytes v) ptr;
     require (CheckOffsetToTypeMap m string_data kDexTypeStringDataItem)
       (check_previous (string_order v string_data) prev (ptr + 4))
   }"

definition type_order :: "DexFileVerifier \<Rightarrow> TypeId \<Rightarrow> ptr \<Rightarrow> unit verdict" where
  "type_order v item prev = do {
     prev_item \<leftarrow> read_TypeId (file_bytes v) prev;
     require (\<not> descriptor_idx prev_item \<ge> descriptor_idx item) (accept ())
   }"

definition CheckInterTypeIdItem :: "DexFileVerifier \<Rightarrow> ptr option \<Rightarrow> ptr \<Rightarrow> ptr verdict" where
  "CheckInterTypeIdItem v prev ptr = do {
     item \<leftarrow> read_TypeId (file_bytes v) ptr;
     and_then (CheckLoadStringByIdx v (descriptor_idx item)) (\<lambda>descriptor. do {
       valid \<leftarrow> IsValidDescriptor descriptor;
       require valid (check_previous (type_order v item) prev (ptr + 4))
     })
   }"

text \<open>The shorty against the parameters, from the second character on.\<close>

fun shorty_parameters :: "DexFileVerifier \<Rightarrow> DexFileParameterIterator \<Rightarrow> cstr \<Rightarrow> unit verdict" where
  "shorty_parameters v it [] = None"
| "shorty_parameters v it (c # shorty) =
     (if pi_HasNext it \<and> c \<noteq> 0
      then do {
        type_idx \<leftarrow> pi_GetTypeIdx (verified_file v) it;
        limit \<leftarrow> header_at v type_ids_size_off;
        require (CheckIndex (ucast type_idx) limit)
         (case StringByTypeIdx (verified_file v) (ucast type_idx) of
            Some (Some descriptor) \<Rightarrow>
              and_then (CheckShortyDescriptorMatch c descriptor False) (\<lambda>_. shorty_parameters v (pi_Next it) shorty)
          | _ \<Rightarrow> None) }
      else require (\<not> (pi_HasNext it \<or> c \<noteq> 0)) (accept ()))"

function proto_parameters_order ::
  "DexFileVerifier \<Rightarrow> DexFileParameterIterator \<Rightarrow> DexFileParameterIterator \<Rightarrow> unit verdict" where
  "proto_parameters_order v curr_it prev_it =
     (if pi_HasNext curr_it \<and> pi_HasNext prev_it
      then do {
        prev_idx \<leftarrow> pi_GetTypeIdx (verified_file v) prev_it;
        curr_idx \<leftarrow> pi_GetTypeIdx (verified_file v) curr_it;
        (if prev_idx = kDexNoIndex16 then accept ()
         else if curr_idx = kDexNoIndex16 then Some None
         else if prev_idx < curr_idx then accept ()
         else if prev_idx > curr_idx then Some None
         else proto_parameters_order v (pi_Next curr_it) (pi_Next prev_it)) }
      else accept ())"
  by pat_completeness auto
termination
  by (relation "measure (\<lambda>(v, c, p). unat (pi_size c) - pi_pos c)") (auto simp: pi_HasNext_def pi_Next_def)

declare proto_parameters_order.simps [simp del]

definition proto_order :: "DexFileVerifier \<Rightarrow> ProtoId \<Rightarrow> ptr \<Rightarrow> unit verdict" where
  "proto_order v item prev = do {
     prev_item \<leftarrow> read_ProtoId (file_bytes v) prev;
     require (\<not> return_type_idx prev_item > return_type_idx item)
      (if return_type_idx prev_item = return_type_idx item
       then do {
         curr_it \<leftarrow> make_DexFileParameterIterator (verified_file v) item;
         prev_it \<leftarrow> make_DexFileParameterIterator (verified_file v) prev_item;
         proto_parameters_order v curr_it prev_it }
       else accept ())
   }"

definition CheckInterProtoIdItem :: "DexFileVerifier \<Rightarrow> type_map \<Rightarrow> ptr option \<Rightarrow> ptr \<Rightarrow> ptr verdict" where
  "CheckInterProtoIdItem v m prev ptr = do {
     item \<leftarrow> read_ProtoId (file_bytes v) ptr;
     and_then (CheckLoadStringByIdx v (shorty_idx item)) (\<lambda>shorty.
      require (\<not> bad_reference m (parameters_off item) kDexTypeTypeList)
       (and_then (CheckLoadStringByTypeIdx v (ucast (return_type_idx item))) (\<lambda>return_type. do {
         (c, shorty) \<leftarrow> next_byte shorty;
         and_then (CheckShortyDescriptorMatch c return_type True) (\<lambda>_. do {
           it \<leftarrow> make_DexFileParameterIterator (verified_file v) item;
           and_then (shorty_parameters v it shorty) (\<lambda>_.
             check_previous (proto_order v item) prev (ptr + 12))
         })
       })))
   }"

definition field_order :: "DexFileVerifier \<Rightarrow> FieldId \<Rightarrow> ptr \<Rightarrow> unit verdict" where
  "field_order v item prev = do {
     prev_item \<leftarrow> read_FieldId (file_bytes v) prev;
     (if f_class_idx prev_item > f_class_idx item then Some None
      else if f_class_idx prev_item = f_class_idx item
      then if f_name_idx prev_item > f_name_idx item then Some None
           else if f_name_idx prev_item = f_name_idx item
           then if f_type_idx prev_item \<ge> f_type_idx item then Some None else accept ()
           else accept ()
      else accept ())
   }"

definition CheckInterFieldIdItem :: "DexFileVerifier \<Rightarrow> ptr option \<Rightarrow> ptr \<Rightarrow> ptr verdict" where
  "CheckInterFieldIdItem v prev ptr = do {
     item \<leftarrow> read_FieldId (file_bytes v) ptr;
     and_then (check_type_descriptor v (ucast (f_class_idx item)) (\<lambda>c. c = 0x4c)) (\<lambda>_.
     and_then (check_type_descriptor v (ucast (f_type_idx item)) (\<lambda>c. c \<noteq> 0x56)) (\<lambda>_.
     and_then (check_member_name v (f_name_idx item)) (\<lambda>_.
       check_previous (field_order v item) prev (ptr + 8))))
   }"

definition method_order :: "DexFileVerifier \<Rightarrow> MethodId \<Rightarrow> ptr \<Rightarrow> unit verdict" where
  "method_order v item prev = do {
     prev_item \<leftarrow> read_MethodId (file_bytes v) prev;
     (if m_class_idx prev_item > m_class_idx item then Some None
      else if m_class_idx prev_item = m_class_idx item
      then if m_name_idx prev_item > m_name_idx item then Some None
           else if m_name_idx prev_item = m_name_idx item
           then if m_proto_idx prev_item \<ge> m_proto_idx item then Some None else accept ()
           else accept ()
      else accept ())
   }"

definition CheckInterMethodIdItem :: "DexFileVerifier \<Rightarrow> ptr option \<Rightarrow> ptr \<Rightarrow> ptr verdict" where
  "CheckInterMethodIdItem v prev ptr = do {
     item \<leftarrow> read_MethodId (file_bytes v) ptr;
     and_then (check_type_descriptor v (ucast (m_class_idx item)) (\<lambda>c. c = 0x4c \<or> c = 0x5b)) (\<lambda>_.
     and_then (check_member_name v (m_name_idx item)) (\<lambda>_. do {
       limit \<leftarrow> header_at v proto_ids_size_off;
       require (CheckIndex (ucast (m_proto_idx item)) limit)
         (check_previous (method_order v item) prev (ptr + 8))
     }))
   }"

text \<open>The loops over the interfaces of a class: their descriptors, then duplicates.\<close>

fun interface_descriptors :: "DexFileVerifier \<Rightarrow> ptr \<Rightarrow> nat \<Rightarrow> nat \<Rightarrow> unit verdict" where
  "interface_descriptors v interfaces i 0 = accept ()"
| "interface_descriptors v interfaces i (Suc n) = do {
     idx \<leftarrow> GetTypeItem (verified_file v) interfaces i;
     and_then (check_type_descriptor v (ucast idx) (\<lambda>c. c = 0x4c)) (\<lambda>_.
       interface_descriptors v interfaces (Suc i) n)
   }"

fun interface_before :: "DexFileVerifier \<Rightarrow> ptr \<Rightarrow> u16 \<Rightarrow> nat \<Rightarrow> nat \<Rightarrow> unit verdict" where
  "interface_before v interfaces idx1 j 0 = accept ()"
| "interface_before v interfaces idx1 j (Suc n) = do {
     idx2 \<leftarrow> GetTypeItem (verified_file v) interfaces j;
     require (idx1 \<noteq> idx2) (interface_before v interfaces idx1 (Suc j) n)
   }"

fun interface_duplicates :: "DexFileVerifier \<Rightarrow> ptr \<Rightarrow> nat \<Rightarrow> nat \<Rightarrow> unit verdict" where
  "interface_duplicates v interfaces i 0 = accept ()"
| "interface_duplicates v interfaces i (Suc n) = do {
     idx1 \<leftarrow> GetTypeItem (verified_file v) interfaces i;
     and_then (interface_before v interfaces idx1 0 i) (\<lambda>_. interface_duplicates v interfaces (Suc i) n)
   }"

definition check_interfaces :: "DexFileVerifier \<Rightarrow> ClassDef \<Rightarrow> unit verdict" where
  "check_interfaces v item =
     (case GetInterfacesList item of
        None \<Rightarrow> accept ()
      | Some interfaces \<Rightarrow> do {
          n \<leftarrow> TypeList_Size (verified_file v) interfaces;
          and_then (interface_descriptors v interfaces 0 (unat n)) (\<lambda>_.
            interface_duplicates v interfaces 1 (unat n - 1)) })"

text \<open>The first definer of class data or of annotations is the class, or there is none.\<close>

definition check_definer :: "u16 verdict \<Rightarrow> ClassDef \<Rightarrow> unit verdict" where
  "check_definer r item =
     and_then r (\<lambda>definer. require (\<not> (definer \<noteq> class_idx item \<and> definer \<noteq> kDexNoIndex16)) (accept ()))"

definition CheckInterClassDefItem ::
  "DexFileVerifier \<Rightarrow> type_map \<Rightarrow> u16 list \<Rightarrow> ptr \<Rightarrow> (ptr \<times> u16 list) verdict" where
  "CheckInterClassDefItem v m defined_classes ptr = do {
     item \<leftarrow> read_ClassDef (file_bytes v) ptr;
     require (\<not> List.member defined_classes (class_idx item))
      (and_then (check_type_descriptor v (ucast (class_idx item)) (\<lambda>c. c = 0x4c)) (\<lambda>_.
       require (access_flags item AND NOT kAccJavaFlagsMask = 0)
       (require (\<not> bad_reference m (interfaces_off item) kDexTypeTypeList)
       (require (\<not> bad_reference m (annotations_off item) kDexTypeAnnotationsDirectoryItem)
       (require (\<not> bad_reference m (class_data_off item) kDexTypeClassDataItem)
       (require (\<not> bad_reference m (static_values_off item) kDexTypeEncodedArrayItem)
       (and_then
         (if superclass_idx item \<noteq> kDexNoIndex16
          then check_type_descriptor v (ucast (superclass_idx item)) (\<lambda>c. c = 0x4c) else accept ()) (\<lambda>_.
       (and_then (check_interfaces v item) (\<lambda>_.
       (and_then
         (if class_data_off item \<noteq> 0
          then check_definer (FindFirstClassDataDefiner v (unat (class_data_off item))) item else accept ()) (\<lambda>_.
       (and_then
         (if annotations_off item \<noteq> 0
          then check_definer (FindFirstAnnotationsDirectoryDefiner v (unat (annotations_off item))) item
          else accept ()) (\<lambda>_.
       accept (ptr + 32, class_idx item # defined_classes)))))))))))))))
   }"

fun annotation_set_refs :: "DexFileVerifier \<Rightarrow> type_map \<Rightarrow> nat \<Rightarrow> ptr \<Rightarrow> ptr verdict" where
  "annotation_set_refs v m 0 item = accept item"
| "annotation_set_refs v m (Suc n) item = do {
     off \<leftarrow> load32 (file_bytes v) item;
     require (\<not> bad_reference m off kDexTypeAnnotationSetItem) (annotation_set_refs v m n (item + 4))
   }"

definition CheckInterAnnotationSetRefList :: "DexFileVerifier \<Rightarrow> type_map \<Rightarrow> ptr \<Rightarrow> ptr verdict" where
  "CheckInterAnnotationSetRefList v m list = do {
     count \<leftarrow> load32 (file_bytes v) list;
     annotation_set_refs v m (unat count) (list + 4)
   }"

fun annotation_set_entries :: "DexFileVerifier \<Rightarrow> type_map \<Rightarrow> nat \<Rightarrow> nat \<Rightarrow> u32 \<Rightarrow> ptr \<Rightarrow> ptr verdict" where
  "annotation_set_entries v m i 0 prev_idx offsets = accept offsets"
| "annotation_set_entries v m i (Suc n) prev_idx offsets = do {
     off \<leftarrow> load32 (file_bytes v) offsets;
     require (\<not> bad_reference m off kDexTypeAnnotationItem) (do {
       (idx, _) \<leftarrow> DecodeUnsignedLeb128 (file_bytes v) (unat off + 1);
       require (\<not> (prev_idx \<ge> idx \<and> i \<noteq> 0)) (annotation_set_entries v m (Suc i) n idx (offsets + 4))
     })
   }"

definition CheckInterAnnotationSetItem :: "DexFileVerifier \<Rightarrow> type_map \<Rightarrow> ptr \<Rightarrow> ptr verdict" where
  "CheckInterAnnotationSetItem v m set_item = do {
     count \<leftarrow> load32 (file_bytes v) set_item;
     annotation_set_entries v m 0 (unat count) 0 (set_item + 4)
   }"

function inter_fields :: "DexFileVerifier \<Rightarrow> u16 \<Rightarrow> ClassDataItemIterator \<Rightarrow> ClassDataItemIterator verdict" where
  "inter_fields v defining_class it =
     (if HasNextStaticField it \<or> HasNextInstanceField it
      then and_then (CheckLoadFieldId v (GetMemberIndex it)) (\<lambda>field.
           require (f_class_idx field = defining_class)
             (case cdi_Next (file_bytes v) it of None \<Rightarrow> None | Some it' \<Rightarrow> inter_fields v defining_class it'))
      else accept it)"
  by pat_completeness auto
termination
  by (relation "measure (\<lambda>(v, k, it). 2 ^ 32 - pos it)")
    (auto dest!: member_next_pos [of StaticField, simplified] member_next_pos [of InstanceField, simplified] cdi_Next_keeps)

declare inter_fields.simps [simp del]

function inter_methods ::
  "DexFileVerifier \<Rightarrow> type_map \<Rightarrow> u16 \<Rightarrow> ClassDataItemIterator \<Rightarrow> ClassDataItemIterator verdict" where
  "inter_methods v m defining_class it =
     (if HasNextDirectMethod it \<or> HasNextVirtualMethod it
      then require (\<not> bad_reference m (GetMethodCodeItemOffset it) kDexTypeCodeItem)
           (and_then (CheckLoadMethodId v (GetMemberIndex it)) (\<lambda>method.
            require (m_class_idx method = defining_class)
             (case cdi_Next (file_bytes v) it of None \<Rightarrow> None | Some it' \<Rightarrow> inter_methods v m defining_class it')))
      else accept it)"
  by pat_completeness auto
termination
  by (relation "measure (\<lambda>(v, m, k, it). 2 ^ 32 - pos it)")
    (auto dest!: member_next_pos [of DirectMethod, simplified] member_next_pos [of VirtualMethod, simplified] cdi_Next_keeps)

declare inter_methods.simps [simp del]

definition CheckInterClassDataItem :: "DexFileVerifier \<Rightarrow> type_map \<Rightarrow> ptr \<Rightarrow> ptr verdict" where
  "CheckInterClassDataItem v m ptr = do {
     it \<leftarrow> make_ClassDataItemIterator (file_bytes v) ptr;
     and_then (FindFirstClassDataDefiner v ptr) (\<lambda>defining_class.
     and_then (inter_fields v defining_class it) (\<lambda>it.
     and_then (inter_methods v m defining_class it) (\<lambda>it. do {
       p \<leftarrow> cdi_EndDataPointer it;
       accept p
     })))
   }"

fun annotated_fields :: "DexFileVerifier \<Rightarrow> type_map \<Rightarrow> u16 \<Rightarrow> nat \<Rightarrow> ptr \<Rightarrow> ptr verdict" where
  "annotated_fields v m defining_class 0 item = accept item"
| "annotated_fields v m defining_class (Suc n) item = do {
     idx \<leftarrow> load32 (file_bytes v) item;
     and_then (CheckLoadFieldId v idx) (\<lambda>field.
      require (f_class_idx field = defining_class) (do {
        off \<leftarrow> load32 (file_bytes v) (item + 4);
        require (CheckOffsetToTypeMap m off kDexTypeAnnotationSetItem) (annotated_fields v m defining_class n (item + 8))
      }))
   }"

text \<open>The annotations of methods and of parameters; they refer to items of different types.\<close>

fun annotated_methods :: "DexFileVerifier \<Rightarrow> type_map \<Rightarrow> u16 \<Rightarrow> u16 \<Rightarrow> nat \<Rightarrow> ptr \<Rightarrow> ptr verdict" where
  "annotated_methods v m type defining_class 0 item = accept item"
| "annotated_methods v m type defining_class (Suc n) item = do {
     idx \<leftarrow> load32 (file_bytes v) item;
     and_then (CheckLoadMethodId v idx) (\<lambda>method.
      require (m_class_idx method = defining_class) (do {
        off \<leftarrow> load32 (file_bytes v) (item + 4);
        require (CheckOffsetToTypeMap m off type) (annotated_methods v m type defining_class n (item + 8))
      }))
   }"

definition CheckInterAnnotationsDirectoryItem :: "DexFileVerifier \<Rightarrow> type_map \<Rightarrow> ptr \<Rightarrow> ptr verdict" where
  "CheckInterAnnotationsDirectoryItem v m item =
     and_then (FindFirstAnnotationsDirectoryDefiner v item) (\<lambda>defining_class. do {
       class_annotations_off \<leftarrow> load32 (file_bytes v) item;
       require (\<not> bad_reference m class_annotations_off kDexTypeAnnotationSetItem) (do {
         field_count \<leftarrow> load32 (file_bytes v) (item + 4);
         method_count \<leftarrow> load32 (file_bytes v) (item + 8);
         parameter_count \<leftarrow> load32 (file_bytes v) (item + 12);
         and_then (annotated_fields v m defining_class (unat field_count) (item + 16)) (\<lambda>item.
         and_then (annotated_methods v m kDexTypeAnnotationSetItem defining_class (unat method_count) item) (\<lambda>item.
         annotated_methods v m kDexTypeAnnotationSetRefList defining_class (unat parameter_count) item))
       })
     })"

text \<open>The switch of \<open>CheckInterSectionIterate\<close>: one item, with the classes defined so far.\<close>

definition inter_item ::
  "DexFileVerifier \<Rightarrow> type_map \<Rightarrow> u16 \<Rightarrow> ptr option \<Rightarrow> u16 list \<Rightarrow> ptr \<Rightarrow> (ptr \<times> u16 list) verdict" where
  "inter_item v m type prev classes ptr =
     (let keep = (\<lambda>r. and_then r (\<lambda>p. accept (p, classes))) in
      if type = kDexTypeStringIdItem then keep (CheckInterStringIdItem v m prev ptr)
      else if type = kDexTypeTypeIdItem then keep (CheckInterTypeIdItem v prev ptr)
      else if type = kDexTypeProtoIdItem then keep (CheckInterProtoIdItem v m prev ptr)
      else if type = kDexTypeFieldIdItem then keep (CheckInterFieldIdItem v prev ptr)
      else if type = kDexTypeMethodIdItem then keep (CheckInterMethodIdItem v prev ptr)
      else if type = kDexTypeClassDefItem then CheckInterClassDefItem v m classes ptr
      else if type = kDexTypeAnnotationSetRefList then keep (CheckInterAnnotationSetRefList v m ptr)
      else if type = kDexTypeAnnotationSetItem then keep (CheckInterAnnotationSetItem v m ptr)
      else if type = kDexTypeClassDataItem then keep (CheckInterClassDataItem v m ptr)
      else if type = kDexTypeAnnotationsDirectoryItem then keep (CheckInterAnnotationsDirectoryItem v m ptr)
      else Some None)"

definition inter_alignment :: "u16 \<Rightarrow> nat" where
  "inter_alignment type = (if type = kDexTypeClassDataItem then 1 else 4)"

text \<open>\<open>new_offset\<close> is a \<open>uint32_t\<close>.\<close>

fun inter_items ::
  "DexFileVerifier \<Rightarrow> type_map \<Rightarrow> u16 \<Rightarrow> nat \<Rightarrow> nat \<Rightarrow> ptr option \<Rightarrow> u16 list \<Rightarrow> u16 list verdict" where
  "inter_items v m type 0 offset prev classes = accept classes"
| "inter_items v m type (Suc n) offset prev classes =
     (let ptr = unat (word_of_nat (RoundUp offset (inter_alignment type)) :: u32) in
      and_then (inter_item v m type prev classes ptr) (\<lambda>(offset, classes).
        inter_items v m type n offset (Some ptr) classes))"

definition CheckInterSectionIterate ::
  "DexFileVerifier \<Rightarrow> type_map \<Rightarrow> u32 \<Rightarrow> u32 \<Rightarrow> u16 \<Rightarrow> u16 list \<Rightarrow> u16 list verdict" where
  "CheckInterSectionIterate v m offset count type classes = inter_items v m type (unat count) (unat offset) None classes"

definition skipped_section :: "u16 \<Rightarrow> bool" where
  "skipped_section type \<longleftrightarrow> type = kDexTypeHeaderItem \<or> type = kDexTypeMapList \<or> type = kDexTypeTypeList
     \<or> type = kDexTypeCodeItem \<or> type = kDexTypeStringDataItem \<or> type = kDexTypeDebugInfoItem
     \<or> type = kDexTypeAnnotationItem \<or> type = kDexTypeEncodedArrayItem"

definition cross_checked_section :: "u16 \<Rightarrow> bool" where
  "cross_checked_section type \<longleftrightarrow> type = kDexTypeStringIdItem \<or> type = kDexTypeTypeIdItem \<or> type = kDexTypeProtoIdItem
     \<or> type = kDexTypeFieldIdItem \<or> type = kDexTypeMethodIdItem \<or> type = kDexTypeClassDefItem
     \<or> type = kDexTypeAnnotationSetRefList \<or> type = kDexTypeAnnotationSetItem \<or> type = kDexTypeClassDataItem
     \<or> type = kDexTypeAnnotationsDirectoryItem"

fun inter_sections :: "DexFileVerifier \<Rightarrow> type_map \<Rightarrow> nat \<Rightarrow> ptr \<Rightarrow> u16 list \<Rightarrow> unit verdict" where
  "inter_sections v m 0 p classes = accept ()"
| "inter_sections v m (Suc n) p classes = do {
     item \<leftarrow> read_MapItem v p;
     and_then
      (if skipped_section (mi_type item) then accept classes
       else if cross_checked_section (mi_type item)
       then CheckInterSectionIterate v m (mi_offset item) (mi_size item) (mi_type item) classes
       else Some None)
      (inter_sections v m n (p + 12))
   }"

definition CheckInterSection :: "DexFileVerifier \<Rightarrow> type_map \<Rightarrow> unit verdict" where
  "CheckInterSection v m = do {
     map_off \<leftarrow> header_at v map_off_off;
     count \<leftarrow> load32 (file_bytes v) (unat map_off);
     inter_sections v m (unat count) (unat map_off + 4) []
   }"

definition verify_file :: "(u8 list \<Rightarrow> u32) \<Rightarrow> DexFileVerifier \<Rightarrow> unit verdict" where
  "verify_file adler32 v =
     and_then (CheckHeader adler32 v) (\<lambda>_.
     and_then (CheckMap v) (\<lambda>_.
     and_then (CheckIntraSection v) (\<lambda>m.
     CheckInterSection v m)))"

end
