(* ===== verification/SampleFile.thy ===== *)
theory SampleFile
  imports DexFileVerifier
begin

text \<open>
  Two small DEX files that the file verifier accepts. The first has a class with one static method whose code has a
  \<open>try\<close> block; the properties of verified files are applied to it. The second shows what the verifier does not
  check: the alignment of the tables.
\<close>

section \<open>The checksum\<close>

text \<open>The checksum function is zlib's, a parameter of \<open>verify_file\<close>. The samples are checked with the sums the
  zlib documentation gives for it: one of the bytes, one of the partial sums, both modulo 65521.\<close>

definition sample_adler32 :: "u8 list \<Rightarrow> u32" where
  "sample_adler32 bs = (let (a, b) = foldl (\<lambda>(a, b) x. let a = (a + ucast x) mod 65521 in (a, (b + a) mod 65521)) (1, 0) bs
     in 65536 * b + a)"

section \<open>A file with a class\<close>

definition class_bytes :: buffer where
  "class_bytes = [0x64, 0x65, 0x78, 0xa, 0x30, 0x33, 0x35, 0, 0x45, 0x19, 0x8a, 0xd2, 0, 0, 0, 0, 0, 0, 0, 0, 0, 0, 0, 0,
    0, 0, 0, 0, 0, 0, 0, 0, 0x68, 0x1, 0, 0, 0x70, 0, 0, 0, 0x78, 0x56, 0x34, 0x12, 0, 0, 0, 0,
    0, 0, 0, 0, 0xec, 0, 0, 0, 0x3, 0, 0, 0, 0x70, 0, 0, 0, 0x2, 0, 0, 0, 0x7c, 0, 0, 0,
    0x1, 0, 0, 0, 0x84, 0, 0, 0, 0, 0, 0, 0, 0, 0, 0, 0, 0x1, 0, 0, 0, 0x90, 0, 0, 0,
    0x1, 0, 0, 0, 0x98, 0, 0, 0, 0xb0, 0, 0, 0, 0xb8, 0, 0, 0, 0xd7, 0, 0, 0, 0xdc, 0, 0, 0,
    0xdf, 0, 0, 0, 0, 0, 0, 0, 0x1, 0, 0, 0, 0x1, 0, 0, 0, 0x1, 0, 0, 0, 0, 0, 0, 0,
    0, 0, 0, 0, 0x2, 0, 0, 0, 0, 0, 0, 0, 0x1, 0, 0, 0, 0xff, 0xff, 0, 0, 0, 0, 0, 0,
    0xff, 0xff, 0xff, 0xff, 0, 0, 0, 0, 0xe2, 0, 0, 0, 0, 0, 0, 0, 0x1, 0, 0, 0, 0, 0, 0x1, 0,
    0, 0, 0, 0, 0x2, 0, 0, 0, 0, 0, 0xe, 0, 0, 0, 0, 0, 0x1, 0, 0x1, 0, 0x1, 0, 0x1, 0x3,
    0x4c, 0x41, 0x3b, 0, 0x1, 0x56, 0, 0x1, 0x61, 0, 0, 0, 0x1, 0, 0, 0x9, 0xb8, 0x1, 0, 0, 0xa, 0, 0, 0,
    0, 0, 0, 0, 0x1, 0, 0, 0, 0, 0, 0, 0, 0x1, 0, 0, 0, 0x3, 0, 0, 0, 0x70, 0, 0, 0,
    0x2, 0, 0, 0, 0x2, 0, 0, 0, 0x7c, 0, 0, 0, 0x3, 0, 0, 0, 0x1, 0, 0, 0, 0x84, 0, 0, 0,
    0x5, 0, 0, 0, 0x1, 0, 0, 0, 0x90, 0, 0, 0, 0x6, 0, 0, 0, 0x1, 0, 0, 0, 0x98, 0, 0, 0,
    0x1, 0x20, 0, 0, 0x1, 0, 0, 0, 0xb8, 0, 0, 0, 0x2, 0x20, 0, 0, 0x3, 0, 0, 0, 0xd7, 0, 0, 0,
    0, 0x20, 0, 0, 0x1, 0, 0, 0, 0xe2, 0, 0, 0, 0, 0x10, 0, 0, 0x1, 0, 0, 0, 0xec, 0, 0, 0]"

definition class_file :: DexFile where
  "class_file = \<lparr>begin_of = class_bytes, string_ids = 112, type_ids = 124, field_ids = 0, method_ids = 144,
     proto_ids = 132, class_defs = 152\<rparr>"

definition class_verifier :: DexFileVerifier where
  "class_verifier = \<lparr>verified_file = class_file, begin_address = 4, address_max = 511, stack_depth = 10\<rparr>"

lemma class_file_opened: "make_DexFile (file_bytes class_verifier) = Some (verified_file class_verifier)"
  by code_simp

lemma class_file_accepted: "verify_file sample_adler32 class_verifier = accept ()"
  by code_simp

lemma class_file_size: "Size (verified_file class_verifier) = 360"
  by code_simp

section \<open>An unaligned table\<close>

definition unaligned_bytes :: buffer where
  "unaligned_bytes = [0x64, 0x65, 0x78, 0xa, 0x30, 0x33, 0x35, 0, 0x7e, 0x8, 0xd, 0x5f, 0, 0, 0, 0, 0, 0, 0, 0, 0, 0, 0, 0,
    0, 0, 0, 0, 0, 0, 0, 0, 0xcc, 0, 0, 0, 0x70, 0, 0, 0, 0x78, 0x56, 0x34, 0x12, 0, 0, 0, 0,
    0, 0, 0, 0, 0x8c, 0, 0, 0, 0x2, 0, 0, 0, 0x70, 0, 0, 0, 0x2, 0, 0, 0, 0x79, 0, 0, 0,
    0, 0, 0, 0, 0, 0, 0, 0, 0, 0, 0, 0, 0, 0, 0, 0, 0, 0, 0, 0, 0, 0, 0, 0,
    0, 0, 0, 0, 0, 0, 0, 0, 0x48, 0, 0, 0, 0x84, 0, 0, 0, 0x84, 0, 0, 0, 0x87, 0, 0, 0,
    0, 0, 0, 0, 0, 0, 0, 0, 0x1, 0, 0, 0, 0x1, 0x49, 0, 0x1, 0x56, 0, 0, 0, 0x5, 0, 0, 0,
    0, 0, 0, 0, 0x1, 0, 0, 0, 0, 0, 0, 0, 0x1, 0, 0, 0, 0x2, 0, 0, 0, 0x70, 0, 0, 0,
    0x2, 0, 0, 0, 0x2, 0, 0, 0, 0x79, 0, 0, 0, 0x2, 0x20, 0, 0, 0x2, 0, 0, 0, 0x84, 0, 0, 0,
    0, 0x10, 0, 0, 0x1, 0, 0, 0, 0x8c, 0, 0, 0]"

definition unaligned_file :: DexFile where
  "unaligned_file = \<lparr>begin_of = unaligned_bytes, string_ids = 112, type_ids = 121, field_ids = 0, method_ids = 0,
     proto_ids = 0, class_defs = 0\<rparr>"

text \<open>
  The file verifier does not check the alignment of the tables: it rounds the offset of a section up to the
  alignment of its items, while the accessors use the offset of the header. This file has two type ids at an odd
  offset; it passes every check, and yet the descriptor of its second type is read at a place outside the file.
  The theorems on accepted files therefore ask for aligned tables.
\<close>

lemma unaligned_table_accepted:
  "make_DexFile unaligned_bytes = Some unaligned_file
   \<and> verify_file sample_adler32 \<lparr>verified_file = unaligned_file, begin_address = 4, address_max = 255, stack_depth = 10\<rparr> = accept ()
   \<and> NumTypeIds unaligned_file = Some 2 \<and> StringByTypeIdx unaligned_file 1 = None"
proof (intro conjI)
  show "make_DexFile unaligned_bytes = Some unaligned_file" by code_simp
  show "verify_file sample_adler32 \<lparr>verified_file = unaligned_file, begin_address = 4, address_max = 255, stack_depth = 10\<rparr> = accept ()"
    by code_simp
  show "NumTypeIds unaligned_file = Some 2" by code_simp
  have "GetTypeId unaligned_file (unat 1) = Some \<lparr>descriptor_idx = 0x1000000\<rparr>" "length unaligned_bytes = 204" by code_simp+
  then show "StringByTypeIdx unaligned_file 1 = None"
    by (simp add: StringByTypeIdx_def StringDataByIdx_def StringDataAndUtf16LengthByIdx_def GetStringId_def load32_def
        unaligned_file_def)
qed

end
