(* ===== verification/VerifiedFile.thy ===== *)
theory VerifiedFile
  imports SampleFile
begin

text \<open>
  What a DEX file that the verifier accepts guarantees to the code that reads it.
\<close>

section \<open>Items\<close>

text \<open>A file below 4 GiB by the alignment of an item, so that no 32-bit offset of an item wraps.\<close>

definition small_file :: "DexFileVerifier \<Rightarrow> bool" where
  "small_file v \<longleftrightarrow> Size (verified_file v) + 4 \<le> 2 ^ 32"

text \<open>Every entry of the map of items is the start of an item that was checked.\<close>

definition items_ok :: "DexFileVerifier \<Rightarrow> type_map \<Rightarrow> bool" where
  "items_ok v m \<longleftrightarrow> (\<forall>off t. m off = Some t \<longrightarrow> (\<exists>q. intra_item v t (unat off) = accept q))"

lemma CheckListSize_bound: "CheckListSize v start count elem_size \<Longrightarrow> start + count * elem_size \<le> Size (verified_file v)"
  by (simp add: CheckListSize_def Let_def split: if_splits)

lemma RoundUp_4: "RoundUp x 4 = x + (4 - x mod 4) mod 4"
proof -
  have "x mod 4 = 0 \<or> x mod 4 = 1 \<or> x mod 4 = 2 \<or> x mod 4 = 3" by arith
  then show ?thesis unfolding RoundUp_def by (elim disjE) (simp_all, arith+)
qed

lemma RoundUp_aligned: "x mod 4 = 0 \<Longrightarrow> RoundUp x 4 = x"
  by (simp add: RoundUp_4)

lemma RoundUp_1 [simp]: "RoundUp x (Suc 0) = x"
  by (simp add: RoundUp_def)

lemma RoundUp_bounds: "x \<le> RoundUp x (intra_alignment t) \<and> RoundUp x (intra_alignment t) < x + 4"
  by (auto simp: intra_alignment_def RoundUp_4 split: if_splits)

lemma padding_loop_end: "padding_loop v n ptr = accept q \<Longrightarrow> q = ptr + n"
  by (induction n arbitrary: ptr) (fastforce simp: accepts)+

lemma CheckPadding_end:
  assumes "CheckPadding v offset a offset = accept q"
  shows "q = max offset (unat a)" "offset \<le> Size (verified_file v) \<Longrightarrow> q \<le> Size (verified_file v)"
  using assms by (auto simp: CheckPadding_def accepts max_def split: if_splits
      dest!: padding_loop_end CheckListSize_bound)

lemma aligned_offset_fits:
  assumes "small_file v" "offset \<le> Size (verified_file v)"
  shows "unat (word_of_nat (RoundUp offset (intra_alignment t)) :: u32) = RoundUp offset (intra_alignment t)"
  using assms RoundUp_bounds [of offset t] by (simp add: small_file_def unsigned_of_nat take_bit_nat_eq_self)

lemma items_ok_Put: "items_ok v m \<Longrightarrow> intra_item v t (unat k) = accept q \<Longrightarrow> items_ok v (Put m k t)"
  by (auto simp: items_ok_def Put_def split: option.splits)

text \<open>The items of a section: each is checked at its aligned offset, and entered there.\<close>

lemma intra_items_step:
  assumes "intra_items v t (Suc n) offset offset m = accept (q, m')"
    and "small_file v" "offset \<le> Size (verified_file v)"
  obtains p where "intra_item v t (RoundUp offset (intra_alignment t)) = accept p" "p \<le> Size (verified_file v)"
    "intra_items v t n p p (if IsDataSectionType t then Put m (word_of_nat (RoundUp offset (intra_alignment t))) t else m)
       = accept (q, m')"
proof -
  let ?a = "RoundUp offset (intra_alignment t)"
  from assms(1) obtain p0 p where p0: "CheckPadding v offset (word_of_nat ?a) offset = accept p0"
    and "intra_item v t p0 = accept p" "p \<le> Size (verified_file v)"
    "intra_items v t n p p (if IsDataSectionType t then Put m (word_of_nat ?a) t else m) = accept (q, m')"
    by (auto simp: accepts Let_def not_less)
  moreover have "p0 = ?a"
    using CheckPadding_end(1) [OF p0] aligned_offset_fits [OF assms(2,3), of t] RoundUp_bounds [of offset t] by simp
  ultimately show ?thesis by (intro that) auto
qed

lemma intra_items_ok:
  "intra_items v t n offset offset m = accept (q, m') \<Longrightarrow> small_file v \<Longrightarrow> offset \<le> Size (verified_file v) \<Longrightarrow>
     items_ok v m \<Longrightarrow> items_ok v m' \<and> q \<le> Size (verified_file v)"
proof (induction n arbitrary: offset m)
  case (Suc n)
  let ?a = "RoundUp offset (intra_alignment t)"
  from Suc.prems(1-3) obtain p where p: "intra_item v t ?a = accept p" "p \<le> Size (verified_file v)"
    and rest: "intra_items v t n p p (if IsDataSectionType t then Put m (word_of_nat ?a) t else m) = accept (q, m')"
    by (rule intra_items_step)
  have "items_ok v (if IsDataSectionType t then Put m (word_of_nat ?a) t else m)"
    using Suc.prems(4) items_ok_Put [of v m t "word_of_nat ?a" p] p(1) aligned_offset_fits [OF Suc.prems(2,3), of t]
    by simp
  from Suc.IH [OF rest Suc.prems(2) p(2) this] show ?case .
qed simp

text \<open>A table of entries of a fixed size at an aligned offset.\<close>

lemma intra_items_table:
  assumes "intra_items v t n offset offset m = accept (q, m')" and "small_file v" "offset \<le> Size (verified_file v)"
    and "offset mod 4 = 0" "k mod 4 = 0" "intra_alignment t = 4"
    and "\<And>p. intra_item v t p = fixed_size_item v k p"
  shows "offset + n * k \<le> Size (verified_file v)"
  using assms(1-4)
proof (induction n arbitrary: offset m)
  case (Suc n)
  from Suc.prems(1-3) obtain p m1 where p: "intra_item v t (RoundUp offset (intra_alignment t)) = accept p" "p \<le> Size (verified_file v)"
    "intra_items v t n p p m1 = accept (q, m')"
    by (rule intra_items_step)
  moreover have "p = offset + k"
    using p(1) assms(6,7) Suc.prems(4) by (simp add: RoundUp_aligned fixed_size_item_def accepts)
  moreover have "(offset + k) mod 4 = 0" using Suc.prems(4) assms(5) by presburger
  ultimately show ?case using Suc.IH [of p m1] Suc.prems(2) by (simp add: algebra_simps)
qed simp

section \<open>Sections\<close>

text \<open>The map entries the verifier reads.\<close>

definition map_entry :: "DexFileVerifier \<Rightarrow> nat \<Rightarrow> MapItem option" where
  "map_entry v j = do { off \<leftarrow> header_at v map_off_off; read_MapItem v (unat off + 4 + 12 * j) }"

lemma intra_section_ok:
  assumes "intra_section v mc item (unat (mi_offset item)) m = accept (offset, ptr, m')"
    and "small_file v" "unat (mi_offset item) \<le> Size (verified_file v)" "items_ok v m" "header_at v header_size_off = Some 112"
    and "header_at v map_off_off = Some off" "unat off + 4 + unat mc * 12 \<le> Size (verified_file v)" "112 \<le> Size (verified_file v)"
  shows "ptr = offset \<and> offset \<le> Size (verified_file v) \<and> items_ok v m'"
  using assms
  by (auto simp: intra_section_def Let_def accepts CheckIntraIdSection_def CheckIntraDataSection_def
      CheckIntraSectionIterate_def split: if_splits option.splits prod.splits dest!: intra_items_ok)

lemma intra_sections_ok:
  assumes "intra_sections v mc n p offset offset m = accept m'"
    and "offset \<le> Size (verified_file v)" "items_ok v m"
    and "small_file v" "header_at v header_size_off = Some 112"
    and "header_at v map_off_off = Some off" "unat off + 4 + unat mc * 12 \<le> Size (verified_file v)" "112 \<le> Size (verified_file v)"
  shows "items_ok v m' \<and> (\<forall>j < n. \<exists>item m1 r. read_MapItem v (p + 12 * j) = Some item
    \<and> intra_section v mc item (unat (mi_offset item)) m1 = accept r \<and> unat (mi_offset item) \<le> Size (verified_file v))"
  using assms(1-3)
proof (induction n arbitrary: p offset m)
  case (Suc n)
  then obtain item q offset1 ptr1 m1 where item: "read_MapItem v p = Some item"
    and q: "CheckPadding v offset (mi_offset item) offset = accept q" "\<not> offset > unat (mi_offset item)"
    and sec: "intra_section v mc item q m = accept (offset1, ptr1, m1)"
    and rest: "intra_sections v mc n (p + 12) offset1 ptr1 m1 = accept m'"
    by (auto simp: accepts)
  from CheckPadding_end [OF q(1)] q(2) Suc.prems(2) have q': "q = unat (mi_offset item)" "unat (mi_offset item) \<le> Size (verified_file v)"
    by auto
  from intra_section_ok [OF sec [unfolded q'(1)] assms(4) q'(2) Suc.prems(3) assms(5-8)]
  have ok: "ptr1 = offset1" "offset1 \<le> Size (verified_file v)" "items_ok v m1" by auto
  from Suc.IH [OF rest [unfolded ok(1)] ok(2,3)] have IH: "items_ok v m'"
    "\<forall>j < n. \<exists>item m1 r. read_MapItem v (p + 12 + 12 * j) = Some item
      \<and> intra_section v mc item (unat (mi_offset item)) m1 = accept r \<and> unat (mi_offset item) \<le> Size (verified_file v)"
    by auto
  have "\<exists>item m1 r. read_MapItem v (p + 12 * j) = Some item
      \<and> intra_section v mc item (unat (mi_offset item)) m1 = accept r \<and> unat (mi_offset item) \<le> Size (verified_file v)" if "j < Suc n" for j
  proof (cases j)
    case 0
    then show ?thesis using item sec q' by auto
  next
    case (Suc i)
    then show ?thesis using IH(2) that by (auto simp: algebra_simps)
  qed
  with IH(1) show ?case by blast
qed simp

section \<open>An accepted file\<close>

text \<open>The map of items of a file that passed the checks of its items and of their references.\<close>

definition accepted_with :: "DexFileVerifier \<Rightarrow> type_map \<Rightarrow> bool" where
  "accepted_with v m \<longleftrightarrow> (\<exists>adler32. CheckHeader adler32 v = accept ()) \<and> CheckMap v = accept ()
     \<and> CheckIntraSection v = accept m \<and> CheckInterSection v m = accept ()"

lemma verify_file_accepted: "verify_file adler32 v = accept () \<Longrightarrow> \<exists>m. accepted_with v m"
  by (auto simp: verify_file_def accepts accepted_with_def)

lemma CheckHeader_facts:
  assumes "CheckHeader adler32 v = accept ()"
  shows "header_at v header_size_off = Some 112" "112 \<le> Size (verified_file v)" "Size (verified_file v) < 2 ^ 32"
proof -
  from assms show "header_at v header_size_off = Some 112" by (auto simp: CheckHeader_def accepts)
  from assms obtain x where "header_at v data_off_off = Some x"
    by (auto simp: CheckHeader_def accepts check_section_field_def)
  then show "112 \<le> Size (verified_file v)" by (auto simp: header_at_def header_field_def load32_def Size_def split: if_splits)
  from assms obtain n :: u32 where "Size (verified_file v) = unat n" by (auto simp: CheckHeader_def accepts)
  then show "Size (verified_file v) < 2 ^ 32" using unat_u32_less [of n] by simp
qed

lemma CheckMap_facts:
  assumes "CheckMap v = accept ()"
  obtains off count file_size data_size used where "header_at v map_off_off = Some off" "load32 (file_bytes v) (unat off) = Some count"
    "unat off + 4 + unat count * 12 \<le> Size (verified_file v)"
    "map_loop v file_size 0 (unat count) (unat off + 4) 0 data_size 0 = accept used"
    "\<forall>t o_field s_field. id_section_fields t = Some (o_field, s_field) \<longrightarrow> section_missing v used t o_field s_field = Some False"
proof -
  from assms obtain off count file_size data_size used where "header_at v map_off_off = Some off"
    "load32 (file_bytes v) (unat off) = Some count" "CheckListSize v (unat off + 4) (unat count) 12"
    "map_loop v file_size 0 (unat count) (unat off + 4) 0 data_size 0 = accept used"
    "section_missing v used kDexTypeStringIdItem string_ids_off_off string_ids_size_off = Some False"
    "section_missing v used kDexTypeTypeIdItem type_ids_off_off type_ids_size_off = Some False"
    "section_missing v used kDexTypeProtoIdItem proto_ids_off_off proto_ids_size_off = Some False"
    "section_missing v used kDexTypeFieldIdItem field_ids_off_off field_ids_size_off = Some False"
    "section_missing v used kDexTypeMethodIdItem method_ids_off_off method_ids_size_off = Some False"
    "section_missing v used kDexTypeClassDefItem class_defs_off_off class_defs_size_off = Some False"
    by (auto simp: CheckMap_def accepts Let_def)
  then show ?thesis
    by (intro that [of off count file_size data_size used])
      (auto simp: id_section_fields_def split: if_splits dest!: CheckListSize_bound)
qed

text \<open>The bits of the map types are distinct; this is used for the id sections.\<close>

lemma mask_of_id_section:
  assumes "id_section_fields t = Some f" "MapTypeToBitMask t' AND MapTypeToBitMask t \<noteq> 0"
  shows "t' = t"
  using assms by (auto simp: id_section_fields_def MapTypeToBitMask_def split: if_splits)

lemma map_loop_has:
  assumes "map_loop v file_size i n p last_offset left used = accept used'"
    and "id_section_fields t = Some f" "used AND MapTypeToBitMask t = 0" "used' AND MapTypeToBitMask t \<noteq> 0"
  shows "\<exists>j < n. \<exists>item. read_MapItem v (p + 12 * j) = Some item \<and> mi_type item = t"
  using assms(1,3)
proof (induction n arbitrary: i p last_offset left used)
  case (Suc n)
  then obtain item i' left' where item: "read_MapItem v p = Some item"
    and rest: "map_loop v file_size i' n (p + 12) (mi_offset item) left' (used OR MapTypeToBitMask (mi_type item)) = accept used'"
    by (auto simp: accepts Let_def)
  show ?case
  proof (cases "mi_type item = t")
    case True
    with item show ?thesis by (intro exI [of _ 0]) auto
  next
    case False
    then have "(used OR MapTypeToBitMask (mi_type item)) AND MapTypeToBitMask t = 0"
      using Suc.prems(2) mask_of_id_section [OF assms(2)] by (auto simp: bit.conj_disj_distrib2)
    from Suc.IH [OF rest this] obtain j item' where "j < n" "read_MapItem v (p + 12 + 12 * j) = Some item'" "mi_type item' = t"
      by blast
    then show ?thesis by (intro exI [of _ "Suc j"]) (auto simp: algebra_simps)
  qed
qed (use assms in simp)

lemma inter_sections_checked:
  assumes "inter_sections v m n p classes = accept ()" "j < n" "read_MapItem v (p + 12 * j) = Some item"
    "cross_checked_section (mi_type item)"
  shows "\<exists>classes classes'. CheckInterSectionIterate v m (mi_offset item) (mi_size item) (mi_type item) classes = accept classes'"
  using assms
proof (induction n arbitrary: p classes j)
  case (Suc n)
  then obtain item0 classes1 where item0: "read_MapItem v p = Some item0"
    and first: "(if skipped_section (mi_type item0) then accept classes
       else if cross_checked_section (mi_type item0)
       then CheckInterSectionIterate v m (mi_offset item0) (mi_size item0) (mi_type item0) classes
       else Some None) = accept classes1"
    and rest: "inter_sections v m n (p + 12) classes1 = accept ()"
    by (auto simp: accepts simp del: if_splits)
  show ?case
  proof (cases j)
    case 0
    moreover have "\<not> skipped_section (mi_type item)"
      using Suc.prems(4) by (auto simp: cross_checked_section_def skipped_section_def)
    ultimately show ?thesis using first Suc.prems item0 by auto
  next
    case (Suc i)
    then show ?thesis using Suc.IH [OF rest, of i] Suc.prems by (simp add: algebra_simps)
  qed
qed simp

lemma id_section_kinds:
  assumes "id_section_fields t = Some f"
  shows "is_id_section t" "cross_checked_section t" "t \<noteq> kDexTypeHeaderItem" "intra_alignment t = 4" "inter_alignment t = 4"
  using assms
  by (auto simp: id_section_fields_def is_id_section_def cross_checked_section_def intra_alignment_def inter_alignment_def
      split: if_splits)

lemma accepted_items:
  assumes "accepted_with v m" "small_file v"
  shows "items_ok v m"
    and "\<exists>off count. header_at v map_off_off = Some off \<and> load32 (file_bytes v) (unat off) = Some count
      \<and> (\<forall>j < unat count. \<exists>item m1 r. map_entry v j = Some item
          \<and> intra_section v count item (unat (mi_offset item)) m1 = accept r
          \<and> unat (mi_offset item) \<le> Size (verified_file v))"
proof -
  from assms(1) obtain adler32 where hd: "CheckHeader adler32 v = accept ()" and mp: "CheckMap v = accept ()"
    and intra: "CheckIntraSection v = accept m"
    by (auto simp: accepted_with_def)
  from mp obtain off count file_size data_size used where off: "header_at v map_off_off = Some off"
    "load32 (file_bytes v) (unat off) = Some count" "unat off + 4 + unat count * 12 \<le> Size (verified_file v)"
    by (rule CheckMap_facts)
  from intra off have "intra_sections v count (unat count) (unat off + 4) 0 0 Map.empty = accept m"
    by (simp add: CheckIntraSection_def)
  from intra_sections_ok [OF this _ _ assms(2) CheckHeader_facts(1) [OF hd] off(1,3) CheckHeader_facts(2) [OF hd]]
  have ok: "items_ok v m" "\<forall>j < unat count. \<exists>item m1 r. read_MapItem v (unat off + 4 + 12 * j) = Some item
      \<and> intra_section v count item (unat (mi_offset item)) m1 = accept r \<and> unat (mi_offset item) \<le> Size (verified_file v)"
    by (auto simp: items_ok_def)
  from ok(1) show "items_ok v m" .
  show "\<exists>off count. header_at v map_off_off = Some off \<and> load32 (file_bytes v) (unat off) = Some count
      \<and> (\<forall>j < unat count. \<exists>item m1 r. map_entry v j = Some item
          \<and> intra_section v count item (unat (mi_offset item)) m1 = accept r
          \<and> unat (mi_offset item) \<le> Size (verified_file v))"
    using ok(2) off by (simp add: map_entry_def)
qed

text \<open>An id section is empty, or it was checked entry by entry where the header says.\<close>

lemma accepted_id_section:
  assumes "accepted_with v m" "small_file v" "id_section_fields t = Some (o_field, s_field)"
  obtains off n where "header_at v o_field = Some off" "header_at v s_field = Some n"
    "n \<noteq> 0 \<Longrightarrow> \<exists>m1 r classes classes'. intra_items v t (unat n) (unat off) (unat off) m1 = accept r
       \<and> unat off \<le> Size (verified_file v) \<and> inter_items v m t (unat n) (unat off) None classes = accept classes'"
proof -
  from assms(1) have mp: "CheckMap v = accept ()" and inter: "CheckInterSection v m = accept ()"
    by (auto simp: accepted_with_def)
  from mp obtain moff count file_size data_size used where moff: "header_at v map_off_off = Some moff"
    "load32 (file_bytes v) (unat moff) = Some count"
    and loop: "map_loop v file_size 0 (unat count) (unat moff + 4) 0 data_size 0 = accept used"
    and sec: "\<forall>t o_field s_field. id_section_fields t = Some (o_field, s_field) \<longrightarrow> section_missing v used t o_field s_field = Some False"
    by (rule CheckMap_facts)
  have "section_missing v used t o_field s_field = Some False" using sec assms(3) by blast
  then obtain off n where h: "header_at v o_field = Some off" "header_at v s_field = Some n"
    and used: "n \<noteq> 0 \<longrightarrow> used AND MapTypeToBitMask t \<noteq> 0"
    by (auto simp: section_missing_def accepts)
  have "\<exists>m1 r classes classes'. intra_items v t (unat n) (unat off) (unat off) m1 = accept r
       \<and> unat off \<le> Size (verified_file v) \<and> inter_items v m t (unat n) (unat off) None classes = accept classes'"
    if "n \<noteq> 0"
  proof -
    from map_loop_has [OF loop assms(3) _ used [rule_format, OF that]] obtain j item where j: "j < unat count"
      "read_MapItem v (unat moff + 4 + 12 * j) = Some item" "mi_type item = t"
      by auto
    from accepted_items(2) [OF assms(1,2)] j moff obtain m1 r where
      "intra_section v count item (unat (mi_offset item)) m1 = accept r" "unat (mi_offset item) \<le> Size (verified_file v)"
      by (fastforce simp: map_entry_def)
    then have intra: "mi_offset item = off" "mi_size item = n" "unat off \<le> Size (verified_file v)"
      "\<exists>r. intra_items v t (unat n) (unat off) (unat off) m1 = accept r"
      using assms(3) h j(3) id_section_kinds(1,3) [OF assms(3)]
      by (auto simp: intra_section_def Let_def CheckIntraIdSection_def CheckIntraSectionIterate_def accepts)
    from inter moff have "inter_sections v m (unat count) (unat moff + 4) [] = accept ()"
      by (simp add: CheckInterSection_def)
    from inter_sections_checked [OF this j(1,2)] id_section_kinds(2) [OF assms(3)] j(3) intra
    show ?thesis by (auto simp: CheckInterSectionIterate_def)
  qed
  with h show ?thesis by (rule that)
qed

text \<open>
  What the checks of an id section promise to the code that reads it: entries of one size, each of them
  cross-checked at the place where the accessors of the runtime find it, if the table is aligned.
\<close>

locale id_section =
  fixes t :: u16 and entry_size :: nat and o_field s_field :: nat
  assumes fields: "id_section_fields t = Some (o_field, s_field)"
    and entry_size: "4 \<le> entry_size" "entry_size mod 4 = 0"
    and intra: "intra_item v t p = fixed_size_item v entry_size p"
    and inter_next: "inter_item v m t prev classes p = accept (q, classes') \<Longrightarrow> q = p + entry_size"
begin

lemma inter_entries:
  assumes "inter_items v m t n offset prev classes = accept classes'"
    and "offset mod 4 = 0" "offset + n * entry_size \<le> Size (verified_file v)" "Size (verified_file v) < 2 ^ 32" "i < n"
  shows "\<exists>classes r. inter_item v m t (if i = 0 then prev else Some (offset + entry_size * (i - 1))) classes
    (offset + entry_size * i) = accept r"
  using assms
proof (induction n arbitrary: offset prev classes i)
  case (Suc n)
  have ptr: "unat (word_of_nat (RoundUp offset (inter_alignment t)) :: u32) = offset"
    using Suc.prems id_section_kinds(5) [OF fields] by (simp add: RoundUp_aligned unsigned_of_nat take_bit_nat_eq_self)
  from Suc.prems(1) obtain q classes1 where first: "inter_item v m t prev classes offset = accept (q, classes1)"
    and rest: "inter_items v m t n q (Some offset) classes1 = accept classes'"
    by (auto simp: accepts Let_def ptr)
  have q: "q = offset + entry_size" by (rule inter_next [OF first])
  show ?case
  proof (cases i)
    case 0
    then show ?thesis using first by auto
  next
    case (Suc j)
    have "(offset + entry_size) mod 4 = 0" using Suc.prems(2) entry_size(2) by presburger
    moreover have "offset + entry_size + n * entry_size \<le> Size (verified_file v)" "j < n"
      using Suc.prems(3,5) Suc by simp_all
    ultimately obtain classes2 r where
      "inter_item v m t (if j = 0 then Some offset else Some (offset + entry_size + entry_size * (j - 1))) classes2
        (offset + entry_size + entry_size * j) = accept r"
      using Suc.IH [OF rest [unfolded q] _ _ Suc.prems(4), of j] by metis
    moreover have "(if j = 0 then Some offset else Some (offset + entry_size + entry_size * (j - 1))) = Some (offset + entry_size * j)"
      by (cases j) simp_all
    ultimately show ?thesis using Suc by (cases r) (auto simp: algebra_simps)
  qed
qed simp

lemma table:
  assumes "accepted_with v m" "small_file v" "header_at v o_field = Some off" "header_at v s_field = Some n" "unat off mod 4 = 0"
  shows table_bound: "n \<noteq> 0 \<Longrightarrow> unat off + unat n * entry_size \<le> Size (verified_file v)"
    and table_size: "unat n \<le> 2 ^ 30"
    and table_checked: "i < unat n \<Longrightarrow> \<exists>classes r. inter_item v m t
      (if i = 0 then None else Some (unat off + entry_size * (i - 1))) classes (unat off + entry_size * i) = accept r"
proof -
  have chk: "n \<noteq> 0 \<Longrightarrow> \<exists>m1 r classes classes'. intra_items v t (unat n) (unat off) (unat off) m1 = accept r
       \<and> unat off \<le> Size (verified_file v) \<and> inter_items v m t (unat n) (unat off) None classes = accept classes'"
    by (rule accepted_id_section [OF assms(1,2) fields]) (use assms(3,4) in simp)
  have size: "Size (verified_file v) < 2 ^ 32" using assms(2) by (simp add: small_file_def)
  show bound: "unat off + unat n * entry_size \<le> Size (verified_file v)" if "n \<noteq> 0"
    using chk [OF that] intra_items_table [OF _ assms(2) _ assms(5) entry_size(2) id_section_kinds(4) [OF fields] intra]
    by (metis prod.exhaust)
  show "\<exists>classes r. inter_item v m t (if i = 0 then None else Some (unat off + entry_size * (i - 1))) classes
    (unat off + entry_size * i) = accept r" if "i < unat n"
    using that chk bound inter_entries [OF _ assms(5) _ size that] by (metis not_less_zero unat_0)
  show "unat n \<le> 2 ^ 30"
  proof (cases "n = 0")
    case False
    have "unat n * 4 \<le> unat n * entry_size" using entry_size(1) by simp
    moreover have "(2 :: nat) ^ 32 = 4 * 2 ^ 30" by simp
    ultimately show ?thesis using bound [OF False] size by linarith
  qed simp
qed

end

text \<open>A section whose entries are also ordered by a key is a table that the binary searches need.\<close>

locale ordered_section = id_section +
  fixes read_entry :: "buffer \<Rightarrow> ptr \<Rightarrow> 'e option" and key :: "'e \<Rightarrow> int list"
  assumes inter_reads: "inter_item v m t prev classes p = accept r \<Longrightarrow> \<exists>e. read_entry (file_bytes v) p = Some e"
    and inter_order: "inter_item v m t (Some p0) classes p = accept r \<Longrightarrow> read_entry (file_bytes v) p0 = Some e0 \<Longrightarrow>
      read_entry (file_bytes v) p = Some e \<Longrightarrow> by_key key e0 e < 0"
begin

lemma by_key_trans: "transp (\<lambda>a b. by_key key a b < 0)"
  by (rule transpI) (auto simp: by_key_def intro: lex_cmp_later)

lemma sorted_table:
  assumes "accepted_with v m" "small_file v" "header_at v o_field = Some off" "header_at v s_field = Some n" "unat off mod 4 = 0"
  shows "\<exists>es. length es = unat n \<and> map (\<lambda>i. read_entry (file_bytes v) (unat off + entry_size * i)) [0..<unat n] = map Some es
    \<and> ascending key es"
proof -
  define f where "f i = read_entry (file_bytes v) (unat off + entry_size * i)" for i
  have f: "f i = Some (the (f i))" if "i < unat n" for i
    using table_checked [OF assms that] inter_reads by (fastforce simp: f_def)
  let ?es = "map (\<lambda>i. the (f i)) [0..<unat n]"
  have "map f [0..<unat n] = map Some ?es" using f by simp
  moreover have "sorted_wrt (\<lambda>a b. by_key key a b < 0) ?es"
  proof (subst sorted_wrt_iff_nth_Suc_transp [OF by_key_trans], intro allI impI)
    fix i assume "Suc i < length ?es"
    then have i: "Suc i < unat n" by simp
    from table_checked [OF assms i] obtain classes r where "inter_item v m t (Some (unat off + entry_size * i)) classes
        (unat off + entry_size * Suc i) = accept r"
      by auto
    from inter_order [OF this, of "the (f i)" "the (f (Suc i))"] f [of i] f [OF i] i
    show "by_key key (?es ! i) (?es ! Suc i) < 0" by (simp add: f_def)
  qed
  ultimately show ?thesis using table_size [OF assms] by (intro exI [of _ ?es]) (simp add: f_def)
qed

end

lemma check_previous_accepts:
  "check_previous f prev r = accept q \<longleftrightarrow> q = r \<and> (\<forall>p. prev = Some p \<longrightarrow> f p = accept ())"
  by (auto simp: check_previous_def accepts split: option.splits)

lemma type_order_key:
  "type_order v e p0 = accept () \<Longrightarrow> read_TypeId (file_bytes v) p0 = Some e0 \<Longrightarrow> by_key type_key e0 e < 0"
  by (auto simp: type_order_def accepts by_key_def type_key_def word_less_def word_le_def)

lemma field_order_key:
  "field_order v e p0 = accept () \<Longrightarrow> read_FieldId (file_bytes v) p0 = Some e0 \<Longrightarrow> by_key field_key e0 e < 0"
  by (auto simp: field_order_def accepts by_key_def field_key_def word_less_def word_le_def word_uint_eq_iff split: if_splits)

lemma method_order_key:
  "method_order v e p0 = accept () \<Longrightarrow> read_MethodId (file_bytes v) p0 = Some e0 \<Longrightarrow> by_key method_key e0 e < 0"
  by (auto simp: method_order_def accepts by_key_def method_key_def word_less_def word_le_def word_uint_eq_iff split: if_splits)

interpretation string_section: id_section kDexTypeStringIdItem 4 string_ids_off_off string_ids_size_off
  by unfold_locales (auto simp: id_section_fields_def intra_item_def inter_item_def CheckInterStringIdItem_def
      check_previous_accepts accepts Let_def)

interpretation class_section: id_section kDexTypeClassDefItem 32 class_defs_off_off class_defs_size_off
  by unfold_locales (auto simp: id_section_fields_def intra_item_def inter_item_def CheckInterClassDefItem_def accepts Let_def)

interpretation type_section: ordered_section kDexTypeTypeIdItem 4 type_ids_off_off type_ids_size_off read_TypeId type_key
  by unfold_locales (auto simp: id_section_fields_def intra_item_def inter_item_def CheckInterTypeIdItem_def
      check_previous_accepts accepts Let_def intro: type_order_key)

interpretation field_section: ordered_section kDexTypeFieldIdItem 8 field_ids_off_off field_ids_size_off read_FieldId field_key
  by unfold_locales (auto simp: id_section_fields_def intra_item_def inter_item_def CheckInterFieldIdItem_def
      check_previous_accepts accepts Let_def intro: field_order_key)

interpretation method_section: ordered_section kDexTypeMethodIdItem 8 method_ids_off_off method_ids_size_off read_MethodId method_key
  by unfold_locales (auto simp: id_section_fields_def intra_item_def inter_item_def CheckInterMethodIdItem_def
      check_previous_accepts accepts Let_def intro: method_order_key)

section \<open>Lookups\<close>

text \<open>The object was made from the bytes it verifies, as \<open>OpenMemory\<close> does.\<close>

definition opened :: "DexFileVerifier \<Rightarrow> bool" where
  "opened v \<longleftrightarrow> make_DexFile (file_bytes v) = Some (verified_file v)"

lemma opened_tables:
  assumes "opened v"
  shows "map_option unat (header_at v string_ids_off_off) = Some (string_ids (verified_file v))"
    "map_option unat (header_at v type_ids_off_off) = Some (type_ids (verified_file v))"
    "map_option unat (header_at v field_ids_off_off) = Some (field_ids (verified_file v))"
    "map_option unat (header_at v method_ids_off_off) = Some (method_ids (verified_file v))"
    "map_option unat (header_at v class_defs_off_off) = Some (class_defs (verified_file v))"
proof -
  obtain s t f m c p where l: "load32 (file_bytes v) string_ids_off_off = Some s" "load32 (file_bytes v) type_ids_off_off = Some t"
    "load32 (file_bytes v) field_ids_off_off = Some f" "load32 (file_bytes v) method_ids_off_off = Some m"
    "load32 (file_bytes v) class_defs_off_off = Some c"
    and v: "\<lparr>begin_of = file_bytes v, string_ids = unat s, type_ids = unat t, field_ids = unat f,
           method_ids = unat m, proto_ids = p, class_defs = unat c\<rparr> = verified_file v"
    using assms by (auto simp: opened_def make_DexFile_def accepts)
  have "string_ids (verified_file v) = unat s" "type_ids (verified_file v) = unat t" "field_ids (verified_file v) = unat f"
    "method_ids (verified_file v) = unat m" "class_defs (verified_file v) = unat c"
    using v [THEN arg_cong, of string_ids] v [THEN arg_cong, of type_ids] v [THEN arg_cong, of field_ids]
      v [THEN arg_cong, of method_ids] v [THEN arg_cong, of class_defs]
    by auto
  with l show "map_option unat (header_at v string_ids_off_off) = Some (string_ids (verified_file v))"
    "map_option unat (header_at v type_ids_off_off) = Some (type_ids (verified_file v))"
    "map_option unat (header_at v field_ids_off_off) = Some (field_ids (verified_file v))"
    "map_option unat (header_at v method_ids_off_off) = Some (method_ids (verified_file v))"
    "map_option unat (header_at v class_defs_off_off) = Some (class_defs (verified_file v))"
    by (simp_all add: header_at_def header_field_def)
qed

lemma header_size_fields:
  assumes "accepted_with v m"
  obtains s t p f k c where "header_at v string_ids_size_off = Some s" "header_at v type_ids_size_off = Some t"
    "header_at v proto_ids_size_off = Some p" "header_at v field_ids_size_off = Some f" "header_at v method_ids_size_off = Some k"
    "header_at v class_defs_size_off = Some c"
  using assms by (auto simp: accepted_with_def CheckHeader_def accepts check_section_field_def)

lemma verified_types:
  assumes "accepted_with v m" "small_file v" "opened v" "type_ids (verified_file v) mod 4 = 0"
  obtains ts where "has_types (verified_file v) ts" "ascending type_key ts"
proof -
  from header_size_fields [OF assms(1)] obtain n where n: "header_at v type_ids_size_off = Some n" by metis
  from opened_tables(2) [OF assms(3)] obtain off where off: "header_at v type_ids_off_off = Some off" "unat off = type_ids (verified_file v)"
    by (auto simp: map_option_Some_iff)
  from type_section.sorted_table [OF assms(1,2) off(1) n] assms(4) off(2) obtain ts where "length ts = unat n"
    "map (\<lambda>i. read_TypeId (file_bytes v) (unat off + 4 * i)) [0..<unat n] = map Some ts" "ascending type_key ts"
    by auto
  with n off(2) show ?thesis
    by (intro that [of ts])
      (simp_all add: has_types_def NumTypeIds_def header_at_def GetTypeId_def [abs_def] read_TypeId_def [abs_def])
qed

lemma verified_fields:
  assumes "accepted_with v m" "small_file v" "opened v" "field_ids (verified_file v) mod 4 = 0"
  obtains fs where "has_fields (verified_file v) fs" "ascending field_key fs"
proof -
  from header_size_fields [OF assms(1)] obtain n where n: "header_at v field_ids_size_off = Some n" by metis
  from opened_tables(3) [OF assms(3)] obtain off where off: "header_at v field_ids_off_off = Some off" "unat off = field_ids (verified_file v)"
    by (auto simp: map_option_Some_iff)
  from field_section.sorted_table [OF assms(1,2) off(1) n] assms(4) off(2) obtain fs where "length fs = unat n"
    "map (\<lambda>i. read_FieldId (file_bytes v) (unat off + 8 * i)) [0..<unat n] = map Some fs" "ascending field_key fs"
    by auto
  with n off(2) show ?thesis
    by (intro that [of fs])
      (simp_all add: has_fields_def NumFieldIds_def header_at_def GetFieldId_def [abs_def] read_FieldId_def [abs_def] Let_def add.assoc)
qed

lemma verified_methods:
  assumes "accepted_with v m" "small_file v" "opened v" "method_ids (verified_file v) mod 4 = 0"
  obtains ms where "has_methods (verified_file v) ms" "ascending method_key ms"
proof -
  from header_size_fields [OF assms(1)] obtain n where n: "header_at v method_ids_size_off = Some n" by metis
  from opened_tables(4) [OF assms(3)] obtain off where off: "header_at v method_ids_off_off = Some off" "unat off = method_ids (verified_file v)"
    by (auto simp: map_option_Some_iff)
  from method_section.sorted_table [OF assms(1,2) off(1) n] assms(4) off(2) obtain ms where "length ms = unat n"
    "map (\<lambda>i. read_MethodId (file_bytes v) (unat off + 8 * i)) [0..<unat n] = map Some ms" "ascending method_key ms"
    by auto
  with n off(2) show ?thesis
    by (intro that [of ms])
      (simp_all add: has_methods_def NumMethodIds_def header_at_def GetMethodId_def [abs_def] read_MethodId_def [abs_def] Let_def add.assoc)
qed

text \<open>The index of an id in a table: below its size, and the entry there is the id.\<close>

definition index_of :: "nat option \<Rightarrow> (nat \<Rightarrow> 'e option) \<Rightarrow> 'e \<Rightarrow> nat \<Rightarrow> bool" where
  "index_of size_opt get e i \<longleftrightarrow> (case size_opt of None \<Rightarrow> False | Some n \<Rightarrow> i < n) \<and> get i = Some e"

lemma index_of_table:
  "n = Some (length es) \<Longrightarrow> map get [0..<length es] = map Some es \<Longrightarrow> index_of n get e i \<longleftrightarrow> i < length es \<and> e = es ! i"
  using table_nth [of get es i] by (auto simp: index_of_def)

text \<open>
  Claim C8. Lookups in a verified file: when \<open>DexFileVerifier::Verify\<close> accepts a file (whatever the
  checksum function) and its tables of types, fields and methods are 4-aligned, the binary searches
  \<open>FindTypeId\<close>, \<open>FindFieldId\<close> and \<open>FindMethodId\<close> end without leaving the file and return the index of the
  wanted id exactly when the table holds it.
\<close>

theorem verified_lookups:
  assumes "verify_file adler32 v = accept ()" "small_file v" "opened v"
    and "type_ids (verified_file v) mod 4 = 0" "field_ids (verified_file v) mod 4 = 0" "method_ids (verified_file v) mod 4 = 0"
  shows "(\<exists>r. FindTypeId (verified_file v) (descriptor_idx t) = Some r
        \<and> (\<forall>i. r = Some i \<longleftrightarrow> index_of (NumTypeIds (verified_file v)) (GetTypeId (verified_file v)) t i))
    \<and> (\<exists>r. FindFieldId (verified_file v) (f_class_idx f) (f_name_idx f) (f_type_idx f) = Some r
        \<and> (\<forall>i. r = Some i \<longleftrightarrow> index_of (NumFieldIds (verified_file v)) (GetFieldId (verified_file v)) f i))
    \<and> (\<exists>r. FindMethodId (verified_file v) (m_class_idx k) (m_name_idx k) (m_proto_idx k) = Some r
        \<and> (\<forall>i. r = Some i \<longleftrightarrow> index_of (NumMethodIds (verified_file v)) (GetMethodId (verified_file v)) k i))"
proof -
  from verify_file_accepted [OF assms(1)] obtain m where acc: "accepted_with v m" ..
  obtain ts where ts: "has_types (verified_file v) ts" "ascending type_key ts"
    using verified_types [OF acc assms(2-4)] .
  obtain fs where fs: "has_fields (verified_file v) fs" "ascending field_key fs"
    using verified_fields [OF acc assms(2,3,5)] .
  obtain ms where ms: "has_methods (verified_file v) ms" "ascending method_key ms"
    using verified_methods [OF acc assms(2,3,6)] .
  note idx = index_of_table [OF conjunct1 [OF ts(1) [unfolded has_types_def]] conjunct2 [OF ts(1) [unfolded has_types_def]]]
    index_of_table [OF conjunct1 [OF fs(1) [unfolded has_fields_def]] conjunct2 [OF fs(1) [unfolded has_fields_def]]]
    index_of_table [OF conjunct1 [OF ms(1) [unfolded has_methods_def]] conjunct2 [OF ms(1) [unfolded has_methods_def]]]
  from find_ids_correct [OF ts fs ms, of t f k] show ?thesis unfolding idx .
qed

lemma class_file_small: "small_file class_verifier"
  by (simp add: small_file_def class_file_size)

lemma class_file_is_opened: "opened class_verifier"
  by (simp add: opened_def class_file_opened)

lemma class_file_simp [simp]: "verified_file class_verifier = class_file" "begin_of class_file = class_bytes"
  by (simp_all add: class_verifier_def class_file_def)

lemmas class_file_ok = class_file_accepted class_file_small class_file_is_opened

theorem verified_lookups_witness:
  "FindTypeId class_file 1 = Some (Some 1) \<and> FindMethodId class_file 0 2 0 = Some (Some 0)"
proof -
  let ?t = "\<lparr>descriptor_idx = 1\<rparr>" and ?m = "\<lparr>m_class_idx = 0, m_proto_idx = 0, m_name_idx = 2\<rparr>"
  have "index_of (NumTypeIds class_file) (GetTypeId class_file) ?t 1"
    "index_of (NumMethodIds class_file) (GetMethodId class_file) ?m 0" by code_simp+
  moreover have "type_ids class_file mod 4 = 0" "field_ids class_file mod 4 = 0" "method_ids class_file mod 4 = 0"
    by code_simp+
  ultimately show ?thesis
    using verified_lookups [of sample_adler32 class_verifier ?t _ ?m, OF class_file_ok] by fastforce
qed

end
