(* ===== verification/VerifiedStrings.thy ===== *)
theory VerifiedStrings
  imports VerifiedFile
begin

section \<open>Strings\<close>

lemma u8_eq_bits:
  "(x :: u8) = y \<longleftrightarrow> bit x 0 = bit y 0 \<and> bit x 1 = bit y 1 \<and> bit x 2 = bit y 2 \<and> bit x 3 = bit y 3
    \<and> bit x 4 = bit y 4 \<and> bit x 5 = bit y 5 \<and> bit x 6 = bit y 6 \<and> bit x 7 = bit y 7" (is "_ \<longleftrightarrow> ?r")
proof
  assume r: ?r
  show "x = y"
  proof (rule bit_word_eqI)
    fix n assume "n < LENGTH(8)"
    then have "n < 8" by simp
    then have "n = 0 \<or> n = 1 \<or> n = 2 \<or> n = 3 \<or> n = 4 \<or> n = 5 \<or> n = 6 \<or> n = 7" by arith
    then show "bit x n = bit y n" using r by (elim disjE) simp_all
  qed
qed simp

lemma bit_u8_beyond [simp]: "8 \<le> n \<Longrightarrow> \<not> bit (x :: u8) n"
  using bit_imp_le_length [of x n] by auto

lemma u8_top_bits:
  fixes x :: u8
  shows "x AND 0xc0 = 0x80 \<longleftrightarrow> bit x 7 \<and> \<not> bit x 6"
    "drop_bit 4 x = 0x0c \<or> drop_bit 4 x = 0x0d \<longleftrightarrow> bit x 7 \<and> bit x 6 \<and> \<not> bit x 5"
    "drop_bit 4 x = 0x0e \<longleftrightarrow> bit x 7 \<and> bit x 6 \<and> bit x 5 \<and> \<not> bit x 4"
  unfolding u8_eq_bits by (auto simp: bit_simps bit_u8_masks)

lemma u8_small_nibble: "drop_bit 4 (x :: u8) < 8 \<longleftrightarrow> x \<le> 0x7f"
proof -
  have "unat (drop_bit 4 x) = unat x div 16" by (simp only: unat_drop_bit_eq) (simp add: drop_bit_eq_div)
  then show ?thesis by (simp only: word_less_nat_alt word_le_nat_alt) auto
qed

text \<open>The characters the verifier lets through are in the canonical form of the encoder.\<close>

lemma char_1:
  assumes "drop_bit 4 (b :: u8) < 8" "b \<noteq> 0"
  shows "char_bytes (ucast b) = [b]"
proof -
  have u: "unat (ucast b :: u16) = unat b" using unat_u8_less [of b] by (simp add: unsigned_ucast_eq take_bit_nat_eq_self)
  have "ucast (ucast b :: u16) = b" by (rule bit_word_eqI) (auto simp: bit_simps)
  moreover have "0 < (ucast b :: u16)" "(ucast b :: u16) \<le> 0x7f"
    using assms(2) assms(1) [unfolded u8_small_nibble] unfolding word_less_nat_alt word_le_nat_alt u by (simp_all add: unat_gt_0)
  ultimately show ?thesis by (simp add: char_bytes_def)
qed

lemma char_2:
  fixes b b2 :: u8
  assumes "drop_bit 4 b = 0x0c \<or> drop_bit 4 b = 0x0d" "b2 AND 0xc0 = 0x80"
    and val: "c = push_bit 6 (ucast (b AND 0x1f)) OR ucast (b2 AND 0x3f)" "\<not> (c \<noteq> 0 \<and> c < 0x80)"
  shows "char_bytes (c :: u16) = [b, b2]"
proof -
  have "c \<le> 0x07ff"
  proof -
    have "drop_bit 11 c = 0" unfolding val(1)
    proof (rule bit_word_eqI)
      fix n assume "n < LENGTH(16)"
      have "n = 0 \<or> n = 1 \<or> n = 2 \<or> 3 \<le> n" by arith
      then show "bit (drop_bit 11 (push_bit 6 (ucast (b AND 0x1f)) OR ucast (b2 AND 0x3f) :: u16)) n = bit 0 n"
        by (elim disjE) (auto simp: bit_simps)
    qed
    then have "unat c div 2 ^ 11 = 0" by (metis drop_bit_eq_div unat_0 unat_drop_bit_eq)
    then show ?thesis by (simp add: word_le_nat_alt div_eq_0_iff)
  qed
  moreover have "ucast (drop_bit 6 c) OR 0xc0 = b" "(ucast c AND 0x3f) OR 0x80 = b2"
    using assms(1,2) unfolding u8_top_bits u8_eq_bits val(1) by (auto simp: bit_simps bit_u8_masks)
  moreover have "\<not> (0 < c \<and> c \<le> 0x7f)" using val(2) by (auto simp: word_less_nat_alt word_le_nat_alt)
  ultimately show ?thesis by (simp add: char_bytes_def utf8_prefix_bytes del: not_less)
qed

lemma char_3:
  fixes b b2 b3 :: u8
  assumes "drop_bit 4 b = 0x0e" "b2 AND 0xc0 = 0x80" "b3 AND 0xc0 = 0x80"
    and val: "c = push_bit 12 (ucast (b AND 0x0f)) OR push_bit 6 (ucast (b2 AND 0x3f)) OR ucast (b3 AND 0x3f)" "\<not> c < 0x800"
  shows "char_bytes (c :: u16) = [b, b2, b3]"
proof -
  have "ucast (drop_bit 12 c) OR 0xe0 = b" "(ucast (drop_bit 6 c) AND 0x3f) OR 0x80 = b2" "(ucast c AND 0x3f) OR 0x80 = b3"
    using assms(1-3) unfolding u8_top_bits u8_eq_bits val(1) by (auto simp: bit_simps bit_u8_masks)
  moreover have "\<not> (0 < c \<and> c \<le> 0x7f)" "c > 0x07ff" using val(2) by (auto simp: word_less_nat_alt word_le_nat_alt)
  ultimately show ?thesis by (simp add: char_bytes_def utf8_prefix_bytes)
qed

lemma load8_drop: "load8 buf p = Some b \<Longrightarrow> drop p buf = b # drop (Suc p) buf"
  by (auto simp: load8_def Cons_nth_drop_Suc [symmetric] split: if_splits)

lemma string_chars_mutf8:
  "string_chars v n p = accept q \<Longrightarrow> \<exists>cs. length cs = n \<and> drop p (file_bytes v) = mutf8 cs @ drop q (file_bytes v)"
proof (induction n arbitrary: p)
  case 0
  then show ?case by (simp add: mutf8_def)
next
  case (Suc n)
  then obtain b where b: "load8 (file_bytes v) p = Some b" by (auto simp: accepts)
  have "\<exists>c p'. drop p (file_bytes v) = char_bytes c @ drop p' (file_bytes v) \<and> string_chars v n p' = accept q"
  proof -
    consider "drop_bit 4 b < 8" | "\<not> drop_bit 4 b < 8" "drop_bit 4 b = 0x0c \<or> drop_bit 4 b = 0x0d"
      | "\<not> drop_bit 4 b < 8" "\<not> (drop_bit 4 b = 0x0c \<or> drop_bit 4 b = 0x0d)" "drop_bit 4 b = 0x0e"
      | "\<not> drop_bit 4 b < 8" "drop_bit 4 b \<noteq> 0x0c" "drop_bit 4 b \<noteq> 0x0d" "drop_bit 4 b \<noteq> 0x0e" by blast
    then show ?thesis
    proof cases
      case 1
      then have "b \<noteq> 0" "string_chars v n (Suc p) = accept q" using Suc.prems b by (auto simp: accepts Let_def)
      then show ?thesis using char_1 [OF 1] load8_drop [OF b] by (metis append_Cons append_Nil)
    next
      case 2
      then obtain b2 where b2: "load8 (file_bytes v) (Suc p) = Some b2" "b2 AND 0xc0 = 0x80"
        and val: "\<not> ((push_bit 6 (ucast (b AND 0x1f)) OR ucast (b2 AND 0x3f) :: u16) \<noteq> 0
            \<and> (push_bit 6 (ucast (b AND 0x1f)) OR ucast (b2 AND 0x3f) :: u16) < 0x80)"
        and rest: "string_chars v n (Suc (Suc p)) = accept q"
        using Suc.prems b by (auto simp: accepts Let_def)
      from char_2 [OF 2(2) b2(2) refl val] show ?thesis
        using load8_drop [OF b] load8_drop [OF b2(1)] rest by (metis append_Cons append_Nil)
    next
      case 3
      then obtain b2 b3 where b2: "load8 (file_bytes v) (Suc p) = Some b2" "b2 AND 0xc0 = 0x80"
        and b3: "load8 (file_bytes v) (Suc (Suc p)) = Some b3" "b3 AND 0xc0 = 0x80"
        and val: "\<not> (push_bit 12 (ucast (b AND 0x0f)) OR push_bit 6 (ucast (b2 AND 0x3f)) OR ucast (b3 AND 0x3f) :: u16) < 0x800"
        and rest: "string_chars v n (Suc (Suc (Suc p))) = accept q"
        using Suc.prems b by (auto simp: accepts Let_def)
      from char_3 [OF 3(3) b2(2) b3(2) refl val] show ?thesis
        using load8_drop [OF b] load8_drop [OF b2(1)] load8_drop [OF b3(1)] rest by (metis append_Cons append_Nil)
    next
      case 4
      then have False using Suc.prems b by (auto simp: accepts Let_def)
      then show ?thesis ..
    qed
  qed
  then obtain c p' where c: "drop p (file_bytes v) = char_bytes c @ drop p' (file_bytes v)" "string_chars v n p' = accept q"
    by blast
  from Suc.IH [OF c(2)] obtain cs where "length cs = n" "drop p' (file_bytes v) = mutf8 cs @ drop q (file_bytes v)" by blast
  with c(1) show ?case by (intro exI [of _ "c # cs"]) (simp add: mutf8_def)
qed

lemma CheckIntraStringDataItem_mutf8:
  assumes "CheckIntraStringDataItem v p = accept q"
  obtains cs n p1 rest where "DecodeUnsignedLeb128 (file_bytes v) p = Some (n, p1)" "length cs = unat n"
    "drop p1 (file_bytes v) = mutf8 cs @ 0 # rest"
proof -
  from assms obtain n p1 p2 where n: "DecodeUnsignedLeb128 (file_bytes v) p = Some (n, p1)"
    and chars: "string_chars v (unat n) p1 = accept p2" and z: "load8 (file_bytes v) p2 = Some 0"
    by (auto simp: CheckIntraStringDataItem_def accepts)
  from string_chars_mutf8 [OF chars] obtain cs where "length cs = unat n"
    "drop p1 (file_bytes v) = mutf8 cs @ drop p2 (file_bytes v)" by blast
  with n load8_drop [OF z] show ?thesis by (intro that) auto
qed

text \<open>The order of the table: unit by unit.\<close>

definition unit_key :: "u16 list \<Rightarrow> int list" where
  "unit_key cs = map token_key (units cs)"

lemma inj_unit_key: "inj unit_key"
  by (rule injI) (auto simp: unit_key_def units_def comp_def token_key_inject dest!: map_injective [OF _ injI])

interpretation unit_table: id_order "by_key unit_key" "\<lambda>a b. by_key unit_key a b < 0"
  by unfold_locales (auto simp: by_key_def intro: lex_cmp_later)

lemma compare_mutf8:
  "\<exists>r. CompareModifiedUtf8ToModifiedUtf8AsUtf16CodePointValues (mutf8 a @ 0 # s) (mutf8 b @ 0 # s') = Some r
     \<and> sgn r = sgn (by_key unit_key a b)"
  using CompareModifiedUtf8ToModifiedUtf8_tokens [OF mutf8_units(2) mutf8_units(2), of a s b s']
  by (simp add: mutf8_units(1) by_key_def unit_key_def sgn_lex_cmp)

text \<open>A string of the file as the accessors see it.\<close>

definition string_at :: "DexFile \<Rightarrow> nat \<Rightarrow> u16 list \<Rightarrow> bool" where
  "string_at d i cs \<longleftrightarrow> (\<exists>str_id n rest. GetStringId d i = Some str_id
     \<and> GetStringDataAndUtf16Length d str_id = Some (mutf8 cs @ 0 # rest, n) \<and> unat n = length cs)"

lemma string_at_data: "string_at d i cs \<Longrightarrow> \<exists>str_id rest. GetStringId d i = Some str_id \<and> GetStringData d str_id = Some (mutf8 cs @ 0 # rest)"
  by (auto simp: string_at_def GetStringData_def)

lemma verified_string:
  assumes "accepted_with v m" "small_file v" "m off = Some kDexTypeStringDataItem"
  obtains cs n rest where "GetStringDataAndUtf16Length (verified_file v) \<lparr>string_data_off = off\<rparr> = Some (mutf8 cs @ 0 # rest, n)"
    "unat n = length cs"
proof -
  from accepted_items(1) [OF assms(1,2)] assms(3) obtain q where "CheckIntraStringDataItem v (unat off) = accept q"
    by (auto simp: items_ok_def intra_item_def dest!: spec [of _ off])
  then obtain cs n p1 rest where "DecodeUnsignedLeb128 (file_bytes v) (unat off) = Some (n, p1)" "length cs = unat n"
    "drop p1 (file_bytes v) = mutf8 cs @ 0 # rest"
    by (rule CheckIntraStringDataItem_mutf8)
  then show ?thesis by (intro that [of cs rest n]) (simp_all add: GetStringDataAndUtf16Length_def)
qed

lemma string_order_key:
  assumes "string_order v x' p0 = accept ()" "load32 (file_bytes v) p0 = Some x"
    "GetStringData (verified_file v) \<lparr>string_data_off = x\<rparr> = Some (mutf8 a @ 0 # s)"
    "GetStringData (verified_file v) \<lparr>string_data_off = x'\<rparr> = Some (mutf8 b @ 0 # s')"
  shows "by_key unit_key a b < 0"
proof -
  from compare_mutf8 [of a s b s'] obtain r where "sgn r = sgn (by_key unit_key a b)" "r < 0"
    using assms by (auto simp: string_order_def accepts not_le)
  then show ?thesis by (simp add: sgn_if split: if_splits)
qed

lemma string_id_checked:
  assumes "inter_item v m kDexTypeStringIdItem prev classes p = accept r"
  obtains x where "load32 (file_bytes v) p = Some x" "m x = Some kDexTypeStringDataItem"
    "\<forall>p0. prev = Some p0 \<longrightarrow> string_order v x p0 = accept ()"
  using assms
  by (auto simp: inter_item_def CheckInterStringIdItem_def CheckOffsetToTypeMap_def check_previous_accepts accepts Let_def
      split: option.splits)

lemma verified_string_table:
  assumes "accepted_with v m" "small_file v" "opened v" "string_ids (verified_file v) mod 4 = 0"
  obtains ss where "NumStringIds (verified_file v) = Some (length ss)" "\<forall>i < length ss. string_at (verified_file v) i (ss ! i)"
    "ascending unit_key ss"
proof -
  let ?d = "verified_file v"
  from header_size_fields [OF assms(1)] obtain n where n: "header_at v string_ids_size_off = Some n" by metis
  from opened_tables(1) [OF assms(3)] obtain off where off: "header_at v string_ids_off_off = Some off" "unat off = string_ids ?d"
    by (auto simp: map_option_Some_iff)
  have al: "unat off mod 4 = 0" using off(2) assms(4) by simp
  note tab = string_section.table [OF assms(1,2) off(1) n al]
  have id_at: "GetStringId ?d i = Some \<lparr>string_data_off = x\<rparr> \<longleftrightarrow> load32 (file_bytes v) (unat off + 4 * i) = Some x" for i x
    using off(2) by (auto simp: GetStringId_def accepts)
  define g where "g i = (SOME cs. string_at ?d i cs)" for i
  have g: "string_at ?d i (g i)" if i: "i < unat n" for i
  proof -
    from tab(3) [OF i] obtain x where x: "load32 (file_bytes v) (unat off + 4 * i) = Some x" "m x = Some kDexTypeStringDataItem"
      by (auto elim!: string_id_checked)
    from verified_string [OF assms(1,2) x(2)] obtain cs k rest where
      "GetStringDataAndUtf16Length ?d \<lparr>string_data_off = x\<rparr> = Some (mutf8 cs @ 0 # rest, k)" "unat k = length cs" .
    then have "string_at ?d i cs" using x(1) id_at [of i x] by (auto simp: string_at_def)
    then show ?thesis unfolding g_def by (rule someI)
  qed
  let ?ss = "map g [0..<unat n]"
  have ordered: "by_key unit_key (g i) (g (Suc i)) < 0" if i: "Suc i < unat n" for i
  proof -
    from tab(3) [OF i] obtain x' where x': "load32 (file_bytes v) (unat off + 4 * Suc i) = Some x'"
      "string_order v x' (unat off + 4 * i) = accept ()"
      by (auto elim!: string_id_checked)
    from string_at_data [OF g [of i]] i obtain x rest where x: "load32 (file_bytes v) (unat off + 4 * i) = Some x"
      "GetStringData ?d \<lparr>string_data_off = x\<rparr> = Some (mutf8 (g i) @ 0 # rest)"
      by (metis Suc_lessD StringId.cases id_at)
    from string_at_data [OF g [OF i]] x'(1) obtain rest' where
      "GetStringData ?d \<lparr>string_data_off = x'\<rparr> = Some (mutf8 (g (Suc i)) @ 0 # rest')"
      by (metis StringId.cases id_at option.inject)
    from string_order_key [OF x'(2) x this] show ?thesis .
  qed
  have "transp (\<lambda>a b. by_key unit_key a b < 0)" by (rule transpI) (auto simp: by_key_def intro: lex_cmp_later)
  from sorted_wrt_iff_nth_Suc_transp [OF this, of ?ss] ordered tab(2)
  have "ascending unit_key ?ss" by auto
  then show ?thesis using n g by (intro that [of ?ss]) (simp_all add: NumStringIds_def header_at_def)
qed

text \<open>
  Claim C9. Strings of a verified file: when \<open>DexFileVerifier::Verify\<close> accepts a file with a 4-aligned table of strings,
  there are UTF-16 strings such that the data of every string id is the terminated modified UTF-8 form of its
  string and the recorded length is the number of its units, and \<open>FindStringId\<close>, given a
  string in that form, ends without leaving the file and returns its index exactly when it is in the table.
\<close>

theorem verified_strings:
  assumes "verify_file adler32 v = accept ()" "small_file v" "opened v" "string_ids (verified_file v) mod 4 = 0"
  shows "\<exists>ss. NumStringIds (verified_file v) = Some (length ss)
    \<and> (\<forall>i < length ss. string_at (verified_file v) i (ss ! i))
    \<and> (\<forall>k s. \<exists>r. FindStringId (verified_file v) (mutf8 k @ 0 # s) = Some r
        \<and> (\<forall>i. r = Some i \<longleftrightarrow> i < length ss \<and> k = ss ! i))"
proof -
  let ?d = "verified_file v"
  from verify_file_accepted [OF assms(1)] obtain m where acc: "accepted_with v m" ..
  obtain ss where ss: "NumStringIds ?d = Some (length ss)" "\<forall>i < length ss. string_at ?d i (ss ! i)" "ascending unit_key ss"
    using verified_string_table [OF acc assms(2-4)] .
  have "\<exists>r. FindStringId ?d (mutf8 k @ 0 # s) = Some r \<and> (\<forall>i. r = Some i \<longleftrightarrow> i < length ss \<and> k = ss ! i)" for k s
  proof -
    have "\<exists>c. do { str_id \<leftarrow> GetStringId ?d i; str \<leftarrow> GetStringData ?d str_id;
        CompareModifiedUtf8ToModifiedUtf8AsUtf16CodePointValues (mutf8 k @ 0 # s) str } = Some c
      \<and> sgn c = sgn (by_key unit_key k (ss ! i))" if "i < length ss" for i
      using string_at_data [of ?d i "ss ! i"] ss(2) that compare_mutf8 [of k s "ss ! i"] by fastforce
    from unit_table.search_table [OF _ _ this] ss(1,3) show ?thesis
      by (simp add: FindStringId_def finds_by_key [OF inj_unit_key])
  qed
  with ss show ?thesis by blast
qed

theorem verified_strings_witness:
  "\<exists>ss. length ss = 3 \<and> string_at class_file 1 (ss ! 1)
     \<and> FindStringId class_file (mutf8 (ss ! 1) @ [0]) = Some (Some 1)"
proof -
  have "string_ids (verified_file class_verifier) mod 4 = 0" by simp code_simp
  from verified_strings [OF class_file_ok this] obtain ss where ss: "NumStringIds class_file = Some (length ss)"
    "\<forall>i < length ss. string_at class_file i (ss ! i)"
    "\<forall>k s. \<exists>r. FindStringId class_file (mutf8 k @ 0 # s) = Some r \<and> (\<forall>i. r = Some i \<longleftrightarrow> i < length ss \<and> k = ss ! i)"
    by auto
  have "NumStringIds class_file = Some 3" by code_simp
  with ss(1) have "length ss = 3" by simp
  with ss(2) ss(3) [rule_format, of "ss ! 1" "[]"] show ?thesis by force
qed

end
