(* ===== verification/VerifiedClasses.thy ===== *)
theory VerifiedClasses
  imports VerifiedFile
begin

text \<open>
  Class data in a verified file: the loops of the verifier over a class data item see what the iterator of the
  runtime sees, and every method leads to a code item that was checked.
\<close>

section \<open>Loops over an iterator\<close>

text \<open>\<open>for (; P(it); it.Next())\<close> with a body that holds of every iterator it sees.\<close>

inductive loop_runs :: "buffer \<Rightarrow> (ClassDataItemIterator \<Rightarrow> bool) \<Rightarrow> (ClassDataItemIterator \<Rightarrow> bool) \<Rightarrow>
    ClassDataItemIterator \<Rightarrow> ClassDataItemIterator \<Rightarrow> bool" for buf P C where
  stop: "\<not> P it \<Longrightarrow> loop_runs buf P C it it"
| turn: "P it \<Longrightarrow> C it \<Longrightarrow> cdi_Next buf it = Some it1 \<Longrightarrow> loop_runs buf P C it1 it' \<Longrightarrow> loop_runs buf P C it it'"

lemma members_loop_runs:
  "members_loop v k prev it = accept it' \<Longrightarrow>
     loop_runs (file_bytes v) (has_next k) (\<lambda>it. check_member v k it = accept ()) it it'"
proof (induction v k prev it rule: members_loop.induct)
  case (1 v k prev it)
  show ?case
  proof (cases "has_next k it")
    case True
    with "1.prems" obtain it1 where step: "check_member v k it = accept ()" "cdi_Next (file_bytes v) it = Some it1"
      "\<not> GetMemberIndex it < prev" "members_loop v k (GetMemberIndex it) it1 = accept it'"
      by (subst (asm) members_loop.simps) (auto simp: accepts Let_def split: option.splits)
    with "1.IH" [OF True refl] have "loop_runs (file_bytes v) (has_next k) (\<lambda>it. check_member v k it = accept ()) it1 it'"
      by blast
    with True step show ?thesis by (blast intro: loop_runs.turn)
  next
    case False
    with "1.prems" have "it' = it" by (subst (asm) members_loop.simps) simp
    with False show ?thesis by (simp add: loop_runs.stop)
  qed
qed

lemma inter_fields_runs:
  "inter_fields v c it = accept it' \<Longrightarrow>
     loop_runs (file_bytes v) (\<lambda>it. HasNextStaticField it \<or> HasNextInstanceField it) (\<lambda>it. True) it it'"
proof (induction v c it rule: inter_fields.induct)
  case (1 v c it)
  show ?case
  proof (cases "HasNextStaticField it \<or> HasNextInstanceField it")
    case True
    with "1.prems" obtain field it1 where step: "CheckLoadFieldId v (GetMemberIndex it) = accept field" "f_class_idx field = c"
      "cdi_Next (file_bytes v) it = Some it1" "inter_fields v c it1 = accept it'"
      by (subst (asm) inter_fields.simps) (auto simp: accepts split: option.splits)
    from "1.IH" [OF True step(1,2,3,4)] True step(3) show ?thesis by (blast intro: loop_runs.turn)
  next
    case False
    with "1.prems" have "it' = it" by (subst (asm) inter_fields.simps) simp
    with False show ?thesis by (simp add: loop_runs.stop)
  qed
qed

lemma inter_methods_runs:
  "inter_methods v m c it = accept it' \<Longrightarrow>
     loop_runs (file_bytes v) (\<lambda>it. HasNextDirectMethod it \<or> HasNextVirtualMethod it)
       (\<lambda>it. \<not> bad_reference m (GetMethodCodeItemOffset it) kDexTypeCodeItem) it it'"
proof (induction v m c it rule: inter_methods.induct)
  case (1 v m c it)
  show ?case
  proof (cases "HasNextDirectMethod it \<or> HasNextVirtualMethod it")
    case True
    with "1.prems" obtain k it1 where step: "\<not> bad_reference m (GetMethodCodeItemOffset it) kDexTypeCodeItem"
      "CheckLoadMethodId v (GetMemberIndex it) = accept k" "m_class_idx k = c"
      "cdi_Next (file_bytes v) it = Some it1" "inter_methods v m c it1 = accept it'"
      by (subst (asm) inter_methods.simps) (auto simp: accepts split: option.splits)
    from "1.IH" [OF True step(1-5)] True step(1,4) show ?thesis by (blast intro: loop_runs.turn)
  next
    case False
    with "1.prems" have "it' = it" by (subst (asm) inter_methods.simps) simp
    with False show ?thesis by (simp add: loop_runs.stop)
  qed
qed

text \<open>The iterator after so many calls of \<open>Next\<close>.\<close>

fun nexts :: "buffer \<Rightarrow> nat \<Rightarrow> ClassDataItemIterator \<Rightarrow> ClassDataItemIterator option" where
  "nexts buf 0 it = Some it"
| "nexts buf (Suc n) it = do { it1 \<leftarrow> cdi_Next buf it; nexts buf n it1 }"

lemma nexts_keeps: "nexts buf n it = Some it' \<Longrightarrow> header it' = header it \<and> pos it' = pos it + n"
  by (induction n arbitrary: it) (auto simp: bind_eq_Some_conv dest!: cdi_Next_keeps)

lemma nexts_trans: "nexts buf a it = Some it1 \<Longrightarrow> nexts buf b it1 = Some it2 \<Longrightarrow> nexts buf (a + b) it = Some it2"
  by (induction a arbitrary: it) (auto simp: bind_eq_Some_conv)

lemma nexts_earlier: "nexts buf (a + b) it = Some it2 \<Longrightarrow> \<exists>it1. nexts buf a it = Some it1 \<and> nexts buf b it1 = Some it2"
  by (induction a arbitrary: it) (auto simp: bind_eq_Some_conv)

text \<open>All iterators on the way satisfy a condition.\<close>

definition covered :: "buffer \<Rightarrow> (ClassDataItemIterator \<Rightarrow> bool) \<Rightarrow> nat \<Rightarrow> ClassDataItemIterator \<Rightarrow> ClassDataItemIterator \<Rightarrow> bool" where
  "covered buf Q n it e \<longleftrightarrow> nexts buf n it = Some e \<and> (\<forall>j < n. \<exists>i. nexts buf j it = Some i \<and> Q i)"

lemma covered_trans:
  assumes "covered buf Q a it it1" "covered buf Q b it1 it2"
  shows "covered buf Q (a + b) it it2"
proof -
  have "\<exists>i. nexts buf j it = Some i \<and> Q i" if "j < a + b" for j
  proof (cases "j < a")
    case False
    then have "j = a + (j - a)" "j - a < b" using that by auto
    with assms show ?thesis unfolding covered_def by (metis nexts_trans)
  qed (use assms in \<open>auto simp: covered_def\<close>)
  then show ?thesis using assms nexts_trans by (auto simp: covered_def)
qed

lemma covered_mono: "covered buf Q n it e \<Longrightarrow> (\<And>i. Q i \<Longrightarrow> R i) \<Longrightarrow> covered buf R n it e"
  by (fastforce simp: covered_def)

lemma loop_runs_covered: "loop_runs buf P C it it' \<Longrightarrow> \<not> P it' \<and> (\<exists>n. covered buf (\<lambda>i. P i \<and> C i) n it it')"
proof (induction rule: loop_runs.induct)
  case (stop it)
  then show ?case by (auto simp: covered_def intro: exI [of _ 0])
next
  case (turn it it1 it')
  then obtain n where n: "covered buf (\<lambda>i. P i \<and> C i) n it1 it'" "\<not> P it'" by blast
  have "covered buf (\<lambda>i. P i \<and> C i) (Suc 0) it it1" using turn by (simp add: covered_def)
  from covered_trans [OF this n(1)] n(2) show ?case by blast
qed

lemma loop_runs_until:
  assumes "loop_runs buf P C it it'" "\<And>i. header i = header it \<Longrightarrow> pos it \<le> pos i \<Longrightarrow> P i \<longleftrightarrow> pos i < E"
  shows "covered buf (\<lambda>i. P i \<and> C i) (max (pos it) E - pos it) it it'" "header it' = header it" "pos it' = max (pos it) E"
proof -
  from loop_runs_covered [OF assms(1)] obtain n where n: "\<not> P it'" "covered buf (\<lambda>i. P i \<and> C i) n it it'" by blast
  then have k: "header it' = header it" "pos it' = pos it + n" using nexts_keeps by (auto simp: covered_def)
  have "E \<le> pos it + n" using assms(2) [of it'] k n(1) by auto
  moreover have "pos it + (n - 1) < E" if "0 < n"
  proof -
    from n(2) that obtain i where "nexts buf (n - 1) it = Some i" "P i" unfolding covered_def by (meson diff_less zero_less_one)
    then show ?thesis using assms(2) [of i] nexts_keeps [of buf "n - 1" it i] by auto
  qed
  ultimately have "n = max (pos it) E - pos it" by (cases "n = 0") (auto simp: max_def)
  with n k show "covered buf (\<lambda>i. P i \<and> C i) (max (pos it) E - pos it) it it'" "header it' = header it" "pos it' = max (pos it) E"
    by auto
qed

section \<open>One class data item\<close>

lemma make_iterator_pos: "make_ClassDataItemIterator buf p = Some it \<Longrightarrow> pos it = 0"
  by (auto simp: make_ClassDataItemIterator_def bind_eq_Some_conv Let_def split: if_splits dest!: read_keeps)

text \<open>The number of members that are read: the greatest of the four positions, which wrap around in 32 bits.\<close>

definition members_read :: "ClassDataItemIterator \<Rightarrow> nat" where
  "members_read it = max (max (unat (EndOfStaticFieldsPos it)) (unat (EndOfInstanceFieldsPos it)))
     (max (unat (EndOfDirectMethodsPos it)) (unat (EndOfVirtualMethodsPos it)))"

lemma ends_header:
  "header i = header it \<Longrightarrow> EndOfStaticFieldsPos i = EndOfStaticFieldsPos it"
  "header i = header it \<Longrightarrow> EndOfInstanceFieldsPos i = EndOfInstanceFieldsPos it"
  "header i = header it \<Longrightarrow> EndOfDirectMethodsPos i = EndOfDirectMethodsPos it"
  "header i = header it \<Longrightarrow> EndOfVirtualMethodsPos i = EndOfVirtualMethodsPos it"
  by (simp_all add: EndOfStaticFieldsPos_def EndOfInstanceFieldsPos_def EndOfDirectMethodsPos_def EndOfVirtualMethodsPos_def)

definition member_passed :: "DexFileVerifier \<Rightarrow> ClassDataItemIterator \<Rightarrow> bool" where
  "member_passed v i \<longleftrightarrow> (\<exists>k. has_next k i \<and> check_member v k i = accept ())"

lemma intra_members:
  assumes "CheckIntraClassDataItem v p = accept q"
  obtains it e where "make_ClassDataItemIterator (file_bytes v) p = Some it"
    "covered (file_bytes v) (member_passed v) (members_read it) it e" "cdi_EndDataPointer e = Some q"
proof -
  let ?buf = "file_bytes v"
  from assms obtain it it1 it2 it3 e where it: "make_ClassDataItemIterator ?buf p = Some it"
    and loops: "members_loop v StaticField 0 it = accept it1" "members_loop v InstanceField 0 it1 = accept it2"
      "members_loop v DirectMethod 0 it2 = accept it3" "members_loop v VirtualMethod 0 it3 = accept e"
    and fin: "cdi_EndDataPointer e = Some q"
    by (auto simp: CheckIntraClassDataItem_def accepts)
  note adv = loops [THEN members_loop_runs]
  have pos0: "pos it = 0" by (rule make_iterator_pos [OF it])
  have mono: "covered ?buf (\<lambda>i. has_next k i \<and> check_member v k i = accept ()) n a b \<Longrightarrow> covered ?buf (member_passed v) n a b" for k n a b
    by (erule covered_mono) (auto simp: member_passed_def)
  have a1: "has_next StaticField i \<longleftrightarrow> pos i < unat (EndOfStaticFieldsPos it)" if "header i = header it" "pos it \<le> pos i" for i
    by (simp add: HasNextStaticField_def ends_header [OF that(1)])
  note r1 = loop_runs_until [OF adv(1) a1]
  have a2: "has_next InstanceField i \<longleftrightarrow> pos i < unat (EndOfInstanceFieldsPos it)" if "header i = header it1" "pos it1 \<le> pos i" for i
    using that r1(2,3) by (simp add: HasNextInstanceField_def ends_header [of i it])
  note r2 = loop_runs_until [OF adv(2) a2]
  have a3: "has_next DirectMethod i \<longleftrightarrow> pos i < unat (EndOfDirectMethodsPos it)" if "header i = header it2" "pos it2 \<le> pos i" for i
    using that r1(2) r2(2,3) by (simp add: HasNextDirectMethod_def ends_header [of i it])
  note r3 = loop_runs_until [OF adv(3) a3]
  have a4: "has_next VirtualMethod i \<longleftrightarrow> pos i < unat (EndOfVirtualMethodsPos it)" if "header i = header it3" "pos it3 \<le> pos i" for i
    using that r1(2) r2(2) r3(2,3) by (simp add: HasNextVirtualMethod_def ends_header [of i it])
  note r4 = loop_runs_until [OF adv(4) a4]
  have sum: "max (pos it) (unat (EndOfStaticFieldsPos it)) - pos it + (max (pos it1) (unat (EndOfInstanceFieldsPos it)) - pos it1)
      + (max (pos it2) (unat (EndOfDirectMethodsPos it)) - pos it2)
      + (max (pos it3) (unat (EndOfVirtualMethodsPos it)) - pos it3) = members_read it"
    using pos0 r1(3) r2(3) r3(3) by (simp add: members_read_def)
  from covered_trans [OF covered_trans [OF covered_trans [OF mono [OF r1(1)] mono [OF r2(1)]] mono [OF r3(1)]] mono [OF r4(1)]]
  have "covered ?buf (member_passed v) (members_read it) it e" unfolding sum .
  with it fin show ?thesis by (intro that)
qed

definition reference_passed :: "type_map \<Rightarrow> ClassDataItemIterator \<Rightarrow> bool" where
  "reference_passed m i \<longleftrightarrow> HasNextStaticField i \<or> HasNextInstanceField i
     \<or> \<not> bad_reference m (GetMethodCodeItemOffset i) kDexTypeCodeItem"

lemma inter_members:
  assumes "CheckInterClassDataItem v m p = accept q"
  obtains it e where "make_ClassDataItemIterator (file_bytes v) p = Some it"
    "covered (file_bytes v) (reference_passed m) (members_read it) it e" "cdi_EndDataPointer e = Some q"
proof -
  let ?buf = "file_bytes v"
  from assms obtain it c it1 e where it: "make_ClassDataItemIterator ?buf p = Some it"
    and loops: "inter_fields v c it = accept it1" "inter_methods v m c it1 = accept e"
    and fin: "cdi_EndDataPointer e = Some q"
    by (auto simp: CheckInterClassDataItem_def accepts)
  have pos0: "pos it = 0" by (rule make_iterator_pos [OF it])
  let ?F = "max (unat (EndOfStaticFieldsPos it)) (unat (EndOfInstanceFieldsPos it))"
  let ?M = "max (unat (EndOfDirectMethodsPos it)) (unat (EndOfVirtualMethodsPos it))"
  have a1: "HasNextStaticField i \<or> HasNextInstanceField i \<longleftrightarrow> pos i < ?F" if "header i = header it" "pos it \<le> pos i" for i
    by (auto simp: HasNextStaticField_def HasNextInstanceField_def ends_header [OF that(1)])
  note r1 = loop_runs_until [OF inter_fields_runs [OF loops(1)] a1]
  have a2: "HasNextDirectMethod i \<or> HasNextVirtualMethod i \<longleftrightarrow> pos i < ?M" if "header i = header it1" "pos it1 \<le> pos i" for i
    using that r1(2,3) by (auto simp: HasNextDirectMethod_def HasNextVirtualMethod_def ends_header [of i it])
  note r2 = loop_runs_until [OF inter_methods_runs [OF loops(2)] a2]
  have "covered ?buf (reference_passed m) (max (pos it) ?F - pos it) it it1"
    "covered ?buf (reference_passed m) (max (pos it1) ?M - pos it1) it1 e"
    by (rule covered_mono [OF r1(1)] covered_mono [OF r2(1)], auto simp: reference_passed_def)+
  note cov = covered_trans [OF this]
  have sum: "max (pos it) ?F - pos it + (max (pos it1) ?M - pos it1) = members_read it"
    using pos0 r1(3) by (simp add: members_read_def)
  from it cov [unfolded sum] fin show ?thesis by (rule that)
qed

text \<open>The two passes over an item end at the same byte.\<close>

lemma class_data_end:
  assumes "CheckIntraClassDataItem v p = accept q" "CheckInterClassDataItem v m p = accept q'"
  shows "q = q'"
proof -
  from assms(1) obtain it e where "make_ClassDataItemIterator (file_bytes v) p = Some it"
    "covered (file_bytes v) (member_passed v) (members_read it) it e" "cdi_EndDataPointer e = Some q"
    by (rule intra_members)
  moreover from assms(2) obtain it' e' where "make_ClassDataItemIterator (file_bytes v) p = Some it'"
    "covered (file_bytes v) (reference_passed m) (members_read it') it' e'" "cdi_EndDataPointer e' = Some q'"
    by (rule inter_members)
  ultimately show ?thesis by (auto simp: covered_def)
qed

text \<open>The loop of the runtime over the iterator.\<close>

lemma walk_covered:
  "covered buf Q n it e \<Longrightarrow> (\<And>i. Q i \<Longrightarrow> cdi_HasNext i) \<Longrightarrow> \<not> cdi_HasNext e \<Longrightarrow>
     \<exists>ms. cdi_walk buf it = Some (ms, e) \<and> (\<forall>x \<in> set ms. \<exists>j < n. \<exists>i. nexts buf j it = Some i \<and> x = current_member i)"
proof (induction n arbitrary: it)
  case 0
  then show ?case by (subst cdi_walk.simps) (simp add: covered_def)
next
  case (Suc n)
  then obtain it1 where it1: "cdi_Next buf it = Some it1" "nexts buf n it1 = Some e"
    by (auto simp: covered_def bind_eq_Some_conv)
  have "\<exists>i. nexts buf j it1 = Some i \<and> Q i" if "j < n" for j
    using Suc.prems(1) it1(1) that unfolding covered_def by (auto dest!: spec [of _ "Suc j"])
  then have "covered buf Q n it1 e" using it1(2) by (simp add: covered_def)
  from Suc.IH [OF this Suc.prems(2,3)] obtain ms where ms: "cdi_walk buf it1 = Some (ms, e)"
    "\<forall>x \<in> set ms. \<exists>j < n. \<exists>i. nexts buf j it1 = Some i \<and> x = current_member i" by blast
  have "Q it" using Suc.prems(1) unfolding covered_def by (auto dest!: spec [of _ 0])
  then have "cdi_walk buf it = Some (current_member it # ms, e)"
    using Suc.prems(2) ms(1) it1(1) by (subst cdi_walk.simps) simp
  moreover have "\<exists>j < Suc n. \<exists>i. nexts buf j it = Some i \<and> x = current_member i" if "x \<in> set (current_member it # ms)" for x
  proof (cases "x = current_member it")
    case True
    then show ?thesis by (intro exI [of _ 0]) simp
  next
    case False
    with that ms(2) obtain j i where "j < n" "nexts buf j it1 = Some i" "x = current_member i" by auto
    then show ?thesis using it1(1) by (intro exI [of _ "Suc j"]) auto
  qed
  ultimately show ?case by blast
qed

text \<open>The counts of the header add up without wrapping around.\<close>

definition counts_fit :: "ClassDataItemIterator \<Rightarrow> bool" where
  "counts_fit it \<longleftrightarrow> unat (static_fields_size (header it)) + unat (instance_fields_size (header it))
     + unat (direct_methods_size (header it)) + unat (virtual_methods_size (header it)) < 2 ^ 32"

lemma counts_fit_ends:
  assumes "counts_fit it"
  shows "unat (EndOfStaticFieldsPos it) \<le> unat (EndOfInstanceFieldsPos it)"
    "unat (EndOfInstanceFieldsPos it) \<le> unat (EndOfDirectMethodsPos it)"
    "unat (EndOfDirectMethodsPos it) \<le> unat (EndOfVirtualMethodsPos it)"
  using assms
  by (simp_all add: counts_fit_def EndOfStaticFieldsPos_def EndOfInstanceFieldsPos_def EndOfDirectMethodsPos_def
      EndOfVirtualMethodsPos_def unat_word_ariths mod_less)

definition member_checked :: "DexFileVerifier \<Rightarrow> cdi_member \<Rightarrow> bool" where
  "member_checked v x =
     (case x of
        FieldMember f idx \<Rightarrow> (case NumFieldIds (verified_file v) of None \<Rightarrow> False | Some n \<Rightarrow> unat idx < n)
      | MethodMember k idx \<Rightarrow> (case NumMethodIds (verified_file v) of None \<Rightarrow> False | Some n \<Rightarrow> unat idx < n)
          \<and> (code_off k = 0 \<longleftrightarrow> method_access_flags k AND (kAccNative OR kAccAbstract) \<noteq> 0)
          \<and> (code_off k \<noteq> 0 \<longrightarrow> (\<exists>q. CheckIntraCodeItem v (unat (code_off k)) = accept q)))"

lemma passed_member_checked:
  assumes "member_passed v i" "reference_passed m i" "counts_fit i" "items_ok v m"
  shows "member_checked v (current_member i)"
proof (cases "pos i < unat (EndOfInstanceFieldsPos i)")
  case True
  from assms(1) obtain k where k: "has_next k i" "check_member v k i = accept ()" by (auto simp: member_passed_def)
  with True have "k = StaticField \<or> k = InstanceField" using counts_fit_ends [OF assms(3)]
    by (cases k) (auto simp: HasNextDirectMethod_def HasNextVirtualMethod_def)
  with k(2) obtain expect_static where
    "CheckClassDataItemField v (GetMemberIndex i) (GetRawMemberAccessFlags i) expect_static = accept ()"
    by auto
  then show ?thesis using True
    by (auto simp: CheckClassDataItemField_def accepts CheckIndex_def current_member_def member_checked_def NumFieldIds_def header_at_def
        word_less_nat_alt)
next
  case False
  from assms(1) obtain k where k: "has_next k i" "check_member v k i = accept ()" by (auto simp: member_passed_def)
  with False have "k = DirectMethod \<or> k = VirtualMethod" using counts_fit_ends [OF assms(3)]
    by (cases k) (auto simp: HasNextStaticField_def HasNextInstanceField_def)
  with k(2) obtain expect_direct where chk: "CheckClassDataItemMethod v (GetMemberIndex i) (GetRawMemberAccessFlags i)
      (GetMethodCodeItemOffset i) expect_direct = accept ()"
    by auto
  have "\<not> bad_reference m (GetMethodCodeItemOffset i) kDexTypeCodeItem"
    using assms(2) False counts_fit_ends [OF assms(3)]
    by (auto simp: reference_passed_def HasNextStaticField_def HasNextInstanceField_def)
  then have "code_off (cur_method i) \<noteq> 0 \<longrightarrow> (\<exists>q. CheckIntraCodeItem v (unat (code_off (cur_method i))) = accept q)"
    using assms(4) by (auto simp: bad_reference_def CheckOffsetToTypeMap_def items_ok_def intra_item_def GetMethodCodeItemOffset_def
        split: option.splits dest!: spec [of _ "code_off (cur_method i)"])
  then show ?thesis using False chk
    by (auto simp: CheckClassDataItemMethod_def accepts CheckIndex_def current_member_def member_checked_def NumMethodIds_def header_at_def
        word_less_nat_alt GetMethodCodeItemOffset_def GetRawMemberAccessFlags_def Let_def)
qed

lemma class_data_walk:
  assumes "CheckIntraClassDataItem v p = accept q" "CheckInterClassDataItem v m p = accept q'" "items_ok v m"
  shows "\<exists>it. make_ClassDataItemIterator (file_bytes v) p = Some it
    \<and> (counts_fit it \<longrightarrow> (\<exists>ms e. cdi_walk (file_bytes v) it = Some (ms, e) \<and> (\<forall>x \<in> set ms. member_checked v x)))"
proof -
  let ?buf = "file_bytes v"
  from assms(1) obtain it e where it: "make_ClassDataItemIterator ?buf p = Some it"
    and intra: "covered ?buf (member_passed v) (members_read it) it e" and fin: "cdi_EndDataPointer e = Some q"
    by (rule intra_members)
  from assms(2) it obtain e' where inter: "covered ?buf (reference_passed m) (members_read it) it e'"
    by (auto elim!: inter_members)
  have "\<exists>ms e. cdi_walk ?buf it = Some (ms, e) \<and> (\<forall>x \<in> set ms. member_checked v x)" if fit: "counts_fit it"
  proof -
    have fit_at: "counts_fit i \<and> cdi_HasNext i" if "nexts ?buf j it = Some i" "j < members_read it" for i j
    proof -
      from nexts_keeps [OF that(1)] have "header i = header it" "pos i = j" using make_iterator_pos [OF it] by auto
      moreover have "members_read it = unat (EndOfVirtualMethodsPos it)"
        using counts_fit_ends [OF fit] by (simp add: members_read_def)
      ultimately show ?thesis using fit that(2) by (simp add: counts_fit_def cdi_HasNext_def ends_header [of i it])
    qed
    have "covered ?buf cdi_HasNext (members_read it) it e"
      using intra fit_at by (fastforce simp: covered_def)
    moreover have "\<not> cdi_HasNext e" using fin by (simp add: cdi_EndDataPointer_def split: if_splits)
    ultimately obtain ms where ms: "cdi_walk ?buf it = Some (ms, e)"
      "\<forall>x \<in> set ms. \<exists>j < members_read it. \<exists>i. nexts ?buf j it = Some i \<and> x = current_member i"
      using walk_covered [of ?buf cdi_HasNext] by blast
    have "member_checked v x" if "x \<in> set ms" for x
    proof -
      from ms(2) that obtain j i where i: "j < members_read it" "nexts ?buf j it = Some i" "x = current_member i" by blast
      from intra i have "member_passed v i" by (auto simp: covered_def)
      moreover from inter i have "reference_passed m i" by (auto simp: covered_def)
      ultimately show ?thesis using passed_member_checked fit_at [OF i(2,1)] assms(3) i(3) by blast
    qed
    with ms(1) show ?thesis by blast
  qed
  with it show ?thesis by blast
qed

section \<open>From the class definitions to the code\<close>

text \<open>Every class data item of the map is also an item of the second pass.\<close>

definition cross_checked :: "DexFileVerifier \<Rightarrow> type_map \<Rightarrow> type_map \<Rightarrow> bool" where
  "cross_checked v m m1 \<longleftrightarrow> (\<forall>off. m1 off = Some kDexTypeClassDataItem \<longrightarrow> (\<exists>q. CheckInterClassDataItem v m (unat off) = accept q))"

lemma cross_checked_Put:
  "cross_checked v m m1 \<Longrightarrow> (t = kDexTypeClassDataItem \<Longrightarrow> \<exists>q. CheckInterClassDataItem v m (unat k) = accept q) \<Longrightarrow>
     cross_checked v m (Put m1 k t)"
  by (auto simp: cross_checked_def Put_def split: option.splits)

lemma class_data_items_cross_checked:
  assumes "intra_items v kDexTypeClassDataItem n offset offset m1 = accept (q, m2)"
    and "inter_items v m kDexTypeClassDataItem n offset prev classes = accept classes'"
    and "small_file v" "offset \<le> Size (verified_file v)" "cross_checked v m m1"
  shows "cross_checked v m m2"
  using assms(1,2,4,5)
proof (induction n arbitrary: offset m1 prev classes)
  case (Suc n)
  let ?k = "word_of_nat offset :: u32"
  have k: "unat ?k = offset" using assms(3) Suc.prems(3) by (simp add: small_file_def unsigned_of_nat take_bit_nat_eq_self)
  have al: "intra_alignment kDexTypeClassDataItem = 1" "inter_alignment kDexTypeClassDataItem = 1" "IsDataSectionType kDexTypeClassDataItem"
    by (simp_all add: intra_alignment_def inter_alignment_def IsDataSectionType_def)
  from Suc.prems(1) assms(3) Suc.prems(3) obtain p where
    "intra_item v kDexTypeClassDataItem (RoundUp offset (intra_alignment kDexTypeClassDataItem)) = accept p" "p \<le> Size (verified_file v)"
    "intra_items v kDexTypeClassDataItem n p p (if IsDataSectionType kDexTypeClassDataItem
       then Put m1 (word_of_nat (RoundUp offset (intra_alignment kDexTypeClassDataItem))) kDexTypeClassDataItem else m1) = accept (q, m2)"
    by (rule intra_items_step)
  then have p: "CheckIntraClassDataItem v offset = accept p" "p \<le> Size (verified_file v)"
    "intra_items v kDexTypeClassDataItem n p p (Put m1 ?k kDexTypeClassDataItem) = accept (q, m2)"
    by (simp_all add: al intra_item_def)
  from Suc.prems(2) obtain p' where p': "CheckInterClassDataItem v m offset = accept p'"
    "inter_items v m kDexTypeClassDataItem n p' (Some offset) classes = accept classes'"
    by (auto simp: accepts Let_def al k inter_item_def)
  have "cross_checked v m (Put m1 ?k kDexTypeClassDataItem)"
    by (rule cross_checked_Put [OF Suc.prems(4)]) (use p'(1) k in auto)
  from Suc.IH [OF p(3) p'(2) [folded class_data_end [OF p(1) p'(1)]] p(2) this] show ?case .
qed simp

lemma other_items_cross_checked:
  "intra_items v t n offset ptr m1 = accept (q, m2) \<Longrightarrow> t \<noteq> kDexTypeClassDataItem \<Longrightarrow> cross_checked v m m1 \<Longrightarrow> cross_checked v m m2"
  by (induction n arbitrary: offset ptr m1) (auto simp: accepts Let_def cross_checked_Put split: if_splits)

definition class_data_checked :: "DexFileVerifier \<Rightarrow> type_map \<Rightarrow> MapItem \<Rightarrow> bool" where
  "class_data_checked v m item \<longleftrightarrow> (mi_type item = kDexTypeClassDataItem \<longrightarrow>
     (\<exists>classes classes'. inter_items v m kDexTypeClassDataItem (unat (mi_size item)) (unat (mi_offset item)) None classes = accept classes'))"

lemma intra_section_cross_checked:
  assumes "intra_section v mc item (unat (mi_offset item)) m1 = accept (offset, ptr, m2)"
    and "class_data_checked v m item" "small_file v" "unat (mi_offset item) \<le> Size (verified_file v)" "cross_checked v m m1"
  shows "cross_checked v m m2"
proof (cases "\<exists>q. intra_items v (mi_type item) (unat (mi_size item)) (unat (mi_offset item)) (unat (mi_offset item)) m1 = accept (q, m2)")
  case True
  then show ?thesis
    using class_data_items_cross_checked [OF _ _ assms(3,4,5)] other_items_cross_checked [OF _ _ assms(5)] assms(2)
    unfolding class_data_checked_def by (metis (no_types))
next
  case False
  then have "m2 = m1" using assms(1)
    by (auto simp: intra_section_def Let_def accepts CheckIntraIdSection_def CheckIntraDataSection_def CheckIntraSectionIterate_def
        split: if_splits option.splits prod.splits)
  with assms(5) show ?thesis by simp
qed

lemma intra_sections_cross_checked:
  assumes "intra_sections v mc n p offset offset m1 = accept m'"
    and "offset \<le> Size (verified_file v)" "items_ok v m1" "cross_checked v m m1"
    and "\<forall>j < n. \<forall>item. read_MapItem v (p + 12 * j) = Some item \<longrightarrow> class_data_checked v m item"
    and "small_file v" "header_at v header_size_off = Some 112"
    and "header_at v map_off_off = Some off" "unat off + 4 + unat mc * 12 \<le> Size (verified_file v)" "112 \<le> Size (verified_file v)"
  shows "cross_checked v m m'"
  using assms(1-5)
proof (induction n arbitrary: p offset m1)
  case (Suc n)
  then obtain item q offset1 ptr1 m2 where item: "read_MapItem v p = Some item"
    and q: "CheckPadding v offset (mi_offset item) offset = accept q" "\<not> offset > unat (mi_offset item)"
    and sec: "intra_section v mc item q m1 = accept (offset1, ptr1, m2)"
    and rest: "intra_sections v mc n (p + 12) offset1 ptr1 m2 = accept m'"
    by (auto simp: accepts)
  from CheckPadding_end [OF q(1)] q(2) Suc.prems(2)
  have q': "q = unat (mi_offset item)" "unat (mi_offset item) \<le> Size (verified_file v)" by auto
  note sec' = sec [unfolded q'(1)]
  from intra_section_ok [OF sec' assms(6) q'(2) Suc.prems(3) assms(7-10)]
  have ok: "ptr1 = offset1" "offset1 \<le> Size (verified_file v)" "items_ok v m2" by auto
  have "class_data_checked v m item" using Suc.prems(5) item by (auto dest!: spec [of _ 0])
  from intra_section_cross_checked [OF sec' this assms(6) q'(2) Suc.prems(4)] have cross: "cross_checked v m m2" .
  have "\<forall>j < n. \<forall>item. read_MapItem v (p + 12 + 12 * j) = Some item \<longrightarrow> class_data_checked v m item"
  proof (intro allI impI)
    fix j item assume "j < n" "read_MapItem v (p + 12 + 12 * j) = Some item"
    then show "class_data_checked v m item" using Suc.prems(5) by (auto simp: algebra_simps dest!: spec [of _ "Suc j"])
  qed
  from Suc.IH [OF rest [unfolded ok(1)] ok(2,3) cross this] show ?case .
qed simp

lemma accepted_class_data:
  assumes "accepted_with v m" "small_file v"
  shows "cross_checked v m m"
proof -
  from assms(1) obtain adler32 where hd: "CheckHeader adler32 v = accept ()" and mp: "CheckMap v = accept ()"
    and intra: "CheckIntraSection v = accept m" and inter: "CheckInterSection v m = accept ()"
    by (auto simp: accepted_with_def)
  from mp obtain off count file_size data_size used where off: "header_at v map_off_off = Some off"
    "load32 (file_bytes v) (unat off) = Some count" "unat off + 4 + unat count * 12 \<le> Size (verified_file v)"
    by (rule CheckMap_facts)
  from intra off have intra': "intra_sections v count (unat count) (unat off + 4) 0 0 Map.empty = accept m"
    by (simp add: CheckIntraSection_def)
  from inter off have inter': "inter_sections v m (unat count) (unat off + 4) [] = accept ()"
    by (simp add: CheckInterSection_def)
  have "class_data_checked v m item" if "j < unat count" "read_MapItem v (unat off + 4 + 12 * j) = Some item" for j item
    using inter_sections_checked [OF inter' that]
    by (auto simp: class_data_checked_def cross_checked_section_def CheckInterSectionIterate_def)
  then show ?thesis
    using intra_sections_cross_checked [OF intra' _ _ _ _ assms(2) CheckHeader_facts(1) [OF hd] off(1,3) CheckHeader_facts(2) [OF hd]]
    by (auto simp: items_ok_def cross_checked_def)
qed

text \<open>
  Claim C6. Classes of a verified file: when \<open>DexFileVerifier::Verify\<close> accepts a file that was opened from
  its bytes, at most \<open>2\<^sup>3\<^sup>2 - 4\<close> of them, with a 4-aligned table of classes, the iterator over the class data of any of its classes can be made, and if the four counts of the class data
  do not wrap around, the loop over it ends inside the file, every field and method index it yields is in its
  table, a method has code exactly when it is neither native nor abstract, and its code offset is that of a
  code item that \<open>CheckIntraCodeItem\<close> accepts.
\<close>

theorem verified_class_data:
  assumes "verify_file adler32 v = accept ()" "small_file v" "opened v" "class_defs (verified_file v) mod 4 = 0"
    and "NumClassDefs (verified_file v) = Some n" "unat idx < n" "GetClassDef (verified_file v) idx = Some class_def"
    and "GetClassData class_def = Some data"
  shows "\<exists>it. make_ClassDataItemIterator (file_bytes v) data = Some it
    \<and> (counts_fit it \<longrightarrow> (\<exists>ms e. cdi_walk (file_bytes v) it = Some (ms, e) \<and> (\<forall>x \<in> set ms. member_checked v x)))"
proof -
  from verify_file_accepted [OF assms(1)] obtain m where acc: "accepted_with v m" ..
  from assms(5) obtain k where k: "header_at v class_defs_size_off = Some k" "n = unat k"
    by (auto simp: NumClassDefs_def header_at_def)
  from opened_tables(5) [OF assms(3)] obtain off where off: "header_at v class_defs_off_off = Some off" "unat off = class_defs (verified_file v)"
    by (auto simp: map_option_Some_iff)
  have "\<exists>prev classes r. inter_item v m kDexTypeClassDefItem prev classes (unat off + 32 * unat idx) = accept r"
    using class_section.table_checked [OF acc assms(2) off(1) k(1), of "unat idx"] off(2) assms(4,6) k(2) by metis
  then obtain classes r where "CheckInterClassDefItem v m classes (unat off + 32 * unat idx) = accept r"
    by (auto simp: inter_item_def Let_def)
  moreover have "read_ClassDef (file_bytes v) (unat off + 32 * unat idx) = Some class_def"
    using assms(7) off(2) by (simp add: GetClassDef_def read_ClassDef_def class_def_offset_def Let_def)
  ultimately have ref: "\<not> bad_reference m (class_data_off class_def) kDexTypeClassDataItem"
    by (auto simp: CheckInterClassDefItem_def accepts)
  have data: "class_data_off class_def \<noteq> 0" "data = unat (class_data_off class_def)"
    using assms(8) by (auto simp: GetClassData_def split: if_splits)
  have m: "m (class_data_off class_def) = Some kDexTypeClassDataItem"
    using ref data(1) by (auto simp: bad_reference_def CheckOffsetToTypeMap_def split: option.splits)
  have items: "items_ok v m" by (rule accepted_items(1) [OF acc assms(2)])
  with m data(2) obtain q where "CheckIntraClassDataItem v data = accept q"
    by (auto simp: items_ok_def intra_item_def dest!: spec [of _ "class_data_off class_def"])
  moreover obtain q' where "CheckInterClassDataItem v m data = accept q'"
    using accepted_class_data [OF acc assms(2)] m data(2) by (auto simp: cross_checked_def)
  ultimately show ?thesis using class_data_walk items by blast
qed

theorem verified_class_data_witness:
  "\<exists>it ms e. make_ClassDataItemIterator class_bytes 226 = Some it \<and> cdi_walk class_bytes it = Some (ms, e)
     \<and> list_all (member_checked class_verifier) ms"
proof -
  let ?class_def = "the (GetClassDef class_file 0)"
  have "class_defs (verified_file class_verifier) mod 4 = 0" "NumClassDefs (verified_file class_verifier) = Some 1"
    "GetClassDef (verified_file class_verifier) 0 = Some ?class_def" "GetClassData ?class_def = Some 226"
    by (unfold class_file_simp, code_simp+)
  from verified_class_data [OF class_file_ok this(1,2) _ this(3,4)] obtain it where
    it: "make_ClassDataItemIterator class_bytes 226 = Some it"
    and walk: "counts_fit it \<Longrightarrow> \<exists>ms e. cdi_walk class_bytes it = Some (ms, e) \<and> (\<forall>x \<in> set ms. member_checked class_verifier x)"
    by auto
  have "map_option header (make_ClassDataItemIterator class_bytes 226) =
      Some \<lparr>static_fields_size = 0, instance_fields_size = 0, direct_methods_size = 1, virtual_methods_size = 0\<rparr>" by code_simp
  with it have "counts_fit it" by (simp add: counts_fit_def)
  with it walk show ?thesis by (auto simp: list_all_iff)
qed

end
