(* ===== verification/VerifiedCode.thy ===== *)
theory VerifiedCode
  imports VerifiedFile InterpreterSafety
begin

text \<open>
  Code items in a verified file: the check of the file verifier and the static pass of the bytecode verifier
  together give what the interpreter needs of the catch handlers.
\<close>

section \<open>Handler lists\<close>

text \<open>The static pass over a list sees the handlers that the iterator yields.\<close>

lemma scan_handler_list_walk:
  "scan_handler_list c it v = Some (True, v', e) \<Longrightarrow>
     \<exists>hs. chi_walk (begin_of (dex_file v)) it = Some (hs, e) \<and> (\<forall>h \<in> set hs. opcode_at v (unat (snd h)))"
proof (induction c it v rule: scan_handler_list.induct)
  case (1 c it v)
  show ?case
  proof (cases "chi_HasNext it")
    case True
    with "1.prems" obtain u it1 where u: "scan_handler c (handler_address it) v = Some (True, u)"
      and n: "chi_Next (begin_of (dex_file u)) it = Some it1" and rest: "scan_handler_list c it1 u = Some (True, v', e)"
      by (subst (asm) scan_handler_list.simps) (auto split: option.splits if_splits)
    have same: "same_opcodes v u" by (rule handler.same [OF u])
    have op: "opcode_at v (unat (handler_address it))"
      using u by (auto simp: scan_handler_def bind_eq_Some_conv flags_at_def opcode_at_def split: if_splits)
    from "1.IH" [OF True u refl _ n rest] obtain hs where "chi_walk (begin_of (dex_file u)) it1 = Some (hs, e)"
      "\<forall>h \<in> set hs. opcode_at u (unat (snd h))" by auto
    with same op True n show ?thesis
      by (auto simp: same_opcodes_def chi_walk_step)
  next
    case False
    with "1.prems" show ?thesis by (subst (asm) scan_handler_list.simps, subst chi_walk.simps) simp
  qed
qed

text \<open>The file verifier's reading of a list ends where the iterator ends.\<close>

lemma chi_walk_head: "chi_walk buf it = Some (h # hs, e) \<Longrightarrow> chi_HasNext it \<Longrightarrow> chi_Next buf it = Some it1 \<Longrightarrow> chi_walk buf it1 = Some (hs, e)"
  by (subst (asm) chi_walk.simps) (auto simp: map_option_Some_iff)

lemma handler_pairs_walk:
  assumes "handler_pairs v insns_size n p = accept q" "n < 2 ^ 31" "current_data it = Some p" "remaining_count it = word_of_nat n"
    and "if catch_all it then \<exists>a. DecodeUnsignedLeb128 (file_bytes v) q = Some (a, r) else r = q"
  shows "chi_HasNext it \<and> (\<exists>h hs e. chi_walk (file_bytes v) it = Some (h # hs, e) \<and> chi_EndDataPointer e = Some r)"
  using assms
proof (induction n arbitrary: p it)
  case 0
  show ?case
  proof (cases "catch_all it")
    case False
    let ?e = "it\<lparr>remaining_count := -1\<rparr>"
    have "chi_Next (file_bytes v) it = Some ?e" "chi_HasNext it" "\<not> chi_HasNext ?e"
      using 0 False by (simp_all add: chi_Next_def chi_HasNext_def)
    then show ?thesis using 0 False chi_walk.simps [of "file_bytes v" ?e] by (simp add: chi_walk_step chi_EndDataPointer_def)
  next
    case True
    with 0 obtain a where a: "DecodeUnsignedLeb128 (file_bytes v) p = Some (a, r)" by auto
    let ?it = "it\<lparr>handler_type_idx := kDexNoIndex16, handler_address := a, current_data := Some r, catch_all := False\<rparr>"
    let ?e = "?it\<lparr>remaining_count := -1\<rparr>"
    have "chi_Next (file_bytes v) it = Some ?it" "chi_HasNext it"
      "chi_Next (file_bytes v) ?it = Some ?e" "chi_HasNext ?it" "\<not> chi_HasNext ?e"
      using 0 True a by (simp_all add: chi_Next_def chi_HasNext_def)
    then show ?thesis using chi_walk.simps [of "file_bytes v" ?e] by (simp add: chi_walk_step chi_EndDataPointer_def)
  qed
next
  case (Suc n)
  from Suc.prems(1) obtain t p1 a p2 where d: "DecodeUnsignedLeb128 (file_bytes v) p = Some (t, p1)"
    "DecodeUnsignedLeb128 (file_bytes v) p1 = Some (a, p2)" and rest: "handler_pairs v insns_size n p2 = accept q"
    by (auto simp: accepts)
  let ?it = "it\<lparr>handler_type_idx := ucast t, handler_address := a, current_data := Some p2, remaining_count := word_of_nat n\<rparr>"
  have r: "remaining_count it - 1 = word_of_nat n" "sint (remaining_count it) > 0"
    using Suc.prems(2,4) sint_word_of_nat_small [of "Suc n"] by simp_all
  have nxt: "chi_Next (file_bytes v) it = Some ?it" using d r Suc.prems(3) by (simp add: chi_Next_def)
  have has: "chi_HasNext it" using r(2) by (auto simp: chi_HasNext_def)
  have "chi_HasNext ?it \<and> (\<exists>h hs e. chi_walk (file_bytes v) ?it = Some (h # hs, e) \<and> chi_EndDataPointer e = Some r)"
    by (rule Suc.IH [OF rest]) (use Suc.prems in simp_all)
  then show ?case using has chi_walk_step [OF has nxt] by auto
qed

lemma handler_list_end:
  assumes "DecodeSignedLeb128 (file_bytes v) p = Some (n, p1)" "\<not> (sint n < -65536 \<or> sint n > 65536)"
    and "handler_pairs v insns_size (nat \<bar>sint n\<bar>) p1 = accept p2"
    and "if sint n \<le> 0 then \<exists>a. DecodeUnsignedLeb128 (file_bytes v) p2 = Some (a, r) else r = p2"
    and "chi_Init_data (file_bytes v) p it0 = Some it" "chi_walk (file_bytes v) it = Some (hs, e)"
  shows "chi_EndDataPointer e = Some r"
proof -
  define it1 where "it1 = (if sint n \<le> 0 then it0\<lparr>current_data := Some p1, catch_all := True, remaining_count := - n\<rparr>
        else it0\<lparr>current_data := Some p1, catch_all := False, remaining_count := n\<rparr>)"
  have nxt: "chi_Next (file_bytes v) it1 = Some it" using assms(1,5) by (simp add: chi_Init_data_def it1_def)
  have nat: "word_of_nat (nat i) = (word_of_int i :: u32)" if "0 \<le> i" for i using that by (metis of_int_of_nat_eq int_nat_eq)
  have neg: "word_of_int (- sint n) = - n" by simp
  have "\<bar>sint n\<bar> = (if sint n \<le> 0 then - sint n else sint n)" by simp
  then have abs: "remaining_count it1 = word_of_nat (nat \<bar>sint n\<bar>)"
    using nat [of "sint n"] nat [of "- sint n"] neg by (simp add: it1_def)
  have "chi_HasNext it1 \<and> (\<exists>h hs e. chi_walk (file_bytes v) it1 = Some (h # hs, e) \<and> chi_EndDataPointer e = Some r)"
    by (rule handler_pairs_walk [OF assms(3) _ _ abs]) (use assms(2,4) in \<open>auto simp: it1_def\<close>)
  with chi_walk_head [OF _ _ nxt] assms(6) show ?thesis by fastforce
qed


lemma handler_pairs_forward: "handler_pairs v insns_size n p = accept q \<Longrightarrow> p \<le> q"
proof (induction n arbitrary: p)
  case (Suc n)
  then obtain t p1 a p2 where "DecodeUnsignedLeb128 (file_bytes v) p = Some (t, p1)"
    "DecodeUnsignedLeb128 (file_bytes v) p1 = Some (a, p2)" "handler_pairs v insns_size n p2 = accept q"
    by (auto simp: accepts)
  with Suc.IH [of p2] show ?case by (auto dest!: DecodeUnsignedLeb128_consumes(1))
qed (simp add: accepts)

text \<open>An offset that the file verifier collects is the start of a list whose handlers the static pass saw.\<close>

definition checked_list :: "DexFileVerifier \<Rightarrow> MethodVerifier \<Rightarrow> ptr \<Rightarrow> bool" where
  "checked_list v mv p \<longleftrightarrow> p \<le> length (file_bytes v)
     \<and> (\<exists>it hs e. chi_Init_data (file_bytes v) p (empty_handlers 0) = Some it \<and> chi_walk (file_bytes v) it = Some (hs, e)
          \<and> (\<forall>h \<in> set hs. opcode_at mv (unat (snd h))))"

lemma checked_list_same: "same_opcodes mv mv' \<Longrightarrow> checked_list v mv' p = checked_list v mv p"
  by (simp add: checked_list_def same_opcodes_def)

lemma handler_lists_checked:
  assumes "handler_offsets_loop v insns_size base n p = accept (offs, q)" "scan_handler_lists c n p mv = Some (True, mv')"
    and "begin_of (dex_file mv) = file_bytes v" "base \<le> p" "x \<in> set offs"
  shows "\<exists>k. x = word_of_nat k \<and> checked_list v mv (base + k)"
  using assms
proof (induction n arbitrary: p offs mv)
  case (Suc n)
  from Suc.prems(1) obtain size p1 p2 r rest where size: "DecodeSignedLeb128 (file_bytes v) p = Some (size, p1)"
    "\<not> (sint size < -65536 \<or> sint size > 65536)" and pairs: "handler_pairs v insns_size (nat \<bar>sint size\<bar>) p1 = accept p2"
    and r: "if sint size \<le> 0 then \<exists>a. DecodeUnsignedLeb128 (file_bytes v) p2 = Some (a, r) else r = p2"
    and loop: "handler_offsets_loop v insns_size base n r = accept (rest, q)" and offs: "offs = word_of_nat (p - base) # rest"
    by (fastforce simp: accepts Let_def split: if_split_asm)
  from Suc.prems(2,3) obtain it mv1 e p3 where it: "chi_Init_data (file_bytes v) p (empty_handlers 0) = Some it"
    and scan: "scan_handler_list c it mv = Some (True, mv1, e)"
    and e: "chi_EndDataPointer e = Some p3" "scan_handler_lists c n p3 mv1 = Some (True, mv')"
    by (auto simp: bind_eq_Some_conv split: if_splits)
  from scan_handler_list_walk [OF scan] Suc.prems(3) obtain hs where hs: "chi_walk (file_bytes v) it = Some (hs, e)"
    "\<forall>h \<in> set hs. opcode_at mv (unat (snd h))" by auto
  from handler_list_end [OF size pairs r it hs(1)] e(1) have p3: "p3 = r" by simp
  have same: "same_opcodes mv mv1" by (rule scan_handler_list_same [OF scan])
  have fwd: "p < p1" "p1 \<le> length (file_bytes v)" "p1 \<le> p2" "p2 \<le> r"
    using DecodeSignedLeb128_consumes [OF size(1)] handler_pairs_forward [OF pairs] r
    by (auto dest!: DecodeUnsignedLeb128_consumes(1) split: if_splits)
  from Suc.prems(5) offs consider "x = word_of_nat (p - base)" | "x \<in> set rest" by auto
  then show ?case
  proof cases
    case 1
    have "checked_list v mv (base + (p - base))" using it hs fwd Suc.prems(4) by (auto simp: checked_list_def)
    with 1 show ?thesis by blast
  next
    case 2
    from Suc.IH [OF loop _ _ _ 2, of mv1] e(2) p3 same Suc.prems(3,4) fwd
    show ?thesis by (simp add: same_opcodes_def checked_list_same [OF same])
  qed
qed (simp add: accepts)

section \<open>Try blocks\<close>

lemma check_try_items_list:
  assumes "check_try_items v insns_size offs n tp last_addr = accept ()" "unat insns_size < 2 ^ 31"
  shows "\<exists>ts. length ts = n \<and> (\<forall>i < n. read_TryItem (verified_file v) (tp + 8 * i) = Some (ts ! i))
    \<and> list_all (\<lambda>ti. uint last_addr \<le> uint (start_addr ti) \<and> try_end ti < 2 ^ 32 \<and> ucast (handler_off ti) \<in> set offs) ts
    \<and> sorted_wrt (\<lambda>a b. try_end a \<le> uint (start_addr b)) ts"
  using assms(1)
proof (induction n arbitrary: tp last_addr)
  case (Suc n)
  from Suc.prems obtain ti where ti: "read_TryItem (verified_file v) tp = Some ti" "\<not> start_addr ti < last_addr"
    "\<not> start_addr ti \<ge> insns_size" "ucast (handler_off ti) \<in> set offs"
    and rest: "check_try_items v insns_size offs n (tp + 8) (start_addr ti + ucast (insn_count ti)) = accept ()"
    by (auto simp: accepts Let_def)
  let ?stop = "start_addr ti + ucast (insn_count ti) :: u32"
  have "unat (start_addr ti) < 2 ^ 31" using ti(3) assms(2) by (simp add: word_le_nat_alt)
  then have "int (unat (start_addr ti)) < int (2 ^ 31)" by (simp only: of_nat_less_iff)
  then have small: "uint (start_addr ti) < 2 ^ 31" "uint (insn_count ti) < 2 ^ 16"
    using uint_lt2p [of "insn_count ti"] by simp_all
  then have stop: "uint ?stop = try_end ti"
    by (simp add: uint_word_ariths try_end_def unsigned_ucast_eq take_bit_eq_mod mod_simps)
  from Suc.IH [OF rest] obtain ts where ts: "length ts = n" "\<forall>i < n. read_TryItem (verified_file v) (tp + 8 + 8 * i) = Some (ts ! i)"
    "list_all (\<lambda>t. uint ?stop \<le> uint (start_addr t) \<and> try_end t < 2 ^ 32 \<and> ucast (handler_off t) \<in> set offs) ts"
    "sorted_wrt (\<lambda>a b. try_end a \<le> uint (start_addr b)) ts" by blast
  have from_last: "uint last_addr \<le> uint (start_addr ti)" using ti(2) by (simp add: not_less word_le_def)
  have grow: "uint (start_addr ti) \<le> try_end ti" "try_end ti < 2 ^ 32" using small by (simp_all add: try_end_def)
  have "read_TryItem (verified_file v) (tp + 8 * i) = Some ((ti # ts) ! i)" if "i < Suc n" for i
    using that ti(1) ts(2) by (cases i) (auto simp: algebra_simps)
  moreover have "list_all (\<lambda>t. uint last_addr \<le> uint (start_addr t) \<and> try_end t < 2 ^ 32 \<and> ucast (handler_off t) \<in> set offs) (ti # ts)"
    using ts(3) ti(4) from_last grow by (fastforce simp: stop list_all_iff)
  moreover have "sorted_wrt (\<lambda>a b. try_end a \<le> uint (start_addr b)) (ti # ts)" using ts(3,4) by (simp add: stop list_all_iff)
  moreover have "length (ti # ts) = Suc n" using ts(1) by simp
  ultimately show ?case by blast
qed simp


text \<open>What the file verifier checks of a code item with \<open>try\<close> blocks.\<close>

lemma code_item_tries:
  assumes "CheckIntraCodeItem v p = accept q" "code_tries_size (verified_file v) p = Some n" "n \<noteq> 0"
    and "code_insns_size (verified_file v) p = Some insns_size" "unat insns_size < 2 ^ 31"
  shows "\<exists>ts offs base p1 m r. has_tries (verified_file v) p ts \<and> (\<forall>t \<in> set ts. ucast (handler_off t) \<in> set offs)
    \<and> (\<forall>k. GetCatchHandlerData (verified_file v) p k = Some (base + k))
    \<and> DecodeUnsignedLeb128 (file_bytes v) base = Some (m, p1)
    \<and> handler_offsets_loop v insns_size base (unat m) p1 = accept (offs, r)"
proof -
  let ?d = "verified_file v" and ?tp = "RoundUp (p + 16 + 2 * unat insns_size) 4"
  have tp: "GetTryItems ?d p i = Some (?tp + 8 * i)" for i using assms(4) by (simp add: GetTryItems_def)
  have base: "GetCatchHandlerData ?d p k = Some (?tp + 8 * unat n + k)" for k using assms(2) by (simp add: GetCatchHandlerData_def tp)
  from assms(1-4) tp base obtain m p1 offs r where
    m: "DecodeUnsignedLeb128 (file_bytes v) (?tp + 8 * unat n) = Some (m, p1)"
    "handler_offsets_loop v insns_size (?tp + 8 * unat n) (unat m) p1 = accept (offs, r)"
    and tries: "check_try_items v insns_size offs (unat n) ?tp 0 = accept ()"
    by (auto simp: CheckIntraCodeItem_def CheckAndGetHandlerOffsets_def accepts Let_def)
  from check_try_items_list [OF tries assms(5)] obtain ts where ts: "length ts = unat n"
    "\<forall>i < unat n. read_TryItem ?d (?tp + 8 * i) = Some (ts ! i)"
    "list_all (\<lambda>t. try_end t < 2 ^ 32 \<and> ucast (handler_off t) \<in> set offs) ts"
    "sorted_wrt (\<lambda>a b. try_end a \<le> uint (start_addr b)) ts" by (auto simp: list_all_iff)
  have "map (\<lambda>i. GetTryItems ?d p i \<bind> read_TryItem ?d) [0..<length ts] = map Some ts"
    using ts(1,2) by (intro nth_equalityI) (simp_all add: tp)
  then have "has_tries ?d p ts" using ts assms(2) by (simp add: has_tries_def list_all_iff)
  with m base ts(3) show ?thesis by (auto simp: list_all_iff)
qed

text \<open>The handlers found for an address are the empty list or one of those that the offsets of the \<open>try\<close> blocks name.\<close>

lemma handlers_of_address:
  assumes "has_tries d p ts" "\<forall>k. GetCatchHandlerData d p k = Some (base + k)"
    and "\<forall>t \<in> set ts. \<exists>it hs e. chi_Init_data (begin_of d) (base + unat (handler_off t)) (empty_handlers g) = Some it
           \<and> chi_walk (begin_of d) it = Some (hs, e) \<and> (\<forall>h \<in> set hs. Q h)"
  shows "\<exists>it hs e. make_CatchHandlerIterator g d p a = Some it \<and> chi_walk (begin_of d) it = Some (hs, e) \<and> (\<forall>h \<in> set hs. Q h)"
proof -
  have ts: "map_option unat (code_tries_size d p) = Some (length ts)"
    "\<And>i. i < length ts \<Longrightarrow> GetTryItems d p i \<bind> read_TryItem d = Some (ts ! i)"
    using assms(1) table_nth [of "\<lambda>i. GetTryItems d p i \<bind> read_TryItem d" ts] by (auto simp: has_tries_def)
  let ?ok = "\<lambda>offset. \<exists>it hs e. chi_Init d p offset (empty_handlers g) = Some it
      \<and> chi_walk (begin_of d) it = Some (hs, e) \<and> (\<forall>h \<in> set hs. Q h)"
  have none: "?ok (- 1)"
    by (simp add: chi_Init_def chi_walk.simps chi_HasNext_def)
  have one: "?ok (int (unat (handler_off t)))" if "t \<in> set ts" for t
    using assms(2,3) that by (simp add: chi_Init_def)
  obtain r where r: "FindTryItem d p a = Some r" "r = - 1 \<or> 0 \<le> r \<and> nat r < length ts"
  proof -
    from find_try_item_correct [OF assms(1), of a] obtain r where r: "FindTryItem d p a = Some r"
      "\<forall>i. r = int i \<longrightarrow> i < length ts" "r < 0 \<longrightarrow> r = - 1" by blast
    from r(3) r(2) [rule_format, of "nat r"] have "r = - 1 \<or> 0 \<le> r \<and> nat r < length ts" by (cases "r < 0") auto
    with r(1) show thesis by (rule that)
  qed
  from ts(1) obtain n where n: "code_tries_size d p = Some n" "unat n = length ts" by auto
  consider "n = 0" | "n = 1" | "n \<noteq> 0" "n \<noteq> 1" by blast
  then show ?thesis
  proof cases
    case 1
    then show ?thesis using n none by (simp add: make_CatchHandlerIterator_def)
  next
    case 2
    with n(2) have "0 < length ts" by (auto simp del: length_greater_0_conv)
    then have "ts ! 0 \<in> set ts" "GetTryItems d p 0 \<bind> read_TryItem d = Some (ts ! 0)" using ts(2) [of 0] nth_mem by blast+
    then obtain y where y: "GetTryItems d p 0 = Some y" "read_TryItem d y = Some (ts ! 0)" "ts ! 0 \<in> set ts"
      by (auto simp: bind_eq_Some_conv)
    show ?thesis using n none one [OF y(3)] y(1,2) 2 by (simp add: make_CatchHandlerIterator_def Let_def)
  next
    case 3
    have "FindCatchHandlerOffset d p a = Some (- 1) \<or> (\<exists>t \<in> set ts. FindCatchHandlerOffset d p a = Some (int (unat (handler_off t))))"
      using r(2)
    proof
      assume "r = - 1"
      with r(1) show ?thesis by (simp add: FindCatchHandlerOffset_def)
    next
      assume i: "0 \<le> r \<and> nat r < length ts"
      with r(1) ts(2) [of "nat r"] have "FindCatchHandlerOffset d p a = Some (int (unat (handler_off (ts ! nat r))))"
        by (auto simp: FindCatchHandlerOffset_def bind_eq_Some_conv)
      with i show ?thesis by (meson nth_mem)
    qed
    with n 3 none one show ?thesis by (auto simp: make_CatchHandlerIterator_def)
  qed
qed


lemma units_of_length: "length (units_of bs) = length bs div 2"
  by (induction bs rule: units_of.induct) simp_all

text \<open>The lists that the static pass saw are those that the \<open>try\<close> blocks name.\<close>

lemma scanned_handlers:
  assumes "CheckIntraCodeItem v p = accept q" "length (file_bytes v) < 2 ^ 32"
    and "code_item_ptr c = p" "code_tries_size (verified_file v) p = Some (tries_size c)" "tries_size c \<noteq> 0"
    and "code_insns_size (verified_file v) p = Some n" "unat n < 2 ^ 31"
    and "ScanTryCatchBlocks c v1 = Some (True, v2)" "dex_file v1 = verified_file v"
  shows "\<exists>ts base. has_tries (verified_file v) p ts \<and> (\<forall>k. GetCatchHandlerData (verified_file v) p k = Some (base + k))
    \<and> (\<forall>t \<in> set ts. checked_list v v1 (base + unat (handler_off t)))"
proof -
  let ?d = "verified_file v"
  from code_item_tries [OF assms(1,4-7)] obtain ts offs base p1 m r where
    ts: "has_tries ?d p ts" "\<forall>t \<in> set ts. ucast (handler_off t) \<in> set offs"
    and base: "\<forall>k. GetCatchHandlerData ?d p k = Some (base + k)" and m: "DecodeUnsignedLeb128 (file_bytes v) base = Some (m, p1)"
    and loop: "handler_offsets_loop v n base (unat m) p1 = accept (offs, r)" by blast
  from assms(3,5,8,9) obtain u where u: "same_opcodes v1 u" and "GetCatchHandlerData ?d p 0 \<bind> (\<lambda>h. DecodeUnsignedLeb128 (file_bytes v) h
      \<bind> (\<lambda>(n, h). scan_handler_lists c (unat n) h u)) = Some (True, v2)"
    by (auto simp: ScanTryCatchBlocks_def and_also_True same_opcodes_def dest: try_blocks.same)
  with base m have scan: "scan_handler_lists c (unat m) p1 u = Some (True, v2)" by simp
  have buf: "begin_of (dex_file u) = file_bytes v" using u assms(9) by (simp add: same_opcodes_def)
  have "checked_list v v1 (base + unat (handler_off t))" if "t \<in> set ts" for t
  proof -
    from ts(2) that have "ucast (handler_off t) \<in> set offs" by blast
    from handler_lists_checked [OF loop scan buf _ this] DecodeUnsignedLeb128_consumes(1) [OF m]
    obtain k where k: "ucast (handler_off t) = (word_of_nat k :: u32)" "checked_list v u (base + k)" by auto
    from k(2) assms(2) have "k < 2 ^ 32" by (simp add: checked_list_def)
    then have "unat (ucast (handler_off t) :: u32) = k" by (simp add: k(1) unsigned_of_nat take_bit_nat_eq_self)
    then have "unat (handler_off t) = k" by (simp add: unsigned_ucast_eq take_bit_nat_eq_self)
    with k(2) show ?thesis by (simp add: checked_list_same [OF u])
  qed
  with ts(1) base show ?thesis by blast
qed

text \<open>
  Claim C7. From the file to the interpreter: the code of a code item that \<open>CheckIntraCodeItem\<close> accepts and that
  passes the static checks of the bytecode verifier lies inside the file, and for every instruction of it the catch
  handlers can be found and read, each of them at an instruction of the code.
\<close>

theorem verified_catch_handlers:
  assumes "CheckIntraCodeItem v p = accept q" "small_file v" "read_CodeItem (verified_file v) p = Some c"
    and "Verify mv = Some (True, mv')" "code_item mv = Some c" "dex_file mv = verified_file v"
  shows "unat (insns_size_in_code_units c) \<le> length (code_units c) \<and> catches_ok c (verified_file v)"
proof -
  let ?d = "verified_file v" and ?size = "insns_size_in_code_units c"
  from assms(3) have c: "code_item_ptr c = p" "code_tries_size ?d p = Some (tries_size c)" "code_insns_size ?d p = Some ?size"
    "code_units c = units_of (drop (p + 16) (file_bytes v))"
    by (auto simp: read_CodeItem_def bind_eq_Some_conv)
  from assms(1) c(3) have "CheckListSize v (p + 16) (unat ?size) 2" by (auto simp: CheckIntraCodeItem_def accepts Let_def)
  then have bound: "p + 16 + unat ?size * 2 \<le> length (file_bytes v)" by (auto simp: Size_def dest!: CheckListSize_bound)
  then have inside: "unat ?size \<le> length (code_units c)" by (simp add: c(4) units_of_length)
  have len: "length (file_bytes v) < 2 ^ 32" using assms(2) by (simp add: small_file_def Size_def)
  with bound have size: "unat ?size < 2 ^ 31" by simp
  have "catches_ok c ?d"
  proof (rule Verify_stages [OF assms(4,5) size])
    fix v1 v2 b
    assume v1: "\<forall>pc. opcode_at v1 pc \<longleftrightarrow> insn_start c pc" "dex_file v1 = dex_file mv" "ScanTryCatchBlocks c v1 = Some (True, v2)"
    have "\<exists>it hs e. make_CatchHandlerIterator 0 ?d p a = Some it \<and> chi_walk (begin_of ?d) it = Some (hs, e)
        \<and> (\<forall>h \<in> set hs. insn_start c (unat (snd h)))" for a
    proof (cases "tries_size c = 0")
      case True
      with c(2) show ?thesis by (simp add: make_CatchHandlerIterator_def chi_Init_def chi_walk.simps chi_HasNext_def)
    next
      case False
      from scanned_handlers [OF assms(1) len c(1,2) False c(3) size v1(3)] v1(2) assms(6) obtain ts base where
        "has_tries ?d p ts" "\<forall>k. GetCatchHandlerData ?d p k = Some (base + k)"
        "\<forall>t \<in> set ts. checked_list v v1 (base + unat (handler_off t))" by auto
      with handlers_of_address [of ?d p ts base 0 "\<lambda>h. insn_start c (unat (snd h))"] v1(1) show ?thesis
        by (simp add: checked_list_def)
    qed
    then show ?thesis by (simp add: catches_ok_def c(1))
  qed
  with inside show ?thesis by blast
qed

definition class_method :: CodeItem where
  "class_method = the (read_CodeItem class_file 184)"

theorem verified_catch_handlers_witness:
  "unat (insns_size_in_code_units class_method) \<le> length (code_units class_method) \<and> catches_ok class_method class_file"
proof -
  let ?mv = "(sample_verifier class_method)\<lparr>dex_file := class_file\<rparr>"
  have "map_option fst (Verify ?mv) = Some True" by code_simp
  then obtain mv' where verified: "Verify ?mv = Some (True, mv')" by auto
  have item: "CheckIntraCodeItem class_verifier 184 = accept 215" by code_simp
  have code: "read_CodeItem (verified_file class_verifier) 184 = Some class_method" by (unfold class_file_simp) code_simp
  have "code_item ?mv = Some class_method" "dex_file ?mv = verified_file class_verifier" by (simp_all add: sample_verifier_def)
  from verified_catch_handlers [OF item class_file_small code verified this] show ?thesis by simp
qed

end
