(* ===== verification/DebugInfo.thy ===== *)
theory DebugInfo
  imports SampleFile
begin

text \<open>
  Debug info of a method: \<open>DecodeDebugInfo\<close> and \<open>GetLineNumFromPC\<close> of \<open>art/runtime/dex_file.cc\<close>. A callback is a function
  on a context that is passed along; \<open>None\<close> is a null callback. The table of local variables is indexed
  by register; an access outside it is \<open>None\<close>. Messages to the log are left out.
\<close>

section \<open>The decoder\<close>

record LocalInfo =
  local_name :: "cstr option"
  local_descriptor :: "cstr option"
  local_signature :: "cstr option"
  start_address :: u16
  is_live :: bool

definition empty_LocalInfo :: LocalInfo where
  "empty_LocalInfo = \<lparr>local_name = None, local_descriptor = None, local_signature = None, start_address = 0, is_live = False\<rparr>"

type_synonym 'c position_cb = "u32 \<Rightarrow> u32 \<Rightarrow> 'c \<Rightarrow> bool \<times> 'c"
type_synonym 'c local_cb = "u16 \<Rightarrow> u32 \<Rightarrow> u32 \<Rightarrow> cstr option \<Rightarrow> cstr option \<Rightarrow> cstr \<Rightarrow> 'c \<Rightarrow> 'c"

text \<open>The variables of \<open>DecodeDebugInfo0\<close> that its loop changes.\<close>

record 'c decoder =
  stream :: ptr
  address :: u32
  line :: u32
  local_in_reg :: "LocalInfo list"
  context_of :: 'c

text \<open>Element \<open>reg\<close> of the table, and its update.\<close>

definition local_at :: "'c decoder \<Rightarrow> u16 \<Rightarrow> LocalInfo option" where
  "local_at s reg = (if unat reg < length (local_in_reg s) then Some (local_in_reg s ! unat reg) else None)"

definition set_local :: "'c decoder \<Rightarrow> u16 \<Rightarrow> LocalInfo \<Rightarrow> 'c decoder" where
  "set_local s reg info = s\<lparr>local_in_reg := (local_in_reg s)[unat reg := info]\<rparr>"

definition InvokeLocalCbIfLive :: "'c local_cb option \<Rightarrow> u16 \<Rightarrow> u32 \<Rightarrow> 'c decoder \<Rightarrow> 'c decoder option" where
  "InvokeLocalCbIfLive local_cb reg end_address s =
     (case local_cb of
        None \<Rightarrow> Some s
      | Some cb \<Rightarrow> do {
          info \<leftarrow> local_at s reg;
          Some (if is_live info
                then s\<lparr>context_of := cb reg (ucast (start_address info)) end_address (local_name info) (local_descriptor info)
                        (case local_signature info of Some sig \<Rightarrow> sig | None \<Rightarrow> [0]) (context_of s)\<rparr>
                else s)
        })"

definition GetMethodPrototype :: "DexFile \<Rightarrow> MethodId \<Rightarrow> ProtoId option" where
  "GetMethodPrototype d method_id = GetProtoId d (unat (m_proto_idx method_id))"

definition GetMethodDeclaringClassDescriptor :: "DexFile \<Rightarrow> MethodId \<Rightarrow> cstr option option" where
  "GetMethodDeclaringClassDescriptor d method_id = do {
     type_id \<leftarrow> GetTypeId d (unat (m_class_idx method_id));
     StringDataByIdx d (descriptor_idx type_id)
   }"

definition pi_GetDescriptor :: "DexFile \<Rightarrow> DexFileParameterIterator \<Rightarrow> cstr option option" where
  "pi_GetDescriptor d it = do { t \<leftarrow> pi_GetTypeIdx d it; StringByTypeIdx d (ucast t) }"

text \<open>The literal \<open>"this"\<close>.\<close>

definition this_name :: cstr where
  "this_name = [0x74, 0x68, 0x69, 0x73, 0]"

text \<open>The loop over the parameters: \<open>Inl\<close> when the function returns from inside it, else the iterator after the loop
  with the state. \<open>D\<close> is \<open>0x44\<close>, \<open>J\<close> is \<open>0x4a\<close>.\<close>

fun debug_arguments ::
  "DexFile \<Rightarrow> u16 \<Rightarrow> bool \<Rightarrow> nat \<Rightarrow> u16 \<Rightarrow> DexFileParameterIterator \<Rightarrow> 'c decoder
    \<Rightarrow> ('c decoder + DexFileParameterIterator \<times> 'c decoder) option" where
  "debug_arguments d registers_size need_locals 0 arg_reg it s = Some (Inr (it, s))"
| "debug_arguments d registers_size need_locals (Suc n) arg_reg it s =
     (if \<not> pi_HasNext it then Some (Inr (it, s))
      else if arg_reg \<ge> registers_size then Some (Inl s)
      else do {
        (id, p) \<leftarrow> DecodeUnsignedLeb128P1 (begin_of d) (stream s);
        let s = s\<lparr>stream := p\<rparr>;
        descriptor \<leftarrow> pi_GetDescriptor d it;
        s \<leftarrow> (if need_locals \<and> id \<noteq> kDexNoIndex
             then do {
               name \<leftarrow> StringDataByIdx d id;
               info \<leftarrow> local_at s arg_reg;
               Some (set_local s arg_reg (info\<lparr>local_name := name, local_descriptor := descriptor, local_signature := None,
                       start_address := ucast (address s), is_live := True\<rparr>)) }
             else Some s);
        str \<leftarrow> descriptor;
        (c, _) \<leftarrow> next_byte str;
        debug_arguments d registers_size need_locals n
          (if c = 0x44 \<or> c = 0x4a then arg_reg + 2 else arg_reg + 1) (pi_Next it) s
      })"

text \<open>The start of a local variable: the operands, and with a callback the old variable and the new one.\<close>

definition start_local :: "DexFile \<Rightarrow> u16 \<Rightarrow> 'c local_cb option \<Rightarrow> bool \<Rightarrow> 'c decoder \<Rightarrow> (bool \<times> 'c decoder) option" where
  "start_local d registers_size local_cb extended s = do {
     (r, p) \<leftarrow> DecodeUnsignedLeb128 (begin_of d) (stream s);
     let reg = ucast r;
     (if reg > registers_size then Some (True, s\<lparr>stream := p\<rparr>)
      else do {
        (name_idx, p) \<leftarrow> DecodeUnsignedLeb128P1 (begin_of d) p;
        (type_idx, p) \<leftarrow> DecodeUnsignedLeb128P1 (begin_of d) p;
        (signature_idx, p) \<leftarrow> (if extended then DecodeUnsignedLeb128P1 (begin_of d) p else Some (0, p));
        let s = s\<lparr>stream := p\<rparr>;
        (if local_cb = None then Some (False, s)
         else do {
           s \<leftarrow> InvokeLocalCbIfLive local_cb reg (address s) s;
           info \<leftarrow> local_at s reg;
           name \<leftarrow> StringDataByIdx d name_idx;
           descriptor \<leftarrow> StringByTypeIdx d type_idx;
           signature \<leftarrow> (if extended then StringDataByIdx d signature_idx else Some (local_signature info));
           Some (False, set_local s reg (info\<lparr>local_name := name, local_descriptor := descriptor, local_signature := signature,
                   start_address := ucast (address s), is_live := True\<rparr>))
         })
      })
   }"

definition end_local :: "DexFile \<Rightarrow> u16 \<Rightarrow> 'c local_cb option \<Rightarrow> 'c decoder \<Rightarrow> (bool \<times> 'c decoder) option" where
  "end_local d registers_size local_cb s = do {
     (r, p) \<leftarrow> DecodeUnsignedLeb128 (begin_of d) (stream s);
     let reg = ucast r;
     let s = s\<lparr>stream := p\<rparr>;
     (if reg > registers_size then Some (True, s)
      else if local_cb = None then Some (False, s)
      else do {
        s \<leftarrow> InvokeLocalCbIfLive local_cb reg (address s) s;
        info \<leftarrow> local_at s reg;
        Some (False, set_local s reg (info\<lparr>is_live := False\<rparr>))
      })
   }"

definition restart_local :: "DexFile \<Rightarrow> u16 \<Rightarrow> 'c local_cb option \<Rightarrow> 'c decoder \<Rightarrow> (bool \<times> 'c decoder) option" where
  "restart_local d registers_size local_cb s = do {
     (r, p) \<leftarrow> DecodeUnsignedLeb128 (begin_of d) (stream s);
     let reg = ucast r;
     let s = s\<lparr>stream := p\<rparr>;
     (if reg > registers_size then Some (True, s)
      else if local_cb = None then Some (False, s)
      else do {
        info \<leftarrow> local_at s reg;
        Some (if local_name info = None \<or> local_descriptor info = None then (True, s)
              else if is_live info then (False, s)
              else (False, set_local s reg (info\<lparr>start_address := ucast (address s), is_live := True\<rparr>)))
      })
   }"

text \<open>The special opcodes: \<open>DBG_FIRST_SPECIAL\<close> is 10, \<open>DBG_LINE_BASE\<close> is -4, \<open>DBG_LINE_RANGE\<close> is 15.\<close>

definition new_position :: "'c position_cb option \<Rightarrow> u8 \<Rightarrow> 'c decoder \<Rightarrow> bool \<times> 'c decoder" where
  "new_position position_cb opcode s =
     (let adjopcode = unat opcode - 10;
          s = s\<lparr>address := address s + word_of_nat (adjopcode div 15),
                line := line s + (word_of_nat (adjopcode mod 15) - 4)\<rparr>
      in case position_cb of
           None \<Rightarrow> (False, s)
         | Some cb \<Rightarrow> (let (stop, c) = cb (address s) (line s) (context_of s) in (stop, s\<lparr>context_of := c\<rparr>)))"

text \<open>One turn of the loop; the flag is \<open>True\<close> when the function returns.\<close>

definition debug_step ::
  "DexFile \<Rightarrow> u16 \<Rightarrow> 'c position_cb option \<Rightarrow> 'c local_cb option \<Rightarrow> 'c decoder \<Rightarrow> (bool \<times> 'c decoder) option" where
  "debug_step d registers_size position_cb local_cb s = do {
     opcode \<leftarrow> load8 (begin_of d) (stream s);
     let s = s\<lparr>stream := stream s + 1\<rparr>;
     (if opcode = 0x00 then Some (True, s)
      else if opcode = 0x01
      then do { (x, p) \<leftarrow> DecodeUnsignedLeb128 (begin_of d) (stream s);
                Some (False, s\<lparr>address := address s + x, stream := p\<rparr>) }
      else if opcode = 0x02
      then do { (x, p) \<leftarrow> DecodeSignedLeb128 (begin_of d) (stream s);
                Some (False, s\<lparr>line := line s + x, stream := p\<rparr>) }
      else if opcode = 0x03 \<or> opcode = 0x04 then start_local d registers_size local_cb (opcode = 0x04) s
      else if opcode = 0x05 then end_local d registers_size local_cb s
      else if opcode = 0x06 then restart_local d registers_size local_cb s
      else if opcode = 0x07 \<or> opcode = 0x08 \<or> opcode = 0x09 then Some (False, s)
      else Some (new_position position_cb opcode s))
   }"

lemma DecodeUnsignedLeb128P1_consumes: "DecodeUnsignedLeb128P1 buf p = Some (x, q) \<Longrightarrow> p < q"
  by (auto simp: DecodeUnsignedLeb128P1_def dest: DecodeUnsignedLeb128_consumes)

lemma InvokeLocalCbIfLive_stream: "InvokeLocalCbIfLive local_cb reg e s = Some t \<Longrightarrow> stream t = stream s"
  by (auto simp: InvokeLocalCbIfLive_def bind_eq_Some_conv split: option.splits if_splits)

lemma set_local_stream [simp]: "stream (set_local s reg info) = stream s"
  by (simp add: set_local_def)

lemma start_local_moves: "start_local d n lcb e s = Some (b, t) \<Longrightarrow> stream s < stream t"
  by (auto simp: start_local_def Let_def bind_eq_Some_conv split: if_splits
      dest!: DecodeUnsignedLeb128_consumes(1) DecodeUnsignedLeb128P1_consumes InvokeLocalCbIfLive_stream)

lemma end_local_moves: "end_local d n lcb s = Some (b, t) \<Longrightarrow> stream s < stream t"
  by (auto simp: end_local_def Let_def bind_eq_Some_conv split: if_splits
      dest!: DecodeUnsignedLeb128_consumes(1) InvokeLocalCbIfLive_stream)

lemma restart_local_moves: "restart_local d n lcb s = Some (b, t) \<Longrightarrow> stream s < stream t"
  by (auto simp: restart_local_def Let_def bind_eq_Some_conv split: if_splits dest!: DecodeUnsignedLeb128_consumes(1))

lemma new_position_stream: "new_position pcb opcode s = (b, t) \<Longrightarrow> stream t = stream s"
  by (auto simp: new_position_def Let_def split: option.splits prod.splits)

lemma debug_step_moves:
  assumes "debug_step d n pcb lcb s = Some (b, t)"
  shows "stream s < stream t \<and> stream s < length (begin_of d)"
proof -
  from assms obtain opcode where op: "load8 (begin_of d) (stream s) = Some opcode" by (auto simp: debug_step_def bind_eq_Some_conv)
  then have "stream s < length (begin_of d)" by (simp add: load8_def split: if_splits)
  moreover have "stream s < stream t"
    using assms by (auto simp: debug_step_def op Let_def bind_eq_Some_conv split: if_split_asm
        dest!: start_local_moves end_local_moves restart_local_moves new_position_stream
          DecodeUnsignedLeb128_consumes(1) signed_leb.dec_progress)
  ultimately show ?thesis by blast
qed

function debug_loop ::
  "DexFile \<Rightarrow> u16 \<Rightarrow> 'c position_cb option \<Rightarrow> 'c local_cb option \<Rightarrow> 'c decoder \<Rightarrow> 'c decoder option" where
  "debug_loop d registers_size position_cb local_cb s =
     (case debug_step d registers_size position_cb local_cb s of
        None \<Rightarrow> None
      | Some (stop, t) \<Rightarrow> if stop then Some t else debug_loop d registers_size position_cb local_cb t)"
  by pat_completeness auto
termination
  by (relation "measure (\<lambda>(d, _, _, _, s). length (begin_of d) - stream s)") (auto dest!: debug_step_moves)

declare debug_loop.simps [simp del]


definition DecodeDebugInfo0 ::
  "DexFile \<Rightarrow> ptr \<Rightarrow> bool \<Rightarrow> u32 \<Rightarrow> 'c position_cb option \<Rightarrow> 'c local_cb option \<Rightarrow> 'c \<Rightarrow> ptr \<Rightarrow> LocalInfo list \<Rightarrow> 'c decoder option" where
  "DecodeDebugInfo0 d code_item is_static method_idx position_cb local_cb context0 p locals = do {
     (line0, p) \<leftarrow> DecodeUnsignedLeb128 (begin_of d) p;
     (parameters_size, p) \<leftarrow> DecodeUnsignedLeb128 (begin_of d) p;
     registers_size \<leftarrow> code_registers_size d code_item;
     ins_size \<leftarrow> code_ins_size d code_item;
     let arg_reg = registers_size - ins_size;
     let need_locals = (local_cb \<noteq> None);
     let s = \<lparr>stream = p, address = 0, line = line0, local_in_reg = locals, context_of = context0\<rparr>;
     s \<leftarrow> (if \<not> is_static \<and> need_locals
          then do {
            method_id \<leftarrow> GetMethodId d (unat method_idx);
            descriptor \<leftarrow> GetMethodDeclaringClassDescriptor d method_id;
            info \<leftarrow> local_at s arg_reg;
            Some (set_local s arg_reg (info\<lparr>local_name := Some this_name, local_descriptor := descriptor, local_signature := None,
                    start_address := 0, is_live := True\<rparr>)) }
          else Some s);
     let arg_reg = (if is_static then arg_reg else arg_reg + 1);
     method_id \<leftarrow> GetMethodId d (unat method_idx);
     proto_id \<leftarrow> GetMethodPrototype d method_id;
     it \<leftarrow> make_DexFileParameterIterator d proto_id;
     r \<leftarrow> debug_arguments d registers_size need_locals (unat parameters_size) arg_reg it s;
     (case r of
        Inl s \<Rightarrow> Some s
      | Inr (it, s) \<Rightarrow> if pi_HasNext it then Some s else debug_loop d registers_size position_cb local_cb s)
   }"

text \<open>The loop of \<open>DecodeDebugInfo\<close> over the registers whose variables are still live.\<close>

fun flush_locals :: "'c local_cb option \<Rightarrow> u32 \<Rightarrow> nat \<Rightarrow> u16 \<Rightarrow> 'c decoder \<Rightarrow> 'c decoder option" where
  "flush_locals local_cb end_address 0 reg s = Some s"
| "flush_locals local_cb end_address (Suc n) reg s = do {
     s \<leftarrow> InvokeLocalCbIfLive local_cb reg end_address s;
     flush_locals local_cb end_address n (reg + 1) s
   }"

definition DecodeDebugInfo ::
  "DexFile \<Rightarrow> ptr \<Rightarrow> bool \<Rightarrow> u32 \<Rightarrow> 'c position_cb option \<Rightarrow> 'c local_cb option \<Rightarrow> 'c \<Rightarrow> 'c option" where
  "DecodeDebugInfo d code_item is_static method_idx position_cb local_cb context0 = do {
     stream_opt \<leftarrow> GetDebugInfoStream d code_item;
     registers_size \<leftarrow> code_registers_size d code_item;
     insns_size \<leftarrow> code_insns_size d code_item;
     let locals = (if local_cb = None then [] else replicate (unat registers_size) empty_LocalInfo);
     s \<leftarrow> (case stream_opt of
            None \<Rightarrow> Some \<lparr>stream = 0, address = 0, line = 0, local_in_reg = locals, context_of = context0\<rparr>
          | Some p \<Rightarrow> DecodeDebugInfo0 d code_item is_static method_idx position_cb local_cb context0 p locals);
     s \<leftarrow> flush_locals local_cb insns_size (unat registers_size) 0 s;
     Some (context_of s)
   }"

record LineNumFromPcContext =
  pc_address :: u32
  line_num :: u32

definition LineNumForPcCb :: "LineNumFromPcContext position_cb" where
  "LineNumForPcCb addr ln c =
     (if addr > pc_address c then (True, c)
      else (addr = pc_address c, c\<lparr>line_num := ln\<rparr>))"

text \<open>The method is given by its code item offset, whether it is static, and its index.\<close>

definition GetLineNumFromPC :: "DexFile \<Rightarrow> u32 \<Rightarrow> bool \<Rightarrow> u32 \<Rightarrow> u32 \<Rightarrow> u32 option" where
  "GetLineNumFromPC d code_item_offset is_static method_idx rel_pc =
     (case GetCodeItem code_item_offset of
        None \<Rightarrow> Some (- 2)
      | Some code_item \<Rightarrow>
          map_option line_num
            (DecodeDebugInfo d code_item is_static method_idx (Some LineNumForPcCb) None \<lparr>pc_address = rel_pc, line_num = - 1\<rparr>))"

section \<open>Line numbers\<close>

text \<open>
  Debug info as the DEX format describes it: the opcodes with their operands, their bytes, and the table of
  positions they stand for. \<open>Special a l\<close> advances the address by \<open>a\<close> and the line by \<open>l - 4\<close> and adds a position.
\<close>

datatype debug_insn =
    AdvancePc u32
  | AdvanceLine u32
  | StartLocal u16 u32 u32
  | StartLocalExtended u16 u32 u32 u32
  | EndLocal u16
  | RestartLocal u16
  | SetPrologueEnd
  | SetEpilogueBegin
  | Special nat nat

fun insn_bytes :: "debug_insn \<Rightarrow> u8 list" where
  "insn_bytes (AdvancePc x) = 0x01 # uleb x"
| "insn_bytes (AdvanceLine x) = 0x02 # sleb x"
| "insn_bytes (StartLocal r n t) = 0x03 # uleb (ucast r) @ uleb (n + 1) @ uleb (t + 1)"
| "insn_bytes (StartLocalExtended r n t g) = 0x04 # uleb (ucast r) @ uleb (n + 1) @ uleb (t + 1) @ uleb (g + 1)"
| "insn_bytes (EndLocal r) = 0x05 # uleb (ucast r)"
| "insn_bytes (RestartLocal r) = 0x06 # uleb (ucast r)"
| "insn_bytes SetPrologueEnd = [0x07]"
| "insn_bytes SetEpilogueBegin = [0x08]"
| "insn_bytes (Special a l) = [word_of_nat (10 + (15 * a + l))]"

fun insn_ok :: "u16 \<Rightarrow> debug_insn \<Rightarrow> bool" where
  "insn_ok n (StartLocal r _ _) = (r < n)"
| "insn_ok n (StartLocalExtended r _ _ _) = (r < n)"
| "insn_ok n (EndLocal r) = (r < n)"
| "insn_ok n (RestartLocal r) = (r < n)"
| "insn_ok n (Special a l) = (l < 15 \<and> 15 * a + l \<le> 245)"
| "insn_ok n _ = True"

fun debug_positions :: "u32 \<Rightarrow> u32 \<Rightarrow> debug_insn list \<Rightarrow> (u32 \<times> u32) list" where
  "debug_positions addr ln [] = []"
| "debug_positions addr ln (AdvancePc x # is) = debug_positions (addr + x) ln is"
| "debug_positions addr ln (AdvanceLine x # is) = debug_positions addr (ln + x) is"
| "debug_positions addr ln (Special a l # is) =
     (let addr = addr + word_of_nat a; ln = ln + word_of_nat l - 4 in (addr, ln) # debug_positions addr ln is)"
| "debug_positions addr ln (_ # is) = debug_positions addr ln is"

text \<open>A debug info item: first line, the names of the parameters, the opcodes, \<open>DBG_END_SEQUENCE\<close>.\<close>

definition name_bytes :: "u32 \<Rightarrow> u8 list" where
  "name_bytes i = uleb (i + 1)"

definition debug_bytes :: "u32 \<Rightarrow> u32 list \<Rightarrow> debug_insn list \<Rightarrow> u8 list" where
  "debug_bytes ln names is =
     uleb ln @ uleb (word_of_nat (length names)) @ concat (map name_bytes names) @ concat (map insn_bytes is) @ [0x00]"

text \<open>The parameters of a method: the descriptors can be read, and their registers fit into the incoming ones.\<close>

definition parameter_width :: "DexFile \<Rightarrow> DexFileParameterIterator \<Rightarrow> nat \<Rightarrow> nat" where
  "parameter_width d it i =
     (case pi_GetDescriptor d (it\<lparr>pi_pos := i\<rparr>) of Some (Some (c # s)) \<Rightarrow> if c = 0x44 \<or> c = 0x4a then 2 else 1 | _ \<Rightarrow> 0)"

definition parameters_readable :: "DexFile \<Rightarrow> DexFileParameterIterator \<Rightarrow> bool" where
  "parameters_readable d it \<longleftrightarrow> (\<forall>i < unat (pi_size it). \<exists>c s. pi_GetDescriptor d (it\<lparr>pi_pos := i\<rparr>) = Some (Some (c # s)))"

definition prototype_of :: "DexFile \<Rightarrow> u32 \<Rightarrow> DexFileParameterIterator option" where
  "prototype_of d method_idx =
     do { method_id \<leftarrow> GetMethodId d (unat method_idx); proto_id \<leftarrow> GetMethodPrototype d method_id;
          make_DexFileParameterIterator d proto_id }"

definition readable_prototype :: "DexFile \<Rightarrow> u32 \<Rightarrow> DexFileParameterIterator \<Rightarrow> bool" where
  "readable_prototype d method_idx it \<longleftrightarrow> prototype_of d method_idx = Some it \<and> parameters_readable d it"

definition arguments_width :: "DexFile \<Rightarrow> bool \<Rightarrow> DexFileParameterIterator \<Rightarrow> nat" where
  "arguments_width d is_static it =
     (if is_static then 0 else 1) + sum_list (map (parameter_width d it) [0..<unat (pi_size it)])"

text \<open>The fields of a code item: registers, incoming registers, and where its debug info is.\<close>

definition code_header :: "DexFile \<Rightarrow> ptr \<Rightarrow> (u16 \<times> u16 \<times> ptr option) option" where
  "code_header d code_item = do {
     n \<leftarrow> code_registers_size d code_item; i \<leftarrow> code_ins_size d code_item; _ \<leftarrow> code_insns_size d code_item;
     p \<leftarrow> GetDebugInfoStream d code_item;
     Some (n, i, p)
   }"

text \<open>A callback on a list of positions: it stops when the callback says so.\<close>

fun run_positions :: "'c position_cb \<Rightarrow> (u32 \<times> u32) list \<Rightarrow> 'c \<Rightarrow> 'c" where
  "run_positions cb [] c = c"
| "run_positions cb ((a, l) # ps) c = (let (stop, c') = cb a l c in if stop then c' else run_positions cb ps c')"

lemma p1_dec_enc: "bytes_at buf p (uleb (i + 1)) \<Longrightarrow> DecodeUnsignedLeb128P1 buf p = Some (i, p + length (uleb (i + 1)))"
  by (simp add: DecodeUnsignedLeb128P1_def unsigned_leb.dec_enc)

lemma special_opcode:
  assumes "l < 15" and "15 * a + l \<le> 245"
  shows "unat (word_of_nat (10 + (15 * a + l)) :: u8) = 10 + (15 * a + l)"
  using assms by (simp add: unsigned_of_nat take_bit_nat_eq_self del: of_nat_add of_nat_mult of_nat_numeral)

lemma special_position:
  assumes "l < 15" and "15 * a + l \<le> 245"
  shows "new_position (Some cb) (word_of_nat (10 + (15 * a + l))) s =
    (let t = s\<lparr>address := address s + word_of_nat a, line := line s + word_of_nat l - 4\<rparr>
     in (fst (cb (address t) (line t) (context_of s)), t\<lparr>context_of := snd (cb (address t) (line t) (context_of s))\<rparr>))"
proof -
  have "(15 * a + l) div 15 = a" "(15 * a + l) mod 15 = l" using assms(1) by simp_all
  then show ?thesis
    unfolding new_position_def special_opcode [OF assms] Let_def
    by (simp add: case_prod_beta add_diff_eq del: of_nat_add of_nat_mult of_nat_numeral)
qed

text \<open>One opcode, without a callback for local variables: the decoder stops when a position tells it to.\<close>

lemma quiet_step:
  assumes "bytes_at (begin_of d) (stream s) (insn_bytes i)" and "insn_ok n i" and "debug_positions (address s) (line s) [i] = []"
  shows "\<exists>t. debug_step d n pcb None s = Some (False, t) \<and> stream t = stream s + length (insn_bytes i) \<and> context_of t = context_of s
    \<and> (\<forall>is. debug_positions (address s) (line s) (i # is) = debug_positions (address t) (line t) is)"
  using assms
  by (cases i)
    (auto simp: debug_step_def start_local_def end_local_def restart_local_def unsigned_leb.dec_enc signed_leb.dec_enc p1_dec_enc Let_def)

lemma special_step:
  assumes "bytes_at (begin_of d) (stream s) (insn_bytes (Special a l))" and "insn_ok n (Special a l)"
    and "debug_positions (address s) (line s) [Special a l] = [(addr, ln)]"
  shows "debug_step d n (Some cb) None s = Some (fst (cb addr ln (context_of s)),
    s\<lparr>stream := stream s + 1, address := addr, line := ln, context_of := snd (cb addr ln (context_of s))\<rparr>)"
proof -
  let ?o = "word_of_nat (10 + (15 * a + l)) :: u8"
  have ok: "l < 15" "15 * a + l \<le> 245" using assms(2) by simp_all
  have "?o \<notin> {0, 1, 2, 3, 4, 5, 6, 7, 8, 9}"
    using special_opcode [OF ok] by (auto simp del: of_nat_add of_nat_mult of_nat_numeral)
  with assms(1,3) special_position [OF ok, of cb "s\<lparr>stream := stream s + 1\<rparr>"] show ?thesis
    by (simp add: debug_step_def Let_def del: of_nat_add of_nat_mult of_nat_numeral)
qed

lemma loop_positions:
  assumes "bytes_at (begin_of d) (stream s) (concat (map insn_bytes is) @ [0x00])" and "list_all (insn_ok n) is"
  shows "\<exists>t. debug_loop d n (Some cb) None s = Some t
    \<and> context_of t = run_positions cb (debug_positions (address s) (line s) is) (context_of s)"
  using assms
proof (induction "is" arbitrary: s)
  case Nil
  then show ?case by (subst debug_loop.simps) (simp add: debug_step_def)
next
  case (Cons i "is")
  then have i: "bytes_at (begin_of d) (stream s) (insn_bytes i)" "insn_ok n i"
    and rest: "bytes_at (begin_of d) (stream s + length (insn_bytes i)) (concat (map insn_bytes is) @ [0x00])" "list_all (insn_ok n) is"
    by simp_all
  show ?case
  proof (cases "debug_positions (address s) (line s) [i]")
    case Nil
    from quiet_step [OF i Nil, of "Some cb"] obtain t where t: "debug_step d n (Some cb) None s = Some (False, t)"
      "stream t = stream s + length (insn_bytes i)" "context_of t = context_of s"
      "debug_positions (address s) (line s) (i # is) = debug_positions (address t) (line t) is" by blast
    with Cons.IH [of t] rest show ?thesis by (subst debug_loop.simps) simp
  next
    case (Cons pos ps)
    then obtain a l addr ln where sp: "i = Special a l" "debug_positions (address s) (line s) [i] = [(addr, ln)]"
      "debug_positions (address s) (line s) (i # is) = (addr, ln) # debug_positions addr ln is"
      by (cases i) (auto simp: Let_def)
    let ?t = "s\<lparr>stream := stream s + 1, address := addr, line := ln, context_of := snd (cb addr ln (context_of s))\<rparr>"
    have step: "debug_step d n (Some cb) None s = Some (fst (cb addr ln (context_of s)), ?t)"
      using special_step [OF i [unfolded sp(1)] sp(2) [unfolded sp(1)], of cb] .
    have len: "length (insn_bytes i) = 1" by (simp add: sp(1))
    obtain t where "debug_loop d n (Some cb) None ?t = Some t"
      "context_of t = run_positions cb (debug_positions addr ln is) (context_of ?t)"
      using Cons.IH [of ?t] rest [unfolded len] by auto
    then show ?thesis using step unfolding sp(3) by (subst debug_loop.simps) (simp add: Let_def case_prod_beta)
  qed
qed

text \<open>The parameters, when their registers fit.\<close>

lemma arguments_pass:
  assumes "bytes_at (begin_of d) (stream s) (concat (map name_bytes names))" and "parameters_readable d it"
    and "pi_pos it + length names = unat (pi_size it)"
    and "unat r + sum_list (map (parameter_width d it) [pi_pos it..<unat (pi_size it)]) \<le> unat n"
  shows "\<exists>t. debug_arguments d n False (length names) r it s = Some (Inr (it\<lparr>pi_pos := unat (pi_size it)\<rparr>, t))
    \<and> stream t = stream s + length (concat (map name_bytes names)) \<and> address t = address s \<and> line t = line s \<and> context_of t = context_of s"
  using assms
proof (induction names arbitrary: s it r)
  case Nil
  then have "it\<lparr>pi_pos := unat (pi_size it)\<rparr> = it" by simp
  with Nil show ?case by simp
next
  case (Cons i names)
  have more: "pi_pos it < unat (pi_size it)" using Cons.prems(3) by simp
  with Cons.prems(2) obtain c str where c: "pi_GetDescriptor d it = Some (Some (c # str))"
    by (auto simp: parameters_readable_def dest!: spec [of _ "pi_pos it"])
  let ?r = "if c = 0x44 \<or> c = 0x4a then r + 2 else r + 1" and ?w = "if c = 0x44 \<or> c = 0x4a then 2 else 1 :: nat"
  let ?s = "s\<lparr>stream := stream s + length (name_bytes i)\<rparr>"
  have width: "parameter_width d it (pi_pos it) = ?w" using c by (simp add: parameter_width_def)
  have upt: "[pi_pos it..<unat (pi_size it)] = pi_pos it # [Suc (pi_pos it)..<unat (pi_size it)]" using more by (rule upt_conv_Cons)
  have fit: "unat r + ?w + sum_list (map (parameter_width d it) [Suc (pi_pos it)..<unat (pi_size it)]) \<le> unat n"
    using Cons.prems(4) unfolding upt by (simp add: width)
  have r: "unat ?r = unat r + ?w" using fit unat_u16_less [of n] by (auto simp: unat_add_lem [THEN iffD1])
  have "\<not> r \<ge> n" using fit by (auto simp: word_le_nat_alt split: if_splits)
  moreover have "DecodeUnsignedLeb128P1 (begin_of d) (stream s) = Some (i, stream s + length (name_bytes i))"
    using Cons.prems(1) by (simp add: name_bytes_def p1_dec_enc)
  moreover have "\<exists>t. debug_arguments d n False (length names) ?r (pi_Next it) ?s = Some (Inr ((pi_Next it)\<lparr>pi_pos := unat (pi_size (pi_Next it))\<rparr>, t))
    \<and> stream t = stream ?s + length (concat (map name_bytes names)) \<and> address t = address ?s \<and> line t = line ?s \<and> context_of t = context_of ?s"
  proof (rule Cons.IH)
    have "parameter_width d (pi_Next it) = parameter_width d it" by (auto simp: parameter_width_def pi_Next_def)
    then show "unat ?r + sum_list (map (parameter_width d (pi_Next it)) [pi_pos (pi_Next it)..<unat (pi_size (pi_Next it))]) \<le> unat n"
      using fit by (simp only: r) (simp add: pi_Next_def)
    show "bytes_at (begin_of d) (stream ?s) (concat (map name_bytes names))" using Cons.prems(1) by simp
    show "parameters_readable d (pi_Next it)" using Cons.prems(2) by (simp add: parameters_readable_def pi_Next_def)
    show "pi_pos (pi_Next it) + length names = unat (pi_size (pi_Next it))" using Cons.prems(3) by (simp add: pi_Next_def)
  qed
  moreover have "(pi_Next it)\<lparr>pi_pos := unat (pi_size (pi_Next it))\<rparr> = it\<lparr>pi_pos := unat (pi_size it)\<rparr>" by (simp add: pi_Next_def)
  ultimately show ?case using more c by (auto simp: pi_HasNext_def Let_def)
qed

lemma flush_none [simp]: "flush_locals None e n r s = Some s"
  by (induction n arbitrary: r) (simp_all add: InvokeLocalCbIfLive_def)

lemma decoder_positions:
  assumes "code_header d ci = Some (n, i, Some p)" and "bytes_at (begin_of d) p (debug_bytes ln names is)" and "list_all (insn_ok n) is"
    and "readable_prototype d idx it" and "length names = unat (pi_size it)"
    and "arguments_width d is_static it \<le> unat i" and "i \<le> n"
  shows "DecodeDebugInfo d ci is_static idx (Some cb) None c = Some (run_positions cb (debug_positions 0 ln is) c)"
proof -
  obtain m where ci: "code_registers_size d ci = Some n" "code_ins_size d ci = Some i" "code_insns_size d ci = Some m"
    "GetDebugInfoStream d ci = Some (Some p)"
    using assms(1) by (auto simp: code_header_def bind_eq_Some_conv)
  obtain method_id proto_id where proto: "GetMethodId d (unat idx) = Some method_id"
    "GetMethodPrototype d method_id = Some proto_id" "make_DexFileParameterIterator d proto_id = Some it" "parameters_readable d it"
    using assms(4) by (auto simp: readable_prototype_def prototype_of_def bind_eq_Some_conv)
  have pos: "pi_pos it = 0" using proto(3) by (auto simp: make_DexFileParameterIterator_def bind_eq_Some_conv split: option.splits)
  define k :: u32 where "k = word_of_nat (length names)"
  have k: "unat k = length names" using assms(5) by (simp add: k_def)
  define p1 p2 where "p1 = p + length (uleb ln)" and "p2 = p1 + length (uleb k)"
  let ?s = "\<lparr>stream = p2, address = 0, line = ln, local_in_reg = [], context_of = c\<rparr>" and ?r = "if is_static then n - i else n - i + 1"
  have dec: "DecodeUnsignedLeb128 (begin_of d) p = Some (ln, p1)" "DecodeUnsignedLeb128 (begin_of d) p1 = Some (k, p2)"
    "bytes_at (begin_of d) p2 (concat (map name_bytes names))"
    "bytes_at (begin_of d) (p2 + length (concat (map name_bytes names))) (concat (map insn_bytes is) @ [0x00])"
    using assms(2) by (auto simp: debug_bytes_def unsigned_leb.dec_enc p1_def p2_def k_def add.assoc)
  have sub: "unat (n - i) = unat n - unat i" "unat i \<le> unat n" using assms(7) by (simp_all add: unat_sub word_le_nat_alt)
  have "unat ?r = unat n - unat i + (if is_static then 0 else 1)"
    using sub assms(6) unat_u16_less [of n] by (auto simp: arguments_width_def unat_add_lem [THEN iffD1] split: if_splits)
  then have "unat ?r + sum_list (map (parameter_width d it) [pi_pos it..<unat (pi_size it)]) \<le> unat n"
    using assms(6) sub(2) pos by (simp add: arguments_width_def)
  from arguments_pass [of d ?s names it ?r n, OF _ proto(4) _ this] dec(3) assms(5) pos obtain t where
    t: "debug_arguments d n False (length names) ?r it ?s = Some (Inr (it\<lparr>pi_pos := unat (pi_size it)\<rparr>, t))"
    "stream t = p2 + length (concat (map name_bytes names))" "address t = 0" "line t = ln" "context_of t = c" by auto
  from loop_positions [of d t "is" n cb] dec(4) t assms(3) obtain t' where
    "debug_loop d n (Some cb) None t = Some t'" "context_of t' = run_positions cb (debug_positions 0 ln is) c" by auto
  with dec(1,2) ci proto t(1) show ?thesis
    by (simp add: DecodeDebugInfo_def DecodeDebugInfo0_def Let_def k pi_HasNext_def)
qed

text \<open>The line of an address in a table of positions: that of its first entry, else that of the last entry before it, else \<open>def\<close>.\<close>

definition line_of :: "u32 \<Rightarrow> (u32 \<times> u32) list \<Rightarrow> u32 \<Rightarrow> u32" where
  "line_of def ps pc = (case find (\<lambda>p. fst p = pc) ps of
      Some p \<Rightarrow> snd p
    | None \<Rightarrow> (let before = filter (\<lambda>p. fst p < pc) ps in if before = [] then def else snd (last before)))"

lemma run_line_number:
  "sorted (map fst ps) \<Longrightarrow> line_num (run_positions LineNumForPcCb ps c) = line_of (line_num c) ps (pc_address c)"
proof (induction ps arbitrary: c)
  case Nil
  then show ?case by (simp add: line_of_def)
next
  case (Cons p ps)
  obtain a l where p: "p = (a, l)" by (cases p)
  consider "a > pc_address c" | "a = pc_address c" | "a < pc_address c" by force
  then show ?case
  proof cases
    case 1
    with Cons.prems p have "\<forall>q \<in> set (p # ps). fst q > pc_address c" by auto
    then have "find (\<lambda>q. fst q = pc_address c) (p # ps) = None" "filter (\<lambda>q. fst q < pc_address c) (p # ps) = []"
      by (auto simp: find_None_iff filter_empty_conv)
    then show ?thesis using 1 p by (simp add: line_of_def LineNumForPcCb_def)
  next
    case 2
    then show ?thesis using p by (simp add: line_of_def LineNumForPcCb_def)
  next
    case 3
    then show ?thesis using p Cons
      by (auto simp: line_of_def LineNumForPcCb_def Let_def split: option.splits)
  qed
qed

text \<open>
  Claim C22. Line numbers survive the debug info: let a code item have debug info that encodes, as the DEX format
  says, a first line, the names of all parameters of its method, and opcodes whose registers are in the frame,
  let the descriptors of the parameters be readable, and let their registers fit into the incoming ones and these
  into the frame. If the table of positions those opcodes stand for has
  ascending addresses, \<open>GetLineNumFromPC\<close> returns for a pc the line of the first position at that pc, otherwise the line
  of the last position before it, otherwise -1.
\<close>

theorem line_numbers_found:
  assumes "GetCodeItem off = Some ci" and "code_header d ci = Some (n, i, Some p)" and "bytes_at (begin_of d) p (debug_bytes ln names is)"
    and "list_all (insn_ok n) is" and "readable_prototype d idx it" and "length names = unat (pi_size it)"
    and "arguments_width d is_static it \<le> unat i" and "i \<le> n" and "sorted (map fst (debug_positions 0 ln is))"
  shows "GetLineNumFromPC d off is_static idx pc = Some (line_of (- 1) (debug_positions 0 ln is) pc)"
  using assms(1) run_line_number [OF assms(9), of "\<lparr>pc_address = pc, line_num = - 1\<rparr>"]
  by (simp add: GetLineNumFromPC_def decoder_positions [OF assms(2-8)])

text \<open>A code item at 112 with one register and, at 128, debug info with two positions.\<close>

definition debug_file :: DexFile where
  "debug_file = \<lparr>begin_of = replicate 112 0 @ [1, 0, 0, 0, 0, 0, 0, 0, 128, 0, 0, 0, 3, 0, 0, 0] @ [5, 0, 0x0e, 0x2d, 0] @ [0, 0, 0],
     string_ids = 0, type_ids = 0, field_ids = 0, method_ids = 0, proto_ids = 0, class_defs = 0\<rparr>"

theorem line_numbers_found_witness: "GetLineNumFromPC debug_file 112 True 0 1 = Some 5 \<and> GetLineNumFromPC debug_file 112 True 0 2 = Some 6"
proof -
  let ?it = "\<lparr>type_list = None, pi_size = 0, pi_pos = 0\<rparr>" and ?is = "[Special 0 4, Special 2 5]"
  have header: "code_header debug_file 112 = Some (1, 0, Some 128)" by code_simp
  have bytes: "bytes_at (begin_of debug_file) 128 (debug_bytes 5 [] ?is)" by code_simp
  have pos: "debug_positions 0 5 ?is = [(0, 5), (2, 6)]" by code_simp
  have "prototype_of debug_file 0 = Some ?it" by code_simp
  then have proto: "readable_prototype debug_file 0 ?it" by (simp add: readable_prototype_def parameters_readable_def)
  have "GetLineNumFromPC debug_file 112 True 0 pc = Some (line_of (- 1) [(0, 5), (2, 6)] pc)" for pc
    unfolding pos [symmetric]
    by (rule line_numbers_found [OF _ header bytes _ proto]) (simp_all add: GetCodeItem_def arguments_width_def)
  then show ?thesis by (simp add: line_of_def)
qed

section \<open>Verified debug info\<close>

text \<open>The opcodes of the debug info at a pointer, as the file verifier reads them.\<close>

function opcodes_from :: "DexFileVerifier \<Rightarrow> ptr \<Rightarrow> u8 list" where
  "opcodes_from v p =
     (case load8 (file_bytes v) p of
        None \<Rightarrow> []
      | Some opcode \<Rightarrow> if opcode = 0x00 then [opcode]
          else (case debug_opcode v opcode (p + 1) of Some (Some q) \<Rightarrow> opcode # opcodes_from v q | _ \<Rightarrow> [opcode]))"
  by pat_completeness auto
termination
proof (relation "measure (\<lambda>(v, p). Size (verified_file v) - p)", goal_cases)
  case (2 v p opcode r q)
  then show ?case using debug_opcode_moves [of v opcode "p + 1" q]
    by (auto simp: load8_def Size_def split: if_splits)
qed simp

declare opcodes_from.simps [simp del]

text \<open>The number of parameter names and the opcodes of a debug info item.\<close>

definition debug_item :: "DexFileVerifier \<Rightarrow> ptr \<Rightarrow> (nat \<times> u8 list) option" where
  "debug_item v p = do {
     (_, p) \<leftarrow> DecodeUnsignedLeb128 (file_bytes v) p;
     (n, p) \<leftarrow> DecodeUnsignedLeb128 (file_bytes v) p;
     r \<leftarrow> debug_parameters v (unat n) p;
     q \<leftarrow> r;
     Some (unat n, opcodes_from v q)
   }"

lemma optional_index_P1:
  "optional_index v f p = accept q \<Longrightarrow> \<exists>i. DecodeUnsignedLeb128P1 (file_bytes v) p = Some (i, q)"
  by (auto simp: optional_index_def accepts DecodeUnsignedLeb128P1_def)

lemma debug_register_decodes:
  "debug_register v p = accept q \<Longrightarrow> \<exists>i. DecodeUnsignedLeb128 (file_bytes v) p = Some (i, q)"
  by (auto simp: debug_register_def accepts)

lemma start_local_verified:
  assumes "debug_register v (stream s) = accept p1" "optional_index v f p1 = accept p2" "optional_index v g p2 = accept p3"
    and "if extended then optional_index v h p3 = accept q else q = p3"
  shows "\<exists>stop t. start_local (verified_file v) n None extended s = Some (stop, t) \<and> (stop \<or> stream t = q)"
proof -
  from assms obtain r i j where "DecodeUnsignedLeb128 (file_bytes v) (stream s) = Some (r, p1)"
    "DecodeUnsignedLeb128P1 (file_bytes v) p1 = Some (i, p2)" "DecodeUnsignedLeb128P1 (file_bytes v) p2 = Some (j, p3)"
    by (blast dest: optional_index_P1 debug_register_decodes)
  moreover from assms(4) obtain k where
    "(if extended then DecodeUnsignedLeb128P1 (file_bytes v) p3 else Some (0, p3)) = Some (k, q)"
    by (auto dest!: optional_index_P1 split: if_splits)
  ultimately show ?thesis by (auto simp: start_local_def Let_def)
qed

lemma end_local_verified:
  assumes "debug_register v (stream s) = accept q"
  shows "\<exists>stop t. end_local (verified_file v) n None s = Some (stop, t) \<and> stream t = q"
    "\<exists>stop t. restart_local (verified_file v) n None s = Some (stop, t) \<and> stream t = q"
  using debug_register_decodes [OF assms] by (auto simp: end_local_def restart_local_def Let_def)

lemma verified_step:
  assumes "load8 (file_bytes v) (stream s) = Some opcode" "opcode \<noteq> 0" "opcode \<noteq> 0x09"
    and "debug_opcode v opcode (stream s + 1) = accept q"
  shows "\<exists>stop t. debug_step (verified_file v) n pcb None s = Some (stop, t) \<and> (stop \<or> stream t = q)"
proof -
  let ?s = "s\<lparr>stream := Suc (stream s)\<rparr>"
  consider "opcode = 1" | "opcode = 2" | "opcode = 3" | "opcode = 4" | "opcode = 5" | "opcode = 6" | "opcode = 7 \<or> opcode = 8"
    | "opcode \<notin> {0, 1, 2, 3, 4, 5, 6, 7, 8, 9}" using assms(2,3) by auto
  then show ?thesis
  proof cases
    case 3
    with assms(4) obtain p1 p2 where "debug_register v (stream ?s) = accept p1" "optional_index v string_ids_size_off p1 = accept p2"
      "optional_index v type_ids_size_off p2 = accept q" by (auto simp: debug_opcode_def accepts)
    from start_local_verified [OF this, of False] 3 assms(1) show ?thesis by (simp add: debug_step_def)
  next
    case 4
    with assms(4) obtain p1 p2 p3 where "debug_register v (stream ?s) = accept p1" "optional_index v string_ids_size_off p1 = accept p2"
      "optional_index v type_ids_size_off p2 = accept p3" "optional_index v string_ids_size_off p3 = accept q"
      by (auto simp: debug_opcode_def accepts)
    with start_local_verified [OF this(1-3), of True string_ids_size_off q n] 4 assms(1) show ?thesis by (simp add: debug_step_def)
  next
    case 5
    with end_local_verified(1) [of v ?s q n] assms show ?thesis by (auto simp: debug_step_def debug_opcode_def)
  next
    case 6
    with end_local_verified(2) [of v ?s q n] assms show ?thesis by (auto simp: debug_step_def debug_opcode_def)
  next
    case 8
    with assms show ?thesis
      by (cases "new_position pcb opcode ?s") (auto simp: debug_step_def debug_opcode_def dest!: new_position_stream)
  qed (use assms in \<open>auto simp: debug_step_def debug_opcode_def accepts\<close>)
qed

lemma verified_loop:
  "debug_opcodes v p = accept q \<Longrightarrow> 0x09 \<notin> set (opcodes_from v p) \<Longrightarrow> stream s = p \<Longrightarrow>
     \<exists>t. debug_loop (verified_file v) n pcb None s = Some t"
proof (induction v p arbitrary: s rule: debug_opcodes.induct)
  case (1 v p)
  from "1.prems"(1) obtain opcode where op: "load8 (file_bytes v) p = Some opcode"
    by (subst (asm) debug_opcodes.simps) (auto split: option.splits)
  show ?case
  proof (cases "opcode = 0")
    case True
    then show ?thesis using op "1.prems"(3) by (subst debug_loop.simps) (simp add: debug_step_def)
  next
    case False
    with "1.prems"(1) op obtain p' where p': "debug_opcode v opcode (p + 1) = accept p'" "debug_opcodes v p' = accept q"
      by (subst (asm) debug_opcodes.simps) (auto simp: accepts)
    have ops: "opcodes_from v p = opcode # opcodes_from v p'" using op False p'(1) by (subst opcodes_from.simps) simp
    from verified_step [of v s opcode p' n pcb] op False p'(1) "1.prems"(2,3) ops obtain stop t where
      t: "debug_step (verified_file v) n pcb None s = Some (stop, t)" "stop \<or> stream t = p'" by auto
    show ?thesis
    proof (cases stop)
      case True
      then show ?thesis using t(1) by (subst debug_loop.simps) simp
    next
      case False
      with t(2) "1.IH" [OF op \<open>opcode \<noteq> 0\<close> p'(1) p'(2), of t] ops "1.prems"(2) obtain t' where
        "debug_loop (verified_file v) n pcb None t = Some t'" by auto
      then show ?thesis using t(1) False by (subst debug_loop.simps) simp
    qed
  qed
qed

lemma verified_arguments:
  assumes "debug_parameters v k p = accept q" "stream s = p" "parameters_readable (verified_file v) it" "pi_pos it + k \<le> unat (pi_size it)"
  shows "\<exists>x. debug_arguments (verified_file v) n False k r it s = Some x
    \<and> (case x of Inl _ \<Rightarrow> True | Inr (it', t) \<Rightarrow> it' = it\<lparr>pi_pos := pi_pos it + k\<rparr> \<and> stream t = q)"
  using assms
proof (induction k arbitrary: p r it s)
  case (Suc k)
  from Suc.prems(1) obtain p1 where p1: "optional_index v string_ids_size_off p = accept p1" "debug_parameters v k p1 = accept q"
    by (auto simp: accepts)
  from optional_index_P1 [OF p1(1)] obtain i where i: "DecodeUnsignedLeb128P1 (file_bytes v) p = Some (i, p1)" ..
  have next_it: "pi_HasNext it" "parameters_readable (verified_file v) (pi_Next it)" "pi_pos (pi_Next it) + k \<le> unat (pi_size (pi_Next it))"
    using Suc.prems(3,4) by (simp_all add: pi_HasNext_def pi_Next_def parameters_readable_def)
  from Suc.prems(3,4) obtain c str where c: "pi_GetDescriptor (verified_file v) it = Some (Some (c # str))"
    by (auto simp: parameters_readable_def dest!: spec [of _ "pi_pos it"])
  show ?case
  proof (cases "r \<ge> n")
    case False
    obtain x where "debug_arguments (verified_file v) n False k (if c = 0x44 \<or> c = 0x4a then r + 2 else r + 1) (pi_Next it) (s\<lparr>stream := p1\<rparr>) = Some x"
      "case x of Inl _ \<Rightarrow> True | Inr (it', t) \<Rightarrow> it' = (pi_Next it)\<lparr>pi_pos := pi_pos (pi_Next it) + k\<rparr> \<and> stream t = q"
      using Suc.IH [OF p1(2) _ next_it(2,3), of "s\<lparr>stream := p1\<rparr>" "if c = 0x44 \<or> c = 0x4a then r + 2 else r + 1"] by auto
    moreover have "(pi_Next it)\<lparr>pi_pos := pi_pos (pi_Next it) + k\<rparr> = it\<lparr>pi_pos := pi_pos it + Suc k\<rparr>" by (simp add: pi_Next_def)
    ultimately show ?thesis using False next_it(1) i c Suc.prems(2) by (simp add: Let_def split: sum.splits prod.splits)
  qed (use next_it(1) in simp)
qed auto

text \<open>
  Verified debug info can be decoded: for a debug info item that \<open>CheckIntraDebugInfoItem\<close> accepts, without
  \<open>DBG_SET_FILE\<close> and with at most as many parameter names as the method has parameters, \<open>DecodeDebugInfo\<close> without a
  callback for local variables ends without leaving the file, whatever the callback for positions does.
\<close>

lemma verified_debug_info:
  assumes "CheckIntraDebugInfoItem v p = accept q" "debug_item v p = Some (names, ops)" "0x09 \<notin> set ops"
    and "readable_prototype (verified_file v) idx it" "names \<le> unat (pi_size it)"
    and "code_header (verified_file v) ci = Some (n, i, Some p)"
  shows "\<exists>c'. DecodeDebugInfo (verified_file v) ci is_static idx position_cb None c = Some c'"
proof -
  let ?d = "verified_file v"
  from assms(1,2) obtain l p1 k p2 p3 where dec: "DecodeUnsignedLeb128 (file_bytes v) p = Some (l, p1)"
    "DecodeUnsignedLeb128 (file_bytes v) p1 = Some (k, p2)" and pars: "debug_parameters v (unat k) p2 = accept p3"
    and ops: "debug_opcodes v p3 = accept q" "ops = opcodes_from v p3" "names = unat k"
    by (auto simp: CheckIntraDebugInfoItem_def debug_item_def accepts)
  from assms(6) obtain m where ci: "code_registers_size ?d ci = Some n" "code_ins_size ?d ci = Some i" "code_insns_size ?d ci = Some m"
    "GetDebugInfoStream ?d ci = Some (Some p)"
    by (auto simp: code_header_def bind_eq_Some_conv)
  from assms(4) obtain method_id proto_id where proto: "GetMethodId ?d (unat idx) = Some method_id"
    "GetMethodPrototype ?d method_id = Some proto_id" "make_DexFileParameterIterator ?d proto_id = Some it" "parameters_readable ?d it"
    by (auto simp: readable_prototype_def prototype_of_def bind_eq_Some_conv)
  have pos: "pi_pos it = 0" using proto(3) by (auto simp: make_DexFileParameterIterator_def bind_eq_Some_conv split: option.splits)
  let ?s = "\<lparr>stream = p2, address = 0, line = l, local_in_reg = [], context_of = c\<rparr>"
  have "pi_pos it + unat k \<le> unat (pi_size it)" using assms(5) ops(3) pos by simp
  from verified_arguments [OF pars _ proto(4) this, of ?s n "if is_static then n - i else n - i + 1"] obtain x where
    x: "debug_arguments ?d n False (unat k) (if is_static then n - i else n - i + 1) it ?s = Some x"
    "case x of Inl _ \<Rightarrow> True | Inr (it', t) \<Rightarrow> it' = it\<lparr>pi_pos := pi_pos it + unat k\<rparr> \<and> stream t = p3" by auto
  have "\<exists>t. (case x of Inl s \<Rightarrow> Some s
      | Inr (it, s) \<Rightarrow> if pi_HasNext it then Some s else debug_loop ?d n position_cb None s) = Some t"
    using x(2) verified_loop [OF ops(1)] assms(3) ops(2) by (auto split: sum.splits)
  with dec ci(1,2) proto(1-3) x(1) have "\<exists>t. DecodeDebugInfo0 ?d ci is_static idx position_cb None c p [] = Some t"
    by (simp add: DecodeDebugInfo0_def Let_def)
  with ci show ?thesis by (auto simp: DecodeDebugInfo_def Let_def)
qed

section \<open>Where the decoder and the verifier differ\<close>

text \<open>
  A file with one class and debug info: \<open>DBG_SET_FILE\<close> with the first string, a position at address 0 and line 5,
  and a local variable that starts in register 1 of a method with one register.
\<close>

definition misread_bytes :: buffer where
  "misread_bytes = [0x64, 0x65, 0x78, 0xa, 0x30, 0x33, 0x35, 0, 0xaf, 0x1b, 0x73, 0x9d, 0, 0, 0, 0, 0, 0, 0, 0, 0, 0, 0, 0,
    0, 0, 0, 0, 0, 0, 0, 0, 0x7c, 0x1, 0, 0, 0x70, 0, 0, 0, 0x78, 0x56, 0x34, 0x12, 0, 0, 0, 0,
    0, 0, 0, 0, 0xf4, 0, 0, 0, 0x3, 0, 0, 0, 0x70, 0, 0, 0, 0x2, 0, 0, 0, 0x7c, 0, 0, 0,
    0x1, 0, 0, 0, 0x84, 0, 0, 0, 0, 0, 0, 0, 0, 0, 0, 0, 0x1, 0, 0, 0, 0x90, 0, 0, 0,
    0x1, 0, 0, 0, 0x98, 0, 0, 0, 0xc4, 0, 0, 0, 0xb8, 0, 0, 0, 0xe1, 0, 0, 0, 0xe6, 0, 0, 0,
    0xe9, 0, 0, 0, 0, 0, 0, 0, 0x1, 0, 0, 0, 0x1, 0, 0, 0, 0x1, 0, 0, 0, 0, 0, 0, 0,
    0, 0, 0, 0, 0x2, 0, 0, 0, 0, 0, 0, 0, 0x1, 0, 0, 0, 0xff, 0xff, 0, 0, 0, 0, 0, 0,
    0xff, 0xff, 0xff, 0xff, 0, 0, 0, 0, 0xec, 0, 0, 0, 0, 0, 0, 0, 0x1, 0, 0, 0, 0, 0, 0x1, 0,
    0xd7, 0, 0, 0, 0x2, 0, 0, 0, 0, 0, 0xe, 0, 0, 0, 0, 0, 0x1, 0, 0x1, 0, 0x1, 0, 0x1, 0x5,
    0, 0x9, 0x1, 0xe, 0x3, 0x1, 0x1, 0x1, 0, 0x3, 0x4c, 0x41, 0x3b, 0, 0x1, 0x56, 0, 0x1, 0x61, 0, 0, 0, 0x1, 0,
    0, 0x9, 0xb8, 0x1, 0xb, 0, 0, 0, 0, 0, 0, 0, 0x1, 0, 0, 0, 0, 0, 0, 0, 0x1, 0, 0, 0,
    0x3, 0, 0, 0, 0x70, 0, 0, 0, 0x2, 0, 0, 0, 0x2, 0, 0, 0, 0x7c, 0, 0, 0, 0x3, 0, 0, 0,
    0x1, 0, 0, 0, 0x84, 0, 0, 0, 0x5, 0, 0, 0, 0x1, 0, 0, 0, 0x90, 0, 0, 0, 0x6, 0, 0, 0,
    0x1, 0, 0, 0, 0x98, 0, 0, 0, 0x1, 0x20, 0, 0, 0x1, 0, 0, 0, 0xb8, 0, 0, 0, 0x3, 0x20, 0, 0,
    0x1, 0, 0, 0, 0xd7, 0, 0, 0, 0x2, 0x20, 0, 0, 0x3, 0, 0, 0, 0xe1, 0, 0, 0, 0, 0x20, 0, 0,
    0x1, 0, 0, 0, 0xec, 0, 0, 0, 0, 0x10, 0, 0, 0x1, 0, 0, 0, 0xf4, 0, 0, 0]"

definition misread_file :: DexFile where
  "misread_file = \<lparr>begin_of = misread_bytes, string_ids = 112, type_ids = 124, field_ids = 0, method_ids = 144,
     proto_ids = 132, class_defs = 152\<rparr>"

definition misread_verifier :: DexFileVerifier where
  "misread_verifier = \<lparr>verified_file = misread_file, begin_address = 4, address_max = 511, stack_depth = 10\<rparr>"

text \<open>
  The decoder and the verifier read debug info differently: debug info that \<open>CheckIntraDebugInfoItem\<close> accepts and
  that has a position for address 0 gives no line for that address, because the decoder does not skip the operand
  of \<open>DBG_SET_FILE\<close> and takes it for the next opcode. With a callback for local variables the decoder, which
  compares a register with the number of registers by \<open>>\<close>, accesses the table of variables behind its end.
\<close>

lemma debug_info_misread:
  "make_DexFile misread_bytes = Some misread_file \<and> CheckIntraDebugInfoItem misread_verifier 215 = accept 225
   \<and> debug_item misread_verifier 215 = Some (0, [0x09, 0x0e, 0x03, 0x00])
   \<and> GetLineNumFromPC misread_file 184 True 0 0 = Some (- 1)
   \<and> DecodeDebugInfo misread_file 184 True 0 None (Some (\<lambda>reg s e name descriptor sig n. n + 1)) (0 :: nat) = None"
proof (intro conjI)
  show "make_DexFile misread_bytes = Some misread_file" by code_simp
  show "CheckIntraDebugInfoItem misread_verifier 215 = accept 225" by code_simp
  show "debug_item misread_verifier 215 = Some (0, [0x09, 0x0e, 0x03, 0x00])" by code_simp
  show "GetLineNumFromPC misread_file 184 True 0 0 = Some (- 1)" by code_simp
  show "DecodeDebugInfo misread_file 184 True 0 None (Some (\<lambda>reg s e name descriptor sig n. n + 1)) (0 :: nat) = None" by code_simp
qed

end
