(* ===== verification/Spec2Isabelle.thy ===== *)
theory Spec2Isabelle
  imports Instruction CodeItem Unpacker CodeFlow VerifiedStrings VerifiedClasses VerifiedCode DebugInfo
begin
text \<open>
  A verification development for Karl Geraet U, an unpacker for Android applications built into the
  Android runtime (\<open>src/art/\<close>).

  \<^bold>\<open>The program.\<close> A packed application hides its bytecode and restores it at run time. The unpacker hooks
  \<open>ArtMethod::Invoke\<close> and the interpreter: when a method of the configured process runs, its DEX file is
  in memory and is written to storage, at one of three levels: as it is (\<open>dump_dex\<close>), after forcing the
  initialisation of its classes (\<open>dump_dex_after_init\<close>), or rebuilt from collected method bodies and class
  data (\<open>build_dex\<close>). Which processes, classes and files are unpacked is read from a configuration
  directory (\<open>gerat/filter\<close>, \<open>gerat/util\<close>). For the third level a method is invoked by force in the switch
  interpreter; when an \<open>invoke-static\<close> has rewritten the instructions of its caller, which the
  interpreter notices by comparing hashes, the code item is handed to the builder. All of this reads and
  writes DEX files with the runtime's own routines, and runs the bytecode that the runtime's verifier
  accepted.

  \<^bold>\<open>The theories\<close>, in the order of their imports (paths below \<open>src/art/runtime/\<close>):

  \<^item> \<open>Prelude\<close>: integer types, byte buffers with bounds (\<open>load8\<close>, \<open>load16\<close>, \<open>load32\<close>, \<open>store8\<close>, \<open>store32\<close>,
    \<open>memcpy\<close>; an access outside the buffer is \<open>None\<close>), rounding, binary search, shared lemmas.
  \<^item> \<open>Leb128\<close>: \<open>leb128.h\<close>. Round trips of both codecs, sizes, agreement of the two encoder families, the
    in-place update. The locale of a codec is interpreted on each encoder with its decoder.
  \<^item> \<open>Utf\<close>: \<open>utf.cc\<close>, \<open>utf-inl.h\<close>. Round trip between UTF-16 and modified UTF-8; both comparisons are the
    order of UTF-16 sequences, and where they differ; the string hash.
  \<^item> \<open>DexFile\<close>: header, id tables, strings and lookups of \<open>dex_file.h\<close>, \<open>dex_file-inl.h\<close>, \<open>dex_file.cc\<close>. The
    five binary searches are one locale, interpreted on each table: a search finds the entry exactly when
    there is one; the search for UTF-16 strings, which goes the wrong way, finds the middle entry only.
  \<^item> \<open>ClassData\<close>: \<open>ClassDataItemIterator\<close>. \<open>CodeItem\<close>: code items, try blocks, the catch-handler iterator
    and encoded integers: the handler that covers an address is found, catch lists round-trip.
  \<^item> \<open>Instruction\<close>: \<open>dex_instruction_list.h\<close>, \<open>dex_instruction.h\<close>, \<open>dex_instruction-inl.h\<close>,
    \<open>dex_instruction.cc\<close>: the table of 256 opcodes, the operand accessors, sizes and setters. Reading the
    operands of an instruction stays within the instruction.
  \<^item> \<open>StaticVerifier\<close>: \<open>verifier/instruction_flags.h\<close> and the static pass of \<open>verifier/method_verifier.cc\<close>.
    Accepted code has operands within the frame and the id tables, and branch, switch and handler targets
    at instructions; what the pass does not check is stated as well.
  \<^item> \<open>UnpackFilter\<close>: \<open>gerat/util/Utilproc\<close>, \<open>gerat/filter\<close>: configuration files, name lists, the hash of a
    method's instructions.
  \<^item> \<open>DexBuilder\<close>: the builder of \<open>art_method.h\<close> and \<open>art_method.cc\<close> with \<open>gerat/util/Defs\<close>: class data
    written by the builder is what the iterator reads back, class definitions and code offsets of the
    rebuilt file point at it, the file fits its buffer exactly under a stated condition and opens again.
  \<^item> \<open>Unpacker\<close>: the globals and the three dump functions of \<open>art_method.cc\<close>, the hook of
    \<open>ArtMethod::Invoke\<close>, and interleavings of two threads in it: what is written, how often, in which
    order, and what a race can do.
  \<^item> \<open>ShadowFrame\<close>: \<open>ShadowFrame\<close> of \<open>stack.h\<close> and the arithmetic of \<open>interpreter/interpreter_common.h\<close>:
    register accesses, Java's division on top of the partial one of C++, the two switch instructions, and the visit of a
    moving collector, which renames exactly the references.
  \<^item> \<open>Interpreter\<close>: \<open>interpreter/interpreter_switch_impl.cc\<close>: one handler per case, the table \<open>handlers\<close> by
    opcode, \<open>step\<close> for a turn of the loop, \<open>run\<close> for the loop, \<open>ExecuteSwitchImpl\<close> with the unpacker's hook.
  \<^item> \<open>InterpreterSafety\<close>: the interpreter on code the static pass accepts: every turn is defined, so no
    access leaves the frame or the code, the frame stays well-formed, and the loop follows the static
    control flow. The conditions are those of \<open>sound_run\<close>: no access checks, answers of the runtime that keep frame
    and code, readable catch tables, and array payloads below \<open>2\<^sup>3\<^sup>1\<close> bytes.
  \<^item> \<open>CodeFlow\<close>: the code flow pass of \<open>verifier/method_verifier.cc\<close>, a work list over the reachable instructions,
    with the computation on register types as an argument. The instructions it visits are closed under
    the control flow, so the interpreter stays within them (\<open>execution_follows_flow\<close>); code without
    backward branches returns (\<open>forward_code_returns\<close>). The pass takes \<open>monitor-exit\<close> not to throw, so both are about
    executions in which no \<open>monitor-exit\<close> enters a catch handler (\<open>quiet_exit\<close>).
  \<^item> \<open>Descriptor\<close>: member names, class names and descriptors of \<open>utils.cc\<close>. On every well-formed string the checks
    decide the grammar of the DEX format, which is written on UTF-16 units and independently of the code; bytes that
    are not well-formed can take the terminator with them (\<open>terminator_taken\<close>).
  \<^item> \<open>DexFileVerifier\<close>: \<open>dex_file_verifier.cc\<close>: header, map, the pass over every section (\<open>CheckIntraSection\<close>) with the
    map of checked items, and the pass over the references between them (\<open>CheckInterSection\<close>). A check is a
    value of type \<open>verdict\<close>: rejected, accepted with a result, or undefined where the code reads outside
    the file. \<open>SampleFile\<close>: two accepted files, one of which shows that the alignment of a table is not checked.
  \<^item> \<open>DebugInfo\<close>: the decoder of debug info in \<open>dex_file.cc\<close>. Encoded line tables are looked up correctly
    (\<open>line_numbers_found\<close>); debug info the file verifier accepts is decoded inside the file, unless it has
    \<open>DBG_SET_FILE\<close>, which the two read differently (\<open>verified_debug_info\<close>, \<open>debug_info_misread\<close>).
  \<^item> \<open>VerifiedFile\<close>, \<open>VerifiedStrings\<close>, \<open>VerifiedClasses\<close>, \<open>VerifiedCode\<close>: what acceptance gives the readers of a file.
    A table of ids is a locale (\<open>id_section\<close>, \<open>ordered_section\<close>), interpreted on each table: its entries were checked,
    in the order the binary searches of \<open>DexFile\<close> need. Strings are well-formed and found; the iterator over class
    data ends inside the file and leads to checked code items; and with the static pass of \<open>StaticVerifier\<close> a
    checked code item has the catch handlers that \<open>InterpreterSafety\<close> asks for.

  \<^bold>\<open>State and errors.\<close> Structures are records, memory regions are byte or code-unit lists, pointers into them
  are offsets. A function that may leave its buffer, fail an assertion or dereference a null pointer
  returns an option; \<open>None\<close> is that failure and never a value of the code. Errors the code reports
  (verification failures, exceptions of the interpreted program) are values of their own. Integers are
  words of the width of the source where they can wrap, and naturals for positions in buffers.

  \<^bold>\<open>Loops and bounds.\<close> Loops over counted data are structural or have a measure. Loops whose end depends
  on the data are \<open>partial_function (option)\<close>: the loops of the verifier (\<open>mark_try\<close>,
  \<open>verify_loop\<close>, \<open>flow_loop\<close>), and the interpreter loop (\<open>run\<close>), which need not return. Size hypotheses are
  those under which an address computation of the source does not wrap: fewer than \<open>2\<^sup>3\<^sup>0\<close> code units in a
  method, buffers below \<open>2\<^sup>3\<^sup>1\<close> bytes, a verified file four bytes below \<open>2\<^sup>3\<^sup>2\<close>. The recursion of the file verifier over
  encoded values is bounded by the depth of the C stack, \<open>stack_depth\<close>: a deeper value is undefined. The array payload, where the code itself wraps, is stated both ways.

  \<^bold>\<open>Parameters.\<close> The class linker, the managed heap, monitors and the callees of an invoke answer requests
  of the interpreter and the unpacker; a function argument (\<open>answer\<close>, the system record) stands for them,
  and every theorem holds for all its values unless it names an assumption. The same holds for the
  floating-point unit, the file system, and the checksum of zlib that the file verifier compares.

  \<^bold>\<open>Not modelled.\<close> The register types of the verifier (a lattice over the classes of the class linker),
  the class linker, the garbage collector, threads and signals, the compilers and their
  code generators, JNI, debugger and tools, OAT, ELF and zip files: parts of the runtime that the unpacker
  does not change and whose behaviour is that of raw memory, of the operating system or of generated code.
\<close>
end
